(* ===== verification/Prelude.thy ===== *)
theory Prelude
  imports Main "HOL-Library.Word" "HOL-Library.AList" "HOL-Library.Char_ord"
    "HOL-Library.List_Lexorder" "HOL-Library.Option_ord" "HOL-Library.Sublist"
    "HOL-Library.Multiset"
begin

unbundle bit_operations_syntax

text \<open>
  Shared ground of the development: machine integer types, the little-endian byte
  encodings, the parts of Rust's string API that the sources call, association lists as
  database tables, and the small lemmas on them that the component theories use.

  A Rust string is a list of characters. Isabelle's \<^typ>\<open>char\<close> has the 256 code points
  below U+0100, so the model covers strings over those; the whitespace test is Rust's
  (\<open>char::is_whitespace\<close>) on that range.
\<close>

named_theorems str_simps "evaluation rules of the string helpers"
named_theorems tbl_simps "lookup and update rules of association-list tables"

type_synonym u8 = "8 word"
type_synonym u16 = "16 word"
type_synonym u32 = "32 word"
type_synonym u64 = "64 word"

section \<open>Little-endian integers\<close>

fun le_bytes :: "nat \<Rightarrow> nat \<Rightarrow> u8 list" where
  "le_bytes 0 n = []"
| "le_bytes (Suc k) n = word_of_nat (n mod 256) # le_bytes k (n div 256)"

fun from_le :: "u8 list \<Rightarrow> nat" where
  "from_le [] = 0"
| "from_le (b # bs) = unat b + 256 * from_le bs"

lemma length_le_bytes [simp]: "length (le_bytes k n) = k"
  by (induction k n rule: le_bytes.induct) auto

lemma unat_of_nat_byte [simp]: "unat (word_of_nat (n mod 256) :: u8) = n mod 256"
proof -
  have "n mod 256 < 2 ^ LENGTH(8)" by simp
  then show ?thesis by (simp add: unsigned_of_nat take_bit_eq_mod)
qed

lemma from_le_le_bytes: "from_le (le_bytes k n) = n mod 256 ^ k"
proof (induction k n rule: le_bytes.induct)
  case (2 k n)
  have "n mod (256 * 256 ^ k) = 256 * (n div 256 mod 256 ^ k) + n mod 256"
    by (rule mod_mult2_eq)
  with 2 show ?case by simp
qed simp

lemma from_le_bound: "from_le bs < 256 ^ length bs"
proof (induction bs)
  case (Cons b bs)
  have "unat b < 256" using unsigned_less [of b] by simp
  with Cons show ?case by simp
qed simp

lemma from_le_le_bytes_small: "n < 256 ^ k \<Longrightarrow> from_le (le_bytes k n) = n"
  by (simp add: from_le_le_bytes)

section \<open>Slices\<close>

abbreviation slice :: "'a list \<Rightarrow> nat \<Rightarrow> nat \<Rightarrow> 'a list" where
  "slice xs i j \<equiv> take (j - i) (drop i xs)"

lemma slice_append_drop: "i \<le> j \<Longrightarrow> slice xs i j @ drop j xs = drop i xs"
  by (metis append_take_drop_id drop_drop le_add_diff_inverse2)

lemma take_append_slice: "i \<le> j \<Longrightarrow> take i xs @ slice xs i j = take j xs"
  by (metis le_add_diff_inverse take_add)

lemma length_slice: "j \<le> length xs \<Longrightarrow> i \<le> j \<Longrightarrow> length (slice xs i j) = j - i"
  by simp

section \<open>Strings\<close>

definition is_whitespace :: "char \<Rightarrow> bool" where
  "is_whitespace c \<longleftrightarrow> (let n = of_char c :: nat in
     (9 \<le> n \<and> n \<le> 13) \<or> n = 32 \<or> n = 133 \<or> n = 160)"

definition trim_start :: "string \<Rightarrow> string" where
  "trim_start = dropWhile is_whitespace"

definition trim_end_matches :: "(char \<Rightarrow> bool) \<Rightarrow> string \<Rightarrow> string" where
  "trim_end_matches p s = rev (dropWhile p (rev s))"

definition trim :: "string \<Rightarrow> string" where
  "trim s = trim_end_matches is_whitespace (trim_start s)"

definition is_ascii_upper :: "char \<Rightarrow> bool" where
  "is_ascii_upper c \<longleftrightarrow> (let n = of_char c :: nat in 65 \<le> n \<and> n \<le> 90)"

definition is_ascii_digit :: "char \<Rightarrow> bool" where
  "is_ascii_digit c \<longleftrightarrow> (let n = of_char c :: nat in 48 \<le> n \<and> n \<le> 57)"

definition is_ascii_alphanumeric :: "char \<Rightarrow> bool" where
  "is_ascii_alphanumeric c \<longleftrightarrow> (let n = of_char c :: nat in
     (48 \<le> n \<and> n \<le> 57) \<or> (65 \<le> n \<and> n \<le> 90) \<or> (97 \<le> n \<and> n \<le> 122))"

definition ascii_lower_char :: "char \<Rightarrow> char" where
  "ascii_lower_char c = (if is_ascii_upper c then char_of (of_char c + 32 :: nat) else c)"

definition to_ascii_lowercase :: "string \<Rightarrow> string" where
  "to_ascii_lowercase = map ascii_lower_char"

definition eq_ignore_ascii_case :: "string \<Rightarrow> string \<Rightarrow> bool" where
  "eq_ignore_ascii_case a b \<longleftrightarrow> to_ascii_lowercase a = to_ascii_lowercase b"

definition strip_prefix :: "'a list \<Rightarrow> 'a list \<Rightarrow> 'a list option" where
  "strip_prefix s p = (if take (length p) s = p then Some (drop (length p) s) else None)"

definition starts_with :: "'a list \<Rightarrow> 'a list \<Rightarrow> bool" where
  "starts_with s p \<longleftrightarrow> take (length p) s = p"

fun split_on :: "('a \<Rightarrow> bool) \<Rightarrow> 'a list \<Rightarrow> 'a list list" where
  "split_on p [] = [[]]"
| "split_on p (c # cs) =
     (if p c then [] # split_on p cs
      else (case split_on p cs of [] \<Rightarrow> [[c]] | w # ws \<Rightarrow> (c # w) # ws))"

fun join_with :: "string \<Rightarrow> string list \<Rightarrow> string" where
  "join_with sep [] = []"
| "join_with sep [w] = w"
| "join_with sep (w # v # ws) = w @ sep @ join_with sep (v # ws)"

text \<open>\<open>str::contains\<close> and \<open>str::split_once\<close>: the first occurrence of a pattern.\<close>

fun split_once :: "'a list \<Rightarrow> 'a list \<Rightarrow> ('a list \<times> 'a list) option" where
  "split_once p [] = (if p = [] then Some ([], []) else None)"
| "split_once p (c # cs) =
     (if starts_with (c # cs) p then Some ([], drop (length p) (c # cs))
      else map_option (\<lambda>(a, b). (c # a, b)) (split_once p cs))"

definition str_contains :: "'a list \<Rightarrow> 'a list \<Rightarrow> bool" where
  "str_contains s p \<longleftrightarrow> split_once p s \<noteq> None"

text \<open>\<open>str::lines\<close>: the text after the last line feed is a line only if it is not empty, and a line
  loses one trailing carriage return. \<open>str::split_whitespace\<close>: the maximal runs of other characters.\<close>

definition strip_cr :: "string \<Rightarrow> string" where
  "strip_cr w = (if w \<noteq> [] \<and> last w = CHR 0x0D then butlast w else w)"

definition str_lines :: "string \<Rightarrow> string list" where
  "str_lines s = (let ws = split_on (\<lambda>c. c = CHR 0x0A) s
     in map strip_cr (if last ws = [] then butlast ws else ws))"

definition split_whitespace :: "string \<Rightarrow> string list" where
  "split_whitespace s = filter (\<lambda>w. w \<noteq> []) (split_on is_whitespace s)"

lemma split_on_nonempty [simp]: "split_on p s \<noteq> []"
  by (induction s) (auto split: list.splits)

lemma split_on_no_sep: "w \<in> set (split_on p s) \<Longrightarrow> c \<in> set w \<Longrightarrow> \<not> p c"
proof (induction s arbitrary: w)
  case (Cons x s)
  obtain v vs where v: "split_on p s = v # vs"
    by (cases "split_on p s") auto
  then have IH: "\<And>w. w = v \<or> w \<in> set vs \<Longrightarrow> c \<in> set w \<Longrightarrow> \<not> p c"
    using Cons.IH Cons.prems(2) by auto
  show ?case
    using Cons.prems v IH [of v] IH [of w] by (auto split: if_splits)
qed simp

lemma split_on_id: "\<forall>c\<in>set s. \<not> p c \<Longrightarrow> split_on p s = [s]"
  by (induction s) auto

lemma split_on_append:
  "\<forall>c\<in>set s. \<not> p c \<Longrightarrow> p x \<Longrightarrow> split_on p (s @ x # t) = s # split_on p t"
  by (induction s) auto

lemma split_on_join:
  assumes "ws \<noteq> []" and "\<forall>w\<in>set ws. \<forall>c\<in>set w. c \<noteq> x"
  shows "split_on (\<lambda>c. c = x) (join_with [x] ws) = ws"
  using assms
proof (induction "[x]" ws rule: join_with.induct)
  case (2 w)
  then show ?case by (simp add: split_on_id)
next
  case (3 w v ws)
  then show ?case by (simp add: split_on_append)
qed simp

lemma starts_with_append [simp]: "starts_with (p @ s) p"
  by (simp add: starts_with_def)

lemma starts_with_iff: "starts_with s p \<longleftrightarrow> (\<exists>t. s = p @ t)"
  by (metis append_eq_conv_conj append_take_drop_id starts_with_def)

lemma strip_prefix_Some_iff: "strip_prefix s p = Some t \<longleftrightarrow> s = p @ t"
  by (metis append_eq_conv_conj option.inject option.simps(3) strip_prefix_def)

lemma trim_no_ws: "s \<noteq> [] \<Longrightarrow> \<not> is_whitespace (hd s) \<Longrightarrow> \<not> is_whitespace (last s) \<Longrightarrow> trim s = s"
proof -
  assume s: "s \<noteq> []" and h: "\<not> is_whitespace (hd s)" and l: "\<not> is_whitespace (last s)"
  have "dropWhile is_whitespace s = s"
    using s h by (cases s) auto
  moreover have "dropWhile is_whitespace (rev s) = rev s"
    using s l by (cases s rule: rev_cases) auto
  ultimately show ?thesis
    by (simp add: trim_def trim_start_def trim_end_matches_def)
qed

text \<open>Evaluation of the string helpers on concrete text.\<close>

lemmas [str_simps] = trim_def trim_start_def trim_end_matches_def is_whitespace_def
  is_ascii_upper_def is_ascii_digit_def is_ascii_alphanumeric_def ascii_lower_char_def
  to_ascii_lowercase_def eq_ignore_ascii_case_def strip_prefix_def starts_with_def
  str_contains_def char_of_def bit_iff_odd

section \<open>Results\<close>

text \<open>A sequence of checks that stops at the first \<open>bail!\<close>, and a \<open>HashSet\<close> used to drop or
  reject repetitions.\<close>

fun first_error :: "('e + unit) list \<Rightarrow> 'e + unit" where
  "first_error [] = Inr ()"
| "first_error (Inl e # rs) = Inl e"
| "first_error (Inr u # rs) = first_error rs"

definition bail_if :: "bool \<Rightarrow> 'e \<Rightarrow> 'e + unit" where
  "bail_if b e = (if b then Inl e else Inr ())"

lemma first_error_ok: "first_error rs = Inr () \<longleftrightarrow> (\<forall>r\<in>set rs. r = Inr ())"
  by (induction rs rule: first_error.induct) auto

lemma bail_if_ok [simp]: "bail_if b e = Inr () \<longleftrightarrow> \<not> b"
  by (simp add: bail_if_def)

lemma first_error_append:
  "first_error (xs @ ys) = (case first_error xs of Inl e \<Rightarrow> Inl e | Inr u \<Rightarrow> first_error ys)"
  by (induction xs rule: first_error.induct) auto

text \<open>The first member of each key class, in order: the \<open>seen.insert(key)\<close> idiom.\<close>

fun dedup_by :: "('a \<Rightarrow> 'k) \<Rightarrow> 'k list \<Rightarrow> 'a list \<Rightarrow> 'a list" where
  "dedup_by f seen [] = []"
| "dedup_by f seen (x # xs) =
     (if f x \<in> set seen then dedup_by f seen xs else x # dedup_by f (f x # seen) xs)"

lemma dedup_by_distinct:
  "distinct (map f (dedup_by f seen xs)) \<and> set (map f (dedup_by f seen xs)) \<inter> set seen = {}"
  by (induction f seen xs rule: dedup_by.induct) auto

lemma dedup_by_subset: "set (dedup_by f seen xs) \<subseteq> set xs"
  by (induction f seen xs rule: dedup_by.induct) auto

lemma dedup_by_keys: "f ` set (dedup_by f seen xs) = f ` set xs - set seen"
  by (induction f seen xs rule: dedup_by.induct) auto

lemma dedup_by_id:
  "distinct (map f xs) \<Longrightarrow> set (map f xs) \<inter> set seen = {} \<Longrightarrow> dedup_by f seen xs = xs"
  by (induction f seen xs rule: dedup_by.induct) auto

text \<open>Decimal numbers as \<open>str::parse\<close> reads them into an unsigned type with maximum \<open>m\<close>.\<close>

definition digit_val :: "char \<Rightarrow> nat" where
  "digit_val c = of_char c - 48"

definition parse_unsigned :: "nat \<Rightarrow> string \<Rightarrow> nat option" where
  "parse_unsigned m s =
     (let ds = (case s of CHR ''+'' # t \<Rightarrow> t | _ \<Rightarrow> s)
      in if ds = [] \<or> \<not> list_all is_ascii_digit ds then None
         else let n = fold (\<lambda>c a. 10 * a + digit_val c) ds 0 in if n \<le> m then Some n else None)"

section \<open>Tables\<close>

text \<open>
  A database table with a primary key is an association list. \<open>INSERT .. ON CONFLICT DO
  UPDATE\<close> is \<^const>\<open>AList.update\<close>, \<open>DELETE\<close> by key is \<^const>\<open>AList.delete\<close>, and a query by
  key is \<^const>\<open>map_of\<close>.
\<close>

declare AList.update_conv [tbl_simps] AList.delete_conv [tbl_simps]

lemma tbl_update_lookup [tbl_simps]:
  "map_of (AList.update k v t) j = (if j = k then Some v else map_of t j)"
  by (simp add: AList.update_conv)

lemma tbl_delete_lookup [tbl_simps]:
  "map_of (AList.delete k t) j = (if j = k then None else map_of t j)"
  by (simp add: AList.delete_conv)

lemma filter_empty_set: "filter P xs = [] \<longleftrightarrow> (\<forall>x\<in>set xs. \<not> P x)"
  by (simp add: filter_empty_conv)

lemma find_Some_set: "List.find P xs = Some x \<Longrightarrow> x \<in> set xs \<and> P x"
  by (auto simp: find_Some_iff)

end
