(* ===== verification/Delta.thy ===== *)
theory Delta
  imports Prelude
begin

text \<open>
  The rolling-checksum block delta of \<open>src/src/core/sync/delta.rs\<close>: block sums of the basis
  file, the encoder \<open>build_delta\<close> run by the source and the decoder \<open>apply_delta\<close> run by the
  destination.

  The strong hash \<open>blake3\<close> is third-party code and a parameter. A seekable basis file is its
  byte list; a \<open>Read\<close> stream is the list of what its successive \<open>read\<close> calls deliver. The
  \<open>HashMap\<close> from weak sums to block indices is a map (its hasher is a performance choice and
  is not modelled). Sizes are \<^typ>\<open>nat\<close> where the code has \<open>usize\<close>; the 32 and 64 bit fields
  of the encoding are truncated as the code's casts do.
\<close>

section \<open>Data\<close>

definition BLOCK_SIZE :: nat where "BLOCK_SIZE = 700"
definition MAX_BLOCK_SIZE :: nat where "MAX_BLOCK_SIZE = 128 * 1024"
definition STRONG_LEN :: nat where "STRONG_LEN = 16"

definition OP_LITERAL :: u8 where "OP_LITERAL = 0"
definition OP_COPY :: u8 where "OP_COPY = 1"
definition OP_END :: u8 where "OP_END = 2"

record BlockSum =
  weak :: u32
  strong :: "u8 list"

record BlockSums =
  block_len :: u32
  file_size :: u64
  blocks :: "BlockSum list"

text \<open>
  \<open>(len as f64).sqrt() as usize\<close> is the integer square root wherever the result matters: a
  root below \<open>2\<^sup>1\<^sup>7\<close> belongs to a length below \<open>2\<^sup>3\<^sup>4\<close>, where \<open>f64\<close> is exact enough for the
  truncation, and every larger root is clamped to \<^const>\<open>MAX_BLOCK_SIZE\<close>.
\<close>

fun isqrt :: "nat \<Rightarrow> nat" where
  "isqrt n = (if n = 0 then 0
     else let r = 2 * isqrt (n div 4) in if (r + 1) * (r + 1) \<le> n then r + 1 else r)"

declare isqrt.simps [simp del]

definition block_len_for :: "nat \<Rightarrow> nat" where
  "block_len_for len =
     (if len \<le> BLOCK_SIZE * BLOCK_SIZE then BLOCK_SIZE
      else let blength = isqrt len; blength = blength - blength mod 8
           in max BLOCK_SIZE (min blength MAX_BLOCK_SIZE))"

definition strong_hash :: "(u8 list \<Rightarrow> u8 list) \<Rightarrow> u8 list \<Rightarrow> u8 list" where
  "strong_hash blake3 block = take STRONG_LEN (blake3 block)"

record Rolling =
  ra :: u32
  rb :: u32
  rlen :: u32

definition Rolling_new :: "u8 list \<Rightarrow> Rolling" where
  "Rolling_new window =
     (let len = word_of_nat (length window) :: u32;
          (a, b) = fold (\<lambda>(i, byte) (a, b).
             (a + ucast byte, b + (len - word_of_nat i) * ucast byte))
             (List.enumerate 0 window) (0, 0)
      in \<lparr>ra = a, rb = b, rlen = len\<rparr>)"

definition Rolling_digest :: "Rolling \<Rightarrow> u32" where
  "Rolling_digest r = (ra r AND 0xffff) OR push_bit 16 (rb r)"

definition Rolling_roll :: "Rolling \<Rightarrow> u8 \<Rightarrow> u8 \<Rightarrow> Rolling" where
  "Rolling_roll r out inb =
     (let a = ra r - ucast out + ucast inb
      in r\<lparr>ra := a, rb := rb r - rlen r * ucast out + a\<rparr>)"

section \<open>Block sums\<close>

function block_sums_from :: "(u8 list \<Rightarrow> u8 list) \<Rightarrow> u8 list \<Rightarrow> nat \<Rightarrow> nat \<Rightarrow> BlockSum list" where
  "block_sums_from blake3 data bl offset =
     (if 0 < bl \<and> offset + bl \<le> length data
      then let block = slice data offset (offset + bl)
           in \<lparr>weak = Rolling_digest (Rolling_new block), strong = strong_hash blake3 block\<rparr>
              # block_sums_from blake3 data bl (offset + bl)
      else [])"
  by pat_completeness auto
termination
  by (relation "measure (\<lambda>(_, data, _, offset). length data - offset)") auto

declare block_sums_from.simps [simp del]

definition compute_block_sums :: "(u8 list \<Rightarrow> u8 list) \<Rightarrow> u8 list \<Rightarrow> nat \<Rightarrow> BlockSum list" where
  "compute_block_sums blake3 data bl =
     (if bl = 0 then [] else block_sums_from blake3 data bl 0)"

text \<open>
  A reader is what its successive calls deliver: \<open>Chunk bs\<close> hands out the bytes \<open>bs\<close>, over
  several calls when the buffer is smaller; \<open>Fail\<close> is an I/O error; an empty chunk or the end
  of the list is the \<open>0\<close> that means end of file.
\<close>

datatype read_event = Chunk "u8 list" | Fail

fun read_call :: "read_event list \<Rightarrow> nat \<Rightarrow> (unit + u8 list \<times> read_event list)" where
  "read_call [] k = Inr ([], [])"
| "read_call (Fail # r) k = Inl ()"
| "read_call (Chunk bs # r) k =
     (if length bs \<le> k then Inr (bs, r) else Inr (take k bs, Chunk (drop k bs) # r))"

lemma read_call_shrinks:
  assumes "read_call r k = Inr (bs, r')" and "bs \<noteq> []"
  shows "(length bs = k \<and> length r' \<le> length r) \<or> (length r' < length r)"
  using assms by (cases "(r, k)" rule: read_call.cases) (auto split: if_splits)

text \<open>The inner loop fills \<open>buf\<close> up to the block length; \<open>None\<close> stands for a short tail.\<close>

function fill_block :: "read_event list \<Rightarrow> u8 list \<Rightarrow> nat \<Rightarrow> (unit + u8 list \<times> read_event list)" where
  "fill_block r buf bl =
     (if length buf < bl
      then (case read_call r (bl - length buf) of
              Inl e \<Rightarrow> Inl e
            | Inr (bs, r') \<Rightarrow> if bs = [] then Inr (buf, r') else fill_block r' (buf @ bs) bl)
      else Inr (buf, r))"
  by pat_completeness auto
termination
proof (relation "measures [\<lambda>(r, _, _). length r, \<lambda>(_, buf, bl). bl - length buf]", goal_cases)
  case 1
  then show ?case by simp
next
  case (2 r buf bl x bs r')
  then have "length bs = bl - length buf \<and> length r' \<le> length r \<or> length r' < length r"
    using read_call_shrinks [of r "bl - length buf" bs r'] by auto
  with 2 show ?case by auto
qed

declare fill_block.simps [simp del]

fun pending :: "read_event list \<Rightarrow> u8 list" where
  "pending [] = []"
| "pending (Chunk bs # r) = bs @ pending r"
| "pending (Fail # r) = pending r"

lemma read_call_pending: "read_call r k = Inr (bs, r') \<Longrightarrow> pending r = bs @ pending r'"
  by (cases "(r, k)" rule: read_call.cases) (auto split: if_splits)

lemma fill_block_pending: "fill_block r buf bl = Inr (buf', r') \<Longrightarrow> buf @ pending r = buf' @ pending r'"
proof (induction r buf bl rule: fill_block.induct)
  case (1 r buf bl)
  show ?case
    using 1(2) 1(1) by (auto simp: fill_block.simps [of r buf bl] dest: read_call_pending
      split: if_splits sum.splits)
qed

function sums_from_reader ::
    "(u8 list \<Rightarrow> u8 list) \<Rightarrow> read_event list \<Rightarrow> nat \<Rightarrow> BlockSum list \<Rightarrow> unit + BlockSum list" where
  "sums_from_reader blake3 r bl acc =
     (if bl = 0 then Inr acc
      else case fill_block r [] bl of
        Inl e \<Rightarrow> Inl e
      | Inr (buf, r') \<Rightarrow>
          if length buf < bl then Inr acc
          else sums_from_reader blake3 r' bl
            (acc @ [\<lparr>weak = Rolling_digest (Rolling_new buf), strong = strong_hash blake3 buf\<rparr>]))"
  by pat_completeness auto
termination
  by (relation "measure (\<lambda>(_, r, _, _). length (pending r))")
    (auto dest!: fill_block_pending)

declare sums_from_reader.simps [simp del]

definition compute_block_sums_from_reader ::
    "(u8 list \<Rightarrow> u8 list) \<Rightarrow> read_event list \<Rightarrow> nat \<Rightarrow> unit + BlockSum list" where
  "compute_block_sums_from_reader blake3 reader bl = sums_from_reader blake3 reader bl []"

section \<open>The encoder\<close>

definition emit_literal :: "u8 list \<Rightarrow> u8 list \<Rightarrow> u8 list" where
  "emit_literal out data =
     (if data = [] then out
      else out @ [OP_LITERAL] @ le_bytes 4 (unat (word_of_nat (length data) :: u32)) @ data)"

definition emit_copy :: "u8 list \<Rightarrow> u64 \<Rightarrow> u32 \<Rightarrow> u8 list" where
  "emit_copy out offset len =
     out @ [OP_COPY] @ le_bytes 8 (unat offset) @ le_bytes 4 (unat len)"

type_synonym weak_map = "u32 \<Rightarrow> nat list option"

definition weak_sum_map :: "BlockSum list \<Rightarrow> weak_map" where
  "weak_sum_map bs = fold (\<lambda>(idx, b) m.
     m(weak b \<mapsto> (case m (weak b) of None \<Rightarrow> [] | Some l \<Rightarrow> l) @ [idx]))
     (List.enumerate 0 bs) Map.empty"

text \<open>The candidate scan: the first listed block whose strong hash agrees.\<close>

definition match_block ::
    "(u8 list \<Rightarrow> u8 list) \<Rightarrow> weak_map \<Rightarrow> BlockSum list \<Rightarrow> u32 \<Rightarrow> u8 list \<Rightarrow> nat option" where
  "match_block blake3 m bs dig window =
     (case m dig of None \<Rightarrow> None
      | Some candidates \<Rightarrow>
          let h = strong_hash blake3 window
          in List.find (\<lambda>bi. strong (bs ! bi) = h) candidates)"

text \<open>The scanning loop; its result is the final \<open>(lit_start, out)\<close>. \<open>build_delta\<close> has
  returned before the loop when the block length is zero.\<close>

function build_loop :: "(u8 list \<Rightarrow> u8 list) \<Rightarrow> u8 list \<Rightarrow> BlockSum list \<Rightarrow> weak_map \<Rightarrow> nat \<Rightarrow>
    nat \<Rightarrow> nat \<Rightarrow> Rolling \<Rightarrow> u8 list \<Rightarrow> nat \<times> u8 list" where
  "build_loop blake3 new bs m bl i lit_start roll out =
     (if bl = 0 then (lit_start, out)
      else case match_block blake3 m bs (Rolling_digest roll) (slice new i (i + bl)) of
        Some bi \<Rightarrow>
          let out = (if lit_start < i then emit_literal out (slice new lit_start i) else out);
              out = emit_copy out (word_of_nat bi * word_of_nat bl) (word_of_nat bl);
              i = i + bl
          in if i + bl > length new then (i, out)
             else build_loop blake3 new bs m bl i i (Rolling_new (slice new i (i + bl))) out
      | None \<Rightarrow>
          if i + bl \<ge> length new then (lit_start, out)
          else build_loop blake3 new bs m bl (i + 1) lit_start
                 (Rolling_roll roll (new ! i) (new ! (i + bl))) out)"
  by pat_completeness auto
termination
  by (relation "measure (\<lambda>(_, new, _, _, _, i, _, _, _). length new - i)") auto

declare build_loop.simps [simp del]

definition build_delta :: "(u8 list \<Rightarrow> u8 list) \<Rightarrow> u8 list \<Rightarrow> BlockSums \<Rightarrow> u8 list" where
  "build_delta blake3 new sums =
     (let bl = unat (block_len sums) in
      if bl = 0 \<or> blocks sums = [] \<or> length new < bl then emit_literal [] new @ [OP_END]
      else let m = weak_sum_map (blocks sums);
               (lit_start, out) = build_loop blake3 new (blocks sums) m bl 0 0
                  (Rolling_new (take bl new)) [];
               out = (if lit_start < length new then emit_literal out (drop lit_start new) else out)
           in out @ [OP_END])"

section \<open>The decoder\<close>

datatype delta_error =
    DeltaTruncated | LiteralOverrun | TruncatedU32 | TruncatedU64 | UnknownOp u8 | UnexpectedEof

definition read_u32 :: "u8 list \<Rightarrow> nat \<Rightarrow> delta_error + u32 \<times> nat" where
  "read_u32 buf pos = (let end = pos + 4 in
     if end > length buf then Inl TruncatedU32
     else Inr (word_of_nat (from_le (slice buf pos end)), end))"

definition read_u64 :: "u8 list \<Rightarrow> nat \<Rightarrow> delta_error + u64 \<times> nat" where
  "read_u64 buf pos = (let end = pos + 8 in
     if end > length buf then Inl TruncatedU64
     else Inr (word_of_nat (from_le (slice buf pos end)), end))"

text \<open>The copy loop reads through a 64 KiB buffer, so a basis that ends early leaves the whole
  chunks before the failing one already written.\<close>

function copy_loop :: "u8 list \<Rightarrow> nat \<Rightarrow> nat \<Rightarrow> u8 list \<Rightarrow> u8 list \<times> delta_error option" where
  "copy_loop old at remaining out =
     (if remaining = 0 then (out, None)
      else let take_n = min remaining (64 * 1024) in
        if at + take_n > length old then (out, Some UnexpectedEof)
        else copy_loop old (at + take_n) (remaining - take_n) (out @ slice old at (at + take_n)))"
  by pat_completeness auto
termination by (relation "measure (\<lambda>(_, _, remaining, _). remaining)") auto

declare copy_loop.simps [simp del]

text \<open>What has been written and the error the call ends with, if any.\<close>

function apply_loop :: "u8 list \<Rightarrow> u8 list \<Rightarrow> nat \<Rightarrow> u8 list \<Rightarrow> u8 list \<times> delta_error option" where
  "apply_loop old delta pos out =
     (if pos \<ge> length delta then (out, Some DeltaTruncated)
      else let tag = delta ! pos; pos' = pos + 1 in
      if tag = OP_LITERAL then
        (case read_u32 delta pos' of
           Inl e \<Rightarrow> (out, Some e)
         | Inr (len, pos2) \<Rightarrow>
             let end = pos2 + unat len in
             if end > length delta then (out, Some LiteralOverrun)
             else apply_loop old delta end (out @ slice delta pos2 end))
      else if tag = OP_COPY then
        (case read_u64 delta pos' of
           Inl e \<Rightarrow> (out, Some e)
         | Inr (offset, pos2) \<Rightarrow>
             (case read_u32 delta pos2 of
                Inl e \<Rightarrow> (out, Some e)
              | Inr (len, pos3) \<Rightarrow>
                  (case copy_loop old (unat offset) (unat len) out of
                     (out', Some e) \<Rightarrow> (out', Some e)
                   | (out', None) \<Rightarrow> apply_loop old delta pos3 out')))
      else if tag = OP_END then (out, None)
      else (out, Some (UnknownOp tag)))"
  by pat_completeness auto
termination
  by (relation "measure (\<lambda>(_, delta, pos, _). length delta - pos)")
    (auto simp: read_u32_def read_u64_def Let_def split: if_splits)

declare apply_loop.simps [simp del]

definition apply_delta :: "u8 list \<Rightarrow> u8 list \<Rightarrow> u8 list \<times> delta_error option" where
  "apply_delta old delta = apply_loop old delta 0 []"

section \<open>The rolling checksum\<close>

primrec byte_sum :: "u8 list \<Rightarrow> u32" where
  "byte_sum [] = 0"
| "byte_sum (x # w) = ucast x + byte_sum w"

primrec weighted_sum :: "u32 \<Rightarrow> nat \<Rightarrow> u8 list \<Rightarrow> u32" where
  "weighted_sum n k [] = 0"
| "weighted_sum n k (x # w) = (n - word_of_nat k) * ucast x + weighted_sum n (Suc k) w"

lemma fold_rolling:
  "fold (\<lambda>(i, byte) (a, b). (a + ucast byte, b + (n - word_of_nat i) * ucast byte))
     (List.enumerate k w) (a, b) = (a + byte_sum w, b + weighted_sum n k w)"
  by (induction w arbitrary: k a b) (simp_all add: algebra_simps)

lemma Rolling_new_sums:
  "Rolling_new w = \<lparr>ra = byte_sum w, rb = weighted_sum (word_of_nat (length w)) 0 w,
     rlen = word_of_nat (length w)\<rparr>"
  by (simp add: Rolling_new_def fold_rolling Let_def)

lemma byte_sum_snoc: "byte_sum (w @ [y]) = byte_sum w + ucast y"
  by (induction w) simp_all

lemma weighted_sum_snoc:
  "weighted_sum n k (w @ [y]) = weighted_sum n k w + (n - word_of_nat (k + length w)) * ucast y"
  by (induction w arbitrary: k) (simp_all add: ac_simps)

lemma weighted_sum_Suc: "weighted_sum n k w = weighted_sum n (Suc k) w + byte_sum w"
proof (induction w arbitrary: k)
  case (Cons x w)
  have "weighted_sum n k (x # w)
      = (n - word_of_nat k) * ucast x + (weighted_sum n (Suc (Suc k)) w + byte_sum w)"
    using Cons.IH [of "Suc k"] by simp
  then show ?case by (simp add: algebra_simps)
qed simp

lemma roll_window: "Rolling_roll (Rolling_new (x # w)) x y = Rolling_new (w @ [y])"
  by (simp add: Rolling_roll_def Rolling_new_sums byte_sum_snoc weighted_sum_snoc
      weighted_sum_Suc [of _ 0 w] Let_def algebra_simps)

lemma slice_step:
  assumes "i + bl < length xs" and "0 < bl"
  shows "slice xs i (i + bl) = xs ! i # slice xs (i + 1) (i + bl)"
    and "slice xs (i + 1) (i + 1 + bl) = slice xs (i + 1) (i + bl) @ [xs ! (i + bl)]"
proof -
  show "slice xs i (i + bl) = xs ! i # slice xs (i + 1) (i + bl)"
    using assms by (cases bl) (auto simp: Cons_nth_drop_Suc [symmetric])
  have "take (Suc (bl - 1)) (drop (i + 1) xs) = take (bl - 1) (drop (i + 1) xs) @ [drop (i + 1) xs ! (bl - 1)]"
    using assms by (intro take_Suc_conv_app_nth) auto
  then show "slice xs (i + 1) (i + 1 + bl) = slice xs (i + 1) (i + bl) @ [xs ! (i + bl)]"
    using assms by simp
qed

text \<open>Sliding the rolling window by one byte gives the checksum that \<open>Rolling::new\<close>
  would compute afresh for the next window, in 32 bit wrapping arithmetic.\<close>

lemma rolling_window_slides:
  assumes "i + bl < length xs" and "0 < bl"
  shows "Rolling_roll (Rolling_new (slice xs i (i + bl))) (xs ! i) (xs ! (i + bl))
       = Rolling_new (slice xs (i + 1) (i + 1 + bl))"
  by (simp only: slice_step [OF assms] roll_window)

section \<open>Block sums\<close>

definition block_of :: "u8 list \<Rightarrow> nat \<Rightarrow> nat \<Rightarrow> u8 list" where
  "block_of data bl k = slice data (k * bl) (k * bl + bl)"

definition sum_of :: "(u8 list \<Rightarrow> u8 list) \<Rightarrow> u8 list \<Rightarrow> BlockSum" where
  "sum_of blake3 b = \<lparr>weak = Rolling_digest (Rolling_new b), strong = strong_hash blake3 b\<rparr>"

lemma block_sums_from_eq:
  assumes "0 < bl"
  shows "block_sums_from blake3 data bl offset = 
    map (\<lambda>k. sum_of blake3 (slice data (offset + k * bl) (offset + k * bl + bl)))
      [0..<(length data - offset) div bl]"
  using assms
proof (induction blake3 data bl offset rule: block_sums_from.induct)
  case (1 blake3 data bl offset)
  show ?case
  proof (cases "offset + bl \<le> length data")
    case True
    define n where "n = (length data - (offset + bl)) div bl"
    have n: "(length data - offset) div bl = Suc n"
      using True 1(2) unfolding n_def
      by (metis add_leD1 diff_diff_left le_add_diff_inverse2 le_diff_conv2 le_div_geq add.commute)
    have "[0..<Suc n] = 0 # map Suc [0..<n]"
      by (metis map_Suc_upt upt_conv_Cons zero_less_Suc)
    moreover have "block_sums_from blake3 data bl (offset + bl)
        = map (\<lambda>k. sum_of blake3 (slice data (offset + bl + k * bl) (offset + bl + k * bl + bl))) [0..<n]"
      using 1 True by (simp add: n_def)
    ultimately show ?thesis
      using n True 1(2)
      by (simp add: block_sums_from.simps [of blake3 data bl offset] sum_of_def Let_def ac_simps)
  next
    case False
    then have "(length data - offset) div bl = 0"
      using 1(2) by (simp add: div_eq_0_iff)
    then show ?thesis
      using False by (simp add: block_sums_from.simps [of blake3 data bl offset])
  qed
qed

lemma compute_block_sums_eq:
  "0 < bl \<Longrightarrow> compute_block_sums blake3 data bl
     = map (\<lambda>k. sum_of blake3 (block_of data bl k)) [0..<length data div bl]"
  by (simp add: compute_block_sums_def block_sums_from_eq block_of_def)

lemma fill_block_chunks:
  assumes "\<forall>e\<in>set r. e \<noteq> Fail \<and> e \<noteq> Chunk []" and "length buf \<le> bl"
  shows "\<exists>buf' r'. fill_block r buf bl = Inr (buf', r') \<and> length buf' \<le> bl
     \<and> (\<forall>e\<in>set r'. e \<noteq> Fail \<and> e \<noteq> Chunk []) \<and> (length buf' < bl \<longrightarrow> r' = [])"
  using assms
proof (induction r buf bl rule: fill_block.induct)
  case (1 r buf bl)
  show ?case
  proof (cases "length buf < bl")
    case True
    show ?thesis
    proof (cases r)
      case Nil
      then show ?thesis using True by (simp add: fill_block.simps)
    next
      case (Cons e r0)
      with "1.prems" obtain bs where e: "e = Chunk bs" and ne: "bs \<noteq> []"
        by (cases e) auto
      let ?k = "bl - length buf"
      let ?b = "take ?k bs" and ?r = "if length bs \<le> ?k then r0 else Chunk (drop ?k bs) # r0"
      have rc: "read_call r ?k = Inr (?b, ?r)"
        using Cons e by simp
      have b: "?b \<noteq> []" using ne True by simp
      have ok: "\<forall>e\<in>set ?r. e \<noteq> Fail \<and> e \<noteq> Chunk []"
        using "1.prems" Cons by (auto split: if_splits)
      have "length (buf @ ?b) \<le> bl" using True by simp
      from "1.IH" [OF True rc refl b ok this] show ?thesis
        using True b by (simp add: fill_block.simps [of r buf bl] rc)
    qed
  next
    case False
    with "1.prems" show ?thesis by (auto simp: fill_block.simps)
  qed
qed

lemma sums_from_reader_eq:
  assumes "\<forall>e\<in>set r. e \<noteq> Fail \<and> e \<noteq> Chunk []" and "0 < bl"
  shows "sums_from_reader blake3 r bl acc = Inr (acc @ block_sums_from blake3 (pending r) bl 0)"
  using assms
proof (induction blake3 r bl acc rule: sums_from_reader.induct)
  case (1 blake3 r bl acc)
  obtain buf r' where f: "fill_block r [] bl = Inr (buf, r')" and l: "length buf \<le> bl"
    and ok: "\<forall>e\<in>set r'. e \<noteq> Fail \<and> e \<noteq> Chunk []" and short: "length buf < bl \<longrightarrow> r' = []"
    using fill_block_chunks [of r "[]" bl] "1.prems" by auto
  have p: "pending r = buf @ pending r'"
    using fill_block_pending [OF f] by simp
  show ?case
  proof (cases "length buf < bl")
    case True
    then show ?thesis
      using f short p "1.prems" by (simp add: sums_from_reader.simps [of blake3 r]
          block_sums_from.simps [of blake3 buf])
  next
    case False
    then have lb: "length buf = bl" using l by simp
    have "block_sums_from blake3 (buf @ pending r') bl bl = block_sums_from blake3 (pending r') bl 0"
      using lb "1.prems" by (simp add: block_sums_from_eq add.assoc)
    then show ?thesis
      using False f lb p "1.prems" "1.IH" [OF _ f refl _ ok]
      by (simp add: sums_from_reader.simps [of blake3 r] Let_def
          block_sums_from.simps [of blake3 "buf @ pending r'" bl 0])
  qed
qed

text \<open>The streaming reader, whatever sizes its reads come in, computes the block sums of
  the whole contents, and an I/O error is the only failure.\<close>

lemma reader_sums_equal_slice_sums:
  assumes "\<forall>e\<in>set r. e \<noteq> Fail \<and> e \<noteq> Chunk []" and "0 < bl"
  shows "compute_block_sums_from_reader blake3 r bl = Inr (compute_block_sums blake3 (pending r) bl)"
  using assms by (simp add: compute_block_sums_from_reader_def compute_block_sums_def sums_from_reader_eq)

section \<open>What the emitted operations decode to\<close>

definition runs :: "u8 list \<Rightarrow> u8 list \<Rightarrow> u8 list \<Rightarrow> bool" where
  "runs old E d \<longleftrightarrow> (\<forall>pre rest out. apply_loop old (pre @ E @ rest) (length pre) out
     = apply_loop old (pre @ E @ rest) (length pre + length E) (out @ d))"

lemma runs_Nil: "runs old [] []"
  by (simp add: runs_def)

lemma runs_append:
  assumes "runs old E d" and "runs old F e"
  shows "runs old (E @ F) (d @ e)"
  unfolding runs_def
proof (intro allI)
  fix pre rest out
  have "apply_loop old (pre @ (E @ F) @ rest) (length pre) out
      = apply_loop old (pre @ (E @ F) @ rest) (length pre + length E) (out @ d)"
    using assms(1) unfolding runs_def by (metis append.assoc)
  also have "\<dots> = apply_loop old ((pre @ E) @ F @ rest) (length (pre @ E)) (out @ d)"
    by simp
  also have "\<dots> = apply_loop old ((pre @ E) @ F @ rest) (length (pre @ E) + length F) ((out @ d) @ e)"
    using assms(2) unfolding runs_def by metis
  finally show "apply_loop old (pre @ (E @ F) @ rest) (length pre) out
      = apply_loop old (pre @ (E @ F) @ rest) (length pre + length (E @ F)) (out @ d @ e)"
    by (simp add: add.assoc)
qed

lemma u32_bound: "unat (v :: u32) < 2 ^ 32"
  using unsigned_less [of v, where ?'a = nat] by simp

lemma u64_bound: "unat (v :: u64) < 2 ^ 64"
  using unsigned_less [of v, where ?'a = nat] by simp

lemma read_u32_at: "
    read_u32 (pre @ le_bytes 4 (unat (v :: u32)) @ rest) (length pre) = Inr (v, length pre + 4)"
  using u32_bound [of v] by (simp add: read_u32_def from_le_le_bytes_small Let_def add.commute)

lemma read_u64_at: "
    read_u64 (pre @ le_bytes 8 (unat (v :: u64)) @ rest) (length pre) = Inr (v, length pre + 8)"
  using u64_bound [of v] by (simp add: read_u64_def from_le_le_bytes_small Let_def add.commute)

lemma u32_roundtrip: "n < 2 ^ 32 \<Longrightarrow> unat (word_of_nat n :: u32) = n"
  by (simp add: unsigned_of_nat take_bit_eq_mod)

lemma u64_roundtrip: "n < 2 ^ 64 \<Longrightarrow> unat (word_of_nat n :: u64) = n"
  by (simp add: unsigned_of_nat take_bit_eq_mod)

lemma runs_literal:
  assumes "length d < 2 ^ 32"
  shows "runs old (emit_literal [] d) d"
proof (cases "d = []")
  case False
  let ?l = "word_of_nat (length d) :: u32"
  have l: "unat ?l = length d" using assms by (rule u32_roundtrip)
  show ?thesis
    unfolding runs_def
  proof (intro allI)
    fix pre rest out
    let ?D = "pre @ emit_literal [] d @ rest"
    have D: "?D = (pre @ [OP_LITERAL]) @ le_bytes 4 (unat ?l) @ d @ rest"
      using False by (simp add: emit_literal_def)
    have tag: "?D ! length pre = OP_LITERAL"
      using False by (simp add: emit_literal_def nth_append)
    have r: "read_u32 ?D (length pre + 1) = Inr (?l, length pre + 5)"
      unfolding D using read_u32_at [of "pre @ [OP_LITERAL]" ?l "d @ rest"]
      by (simp add: add.commute)
    have len: "length ?D = length pre + 5 + length d + length rest"
      using False by (simp add: emit_literal_def)
    have sl: "slice ?D (length pre + 5) (length pre + 5 + length d) = d"
      unfolding D by simp
    have E: "length (emit_literal [] d) = 5 + length d"
      using False by (simp add: emit_literal_def)
    show "apply_loop old ?D (length pre) out
        = apply_loop old ?D (length pre + length (emit_literal [] d)) (out @ d)"
      by (subst apply_loop.simps)
        (simp only: tag r len sl E l Let_def sum.case prod.case if_True if_False split: if_splits, simp only: E add.assoc simp_thms not_less, simp)
  qed
qed (simp add: runs_Nil emit_literal_def)

lemma copy_loop_ok:
  "at + remaining \<le> length old \<Longrightarrow>
     copy_loop old at remaining out = (out @ slice old at (at + remaining), None)"
proof (induction old at remaining out rule: copy_loop.induct)
  case (1 old at remaining out)
  define t where "t = min remaining (64 * 1024)"
  have m: "min remaining 65536 = t" by (simp add: t_def)
  have t: "at + t \<le> at + remaining" "t \<le> remaining" by (simp_all add: t_def)
  show ?case
  proof (cases "remaining = 0")
    case True
    then show ?thesis by (simp add: copy_loop.simps)
  next
    case False
    have "copy_loop old (at + t) (remaining - t) (out @ slice old at (at + t))
        = ((out @ slice old at (at + t)) @ slice old (at + t) (at + t + (remaining - t)), None)"
      using "1.IH" [OF False t_def] "1.prems" t by simp
    moreover have "slice old at (at + t) @ slice old (at + t) (at + remaining)
        = slice old at (at + remaining)"
      using t take_add [of t "remaining - t" "drop at old"] by (simp add: add.commute)
    ultimately show ?thesis
      using False "1.prems" t
      by (subst copy_loop.simps) (simp add: m Let_def)
  qed
qed

lemma runs_copy:
  assumes "unat off + unat len \<le> length old"
  shows "runs old (emit_copy [] off len) (slice old (unat off) (unat off + unat len))"
  unfolding runs_def
proof (intro allI)
  fix pre rest out
  let ?D = "pre @ emit_copy [] off len @ rest"
  have D: "?D = (pre @ [OP_COPY]) @ le_bytes 8 (unat off) @ le_bytes 4 (unat len) @ rest"
    and D2: "?D = (pre @ [OP_COPY] @ le_bytes 8 (unat off)) @ le_bytes 4 (unat len) @ rest"
    by (simp_all add: emit_copy_def)
  have tag: "?D ! length pre = OP_COPY" by (simp add: emit_copy_def nth_append)
  have r1: "read_u64 ?D (length pre + 1) = Inr (off, length pre + 9)"
    unfolding D using read_u64_at [of "pre @ [OP_COPY]" off "le_bytes 4 (unat len) @ rest"]
    by (simp add: add.commute)
  have r2: "read_u32 ?D (length pre + 9) = Inr (len, length pre + 13)"
    unfolding D2 using read_u32_at [of "pre @ [OP_COPY] @ le_bytes 8 (unat off)" len rest]
      by (simp add: add.commute)
  have L: "length ?D = length pre + 13 + length rest"
    by (simp add: emit_copy_def)
  have E: "length (emit_copy [] off len) = 13" by (simp add: emit_copy_def)
  have ne: "OP_COPY \<noteq> OP_LITERAL" by (simp add: OP_COPY_def OP_LITERAL_def)
  show "apply_loop old ?D (length pre) out
      = apply_loop old ?D (length pre + length (emit_copy [] off len))
          (out @ slice old (unat off) (unat off + unat len))"
    unfolding E
    by (subst apply_loop.simps)
      (simp only: tag r1 r2 L ne Let_def sum.case prod.case if_True if_False
        copy_loop_ok [OF assms] option.case refl simp_thms not_le, simp)
qed

lemma apply_delta_runs:
  assumes "runs old E d"
  shows "apply_delta old (E @ [OP_END]) = (d, None)"
proof -
  note assms [unfolded runs_def, rule_format, of "[]" "[OP_END]" "[]"]
  moreover have "apply_loop old (E @ [OP_END]) (length E) d = (d, None)"
    by (subst apply_loop.simps) (simp add: OP_END_def OP_LITERAL_def OP_COPY_def)
  ultimately show ?thesis
    by (simp add: apply_delta_def)
qed

section \<open>The encoder against the decoder\<close>

lemma emit_literal_out: "emit_literal out d = out @ emit_literal [] d"
  by (simp add: emit_literal_def)

lemma emit_copy_out: "emit_copy out off len = out @ emit_copy [] off len"
  by (simp add: emit_copy_def)

lemma weak_sum_map_snoc:
  "weak_sum_map (bs @ [b]) = (weak_sum_map bs)(weak b \<mapsto>
     (case weak_sum_map bs (weak b) of None \<Rightarrow> [] | Some l \<Rightarrow> l) @ [length bs])"
  by (simp add: weak_sum_map_def enumerate_append_eq)

lemma weak_sum_map_sound:
  "weak_sum_map bs w = Some l \<Longrightarrow> bi \<in> set l \<Longrightarrow> bi < length bs \<and> weak (bs ! bi) = w"
proof (induction bs arbitrary: l rule: rev_induct)
  case (snoc b bs)
  then show ?case
    by (auto simp: weak_sum_map_snoc nth_append split: if_splits option.splits)
qed (simp add: weak_sum_map_def)

lemma weak_sum_map_complete:
  "bi < length bs \<Longrightarrow> \<exists>l. weak_sum_map bs (weak (bs ! bi)) = Some l \<and> bi \<in> set l"
proof (induction bs rule: rev_induct)
  case (snoc b bs)
  show ?case
  proof (cases "bi = length bs")
    case False
    with snoc.prems have "bi < length bs" by simp
    with snoc.IH show ?thesis
      by (auto simp: weak_sum_map_snoc nth_append split: option.splits)
  qed (simp add: weak_sum_map_snoc)
qed simp

lemma match_block_Some:
  assumes "match_block blake3 (weak_sum_map bs) bs dig window = Some bi"
  shows "bi < length bs" and "strong (bs ! bi) = strong_hash blake3 window"
  using assms by (auto simp: match_block_def Let_def dest!: find_Some_set weak_sum_map_sound
      split: option.splits)

lemma match_block_own:
  assumes "bi < length bs" and "bs ! bi = sum_of blake3 window"
  shows "match_block blake3 (weak_sum_map bs) bs (Rolling_digest (Rolling_new window)) window \<noteq> None"
proof -
  obtain l where l: "weak_sum_map bs (weak (bs ! bi)) = Some l" "bi \<in> set l"
    using weak_sum_map_complete [OF assms(1)] by blast
  with assms(2) show ?thesis
    by (auto simp: match_block_def sum_of_def find_None_iff Let_def)
qed

text \<open>The strong hash does not confuse any block of the old file with any window of the new.\<close>

definition no_collision :: "(u8 list \<Rightarrow> u8 list) \<Rightarrow> u8 list \<Rightarrow> u8 list \<Rightarrow> nat \<Rightarrow> bool" where
  "no_collision blake3 old new bl \<longleftrightarrow>
     (\<forall>k \<in> {..<length old div bl}. \<forall>i \<in> {..length new - bl}.
        strong_hash blake3 (block_of old bl k) = strong_hash blake3 (slice new i (i + bl)) \<longrightarrow>
        block_of old bl k = slice new i (i + bl))"

lemma block_fits: "0 < bl \<Longrightarrow> k < (n :: nat) div bl \<Longrightarrow> k * bl + bl \<le> n"
proof -
  assume "0 < bl" and "k < n div bl"
  then have "Suc k * bl \<le> n div bl * bl" by (intro mult_le_mono1) simp
  also have "\<dots> \<le> n" by simp
  finally show ?thesis by simp
qed

lemma runs_copy_block:
  assumes "0 < bl" "bl < 2 ^ 32" "length old < 2 ^ 64" "bi < length old div bl"
  shows "runs old (emit_copy [] (word_of_nat bi * word_of_nat bl) (word_of_nat bl)) (block_of old bl bi)"
proof -
  have fit: "bi * bl + bl \<le> length old" using assms(1,4) by (rule block_fits)
  have "(word_of_nat bi * word_of_nat bl :: u64) = word_of_nat (bi * bl)" by simp
  then have off: "unat (word_of_nat bi * word_of_nat bl :: u64) = bi * bl"
    using fit assms(3) u64_roundtrip [of "bi * bl"] by simp
  show ?thesis
    using runs_copy [of "word_of_nat bi * word_of_nat bl" "word_of_nat bl" old] fit off
      u32_roundtrip [OF assms(2)]
    by (simp add: block_of_def)
qed

definition covers :: "(u8 list \<Rightarrow> u8 list) \<Rightarrow> u8 list \<Rightarrow> u8 list \<Rightarrow> nat \<Rightarrow> u8 list \<Rightarrow> nat \<Rightarrow> bool" where
  "covers blake3 old new bl out n \<longleftrightarrow> (\<exists>d. runs old out d \<and> length d = n \<and>
     (no_collision blake3 old new bl \<longrightarrow> d = take n new))"

lemma covers_literal:
  assumes "covers blake3 old new bl out i" and "i \<le> j" "j \<le> length new" "length new < 2 ^ 32"
  shows "covers blake3 old new bl (emit_literal out (slice new i j)) j"
proof -
  from assms(1) obtain d where d: "runs old out d" "length d = i"
    "no_collision blake3 old new bl \<longrightarrow> d = take i new" by (auto simp: covers_def)
  have "runs old (emit_literal out (slice new i j)) (d @ slice new i j)"
    unfolding emit_literal_out [of out]
    using d(1) assms by (intro runs_append runs_literal) auto
  moreover have "length (d @ slice new i j) = j" using d(2) assms by simp
  moreover have "no_collision blake3 old new bl \<longrightarrow> d @ slice new i j = take j new"
    using d(3) take_append_slice [OF assms(2)] by auto
  ultimately show ?thesis unfolding covers_def by blast
qed

lemma covers_copy:
  assumes "covers blake3 old new bl out i" and "i + bl \<le> length new"
    and bl: "0 < bl" "bl < 2 ^ 32" "length old < 2 ^ 64"
    and bs: "bs = compute_block_sums blake3 old bl"
    and m: "match_block blake3 (weak_sum_map bs) bs dig (slice new i (i + bl)) = Some bi"
  shows "covers blake3 old new bl (emit_copy out (word_of_nat bi * word_of_nat bl) (word_of_nat bl)) (i + bl)"
proof -
  from assms(1) obtain d where d: "runs old out d" "length d = i"
    "no_collision blake3 old new bl \<longrightarrow> d = take i new" by (auto simp: covers_def)
  have bi: "bi < length old div bl"
    using match_block_Some(1) [OF m] bl by (simp add: bs compute_block_sums_eq)
  have h: "strong_hash blake3 (block_of old bl bi) = strong_hash blake3 (slice new i (i + bl))"
    using match_block_Some(2) [OF m] bi bl by (simp add: bs compute_block_sums_eq sum_of_def)
  have "runs old (emit_copy out (word_of_nat bi * word_of_nat bl) (word_of_nat bl)) (d @ block_of old bl bi)"
    unfolding emit_copy_out [of out] using d(1) bl bi by (intro runs_append runs_copy_block)
  moreover have "length (d @ block_of old bl bi) = i + bl"
    using d(2) block_fits [OF bl(1) bi] by (simp add: block_of_def)
  moreover have "no_collision blake3 old new bl \<longrightarrow> block_of old bl bi = slice new i (i + bl)"
    using h bi assms(2) unfolding no_collision_def by (meson atMost_iff le_diff_conv2 add_leD2 lessThan_iff)
  then have "no_collision blake3 old new bl \<longrightarrow> d @ block_of old bl bi = take (i + bl) new"
    using d(3) take_append_slice [of i "i + bl" new] by simp
  ultimately show ?thesis unfolding covers_def by blast
qed

lemma build_loop_covers:
  assumes "covers blake3 old new bl out lit_start" and "lit_start \<le> i" "i + bl \<le> length new"
    and "0 < bl" "bl < 2 ^ 32" "length old < 2 ^ 64" "length new < 2 ^ 32"
    and "bs = compute_block_sums blake3 old bl" "m = weak_sum_map bs"
    and "build_loop blake3 new bs m bl i lit_start roll out = (ls, out')"
  shows "ls \<le> length new \<and> covers blake3 old new bl out' ls"
  using assms
proof (induction blake3 new bs m bl i lit_start roll out rule: build_loop.induct)
  case (1 blake3 new bs m bl i lit_start roll out)
  let ?mt = "match_block blake3 m bs (Rolling_digest roll) (slice new i (i + bl))"
  show ?case
  proof (cases ?mt)
    case None
    have step: "build_loop blake3 new bs m bl i lit_start roll out =
        (if i + bl \<ge> length new then (lit_start, out)
         else build_loop blake3 new bs m bl (i + 1) lit_start
           (Rolling_roll roll (new ! i) (new ! (i + bl))) out)"
      using None "1.prems"(4) by (subst build_loop.simps) simp
    show ?thesis
    proof (cases "i + bl \<ge> length new")
      case True
      with step "1.prems" show ?thesis by simp
    next
      case False
      then show ?thesis
        using "1.IH"(1) [OF _ None False] "1.prems" step by simp
    qed
  next
    case (Some bi)
    define lout where "lout = (if lit_start < i then emit_literal out (slice new lit_start i) else out)"
    define cout where "cout = emit_copy lout (word_of_nat bi * word_of_nat bl) (word_of_nat bl)"
    have "covers blake3 old new bl lout i"
      using "1.prems" covers_literal [of blake3 old new bl out lit_start i] by (auto simp: lout_def)
    then have c: "covers blake3 old new bl cout (i + bl)"
      unfolding cout_def using "1.prems" Some by (intro covers_copy) auto
    have step: "build_loop blake3 new bs m bl i lit_start roll out =
        (if i + bl + bl > length new then (i + bl, cout)
         else build_loop blake3 new bs m bl (i + bl) (i + bl)
           (Rolling_new (slice new (i + bl) (i + bl + bl))) cout)"
      using Some "1.prems"(4)
      by (subst build_loop.simps) (simp add: Let_def lout_def cout_def)
    show ?thesis
    proof (cases "i + bl + bl > length new")
      case True
      then have "(ls, out') = (i + bl, cout)"
        using "1.prems" step by simp
      with c "1.prems" show ?thesis by simp
    next
      case False
      then have "build_loop blake3 new bs m bl (i + bl) (i + bl)
          (Rolling_new (slice new (i + bl) (i + bl + bl))) cout = (ls, out')"
        using "1.prems" step by simp
      moreover note "1.IH"(2) [OF _ Some lout_def cout_def refl False c]
      ultimately show ?thesis using "1.prems" False by simp
    qed
  qed
qed

lemma build_delta_covers:
  assumes "unat (block_len sums) = bl" and "blocks sums = compute_block_sums blake3 old bl"
    and "length old < 2 ^ 64" "length new < 2 ^ 32"
  obtains out where "build_delta blake3 new sums = out @ [OP_END]"
    and "covers blake3 old new bl out (length new)"
proof -
  have start: "covers blake3 old new bl [] 0"
    by (auto simp: covers_def runs_Nil)
  have lit: "covers blake3 old new bl (emit_literal [] new) (length new)"
    using covers_literal [OF start, of "length new"] assms by simp
  show ?thesis
  proof (cases "bl = 0 \<or> blocks sums = [] \<or> length new < bl")
    case True
    with assms(1) show ?thesis
      by (intro that [OF _ lit]) (auto simp: build_delta_def Let_def)
  next
    case False
    obtain ls out where l: "build_loop blake3 new (blocks sums) (weak_sum_map (blocks sums)) bl 0 0
        (Rolling_new (take bl new)) [] = (ls, out)" by fastforce
    have bl: "bl < 2 ^ 32" using assms(1) u32_bound by metis
    have c: "ls \<le> length new \<and> covers blake3 old new bl out ls"
      by (rule build_loop_covers [OF start _ _ _ bl assms(3,4) assms(2) refl l]) (use False in auto)
    define out' where "out' = (if ls < length new then emit_literal out (drop ls new) else out)"
    have "covers blake3 old new bl out' (length new)"
      using c covers_literal [of blake3 old new bl out ls "length new"] assms(4)
      by (auto simp: out'_def)
    with that [of out'] show ?thesis
      using False l assms(1) by (simp add: build_delta_def Let_def out'_def)
  qed
qed

text \<open>C26: the delta round trip. Rebuilding the new file from the old one and the encoded
  delta gives exactly the new file, provided the strong hash does not confuse an old block with
  a window of the new file.\<close>

theorem delta_roundtrip:
  assumes "unat (block_len sums) = bl" and "blocks sums = compute_block_sums blake3 old bl"
    and "length old < 2 ^ 64" "length new < 2 ^ 32"
    and "no_collision blake3 old new bl"
  shows "apply_delta old (build_delta blake3 new sums) = (new, None)"
proof -
  obtain out where out: "build_delta blake3 new sums = out @ [OP_END]"
    and c: "covers blake3 old new bl out (length new)"
    using build_delta_covers [OF assms(1-4)] .
  then obtain d where "runs old out d" "d = new"
    using assms(5) by (auto simp: covers_def)
  with out show ?thesis by (simp add: apply_delta_runs)
qed

text \<open>Without any assumption on the hash, the decoder accepts every encoded
  delta and rebuilds a file of the right length; only its contents rest on the hash.\<close>

theorem delta_always_decodes:
  assumes "unat (block_len sums) = bl" and "blocks sums = compute_block_sums blake3 old bl"
    and "length old < 2 ^ 64" "length new < 2 ^ 32"
  shows "snd (apply_delta old (build_delta blake3 new sums)) = None
    \<and> length (fst (apply_delta old (build_delta blake3 new sums))) = length new"
proof -
  obtain out where out: "build_delta blake3 new sums = out @ [OP_END]"
    and c: "covers blake3 old new bl out (length new)"
    using build_delta_covers [OF assms] .
  then obtain d where "runs old out d" "length d = length new"
    by (auto simp: covers_def)
  with out show ?thesis by (simp add: apply_delta_runs)
qed

lemma build_loop_unchanged:
  assumes "0 < bl" and "bs = compute_block_sums blake3 old bl"
    and "k + n = length old div bl" and "0 < n"
  shows "\<exists>out'. build_loop blake3 old bs (weak_sum_map bs) bl (k * bl) (k * bl)
      (Rolling_new (slice old (k * bl) (k * bl + bl))) out = (length old div bl * bl, out')
    \<and> length out' = length out + 13 * n"
  using assms(3,4)
proof (induction n arbitrary: k out)
  case (Suc n)
  let ?w = "slice old (k * bl) (k * bl + bl)"
  have k: "k < length old div bl" using Suc.prems by simp
  have "k < length bs" and "bs ! k = sum_of blake3 ?w"
    using k assms(1,2) by (simp_all add: compute_block_sums_eq block_of_def)
  then obtain bi where m: "match_block blake3 (weak_sum_map bs) bs (Rolling_digest (Rolling_new ?w)) ?w = Some bi"
    using match_block_own by blast
  define cout where "cout = emit_copy out (word_of_nat bi * word_of_nat bl) (word_of_nat bl)"
  have len: "length cout = length out + 13" by (simp add: cout_def emit_copy_def)
  have step: "build_loop blake3 old bs (weak_sum_map bs) bl (k * bl) (k * bl) (Rolling_new ?w) out =
      (if Suc k * bl + bl > length old then (Suc k * bl, cout)
       else build_loop blake3 old bs (weak_sum_map bs) bl (Suc k * bl) (Suc k * bl)
          (Rolling_new (slice old (Suc k * bl) (Suc k * bl + bl))) cout)"
    using assms(1) m by (subst build_loop.simps) (simp add: Let_def cout_def add.commute)
  show ?case
  proof (cases n)
    case 0
    then have q: "Suc k = length old div bl" using Suc.prems by simp
    have "length old < Suc (length old div bl) * bl"
      using assms(1) dividend_less_div_times [of bl "length old"] by (simp add: add.commute)
    then have "length old < Suc k * bl + bl" by (simp add: q [symmetric])
    with 0 step len show ?thesis unfolding q [symmetric] by simp
  next
    case (Suc n')
    then have "Suc k < length old div bl" using Suc.prems by simp
    then have "Suc k * bl + bl \<le> length old" by (rule block_fits [OF assms(1)])
    with Suc.IH [of "Suc k" cout] Suc.prems Suc step len show ?thesis by auto
  qed
qed simp

text \<open>Re-sending an unchanged file costs one 13 byte copy operation per full block and
  a literal for the tail: the rolling scan finds every block again.\<close>

theorem unchanged_file_delta_size:
  assumes "unat (block_len sums) = bl" and "blocks sums = compute_block_sums blake3 old bl"
    and "0 < bl"
  shows "length (build_delta blake3 old sums) = 13 * (length old div bl)
    + (if length old mod bl = 0 then 0 else 5 + length old mod bl) + 1"
proof (cases "length old < bl")
  case True
  then show ?thesis
    using assms by (simp add: build_delta_def Let_def emit_literal_def)
next
  case False
  then have q: "0 < length old div bl" using assms(3) by (simp add: div_greater_zero_iff)
  then have ne: "blocks sums \<noteq> []"
    using assms by (simp add: compute_block_sums_eq)
  obtain out' where l: "build_loop blake3 old (blocks sums) (weak_sum_map (blocks sums)) bl 0 0
      (Rolling_new (take bl old)) [] = (length old div bl * bl, out')"
    and len: "length out' = 13 * (length old div bl)"
    using build_loop_unchanged [OF assms(3,2), of 0 "length old div bl" "[]"] q by auto
  have "length old - length old div bl * bl = length old mod bl"
    by (simp add: minus_div_mult_eq_mod)
  moreover have "length old div bl * bl < length old \<longleftrightarrow> length old mod bl \<noteq> 0"
    and "length old \<le> length old div bl * bl \<longleftrightarrow> length old mod bl = 0"
    using calculation by linarith+
  ultimately show ?thesis
    using False assms ne l len by (simp add: build_delta_def Let_def emit_literal_def)
qed

section \<open>The block length\<close>

lemma isqrt_bounds: "isqrt n * isqrt n \<le> n \<and> n < (isqrt n + 1) * (isqrt n + 1)"
proof (induction n rule: isqrt.induct)
  case (1 n)
  show ?case
  proof (cases "n = 0")
    case True
    then show ?thesis by (simp add: isqrt.simps)
  next
    case False
    let ?s = "isqrt (n div 4)"
    define r where "r = 2 * ?s"
    have "?s * ?s \<le> n div 4" "n div 4 < (?s + 1) * (?s + 1)" using 1 False by auto
    then have "4 * (?s * ?s) \<le> n" "n < 4 * ((?s + 1) * (?s + 1))"
      by (simp_all add: less_eq_div_iff_mult_less_eq div_less_iff_less_mult mult.commute)
    then have "r * r \<le> n" "n < (r + 2) * (r + 2)"
      by (simp_all add: r_def algebra_simps)
    then show ?thesis
      using False by (subst (1 2 3 4) isqrt.simps) (auto simp: Let_def r_def [symmetric])
  qed
qed

text \<open>The block length is the clamped square root: between 700 bytes and 128 KiB, and
  between them a multiple of 8 whose square does not exceed the file length.\<close>

theorem block_len_for_bounds:
  "BLOCK_SIZE \<le> block_len_for len \<and> block_len_for len \<le> MAX_BLOCK_SIZE
   \<and> (block_len_for len = BLOCK_SIZE \<or>
      block_len_for len mod 8 = 0 \<and> block_len_for len * block_len_for len \<le> len)"
proof -
  define b where "b = isqrt len - isqrt len mod 8"
  have "b * b \<le> isqrt len * isqrt len" by (intro mult_le_mono) (simp_all add: b_def)
  also have "\<dots> \<le> len" using isqrt_bounds [of len] by simp
  finally have sq: "b * b \<le> len" .
  have m: "b mod 8 = 0" by (simp add: b_def minus_mod_eq_mult_div)
  consider "len \<le> BLOCK_SIZE * BLOCK_SIZE" | "len > BLOCK_SIZE * BLOCK_SIZE" "b \<le> BLOCK_SIZE"
    | "len > BLOCK_SIZE * BLOCK_SIZE" "BLOCK_SIZE < b" "b \<le> MAX_BLOCK_SIZE"
    | "len > BLOCK_SIZE * BLOCK_SIZE" "MAX_BLOCK_SIZE < b"
    by linarith
  then show ?thesis
  proof cases
    case 4
    have "MAX_BLOCK_SIZE * MAX_BLOCK_SIZE \<le> b * b" by (intro mult_le_mono) (use 4 in simp_all)
    then have "MAX_BLOCK_SIZE * MAX_BLOCK_SIZE \<le> len" using sq by simp
    then show ?thesis
      using 4 by (simp add: block_len_for_def b_def [symmetric] Let_def BLOCK_SIZE_def MAX_BLOCK_SIZE_def)
  qed (use sq m in \<open>auto simp: block_len_for_def b_def [symmetric] Let_def BLOCK_SIZE_def MAX_BLOCK_SIZE_def\<close>)
qed

section \<open>Concrete runs\<close>

lemma delta_roundtrip_witness:
  "apply_delta [1, 2, 3, 4, 5]
     (build_delta (\<lambda>b. b) [9, 1, 2, 7, 3, 4]
        \<lparr>block_len = 2, file_size = 5, blocks = compute_block_sums (\<lambda>b. b) [1, 2, 3, 4, 5] 2\<rparr>)
   = ([9, 1, 2, 7, 3, 4], None)"
  by (rule delta_roundtrip [of _ 2 "\<lambda>b. b"])
    (auto simp: no_collision_def strong_hash_def block_of_def STRONG_LEN_def)

lemma delta_always_decodes_witness:
  "snd (apply_delta [1, 2, 3] (build_delta (\<lambda>b. []) [3, 3, 1, 2]
     \<lparr>block_len = 1, file_size = 3, blocks = compute_block_sums (\<lambda>b. []) [1, 2, 3] 1\<rparr>)) = None"
  using delta_always_decodes [of "\<lparr>block_len = 1, file_size = 3,
    blocks = compute_block_sums (\<lambda>b. []) [1, 2, 3] 1\<rparr>" 1 "\<lambda>b. []" "[1, 2, 3]" "[3, 3, 1, 2]"]
  by simp

lemma unchanged_file_delta_size_witness:
  "length (build_delta (\<lambda>b. b) [7, 7, 8, 8, 9]
     \<lparr>block_len = 2, file_size = 5, blocks = compute_block_sums (\<lambda>b. b) [7, 7, 8, 8, 9] 2\<rparr>) = 33"
  using unchanged_file_delta_size [of "\<lparr>block_len = 2, file_size = 5,
    blocks = compute_block_sums (\<lambda>b. b) [7, 7, 8, 8, 9] 2\<rparr>" 2 "\<lambda>b. b" "[7, 7, 8, 8, 9]"]
  by simp

lemma reader_sums_witness:
  "compute_block_sums_from_reader (\<lambda>b. b) [Chunk [1, 2, 3], Chunk [4], Chunk [5, 6, 7]] 2
   = Inr (compute_block_sums (\<lambda>b. b) [1, 2, 3, 4, 5, 6, 7] 2)"
  using reader_sums_equal_slice_sums [of "[Chunk [1, 2, 3], Chunk [4], Chunk [5, 6, 7]]" 2 "\<lambda>b. b"]
  by simp

lemma rolling_window_slides_witness:
  "Rolling_roll (Rolling_new (slice [250, 251, 252, 253] 0 3)) 250 253
   = Rolling_new (slice [250, 251, 252, 253] 1 4)"
  using rolling_window_slides [of 0 3 "[250, 251, 252, 253]"] by simp

end
