(* ===== verification/Paths.thy ===== *)
theory Paths
  imports Prelude
begin

text \<open>
  Paths as the engine handles them (\<open>src/src/core/sync/mod.rs\<close> and the path helpers of
  \<open>config.rs\<close>), on Unix. A \<open>PathBuf\<close> is its text; \<open>components\<close> is \<open>Path::components\<close>, on which
  \<open>Path\<close>'s equality, ordering and \<open>starts_with\<close> are defined. A relative path that travels
  between machines is a string of components joined by \<open>/\<close>. Text is assumed valid UTF-8, so
  the \<open>to_str\<close> failures of \<open>rel_to_string\<close> and the \<open>cfg(windows)\<close> branches have no counterpart.
\<close>

section \<open>Paths of the standard library\<close>

datatype component = RootDir | CurDir | ParentDir | Normal string

type_synonym path_buf = string

definition is_sep :: "char \<Rightarrow> bool" where
  "is_sep c \<longleftrightarrow> c = CHR ''/''"

definition is_absolute :: "path_buf \<Rightarrow> bool" where
  "is_absolute p \<longleftrightarrow> starts_with p ''/''"

fun component_of :: "string \<Rightarrow> component option" where
  "component_of s = (if s = '''' \<or> s = ''.'' then None
     else if s = ''..'' then Some ParentDir else Some (Normal s))"

definition components :: "path_buf \<Rightarrow> component list" where
  "components p =
     (let parts = split_on is_sep p
      in (if is_absolute p then [RootDir] else if hd parts = ''.'' then [CurDir] else [])
         @ List.map_filter component_of parts)"

fun component_str :: "component \<Rightarrow> string" where
  "component_str RootDir = ''/''"
| "component_str CurDir = ''.''"
| "component_str ParentDir = ''..''"
| "component_str (Normal s) = s"

definition path_push :: "path_buf \<Rightarrow> path_buf \<Rightarrow> path_buf" where
  "path_push p q = (if is_absolute q then q
     else if p = '''' \<or> last p = CHR ''/'' then p @ q else p @ ''/'' @ q)"

definition path_eq :: "path_buf \<Rightarrow> path_buf \<Rightarrow> bool" where
  "path_eq p q \<longleftrightarrow> components p = components q"

definition path_starts_with :: "path_buf \<Rightarrow> path_buf \<Rightarrow> bool" where
  "path_starts_with p q \<longleftrightarrow> starts_with (components p) (components q)"

definition file_name :: "path_buf \<Rightarrow> string option" where
  "file_name p = (case rev (components p) of Normal s # _ \<Rightarrow> Some s | _ \<Rightarrow> None)"

definition push_all :: "component list \<Rightarrow> path_buf" where
  "push_all cs = fold (\<lambda>c out. path_push out (component_str c)) cs ''''"

definition path_parent :: "path_buf \<Rightarrow> path_buf option" where
  "path_parent p = (case rev (components p) of
     [] \<Rightarrow> None | RootDir # _ \<Rightarrow> None | _ # cs \<Rightarrow> Some (push_all (rev cs)))"

section \<open>The code's path operations\<close>

definition normalize_lossy :: "path_buf \<Rightarrow> path_buf" where
  "normalize_lossy p = push_all (components p)"

definition path_has_prefix :: "path_buf \<Rightarrow> path_buf \<Rightarrow> bool" where
  "path_has_prefix path pre =
     (let path = normalize_lossy path; pre = normalize_lossy pre
      in \<not> path_eq path pre \<and> path_starts_with path pre)"

definition clean_path :: "path_buf \<Rightarrow> path_buf" where
  "clean_path p = trim p"

datatype path_error = AbsolutePath string | UnsafePath string | EmptyPath | InvalidPath string

fun push_rel_components :: "string \<Rightarrow> component list \<Rightarrow> path_buf \<Rightarrow> path_error + path_buf" where
  "push_rel_components rel [] out = Inr out"
| "push_rel_components rel (Normal s # cs) out = push_rel_components rel cs (path_push out s)"
| "push_rel_components rel (CurDir # cs) out = push_rel_components rel cs out"
| "push_rel_components rel (ParentDir # cs) out = Inl (UnsafePath rel)"
| "push_rel_components rel (RootDir # cs) out = Inl (UnsafePath rel)"

definition normalize_rel_path :: "string \<Rightarrow> path_error + path_buf" where
  "normalize_rel_path rel =
     (if is_absolute rel then Inl (AbsolutePath rel)
      else case push_rel_components rel (components rel) '''' of
        Inl e \<Rightarrow> Inl e
      | Inr out \<Rightarrow> if out = '''' then Inl EmptyPath else Inr out)"

definition safe_join_rel :: "path_buf \<Rightarrow> string \<Rightarrow> path_error + path_buf" where
  "safe_join_rel root rel =
     (case normalize_rel_path rel of Inl e \<Rightarrow> Inl e | Inr r \<Rightarrow> Inr (path_push root r))"

fun rel_parts :: "path_buf \<Rightarrow> component list \<Rightarrow> string list \<Rightarrow> path_error + string list" where
  "rel_parts p [] parts = Inr parts"
| "rel_parts p (Normal s # cs) parts = rel_parts p cs (parts @ [s])"
| "rel_parts p (CurDir # cs) parts = rel_parts p cs parts"
| "rel_parts p (ParentDir # cs) parts = Inl (InvalidPath p)"
| "rel_parts p (RootDir # cs) parts = Inl (InvalidPath p)"

definition rel_to_string :: "path_buf \<Rightarrow> path_error + string" where
  "rel_to_string p =
     (case rel_parts p (components p) [] of
        Inl e \<Rightarrow> Inl e
      | Inr parts \<Rightarrow> if parts = [] then Inl EmptyPath else Inr (join_with ''/'' parts))"

definition path_depth :: "string \<Rightarrow> nat" where
  "path_depth p = length (components p)"

definition INTERNAL_TMP :: string where "INTERNAL_TMP = ''.auto_sync_tmp''"
definition INTERNAL_TRASH :: string where "INTERNAL_TRASH = ''.auto_sync_trash''"
definition INTERNAL_PROBE :: string where "INTERNAL_PROBE = ''.auto_sync_probe''"

definition internal_name :: "string \<Rightarrow> bool" where
  "internal_name n \<longleftrightarrow> n = INTERNAL_TMP \<or> n = INTERNAL_TRASH \<or> n = INTERNAL_PROBE"

definition rel_str_is_internal :: "string \<Rightarrow> bool" where
  "rel_str_is_internal rel \<longleftrightarrow>
     list_ex internal_name (split_on (\<lambda>c. c = CHR ''/'' \<or> c = CHR 0x5C) rel)"

definition glob_segment_prefix_match :: "path_buf \<Rightarrow> path_buf \<Rightarrow> bool" where
  "glob_segment_prefix_match rel pattern =
     (let rel_segs = map component_str (components rel);
          pat_segs = map component_str (components pattern)
      in if length rel_segs < length pat_segs then False
         else list_all (\<lambda>(p, r). p = ''*'' \<or> p = r) (zip pat_segs rel_segs))"

definition exclude_matches :: "path_buf \<Rightarrow> path_buf \<Rightarrow> bool" where
  "exclude_matches rel exclude =
     (if CHR ''*'' \<in> set exclude then glob_segment_prefix_match rel exclude
      else path_eq rel exclude \<or> path_starts_with rel exclude)"

definition is_rel_excluded :: "path_buf \<Rightarrow> path_buf list \<Rightarrow> bool" where
  "is_rel_excluded rel excludes = list_ex (exclude_matches rel) excludes"

definition tmp_path :: "path_buf \<Rightarrow> string \<Rightarrow> string \<Rightarrow> string \<Rightarrow> path_buf" where
  "tmp_path dst_root cycle_id rel pid =
     (let name = (case file_name rel of Some s \<Rightarrow> s | None \<Rightarrow> ''entry'');
          parent = (case path_parent rel of Some p \<Rightarrow> p | None \<Rightarrow> '''')
      in path_push (path_push (path_push (path_push dst_root INTERNAL_TMP) cycle_id) parent)
           (name @ ''.tmp.'' @ pid))"

definition sanitize_snapshot_component :: "string \<Rightarrow> string" where
  "sanitize_snapshot_component =
     map (\<lambda>c. if is_ascii_alphanumeric c \<or> c = CHR ''_'' \<or> c = CHR ''-'' then c else CHR ''_'')"

definition is_slash :: "char \<Rightarrow> bool" where
  "is_slash c \<longleftrightarrow> c = CHR ''/'' \<or> c = CHR 0x5C"

definition cross_platform_file_name :: "path_buf \<Rightarrow> string option" where
  "cross_platform_file_name p =
     (let leaf = last (split_on is_slash (trim_end_matches is_slash p))
      in if leaf \<noteq> [] \<and> last leaf = CHR '':'' then None
         else if leaf = [] then None else Some leaf)"

definition critical_dirs :: "path_buf list" where
  "critical_dirs = [''/'', ''/dev'', ''/proc'', ''/sys'', ''/run'', ''/boot'', ''/etc'', ''/bin'',
     ''/sbin'', ''/usr'', ''/lib'', ''/lib64'']"

text \<open>\<open>canonicalize\<close> asks the file system; its answer is a parameter.\<close>

definition normalize_existing_or_raw :: "(path_buf \<Rightarrow> path_buf option) \<Rightarrow> path_buf \<Rightarrow> path_buf" where
  "normalize_existing_or_raw canonicalize p =
     (case canonicalize p of Some q \<Rightarrow> q | None \<Rightarrow> push_all (components p))"

definition reject_dangerous_destination ::
    "(path_buf \<Rightarrow> path_buf option) \<Rightarrow> path_buf \<Rightarrow> string + unit" where
  "reject_dangerous_destination canonicalize p =
     (let n = normalize_existing_or_raw canonicalize p
      in if list_ex (\<lambda>c. if path_eq c ''/'' then path_eq n c else path_eq n c \<or> path_starts_with n c)
            critical_dirs
         then Inl n else Inr ())"

section \<open>Components\<close>

definition valid_name :: "string \<Rightarrow> bool" where
  "valid_name s \<longleftrightarrow> s \<noteq> '''' \<and> s \<noteq> ''.'' \<and> s \<noteq> ''..'' \<and> (\<forall>c\<in>set s. \<not> is_sep c)"

definition inner :: "component \<Rightarrow> bool" where
  "inner c \<longleftrightarrow> (case c of Normal s \<Rightarrow> valid_name s | ParentDir \<Rightarrow> True | _ \<Rightarrow> False)"

definition canonical :: "component list \<Rightarrow> bool" where
  "canonical cs \<longleftrightarrow> (case cs of [] \<Rightarrow> True
     | c # cs' \<Rightarrow> (c = RootDir \<or> c = CurDir \<or> inner c) \<and> list_all inner cs')"

abbreviation inner_components :: "string \<Rightarrow> component list" where
  "inner_components q \<equiv> List.map_filter component_of (split_on is_sep q)"

lemma split_on_append_sep: "p x \<Longrightarrow> split_on p (s @ x # t) = split_on p s @ split_on p t"
  by (induction s) (auto split: list.splits)

lemma hd_split_on_append: "p x \<Longrightarrow> hd (split_on p (s @ x # t)) = hd (split_on p s)"
  by (simp add: split_on_append_sep)

lemma map_filter_append: "List.map_filter f (xs @ ys) = List.map_filter f xs @ List.map_filter f ys"
  by (simp add: map_filter_def)

lemma is_sep_slash [simp]: "is_sep (CHR ''/'')"
  by (simp add: is_sep_def)

lemma inner_components_inner: "list_all inner (inner_components q)"
  by (auto simp: list_all_iff map_filter_def inner_def valid_name_def
      dest: split_on_no_sep split: if_splits)

lemma is_absolute_append: "p \<noteq> '''' \<Longrightarrow> is_absolute (p @ q) = is_absolute p"
  by (cases p) (simp_all add: is_absolute_def starts_with_def)

lemma components_Nil [simp]: "components '''' = []"
  by (simp add: components_def is_absolute_def starts_with_def map_filter_def)

lemma components_canonical: "canonical (components p)"
  using inner_components_inner [of p]
  by (cases "inner_components p") (auto simp: components_def canonical_def Let_def)

lemma component_of_valid: "valid_name s \<Longrightarrow> component_of s = Some (Normal s)"
  by (simp add: valid_name_def)

lemma inner_components_valid: "valid_name s \<Longrightarrow> inner_components s = [Normal s]"
  by (simp add: valid_name_def split_on_id map_filter_def)

lemma inner_components_parent: "inner_components ''..'' = [ParentDir]"
  by (simp add: map_filter_def is_sep_def)

lemma valid_name_relative: "valid_name s \<Longrightarrow> \<not> is_absolute s"
  by (cases s) (auto simp: valid_name_def is_absolute_def starts_with_def is_sep_def)

lemma not_absolute_dots: "\<not> is_absolute ''.''" "\<not> is_absolute ''..''"
  by (simp_all add: is_absolute_def starts_with_def)

lemma components_push:
  assumes "\<not> is_absolute q" and "p \<noteq> ''''"
  shows "components (path_push p q) = components p @ inner_components q"
proof (cases "last p = CHR ''/''")
  case True
  then obtain p' where p: "p = p' @ [CHR ''/'']"
    using assms(2) by (metis append_butlast_last_id)
  have "components p = (if is_absolute p then [RootDir]
      else if hd (split_on is_sep p') = ''.'' then [CurDir] else []) @ inner_components p'"
    by (simp add: components_def p split_on_append_sep map_filter_append Let_def map_filter_simps)
  moreover have "components (path_push p q) = (if is_absolute p then [RootDir]
      else if hd (split_on is_sep p') = ''.'' then [CurDir] else []) @ inner_components p' @ inner_components q"
    using assms is_absolute_append [OF assms(2), of q]
    by (simp add: components_def path_push_def p split_on_append_sep map_filter_append Let_def)
  ultimately show ?thesis by simp
next
  case False
  then show ?thesis
    using assms is_absolute_append [OF assms(2), of "CHR ''/'' # q"]
    by (simp add: components_def path_push_def split_on_append_sep map_filter_append Let_def)
qed

lemma components_push_all: "canonical cs \<Longrightarrow> components (push_all cs) = cs"
proof (induction cs rule: rev_induct)
  case (snoc c cs)
  have step: "push_all (cs @ [c]) = path_push (push_all cs) (component_str c)"
    by (simp add: push_all_def)
  show ?case
  proof (cases "cs = []")
    case True
    have "push_all (cs @ [c]) = component_str c"
      using True by (cases c) (simp_all add: push_all_def path_push_def)
    moreover have "components (component_str c) = [c]"
    proof (cases c)
      case (Normal s)
      with snoc.prems True have "valid_name s" by (simp add: canonical_def inner_def)
      with Normal show ?thesis
        using valid_name_relative [of s] inner_components_valid [of s]
        by (auto simp: components_def split_on_id valid_name_def)
    qed (simp_all add: components_def is_absolute_def starts_with_def map_filter_def is_sep_def)
    ultimately show ?thesis using True by simp
  next
    case False
    have can: "canonical cs" and c: "inner c"
      using snoc.prems False by (cases cs; simp add: canonical_def)+
    from snoc.IH [OF can] False have ne: "push_all cs \<noteq> ''''" by auto
    have "\<not> is_absolute (component_str c) \<and> inner_components (component_str c) = [c]"
    proof (cases c)
      case ParentDir
      then show ?thesis by (simp only: component_str.simps inner_components_parent not_absolute_dots) simp
    next
      case (Normal s)
      then have "valid_name s" using c by (simp add: inner_def)
      with Normal show ?thesis
        by (simp only: component_str.simps valid_name_relative inner_components_valid) simp
    qed (use c in \<open>simp_all add: inner_def\<close>)
    with ne snoc.IH [OF can] show ?thesis
      by (simp add: step components_push)
  qed
qed (simp add: push_all_def)

lemma components_normalize_lossy [simp]: "components (normalize_lossy p) = components p"
  by (simp add: normalize_lossy_def components_push_all components_canonical)

lemma normalize_lossy_idem: "normalize_lossy (normalize_lossy p) = normalize_lossy p"
  by (metis components_normalize_lossy normalize_lossy_def)

lemma normalize_lossy_eq_iff: "normalize_lossy p = normalize_lossy q \<longleftrightarrow> path_eq p q"
  by (metis components_normalize_lossy normalize_lossy_def path_eq_def)

section \<open>Relative paths never leave their root\<close>

lemma push_all_snoc: "push_all (cs @ [c]) = path_push (push_all cs) (component_str c)"
  by (simp add: push_all_def)

lemma push_rel_components_ok:
  "push_rel_components rel cs (push_all acc) = Inr out \<Longrightarrow>
     out = push_all (acc @ filter (\<lambda>c. c \<noteq> CurDir) cs) \<and>
     (\<forall>c\<in>set cs. c = CurDir \<or> (\<exists>s. c = Normal s))"
proof (induction rel cs "push_all acc" arbitrary: acc rule: push_rel_components.induct)
  case (2 rel s cs)
  then show ?case
    using 2(1) [of "acc @ [Normal s]"] by (simp add: push_all_snoc)
qed auto

lemma push_rel_components_names:
  "push_rel_components rel (map Normal ws) (push_all acc) = Inr (push_all (acc @ map Normal ws))"
proof (induction ws arbitrary: acc)
  case (Cons w ws)
  show ?case using Cons [of "acc @ [Normal w]"] by (simp add: push_all_snoc)
qed simp

lemma push_all_eq_Nil: "canonical cs \<Longrightarrow> push_all cs = '''' \<longleftrightarrow> cs = []"
  using components_push_all by (fastforce simp: push_all_def)

lemma join_with_snoc:
  "join_with sep (ws @ [w]) = (if ws = [] then w else join_with sep ws @ sep @ w)"
proof (induction ws)
  case (Cons v ws)
  then show ?case by (cases ws) simp_all
qed simp

lemma last_join_valid:
  "ws \<noteq> [] \<Longrightarrow> \<forall>w\<in>set ws. valid_name w \<Longrightarrow>
     join_with ''/'' ws \<noteq> '''' \<and> last (join_with ''/'' ws) \<noteq> CHR ''/''"
proof (induction ws rule: rev_induct)
  case (snoc w ws)
  then have "valid_name w" by simp
  then have "w \<noteq> []" "last w \<noteq> CHR ''/''"
    by (auto simp: valid_name_def is_sep_def)
  then show ?case by (simp add: join_with_snoc)
qed simp

lemma push_all_names: "\<forall>w\<in>set ws. valid_name w \<Longrightarrow> push_all (map Normal ws) = join_with ''/'' ws"
proof (induction ws rule: rev_induct)
  case (snoc w ws)
  then show ?case
    using last_join_valid [of ws] valid_name_relative [of w]
    by (auto simp: push_all_snoc path_push_def join_with_snoc)
qed (simp add: push_all_def)

lemma canonical_names: "\<forall>w\<in>set ws. valid_name w \<Longrightarrow> canonical (map Normal ws)"
  by (cases ws) (simp_all add: canonical_def inner_def list_all_iff)

lemma components_join:
  "\<forall>w\<in>set ws. valid_name w \<Longrightarrow> components (join_with ''/'' ws) = map Normal ws"
  by (metis canonical_names components_push_all push_all_names)

lemma not_absolute_join: "\<forall>w\<in>set ws. valid_name w \<Longrightarrow> \<not> is_absolute (join_with ''/'' ws)"
proof
  assume v: "\<forall>w\<in>set ws. valid_name w" and "is_absolute (join_with ''/'' ws)"
  then have "RootDir \<in> set (components (join_with ''/'' ws))"
    by (simp add: components_def)
  then show False by (auto simp: components_join [OF v])
qed

definition rel_names :: "string \<Rightarrow> string list \<Rightarrow> bool" where
  "rel_names p ws \<longleftrightarrow> ws \<noteq> [] \<and> (\<forall>w\<in>set ws. valid_name w) \<and> p = join_with ''/'' ws"

lemma canonical_Normal_valid: "canonical cs \<Longrightarrow> Normal s \<in> set cs \<Longrightarrow> valid_name s"
  by (cases cs) (auto simp: canonical_def inner_def list_all_iff)

lemma names_of_components:
  assumes "\<forall>c\<in>set (components p). c = CurDir \<or> (\<exists>s. c = Normal s)"
  obtains ws where "filter (\<lambda>c. c \<noteq> CurDir) (components p) = map Normal ws"
    and "\<forall>w\<in>set ws. valid_name w"
proof -
  have "\<forall>c\<in>set (filter (\<lambda>c. c \<noteq> CurDir) (components p)). \<exists>s. c = Normal s"
    using assms by auto
  then obtain ws where ws: "filter (\<lambda>c. c \<noteq> CurDir) (components p) = map Normal ws"
    by (metis ex_map_conv)
  moreover have "\<forall>w\<in>set ws. valid_name w"
  proof
    fix w assume "w \<in> set ws"
    then have "Normal w \<in> set (filter (\<lambda>c. c \<noteq> CurDir) (components p))" by (simp add: ws)
    then show "valid_name w" using canonical_Normal_valid [OF components_canonical] by auto
  qed
  ultimately show ?thesis by (rule that)
qed

lemma normalize_rel_path_names:
  assumes "normalize_rel_path rel = Inr out"
  obtains ws where "rel_names out ws" and "components out = map Normal ws"
    and "filter (\<lambda>c. c \<noteq> CurDir) (components rel) = map Normal ws"
proof -
  from assms have p: "push_rel_components rel (components rel) (push_all []) = Inr out" and ne: "out \<noteq> ''''"
    by (auto simp: normalize_rel_path_def push_all_def split: if_splits sum.splits)
  from push_rel_components_ok [OF p]
  have out: "out = push_all (filter (\<lambda>c. c \<noteq> CurDir) (components rel))"
    and n: "\<forall>c\<in>set (components rel). c = CurDir \<or> (\<exists>s. c = Normal s)" by simp_all
  from names_of_components [OF n] obtain ws where
    ws: "filter (\<lambda>c. c \<noteq> CurDir) (components rel) = map Normal ws" "\<forall>w\<in>set ws. valid_name w" .
  have "out = join_with ''/'' ws" using out ws push_all_names by simp
  moreover have "ws \<noteq> []" using ne calculation by auto
  ultimately show ?thesis
    using that [of ws] ws components_join [of ws] by (simp add: rel_names_def)
qed

lemma normalize_rel_names: "rel_names p ws \<Longrightarrow> normalize_rel_path p = Inr p"
proof -
  assume "rel_names p ws"
  then have ws: "ws \<noteq> []" "\<forall>w\<in>set ws. valid_name w" and p: "p = join_with ''/'' ws"
    by (auto simp: rel_names_def)
  have "push_rel_components p (components p) '''' = Inr p"
    using push_rel_components_names [of p ws "[]"] push_all_names [OF ws(2)] components_join [OF ws(2)]
    by (simp add: p push_all_def)
  with ws show ?thesis
    using last_join_valid [of ws] not_absolute_join [OF ws(2)] by (simp add: normalize_rel_path_def p)
qed

lemma rel_parts_ok:
  "rel_parts p cs acc = Inr parts \<Longrightarrow>
     map Normal parts = map Normal acc @ filter (\<lambda>c. c \<noteq> CurDir) cs
     \<and> (\<forall>c\<in>set cs. c = CurDir \<or> (\<exists>s. c = Normal s))"
  by (induction p cs acc rule: rel_parts.induct) auto

lemma rel_parts_names: "rel_parts p (map Normal ws) acc = Inr (acc @ ws)"
  by (induction ws arbitrary: acc) auto

lemma rel_to_string_names:
  assumes "rel_to_string p = Inr s"
  obtains ws where "rel_names s ws" and "filter (\<lambda>c. c \<noteq> CurDir) (components p) = map Normal ws"
proof -
  from assms obtain parts where parts: "rel_parts p (components p) [] = Inr parts" "parts \<noteq> []"
    and s: "s = join_with ''/'' parts"
    by (auto simp: rel_to_string_def split: sum.splits if_splits)
  from rel_parts_ok [OF parts(1)]
  have f: "filter (\<lambda>c. c \<noteq> CurDir) (components p) = map Normal parts" by simp
  have "\<forall>w\<in>set parts. valid_name w"
  proof
    fix w assume "w \<in> set parts"
    then have "Normal w \<in> set (filter (\<lambda>c. c \<noteq> CurDir) (components p))" by (simp add: f)
    then show "valid_name w" using canonical_Normal_valid [OF components_canonical] by auto
  qed
  with parts s f show ?thesis using that by (simp add: rel_names_def)
qed

lemma rel_to_string_of_names: "rel_names p ws \<Longrightarrow> rel_to_string p = Inr p"
  by (auto simp: rel_names_def rel_to_string_def components_join rel_parts_names)

lemma inner_components_names:
  "rel_names p ws \<Longrightarrow> inner_components p = map Normal ws"
proof -
  assume r: "rel_names p ws"
  then have "components p = map Normal ws" "\<not> is_absolute p"
    using components_join not_absolute_join by (auto simp: rel_names_def)
  moreover have "hd (split_on is_sep p) \<noteq> ''.''"
  proof
    assume "hd (split_on is_sep p) = ''.''"
    then have "CurDir \<in> set (components p)"
      using calculation(2) by (simp add: components_def Let_def)
    then show False using calculation(1) by auto
  qed
  ultimately show ?thesis by (simp add: components_def)
qed

text \<open>A path accepted from a peer stays strictly below its root. Whatever the relative
  path contains, joining it either fails or yields the root followed by plain names, with no
  \<open>..\<close>, no second root and at least one name.\<close>

theorem safe_join_confined:
  assumes "safe_join_rel root rel = Inr p" and "root \<noteq> ''''"
  shows "\<exists>ws. ws \<noteq> [] \<and> (\<forall>w\<in>set ws. valid_name w) \<and> components p = components root @ map Normal ws"
proof -
  from assms(1) obtain out where n: "normalize_rel_path rel = Inr out" and p: "p = path_push root out"
    by (auto simp: safe_join_rel_def split: sum.splits)
  from normalize_rel_path_names [OF n] obtain ws where ws: "rel_names out ws" .
  then have "\<not> is_absolute out" using not_absolute_join by (auto simp: rel_names_def)
  then have "components p = components root @ map Normal ws"
    using assms(2) inner_components_names [OF ws] by (simp add: p components_push)
  with ws show ?thesis by (auto simp: rel_names_def)
qed

lemma safe_join_confined_witness:
  "\<exists>ws. ws \<noteq> [] \<and> list_all valid_name ws
     \<and> components ''/mnt/b/a/c'' = components ''/mnt/b'' @ map Normal ws"
  using safe_join_confined [of "''/mnt/b''" "''./a//c/''" "''/mnt/b/a/c''"]
  by (simp add: list_all_iff safe_join_rel_def normalize_rel_path_def components_def is_absolute_def
      starts_with_def is_sep_def map_filter_def path_push_def)

text \<open>The two conversions between paths and wire strings agree. What \<open>rel_to_string\<close>
  writes, \<open>normalize_rel_path\<close> reads back unchanged, and a normalized path is its own wire
  string.\<close>

theorem rel_string_roundtrip:
  "(rel_to_string p = Inr s \<longrightarrow> normalize_rel_path s = Inr s \<and> rel_to_string s = Inr s)
   \<and> (normalize_rel_path r = Inr q \<longrightarrow> rel_to_string q = Inr q \<and> normalize_rel_path q = Inr q)"
proof (intro conjI impI)
  assume "rel_to_string p = Inr s"
  then obtain ws where "rel_names s ws" by (rule rel_to_string_names)
  then show "normalize_rel_path s = Inr s" "rel_to_string s = Inr s"
    by (rule normalize_rel_names, rule rel_to_string_of_names)
next
  assume "normalize_rel_path r = Inr q"
  then obtain ws where "rel_names q ws" by (rule normalize_rel_path_names)
  then show "rel_to_string q = Inr q" "normalize_rel_path q = Inr q"
    by (rule rel_to_string_of_names, rule normalize_rel_names)
qed

lemma rel_string_roundtrip_witness:
  "normalize_rel_path ''a/b'' = Inr ''a/b'' \<and> rel_to_string ''a/b'' = Inr ''a/b''"
proof -
  have "rel_to_string ''a//b/'' = Inr ''a/b''"
    by (simp add: rel_to_string_def components_def is_absolute_def starts_with_def is_sep_def
        map_filter_def)
  with rel_string_roundtrip [of "''a//b/''" "''a/b''"] show ?thesis by blast
qed

section \<open>Path filters\<close>

text \<open>
  Every filter the engine prunes a walk with (user excludes, its own bookkeeping directories)
  covers whole subtrees. That is the law a pruned walk needs: refusing to descend below a
  blocked directory loses no path the filter would have kept.
\<close>

locale subtree_filter =
  fixes blocked :: "path_buf \<Rightarrow> bool"
  assumes blocked_below:
    "blocked p \<Longrightarrow> components q = components p @ more \<Longrightarrow> blocked q"
begin

lemma kept_ancestor: "\<not> blocked q \<Longrightarrow> components q = components p @ more \<Longrightarrow> \<not> blocked p"
  using blocked_below by blast

lemma blocked_path_eq: "path_eq p q \<Longrightarrow> blocked p = blocked q"
  using blocked_below [of p q "[]"] blocked_below [of q p "[]"] by (auto simp: path_eq_def)

lemma blocked_normalize: "blocked (normalize_lossy p) = blocked p"
  by (rule blocked_path_eq) (simp add: path_eq_def)

end

lemma exclude_matches_below:
  assumes "exclude_matches p e" and "components q = components p @ more"
  shows "exclude_matches q e"
proof (cases "CHR ''*'' \<in> set e")
  case True
  have z: "zip a (b @ c) = zip a b" if "length a \<le> length b" for a b c :: "string list"
    using that by (simp add: zip_append2)
  show ?thesis
    using assms True by (auto simp: exclude_matches_def glob_segment_prefix_match_def Let_def z split: if_splits)
next
  case False
  with assms show ?thesis
    by (auto simp: exclude_matches_def path_eq_def path_starts_with_def starts_with_iff)
qed

interpretation excludes: subtree_filter "\<lambda>p. is_rel_excluded p excludes" for excludes
  by unfold_locales (auto simp: is_rel_excluded_def list_ex_iff intro: exclude_matches_below)

lemma split_on_disj:
  "split_on (\<lambda>c. p c \<or> q c) s = concat (map (split_on q) (split_on p s))"
proof (induction s)
  case (Cons c s)
  obtain w ws where w: "split_on p s = w # ws"
    by (cases "split_on p s") simp_all
  obtain v vs where v: "split_on q w = v # vs"
    by (cases "split_on q w") simp_all
  show ?case using Cons w v by simp
qed simp

lemma set_inner_components:
  "Normal w \<in> set (components p) \<longleftrightarrow> w \<in> set (split_on is_sep p) \<and> w \<noteq> '''' \<and> w \<noteq> ''.'' \<and> w \<noteq> ''..''"
  by (auto simp: components_def Let_def map_filter_def image_iff split: if_splits)

lemma rel_str_is_internal_components:
  "rel_str_is_internal p \<longleftrightarrow>
     (\<exists>w. Normal w \<in> set (components p) \<and> (\<exists>x\<in>set (split_on (\<lambda>c. c = CHR 0x5C) w). internal_name x))"
proof -
  have "rel_str_is_internal p \<longleftrightarrow>
     (\<exists>w\<in>set (split_on is_sep p). \<exists>x\<in>set (split_on (\<lambda>c. c = CHR 0x5C) w). internal_name x)"
    using split_on_disj [of is_sep "\<lambda>c. c = CHR 0x5C" p]
    by (auto simp: rel_str_is_internal_def list_ex_iff is_sep_def)
  moreover have "w \<noteq> '''' \<and> w \<noteq> ''.'' \<and> w \<noteq> ''..''"
    if "x \<in> set (split_on (\<lambda>c. c = CHR 0x5C) w)" "internal_name x" for w x
    using that by (auto simp: internal_name_def INTERNAL_TMP_def INTERNAL_TRASH_def INTERNAL_PROBE_def)
  ultimately show ?thesis by (auto simp: set_inner_components)
qed

interpretation internal: subtree_filter rel_str_is_internal
  by unfold_locales (auto simp: rel_str_is_internal_components)

text \<open>An exclude covers a whole subtree. If a path is excluded, plain or glob, then so is
  everything below it, and the test does not depend on how the path is spelled.\<close>

theorem exclude_covers_subtree:
  assumes "is_rel_excluded p excludes" and "components q = components p @ more"
  shows "is_rel_excluded q excludes \<and> is_rel_excluded (normalize_lossy q) excludes"
  using excludes.blocked_below [OF assms] by (simp add: excludes.blocked_normalize)

lemma exclude_covers_subtree_witness:
  "is_rel_excluded ''acct1/cache/x/y'' [''tmp'', ''*/cache'']"
proof -
  have "is_rel_excluded ''acct1/cache'' [''tmp'', ''*/cache'']"
    and "components ''acct1/cache/x/y'' = components ''acct1/cache'' @ [Normal ''x'', Normal ''y'']"
    by (simp_all add: is_rel_excluded_def exclude_matches_def glob_segment_prefix_match_def
        components_def is_absolute_def starts_with_def is_sep_def map_filter_def path_eq_def
        path_starts_with_def)
  from exclude_covers_subtree [OF this] show ?thesis by simp
qed

text \<open>Evaluation of the path operations on concrete paths.\<close>

lemmas [str_simps] = components_def is_absolute_def is_sep_def map_filter_def path_push_def
  push_all_def normalize_lossy_def path_has_prefix_def clean_path_def path_eq_def
  path_starts_with_def

section \<open>Changed paths\<close>

text \<open>A changed path below a source root; \<open>recursive\<close> asks for its whole subtree.\<close>

record DiffPath =
  dp_rel :: string
  dp_recursive :: bool

definition diff_paths_all_recursive :: "string list \<Rightarrow> DiffPath list" where
  "diff_paths_all_recursive = map (\<lambda>r. \<lparr>dp_rel = r, dp_recursive = True\<rparr>)"

definition diff_path_rels :: "DiffPath list \<Rightarrow> string list" where
  "diff_path_rels = map dp_rel"

end
