(* ===== verification/Calendar.thy ===== *)
theory Calendar
  imports Prelude
begin

text \<open>
  The calendar library (chrono) as a parameter. A date is a day number, a time of day is a
  number of seconds, an instant is a number of nanoseconds. The record holds the operations the
  scheduler and the standby manager call; \<open>calendar_ok\<close> states the documented behaviour they
  rely on: consecutive days have consecutive weekdays, a resolved local time lies on the date
  it was asked for, and the local date never goes back as time advances.
\<close>

datatype weekday = Mon | Tue | Wed | Thu | Fri | Sat | Sun

fun num_days_from_monday :: "weekday \<Rightarrow> nat" where
  "num_days_from_monday Mon = 0"
| "num_days_from_monday Tue = 1"
| "num_days_from_monday Wed = 2"
| "num_days_from_monday Thu = 3"
| "num_days_from_monday Fri = 4"
| "num_days_from_monday Sat = 5"
| "num_days_from_monday Sun = 6"

record calendar =
  parse_date :: "string \<Rightarrow> int option"
  parse_clock :: "string \<Rightarrow> string \<Rightarrow> nat option"
  hms_opt :: "nat \<Rightarrow> nat \<Rightarrow> nat \<Rightarrow> nat option"
  weekday_of :: "int \<Rightarrow> weekday"
  date_succ :: "int \<Rightarrow> int option"
  date_pred :: "int \<Rightarrow> int option"
  local_date :: "int \<Rightarrow> int"
  local_single :: "int \<Rightarrow> nat \<Rightarrow> int option"
  local_earliest :: "int \<Rightarrow> nat \<Rightarrow> int option"
  show_instant :: "int \<Rightarrow> string"

definition SECOND :: int where "SECOND = 1000000000"
definition MINUTE :: int where "MINUTE = 60 * SECOND"
definition DAY :: int where "DAY = 86400 * SECOND"

lemma num_days_lt: "num_days_from_monday w < 7"
  by (cases w) simp_all

lemma num_days_inj: "num_days_from_monday v = num_days_from_monday w \<longleftrightarrow> v = w"
  by (cases v; cases w) simp_all

definition calendar_ok :: "calendar \<Rightarrow> bool" where
  "calendar_ok cal \<longleftrightarrow>
     (\<forall>d. num_days_from_monday (weekday_of cal (d + 1))
          = (num_days_from_monday (weekday_of cal d) + 1) mod 7) \<and>
     (\<forall>d t i. local_single cal d t = Some i \<longrightarrow> local_date cal i = d) \<and>
     (\<forall>d t i. local_earliest cal d t = Some i \<longrightarrow> local_date cal i = d) \<and>
     (\<forall>i j. i \<le> j \<longrightarrow> local_date cal i \<le> local_date cal j)"

text \<open>The dates the searches below step through are inside the library's range.\<close>

definition dates_ok :: "calendar \<Rightarrow> bool" where
  "dates_ok cal \<longleftrightarrow> (\<forall>d. date_succ cal d = Some (d + 1) \<and> date_pred cal d = Some (d - 1))"

text \<open>How both clients resolve a local time.\<close>

definition local_datetime :: "calendar \<Rightarrow> int \<Rightarrow> nat \<Rightarrow> int option" where
  "local_datetime cal d t =
     (case local_single cal d t of Some i \<Rightarrow> Some i | None \<Rightarrow> local_earliest cal d t)"

lemma local_datetime_date:
  "calendar_ok cal \<Longrightarrow> local_datetime cal d t = Some i \<Longrightarrow> local_date cal i = d"
  by (auto simp: calendar_ok_def local_datetime_def split: option.splits)

lemma local_date_mono: "calendar_ok cal \<Longrightarrow> i \<le> j \<Longrightarrow> local_date cal i \<le> local_date cal j"
  by (simp add: calendar_ok_def)

lemma later_date_later:
  "calendar_ok cal \<Longrightarrow> local_datetime cal d t = Some i \<Longrightarrow> local_date cal s < d \<Longrightarrow> s < i"
  using local_datetime_date local_date_mono by (metis not_le)

lemma earlier_date_earlier:
  "calendar_ok cal \<Longrightarrow> local_datetime cal d t = Some i \<Longrightarrow> d < local_date cal s \<Longrightarrow> i < s"
  using local_datetime_date local_date_mono by (metis not_le)

lemma weekday_add:
  "calendar_ok cal \<Longrightarrow> num_days_from_monday (weekday_of cal (d + int n))
     = (num_days_from_monday (weekday_of cal d) + n) mod 7"
proof (induction n)
  case 0
  then show ?case using num_days_lt [of "weekday_of cal d"] by simp
next
  case (Suc n)
  have "num_days_from_monday (weekday_of cal (d + int n + 1))
      = (num_days_from_monday (weekday_of cal (d + int n)) + 1) mod 7"
    using Suc.prems unfolding calendar_ok_def by blast
  with Suc show ?case by (simp add: add.commute add.left_commute mod_Suc_eq)
qed

lemma weekday_in_week:
  assumes "calendar_ok cal"
  shows "\<exists>r<7. weekday_of cal (d + int r) = w"
proof -
  let ?n = num_days_from_monday
  define r where "r = (?n w + 7 - ?n (weekday_of cal d)) mod 7"
  have "?n (weekday_of cal (d + int r)) = (?n (weekday_of cal d) + r) mod 7"
    using assms by (rule weekday_add)
  also have "\<dots> = (?n (weekday_of cal d) + (?n w + 7 - ?n (weekday_of cal d))) mod 7"
    unfolding r_def by (rule mod_add_right_eq)
  also have "\<dots> = ?n w"
    using num_days_lt [of w] num_days_lt [of "weekday_of cal d"] by simp
  finally have "weekday_of cal (d + int r) = w" by (simp add: num_days_inj)
  moreover have "r < 7" by (simp add: r_def)
  ultimately show ?thesis by blast
qed

lemma weekday_weeks:
  assumes "calendar_ok cal"
  shows "weekday_of cal (d + 7 * k) = weekday_of cal d"
proof -
  have up: "weekday_of cal (e + 7 * int n) = weekday_of cal e" for e n
    using weekday_add [OF assms, of e "7 * n"] num_days_lt [of "weekday_of cal e"]
    by (simp add: num_days_inj [symmetric])
  show ?thesis
  proof (cases "0 \<le> k")
    case True
    then show ?thesis using up [of d "nat k"] by simp
  next
    case False
    then show ?thesis using up [of "d + 7 * k" "nat (- k)"] by simp
  qed
qed

section \<open>Weekly cadences\<close>

text \<open>
  The scheduler and the standby manager both count weeks from an anchor date and select one
  weekday of every \<open>e\<close>-th week. Each has its own code for it; what their searches need is this
  law, and that a selected date occurs in every stretch of \<open>7 * e\<close> days, ahead and behind.
\<close>

locale weekly_cadence =
  fixes cadence :: "int \<Rightarrow> int \<Rightarrow> int \<Rightarrow> bool"
  assumes cadence_iff: "1 \<le> e \<Longrightarrow> cadence a d e \<longleftrightarrow> ((d - a) div 7) mod e = 0"
begin

lemma cadence_block:
  assumes "0 < e" and "0 \<le> r" "r < 7"
  shows "cadence a (a + r + 7 * e * k) e"
proof -
  have "(r + 7 * (e * k)) div 7 = e * k"
    using assms by simp
  then show ?thesis using assms(1) by (simp add: cadence_iff algebra_simps)
qed

lemma selected_ahead:
  assumes "calendar_ok cal" and "0 < e"
  shows "\<exists>n<7 * e. 0 \<le> n \<and> weekday_of cal (d + n) = w \<and> cadence a (d + n) e"
proof -
  obtain r where r: "r < 7" "weekday_of cal (a + int r) = w"
    using weekday_in_week [OF assms(1)] by blast
  define p where "p = 7 * e"
  define n where "n = (a + int r - d) mod p"
  have p: "0 < p" using assms(2) by (simp add: p_def)
  obtain k where "a + int r - d = n + p * k"
    unfolding n_def by (metis mod_mult_div_eq)
  then have eq: "d + n = a + int r + 7 * e * (- k)"
    by (simp add: p_def algebra_simps)
  have "weekday_of cal (d + n) = w"
    unfolding eq using weekday_weeks [OF assms(1), of "a + int r" "e * (- k)"] r
    by (simp add: algebra_simps)
  moreover have "cadence a (d + n) e"
    unfolding eq using assms(2) r by (intro cadence_block) auto
  moreover have "0 \<le> n \<and> n < p" using p by (simp add: n_def)
  ultimately show ?thesis by (auto simp: p_def)
qed

lemma selected_behind:
  assumes "calendar_ok cal" and "0 < e"
  shows "\<exists>n<7 * e. 0 \<le> n \<and> weekday_of cal (d - n) = w \<and> cadence a (d - n) e"
proof -
  obtain m where m: "m < 7 * e" "0 \<le> m"
    "weekday_of cal (d - (7 * e - 1) + m) = w" "cadence a (d - (7 * e - 1) + m) e"
    using selected_ahead [OF assms] by blast
  show ?thesis
    by (rule exI [of _ "7 * e - 1 - m"]) (use m in \<open>simp add: algebra_simps\<close>)
qed

end

section \<open>An instance of the calendar\<close>

text \<open>The UTC calendar, with day 0 a Monday: an instance of the parameter for the witnesses.\<close>

definition utc_weekday :: "int \<Rightarrow> weekday" where
  "utc_weekday d = [Mon, Tue, Wed, Thu, Fri, Sat, Sun] ! nat (d mod 7)"

definition utc :: calendar where
  "utc = \<lparr>parse_date = (\<lambda>s. if s = ''1970-01-05'' then Some 0 else None),
     parse_clock = (\<lambda>s f. if s = ''10:00'' \<and> f = ''%H:%M'' then Some 36000 else None),
     hms_opt = (\<lambda>h m s. if h < 24 \<and> m < 60 \<and> s < 60 then Some (3600 * h + 60 * m + s) else None),
     weekday_of = utc_weekday, date_succ = (\<lambda>d. Some (d + 1)), date_pred = (\<lambda>d. Some (d - 1)),
     local_date = (\<lambda>i. i div DAY),
     local_single = (\<lambda>d t. if t < 86400 then Some (d * DAY + int t * SECOND) else None),
     local_earliest = (\<lambda>d t. None), show_instant = (\<lambda>i. ''?'')\<rparr>"

lemma num_days_utc_weekday: "num_days_from_monday (utc_weekday d) = nat (d mod 7)"
proof -
  have "d mod 7 = 0 \<or> d mod 7 = 1 \<or> d mod 7 = 2 \<or> d mod 7 = 3 \<or> d mod 7 = 4 \<or> d mod 7 = 5 \<or> d mod 7 = 6"
    by presburger
  then show ?thesis by (auto simp: utc_weekday_def)
qed

lemma utc_ok: "calendar_ok utc" and utc_dates: "dates_ok utc"
proof -
  have "nat ((d + 1) mod 7) = (nat (d mod 7) + 1) mod 7" for d :: int
  proof -
    have "(d + 1) mod 7 = (int (nat (d mod 7)) + 1) mod 7" by (simp add: mod_add_left_eq)
    also have "\<dots> = int ((nat (d mod 7) + 1) mod 7)" by (simp add: zmod_int add.commute)
    finally show ?thesis by simp
  qed
  moreover have "(d * DAY + int t * SECOND) div DAY = d" if "t < 86400" for d t
  proof -
    have "int t * SECOND < DAY" using that by (simp add: DAY_def SECOND_def)
    moreover have "0 \<le> int t * SECOND" by (simp add: SECOND_def)
    moreover have "DAY \<noteq> 0" by (simp add: DAY_def SECOND_def)
    ultimately show ?thesis by (simp add: div_pos_pos_trivial)
  qed
  moreover have "i div DAY \<le> j div DAY" if "i \<le> j" for i j :: int
    using that by (simp add: zdiv_mono1 DAY_def SECOND_def)
  ultimately show "calendar_ok utc"
    by (auto simp: calendar_ok_def utc_def num_days_utc_weekday split: if_splits)
  show "dates_ok utc" by (simp add: dates_ok_def utc_def)
qed

end
