(* ===== verification/Config.thy ===== *)
theory Config
  imports Prelude Paths Calendar
begin

text \<open>
  The configuration (\<open>src/src/core/config.rs\<close>): its records with their defaults, the cleaning
  applied on every save, validation, and how a machine is recognised by one of its names.

  What the process asks its host (hostname, LAN address, operating system, whether a path is a
  directory) is the parameter record \<open>host\<close>. Parsing and writing the TOML file is not modelled.
  Numeric fields are \<^typ>\<open>nat\<close>: nothing here adds to them.
\<close>

section \<open>Data\<close>

datatype schedule_mode = Realtime | Daily | Weekly
datatype snapshot_backend = AutoBackend | ManifestBackend | ZfsBackend
datatype sync_mode = Mirror

record NativeSyncConfig =
  mirror :: bool
  checksum :: bool
  debug_logs :: bool
  transfer_timeout_secs :: nat
  bwlimit_kbps :: nat
  max_parallel_transfers :: nat
  modify_window_secs :: nat
  zfs_diff :: bool
  fsync :: bool
  trash_keep_days :: nat

record ScheduleConfig =
  mode :: schedule_mode
  sched_time :: string
  timezone :: string
  weekday_name :: "string option"
  every_weeks :: nat
  anchor_date :: string
  sync_current_cycle_manually :: bool

record WakeSchedule =
  wake_every_weeks :: nat
  wake_weekday :: string
  wake_time :: string
  wake_anchor_date :: string
  max_window_minutes :: nat

record StandbyPoolConfig =
  pool_name :: string
  mount_roots :: "path_buf list"
  devices :: "string list"
  pool_enabled :: bool
  active_spindown :: bool
  wake :: WakeSchedule

record SnapshotConfig =
  backend :: snapshot_backend
  dataset :: "string option"
  path_in_dataset :: "path_buf option"
  snap_prefix :: string
  reconcile_interval_secs :: nat
  keep_extra_cycles :: nat

record DestinationConfig =
  dst_id :: string
  dst_machine :: string
  dst_path :: path_buf
  dst_enabled :: bool
  paused :: bool
  schedule :: ScheduleConfig
  dst_sync :: "NativeSyncConfig option"

record SourceGroupConfig =
  src_id :: string
  src_machine :: string
  src_path :: path_buf
  add_directory :: bool
  managed_by :: string
  excludes :: "path_buf list"
  src_enabled :: bool
  display_order :: int
  src_mode :: sync_mode
  snapshot :: SnapshotConfig
  destinations :: "DestinationConfig list"

record MachineConfig =
  m_id :: string
  alias_name :: string
  m_name :: string
  m_host :: string
  m_port :: nat
  ssh_user :: string
  ssh_port :: nat
  os :: string
  install_dir :: path_buf
  m_enabled :: bool
  manual :: bool

record DeployTarget =
  t_id :: string
  t_host :: string
  t_port :: nat
  t_user :: string
  t_install_dir :: path_buf

record AppSection =
  data_db :: path_buf
  log_dir :: path_buf
  status_log_interval_secs :: nat
  port :: nat
  tcp_connection_pool_size :: nat
  peer_token :: string
  preferred_subnet :: string
  app_sync :: NativeSyncConfig
  autostart :: bool
  close_to_tray :: bool

record AppConfig =
  app :: AppSection
  machines :: "MachineConfig list"
  source_groups :: "SourceGroupConfig list"
  standby_pools :: "StandbyPoolConfig list"
  deploy_targets :: "DeployTarget list"

text \<open>What the code asks the machine it runs on.\<close>

record host =
  local_hostname :: string
  preferred_local_host :: string
  host_os :: string
  is_dir :: "path_buf \<Rightarrow> bool option"

section \<open>Defaults\<close>

definition DEFAULT_TRANSFER_TIMEOUT_SECS :: nat where "DEFAULT_TRANSFER_TIMEOUT_SECS = 120"
definition DEFAULT_MAX_PARALLEL_TRANSFERS :: nat where "DEFAULT_MAX_PARALLEL_TRANSFERS = 16"
definition DEFAULT_MODIFY_WINDOW_SECS :: nat where "DEFAULT_MODIFY_WINDOW_SECS = 1"
definition DEFAULT_TCP_CONNECTION_POOL_SIZE :: nat where "DEFAULT_TCP_CONNECTION_POOL_SIZE = 100"

definition default_app_port :: nat where "default_app_port = 18765"
definition default_machine_port :: nat where "default_machine_port = 18765"

definition default_install_dir_for_os :: "string \<Rightarrow> path_buf" where
  "default_install_dir_for_os o_s = (if eq_ignore_ascii_case o_s ''windows'' then ''C:/auto_sync''
     else ''/usr/local/auto_sync'')"

definition NativeSyncConfig_default :: NativeSyncConfig where
  "NativeSyncConfig_default = \<lparr>mirror = True, checksum = False, debug_logs = False,
     transfer_timeout_secs = DEFAULT_TRANSFER_TIMEOUT_SECS, bwlimit_kbps = 0,
     max_parallel_transfers = DEFAULT_MAX_PARALLEL_TRANSFERS,
     modify_window_secs = DEFAULT_MODIFY_WINDOW_SECS, zfs_diff = True, fsync = True,
     trash_keep_days = 30\<rparr>"

definition ScheduleConfig_default :: ScheduleConfig where
  "ScheduleConfig_default = \<lparr>mode = Realtime, sched_time = ''19:00'', timezone = ''local'',
     weekday_name = Some ''monday'', every_weeks = 1, anchor_date = ''2026-01-05'',
     sync_current_cycle_manually = False\<rparr>"

definition WakeSchedule_default :: WakeSchedule where
  "WakeSchedule_default = \<lparr>wake_every_weeks = 1, wake_weekday = ''saturday'', wake_time = ''10:00'',
     wake_anchor_date = ''2026-01-03'', max_window_minutes = 12 * 60\<rparr>"

definition StandbyPoolConfig_default :: StandbyPoolConfig where
  "StandbyPoolConfig_default = \<lparr>pool_name = '''', mount_roots = [], devices = [],
     pool_enabled = True, active_spindown = False, wake = WakeSchedule_default\<rparr>"

definition SnapshotConfig_default :: SnapshotConfig where
  "SnapshotConfig_default = \<lparr>backend = AutoBackend, dataset = None, path_in_dataset = None,
     snap_prefix = ''auto_sync'', reconcile_interval_secs = 900, keep_extra_cycles = 2\<rparr>"

definition DestinationConfig_default :: DestinationConfig where
  "DestinationConfig_default = \<lparr>dst_id = '''', dst_machine = ''local'', dst_path = '''',
     dst_enabled = True, paused = False, schedule = ScheduleConfig_default, dst_sync = None\<rparr>"

definition SourceGroupConfig_default :: SourceGroupConfig where
  "SourceGroupConfig_default = \<lparr>src_id = '''', src_machine = ''local'', src_path = '''',
     add_directory = True, managed_by = '''', excludes = [], src_enabled = True,
     display_order = 0, src_mode = Mirror, snapshot = SnapshotConfig_default, destinations = []\<rparr>"

definition MachineConfig_local :: "host \<Rightarrow> MachineConfig" where
  "MachineConfig_local h = \<lparr>m_id = ''local'', alias_name = '''', m_name = local_hostname h,
     m_host = preferred_local_host h, m_port = default_machine_port, ssh_user = '''',
     ssh_port = 22, os = host_os h, install_dir = default_install_dir_for_os (host_os h),
     m_enabled = True, manual = True\<rparr>"

definition AppSection_default :: AppSection where
  "AppSection_default = \<lparr>data_db = ''data/auto_sync.sqlite'', log_dir = ''logs'',
     status_log_interval_secs = 300, port = default_app_port,
     tcp_connection_pool_size = DEFAULT_TCP_CONNECTION_POOL_SIZE, peer_token = '''',
     preferred_subnet = '''', app_sync = NativeSyncConfig_default, autostart = True,
     close_to_tray = True\<rparr>"

definition AppConfig_default :: "host \<Rightarrow> AppConfig" where
  "AppConfig_default h = \<lparr>app = AppSection_default, machines = [MachineConfig_local h],
     source_groups = [], standby_pools = [], deploy_targets = []\<rparr>"

section \<open>Cleaning\<close>

definition clean_id :: "string \<Rightarrow> string" where
  "clean_id v = map (\<lambda>c. if is_ascii_alphanumeric c \<or> c = CHR ''_'' \<or> c = CHR ''-'' then c
     else CHR ''_'') (trim v)"

definition clean_excludes :: "path_buf list \<Rightarrow> path_buf list" where
  "clean_excludes es =
     dedup_by (\<lambda>p. p) [] (map normalize_lossy (filter (\<lambda>p. p \<noteq> '''') (map clean_path es)))"

definition clean_native_sync_config :: "NativeSyncConfig \<Rightarrow> NativeSyncConfig" where
  "clean_native_sync_config s =
     (if transfer_timeout_secs s = 0
      then s\<lparr>transfer_timeout_secs := DEFAULT_TRANSFER_TIMEOUT_SECS\<rparr> else s)"

definition is_placeholder_local_name :: "string \<Rightarrow> bool" where
  "is_placeholder_local_name n \<longleftrightarrow> n = '''' \<or> n = ''This machine'' \<or> eq_ignore_ascii_case n ''local''"

definition is_advertisable_host :: "string \<Rightarrow> bool" where
  "is_advertisable_host h = (let h = trim h in h \<noteq> '''' \<and> h \<noteq> ''0.0.0.0'' \<and> h \<noteq> ''::''
     \<and> h \<noteq> ''localhost'' \<and> \<not> starts_with h ''127.'')"

definition local_machine_from_config :: "host \<Rightarrow> MachineConfig list \<Rightarrow> MachineConfig" where
  "local_machine_from_config h ms =
     (let l = MachineConfig_local h in
      case List.find (\<lambda>m. clean_id (m_id m) = ''local'') ms of
        None \<Rightarrow> l
      | Some c \<Rightarrow>
          let cname = trim (m_name c);
              l = (if is_placeholder_local_name (m_name l) \<and> \<not> is_placeholder_local_name cname
                   then l\<lparr>m_name := cname\<rparr> else l);
              l = l\<lparr>alias_name := clean_id (alias_name c)\<rparr>;
              l = (if is_advertisable_host (m_host c) then l\<lparr>m_host := trim (m_host c)\<rparr> else l);
              l = (if m_port c \<noteq> 0 then l\<lparr>m_port := m_port c\<rparr> else l);
              l = (if ssh_port c \<noteq> 0 then l\<lparr>ssh_port := ssh_port c\<rparr> else l);
              l = (if trim (ssh_user c) \<noteq> '''' then l\<lparr>ssh_user := trim (ssh_user c)\<rparr> else l);
              l = (if trim (os c) \<noteq> '''' then l\<lparr>os := trim (os c)\<rparr> else l)
          in (if install_dir c \<noteq> '''' then l\<lparr>install_dir := install_dir c\<rparr> else l))"

text \<open>The fields of one machine entry, once its cleaned id is known to be new.\<close>

definition clean_machine :: "host \<Rightarrow> MachineConfig \<Rightarrow> MachineConfig" where
  "clean_machine h m =
     (let m = m\<lparr>m_id := clean_id (m_id m)\<rparr>;
          m = m\<lparr>m_name := trim (m_name m), alias_name := clean_id (alias_name m),
                m_host := trim (m_host m), ssh_user := trim (ssh_user m), os := trim (os m)\<rparr>;
          m = (if m_name m = '''' then m\<lparr>m_name := m_id m\<rparr> else m);
          m = (if m_host m = '''' then m\<lparr>m_host := preferred_local_host h\<rparr> else m);
          m = (if m_port m = 0 then m\<lparr>m_port := default_machine_port\<rparr> else m);
          m = (if ssh_port m = 0 then m\<lparr>ssh_port := 22\<rparr> else m)
      in (if install_dir m = '''' then m\<lparr>install_dir := default_install_dir_for_os (os m)\<rparr> else m))"

definition clean_machines :: "host \<Rightarrow> MachineConfig list \<Rightarrow> MachineConfig list" where
  "clean_machines h ms =
     map (clean_machine h) (dedup_by (\<lambda>m. clean_id (m_id m)) []
       (filter (\<lambda>m. clean_id (m_id m) \<noteq> '''')
         (local_machine_from_config h ms # filter (\<lambda>m. clean_id (m_id m) \<noteq> ''local'') ms)))"

definition merge_target :: "DeployTarget \<Rightarrow> MachineConfig \<Rightarrow> MachineConfig" where
  "merge_target t m =
     (let m = (if trim (m_host m) = '''' then m\<lparr>m_host := trim (t_host t)\<rparr> else m);
          m = (if trim (ssh_user m) = '''' then m\<lparr>ssh_user := trim (t_user t)\<rparr> else m);
          m = (if ssh_port m = 0 \<or> ssh_port m = 22 then m\<lparr>ssh_port := t_port t\<rparr> else m)
      in (if install_dir m = '''' then m\<lparr>install_dir := t_install_dir t\<rparr> else m))"

fun merge_into_first :: "string \<Rightarrow> DeployTarget \<Rightarrow> MachineConfig list \<Rightarrow> MachineConfig list option" where
  "merge_into_first i t [] = None"
| "merge_into_first i t (m # ms) =
     (if clean_id (m_id m) = i then Some (merge_target t m # ms)
      else map_option ((#) m) (merge_into_first i t ms))"

definition merge_deploy_target :: "MachineConfig list \<Rightarrow> DeployTarget \<Rightarrow> MachineConfig list" where
  "merge_deploy_target ms t =
     (let i = clean_id (t_id t) in
      if i = '''' then ms
      else case merge_into_first i t ms of
        Some ms' \<Rightarrow> ms'
      | None \<Rightarrow> ms @ [\<lparr>m_id = i, alias_name = '''', m_name = i, m_host = trim (t_host t),
          m_port = default_machine_port, ssh_user = trim (t_user t),
          ssh_port = (if t_port t = 0 then 22 else t_port t), os = '''',
          install_dir = t_install_dir t, m_enabled = True, manual = True\<rparr>])"

definition merge_deploy_targets_into_machines :: "AppConfig \<Rightarrow> AppConfig" where
  "merge_deploy_targets_into_machines cfg =
     cfg\<lparr>machines := foldl merge_deploy_target (machines cfg) (deploy_targets cfg)\<rparr>"

definition clean_destination :: "DestinationConfig \<Rightarrow> DestinationConfig" where
  "clean_destination d =
     (let d = (if trim (dst_machine d) = '''' then d\<lparr>dst_machine := ''local''\<rparr> else d)
      in d\<lparr>dst_path := clean_path (dst_path d),
           dst_sync := map_option clean_native_sync_config (dst_sync d)\<rparr>)"

text \<open>The body of the loop over the sources; \<open>retain_mut\<close> keeps a destination when its path is
  not empty and its normalised path is new for this source.\<close>

definition clean_source :: "SourceGroupConfig \<Rightarrow> SourceGroupConfig" where
  "clean_source s =
     (let s = (if trim (src_machine s) = '''' then s\<lparr>src_machine := ''local''\<rparr> else s)
      in s\<lparr>src_path := clean_path (src_path s), excludes := clean_excludes (excludes s),
           destinations := dedup_by (\<lambda>d. normalize_lossy (dst_path d)) []
             (filter (\<lambda>d. dst_path d \<noteq> '''') (map clean_destination (destinations s)))\<rparr>)"

definition clean_config_for_save :: "host \<Rightarrow> AppConfig \<Rightarrow> AppConfig" where
  "clean_config_for_save h cfg =
     (let cfg = (if port (app cfg) = 0 then cfg\<lparr>app := (app cfg)\<lparr>port := default_app_port\<rparr>\<rparr> else cfg);
          cfg = cfg\<lparr>app := (app cfg)\<lparr>app_sync := clean_native_sync_config (app_sync (app cfg))\<rparr>\<rparr>;
          cfg = merge_deploy_targets_into_machines cfg;
          cfg = cfg\<lparr>machines := clean_machines h (machines cfg)\<rparr>
      in cfg\<lparr>source_groups := filter (\<lambda>s. src_path s \<noteq> '''') (map clean_source (source_groups cfg))\<rparr>)"

section \<open>Ports and times\<close>

definition parse_port_text :: "string \<Rightarrow> string + nat" where
  "parse_port_text v =
     (let t = trim v in
      if t = '''' then Inr default_app_port
      else case parse_unsigned 65535 (trim (last (split_on (\<lambda>c. c = CHR '':'') t))) of
        Some p \<Rightarrow> Inr p | None \<Rightarrow> Inl t)"

datatype schedule_error = BadTimeFormat | BadHour | BadMinute | BadSecond | TimeOutOfRange string
  | ZeroEveryWeeks | BadAnchor string | BadTime string | BadWeekday string | UnresolvedLocalTime
  | DateOverflow | NoBoundary

definition parse_schedule_time :: "string \<Rightarrow> schedule_error + nat \<times> nat \<times> nat" where
  "parse_schedule_time v =
     (let parts = split_on (\<lambda>c. c = CHR '':'') v; u32_max = 2 ^ 32 - 1 in
      if length parts \<noteq> 2 \<and> length parts \<noteq> 3 then Inl BadTimeFormat
      else case parse_unsigned u32_max (parts ! 0) of None \<Rightarrow> Inl BadHour
      | Some hour \<Rightarrow> (case parse_unsigned u32_max (parts ! 1) of None \<Rightarrow> Inl BadMinute
      | Some minute \<Rightarrow> (case (if length parts = 3 then parse_unsigned u32_max (parts ! 2) else Some 0)
          of None \<Rightarrow> Inl BadSecond
      | Some second \<Rightarrow> if hour > 23 \<or> minute > 59 \<or> second \<noteq> 0 then Inl (TimeOutOfRange v)
          else Inr (hour, minute, second))))"

definition validate_schedule :: "calendar \<Rightarrow> ScheduleConfig \<Rightarrow> schedule_error + unit" where
  "validate_schedule cal s =
     (case mode s of
        Realtime \<Rightarrow> Inr ()
      | m \<Rightarrow> (case parse_schedule_time (sched_time s) of Inl e \<Rightarrow> Inl e
        | Inr _ \<Rightarrow> if every_weeks s = 0 then Inl ZeroEveryWeeks
            else if m = Weekly \<and> parse_date cal (anchor_date s) = None
                 then Inl (BadAnchor (anchor_date s)) else Inr ()))"

section \<open>Paths of the configuration\<close>

text \<open>Which configuration file is used: what \<open>exists\<close> and the path of the executable are asked of
  the system.\<close>

definition resolve_config_path ::
    "path_buf option \<Rightarrow> (path_buf \<Rightarrow> bool) \<Rightarrow> path_buf option \<Rightarrow> path_buf" where
  "resolve_config_path explicit file_exists exe =
     (case explicit of Some p \<Rightarrow> p
      | None \<Rightarrow>
          let relative = path_push ''conf'' ''auto_sync.toml'';
              beside = (\<lambda>dir. path_push (path_push dir ''conf'') ''auto_sync.toml'')
          in if file_exists relative then relative
             else case exe of None \<Rightarrow> relative
             | Some e \<Rightarrow> (case path_parent e of None \<Rightarrow> relative
               | Some exe_dir \<Rightarrow>
                   (case path_parent exe_dir of
                      Some parent \<Rightarrow> if file_exists (beside parent) then beside parent
                        else if file_exists (beside exe_dir) then beside exe_dir else relative
                    | None \<Rightarrow> if file_exists (beside exe_dir) then beside exe_dir else relative)))"

definition config_runtime_base :: "path_buf \<Rightarrow> path_buf" where
  "config_runtime_base config_path =
     (let parent = (case path_parent config_path of Some p \<Rightarrow> p | None \<Rightarrow> ''.'')
      in case file_name parent of
           Some n \<Rightarrow> if eq_ignore_ascii_case n ''conf''
             then (case path_parent parent of Some p \<Rightarrow> p | None \<Rightarrow> parent) else parent
         | None \<Rightarrow> parent)"

definition resolve_app_runtime_paths :: "path_buf \<Rightarrow> AppConfig \<Rightarrow> AppConfig" where
  "resolve_app_runtime_paths config_path cfg =
     (let base = config_runtime_base config_path; a = app cfg;
          a = (if is_absolute (data_db a) then a else a\<lparr>data_db := path_push base (data_db a)\<rparr>);
          a = (if is_absolute (log_dir a) then a else a\<lparr>log_dir := path_push base (log_dir a)\<rparr>)
      in cfg\<lparr>app := a\<rparr>)"

definition NAS_ROOT_COLLECT_PATHS :: "string list" where
  "NAS_ROOT_COLLECT_PATHS =
     [''/opt/user/root/.bash_history'', ''/opt/user/root/.bashrc'', ''/opt/user/root/.claude.json'',
      ''/opt/user/root/.flutter'', ''/opt/user/root/.gitconfig'', ''/opt/user/root/.profile'',
      ''/opt/user/root/.vimrc'', ''/opt/user/root/.zprofile'', ''/opt/user/root/.zsh_history'',
      ''/opt/user/root/.zshenv'', ''/opt/user/root/.zshrc'']"

definition normalize_collector_paths :: "string list \<Rightarrow> string list" where
  "normalize_collector_paths paths =
     dedup_by (\<lambda>p. p) [] (concat (map (\<lambda>p.
       if trim p = '''' then []
       else let n = trim_end_matches is_sep (trim p)
            in if n = ''/opt/user/root'' then NAS_ROOT_COLLECT_PATHS else [n]) paths))"

definition is_local_machine :: "string \<Rightarrow> bool" where
  "is_local_machine v \<longleftrightarrow> v = '''' \<or> v = ''local''"

section \<open>Machine references\<close>

definition machine_id_or_local :: "string \<Rightarrow> string" where
  "machine_id_or_local v = (if trim v = '''' then ''local'' else trim v)"

definition insert_machine_reference :: "string \<Rightarrow> string set \<Rightarrow> string set" where
  "insert_machine_reference v refs =
     (let v = trim v in if v = '''' then refs else insert (to_ascii_lowercase v) refs)"

definition machine_reference_set :: "MachineConfig list \<Rightarrow> string set" where
  "machine_reference_set ms = foldl (\<lambda>refs m.
     insert_machine_reference (m_host m)
       (insert_machine_reference (alias_name m) (insert_machine_reference (m_id m) refs))) {} ms"

definition machine_matches_reference :: "MachineConfig \<Rightarrow> string \<Rightarrow> bool" where
  "machine_matches_reference m v =
     (let v = machine_id_or_local v in
      if to_ascii_lowercase v = ''local'' then m_id m = ''local''
      else if trim (alias_name m) \<noteq> '''' \<and> eq_ignore_ascii_case (trim (alias_name m)) v then True
      else if eq_ignore_ascii_case (m_id m) v then True
      else eq_ignore_ascii_case (trim (m_host m)) v)"

definition normalized_machines :: "host \<Rightarrow> AppConfig \<Rightarrow> MachineConfig list" where
  "normalized_machines h cfg = clean_machines h (machines cfg)"

definition machine_is_local :: "host \<Rightarrow> AppConfig \<Rightarrow> string \<Rightarrow> bool" where
  "machine_is_local h cfg i =
     (let v = machine_id_or_local i in
      if eq_ignore_ascii_case v ''local'' then True
      else if eq_ignore_ascii_case v (trim (local_hostname h)) then True
      else list_ex (\<lambda>m. m_id m = ''local'' \<and> machine_matches_reference m v) (normalized_machines h cfg))"

definition machine_is_self :: "host \<Rightarrow> AppConfig \<Rightarrow> MachineConfig \<Rightarrow> bool" where
  "machine_is_self h cfg m =
     (if m_id m = ''local'' then True
      else if list_ex (\<lambda>r. trim r \<noteq> '''' \<and> machine_is_local h cfg r) [m_id m, alias_name m] then True
      else let ho = trim (m_host m) in ho \<noteq> '''' \<and>
        (eq_ignore_ascii_case ho ''127.0.0.1'' \<or> eq_ignore_ascii_case ho ''::1''
         \<or> eq_ignore_ascii_case ho ''localhost''
         \<or> eq_ignore_ascii_case ho (trim (preferred_local_host h))
         \<or> eq_ignore_ascii_case ho (trim (local_hostname h))))"

definition machine_display_name :: "MachineConfig \<Rightarrow> string" where
  "machine_display_name m =
     (if trim (alias_name m) \<noteq> '''' then trim (alias_name m)
      else if trim (m_host m) \<noteq> '''' then trim (m_host m)
      else if trim (m_name m) \<noteq> '''' then trim (m_name m)
      else m_id m)"

text \<open>The \<open>BTreeMap\<close> from a host to the names using it, in host order.\<close>

definition machines_by_host :: "MachineConfig list \<Rightarrow> (string \<times> string list) list" where
  "machines_by_host ms =
     (let keyed = filter (\<lambda>(ho, _). ho \<noteq> '''')
            (map (\<lambda>m. (to_ascii_lowercase (trim (m_host m)), machine_display_name m)) ms)
      in map (\<lambda>ho. (ho, map snd (filter (\<lambda>(k, _). k = ho) keyed)))
           (sort (remdups (map fst keyed))))"

datatype config_warning = SharedHost string "string list" | SeveralSelf "string list"

definition config_warnings :: "host \<Rightarrow> AppConfig \<Rightarrow> config_warning list" where
  "config_warnings h cfg =
     List.map_filter (\<lambda>(ho, names). let names' = sort (remdups names) in
         if length names > 1 \<and> length names' > 1 then Some (SharedHost ho names') else None)
       (machines_by_host (machines cfg))
     @ (let selfs = map machine_display_name (filter (machine_is_self h cfg) (machines cfg))
        in if length selfs > 1 then [SeveralSelf selfs] else [])"

definition effective_sync_config :: "AppConfig \<Rightarrow> DestinationConfig \<Rightarrow> NativeSyncConfig" where
  "effective_sync_config cfg d = (case dst_sync d of Some s \<Rightarrow> s | None \<Rightarrow> app_sync (app cfg))"

definition transfer_timeout :: "NativeSyncConfig \<Rightarrow> nat" where
  "transfer_timeout s = max (transfer_timeout_secs s) 1"

definition snapshot_timeout_floor :: "bool \<Rightarrow> nat" where
  "snapshot_timeout_floor ck = (if ck then 6 * 3600 else 3600)"

definition snapshot_timeout :: "NativeSyncConfig \<Rightarrow> nat" where
  "snapshot_timeout s = max (transfer_timeout s) (snapshot_timeout_floor (checksum s))"

section \<open>Validation\<close>

datatype config_error =
    DuplicateMachineId string | EmptySourceId | DuplicateSourceId string | EmptySrc string
  | SourceUnknownMachine string string | EmptyPrefix string | ZeroReconcile string
  | EmptyExclude string | AbsoluteExclude string path_buf | ParentExclude string path_buf
  | EmptyDestinationId string | DuplicateDestinationId string string | EmptyDestinationPath string
  | DestinationUnknownMachine string string | InvalidSchedule string schedule_error
  | DirectoryToFile string string | DestinationInsideSource string string

text \<open>The key list stands for the \<open>HashSet\<close> of what has been seen.\<close>

fun first_repeat :: "string list \<Rightarrow> string list \<Rightarrow> string option" where
  "first_repeat seen [] = None"
| "first_repeat seen (x # xs) = (if x \<in> set seen then Some x else first_repeat (x # seen) xs)"

definition validate_unique_machine_ids :: "MachineConfig list \<Rightarrow> config_error + unit" where
  "validate_unique_machine_ids ms =
     (case first_repeat [] (filter (\<lambda>i. i \<noteq> '''') (map (\<lambda>m. clean_id (m_id m)) ms)) of
        None \<Rightarrow> Inr () | Some i \<Rightarrow> Inl (DuplicateMachineId i))"

definition validate_exclude_path :: "string \<Rightarrow> path_buf \<Rightarrow> config_error + unit" where
  "validate_exclude_path sid p = first_error
     [bail_if (p = '''') (EmptyExclude sid),
      bail_if (is_absolute p) (AbsoluteExclude sid p),
      bail_if (list_ex (\<lambda>c. c = ParentDir) (components p)) (ParentExclude sid p)]"

definition existing_directory_source_to_file_destination ::
    "host \<Rightarrow> SourceGroupConfig \<Rightarrow> DestinationConfig \<Rightarrow> bool" where
  "existing_directory_source_to_file_destination h s d =
     (case is_dir h (src_path s) of None \<Rightarrow> False
      | Some sd \<Rightarrow> (case is_dir h (dst_path d) of None \<Rightarrow> False | Some dd \<Rightarrow> sd \<and> \<not> dd))"

definition validate_destination :: "host \<Rightarrow> calendar \<Rightarrow> string set \<Rightarrow> SourceGroupConfig \<Rightarrow>
    string list \<Rightarrow> DestinationConfig \<Rightarrow> config_error + unit" where
  "validate_destination h cal ids s seen d = first_error
     [bail_if (trim (dst_id d) = '''') (EmptyDestinationId (src_id s)),
      bail_if (dst_id d \<in> set seen) (DuplicateDestinationId (src_id s) (dst_id d)),
      bail_if (dst_path d = '''') (EmptyDestinationPath (dst_id d)),
      bail_if (to_ascii_lowercase (machine_id_or_local (dst_machine d)) \<notin> ids)
        (DestinationUnknownMachine (dst_id d) (machine_id_or_local (dst_machine d))),
      (case validate_schedule cal (schedule d) of
         Inl e \<Rightarrow> Inl (InvalidSchedule (dst_id d) e) | Inr _ \<Rightarrow> Inr ()),
      bail_if (existing_directory_source_to_file_destination h s d)
        (DirectoryToFile (src_id s) (dst_id d)),
      bail_if (path_has_prefix (dst_path d) (src_path s))
        (DestinationInsideSource (dst_id d) (src_id s))]"

fun validate_destinations :: "host \<Rightarrow> calendar \<Rightarrow> string set \<Rightarrow> SourceGroupConfig \<Rightarrow>
    string list \<Rightarrow> DestinationConfig list \<Rightarrow> config_error + unit" where
  "validate_destinations h cal ids s seen [] = Inr ()"
| "validate_destinations h cal ids s seen (d # ds) =
     (case validate_destination h cal ids s seen d of
        Inl e \<Rightarrow> Inl e
      | Inr _ \<Rightarrow> validate_destinations h cal ids s (dst_id d # seen) ds)"

definition validate_source :: "host \<Rightarrow> calendar \<Rightarrow> string set \<Rightarrow> string list \<Rightarrow>
    SourceGroupConfig \<Rightarrow> config_error + unit" where
  "validate_source h cal ids seen s = first_error
     ([bail_if (trim (src_id s) = '''') EmptySourceId,
       bail_if (src_id s \<in> set seen) (DuplicateSourceId (src_id s)),
       bail_if (src_path s = '''') (EmptySrc (src_id s)),
       bail_if (to_ascii_lowercase (machine_id_or_local (src_machine s)) \<notin> ids)
         (SourceUnknownMachine (src_id s) (machine_id_or_local (src_machine s))),
       bail_if (trim (snap_prefix (snapshot s)) = '''') (EmptyPrefix (src_id s)),
       bail_if (reconcile_interval_secs (snapshot s) = 0) (ZeroReconcile (src_id s))]
      @ map (validate_exclude_path (src_id s)) (excludes s)
      @ [validate_destinations h cal ids s [] (destinations s)])"

fun validate_sources :: "host \<Rightarrow> calendar \<Rightarrow> string set \<Rightarrow> string list \<Rightarrow>
    SourceGroupConfig list \<Rightarrow> config_error + unit" where
  "validate_sources h cal ids seen [] = Inr ()"
| "validate_sources h cal ids seen (s # ss) =
     (case validate_source h cal ids seen s of
        Inl e \<Rightarrow> Inl e
      | Inr _ \<Rightarrow> validate_sources h cal ids (src_id s # seen) ss)"

definition validate :: "host \<Rightarrow> calendar \<Rightarrow> AppConfig \<Rightarrow> config_error + unit" where
  "validate h cal cfg = first_error
     [validate_unique_machine_ids (machines cfg),
      validate_sources h cal (machine_reference_set (clean_machines h (machines cfg))) []
        (source_groups cfg)]"

text \<open>What \<open>save_config\<close> decides before it writes the file.\<close>

definition save_config :: "host \<Rightarrow> calendar \<Rightarrow> AppConfig \<Rightarrow> config_error + AppConfig" where
  "save_config h cal cfg =
     (case validate_unique_machine_ids (machines cfg) of
        Inl e \<Rightarrow> Inl e
      | Inr _ \<Rightarrow> let cfg = clean_config_for_save h cfg in
          (case validate h cal cfg of Inl e \<Rightarrow> Inl e | Inr _ \<Rightarrow> Inr cfg))"

section \<open>What validation guarantees\<close>

lemma first_repeat_None: "first_repeat seen xs = None \<longleftrightarrow> distinct xs \<and> set xs \<inter> set seen = {}"
  by (induction seen xs rule: first_repeat.induct) auto

definition destination_valid :: "host \<Rightarrow> calendar \<Rightarrow> string set \<Rightarrow> SourceGroupConfig \<Rightarrow> DestinationConfig \<Rightarrow> bool" where
  "destination_valid h cal ids s d \<longleftrightarrow>
     trim (dst_id d) \<noteq> '''' \<and> dst_path d \<noteq> '''' \<and>
     to_ascii_lowercase (machine_id_or_local (dst_machine d)) \<in> ids \<and>
     validate_schedule cal (schedule d) = Inr () \<and>
     \<not> existing_directory_source_to_file_destination h s d \<and>
     \<not> path_has_prefix (dst_path d) (src_path s)"

definition source_valid :: "host \<Rightarrow> calendar \<Rightarrow> string set \<Rightarrow> SourceGroupConfig \<Rightarrow> bool" where
  "source_valid h cal ids s \<longleftrightarrow>
     trim (src_id s) \<noteq> '''' \<and> src_path s \<noteq> '''' \<and>
     to_ascii_lowercase (machine_id_or_local (src_machine s)) \<in> ids \<and>
     trim (snap_prefix (snapshot s)) \<noteq> '''' \<and> reconcile_interval_secs (snapshot s) \<noteq> 0 \<and>
     (\<forall>e\<in>set (excludes s). e \<noteq> '''' \<and> \<not> is_absolute e \<and> ParentDir \<notin> set (components e)) \<and>
     distinct (map dst_id (destinations s)) \<and>
     (\<forall>d\<in>set (destinations s). destination_valid h cal ids s d)"

lemma validate_destination_ok:
  "validate_destination h cal ids s seen d = Inr () \<longleftrightarrow>
     dst_id d \<notin> set seen \<and> destination_valid h cal ids s d"
  by (auto simp: validate_destination_def first_error_ok destination_valid_def split: sum.splits)

lemma validate_destinations_ok:
  "validate_destinations h cal ids s seen ds = Inr () \<longleftrightarrow>
     distinct (map dst_id ds) \<and> set (map dst_id ds) \<inter> set seen = {} \<and>
     (\<forall>d\<in>set ds. destination_valid h cal ids s d)"
proof (induction ds arbitrary: seen)
  case (Cons d ds)
  show ?case
  proof (cases "validate_destination h cal ids s seen d")
    case (Inl e)
    then have "\<not> (dst_id d \<notin> set seen \<and> destination_valid h cal ids s d)"
      using validate_destination_ok [of h cal ids s seen d] by simp
    with Inl show ?thesis by auto
  next
    case (Inr u)
    then have "dst_id d \<notin> set seen \<and> destination_valid h cal ids s d"
      using validate_destination_ok [of h cal ids s seen d] by simp
    with Inr Cons.IH [of "dst_id d # seen"] show ?thesis by auto
  qed
qed simp

lemma validate_exclude_ok:
  "validate_exclude_path sid e = Inr () \<longleftrightarrow>
     e \<noteq> '''' \<and> \<not> is_absolute e \<and> ParentDir \<notin> set (components e)"
  by (auto simp: validate_exclude_path_def first_error_ok list_ex_iff)

lemma validate_source_ok:
  "validate_source h cal ids seen s = Inr () \<longleftrightarrow> src_id s \<notin> set seen \<and> source_valid h cal ids s"
  by (simp add: validate_source_def first_error_ok source_valid_def validate_destinations_ok
      ball_Un validate_exclude_ok)
    blast

lemma validate_sources_ok:
  "validate_sources h cal ids seen ss = Inr () \<longleftrightarrow>
     distinct (map src_id ss) \<and> set (map src_id ss) \<inter> set seen = {} \<and>
     (\<forall>s\<in>set ss. source_valid h cal ids s)"
proof (induction ss arbitrary: seen)
  case (Cons s ss)
  show ?case
  proof (cases "validate_source h cal ids seen s")
    case (Inl e)
    then have "\<not> (src_id s \<notin> set seen \<and> source_valid h cal ids s)"
      using validate_source_ok [of h cal ids seen s] by simp
    with Inl show ?thesis by auto
  next
    case (Inr u)
    then have "src_id s \<notin> set seen \<and> source_valid h cal ids s"
      using validate_source_ok [of h cal ids seen s] by simp
    with Inr Cons.IH [of "src_id s # seen"] show ?thesis by auto
  qed
qed simp

lemma validate_ok:
  "validate h cal cfg = Inr () \<longleftrightarrow>
     distinct (filter (\<lambda>i. i \<noteq> '''') (map (\<lambda>m. clean_id (m_id m)) (machines cfg))) \<and>
     distinct (map src_id (source_groups cfg)) \<and>
     (\<forall>s\<in>set (source_groups cfg).
        source_valid h cal (machine_reference_set (clean_machines h (machines cfg))) s)"
proof -
  have "validate_unique_machine_ids (machines cfg) = Inr () \<longleftrightarrow>
      distinct (filter (\<lambda>i. i \<noteq> '''') (map (\<lambda>m. clean_id (m_id m)) (machines cfg)))"
    using first_repeat_None [of "[]" "filter (\<lambda>i. i \<noteq> '''') (map (\<lambda>m. clean_id (m_id m)) (machines cfg))"]
    by (auto simp: validate_unique_machine_ids_def split: option.splits)
  then show ?thesis
    by (simp add: validate_def first_error_ok validate_sources_ok)
qed

lemma save_config_Inr:
  "save_config h cal cfg = Inr cfg' \<longleftrightarrow>
     validate_unique_machine_ids (machines cfg) = Inr () \<and>
     cfg' = clean_config_for_save h cfg \<and> validate h cal cfg' = Inr ()"
  by (auto simp: save_config_def Let_def split: sum.splits)

section \<open>What cleaning guarantees\<close>

lemma is_whitespace_us: "\<not> is_whitespace (CHR ''_'')"
  by (simp add: is_whitespace_def)

lemma alnum_not_ws: "is_ascii_alphanumeric c \<Longrightarrow> \<not> is_whitespace c"
  by (auto simp: is_ascii_alphanumeric_def is_whitespace_def Let_def)

lemma clean_id_no_ws: "c \<in> set (clean_id v) \<Longrightarrow> \<not> is_whitespace c"
  by (auto simp: clean_id_def alnum_not_ws is_whitespace_us split: if_splits)
    (simp add: is_whitespace_def)

lemma trim_clean_id [simp]: "trim (clean_id v) = clean_id v"
proof (cases "clean_id v = ''''")
  case True
  then show ?thesis by (simp add: trim_def trim_start_def trim_end_matches_def)
next
  case False
  then show ?thesis
    by (intro trim_no_ws clean_id_no_ws [of _ v]) simp_all
qed

lemma clean_id_idem [simp]: "clean_id (clean_id v) = clean_id v"
proof -
  have "c \<in> set (clean_id v) \<Longrightarrow> is_ascii_alphanumeric c \<or> c = CHR ''_'' \<or> c = CHR ''-''" for c
    by (auto simp: clean_id_def)
  then have "map (\<lambda>c. if is_ascii_alphanumeric c \<or> c = CHR ''_'' \<or> c = CHR ''-'' then c
      else CHR ''_'') (clean_id v) = clean_id v"
    by (intro map_idI) meson
  then show ?thesis by (subst clean_id_def) simp
qed

lemma clean_machine_id: "m_id (clean_machine h m) = clean_id (m_id m)"
  by (simp add: clean_machine_def Let_def)

lemma local_machine_id: "m_id (local_machine_from_config h ms) = ''local''"
  by (simp add: local_machine_from_config_def MachineConfig_local_def Let_def split: option.splits)

lemma clean_id_local: "clean_id ''local'' = ''local''"
  by (simp add: clean_id_def is_ascii_alphanumeric_def trim_def trim_start_def
      trim_end_matches_def is_whitespace_def)

lemma clean_machines_ids:
  "map m_id (clean_machines h ms) = map (\<lambda>m. clean_id (m_id m)) (dedup_by (\<lambda>m. clean_id (m_id m)) []
     (filter (\<lambda>m. clean_id (m_id m) \<noteq> '''')
       (local_machine_from_config h ms # filter (\<lambda>m. clean_id (m_id m) \<noteq> ''local'') ms)))"
  by (simp add: clean_machines_def clean_machine_id)

lemma machine_ids_clean:
  "hd (map m_id (clean_machines h ms)) = ''local''
   \<and> distinct (map m_id (clean_machines h ms))
   \<and> set (map m_id (clean_machines h ms))
     = insert ''local'' ((\<lambda>m. clean_id (m_id m)) ` set ms - {''''})"
proof -
  let ?k = "\<lambda>m. clean_id (m_id m)"
  let ?l = "local_machine_from_config h ms"
  let ?xs = "filter (\<lambda>m. ?k m \<noteq> '''') (?l # filter (\<lambda>m. ?k m \<noteq> ''local'') ms)"
  have l: "?k ?l = ''local''" by (simp add: local_machine_id clean_id_local)
  have "distinct (map ?k (dedup_by ?k [] ?xs))" using dedup_by_distinct by blast
  moreover have "?k ` set (dedup_by ?k [] ?xs) = ?k ` set ?xs" using dedup_by_keys [of ?k "[]" ?xs] by simp
  moreover have "?k ` set ?xs = insert ''local'' (?k ` set ms - {''''})" using l by auto
  moreover have "hd (map ?k (dedup_by ?k [] ?xs)) = ''local''" using l by simp
  ultimately show ?thesis by (simp only: clean_machines_ids set_map)
qed

text \<open>The machine table of a cleaned configuration starts with this machine, has unique
  non-empty ids, and keeps every configured machine with a non-empty id.\<close>

theorem clean_machines_table:
  "hd (map m_id (clean_machines h ms)) = ''local''
   \<and> distinct (map m_id (clean_machines h ms))
   \<and> set (map m_id (clean_machines h ms))
     = insert ''local'' ((\<lambda>m. clean_id (m_id m)) ` set ms - {''''})"
  by (rule machine_ids_clean)

section \<open>References resolve\<close>

lemma insert_machine_reference_mem:
  "x \<in> insert_machine_reference v refs \<longleftrightarrow> x \<in> refs \<or> (trim v \<noteq> '''' \<and> x = to_ascii_lowercase (trim v))"
  by (auto simp: insert_machine_reference_def Let_def)

lemma machine_reference_set_mem:
  "x \<in> machine_reference_set ms \<longleftrightarrow>
     (\<exists>m\<in>set ms. \<exists>v\<in>{m_id m, alias_name m, m_host m}. trim v \<noteq> '''' \<and> x = to_ascii_lowercase (trim v))"
proof -
  have "x \<in> foldl (\<lambda>refs m. insert_machine_reference (m_host m)
      (insert_machine_reference (alias_name m) (insert_machine_reference (m_id m) refs))) R ms
    \<longleftrightarrow> x \<in> R \<or> (\<exists>m\<in>set ms. \<exists>v\<in>{m_id m, alias_name m, m_host m}. trim v \<noteq> '''' \<and> x = to_ascii_lowercase (trim v))"
    for R
    by (induction ms arbitrary: R) (auto simp: insert_machine_reference_mem)
  then show ?thesis by (simp add: machine_reference_set_def)
qed

lemma clean_machine_trimmed: "trim (m_id (clean_machine h m)) = m_id (clean_machine h m)"
  by (simp add: clean_machine_id)

text \<open>Every machine reference validation accepts names a machine of the cleaned table,
  by id, alias or host, ignoring case.\<close>

theorem accepted_reference_resolves:
  assumes "to_ascii_lowercase (machine_id_or_local v) \<in> machine_reference_set (clean_machines h ms)"
  shows "\<exists>m\<in>set (clean_machines h ms). machine_matches_reference m v"
proof (cases "to_ascii_lowercase (machine_id_or_local v) = ''local''")
  case True
  have "''local'' \<in> m_id ` set (clean_machines h ms)"
    using machine_ids_clean [of h ms] by (metis insertI1 list.set_map)
  with True show ?thesis by (auto simp: machine_matches_reference_def)
next
  case False
  from assms obtain m w where m: "m \<in> set (clean_machines h ms)"
    and w: "w = m_id m \<or> w = alias_name m \<or> w = m_host m"
    and ne: "trim w \<noteq> ''''" and eq: "to_ascii_lowercase (machine_id_or_local v) = to_ascii_lowercase (trim w)"
    by (auto simp: machine_reference_set_mem)
  have "trim (m_id m) = m_id m"
    using m by (auto simp: clean_machines_def clean_machine_trimmed)
  then have "machine_matches_reference m v"
    using w ne eq False by (auto simp: machine_matches_reference_def eq_ignore_ascii_case_def Let_def)
  with m show ?thesis by blast
qed

lemma clean_source_paths:
  "distinct (map (\<lambda>d. normalize_lossy (dst_path d)) (destinations (clean_source s)))"
  using dedup_by_distinct [of "\<lambda>d. normalize_lossy (dst_path d)" "[]"]
  by (simp add: clean_source_def Let_def)


text \<open>Saving drops a destination whose path repeats an earlier one of the same source,
  also when the two are on different machines: the key of the \<open>HashSet\<close> is the path alone.\<close>

theorem clean_drops_same_path_on_other_machine:
  assumes "normalize_lossy (clean_path (dst_path d1)) = normalize_lossy (clean_path (dst_path d2))"
    and "clean_path (dst_path d1) \<noteq> ''''"
  shows "destinations (clean_source (s\<lparr>destinations := [d1, d2]\<rparr>)) = [clean_destination d1]"
proof -
  have "dst_path (clean_destination d) = clean_path (dst_path d)" for d
    by (simp add: clean_destination_def Let_def)
  with assms show ?thesis by (simp add: clean_source_def Let_def)
qed

definition demo_host :: host where
  "demo_host = \<lparr>local_hostname = ''nas'', preferred_local_host = ''192.168.2.9'',
     host_os = ''linux'', is_dir = (\<lambda>p. None)\<rparr>"

definition demo_destination :: DestinationConfig where
  "demo_destination = DestinationConfig_default\<lparr>dst_id := ''d1'', dst_machine := ''local'', dst_path := '' /bak ''\<rparr>"

definition demo_source :: SourceGroupConfig where
  "demo_source = SourceGroupConfig_default\<lparr>src_id := ''s1'', src_path := ''/data'',
     excludes := [''tmp/'', ''tmp''], destinations := [demo_destination]\<rparr>"

definition demo_config :: AppConfig where
  "demo_config = (AppConfig_default demo_host)\<lparr>source_groups := [demo_source], machines := []\<rparr>"

lemma demo_destination_clean:
  "clean_destination demo_destination = demo_destination\<lparr>dst_path := ''/bak''\<rparr>"
  by (simp add: str_simps clean_destination_def demo_destination_def DestinationConfig_default_def)

lemma demo_source_clean:
  "src_path (clean_source demo_source) = ''/data''"
  "excludes (clean_source demo_source) = [''tmp'']"
  "destinations (clean_source demo_source) = [demo_destination\<lparr>dst_path := ''/bak''\<rparr>]"
  "src_id (clean_source demo_source) = ''s1''"
  "src_machine (clean_source demo_source) = ''local''"
  "snapshot (clean_source demo_source) = SnapshotConfig_default"
proof -
  have "clean_path (src_path demo_source) = ''/data''"
    and "clean_excludes (excludes demo_source) = [''tmp'']"
    and m: "src_machine demo_source = ''local''"
    and "destinations demo_source = [demo_destination]"
    and "src_id demo_source = ''s1''" and "snapshot demo_source = SnapshotConfig_default"
    by (simp_all add: str_simps demo_source_def SourceGroupConfig_default_def clean_excludes_def)
  moreover have "trim ''local'' \<noteq> ''''" by (simp add: str_simps)
  ultimately show "src_path (clean_source demo_source) = ''/data''"
    "excludes (clean_source demo_source) = [''tmp'']"
    "destinations (clean_source demo_source) = [demo_destination\<lparr>dst_path := ''/bak''\<rparr>]"
    "src_id (clean_source demo_source) = ''s1''"
    "src_machine (clean_source demo_source) = ''local''"
    "snapshot (clean_source demo_source) = SnapshotConfig_default"
    by (simp_all add: clean_source_def demo_destination_clean Let_def)
qed

lemma local_is_referenced:
  "to_ascii_lowercase (machine_id_or_local ''local'') \<in> machine_reference_set (clean_machines h ms)"
proof -
  have l: "to_ascii_lowercase (machine_id_or_local ''local'') = ''local''"
    and t: "trim ''local'' = ''local''" "to_ascii_lowercase ''local'' = ''local''"
    by (simp_all add: str_simps machine_id_or_local_def)
  have "''local'' \<in> m_id ` set (clean_machines h ms)"
    using machine_ids_clean [of h ms] by (metis insertI1 list.set_map)
  then obtain m where "m \<in> set (clean_machines h ms)" "m_id m = ''local''" by auto
  with t show ?thesis unfolding l machine_reference_set_mem
    by (intro bexI [of _ m] bexI [of _ "''local''"]) auto
qed

lemma demo_config_saves:
  "save_config demo_host utc demo_config = Inr (clean_config_for_save demo_host demo_config)"
proof -
  let ?c = "clean_config_for_save demo_host demo_config"
  have sg: "source_groups ?c = [clean_source demo_source]"
    using demo_source_clean(1)
    by (simp add: clean_config_for_save_def demo_config_def merge_deploy_targets_into_machines_def Let_def)
  have ms: "machines ?c = clean_machines demo_host []"
    by (simp add: clean_config_for_save_def demo_config_def AppConfig_default_def
        merge_deploy_targets_into_machines_def Let_def)
  have ids: "map (\<lambda>m. clean_id (m_id m)) (machines ?c) = map m_id (clean_machines demo_host [])"
    unfolding ms by (auto simp: clean_machines_def clean_machine_id)
  have "source_valid demo_host utc (machine_reference_set (clean_machines demo_host (machines ?c)))
      (clean_source demo_source)"
    using local_is_referenced [of demo_host "machines ?c"]
    by (simp add: source_valid_def destination_valid_def demo_source_clean demo_destination_def
        DestinationConfig_default_def ScheduleConfig_default_def validate_schedule_def
        SnapshotConfig_default_def existing_directory_source_to_file_destination_def demo_host_def)
      (simp add: str_simps)
  then have "validate demo_host utc ?c = Inr ()"
    using machine_ids_clean [of demo_host "[]"]
    unfolding validate_ok sg ids by simp
  moreover have "validate_unique_machine_ids (machines demo_config) = Inr ()"
    by (simp add: demo_config_def validate_unique_machine_ids_def)
  ultimately show ?thesis by (simp add: save_config_Inr)
qed


lemma accepted_reference_resolves_witness:
  "\<exists>m\<in>set (clean_machines demo_host []). machine_matches_reference m ''local''"
  using accepted_reference_resolves [OF local_is_referenced] by blast

lemma clean_drops_same_path_witness:
  "map dst_id (destinations (clean_source (demo_source\<lparr>destinations :=
     [demo_destination, demo_destination\<lparr>dst_id := ''d2'', dst_machine := ''tiger''\<rparr>]\<rparr>))) = [''d1'']"
  using clean_drops_same_path_on_other_machine
    [of demo_destination "demo_destination\<lparr>dst_id := ''d2'', dst_machine := ''tiger''\<rparr>" demo_source]
  by (simp add: str_simps demo_destination_def clean_destination_def Let_def)

end
