(* ===== verification/Scheduler.thy ===== *)
theory Scheduler
  imports Prelude Calendar Config
begin

text \<open>
  When a sync cycle closes (\<open>src/src/core/scheduler.rs\<close>): the next daily or weekly boundary
  after the start of a cycle. The daily search may run on for ever on a hostile calendar, so it
  is a partial function; on a calendar that obeys \<^const>\<open>calendar_ok\<close> it stops.
\<close>

definition schedule_time_of :: "calendar \<Rightarrow> ScheduleConfig \<Rightarrow> schedule_error + nat" where
  "schedule_time_of cal cfg =
     (case parse_schedule_time (sched_time cfg) of
        Inl e \<Rightarrow> Inl e
      | Inr (h, m, s) \<Rightarrow> (case hms_opt cal h m s of None \<Rightarrow> Inl (BadTime (sched_time cfg)) | Some t \<Rightarrow> Inr t))"

definition schedule_anchor :: "calendar \<Rightarrow> ScheduleConfig \<Rightarrow> schedule_error + int" where
  "schedule_anchor cal cfg =
     (case parse_date cal (anchor_date cfg) of None \<Rightarrow> Inl (BadAnchor (anchor_date cfg)) | Some d \<Rightarrow> Inr d)"

definition week_on_cadence :: "int \<Rightarrow> int \<Rightarrow> int \<Rightarrow> bool" where
  "week_on_cadence anchor date every =
     (if every \<le> 1 then True
      else let days = date - anchor; week = days div 7 in week mod every = 0)"

definition parse_weekday :: "string \<Rightarrow> schedule_error + weekday" where
  "parse_weekday v =
     (let l = to_ascii_lowercase v in
      if l = ''mon'' \<or> l = ''monday'' then Inr Mon
      else if l = ''tue'' \<or> l = ''tuesday'' then Inr Tue
      else if l = ''wed'' \<or> l = ''wednesday'' then Inr Wed
      else if l = ''thu'' \<or> l = ''thursday'' then Inr Thu
      else if l = ''fri'' \<or> l = ''friday'' then Inr Fri
      else if l = ''sat'' \<or> l = ''saturday'' then Inr Sat
      else if l = ''sun'' \<or> l = ''sunday'' then Inr Sun
      else Inl (BadWeekday l))"

partial_function (option) daily_search ::
    "calendar \<Rightarrow> nat \<Rightarrow> int \<Rightarrow> int \<Rightarrow> (schedule_error + int) option" where
  "daily_search cal time start date =
     (case local_datetime cal date time of
        None \<Rightarrow> Some (Inl UnresolvedLocalTime)
      | Some candidate \<Rightarrow>
          if candidate > start then Some (Inr candidate)
          else (case date_succ cal date of
                  None \<Rightarrow> Some (Inl DateOverflow)
                | Some date' \<Rightarrow> daily_search cal time start date'))"

text \<open>The weekly search tries \<open>n\<close> dates.\<close>

fun weekly_search :: "calendar \<Rightarrow> nat \<Rightarrow> weekday \<Rightarrow> int \<Rightarrow> int \<Rightarrow> int \<Rightarrow> int \<Rightarrow> nat \<Rightarrow>
    schedule_error + int" where
  "weekly_search cal time wanted anchor every start date 0 = Inl NoBoundary"
| "weekly_search cal time wanted anchor every start date (Suc n) =
     (let next = (case date_succ cal date of
            None \<Rightarrow> Inl DateOverflow
          | Some date' \<Rightarrow> weekly_search cal time wanted anchor every start date' n)
      in if weekday_of cal date = wanted \<and> week_on_cadence anchor date every
         then (case local_datetime cal date time of
                 None \<Rightarrow> Inl UnresolvedLocalTime
               | Some candidate \<Rightarrow> if candidate > start then Inr candidate else next)
         else next)"

definition next_boundary_after :: "calendar \<Rightarrow> int \<Rightarrow> ScheduleConfig \<Rightarrow> (schedule_error + int) option" where
  "next_boundary_after cal starts_at cfg =
     (case mode cfg of
        Realtime \<Rightarrow> Some (Inr starts_at)
      | Daily \<Rightarrow>
          (case schedule_time_of cal cfg of
             Inl e \<Rightarrow> Some (Inl e)
           | Inr time \<Rightarrow> daily_search cal time starts_at (local_date cal starts_at))
      | Weekly \<Rightarrow> Some
          (case schedule_time_of cal cfg of
             Inl e \<Rightarrow> Inl e
           | Inr time \<Rightarrow>
          (case parse_weekday (case weekday_name cfg of Some w \<Rightarrow> w | None \<Rightarrow> ''monday'') of
             Inl e \<Rightarrow> Inl e
           | Inr wanted \<Rightarrow>
          (case schedule_anchor cal cfg of
             Inl e \<Rightarrow> Inl e
           | Inr anchor \<Rightarrow>
               let every = max (every_weeks cfg) 1 in
               weekly_search cal time wanted anchor (int every) starts_at
                 (local_date cal starts_at) (every * 7 + 8)))))"

text \<open>\<open>None\<close> is the daily search not returning.\<close>

definition cycle_is_due :: "calendar \<Rightarrow> int \<Rightarrow> int \<Rightarrow> ScheduleConfig \<Rightarrow> bool option" where
  "cycle_is_due cal starts_at now cfg =
     (case next_boundary_after cal starts_at cfg of
        None \<Rightarrow> None
      | Some (Inr boundary) \<Rightarrow> Some (now \<ge> boundary)
      | Some (Inl e) \<Rightarrow> Some (now - starts_at \<ge> DAY))"

section \<open>The cadence\<close>

text \<open>The dates a weekly schedule selects.\<close>

definition on_schedule :: "calendar \<Rightarrow> weekday \<Rightarrow> int \<Rightarrow> int \<Rightarrow> int \<Rightarrow> bool" where
  "on_schedule cal wanted anchor every d \<longleftrightarrow>
     weekday_of cal d = wanted \<and> week_on_cadence anchor d every"

interpretation scheduler_weeks: weekly_cadence week_on_cadence
  by unfold_locales (auto simp: week_on_cadence_def Let_def)

lemma on_schedule_in_period:
  assumes "calendar_ok cal" and "0 < every"
  shows "\<exists>n<7 * every. 0 \<le> n \<and> on_schedule cal wanted anchor every (d + n)"
  using scheduler_weeks.selected_ahead [OF assms] by (simp add: on_schedule_def)

section \<open>The boundary found\<close>

text \<open>\<open>c\<close> is the first scheduled instant strictly after \<open>start\<close>, among the dates \<open>P\<close>.\<close>

definition first_boundary :: "calendar \<Rightarrow> nat \<Rightarrow> (int \<Rightarrow> bool) \<Rightarrow> int \<Rightarrow> int \<Rightarrow> bool" where
  "first_boundary cal time P start c \<longleftrightarrow>
     start < c \<and> (\<exists>d. P d \<and> local_datetime cal d time = Some c) \<and>
     (\<forall>d c'. P d \<longrightarrow> local_datetime cal d time = Some c' \<longrightarrow> start < c' \<longrightarrow> c \<le> c')"

lemma first_boundary_unique:
  "first_boundary cal time P s c \<Longrightarrow> first_boundary cal time P s c' \<Longrightarrow> c = c'"
  unfolding first_boundary_def by (meson order.antisym)

lemma first_boundary_from_scan:
  assumes "calendar_ok cal"
    and n: "P (local_date cal start + int n)" "local_datetime cal (local_date cal start + int n) time = Some c" "start < c"
    and least: "\<And>k c'. k < n \<Longrightarrow> P (local_date cal start + int k) \<Longrightarrow>
      local_datetime cal (local_date cal start + int k) time = Some c' \<Longrightarrow> c' \<le> start"
  shows "first_boundary cal time P start c"
  unfolding first_boundary_def
proof (intro conjI allI impI)
  show "start < c" by (rule n)
  show "\<exists>d. P d \<and> local_datetime cal d time = Some c" using n by blast
next
  fix d c' assume d: "P d" "local_datetime cal d time = Some c'" "start < c'"
  have "\<not> d < local_date cal start"
    using earlier_date_earlier [OF assms(1) d(2)] d(3) by fastforce
  then obtain k where k: "d = local_date cal start + int k"
    by (metis not_less zle_iff_zadd)
  have "\<not> k < n" using least [of k c'] d k by auto
  then show "c \<le> c'"
  proof (cases "k = n")
    case True
    with d k n show ?thesis by simp
  next
    case False
    with \<open>\<not> k < n\<close> have "local_date cal c < d"
      using local_datetime_date [OF assms(1) n(2)] by (simp add: k)
    from later_date_later [OF assms(1) d(2) this] show ?thesis by simp
  qed
qed

lemma weekly_search_found:
  assumes "dates_ok cal" and "k < n"
    and "on_schedule cal w a e (date + int k)" "local_datetime cal (date + int k) time = Some c" "start < c"
    and "\<And>j. j < k \<Longrightarrow> on_schedule cal w a e (date + int j) \<Longrightarrow>
      \<exists>c'. local_datetime cal (date + int j) time = Some c' \<and> c' \<le> start"
  shows "weekly_search cal time w a e start date n = Inr c"
  using assms(2-)
proof (induction n arbitrary: k date)
  case (Suc n)
  show ?case
  proof (cases k)
    case 0
    with Suc.prems show ?thesis by (simp add: on_schedule_def)
  next
    case (Suc k')
    have "weekly_search cal time w a e start (date + 1) n = Inr c"
    proof (rule Suc.IH [of k'])
      fix j assume "j < k'" "on_schedule cal w a e (date + 1 + int j)"
      then show "\<exists>c'. local_datetime cal (date + 1 + int j) time = Some c' \<and> c' \<le> start"
        using Suc.prems(5) [of "Suc j"] \<open>k = Suc k'\<close> by (simp add: algebra_simps)
    qed (use Suc.prems Suc in \<open>simp_all add: algebra_simps\<close>)
    moreover have "on_schedule cal w a e date \<Longrightarrow> \<exists>c'. local_datetime cal date time = Some c' \<and> c' \<le> start"
      using Suc.prems(5) [of 0] Suc by simp
    ultimately show ?thesis
      using assms(1) by (auto simp: on_schedule_def dates_ok_def Let_def)
  qed
qed simp

text \<open>C33: a weekly schedule whose selected dates resolve always has a next boundary, and it is
  the first selected instant strictly after the start of the cycle.\<close>

theorem weekly_boundary:
  assumes "calendar_ok cal" "dates_ok cal" and "mode cfg = Weekly"
    and "schedule_time_of cal cfg = Inr time"
    and "parse_weekday (case weekday_name cfg of Some w \<Rightarrow> w | None \<Rightarrow> ''monday'') = Inr w"
    and "schedule_anchor cal cfg = Inr a"
    and "\<forall>d. on_schedule cal w a (int (max (every_weeks cfg) 1)) d \<longrightarrow> local_datetime cal d time \<noteq> None"
  shows "\<exists>c. next_boundary_after cal start cfg = Some (Inr c) \<and>
    first_boundary cal time (on_schedule cal w a (int (max (every_weeks cfg) 1))) start c"
proof -
  define e where "e = int (max (every_weeks cfg) 1)"
  let ?P = "on_schedule cal w a e"
  let ?d = "local_date cal start"
  define good where "good k \<longleftrightarrow> ?P (?d + int k) \<and> (\<exists>c. local_datetime cal (?d + int k) time = Some c \<and> start < c)" for k
  have e: "0 < e" by (simp add: e_def)
  obtain n where n: "0 \<le> n" "n < 7 * e" "?P (?d + 1 + n)"
    using on_schedule_in_period [OF assms(1) e] by blast
  then obtain c where c: "local_datetime cal (?d + 1 + n) time = Some c"
    using assms(7) by (auto simp: e_def)
  have "start < c" using later_date_later [OF assms(1) c] n by simp
  with n c have "good (nat (1 + n))" by (simp add: good_def add.assoc)
  then have lg: "good (LEAST k. good k)" and lb: "(LEAST k. good k) \<le> nat (1 + n)"
    by (rule LeastI, rule Least_le)
  define k where "k = (LEAST k. good k)"
  have least: "\<not> good j" if "j < k" for j using that not_less_Least k_def by blast
  have "good k" using lg by (simp add: k_def)
  then obtain c where kc: "?P (?d + int k)" "local_datetime cal (?d + int k) time = Some c" "start < c"
    by (auto simp: good_def)
  have earlier: "c' \<le> start" if "j < k" "?P (?d + int j)" "local_datetime cal (?d + int j) time = Some c'" for j c'
    using least [OF that(1)] that by (auto simp: good_def)
  have "k < max (every_weeks cfg) 1 * 7 + 8"
    using lb n(1,2) by (simp add: k_def [symmetric] e_def)
  then have "weekly_search cal time w a e start ?d (max (every_weeks cfg) 1 * 7 + 8) = Inr c"
  proof (rule weekly_search_found [OF assms(2) _ kc])
    fix j assume "j < k" "?P (?d + int j)"
    then show "\<exists>c'. local_datetime cal (?d + int j) time = Some c' \<and> c' \<le> start"
      using earlier assms(7) by (auto simp: e_def)
  qed
  then have "next_boundary_after cal start cfg = Some (Inr c)"
    using assms(3-6) by (simp add: next_boundary_after_def e_def Let_def)
  moreover have "first_boundary cal time ?P start c"
    using assms(1) kc earlier by (rule first_boundary_from_scan)
  ultimately show ?thesis by (auto simp: e_def)
qed

text \<open>The daily search returns, with the first instant of that time of day strictly after
  the start of the cycle.\<close>

theorem daily_boundary:
  assumes "calendar_ok cal" "dates_ok cal" and "mode cfg = Daily"
    and "schedule_time_of cal cfg = Inr time"
    and "\<forall>d. local_datetime cal d time \<noteq> None"
  shows "\<exists>c. next_boundary_after cal start cfg = Some (Inr c) \<and>
    first_boundary cal time (\<lambda>d. True) start c"
proof -
  let ?d = "local_date cal start"
  obtain c0 where c0: "local_datetime cal ?d time = Some c0" using assms(5) by blast
  obtain c1 where c1: "local_datetime cal (?d + 1) time = Some c1" using assms(5) by blast
  have late: "start < c1" using later_date_later [OF assms(1) c1] by simp
  have succ: "date_succ cal ?d = Some (?d + 1)" using assms(2) by (simp add: dates_ok_def)
  have second: "daily_search cal time start (?d + 1) = Some (Inr c1)"
    using c1 late by (subst daily_search.simps) simp
  show ?thesis
  proof (cases "start < c0")
    case True
    then have "daily_search cal time start ?d = Some (Inr c0)"
      using c0 by (subst daily_search.simps) simp
    moreover have "first_boundary cal time (\<lambda>d. True) start c0"
      using first_boundary_from_scan [OF assms(1), where n = 0 and c = c0 and P = "\<lambda>d. True"] c0 True by simp
    ultimately show ?thesis using assms(3,4) by (auto simp: next_boundary_after_def)
  next
    case False
    then have "daily_search cal time start ?d = Some (Inr c1)"
      using c0 succ second by (subst daily_search.simps) simp
    moreover have "first_boundary cal time (\<lambda>d. True) start c1"
      using first_boundary_from_scan [OF assms(1), where n = 1 and c = c1 and P = "\<lambda>d. True"
          and start = start and time = time] c0 c1 late False by simp
    ultimately show ?thesis using assms(3,4) by (auto simp: next_boundary_after_def)
  qed
qed

text \<open>A weekly schedule with a misspelt weekday passes validation, and its cycles are then
  due one day after they started: the error of the boundary search is not reported.\<close>

theorem bad_weekday_runs_daily:
  assumes "mode cfg = Weekly" and "every_weeks cfg \<noteq> 0"
    and "schedule_time_of cal cfg = Inr time" and "parse_date cal (anchor_date cfg) \<noteq> None"
    and "weekday_name cfg = Some v" and "parse_weekday v = Inl err"
  shows "validate_schedule cal cfg = Inr ()
    \<and> cycle_is_due cal starts_at now cfg = Some (now - starts_at \<ge> DAY)"
  using assms by (auto simp: validate_schedule_def cycle_is_due_def next_boundary_after_def
      schedule_time_of_def split: sum.splits option.splits)

section \<open>Concrete schedules\<close>

definition demo_daily :: ScheduleConfig where
  "demo_daily = ScheduleConfig_default\<lparr>mode := Daily, sched_time := ''10:00''\<rparr>"

definition demo_weekly :: ScheduleConfig where
  "demo_weekly = demo_daily\<lparr>mode := Weekly, weekday_name := Some ''Wed'', every_weeks := 2,
     anchor_date := ''1970-01-05''\<rparr>"

lemma demo_time: "schedule_time_of utc demo_daily = Inr 36000" "schedule_time_of utc demo_weekly = Inr 36000"
  by (simp_all add: schedule_time_of_def demo_daily_def demo_weekly_def ScheduleConfig_default_def
      parse_schedule_time_def parse_unsigned_def digit_val_def utc_def str_simps)

lemma utc_resolves: "local_datetime utc d 36000 = Some (d * DAY + 36000 * SECOND)"
  by (simp add: local_datetime_def utc_def)

lemma daily_boundary_witness:
  "\<exists>c. next_boundary_after utc 0 demo_daily = Some (Inr c) \<and>
     first_boundary utc 36000 (\<lambda>d. True) 0 c"
  by (rule daily_boundary [OF utc_ok utc_dates _ demo_time(1)])
    (simp_all add: utc_resolves demo_daily_def)

lemma weekly_boundary_witness:
  "\<exists>c. next_boundary_after utc 0 demo_weekly = Some (Inr c) \<and>
     first_boundary utc 36000 (on_schedule utc Wed 0 2) 0 c"
proof -
  have "parse_weekday (case weekday_name demo_weekly of Some w \<Rightarrow> w | None \<Rightarrow> ''monday'') = Inr Wed"
    by (simp add: demo_weekly_def parse_weekday_def str_simps)
  moreover have "schedule_anchor utc demo_weekly = Inr 0"
    by (simp add: schedule_anchor_def demo_weekly_def utc_def)
  ultimately show ?thesis
    using weekly_boundary [OF utc_ok utc_dates _ demo_time(2), of Wed 0 0]
    by (simp add: utc_resolves demo_weekly_def)
qed

lemma bad_weekday_witness:
  "cycle_is_due utc 0 (2 * DAY) (demo_weekly\<lparr>weekday_name := Some ''satrday''\<rparr>) = Some True"
proof -
  have "parse_weekday ''satrday'' = Inl (BadWeekday ''satrday'')"
    by (simp add: parse_weekday_def str_simps)
  moreover have "schedule_time_of utc (demo_weekly\<lparr>weekday_name := Some ''satrday''\<rparr>) = Inr 36000"
    using demo_time(2) by (auto simp: schedule_time_of_def split: sum.splits option.splits)
  ultimately show ?thesis
    using bad_weekday_runs_daily [of "demo_weekly\<lparr>weekday_name := Some ''satrday''\<rparr>" utc 36000 "''satrday''" _ 0 "2 * DAY"]
    by (simp add: demo_weekly_def demo_daily_def utc_def DAY_def SECOND_def)
qed

end
