(* ===== verification/Standby.thy ===== *)
theory Standby
  imports Prelude Calendar Config
begin

text \<open>
  Cold-backup disks (\<open>src/src/core/standby.rs\<close>): the wake window, the gate every sync passes
  before it touches a disk, and the manager that parks a pool. The device numbers \<open>stat\<close>
  reports are a parameter; a spin-down is recorded as the list of device names it is sent to.
  A gate carries the facts its message is rendered from.
\<close>

datatype mount_error = StatFailed path_buf | NotMountPoint path_buf

datatype gate = Asleep string "int option" | NotMounted string mount_error

fun gate_pool :: "gate \<Rightarrow> string" where
  "gate_pool (Asleep p r) = p"
| "gate_pool (NotMounted p r) = p"

definition path_under :: "path_buf \<Rightarrow> path_buf \<Rightarrow> bool" where
  "path_under root path \<longleftrightarrow> path_eq path root \<or> path_starts_with path root"

definition pool_covers_path :: "StandbyPoolConfig \<Rightarrow> path_buf \<Rightarrow> bool" where
  "pool_covers_path pool path = list_ex (\<lambda>root. path_under root path) (mount_roots pool)"

section \<open>The wake window\<close>

definition wake_week_on_cadence :: "int \<Rightarrow> int \<Rightarrow> int \<Rightarrow> bool" where
  "wake_week_on_cadence anchor date every =
     (let days = date - anchor; week = days div 7 in week mod every = 0)"

definition parse_anchor :: "calendar \<Rightarrow> WakeSchedule \<Rightarrow> schedule_error + int" where
  "parse_anchor cal w = (case parse_date cal (wake_anchor_date w) of
     None \<Rightarrow> Inl (BadAnchor (wake_anchor_date w)) | Some d \<Rightarrow> Inr d)"

definition parse_time :: "calendar \<Rightarrow> string \<Rightarrow> schedule_error + nat" where
  "parse_time cal v = (case parse_clock cal v ''%H:%M'' of
     Some t \<Rightarrow> Inr t
   | None \<Rightarrow> (case parse_clock cal v ''%H:%M:%S'' of Some t \<Rightarrow> Inr t | None \<Rightarrow> Inl (BadTime v)))"

definition parse_wake_weekday :: "string \<Rightarrow> schedule_error + nat" where
  "parse_wake_weekday v =
     (let l = to_ascii_lowercase v in
      if l = ''mon'' \<or> l = ''monday'' then Inr 0
      else if l = ''tue'' \<or> l = ''tuesday'' then Inr 1
      else if l = ''wed'' \<or> l = ''wednesday'' then Inr 2
      else if l = ''thu'' \<or> l = ''thursday'' then Inr 3
      else if l = ''fri'' \<or> l = ''friday'' then Inr 4
      else if l = ''sat'' \<or> l = ''saturday'' then Inr 5
      else if l = ''sun'' \<or> l = ''sunday'' then Inr 6
      else Inl (BadWeekday l))"

text \<open>The parts of a wake schedule, in the order the code parses them.\<close>

definition parse_wake :: "calendar \<Rightarrow> WakeSchedule \<Rightarrow> schedule_error + int \<times> nat \<times> nat" where
  "parse_wake cal w =
     (case parse_anchor cal w of Inl e \<Rightarrow> Inl e
      | Inr anchor \<Rightarrow> (case parse_wake_weekday (wake_weekday w) of Inl e \<Rightarrow> Inl e
      | Inr wanted \<Rightarrow> (case parse_time cal (wake_time w) of Inl e \<Rightarrow> Inl e
      | Inr time \<Rightarrow> Inr (anchor, wanted, time))))"

definition opens_on :: "calendar \<Rightarrow> int \<Rightarrow> nat \<Rightarrow> int \<Rightarrow> int \<Rightarrow> bool" where
  "opens_on cal anchor wanted every date \<longleftrightarrow>
     num_days_from_monday (weekday_of cal date) = wanted \<and> wake_week_on_cadence anchor date every"

fun window_scan :: "calendar \<Rightarrow> int \<Rightarrow> nat \<Rightarrow> int \<Rightarrow> nat \<Rightarrow> int \<Rightarrow> int \<Rightarrow> int \<Rightarrow> nat \<Rightarrow>
    schedule_error + bool" where
  "window_scan cal anchor wanted every time now window date 0 = Inr False"
| "window_scan cal anchor wanted every time now window date (Suc n) =
     (let earlier = (case date_pred cal date of
            Some d \<Rightarrow> window_scan cal anchor wanted every time now window d n
          | None \<Rightarrow> Inr False)
      in if opens_on cal anchor wanted every date
         then (case local_datetime cal date time of
                 None \<Rightarrow> Inl UnresolvedLocalTime
               | Some start \<Rightarrow>
                   if start \<le> now \<and> now < start + window then Inr True
                   else if start \<le> now then Inr False
                   else earlier)
         else earlier)"

definition wake_every :: "WakeSchedule \<Rightarrow> nat" where
  "wake_every w = max (wake_every_weeks w) 1"

definition wake_window :: "WakeSchedule \<Rightarrow> int" where
  "wake_window w = int (max (max_window_minutes w) 1) * MINUTE"

definition is_within_wake_window :: "calendar \<Rightarrow> int \<Rightarrow> WakeSchedule \<Rightarrow> schedule_error + bool" where
  "is_within_wake_window cal now w =
     (case parse_wake cal w of Inl e \<Rightarrow> Inl e
      | Inr (anchor, wanted, time) \<Rightarrow>
          window_scan cal anchor wanted (int (wake_every w)) time now (wake_window w)
            (local_date cal now) (wake_every w * 7 + 8))"

fun wake_search :: "calendar \<Rightarrow> int \<Rightarrow> nat \<Rightarrow> int \<Rightarrow> nat \<Rightarrow> int \<Rightarrow> int \<Rightarrow> nat \<Rightarrow> schedule_error + int" where
  "wake_search cal anchor wanted every time after date 0 = Inl NoBoundary"
| "wake_search cal anchor wanted every time after date (Suc n) =
     (let later = (case date_succ cal date of
            Some d \<Rightarrow> wake_search cal anchor wanted every time after d n
          | None \<Rightarrow> Inl DateOverflow)
      in if opens_on cal anchor wanted every date
         then (case local_datetime cal date time of
                 None \<Rightarrow> Inl UnresolvedLocalTime
               | Some start \<Rightarrow> if start > after then Inr start else later)
         else later)"

definition next_wake_start_after :: "calendar \<Rightarrow> int \<Rightarrow> WakeSchedule \<Rightarrow> schedule_error + int" where
  "next_wake_start_after cal after w =
     (case parse_wake cal w of Inl e \<Rightarrow> Inl e
      | Inr (anchor, wanted, time) \<Rightarrow>
          wake_search cal anchor wanted (int (wake_every w)) time after
            (local_date cal after) (wake_every w * 7 + 8))"

section \<open>The gate\<close>

type_synonym device_of = "path_buf \<Rightarrow> nat option"

definition is_mount_point :: "device_of \<Rightarrow> path_buf \<Rightarrow> mount_error + bool" where
  "is_mount_point dev root =
     (case path_parent root of None \<Rightarrow> Inr True
      | Some parent \<Rightarrow> (case dev root of None \<Rightarrow> Inl (StatFailed root)
      | Some here \<Rightarrow> (case dev parent of None \<Rightarrow> Inl (StatFailed parent)
      | Some up \<Rightarrow> Inr (here \<noteq> up))))"

fun verify_roots :: "device_of \<Rightarrow> path_buf list \<Rightarrow> mount_error + unit" where
  "verify_roots dev [] = Inr ()"
| "verify_roots dev (root # roots) =
     (case is_mount_point dev root of Inl e \<Rightarrow> Inl e
      | Inr b \<Rightarrow> if b then verify_roots dev roots else Inl (NotMountPoint root))"

definition verify_pool_mounted :: "device_of \<Rightarrow> StandbyPoolConfig \<Rightarrow> mount_error + unit" where
  "verify_pool_mounted dev pool = verify_roots dev (mount_roots pool)"

fun asleep_gate :: "calendar \<Rightarrow> int \<Rightarrow> (StandbyPoolConfig \<Rightarrow> bool) \<Rightarrow> StandbyPoolConfig list \<Rightarrow>
    schedule_error + gate option" where
  "asleep_gate cal now gates [] = Inr None"
| "asleep_gate cal now gates (pool # pools) =
     (if gates pool
      then (case is_within_wake_window cal now (wake pool) of
              Inl e \<Rightarrow> Inl e
            | Inr True \<Rightarrow> asleep_gate cal now gates pools
            | Inr False \<Rightarrow> Inr (Some (Asleep (pool_name pool)
                (case next_wake_start_after cal now (wake pool) of Inl _ \<Rightarrow> None | Inr t \<Rightarrow> Some t))))
      else asleep_gate cal now gates pools)"

fun mount_gate :: "device_of \<Rightarrow> (StandbyPoolConfig \<Rightarrow> bool) \<Rightarrow> StandbyPoolConfig list \<Rightarrow> gate option" where
  "mount_gate dev touched [] = None"
| "mount_gate dev touched (pool # pools) =
     (if touched pool
      then (case verify_pool_mounted dev pool of
              Inl e \<Rightarrow> Some (NotMounted (pool_name pool) e)
            | Inr _ \<Rightarrow> mount_gate dev touched pools)
      else mount_gate dev touched pools)"

definition gates_pool :: "StandbyPoolConfig list \<Rightarrow> path_buf \<Rightarrow> path_buf \<Rightarrow> StandbyPoolConfig \<Rightarrow> bool" where
  "gates_pool pools src_root dst_root pool =
     (if list_ex (\<lambda>p. pool_covers_path p dst_root) (filter pool_enabled pools)
      then pool_covers_path pool dst_root else pool_covers_path pool src_root)"

definition touches_pool :: "path_buf \<Rightarrow> path_buf \<Rightarrow> StandbyPoolConfig \<Rightarrow> bool" where
  "touches_pool src_root dst_root pool \<longleftrightarrow>
     pool_covers_path pool src_root \<or> pool_covers_path pool dst_root"

definition gate_for_sync :: "calendar \<Rightarrow> device_of \<Rightarrow> StandbyPoolConfig list \<Rightarrow> path_buf \<Rightarrow> path_buf \<Rightarrow>
    int \<Rightarrow> schedule_error + gate option" where
  "gate_for_sync cal dev pools src_root dst_root now =
     (let active = filter pool_enabled pools in
      case asleep_gate cal now (gates_pool pools src_root dst_root) active of
        Inl e \<Rightarrow> Inl e
      | Inr (Some g) \<Rightarrow> Inr (Some g)
      | Inr None \<Rightarrow> Inr (mount_gate dev (touches_pool src_root dst_root) active))"

section \<open>The window is open exactly between an opening and its end\<close>

interpretation standby_weeks: weekly_cadence wake_week_on_cadence
  by unfold_locales (simp add: wake_week_on_cadence_def Let_def)

lemma weekday_of_number: "n < 7 \<Longrightarrow> \<exists>w. num_days_from_monday w = n"
proof -
  assume "n < 7"
  then have "n = 0 \<or> n = 1 \<or> n = 2 \<or> n = 3 \<or> n = 4 \<or> n = 5 \<or> n = 6" by arith
  then show ?thesis using num_days_from_monday.simps by metis
qed

lemma parse_wake_weekday_lt: "parse_wake_weekday v = Inr n \<Longrightarrow> n < 7"
  by (auto simp: parse_wake_weekday_def Let_def split: if_splits)

lemma opens_behind:
  assumes "calendar_ok cal" and "0 < every" and "wanted < 7"
  shows "\<exists>n<7 * every. 0 \<le> n \<and> opens_on cal anchor wanted every (d - n)"
proof -
  obtain w where "num_days_from_monday w = wanted" using weekday_of_number [OF assms(3)] by blast
  with standby_weeks.selected_behind [OF assms(1,2), of d w anchor] show ?thesis
    by (auto simp: opens_on_def)
qed

lemma window_scan_found:
  assumes "dates_ok cal" and "k < n"
    and "opens_on cal a w e (date - int k)" "local_datetime cal (date - int k) time = Some i" "i \<le> now"
    and "\<And>j. j < k \<Longrightarrow> opens_on cal a w e (date - int j) \<Longrightarrow>
      \<exists>i'. local_datetime cal (date - int j) time = Some i' \<and> now < i'"
  shows "window_scan cal a w e time now win date n = Inr (now < i + win)"
  using assms(2-)
proof (induction n arbitrary: k date)
  case (Suc n)
  show ?case
  proof (cases k)
    case 0
    with Suc.prems show ?thesis by (simp add: Let_def)
  next
    case (Suc k')
    have "window_scan cal a w e time now win (date - 1) n = Inr (now < i + win)"
    proof (rule Suc.IH [of k'])
      fix j assume "j < k'" "opens_on cal a w e (date - 1 - int j)"
      then show "\<exists>i'. local_datetime cal (date - 1 - int j) time = Some i' \<and> now < i'"
        using Suc.prems(5) [of "Suc j"] \<open>k = Suc k'\<close> by (simp add: algebra_simps)
    qed (use Suc.prems Suc in \<open>simp_all add: algebra_simps\<close>)
    moreover have "opens_on cal a w e date \<Longrightarrow> \<exists>i'. local_datetime cal date time = Some i' \<and> now < i'"
      using Suc.prems(5) [of 0] Suc by simp
    ultimately show ?thesis
      using assms(1) by (auto simp: dates_ok_def Let_def)
  qed
qed simp

text \<open>The scan stops at the latest opening that is not after \<open>now\<close>, and its reach is long enough to
  find one.\<close>

lemma latest_opening:
  assumes "calendar_ok cal" "dates_ok cal" and "wanted < 7" and "0 < e"
    and "\<forall>d. opens_on cal anchor wanted e d \<longrightarrow> local_datetime cal d time \<noteq> None"
  obtains k i where "int k < 7 * e + 1" "opens_on cal anchor wanted e (local_date cal now - int k)"
    "local_datetime cal (local_date cal now - int k) time = Some i" "i \<le> now"
    "\<And>j. j < k \<Longrightarrow> opens_on cal anchor wanted e (local_date cal now - int j) \<Longrightarrow>
       \<exists>i'. local_datetime cal (local_date cal now - int j) time = Some i' \<and> now < i'"
proof -
  let ?P = "opens_on cal anchor wanted e" and ?d = "local_date cal now"
  define good where "good k \<longleftrightarrow> ?P (?d - int k) \<and> (\<exists>i. local_datetime cal (?d - int k) time = Some i \<and> i \<le> now)" for k
  obtain n where n: "0 \<le> n" "n < 7 * e" "?P (?d - 1 - n)"
    using opens_behind [OF assms(1) assms(4) assms(3)] by blast
  then obtain i0 where i0: "local_datetime cal (?d - 1 - n) time = Some i0" using assms(5) by auto
  have "i0 \<le> now" using earlier_date_earlier [OF assms(1) i0, of now] n by simp
  with n i0 have "good (nat (1 + n))" by (simp add: good_def diff_diff_add)
  then have lg: "good (LEAST k. good k)" and lb: "(LEAST k. good k) \<le> nat (1 + n)"
    by (rule LeastI, rule Least_le)
  define k where "k = (LEAST k. good k)"
  have least: "\<not> good j" if "j < k" for j using that not_less_Least k_def by blast
  from lg obtain i where k: "?P (?d - int k)" "local_datetime cal (?d - int k) time = Some i" "i \<le> now"
    by (auto simp: good_def k_def)
  have "\<exists>i'. local_datetime cal (?d - int j) time = Some i' \<and> now < i'" if "j < k" "?P (?d - int j)" for j
    using least [OF that(1)] that(2) assms(5) by (auto simp: good_def)
  moreover have "int k < 7 * e + 1" using lb n(1,2) by (simp add: k_def [symmetric])
  ultimately show ?thesis using that k by blast
qed

lemma scan_decides:
  assumes "calendar_ok cal" "dates_ok cal" and "parse_wake cal w = Inr (anchor, wanted, time)"
    and "\<forall>d. opens_on cal anchor wanted (int (wake_every w)) d \<longrightarrow> local_datetime cal d time \<noteq> None"
  obtains d0 i where "is_within_wake_window cal now w = Inr (now < i + wake_window w)"
    "opens_on cal anchor wanted (int (wake_every w)) d0" "local_datetime cal d0 time = Some i" "i \<le> now"
    "\<And>d i'. opens_on cal anchor wanted (int (wake_every w)) d \<Longrightarrow> local_datetime cal d time = Some i' \<Longrightarrow>
       i' \<le> now \<Longrightarrow> i' \<le> i"
proof -
  let ?P = "opens_on cal anchor wanted (int (wake_every w))" and ?d = "local_date cal now"
  have "wanted < 7" using assms(3)
    by (auto simp: parse_wake_def parse_wake_weekday_lt split: sum.splits)
  moreover have "0 < int (wake_every w)" by (simp add: wake_every_def)
  ultimately obtain k i where k: "int k < 7 * int (wake_every w) + 1" "?P (?d - int k)"
    "local_datetime cal (?d - int k) time = Some i" "i \<le> now"
    "\<And>j. j < k \<Longrightarrow> ?P (?d - int j) \<Longrightarrow> \<exists>i'. local_datetime cal (?d - int j) time = Some i' \<and> now < i'"
    using latest_opening [OF assms(1,2) _ _ assms(4)] by blast
  have "k < wake_every w * 7 + 8" using k(1) by simp
  then have "window_scan cal anchor wanted (int (wake_every w)) time now (wake_window w) ?d (wake_every w * 7 + 8)
      = Inr (now < i + wake_window w)"
    by (rule window_scan_found [OF assms(2) _ k(2-5)])
  then have res: "is_within_wake_window cal now w = Inr (now < i + wake_window w)"
    using assms(3) by (simp add: is_within_wake_window_def)
  have "i' \<le> i" if d: "?P d" "local_datetime cal d time = Some i'" "i' \<le> now" for d i'
  proof (cases "d < local_date cal i")
    case True
    from earlier_date_earlier [OF assms(1) d(2) this] show ?thesis by simp
  next
    case False
    have "d \<le> ?d" using later_date_later [OF assms(1) d(2), of now] d(3) by fastforce
    then have j: "d = ?d - int (nat (?d - d))" by simp
    define j where "j = nat (?d - d)"
    note j = j [folded j_def]
    have "\<not> j < k" using k(5) [of j] d j by auto
    moreover have "j \<le> k" using False local_datetime_date [OF assms(1) k(3)] by (simp add: j)
    ultimately show ?thesis using d(2) k(3) j by simp
  qed
  with that res k(2-4) show ?thesis by blast
qed

text \<open>C34: the wake window. The pool may be awake exactly when some scheduled opening is at most
  the window length back, on a calendar where the scheduled openings resolve. The backward scan,
  which looks only at the latest opening, misses none, even for windows longer than the cadence.\<close>

theorem wake_window_spec:
  assumes "calendar_ok cal" "dates_ok cal" and "parse_wake cal w = Inr (anchor, wanted, time)"
    and "\<forall>d. opens_on cal anchor wanted (int (wake_every w)) d \<longrightarrow> local_datetime cal d time \<noteq> None"
  shows "is_within_wake_window cal now w = Inr (\<exists>d i. opens_on cal anchor wanted (int (wake_every w)) d
     \<and> local_datetime cal d time = Some i \<and> i \<le> now \<and> now < i + wake_window w)"
proof -
  obtain i d0 where s: "is_within_wake_window cal now w = Inr (now < i + wake_window w)"
    "opens_on cal anchor wanted (int (wake_every w)) d0" "local_datetime cal d0 time = Some i" "i \<le> now"
    "\<And>d i'. opens_on cal anchor wanted (int (wake_every w)) d \<Longrightarrow> local_datetime cal d time = Some i' \<Longrightarrow>
       i' \<le> now \<Longrightarrow> i' \<le> i"
    by (rule scan_decides [OF assms, of now]) blast
  have "now < i + wake_window w"
    if o: "opens_on cal anchor wanted (int (wake_every w)) d" "local_datetime cal d time = Some i'" "i' \<le> now"
      "now < i' + wake_window w" for d i'
    using s(5) [OF o(1-3)] o(4) by simp
  then have "now < i + wake_window w \<longleftrightarrow> (\<exists>d i. opens_on cal anchor wanted (int (wake_every w)) d
     \<and> local_datetime cal d time = Some i \<and> i \<le> now \<and> now < i + wake_window w)"
    using s(2-4) by blast
  with s(1) show ?thesis by simp
qed

section \<open>What an open gate means\<close>

lemma asleep_gate_open:
  "asleep_gate cal now gates pools = Inr None \<longleftrightarrow>
     (\<forall>p\<in>set pools. gates p \<longrightarrow> is_within_wake_window cal now (wake p) = Inr True)"
  by (induction pools) (auto split: sum.splits bool.splits)

lemma mount_gate_open:
  "mount_gate dev touched pools = None \<longleftrightarrow>
     (\<forall>p\<in>set pools. touched p \<longrightarrow> verify_pool_mounted dev p = Inr ())"
  by (induction pools) (auto split: sum.splits)

lemma verify_roots_ok:
  "verify_roots dev roots = Inr () \<longleftrightarrow> (\<forall>r\<in>set roots. is_mount_point dev r = Inr True)"
  by (induction roots) (auto split: sum.splits)


section \<open>The manager\<close>

definition PARK_IDLE_GRACE_SECS :: int where "PARK_IDLE_GRACE_SECS = 90"

record StandbyManager =
  awake :: "string \<Rightarrow> bool option"
  idle_since :: "string \<Rightarrow> int option"

definition StandbyManager_default :: StandbyManager where
  "StandbyManager_default = \<lparr>awake = Map.empty, idle_since = Map.empty\<rparr>"

definition spin_down_devices :: "StandbyPoolConfig \<Rightarrow> string list" where
  "spin_down_devices pool = (if active_spindown pool then devices pool else [])"

definition window_open :: "calendar \<Rightarrow> int \<Rightarrow> StandbyPoolConfig \<Rightarrow> bool" where
  "window_open cal now pool =
     (case is_within_wake_window cal now (wake pool) of Inl _ \<Rightarrow> False | Inr b \<Rightarrow> b)"

text \<open>One pool of a step: the manager, and the pools parked so far in this step.\<close>

definition step_pool :: "calendar \<Rightarrow> int \<Rightarrow> (string \<Rightarrow> bool) \<Rightarrow> StandbyPoolConfig \<Rightarrow>
    StandbyManager \<times> StandbyPoolConfig list \<Rightarrow> StandbyManager \<times> StandbyPoolConfig list" where
  "step_pool cal now busy pool = (\<lambda>(mgr, parked).
     let name = pool_name pool; is_open = window_open cal now pool; prev = awake mgr name in
     if busy name
     then let mgr = mgr\<lparr>idle_since := (idle_since mgr)(name := None)\<rparr>
          in (if prev \<noteq> Some True then mgr\<lparr>awake := (awake mgr)(name \<mapsto> True)\<rparr> else mgr, parked)
     else let idle_start = (case idle_since mgr name of Some t \<Rightarrow> t | None \<Rightarrow> now);
              mgr = mgr\<lparr>idle_since := (idle_since mgr)(name \<mapsto> idle_start)\<rparr>;
              idle_enough = (now - idle_start \<ge> PARK_IDLE_GRACE_SECS * SECOND);
              should_park = (\<not> is_open \<or> idle_enough)
          in if should_park \<and> prev \<noteq> Some False
             then (mgr\<lparr>awake := (awake mgr)(name \<mapsto> False)\<rparr>, parked @ [pool])
             else (mgr, parked))"

definition manager_step :: "calendar \<Rightarrow> StandbyPoolConfig list \<Rightarrow> int \<Rightarrow> (string \<Rightarrow> bool) \<Rightarrow>
    StandbyManager \<Rightarrow> StandbyManager \<times> StandbyPoolConfig list" where
  "manager_step cal pools now busy mgr =
     fold (step_pool cal now busy) (filter pool_enabled pools) (mgr, [])"

definition is_awake :: "StandbyManager \<Rightarrow> string \<Rightarrow> bool" where
  "is_awake mgr name = (case awake mgr name of Some b \<Rightarrow> b | None \<Rightarrow> True)"

text \<open>The devices a step sends to standby.\<close>

definition step_spin_downs :: "StandbyPoolConfig list \<Rightarrow> string list" where
  "step_spin_downs parked = concat (map spin_down_devices parked)"

subsection \<open>One step\<close>

lemma step_pool_other:
  "step_pool cal now busy pool (mgr, parked) = (mgr', parked') \<Longrightarrow> name \<noteq> pool_name pool \<Longrightarrow>
     awake mgr' name = awake mgr name \<and> idle_since mgr' name = idle_since mgr name
     \<and> (\<forall>p. pool_name p = name \<longrightarrow> p \<in> set parked' \<longleftrightarrow> p \<in> set parked)"
  by (auto simp: step_pool_def Let_def split: if_splits option.splits)

lemma step_fold_other:
  "fold (step_pool cal now busy) pools (mgr, parked) = (mgr', parked') \<Longrightarrow>
     name \<notin> pool_name ` set pools \<Longrightarrow>
     awake mgr' name = awake mgr name \<and> idle_since mgr' name = idle_since mgr name
     \<and> (\<forall>p. pool_name p = name \<longrightarrow> p \<in> set parked' \<longleftrightarrow> p \<in> set parked)"
proof (induction pools arbitrary: mgr parked)
  case (Cons pool pools)
  obtain m1 p1 where s: "step_pool cal now busy pool (mgr, parked) = (m1, p1)" by fastforce
  with Cons.prems have "fold (step_pool cal now busy) pools (m1, p1) = (mgr', parked')" by simp
  from Cons.IH [OF this] step_pool_other [OF s, of name] Cons.prems show ?case by auto
qed simp

text \<open>What a step does to one enabled pool, its name being unique among the enabled ones.\<close>

lemma manager_step_pool:
  assumes "distinct (map pool_name (filter pool_enabled pools))"
    and "pool \<in> set pools" "pool_enabled pool"
    and "manager_step cal pools now busy mgr = (mgr', parked)"
  shows "(let (m1, p1) = step_pool cal now busy pool (mgr, []) in
     awake mgr' (pool_name pool) = awake m1 (pool_name pool) \<and>
     idle_since mgr' (pool_name pool) = idle_since m1 (pool_name pool) \<and>
     (pool \<in> set parked \<longleftrightarrow> p1 = [pool]))"
proof -
  let ?n = "pool_name pool"
  from assms(2,3) have "pool \<in> set (filter pool_enabled pools)" by simp
  then obtain xs ys where split: "filter pool_enabled pools = xs @ pool # ys"
    by (meson split_list)
  with assms(1) have nx: "?n \<notin> pool_name ` set xs" and ny: "?n \<notin> pool_name ` set ys" by auto
  obtain ma pa where a: "fold (step_pool cal now busy) xs (mgr, []) = (ma, pa)" by fastforce
  obtain mb pb where b: "step_pool cal now busy pool (ma, pa) = (mb, pb)" by fastforce
  have c: "fold (step_pool cal now busy) ys (mb, pb) = (mgr', parked)"
    using assms(4) by (simp add: manager_step_def split a b)
  have same: "awake ma ?n = awake mgr ?n" "idle_since ma ?n = idle_since mgr ?n" "pool \<notin> set pa"
    using step_fold_other [OF a nx] by auto
  from step_fold_other [OF c ny] b same show ?thesis
    by (auto simp: step_pool_def Let_def split: if_splits option.splits)
qed

lemma pool_parked_iff:
  assumes "distinct (map pool_name (filter pool_enabled pools))"
    and "pool \<in> set pools" "pool_enabled pool"
    and "manager_step cal pools now busy mgr = (mgr', parked)"
  shows "pool \<in> set parked \<longleftrightarrow> \<not> busy (pool_name pool) \<and> awake mgr (pool_name pool) \<noteq> Some False \<and>
    (\<not> window_open cal now pool \<or>
     (\<exists>t. idle_since mgr (pool_name pool) = Some t \<and> now - t \<ge> PARK_IDLE_GRACE_SECS * SECOND))"
  using manager_step_pool [OF assms]
  by (auto simp: step_pool_def Let_def PARK_IDLE_GRACE_SECS_def SECOND_def split: if_splits option.splits)

text \<open>When a step parks a pool. A busy pool is never parked, whatever its window; an idle
  one is parked exactly when it is not already parked and either its window is closed or it has
  been idle for the grace period.\<close>

theorem park_condition:
  assumes "distinct (map pool_name (filter pool_enabled pools))"
    and "pool \<in> set pools" "pool_enabled pool"
    and "manager_step cal pools now busy mgr = (mgr', parked)"
  shows "pool \<in> set parked \<longleftrightarrow> \<not> busy (pool_name pool) \<and> awake mgr (pool_name pool) \<noteq> Some False \<and>
    (\<not> window_open cal now pool \<or>
     (\<exists>t. idle_since mgr (pool_name pool) = Some t \<and> now - t \<ge> PARK_IDLE_GRACE_SECS * SECOND))"
  by (rule pool_parked_iff [OF assms])

lemma step_awake:
  assumes "distinct (map pool_name (filter pool_enabled pools))"
    and "pool \<in> set pools" "pool_enabled pool"
    and "manager_step cal pools now busy mgr = (mgr', parked)"
  shows "awake mgr' (pool_name pool) =
    (if busy (pool_name pool) then Some True
     else if pool \<in> set parked then Some False else awake mgr (pool_name pool))"
  using manager_step_pool [OF assms]
  by (auto simp: step_pool_def Let_def split: if_splits option.splits)

subsection \<open>A run of ticks\<close>

fun run_ticks :: "calendar \<Rightarrow> StandbyPoolConfig list \<Rightarrow> (int \<times> (string \<Rightarrow> bool)) list \<Rightarrow>
    StandbyManager \<Rightarrow> StandbyPoolConfig list list" where
  "run_ticks cal pools [] mgr = []"
| "run_ticks cal pools ((now, busy) # ticks) mgr =
     (case manager_step cal pools now busy mgr of
        (mgr', parked) \<Rightarrow> parked # run_ticks cal pools ticks mgr')"

lemma parked_until_busy:
  assumes "distinct (map pool_name (filter pool_enabled pools))"
    and "pool \<in> set pools" "pool_enabled pool"
    and "awake mgr (pool_name pool) = Some False"
    and "j < length ticks" "pool \<in> set (run_ticks cal pools ticks mgr ! j)"
  shows "\<exists>k<j. snd (ticks ! k) (pool_name pool)"
  using assms(4-)
proof (induction ticks arbitrary: mgr j)
  case (Cons t ticks)
  obtain now busy where t: "t = (now, busy)" by fastforce
  obtain mgr' parked where s: "manager_step cal pools now busy mgr = (mgr', parked)" by fastforce
  have np: "pool \<notin> set parked"
    using pool_parked_iff [OF assms(1-3) s] Cons.prems(1) by simp
  show ?case
  proof (cases "busy (pool_name pool)")
    case True
    moreover have "j \<noteq> 0" using Cons.prems(3) np by (cases j) (simp_all add: t s)
    ultimately show ?thesis by (intro exI [of _ 0]) (simp add: t)
  next
    case False
    then have "awake mgr' (pool_name pool) = Some False"
      using step_awake [OF assms(1-3) s] Cons.prems(1) np by simp
    moreover obtain j' where j: "j = Suc j'" using Cons.prems(3) np by (cases j) (simp_all add: t s)
    ultimately obtain k where "k < j'" "snd (ticks ! k) (pool_name pool)"
      using Cons.IH [of mgr' j'] Cons.prems(2,3) by (auto simp: t s)
    then show ?thesis by (intro exI [of _ "Suc k"]) (simp add: j)
  qed
qed simp

text \<open>One spin-down per idle period. Between two ticks that park the same pool there is a
  tick that saw it busy: a pool the manager believes parked is not parked again, so a disk that
  another process woke stays up until a sync has used it.\<close>

theorem one_park_per_idle_period:
  assumes "distinct (map pool_name (filter pool_enabled pools))"
    and "pool \<in> set pools" "pool_enabled pool"
    and "i < j" "j < length ticks"
    and "pool \<in> set (run_ticks cal pools ticks mgr ! i)" "pool \<in> set (run_ticks cal pools ticks mgr ! j)"
  shows "\<exists>k. i < k \<and> k < j \<and> snd (ticks ! k) (pool_name pool)"
  using assms(4-)
proof (induction ticks arbitrary: mgr i j)
  case (Cons t ticks)
  obtain now busy where t: "t = (now, busy)" by fastforce
  obtain mgr' parked where s: "manager_step cal pools now busy mgr = (mgr', parked)" by fastforce
  obtain j' where j: "j = Suc j'" using Cons.prems(1) by (cases j) simp_all
  show ?case
  proof (cases i)
    case 0
    then have p: "pool \<in> set parked" using Cons.prems(3) by (simp add: t s)
    then have "awake mgr' (pool_name pool) = Some False"
      using step_awake [OF assms(1-3) s] pool_parked_iff [OF assms(1-3) s] by simp
    from parked_until_busy [OF assms(1-3) this, of j' ticks cal] Cons.prems j
    obtain k where "k < j'" "snd (ticks ! k) (pool_name pool)" by (auto simp: t s)
    then show ?thesis by (intro exI [of _ "Suc k"]) (simp add: 0 j)
  next
    case (Suc i')
    with Cons.IH [of i' j' mgr'] Cons.prems j
    obtain k where "i' < k" "k < j'" "snd (ticks ! k) (pool_name pool)" by (auto simp: t s)
    then show ?thesis by (intro exI [of _ "Suc k"]) (simp add: Suc j)
  qed
qed simp

section \<open>Concrete pools\<close>

definition demo_wake :: WakeSchedule where
  "demo_wake = WakeSchedule_default\<lparr>wake_anchor_date := ''1970-01-05''\<rparr>"

definition demo_pool :: StandbyPoolConfig where
  "demo_pool = StandbyPoolConfig_default\<lparr>pool_name := ''cold'', mount_roots := [''/cold'']\<rparr>"

lemma parse_demo_wake: "parse_wake utc demo_wake = Inr (0, 5, 36000)"
  by (simp add: parse_wake_def parse_anchor_def parse_time_def parse_wake_weekday_def demo_wake_def
      WakeSchedule_default_def utc_def str_simps)

lemma utc_ten: "local_datetime utc d 36000 = Some (d * DAY + 36000 * SECOND)"
  by (simp add: local_datetime_def utc_def)

lemma demo_opens:
  "opens_on utc 0 5 (int (wake_every demo_wake)) 5"
  "5 * DAY + 36000 * SECOND \<le> 5 * DAY + 11 * 3600 * SECOND"
  "5 * DAY + 11 * 3600 * SECOND < 5 * DAY + 36000 * SECOND + wake_window demo_wake"
  by (simp_all add: opens_on_def utc_def num_days_utc_weekday wake_week_on_cadence_def wake_window_def
      demo_wake_def WakeSchedule_default_def DAY_def SECOND_def MINUTE_def)

lemma wake_window_spec_witness:
  "is_within_wake_window utc (5 * DAY + 11 * 3600 * SECOND) demo_wake = Inr True"
  using wake_window_spec [OF utc_ok utc_dates parse_demo_wake, of "5 * DAY + 11 * 3600 * SECOND"]
    utc_ten demo_opens by auto

lemma demo_window: "is_within_wake_window utc (5 * DAY + 11 * 3600 * SECOND) demo_wake = Inr True"
proof -
  let ?now = "5 * DAY + 11 * 3600 * SECOND"
  have "\<forall>d. opens_on utc 0 5 (int (wake_every demo_wake)) d \<longrightarrow> local_datetime utc d 36000 \<noteq> None"
    by (simp add: utc_ten)
  then obtain i where i: "is_within_wake_window utc ?now demo_wake = Inr (?now < i + wake_window demo_wake)"
    "\<And>d i'. opens_on utc 0 5 (int (wake_every demo_wake)) d \<Longrightarrow> local_datetime utc d 36000 = Some i' \<Longrightarrow>
       i' \<le> ?now \<Longrightarrow> i' \<le> i"
    using scan_decides [OF utc_ok utc_dates parse_demo_wake] by blast
  have "5 * DAY + 36000 * SECOND \<le> i" by (rule i(2) [OF demo_opens(1) utc_ten demo_opens(2)])
  with i(1) demo_opens(3) show ?thesis by simp
qed


lemma demo_pool_closed: "window_open utc now demo_pool = False"
  by (simp add: window_open_def is_within_wake_window_def parse_wake_def parse_anchor_def
      demo_pool_def StandbyPoolConfig_default_def WakeSchedule_default_def utc_def)

lemma demo_pool_fields: "pool_enabled demo_pool" "pool_name demo_pool = ''cold''"
  by (simp_all add: demo_pool_def StandbyPoolConfig_default_def)

lemma park_condition_witness:
  "demo_pool \<in> set (snd (manager_step utc [demo_pool] 0 (\<lambda>n. False) StandbyManager_default))"
  using park_condition [of "[demo_pool]" demo_pool utc 0 "\<lambda>n. False" StandbyManager_default
      "fst (manager_step utc [demo_pool] 0 (\<lambda>n. False) StandbyManager_default)"
      "snd (manager_step utc [demo_pool] 0 (\<lambda>n. False) StandbyManager_default)"]
  by (simp add: demo_pool_fields demo_pool_closed StandbyManager_default_def)

lemma one_park_per_idle_period_witness:
  "\<exists>k. 0 < k \<and> k < (2 :: nat) \<and>
     snd ([(0 :: int, \<lambda>n. False), (1, \<lambda>n. True), (2, \<lambda>n. False)] ! k) ''cold''"
proof -
  let ?ticks = "[(0, \<lambda>n. False), (1, \<lambda>n. True), (2, \<lambda>n. False)]"
  have "run_ticks utc [demo_pool] ?ticks StandbyManager_default = [[demo_pool], [], [demo_pool]]"
    by (simp add: manager_step_def step_pool_def demo_pool_fields demo_pool_closed
        StandbyManager_default_def Let_def)
  then show ?thesis
    using one_park_per_idle_period [of "[demo_pool]" demo_pool 0 2 ?ticks utc StandbyManager_default]
    by (simp add: demo_pool_fields)
qed

end
