(* ===== verification/Cancel.thy ===== *)
theory Cancel
  imports Prelude
begin

text \<open>
  Cooperative cancellation (\<open>src/src/core/cancel.rs\<close>): the registry of running operations, the
  token each thread carries, and the scoped guards that install and restore it.

  The shared \<open>Arc\<close>s an operation allocates (its cancelled flag and its two counters) are entries
  of a store under the operation's id, so that a clone of a token on a worker thread refers to
  the same flag. A thread local is a map from threads. Counters wrap like \<open>AtomicU64\<close>.
\<close>

section \<open>Scope guards\<close>

text \<open>
  Several pieces of the engine are RAII guards: creating one saves what a cell holds and
  replaces it, dropping it puts the saved value back. Whatever happens between the two, the
  cell ends as it began, so guards nest.
\<close>

locale scope_guard =
  fixes acquire :: "'k \<Rightarrow> 's \<Rightarrow> 'g \<times> 's"
    and release :: "'g \<Rightarrow> 's \<Rightarrow> 's"
    and cell :: "'s \<Rightarrow> 'v"
  assumes restores: "acquire k s = (g, s1) \<Longrightarrow> cell (release g s') = cell s"
begin

lemma scope_restores: "cell (case acquire k s of (g, s1) \<Rightarrow> release g (body s1)) = cell s"
  using restores by (cases "acquire k s") auto

lemma nested_scopes_restore:
  "cell (fold (\<lambda>(k, body) s. case acquire k s of (g, s1) \<Rightarrow> release g (body s1)) scopes s) = cell s"
  by (induction scopes arbitrary: s) (auto simp: scope_restores)

end

section \<open>State\<close>

definition CANCELLED_MESSAGE :: string where "CANCELLED_MESSAGE = ''cancelled by user request''"
definition KIND_SYNC :: string where "KIND_SYNC = ''sync''"
definition KIND_COMPARE :: string where "KIND_COMPARE = ''compare''"

type_synonym thread = nat
type_synonym op_ref = nat

record ActiveOp =
  op_id :: op_ref
  op_kind :: string
  op_targets :: "string list"

record CancelToken =
  tok_ref :: op_ref
  tok_target :: "string option"

record cancel_world =
  next_op_id :: nat
  registry :: "ActiveOp list"
  flags :: "op_ref \<Rightarrow> bool"
  files :: "op_ref \<Rightarrow> u64"
  failed :: "op_ref \<Rightarrow> u64"
  current :: "thread \<Rightarrow> CancelToken option"

definition cancel_init :: cancel_world where
  "cancel_init = \<lparr>next_op_id = 1, registry = [], flags = (\<lambda>_. False), files = (\<lambda>_. 0),
     failed = (\<lambda>_. 0), current = (\<lambda>_. None)\<rparr>"

definition target_for :: "string \<Rightarrow> string \<Rightarrow> string" where
  "target_for source_id destination_id = source_id @ ''|'' @ destination_id"

record OpGuard =
  guard_id :: op_ref
  guard_previous :: "CancelToken option"

section \<open>Operations\<close>

definition begin_targets :: "thread \<Rightarrow> string \<times> string list \<Rightarrow> cancel_world \<Rightarrow> OpGuard \<times> cancel_world" where
  "begin_targets t = (\<lambda>(kind, targets) w.
     let i = next_op_id w;
         token_target = (case targets of [only] \<Rightarrow> Some only | _ \<Rightarrow> None)
     in (\<lparr>guard_id = i, guard_previous = current w t\<rparr>,
         w\<lparr>next_op_id := i + 1,
           registry := registry w @ [\<lparr>op_id = i, op_kind = kind, op_targets = targets\<rparr>],
           flags := (flags w)(i := False), files := (files w)(i := 0), failed := (failed w)(i := 0),
           current := (current w)(t := Some \<lparr>tok_ref = i, tok_target = token_target\<rparr>)\<rparr>))"

definition begin_op :: "thread \<Rightarrow> string \<Rightarrow> cancel_world \<Rightarrow> OpGuard \<times> cancel_world" where
  "begin_op t kind = begin_targets t (kind, [])"

definition begin_target :: "thread \<Rightarrow> string \<Rightarrow> string option \<Rightarrow> cancel_world \<Rightarrow> OpGuard \<times> cancel_world" where
  "begin_target t kind target = begin_targets t (kind, (case target of None \<Rightarrow> [] | Some x \<Rightarrow> [x]))"

definition drop_op :: "thread \<Rightarrow> OpGuard \<Rightarrow> cancel_world \<Rightarrow> cancel_world" where
  "drop_op t g w = w\<lparr>registry := filter (\<lambda>o'. op_id o' \<noteq> guard_id g) (registry w),
     current := (current w)(t := guard_previous g)\<rparr>"

definition add_synced_files :: "thread \<Rightarrow> u64 \<Rightarrow> cancel_world \<Rightarrow> cancel_world" where
  "add_synced_files t n w = (case current w t of None \<Rightarrow> w
     | Some tok \<Rightarrow> w\<lparr>files := (files w)(tok_ref tok := files w (tok_ref tok) + n)\<rparr>)"

definition synced_files :: "thread \<Rightarrow> cancel_world \<Rightarrow> u64" where
  "synced_files t w = (case current w t of None \<Rightarrow> 0 | Some tok \<Rightarrow> files w (tok_ref tok))"

definition add_failed_files :: "thread \<Rightarrow> u64 \<Rightarrow> cancel_world \<Rightarrow> cancel_world" where
  "add_failed_files t n w = (case current w t of None \<Rightarrow> w
     | Some tok \<Rightarrow> w\<lparr>failed := (failed w)(tok_ref tok := failed w (tok_ref tok) + n)\<rparr>)"

definition failed_files :: "thread \<Rightarrow> cancel_world \<Rightarrow> u64" where
  "failed_files t w = (case current w t of None \<Rightarrow> 0 | Some tok \<Rightarrow> failed w (tok_ref tok))"

definition kind_target_active :: "string \<Rightarrow> string \<Rightarrow> cancel_world \<Rightarrow> bool" where
  "kind_target_active kind target w \<longleftrightarrow>
     list_ex (\<lambda>o'. op_kind o' = kind \<and> target \<in> set (op_targets o')) (registry w)"

definition current_token :: "thread \<Rightarrow> cancel_world \<Rightarrow> CancelToken option" where
  "current_token t w = current w t"

definition current_target :: "thread \<Rightarrow> cancel_world \<Rightarrow> string option" where
  "current_target t w = (case current w t of None \<Rightarrow> None | Some tok \<Rightarrow> tok_target tok)"

definition enter :: "thread \<Rightarrow> CancelToken option \<Rightarrow> cancel_world \<Rightarrow> CancelToken option \<times> cancel_world" where
  "enter t token w = (current w t, w\<lparr>current := (current w)(t := token)\<rparr>)"

definition leave :: "thread \<Rightarrow> CancelToken option \<Rightarrow> cancel_world \<Rightarrow> cancel_world" where
  "leave t previous w = w\<lparr>current := (current w)(t := previous)\<rparr>"

definition check :: "thread \<Rightarrow> cancel_world \<Rightarrow> string + unit" where
  "check t w = bail_if (case current w t of None \<Rightarrow> False | Some tok \<Rightarrow> flags w (tok_ref tok))
     CANCELLED_MESSAGE"

definition request_matches :: "string option \<Rightarrow> string option \<Rightarrow> ActiveOp \<Rightarrow> bool" where
  "request_matches kind target o' \<longleftrightarrow>
     (case kind of None \<Rightarrow> True | Some k \<Rightarrow> op_kind o' = k) \<and>
     (case target of None \<Rightarrow> True | Some t \<Rightarrow> t \<in> set (op_targets o'))"

definition request :: "string option \<Rightarrow> string option \<Rightarrow> cancel_world \<Rightarrow> nat \<times> cancel_world" where
  "request kind target w =
     fold (\<lambda>o' (n, w). if request_matches kind target o'
         then (n + 1, w\<lparr>flags := (flags w)(op_id o' := True)\<rparr>) else (n, w))
       (registry w) (0, w)"

definition active_kinds :: "cancel_world \<Rightarrow> string list" where
  "active_kinds w = sort (remdups (map op_kind (registry w)))"

definition error_is_cancelled :: "string list \<Rightarrow> bool" where
  "error_is_cancelled chain = list_ex (\<lambda>cause. str_contains cause CANCELLED_MESSAGE) chain"

section \<open>Guards restore the thread's token\<close>

interpretation op_guard: scope_guard "begin_targets t" "drop_op t" "\<lambda>w. current w t" for t
  by unfold_locales (auto simp: begin_targets_def drop_op_def Let_def)

interpretation token_guard: scope_guard "enter t" "leave t" "\<lambda>w. current w t" for t
  by unfold_locales (auto simp: enter_def leave_def)

section \<open>Requests\<close>

lemma request_fold:
  "fold (\<lambda>o' (n, w). if request_matches kind target o'
       then (n + 1, w\<lparr>flags := (flags w)(op_id o' := True)\<rparr>) else (n, w)) ops (n, w)
   = (n + length (filter (request_matches kind target) ops),
      w\<lparr>flags := (\<lambda>i. flags w i \<or> i \<in> op_id ` set (filter (request_matches kind target) ops))\<rparr>)"
proof (induction ops arbitrary: n w)
  case (Cons o' ops)
  let ?S = "op_id ` set (filter (request_matches kind target) ops)"
  have "(\<lambda>i. ((flags w)(op_id o' := True)) i \<or> i \<in> ?S) = (\<lambda>i. flags w i \<or> i \<in> insert (op_id o') ?S)"
    by auto
  then show ?case using Cons by simp
qed simp

lemma request_eq:
  "request kind target w = (length (filter (request_matches kind target) (registry w)),
     w\<lparr>flags := (\<lambda>i. flags w i \<or> i \<in> op_id ` set (filter (request_matches kind target) (registry w)))\<rparr>)"
  by (simp add: request_def request_fold)

text \<open>Every reachable registry has one entry per id, all below the counter, and every installed
  token was made by some operation.\<close>

datatype cancel_event =
    Begin thread string "string list" | Drop thread OpGuard | Enter thread thread
  | Leave thread "CancelToken option" | Request "string option" "string option"
  | AddSynced thread u64 | AddFailed thread u64

fun cancel_step :: "cancel_event \<Rightarrow> cancel_world \<Rightarrow> cancel_world" where
  "cancel_step (Begin t kind targets) w = snd (begin_targets t (kind, targets) w)"
| "cancel_step (Drop t g) w = drop_op t g w"
| "cancel_step (Enter t from) w = snd (enter t (current_token from w) w)"
| "cancel_step (Leave t previous) w = leave t previous w"
| "cancel_step (Request kind target) w = snd (request kind target w)"
| "cancel_step (AddSynced t n) w = add_synced_files t n w"
| "cancel_step (AddFailed t n) w = add_failed_files t n w"

definition registry_ok :: "cancel_world \<Rightarrow> bool" where
  "registry_ok w \<longleftrightarrow> distinct (map op_id (registry w)) \<and> (\<forall>o'\<in>set (registry w). op_id o' < next_op_id w)"

lemma registry_ok_step: "registry_ok w \<Longrightarrow> registry_ok (cancel_step e w)"
proof (cases e)
  case (Drop t g)
  assume "registry_ok w"
  then show ?thesis
    using Drop by (auto simp: registry_ok_def drop_op_def distinct_map_filter)
qed (auto simp: registry_ok_def begin_targets_def enter_def leave_def request_eq
    add_synced_files_def add_failed_files_def Let_def less_Suc_eq split: option.splits)

lemma registry_ok_run: "registry_ok (fold cancel_step es cancel_init)"
proof -
  have "registry_ok w \<Longrightarrow> registry_ok (fold cancel_step es w)" for w
    by (induction es arbitrary: w) (auto intro: registry_ok_step)
  then show ?thesis by (simp add: cancel_init_def registry_ok_def)
qed

text \<open>C29: a cancel request is exact. After any history, a request stops the threads that work for
  a registered operation it matches and no others, and reports the number of those operations; a
  targeted request matches only operations scoped to that destination.\<close>

theorem request_exact:
  assumes "w = fold cancel_step es cancel_init" and "request kind target w = (n, w')"
  shows "n = card {o' \<in> set (registry w). request_matches kind target o'}
    \<and> (\<forall>t. check t w' = Inr () \<longleftrightarrow> check t w = Inr () \<and>
         (\<forall>o'\<in>set (registry w). request_matches kind target o' \<longrightarrow>
            map_option tok_ref (current w t) \<noteq> Some (op_id o')))
    \<and> (\<forall>o' x. target = Some x \<longrightarrow> request_matches kind target o' \<longrightarrow> x \<in> set (op_targets o'))"
proof -
  have d: "distinct (registry w)"
    using registry_ok_run [of es] by (simp add: assms(1) registry_ok_def distinct_map)
  have n: "n = card {o' \<in> set (registry w). request_matches kind target o'}"
    using assms(2) d distinct_card [of "filter (request_matches kind target) (registry w)"]
    by (simp add: request_eq)
  have w': "w' = w\<lparr>flags := (\<lambda>i. flags w i \<or>
      i \<in> op_id ` set (filter (request_matches kind target) (registry w)))\<rparr>"
    using assms(2) by (simp add: request_eq)
  have "check t w' = Inr () \<longleftrightarrow> check t w = Inr () \<and>
       (\<forall>o'\<in>set (registry w). request_matches kind target o' \<longrightarrow>
          map_option tok_ref (current w t) \<noteq> Some (op_id o'))" for t
    by (cases "current w t") (auto simp: w' check_def)
  moreover have "target = Some x \<longrightarrow> request_matches kind target o' \<longrightarrow> x \<in> set (op_targets o')" for o' x
    by (auto simp: request_matches_def)
  ultimately show ?thesis using n by blast
qed

text \<open>An operation's scope. Inside it the thread carries a fresh, uncancelled token; when its
  guard drops, its registry entry is gone, the thread has its previous token back, and every
  other operation is still registered, whatever the body did to the flags and counters.\<close>

theorem operation_scope:
  assumes "w = fold cancel_step es cancel_init" and "begin_targets t (kind, targets) w = (g, w1)"
    and "registry w2 = registry w1"
  shows "check t w1 = Inr () \<and> synced_files t w1 = 0
    \<and> current (drop_op t g w2) t = current w t \<and> registry (drop_op t g w2) = registry w"
proof -
  have "registry_ok w" using registry_ok_run by (simp add: assms(1))
  then have "filter (\<lambda>o'. op_id o' \<noteq> next_op_id w) (registry w) = registry w"
    by (auto simp: registry_ok_def filter_id_conv)
  then show ?thesis
    using assms(2,3) op_guard.restores [OF assms(2), of w2]
    by (auto simp: begin_targets_def drop_op_def check_def synced_files_def Let_def)
qed

lemma request_exact_witness:
  "fst (request (Some ''sync'') (Some ''s|d'')
     (fold cancel_step [Begin 0 ''sync'' [''s|d''], Begin 1 ''sync'' [''s|e''], Begin 2 ''sync'' []] cancel_init)) = 1"
proof -
  let ?w = "fold cancel_step [Begin 0 ''sync'' [''s|d''], Begin 1 ''sync'' [''s|e''], Begin 2 ''sync'' []] cancel_init"
  have r: "registry ?w = [\<lparr>op_id = 1, op_kind = ''sync'', op_targets = [''s|d'']\<rparr>,
      \<lparr>op_id = 2, op_kind = ''sync'', op_targets = [''s|e'']\<rparr>,
      \<lparr>op_id = 3, op_kind = ''sync'', op_targets = []\<rparr>]"
    by (simp add: cancel_init_def begin_targets_def Let_def)
  have "{o' \<in> set (registry ?w). request_matches (Some ''sync'') (Some ''s|d'') o'}
      = {\<lparr>op_id = 1, op_kind = ''sync'', op_targets = [''s|d'']\<rparr>}"
    unfolding r by (auto simp: request_matches_def)
  moreover obtain n w' where q: "request (Some ''sync'') (Some ''s|d'') ?w = (n, w')" by fastforce
  note request_exact [OF refl q]
  ultimately have "n = 1" by simp
  with q show ?thesis by simp
qed

lemma operation_scope_witness:
  "let (g, w1) = begin_targets 0 (''sync'', [''s|d'']) cancel_init;
       w2 = snd (request None None w1)
   in check 0 w1 = Inr () \<and> registry (drop_op 0 g w2) = []"
proof -
  obtain g w1 where b: "begin_targets 0 (''sync'', [''s|d'']) cancel_init = (g, w1)" by fastforce
  have "registry (snd (request None None w1)) = registry w1" by (simp add: request_eq)
  from operation_scope [of cancel_init "[]", OF _ b this] b show ?thesis
    by (simp add: Let_def) (simp add: cancel_init_def)
qed

end
