(* ===== verification/Signal.thy ===== *)
theory Signal
  imports Prelude
begin

text \<open>
  The scheduler's wake-up (\<open>src/src/core/signal.rs\<close>): a pending flag under a mutex with a
  condition variable. The transition system below has one step per critical section: a notify,
  the scheduler entering \<open>wait_for_activity\<close>, and its wake-up from \<open>wait_timeout\<close> (a
  notification, the timeout or a spurious wake-up) followed by the return. The watcher handshake
  is modelled by what its loop sees each time it holds the lock.
\<close>

datatype scheduler_phase = Running | Asleep | Woken

record signal_state =
  pending :: bool
  phase :: scheduler_phase

definition signal_init :: signal_state where
  "signal_init = \<lparr>pending = False, phase = Running\<rparr>"

text \<open>\<open>notify_all\<close> wakes the scheduler if it is blocked on the condition variable.\<close>

definition notify_scheduler :: "signal_state \<Rightarrow> signal_state" where
  "notify_scheduler s = \<lparr>pending = True, phase = (if phase s = Asleep then Woken else phase s)\<rparr>"

text \<open>The first critical section of \<open>wait_for_activity\<close>: a pending flag is consumed and the call
  returns, otherwise the lock is given up and the thread blocks.\<close>

definition wait_enter :: "signal_state \<Rightarrow> signal_state" where
  "wait_enter s = (if \<not> pending s then s\<lparr>phase := Asleep\<rparr> else s\<lparr>pending := False\<rparr>)"

text \<open>The second one, after \<open>wait_timeout\<close> has the lock back.\<close>

definition wait_return :: "signal_state \<Rightarrow> signal_state" where
  "wait_return s = s\<lparr>pending := False, phase := Running\<rparr>"

datatype signal_event = Notify | WaitSleeps | WaitConsumes | WakeUp | WaitReturns

inductive signal_run :: "signal_event list \<Rightarrow> signal_state \<Rightarrow> bool" where
  start: "signal_run [] signal_init"
| notify: "signal_run es s \<Longrightarrow> signal_run (es @ [Notify]) (notify_scheduler s)"
| sleep: "signal_run es s \<Longrightarrow> phase s = Running \<Longrightarrow> \<not> pending s \<Longrightarrow>
    signal_run (es @ [WaitSleeps]) (wait_enter s)"
| consume: "signal_run es s \<Longrightarrow> phase s = Running \<Longrightarrow> pending s \<Longrightarrow>
    signal_run (es @ [WaitConsumes]) (wait_enter s)"
| wake: "signal_run es s \<Longrightarrow> phase s = Asleep \<Longrightarrow> signal_run (es @ [WakeUp]) (s\<lparr>phase := Woken\<rparr>)"
| ret: "signal_run es s \<Longrightarrow> phase s = Woken \<Longrightarrow> signal_run (es @ [WaitReturns]) (wait_return s)"

inductive_cases signal_runE: "signal_run es s"

text \<open>A notification that no \<open>wait_for_activity\<close> has returned for yet.\<close>

definition unserved :: "signal_event list \<Rightarrow> bool" where
  "unserved es \<longleftrightarrow> Notify \<in> set (takeWhile (\<lambda>e. e \<noteq> WaitConsumes \<and> e \<noteq> WaitReturns) (rev es))"

lemma unserved_snoc:
  "unserved (es @ [e]) = (if e = Notify then True
     else if e = WaitConsumes \<or> e = WaitReturns then False else unserved es)"
  by (simp add: unserved_def)

text \<open>C30: no wake-up is lost. Whatever the interleaving, the flag is set exactly when some
  notification has not been served by a return yet, and the scheduler is never asleep while one
  is outstanding: such a notification makes the next wait return at once.\<close>

theorem no_lost_wakeup:
  assumes "signal_run es s"
  shows "(pending s \<longleftrightarrow> unserved es) \<and> (unserved es \<longrightarrow> phase s \<noteq> Asleep)"
  using assms
proof induction
  case start
  then show ?case by (simp add: signal_init_def unserved_def)
qed (auto simp: unserved_snoc notify_scheduler_def wait_enter_def wait_return_def)

lemma no_lost_wakeup_witness:
  "let s = wait_enter (notify_scheduler signal_init) in
   pending s = unserved [Notify, WaitConsumes] \<and> phase s \<noteq> Asleep"
proof -
  have "signal_run ([] @ [Notify]) (notify_scheduler signal_init)"
    by (intro signal_run.intros)
  then have "signal_run (([] @ [Notify]) @ [WaitConsumes]) (wait_enter (notify_scheduler signal_init))"
    by (rule signal_run.consume) (simp_all add: notify_scheduler_def signal_init_def)
  from no_lost_wakeup [OF this] show ?thesis
    by (simp add: Let_def wait_enter_def notify_scheduler_def signal_init_def)
qed

section \<open>The watcher handshake\<close>

definition reset_watcher_armed :: "bool \<Rightarrow> bool" where "reset_watcher_armed armed = False"
definition mark_watcher_armed :: "bool \<Rightarrow> bool" where "mark_watcher_armed armed = True"

text \<open>One observation per time the loop holds the lock: the flag, and the clock read after a
  false one. \<open>None\<close>: still waiting when the observations end.\<close>

fun wait_watcher_armed :: "int \<Rightarrow> (bool \<times> int) list \<Rightarrow> bool option" where
  "wait_watcher_armed deadline [] = None"
| "wait_watcher_armed deadline ((flag, now) # obs) =
     (if flag then Some True
      else if now \<ge> deadline then Some False
      else wait_watcher_armed deadline obs)"

lemma wait_watcher_returns:
  "\<exists>(flag, now)\<in>set obs. flag \<or> now \<ge> deadline \<Longrightarrow> wait_watcher_armed deadline obs \<noteq> None"
  by (induction deadline obs rule: wait_watcher_armed.induct) auto

lemma wait_watcher_true:
  "wait_watcher_armed deadline obs = Some True \<Longrightarrow> \<exists>now. (True, now) \<in> set obs"
  by (induction deadline obs rule: wait_watcher_armed.induct) (auto split: if_splits)

end
