(* ===== verification/Runtime.thy ===== *)
theory Runtime
  imports Prelude Cancel
begin

text \<open>
  The process-wide cells of the engine (\<open>src/src/core/sync/mod.rs\<close>): the transfer memory
  budget, and the labels of the running pass that the status page reads (kind, phase, target,
  plan). Each is one mutex-protected value; the guards that set and restore them are instances
  of \<open>scope_guard\<close>. \<open>u64\<close> arithmetic saturates as in the code.
\<close>

section \<open>The transfer memory budget\<close>

definition TRANSFER_MEMORY_BUDGET :: nat where "TRANSFER_MEMORY_BUDGET = 1024 * 1024 * 1024"

definition U64_MAX :: nat where "U64_MAX = 2 ^ 64 - 1"

definition saturating_add :: "nat \<Rightarrow> nat \<Rightarrow> nat" where
  "saturating_add a b = min (a + b) U64_MAX"

definition saturating_sub :: "nat \<Rightarrow> nat \<Rightarrow> nat" where
  "saturating_sub a b = a - b"

text \<open>The condition under which \<open>acquire_transfer_memory\<close> stops waiting, and the reservation it
  then makes; dropping the permit gives the bytes back.\<close>

definition memory_available :: "nat \<Rightarrow> nat \<Rightarrow> bool" where
  "memory_available used bytes \<longleftrightarrow>
     \<not> (used > 0 \<and> saturating_add used bytes > TRANSFER_MEMORY_BUDGET)"

definition reserve_memory :: "nat \<Rightarrow> nat \<Rightarrow> nat" where
  "reserve_memory used bytes = saturating_add used bytes"

definition release_memory :: "nat \<Rightarrow> nat \<Rightarrow> nat" where
  "release_memory used bytes = saturating_sub used bytes"

text \<open>The reserved total together with the permits that are out.\<close>

inductive memory_run :: "nat \<Rightarrow> nat multiset \<Rightarrow> bool" where
  start: "memory_run 0 {#}"
| acquire: "memory_run used permits \<Longrightarrow> bytes \<le> U64_MAX \<Longrightarrow> memory_available used bytes \<Longrightarrow>
    memory_run (reserve_memory used bytes) (add_mset bytes permits)"
| release: "memory_run used (add_mset bytes permits) \<Longrightarrow>
    memory_run (release_memory used bytes) permits"

lemma budget_lt: "TRANSFER_MEMORY_BUDGET \<le> U64_MAX"
  by (simp add: TRANSFER_MEMORY_BUDGET_def U64_MAX_def)

lemma sum_zero_permits: "sum_mset permits = (0 :: nat) \<Longrightarrow> filter_mset (\<lambda>b. b \<noteq> 0) permits = {#}"
  by (auto simp: filter_mset_eq_conv sum_mset_0_iff)

text \<open>C32: the memory budget. The reserved total is the sum of the permits that are out, it never
  saturates, and it exceeds the budget only for one oversized permit with no other non-empty one
  beside it; an oversized request is admitted once nothing is reserved.\<close>

theorem memory_budget:
  assumes "memory_run used permits"
  shows "used = sum_mset permits \<and> used \<le> U64_MAX \<and>
    (used > TRANSFER_MEMORY_BUDGET \<longrightarrow> size (filter_mset (\<lambda>b. b \<noteq> 0) permits) = 1) \<and>
    (used = 0 \<longrightarrow> (\<forall>bytes. memory_available used bytes))"
  using assms
proof induction
  case (acquire used permits bytes)
  show ?case
  proof (cases "used = 0")
    case True
    with acquire have "filter_mset (\<lambda>b. b \<noteq> 0) permits = {#}" by (intro sum_zero_permits) simp
    moreover have "saturating_add used bytes = bytes"
      using acquire.hyps(2) by (simp add: True saturating_add_def)
    moreover have "sum_mset permits = 0" using True acquire by simp
    ultimately show ?thesis
      unfolding reserve_memory_def memory_available_def True using acquire.hyps(2) by auto
  next
    case False
    with acquire have "saturating_add used bytes \<le> TRANSFER_MEMORY_BUDGET"
      by (auto simp: memory_available_def)
    moreover from this budget_lt have "saturating_add used bytes = used + bytes"
      unfolding saturating_add_def by (auto simp: TRANSFER_MEMORY_BUDGET_def U64_MAX_def min_def split: if_splits)
    ultimately have r: "reserve_memory used bytes = used + bytes" "used + bytes \<le> TRANSFER_MEMORY_BUDGET"
      by (simp_all add: reserve_memory_def)
    have "used = sum_mset permits" using acquire by simp
    then have s: "used + bytes = sum_mset (add_mset bytes permits)" by simp
    have "used + bytes \<noteq> 0" "\<not> used + bytes > TRANSFER_MEMORY_BUDGET" "used + bytes \<le> U64_MAX"
      using False r(2) budget_lt by linarith+
    then show ?thesis unfolding r(1) using s by blast
  qed
next
  case (release used bytes permits)
  have "used - bytes > TRANSFER_MEMORY_BUDGET \<longrightarrow> size (filter_mset (\<lambda>b. b \<noteq> 0) permits) = 1"
  proof
    assume big: "used - bytes > TRANSFER_MEMORY_BUDGET"
    moreover have "used = sum_mset (add_mset bytes permits)" using release.IH by blast
    ultimately have "sum_mset permits \<noteq> 0" by (intro notI) simp
    then obtain p where "p \<in># permits" "p \<noteq> 0" by (auto simp: sum_mset_0_iff)
    then have "filter_mset (\<lambda>b. b \<noteq> 0) permits \<noteq> {#}" by (auto simp: filter_mset_eq_conv)
    then have "size (filter_mset (\<lambda>b. b \<noteq> 0) permits) > 0" by (simp only: nonempty_has_size)
    moreover have "size (filter_mset (\<lambda>b. b \<noteq> 0) (add_mset bytes permits)) = 1"
      using release.IH big by (meson diff_le_self less_le_trans)
    then have "(if bytes \<noteq> 0 then 1 else 0) + size (filter_mset (\<lambda>b. b \<noteq> 0) permits) = 1"
      by (cases "bytes = 0") (simp_all only: filter_mset_add_mset size_add_mset if_True if_False simp_thms plus_1_eq_Suc add_0)
    moreover have "0 < n \<Longrightarrow> (if b then 1 else 0) + n = 1 \<Longrightarrow> n = 1" for b and n :: nat
      by (simp split: if_splits)
    ultimately show "size (filter_mset (\<lambda>b. b \<noteq> 0) permits) = 1" by blast
  qed
  with release show ?case
    by (auto simp: release_memory_def saturating_sub_def memory_available_def)
qed (simp_all add: memory_available_def)

lemma memory_budget_witness:
  "memory_run (reserve_memory 0 5000000000) {#5000000000#}
   \<and> size (filter_mset (\<lambda>b. b \<noteq> 0) {#5000000000 :: nat#}) = 1"
proof -
  have run: "memory_run (reserve_memory 0 5000000000) (add_mset 5000000000 {#})"
    by (rule memory_run.acquire [OF memory_run.start])
      (simp_all add: memory_available_def U64_MAX_def)
  from memory_budget [OF this] run show ?thesis
    by (simp add: reserve_memory_def saturating_add_def U64_MAX_def TRANSFER_MEMORY_BUDGET_def)
qed

section \<open>Labels of the running pass\<close>

record SyncTarget =
  st_source_id :: string
  st_destination_id :: string

record SyncPlan =
  plan_total :: u64
  plan_to_copy :: u64
  plan_matched :: u64
  plan_done :: u64

record pass_cells =
  sync_kind :: "string option"
  sync_phase :: "string option"
  sync_target :: "SyncTarget option"
  sync_plan :: "SyncPlan option"

definition set_sync_phase :: "string \<Rightarrow> pass_cells \<Rightarrow> pass_cells" where
  "set_sync_phase p c = c\<lparr>sync_phase := Some p\<rparr>"

definition set_sync_target :: "string \<Rightarrow> string \<Rightarrow> pass_cells \<Rightarrow> pass_cells" where
  "set_sync_target s d c = c\<lparr>sync_target := Some \<lparr>st_source_id = s, st_destination_id = d\<rparr>\<rparr>"

definition set_sync_plan :: "u64 \<Rightarrow> u64 \<Rightarrow> u64 \<Rightarrow> pass_cells \<Rightarrow> pass_cells" where
  "set_sync_plan all to_copy matched c =
     c\<lparr>sync_plan := Some \<lparr>plan_total = all, plan_to_copy = to_copy, plan_matched = matched,
       plan_done = 0\<rparr>\<rparr>"

definition sync_plan_add_done :: "u64 \<Rightarrow> pass_cells \<Rightarrow> pass_cells" where
  "sync_plan_add_done n c = (case sync_plan c of None \<Rightarrow> c
     | Some p \<Rightarrow> c\<lparr>sync_plan := Some (p\<lparr>plan_done := plan_done p + n\<rparr>)\<rparr>)"

definition current_sync_plan :: "pass_cells \<Rightarrow> (u64 \<times> u64 \<times> u64 \<times> u64) option" where
  "current_sync_plan c =
     map_option (\<lambda>p. (plan_total p, plan_to_copy p, plan_matched p, plan_done p)) (sync_plan c)"

text \<open>Dropping \<open>SyncPhaseReset\<close>.\<close>

definition sync_phase_reset :: "pass_cells \<Rightarrow> pass_cells" where
  "sync_phase_reset c = c\<lparr>sync_phase := None, sync_plan := None, sync_target := None\<rparr>"

definition set_sync_kind :: "string \<Rightarrow> pass_cells \<Rightarrow> string option \<times> pass_cells" where
  "set_sync_kind kind c = (sync_kind c, c\<lparr>sync_kind := Some kind\<rparr>)"

definition set_sync_kind_if_empty :: "string \<Rightarrow> pass_cells \<Rightarrow> string option \<times> pass_cells" where
  "set_sync_kind_if_empty kind c =
     (sync_kind c, if sync_kind c = None then c\<lparr>sync_kind := Some kind\<rparr> else c)"

definition drop_sync_kind :: "string option \<Rightarrow> pass_cells \<Rightarrow> pass_cells" where
  "drop_sync_kind previous c = c\<lparr>sync_kind := previous\<rparr>"

interpretation kind_guard: scope_guard set_sync_kind drop_sync_kind sync_kind
  by unfold_locales (auto simp: set_sync_kind_def drop_sync_kind_def)

interpretation kind_if_empty_guard: scope_guard set_sync_kind_if_empty drop_sync_kind sync_kind
  by unfold_locales (auto simp: set_sync_kind_if_empty_def drop_sync_kind_def)

end
