(* ===== verification/Store.thy ===== *)
theory Store
  imports Prelude Config Scheduler
begin

text \<open>
  The state database (\<open>src/src/core/state.rs\<close>): its tables and the operations on cycles, events
  and destination offsets.

  A table is a list of rows; rows with a primary key are an association list, so that
  \<open>INSERT .. ON CONFLICT DO UPDATE\<close> is \<^const>\<open>AList.update\<close>. An autoincrement counter is part
  of the database. A timestamp column is an instant: the RFC 3339 texts the code writes, all in
  UTC, compare like the instants they denote. Every operation takes the clock's reading \<open>now\<close>.
  The columns \<open>created_at\<close> and \<open>updated_at\<close> of cycles and of the two configuration tables are
  never read and are left out. SQLite errors are not modelled. The two signals an operation
  sends, to the scheduler and to the peers, are recorded in the database as effects.
\<close>

section \<open>Tables\<close>

record Cycle =
  cyc_id :: nat
  cyc_source :: string
  starts_at :: int
  ends_at :: "int option"
  cyc_status :: string
  needs_full_rescan :: bool
  manual_full_rescan :: bool
  manual_changed_since_rescan :: bool

record event_row =
  ev_id :: nat
  ev_source :: string
  ev_cycle :: nat
  observed_at :: int
  raw_mask :: u64
  ev_kind :: string
  ev_path :: "string option"
  ev_rescan :: bool

record CycleEvent =
  event_id :: nat
  event_kind :: string
  event_path :: "string option"
  rescan_required :: bool

record DestinationOffset =
  target_cycle :: "nat option"
  last_completed :: "nat option"
  last_verified :: "nat option"
  off_status :: string
  off_reason :: string
  off_updated :: int

record offset_row = DestinationOffset +
  verified_snapshot :: "string option"
  verified_dst_snapshot :: "string option"

record issue_row =
  iss_cycle :: "nat option"
  iss_message :: string
  iss_updated :: int

record ScanDiffEntry =
  diff_path :: string
  diff_kind :: string
  diff_type :: string

record ScanReport =
  rep_source :: string
  rep_destination :: string
  scanned_at :: int
  source_entries :: nat
  dst_entries :: nat
  in_sync :: nat
  to_add :: nat
  to_update :: nat
  to_delete :: nat
  type_mismatch :: nat
  metadata :: nat
  differences :: "ScanDiffEntry list"
  truncated :: bool
  rep_error :: string
  rep_method :: string

record meta_row =
  last_event_observed_at :: "int option"
  restart_notice_at :: "int option"
  restart_gap_started :: "int option"

record TaskLogEntry =
  task_id :: nat
  task_kind :: string
  task_source :: string
  task_destination :: string
  task_started :: int
  task_ended :: "int option"
  task_status :: string
  task_error :: string
  files_synced :: nat
  task_differences :: nat
  entries_scanned :: nat

record usn_row =
  usn_volume :: string
  journal_id :: nat
  next_usn :: int

type_synonym destination_key = "string \<times> string"
type_synonym fingerprint = "(string \<times> path_buf \<times> bool \<times> (string \<times> path_buf \<times> bool) list) list"

record db =
  cycles :: "Cycle list"
  cycle_seq :: nat
  events :: "event_row list"
  event_seq :: nat
  offsets :: "(destination_key \<times> offset_row) list"
  issues :: "((string \<times> string \<times> string \<times> string) \<times> issue_row) list"
  reports :: "(destination_key \<times> ScanReport) list"
  source_meta :: "(string \<times> meta_row) list"
  tasks :: "TaskLogEntry list"
  task_seq :: nat
  usn_cursors :: "(string \<times> usn_row) list"
  source_rows :: "(string \<times> path_buf \<times> bool) list"
  destination_rows :: "(destination_key \<times> path_buf \<times> bool) list"
  process_started :: "int option"
  applied_cell :: "fingerprint option"
  applied_process :: "fingerprint option"
  local_changes :: "string list"
  scheduler_notified :: bool

definition empty_db :: db where
  "empty_db = \<lparr>cycles = [], cycle_seq = 0, events = [], event_seq = 0, offsets = [], issues = [],
     reports = [], source_meta = [], tasks = [], task_seq = 0, usn_cursors = [], source_rows = [],
     destination_rows = [], process_started = None, applied_cell = None, applied_process = None,
     local_changes = [], scheduler_notified = False\<rparr>"

text \<open>\<open>SELECT .. ORDER BY id DESC LIMIT 1\<close> over the rows that satisfy a condition.\<close>

definition newest :: "(Cycle \<Rightarrow> bool) \<Rightarrow> db \<Rightarrow> Cycle option" where
  "newest P db = (case rev (sort_key cyc_id (filter P (cycles db))) of [] \<Rightarrow> None | c # _ \<Rightarrow> Some c)"

definition update_cycles :: "(Cycle \<Rightarrow> bool) \<Rightarrow> (Cycle \<Rightarrow> Cycle) \<Rightarrow> db \<Rightarrow> db" where
  "update_cycles P f db = db\<lparr>cycles := map (\<lambda>c. if P c then f c else c) (cycles db)\<rparr>"

definition is_open :: "Cycle \<Rightarrow> bool" where
  "is_open c \<longleftrightarrow> cyc_status c = ''open''"

definition mark_local_change :: "string \<Rightarrow> db \<Rightarrow> db" where
  "mark_local_change s db = db\<lparr>local_changes := local_changes db @ [s]\<rparr>"

section \<open>Cycles\<close>

definition current_open_cycle :: "string \<Rightarrow> db \<Rightarrow> Cycle option" where
  "current_open_cycle s db = newest (\<lambda>c. cyc_source c = s \<and> is_open c) db"

definition current_open_cycle_id :: "string \<Rightarrow> db \<Rightarrow> nat option" where
  "current_open_cycle_id s db = map_option cyc_id (newest (\<lambda>c. cyc_source c = s \<and> is_open c) db)"

text \<open>The insert happens when no cycle of the source is open; the result is the reread id
  (\<open>None\<close> stands for the error \<open>failed to create open cycle\<close>).\<close>

definition ensure_open_cycle :: "string \<Rightarrow> int \<Rightarrow> db \<Rightarrow> nat option \<times> db" where
  "ensure_open_cycle s now db =
     (case current_open_cycle_id s db of
        Some i \<Rightarrow> (Some i, db)
      | None \<Rightarrow>
          let db = (if list_ex (\<lambda>c. cyc_source c = s \<and> is_open c) (cycles db) then db
             else db\<lparr>cycle_seq := cycle_seq db + 1,
                    cycles := cycles db @ [\<lparr>cyc_id = cycle_seq db + 1, cyc_source = s,
                      starts_at = now, ends_at = None, cyc_status = ''open'',
                      needs_full_rescan = False, manual_full_rescan = False,
                      manual_changed_since_rescan = False\<rparr>]\<rparr>)
          in (current_open_cycle_id s db, db))"

definition ensure_open_cycles :: "AppConfig \<Rightarrow> int \<Rightarrow> db \<Rightarrow> db" where
  "ensure_open_cycles cfg now db =
     fold (\<lambda>s db. snd (ensure_open_cycle (src_id s) now db)) (filter src_enabled (source_groups cfg)) db"

definition close_current_cycle_for_source :: "string \<Rightarrow> int \<Rightarrow> db \<Rightarrow> Cycle option \<times> db" where
  "close_current_cycle_for_source s now db =
     (case current_open_cycle s db of
        None \<Rightarrow> (None, db)
      | Some c \<Rightarrow>
          let db = update_cycles (\<lambda>r. cyc_id r = cyc_id c \<and> is_open r)
                (\<lambda>r. r\<lparr>cyc_status := ''closed'', ends_at := Some now\<rparr>) db;
              db = snd (ensure_open_cycle s now db);
              closed = c\<lparr>cyc_status := ''closed'', ends_at := Some now\<rparr>
          in (Some closed, mark_local_change s db))"

definition closed_cycles_for_source :: "string \<Rightarrow> db \<Rightarrow> Cycle list" where
  "closed_cycles_for_source s db = sort_key cyc_id (filter (\<lambda>c. cyc_source c = s \<and>
     cyc_status c \<in> {''closed'', ''planning'', ''syncing'', ''failed''}) (cycles db))"

definition cycle_by_id :: "string \<Rightarrow> nat \<Rightarrow> db \<Rightarrow> Cycle option" where
  "cycle_by_id s i db = List.find (\<lambda>c. cyc_source c = s \<and> cyc_id c = i) (cycles db)"

definition latest_closed_cycle_id :: "string \<Rightarrow> db \<Rightarrow> nat option" where
  "latest_closed_cycle_id s db =
     (case map cyc_id (filter (\<lambda>c. cyc_source c = s \<and> \<not> is_open c) (cycles db)) of
        [] \<Rightarrow> None | ids \<Rightarrow> Some (Max (set ids)))"

definition mark_cycle_status :: "nat \<Rightarrow> string \<Rightarrow> db \<Rightarrow> db" where
  "mark_cycle_status i status = update_cycles (\<lambda>c. cyc_id c = i) (\<lambda>c. c\<lparr>cyc_status := status\<rparr>)"

definition mark_cycle_needs_rescan :: "nat \<Rightarrow> db \<Rightarrow> db" where
  "mark_cycle_needs_rescan i = update_cycles (\<lambda>c. cyc_id c = i) (\<lambda>c. c\<lparr>needs_full_rescan := True\<rparr>)"

definition mark_cycle_manual_full_rescan :: "nat \<Rightarrow> db \<Rightarrow> db" where
  "mark_cycle_manual_full_rescan i = update_cycles (\<lambda>c. cyc_id c = i)
     (\<lambda>c. c\<lparr>needs_full_rescan := True, manual_full_rescan := True\<rparr>)"

definition mark_cycle_manual_incremental :: "nat \<Rightarrow> db \<Rightarrow> db" where
  "mark_cycle_manual_incremental i = update_cycles (\<lambda>c. cyc_id c = i)
     (\<lambda>c. c\<lparr>manual_changed_since_rescan := True\<rparr>)"

definition clear_cycle_needs_rescan :: "nat \<Rightarrow> db \<Rightarrow> db" where
  "clear_cycle_needs_rescan i = update_cycles (\<lambda>c. cyc_id c = i \<and> \<not> manual_full_rescan c)
     (\<lambda>c. c\<lparr>needs_full_rescan := False\<rparr>)"

text \<open>The error of \<open>ensure_open_cycle\<close> leaves the cycle table as it was.\<close>

definition mark_open_cycle_needs_rescan :: "string \<Rightarrow> int \<Rightarrow> db \<Rightarrow> db" where
  "mark_open_cycle_needs_rescan s now db =
     (case ensure_open_cycle s now db of
        (None, db') \<Rightarrow> db' | (Some i, db') \<Rightarrow> mark_cycle_needs_rescan i db')"

section \<open>Events\<close>

definition cycle_has_events :: "string \<Rightarrow> nat \<Rightarrow> db \<Rightarrow> bool" where
  "cycle_has_events s i db = list_ex (\<lambda>e. ev_source e = s \<and> ev_cycle e = i) (events db)"

definition cycle_has_actionable_events :: "string \<Rightarrow> nat \<Rightarrow> db \<Rightarrow> bool" where
  "cycle_has_actionable_events s i db = list_ex (\<lambda>e. ev_source e = s \<and> ev_cycle e = i \<and>
     (ev_path e \<noteq> None \<or> ev_rescan e)) (events db)"

definition cycle_event_of :: "event_row \<Rightarrow> CycleEvent" where
  "cycle_event_of e = \<lparr>event_id = ev_id e, event_kind = ev_kind e, event_path = ev_path e,
     rescan_required = ev_rescan e\<rparr>"

definition events_between_cycles :: "string \<Rightarrow> nat \<Rightarrow> nat \<Rightarrow> db \<Rightarrow> CycleEvent list" where
  "events_between_cycles s after through db = map cycle_event_of (sort_key ev_id
     (filter (\<lambda>e. ev_source e = s \<and> after < ev_cycle e \<and> ev_cycle e \<le> through) (events db)))"

definition cycle_events :: "string \<Rightarrow> nat \<Rightarrow> db \<Rightarrow> CycleEvent list" where
  "cycle_events s i db = map cycle_event_of (sort_key ev_id
     (filter (\<lambda>e. ev_source e = s \<and> ev_cycle e = i) (events db)))"

definition latest_event_observed_at :: "string \<Rightarrow> db \<Rightarrow> int option" where
  "latest_event_observed_at s db =
     (case (case map_of (source_meta db) s of None \<Rightarrow> None | Some m \<Rightarrow> last_event_observed_at m) of
        Some t \<Rightarrow> Some t
      | None \<Rightarrow> (case map observed_at (filter (\<lambda>e. ev_source e = s) (events db)) of
          [] \<Rightarrow> None | ts \<Rightarrow> Some (Max (set ts))))"

definition source_events_quiesced :: "string \<Rightarrow> int \<Rightarrow> db \<Rightarrow> bool" where
  "source_events_quiesced s now db =
     (case latest_event_observed_at s db of None \<Rightarrow> True | Some t \<Rightarrow> now - t \<ge> 10 * SECOND)"

definition event_paths_observed_since :: "string \<Rightarrow> int \<Rightarrow> db \<Rightarrow> string set" where
  "event_paths_observed_since s since db =
     {p. \<exists>e\<in>set (events db). ev_source e = s \<and> observed_at e \<ge> since \<and> ev_path e = Some p}"

definition empty_meta :: meta_row where
  "empty_meta = \<lparr>last_event_observed_at = None, restart_notice_at = None, restart_gap_started = None\<rparr>"

definition meta_of :: "string \<Rightarrow> db \<Rightarrow> meta_row" where
  "meta_of s db = (case map_of (source_meta db) s of Some m \<Rightarrow> m | None \<Rightarrow> empty_meta)"

text \<open>The upsert of the per-source \<open>latest event\<close> scalar.\<close>

definition touch_source_meta :: "string \<Rightarrow> int \<Rightarrow> db \<Rightarrow> db" where
  "touch_source_meta s now db =
     (let m = meta_of s db;
          t = (case last_event_observed_at m of None \<Rightarrow> now | Some t \<Rightarrow> max t now)
      in db\<lparr>source_meta := AList.update s (m\<lparr>last_event_observed_at := Some t\<rparr>) (source_meta db)\<rparr>)"

record WatcherEvent =
  we_source :: string
  we_mask :: u64
  we_kind :: string
  we_path :: "string option"
  we_rescan :: bool

definition insert_event :: "nat \<Rightarrow> int \<Rightarrow> WatcherEvent \<Rightarrow> db \<Rightarrow> db" where
  "insert_event cycle now e db =
     db\<lparr>event_seq := event_seq db + 1,
        events := events db @ [\<lparr>ev_id = event_seq db + 1, ev_source = we_source e, ev_cycle = cycle,
          observed_at = now, raw_mask = we_mask e, ev_kind = we_kind e, ev_path = we_path e,
          ev_rescan = we_rescan e\<rparr>]\<rparr>"

definition record_event :: "int \<Rightarrow> WatcherEvent \<Rightarrow> db \<Rightarrow> nat option \<times> db" where
  "record_event now e db =
     (case ensure_open_cycle (we_source e) now db of
        (None, db) \<Rightarrow> (None, db)
      | (Some cycle, db) \<Rightarrow>
          let db = insert_event cycle now e db;
              i = event_seq db;
              db = touch_source_meta (we_source e) now db;
              db = (if we_rescan e then mark_open_cycle_needs_rescan (we_source e) now db else db)
          in (Some i, db\<lparr>scheduler_notified := True\<rparr>))"

text \<open>The loop of the batch: the cycle of each source already met, the sources that need a rescan.
  \<open>None\<close>: \<open>ensure_open_cycle\<close> failed and the transaction is rolled back.\<close>

fun batch_insert :: "int \<Rightarrow> WatcherEvent list \<Rightarrow> (string \<times> nat) list \<Rightarrow> string list \<Rightarrow> db \<Rightarrow>
    ((string \<times> nat) list \<times> string list \<times> db) option" where
  "batch_insert now [] cycs rescans db = Some (cycs, rescans, db)"
| "batch_insert now (e # es) cycs rescans db =
     (let rescans' = (if we_rescan e then rescans @ [we_source e] else rescans) in
      case map_of cycs (we_source e) of
        Some i \<Rightarrow> batch_insert now es cycs rescans' (insert_event i now e db)
      | None \<Rightarrow>
          (case ensure_open_cycle (we_source e) now db of
             (None, _) \<Rightarrow> None
           | (Some i, db) \<Rightarrow>
               batch_insert now es ((we_source e, i) # cycs) rescans' (insert_event i now e db)))"

definition record_events_batch :: "int \<Rightarrow> WatcherEvent list \<Rightarrow> db \<Rightarrow> db" where
  "record_events_batch now es db =
     (if es = [] then db
      else case batch_insert now es [] [] db of
        None \<Rightarrow> db
      | Some (cycs, rescans, db) \<Rightarrow>
          let db = fold (\<lambda>s. touch_source_meta s now) (sort (map fst cycs)) db;
              db = fold (\<lambda>s. mark_open_cycle_needs_rescan s now) (sort (remdups rescans)) db
          in db\<lparr>scheduler_notified := True\<rparr>)"

section \<open>Pruning\<close>

definition EVENT_PRUNE_CHUNK :: nat where "EVENT_PRUNE_CHUNK = 20000"

definition prunable :: "string \<Rightarrow> nat \<Rightarrow> event_row \<Rightarrow> bool" where
  "prunable s keep e \<longleftrightarrow> ev_source e = s \<and> ev_cycle e < keep"

text \<open>One chunked delete: at most \<open>n\<close> matching rows go.\<close>

fun delete_up_to :: "nat \<Rightarrow> ('a \<Rightarrow> bool) \<Rightarrow> 'a list \<Rightarrow> 'a list" where
  "delete_up_to n P [] = []"
| "delete_up_to n P (x # xs) =
     (if P x \<and> n > 0 then delete_up_to (n - 1) P xs else x # delete_up_to n P xs)"

function prune_loop :: "string \<Rightarrow> nat \<Rightarrow> nat \<Rightarrow> event_row list \<Rightarrow> nat \<times> event_row list" where
  "prune_loop s keep gone evs =
     (let evs' = delete_up_to EVENT_PRUNE_CHUNK (prunable s keep) evs;
          removed = length evs - length evs'
      in if removed < EVENT_PRUNE_CHUNK then (gone + removed, evs')
         else prune_loop s keep (gone + removed) evs')"
  by pat_completeness auto
termination
  by (relation "measure (\<lambda>(_, _, _, evs). length evs)") (auto simp: EVENT_PRUNE_CHUNK_def)

declare prune_loop.simps [simp del]

definition prune_event_log :: "string \<Rightarrow> nat \<Rightarrow> db \<Rightarrow> nat \<times> db" where
  "prune_event_log s keep db =
     (let (n, evs) = prune_loop s keep 0 (events db) in (n, db\<lparr>events := evs\<rparr>))"

section \<open>Destination offsets\<close>

definition new_offset :: "int \<Rightarrow> string \<Rightarrow> offset_row" where
  "new_offset now reason = \<lparr>target_cycle = None, last_completed = None, last_verified = None,
     off_status = ''red'', off_reason = reason, off_updated = now, verified_snapshot = None,
     verified_dst_snapshot = None\<rparr>"

text \<open>\<open>INSERT .. ON CONFLICT DO UPDATE\<close>: the row to insert, and the change to an existing one.\<close>

definition upsert_offset :: "destination_key \<Rightarrow> offset_row \<Rightarrow> (offset_row \<Rightarrow> offset_row) \<Rightarrow> db \<Rightarrow> db" where
  "upsert_offset k fresh change db =
     (let row = (case map_of (offsets db) k of None \<Rightarrow> fresh | Some r \<Rightarrow> change r)
      in db\<lparr>offsets := AList.update k row (offsets db)\<rparr>)"

text \<open>\<open>UPDATE .. WHERE\<close> the key: nothing happens without a row.\<close>

definition update_offset :: "destination_key \<Rightarrow> (offset_row \<Rightarrow> offset_row) \<Rightarrow> db \<Rightarrow> db" where
  "update_offset k change db = (case map_of (offsets db) k of None \<Rightarrow> db
     | Some r \<Rightarrow> db\<lparr>offsets := AList.update k (change r) (offsets db)\<rparr>)"

definition ensure_destination_offset :: "destination_key \<Rightarrow> int \<Rightarrow> db \<Rightarrow> db" where
  "ensure_destination_offset k now = upsert_offset k (new_offset now ''not_verified'') (\<lambda>r. r)"

definition destination_offset :: "destination_key \<Rightarrow> int \<Rightarrow> db \<Rightarrow> DestinationOffset" where
  "destination_offset k now db =
     (case map_of (offsets db) k of
        Some r \<Rightarrow> DestinationOffset.truncate r
      | None \<Rightarrow> \<lparr>target_cycle = None, last_completed = None, last_verified = None,
          off_status = ''red'', off_reason = ''not_verified'', off_updated = now\<rparr>)"

definition destination_target_cycle :: "destination_key \<Rightarrow> db \<Rightarrow> nat option" where
  "destination_target_cycle k db = target_cycle (destination_offset k 0 db)"

definition destination_last_verified :: "destination_key \<Rightarrow> db \<Rightarrow> nat option" where
  "destination_last_verified k db =
     (case map_of (offsets db) k of None \<Rightarrow> None | Some r \<Rightarrow> last_verified r)"

definition coalesce :: "'a option \<Rightarrow> 'a option \<Rightarrow> 'a option" where
  "coalesce a b = (case a of Some x \<Rightarrow> Some x | None \<Rightarrow> b)"

definition upsert_destination_status :: "destination_key \<Rightarrow> nat option \<Rightarrow> string \<Rightarrow> string \<Rightarrow> int \<Rightarrow> db \<Rightarrow> db" where
  "upsert_destination_status k verified status reason now db =
     mark_local_change (fst k) (upsert_offset k
       ((new_offset now reason)\<lparr>last_completed := verified, last_verified := verified,
          off_status := status\<rparr>)
       (\<lambda>r. r\<lparr>last_completed := coalesce verified (last_completed r),
          last_verified := coalesce verified (last_verified r),
          off_status := status, off_reason := reason, off_updated := now\<rparr>) db)"

definition clear_destination_issues :: "destination_key \<Rightarrow> db \<Rightarrow> db" where
  "clear_destination_issues k db =
     db\<lparr>issues := filter (\<lambda>((s, d, _, _), _). (s, d) \<noteq> k) (issues db)\<rparr>"

definition set_destination_target :: "destination_key \<Rightarrow> nat \<Rightarrow> int \<Rightarrow> db \<Rightarrow> db" where
  "set_destination_target k t now db =
     mark_local_change (fst k) (upsert_offset k
       ((new_offset now ''pending_target_cycle'')\<lparr>target_cycle := Some t\<rparr>)
       (\<lambda>r. r\<lparr>target_cycle := Some t, off_status := ''red'',
          off_reason := ''pending_target_cycle'', off_updated := now\<rparr>)
       (clear_destination_issues k db))"

definition clear_destination_target :: "destination_key \<Rightarrow> string \<Rightarrow> int \<Rightarrow> db \<Rightarrow> db" where
  "clear_destination_target k reason now db =
     mark_local_change (fst k) (update_offset k
       (\<lambda>r. r\<lparr>target_cycle := None, off_status := ''red'', off_reason := reason,
          off_updated := now\<rparr>) db)"

definition reset_destination_offset :: "destination_key \<Rightarrow> string \<Rightarrow> int \<Rightarrow> db \<Rightarrow> db" where
  "reset_destination_offset k reason now db =
     upsert_offset k (new_offset now reason) (\<lambda>r. new_offset now reason)
       (clear_destination_issues k db)"

definition source_has_target_cycle :: "string \<Rightarrow> nat \<Rightarrow> db \<Rightarrow> bool" where
  "source_has_target_cycle s t db =
     list_ex (\<lambda>((s', _), r). s' = s \<and> target_cycle r = Some t) (offsets db)"

definition destination_verified_snapshot :: "destination_key \<Rightarrow> db \<Rightarrow> string option" where
  "destination_verified_snapshot k db =
     (case map_of (offsets db) k of None \<Rightarrow> None | Some r \<Rightarrow> verified_snapshot r)"

definition set_destination_verified_snapshot :: "destination_key \<Rightarrow> string option \<Rightarrow> int \<Rightarrow> db \<Rightarrow> db" where
  "set_destination_verified_snapshot k name now =
     update_offset k (\<lambda>r. r\<lparr>verified_snapshot := name, off_updated := now\<rparr>)"

definition destination_verified_dst_snapshot :: "destination_key \<Rightarrow> db \<Rightarrow> string option" where
  "destination_verified_dst_snapshot k db =
     (case map_of (offsets db) k of None \<Rightarrow> None | Some r \<Rightarrow> verified_dst_snapshot r)"

definition set_destination_verified_dst_snapshot :: "destination_key \<Rightarrow> string option \<Rightarrow> int \<Rightarrow> db \<Rightarrow> db" where
  "set_destination_verified_dst_snapshot k name now =
     update_offset k (\<lambda>r. r\<lparr>verified_dst_snapshot := name, off_updated := now\<rparr>)"

definition source_referenced_snapshots :: "string \<Rightarrow> db \<Rightarrow> string list" where
  "source_referenced_snapshots s db = remdups (List.map_filter
     (\<lambda>((s', _), r). if s' = s then verified_snapshot r else None) (offsets db))"

definition known_destination :: "AppConfig \<Rightarrow> destination_key \<Rightarrow> bool" where
  "known_destination cfg k \<longleftrightarrow> list_ex (\<lambda>s. src_id s = fst k \<and>
     list_ex (\<lambda>d. dst_id d = snd k) (destinations s)) (source_groups cfg)"

definition prune_removed_destination_offsets :: "AppConfig \<Rightarrow> db \<Rightarrow> string list \<times> db" where
  "prune_removed_destination_offsets cfg db =
     (let gone = filter (\<lambda>(k, _). \<not> known_destination cfg k) (offsets db)
      in (List.map_filter (\<lambda>(_, r). verified_dst_snapshot r) gone,
          db\<lparr>offsets := fold (\<lambda>(k, _). AList.delete k) gone (offsets db)\<rparr>))"

section \<open>Configuration rows\<close>

definition config_fingerprint :: "AppConfig \<Rightarrow> fingerprint" where
  "config_fingerprint cfg = map (\<lambda>s. (src_id s, src_path s, src_enabled s,
     map (\<lambda>d. (dst_id d, dst_path d, dst_enabled d)) (destinations s))) (source_groups cfg)"

definition upsert_config_source :: "int \<Rightarrow> SourceGroupConfig \<Rightarrow> db \<Rightarrow> db" where
  "upsert_config_source now s db =
     (let db = db\<lparr>source_rows := AList.update (src_id s) (src_path s, src_enabled s) (source_rows db)\<rparr>
      in fold (\<lambda>d db. ensure_destination_offset (src_id s, dst_id d) now
           (db\<lparr>destination_rows := AList.update (src_id s, dst_id d) (dst_path d, dst_enabled d)
              (destination_rows db)\<rparr>)) (destinations s) db)"

text \<open>The hash of the configuration is taken to tell configurations apart; it is kept per
  connection and per process.\<close>

definition ensure_config :: "AppConfig \<Rightarrow> int \<Rightarrow> db \<Rightarrow> db" where
  "ensure_config cfg now db =
     (let fp = config_fingerprint cfg in
      if applied_cell db = Some fp then db
      else if applied_process db = Some fp then db\<lparr>applied_cell := Some fp\<rparr>
      else let db = db\<lparr>applied_process := Some fp\<rparr>;
               db = fold (upsert_config_source now) (source_groups cfg) db
           in db\<lparr>applied_cell := Some fp\<rparr>)"

section \<open>Targets\<close>

definition close_due_source :: "int \<Rightarrow> bool \<Rightarrow> SourceGroupConfig \<Rightarrow> Cycle list \<times> db \<Rightarrow> Cycle list \<times> db" where
  "close_due_source now force s = (\<lambda>(closed, db).
     case current_open_cycle (src_id s) db of
       None \<Rightarrow> (closed, db)
     | Some c \<Rightarrow>
         if \<not> force then (closed, db)
         else let db = update_cycles (\<lambda>r. cyc_id r = cyc_id c \<and> is_open r)
                    (\<lambda>r. r\<lparr>cyc_status := ''closed'', ends_at := Some now\<rparr>) db;
                  db = snd (ensure_open_cycle (src_id s) now db)
              in (closed @ [c\<lparr>cyc_status := ''closed'', ends_at := Some now\<rparr>], db))"

definition close_due_cycles :: "AppConfig \<Rightarrow> bool \<Rightarrow> int \<Rightarrow> db \<Rightarrow> Cycle list \<times> db" where
  "close_due_cycles cfg force now db =
     (let db = ensure_open_cycles cfg now (ensure_config cfg now db)
      in fold (close_due_source now force) (filter src_enabled (source_groups cfg)) ([], db))"

text \<open>Whether one destination gets the cycle about to close as its target. \<open>None\<close>: the boundary
  search of its schedule does not return.\<close>

definition destination_due :: "calendar \<Rightarrow> int \<Rightarrow> Cycle \<Rightarrow> bool \<Rightarrow> db \<Rightarrow> string \<Rightarrow> DestinationConfig \<Rightarrow> bool option" where
  "destination_due cal now cycle open_has_events db s d =
     (let off = destination_offset (s, dst_id d) now db in
      if (case target_cycle off of None \<Rightarrow> False | Some t \<Rightarrow> last_verified off < Some t)
      then Some False
      else if target_cycle off = None \<and> last_verified off = None then Some True
      else if mode (schedule d) = Realtime then Some open_has_events
      else cycle_is_due cal (starts_at cycle) now (schedule d))"

fun collect_due :: "(DestinationConfig \<Rightarrow> bool option) \<Rightarrow> DestinationConfig list \<Rightarrow> string list option" where
  "collect_due due [] = Some []"
| "collect_due due (d # ds) =
     (case due d of None \<Rightarrow> None
      | Some b \<Rightarrow> map_option (\<lambda>r. if b then dst_id d # r else r) (collect_due due ds))"

definition drivable :: "SourceGroupConfig \<Rightarrow> DestinationConfig list" where
  "drivable s = filter (\<lambda>d. dst_enabled d \<and> \<not> paused d) (destinations s)"

definition all_realtime :: "SourceGroupConfig \<Rightarrow> string list \<Rightarrow> bool" where
  "all_realtime s ids \<longleftrightarrow> list_all (\<lambda>i. list_ex (\<lambda>d. dst_id d = i \<and> mode (schedule d) = Realtime)
     (destinations s)) ids"

definition advance_source :: "calendar \<Rightarrow> int \<Rightarrow> SourceGroupConfig \<Rightarrow> db \<Rightarrow> (Cycle option \<times> db) option" where
  "advance_source cal now s db =
     (case current_open_cycle (src_id s) db of
        None \<Rightarrow> Some (None, db)
      | Some c \<Rightarrow>
          let has_events = cycle_has_actionable_events (src_id s) (cyc_id c) db in
          (case collect_due (destination_due cal now c has_events db (src_id s)) (drivable s) of
             None \<Rightarrow> None
           | Some [] \<Rightarrow>
               if has_events \<and> source_events_quiesced (src_id s) now db
               then Some (close_current_cycle_for_source (src_id s) now db)
               else Some (None, db)
           | Some due \<Rightarrow>
               (case close_current_cycle_for_source (src_id s) now db of
                  (None, db) \<Rightarrow> Some (None, db)
                | (Some closed, db) \<Rightarrow>
                    let db = (if \<not> needs_full_rescan closed \<and> all_realtime s due
                              then clear_cycle_needs_rescan (cyc_id closed) db else db);
                        db = fold (\<lambda>i. set_destination_target (src_id s, i) (cyc_id closed) now) due db
                    in Some (Some closed, db))))"

fun advance_sources :: "calendar \<Rightarrow> int \<Rightarrow> SourceGroupConfig list \<Rightarrow> Cycle list \<Rightarrow> db \<Rightarrow> (Cycle list \<times> db) option" where
  "advance_sources cal now [] closed db = Some (closed, db)"
| "advance_sources cal now (s # ss) closed db =
     (case advance_source cal now s db of
        None \<Rightarrow> None
      | Some (None, db) \<Rightarrow> advance_sources cal now ss closed db
      | Some (Some c, db) \<Rightarrow> advance_sources cal now ss (closed @ [c]) db)"

definition advance_due_destination_targets :: "calendar \<Rightarrow> AppConfig \<Rightarrow> int \<Rightarrow> db \<Rightarrow> (Cycle list \<times> db) option" where
  "advance_due_destination_targets cal cfg now db =
     advance_sources cal now (filter src_enabled (source_groups cfg)) []
       (ensure_open_cycles cfg now (ensure_config cfg now db))"

definition target_drivable :: "SourceGroupConfig \<Rightarrow> nat \<Rightarrow> int \<Rightarrow> db \<Rightarrow> db" where
  "target_drivable s i now db =
     fold (\<lambda>d. set_destination_target (src_id s, dst_id d) i now) (drivable s) db"

definition force_target_one :: "int \<Rightarrow> SourceGroupConfig \<Rightarrow> db \<Rightarrow> Cycle option \<times> db" where
  "force_target_one now s db =
     (case close_current_cycle_for_source (src_id s) now db of
        (None, db) \<Rightarrow> (None, db)
      | (Some c, db) \<Rightarrow> (Some c, target_drivable s (cyc_id c) now db))"

definition force_target_all_destinations :: "AppConfig \<Rightarrow> int \<Rightarrow> db \<Rightarrow> Cycle list \<times> db" where
  "force_target_all_destinations cfg now db =
     fold (\<lambda>s (closed, db). case force_target_one now s db of
         (None, db) \<Rightarrow> (closed, db) | (Some c, db) \<Rightarrow> (closed @ [c], db))
       (filter src_enabled (source_groups cfg))
       ([], ensure_open_cycles cfg now (ensure_config cfg now db))"

definition enabled_source :: "AppConfig \<Rightarrow> string \<Rightarrow> SourceGroupConfig option" where
  "enabled_source cfg i = List.find (\<lambda>s. src_id s = i \<and> src_enabled s) (source_groups cfg)"

definition force_target_source :: "AppConfig \<Rightarrow> string \<Rightarrow> int \<Rightarrow> db \<Rightarrow> Cycle option \<times> db" where
  "force_target_source cfg i now db =
     (let db = ensure_open_cycles cfg now (ensure_config cfg now db) in
      case enabled_source cfg i of None \<Rightarrow> (None, db) | Some s \<Rightarrow> force_target_one now s db)"

definition force_target_destination :: "AppConfig \<Rightarrow> string \<Rightarrow> string \<Rightarrow> int \<Rightarrow> db \<Rightarrow> Cycle option \<times> db" where
  "force_target_destination cfg i d now db =
     (let db = ensure_open_cycles cfg now (ensure_config cfg now db) in
      case enabled_source cfg i of
        None \<Rightarrow> (None, db)
      | Some s \<Rightarrow>
          if \<not> list_ex (\<lambda>x. dst_id x = d \<and> dst_enabled x) (destinations s) then (None, db)
          else (case close_current_cycle_for_source i now db of
                  (None, db) \<Rightarrow> (None, db)
                | (Some c, db) \<Rightarrow> (Some c, set_destination_target (i, d) (cyc_id c) now db)))"

section \<open>The invariant\<close>

text \<open>
  Cycle ids grow with the table and never exceed the counter; a source has at most one open
  cycle, and it is the source's newest; no destination's target, completed or verified cycle
  reaches the open one. Events carry increasing ids and belong to a cycle of their source.
\<close>

definition cycles_ok :: "db \<Rightarrow> bool" where
  "cycles_ok db \<longleftrightarrow> sorted_wrt (<) (map cyc_id (cycles db)) \<and>
     (\<forall>c\<in>set (cycles db). 0 < cyc_id c \<and> cyc_id c \<le> cycle_seq db) \<and>
     (\<forall>c\<in>set (cycles db). \<forall>c'\<in>set (cycles db).
        is_open c \<longrightarrow> cyc_source c' = cyc_source c \<longrightarrow> cyc_id c' \<le> cyc_id c)"

definition offset_below :: "db \<Rightarrow> destination_key \<Rightarrow> nat option \<Rightarrow> bool" where
  "offset_below db k v \<longleftrightarrow> (\<forall>i. v = Some i \<longrightarrow> i \<le> cycle_seq db \<and>
     (\<forall>c\<in>set (cycles db). is_open c \<longrightarrow> cyc_source c = fst k \<longrightarrow> i < cyc_id c))"

definition offsets_ok :: "db \<Rightarrow> bool" where
  "offsets_ok db \<longleftrightarrow> (\<forall>k r. map_of (offsets db) k = Some r \<longrightarrow>
     offset_below db k (target_cycle r) \<and> offset_below db k (last_completed r) \<and>
     offset_below db k (last_verified r))"

definition events_ok :: "db \<Rightarrow> bool" where
  "events_ok db \<longleftrightarrow> sorted_wrt (<) (map ev_id (events db)) \<and>
     (\<forall>e\<in>set (events db). ev_id e \<le> event_seq db \<and> 
        (\<exists>c\<in>set (cycles db). cyc_id c = ev_cycle e \<and> cyc_source c = ev_source e))"

definition db_ok :: "db \<Rightarrow> bool" where
  "db_ok db \<longleftrightarrow> cycles_ok db \<and> offsets_ok db \<and> events_ok db"

section \<open>Reading the cycle table\<close>

lemma newest_Some:
  assumes "newest P db = Some c"
  shows "c \<in> set (cycles db) \<and> P c \<and> (\<forall>c'\<in>set (cycles db). P c' \<longrightarrow> cyc_id c' \<le> cyc_id c)"
proof -
  let ?xs = "sort_key cyc_id (filter P (cycles db))"
  from assms have xs: "?xs \<noteq> []" "c = last ?xs"
    by (auto simp: newest_def last_rev [symmetric] split: list.splits)
  have s: "sorted (map cyc_id ?xs)" by simp
  have "c \<in> set ?xs" using xs last_in_set by metis
  moreover have "cyc_id c' \<le> cyc_id c" if "c' \<in> set ?xs" for c'
  proof -
    from that obtain i where i: "i < length ?xs" "c' = ?xs ! i" by (metis in_set_conv_nth)
    then have "map cyc_id ?xs ! i \<le> map cyc_id ?xs ! (length ?xs - 1)"
      by (intro sorted_nth_mono [OF s]) auto
    with i xs show ?thesis by (simp add: last_conv_nth)
  qed
  ultimately show ?thesis by auto
qed

lemma newest_None: "newest P db = None \<longleftrightarrow> (\<forall>c\<in>set (cycles db). \<not> P c)"
proof -
  have "newest P db = None \<longleftrightarrow> sort_key cyc_id (filter P (cycles db)) = []"
    by (auto simp: newest_def split: list.splits)
  also have "\<dots> \<longleftrightarrow> set (sort_key cyc_id (filter P (cycles db))) = {}" by (simp only: set_empty)
  also have "\<dots> \<longleftrightarrow> (\<forall>c\<in>set (cycles db). \<not> P c)" by auto
  finally show ?thesis .
qed

lemma sorted_ids_inj:
  "sorted_wrt (<) (map f xs) \<Longrightarrow> x \<in> set xs \<Longrightarrow> y \<in> set xs \<Longrightarrow> (f x :: nat) = f y \<Longrightarrow> x = y"
  by (metis distinct_map inj_on_eq_iff strict_sorted_iff)

lemma open_unique:
  assumes "cycles_ok db" "c \<in> set (cycles db)" "is_open c" "c' \<in> set (cycles db)" "is_open c'"
    "cyc_source c = cyc_source c'"
  shows "c = c'"
proof -
  have "cyc_id c' \<le> cyc_id c" "cyc_id c \<le> cyc_id c'"
    using assms unfolding cycles_ok_def by auto
  then have "cyc_id c = cyc_id c'" by simp
  with assms show ?thesis unfolding cycles_ok_def by (meson sorted_ids_inj)
qed

lemma current_open_iff:
  assumes "cycles_ok db"
  shows "current_open_cycle s db = Some c \<longleftrightarrow> c \<in> set (cycles db) \<and> cyc_source c = s \<and> is_open c"
proof
  assume "current_open_cycle s db = Some c"
  then show "c \<in> set (cycles db) \<and> cyc_source c = s \<and> is_open c"
    using newest_Some unfolding current_open_cycle_def by blast
next
  assume c: "c \<in> set (cycles db) \<and> cyc_source c = s \<and> is_open c"
  then obtain c' where c': "current_open_cycle s db = Some c'"
    unfolding current_open_cycle_def using newest_None by (metis (mono_tags, lifting) not_None_eq)
  then have "c' \<in> set (cycles db) \<and> cyc_source c' = s \<and> is_open c'"
    using newest_Some unfolding current_open_cycle_def by blast
  with c c' show "current_open_cycle s db = Some c"
    using open_unique [OF assms] by metis
qed

lemma current_open_None:
  "current_open_cycle s db = None \<longleftrightarrow> (\<forall>c\<in>set (cycles db). cyc_source c = s \<longrightarrow> \<not> is_open c)"
  by (auto simp: current_open_cycle_def newest_None)

lemma current_open_cycle_id_eq: "current_open_cycle_id s db = map_option cyc_id (current_open_cycle s db)"
  by (simp add: current_open_cycle_id_def current_open_cycle_def)

abbreviation opened :: "string \<Rightarrow> int \<Rightarrow> db \<Rightarrow> db" where
  "opened s now db \<equiv> db\<lparr>cycle_seq := cycle_seq db + 1,
     cycles := cycles db @ [\<lparr>cyc_id = cycle_seq db + 1, cyc_source = s, starts_at = now,
       ends_at = None, cyc_status = ''open'', needs_full_rescan = False,
       manual_full_rescan = False, manual_changed_since_rescan = False\<rparr>]\<rparr>"

lemma offset_below_opened:
  "offset_below db k v \<Longrightarrow> offset_below (opened s now db) k v"
  by (fastforce simp: offset_below_def)

lemma db_ok_opened:
  assumes "db_ok db" and "current_open_cycle s db = None"
  shows "db_ok (opened s now db)"
proof -
  have new: "\<forall>c\<in>set (cycles db). cyc_source c = s \<longrightarrow> \<not> is_open c"
    using assms(2) by (simp add: current_open_None)
  have "cycles_ok (opened s now db)"
    using assms(1) new by (auto simp: db_ok_def cycles_ok_def sorted_wrt_append less_Suc_eq_le le_Suc_eq)
  moreover have "offsets_ok (opened s now db)"
    using assms(1) offset_below_opened unfolding db_ok_def offsets_ok_def by simp
  moreover have "events_ok (opened s now db)"
    using assms(1) by (fastforce simp: db_ok_def events_ok_def)
  ultimately show ?thesis by (simp add: db_ok_def)
qed

lemma ensure_open_cycle_cases:
  assumes "cycles_ok db"
  obtains c where "current_open_cycle s db = Some c" "ensure_open_cycle s now db = (Some (cyc_id c), db)"
  | "current_open_cycle s db = None" "ensure_open_cycle s now db = (Some (cycle_seq db + 1), opened s now db)"
proof (cases "current_open_cycle s db")
  case None
  then have "\<not> list_ex (\<lambda>c. cyc_source c = s \<and> is_open c) (cycles db)"
    by (auto simp: current_open_None list_ex_iff)
  moreover have "sort_key cyc_id (filter (\<lambda>c. cyc_source c = s \<and> is_open c) (cycles db)) = []"
    using None by (auto simp: current_open_cycle_def newest_def split: list.splits)
  then have "filter (\<lambda>c. cyc_source c = s \<and> is_open c) (cycles db) = []"
    by (metis length_sort length_0_conv)
  then have "current_open_cycle_id s (opened s now db) = Some (cycle_seq db + 1)"
    by (simp add: current_open_cycle_id_def newest_def is_open_def)
  ultimately show ?thesis
    using None that(2) by (simp add: ensure_open_cycle_def current_open_cycle_id_eq [of s db] Let_def)
next
  case (Some c)
  then show ?thesis using that(1) by (simp add: ensure_open_cycle_def current_open_cycle_id_eq)
qed

lemma ensure_open_cycle_ok:
  assumes "db_ok db"
  obtains i db' where "ensure_open_cycle s now db = (Some i, db')" "db_ok db'"
    "\<exists>c\<in>set (cycles db'). cyc_source c = s \<and> is_open c \<and> cyc_id c = i"
    "events db' = events db" "event_seq db' = event_seq db" "offsets db' = offsets db"
    "set (cycles db) \<subseteq> set (cycles db')" "cycle_seq db \<le> cycle_seq db'"
proof -
  have "cycles_ok db" using assms by (simp add: db_ok_def)
  then show ?thesis
  proof (cases rule: ensure_open_cycle_cases [where s = s and now = now])
    case (1 c)
    with assms that show ?thesis
      using current_open_iff [OF \<open>cycles_ok db\<close>, of s c] by blast
  next
    case 2
    show ?thesis
      by (rule that [OF 2(2)]) (use db_ok_opened [OF assms 2(1)] in \<open>auto simp: is_open_def\<close>)
  qed
qed

section \<open>Every operation keeps the invariant\<close>

lemma db_ok_fields:
  assumes "cycles db' = cycles db" "cycle_seq db' = cycle_seq db" "events db' = events db"
    "event_seq db' = event_seq db" "offsets db' = offsets db"
  shows "db_ok db' = db_ok db"
  using assms by (simp add: db_ok_def cycles_ok_def offsets_ok_def offset_below_def events_ok_def)

lemma mark_local_change_ok [simp]: "db_ok (mark_local_change s db) = db_ok db"
  by (rule db_ok_fields) (simp_all add: mark_local_change_def)

lemma ensure_open_ok: "db_ok db \<Longrightarrow> db_ok (snd (ensure_open_cycle s now db))"
  using ensure_open_cycle_ok [of db s now] by (metis snd_conv)

lemma ensure_open_cycles_ok: "db_ok db \<Longrightarrow> db_ok (ensure_open_cycles cfg now db)"
  unfolding ensure_open_cycles_def
proof (rule fold_invariant [where Q = "\<lambda>_. True" and P = db_ok])
qed (auto intro: ensure_open_ok)

lemma update_cycles_ok:
  assumes "db_ok db"
    and f: "\<And>c. cyc_id (f c) = cyc_id c \<and> cyc_source (f c) = cyc_source c \<and> (is_open (f c) \<longrightarrow> is_open c)"
  shows "db_ok (update_cycles P f db)"
proof -
  define g where "g c = (if P c then f c else c)" for c
  have g: "cyc_id (g c) = cyc_id c" "cyc_source (g c) = cyc_source c" for c
    using f [of c] by (auto simp: g_def)
  have o: "is_open (g c) \<Longrightarrow> is_open c" for c
    using f [of c] by (auto simp: g_def split: if_splits)
  have cs: "cycles (update_cycles P f db) = map g (cycles db)"
    by (simp add: update_cycles_def g_def)
  have rest: "cycle_seq (update_cycles P f db) = cycle_seq db" "events (update_cycles P f db) = events db"
    "event_seq (update_cycles P f db) = event_seq db" "offsets (update_cycles P f db) = offsets db"
    by (simp_all add: update_cycles_def)
  have ids: "map cyc_id (map g (cycles db)) = map cyc_id (cycles db)" by (simp add: g)
  have "cycles_ok (update_cycles P f db)"
    using assms(1) o unfolding db_ok_def cycles_ok_def cs rest ids by (simp add: g)
  moreover have "offset_below (update_cycles P f db) k v" if "offset_below db k v" for k v
    using that o unfolding offset_below_def cs rest by (simp add: g)
  then have "offsets_ok (update_cycles P f db)"
    using assms(1) unfolding db_ok_def offsets_ok_def rest by simp
  moreover have "events_ok (update_cycles P f db)"
    using assms(1) unfolding db_ok_def events_ok_def cs rest by (simp add: g)
  ultimately show ?thesis by (simp add: db_ok_def)
qed

lemma mark_cycle_status_ok: "db_ok db \<Longrightarrow> status \<noteq> ''open'' \<Longrightarrow> db_ok (mark_cycle_status i status db)"
  unfolding mark_cycle_status_def by (rule update_cycles_ok) (simp_all add: is_open_def)

lemma mark_cycle_flags_ok:
  assumes "db_ok db"
  shows "db_ok (mark_cycle_needs_rescan i db)" "db_ok (mark_cycle_manual_full_rescan i db)"
    "db_ok (mark_cycle_manual_incremental i db)" "db_ok (clear_cycle_needs_rescan i db)"
  unfolding mark_cycle_needs_rescan_def mark_cycle_manual_full_rescan_def
    mark_cycle_manual_incremental_def clear_cycle_needs_rescan_def
  by (rule update_cycles_ok [OF assms]; simp add: is_open_def)+

lemma mark_open_cycle_needs_rescan_ok:
  "db_ok db \<Longrightarrow> db_ok (mark_open_cycle_needs_rescan s now db)"
proof -
  assume "db_ok db"
  then obtain i db' where "ensure_open_cycle s now db = (Some i, db')" "db_ok db'"
    by (rule ensure_open_cycle_ok)
  then show ?thesis by (simp add: mark_open_cycle_needs_rescan_def mark_cycle_flags_ok)
qed

text \<open>Closing the open cycle of a source: the closed one keeps its id and is no longer open, the
  new open one is later, and no offset of the source had reached the closed id.\<close>

lemma close_current_cycle_ok:
  assumes "db_ok db" and "close_current_cycle_for_source s now db = (Some c, db')"
  shows "db_ok db'" "offsets db' = offsets db" "events db' = events db" "cyc_source c = s"
    "offset_below db' (s, d) (Some (cyc_id c))"
    "\<exists>c0. current_open_cycle s db = Some c0 \<and> cyc_id c0 = cyc_id c"
proof -
  have ok: "cycles_ok db" using assms(1) by (simp add: db_ok_def)
  from assms(2) obtain c0 where c0: "current_open_cycle s db = Some c0"
    and c: "c = c0\<lparr>cyc_status := ''closed'', ends_at := Some now\<rparr>"
    by (auto simp: close_current_cycle_for_source_def Let_def split: option.splits)
  let ?u = "update_cycles (\<lambda>r. cyc_id r = cyc_id c0 \<and> is_open r)
      (\<lambda>r. r\<lparr>cyc_status := ''closed'', ends_at := Some now\<rparr>) db"
  have u: "db_ok ?u" by (rule update_cycles_ok [OF assms(1)]) (simp add: is_open_def)
  have mem: "c0 \<in> set (cycles db)" "cyc_source c0 = s" "is_open c0"
    using c0 current_open_iff [OF ok] by auto
  have none: "current_open_cycle s ?u = None"
    unfolding current_open_None
  proof (intro ballI impI notI)
    fix x assume x: "x \<in> set (cycles ?u)" "cyc_source x = s" "is_open x"
    then have "x \<in> set (cycles db) \<and> cyc_id x \<noteq> cyc_id c0"
      by (auto simp: update_cycles_def is_open_def split: if_splits)
    with x open_unique [OF ok mem(1) mem(3), of x] mem(2) show False by simp
  qed
  have e: "ensure_open_cycle s now ?u = (Some (cycle_seq ?u + 1), opened s now ?u)"
    using ensure_open_cycle_cases [of ?u s now] u none by (auto simp: db_ok_def)
  have db': "db' = mark_local_change s (opened s now ?u)"
    using assms(2) c0 e by (simp add: close_current_cycle_for_source_def Let_def)
  show "db_ok db'" using db_ok_opened [OF u none] by (simp add: db')
  show "offsets db' = offsets db" "events db' = events db"
    by (simp_all add: db' mark_local_change_def update_cycles_def)
  show "cyc_source c = s" using mem by (simp add: c)
  have "cyc_id c0 \<le> cycle_seq db" using mem(1) ok by (auto simp: cycles_ok_def)
  moreover have "cyc_id c0 < cyc_id x"
    if "x \<in> set (cycles db')" "is_open x" "cyc_source x = s" for x
  proof -
    have "x \<notin> set (cycles ?u)" using none that by (auto simp: current_open_None)
    then have "cyc_id x = cycle_seq ?u + 1" using that(1) by (auto simp: db' mark_local_change_def)
    with calculation show ?thesis by (simp add: update_cycles_def)
  qed
  ultimately show "offset_below db' (s, d) (Some (cyc_id c))"
    by (auto simp: offset_below_def c db' mark_local_change_def update_cycles_def)
  show "\<exists>c0. current_open_cycle s db = Some c0 \<and> cyc_id c0 = cyc_id c"
    using c0 by (simp add: c)
qed

lemma close_ok: "db_ok db \<Longrightarrow> db_ok (snd (close_current_cycle_for_source s now db))"
proof (cases "fst (close_current_cycle_for_source s now db)")
  case None
  assume "db_ok db"
  with None show ?thesis
    by (auto simp: close_current_cycle_for_source_def Let_def split: option.splits)
next
  case (Some c)
  assume "db_ok db"
  with Some show ?thesis using close_current_cycle_ok(1) [of db s now c] by (metis prod.collapse)
qed

definition row_below :: "db \<Rightarrow> destination_key \<Rightarrow> offset_row \<Rightarrow> bool" where
  "row_below db k r \<longleftrightarrow> offset_below db k (target_cycle r) \<and> offset_below db k (last_completed r) \<and>
     offset_below db k (last_verified r)"

lemma offset_below_None [simp]: "offset_below db k None"
  by (simp add: offset_below_def)

lemma set_offset_ok:
  assumes "db_ok db" and "row_below db k row"
  shows "db_ok (db\<lparr>offsets := AList.update k row (offsets db)\<rparr>)"
  using assms
  by (auto simp: db_ok_def cycles_ok_def offsets_ok_def offset_below_def events_ok_def row_below_def
      tbl_simps split: if_splits)

lemma row_below_stored:
  "db_ok db \<Longrightarrow> map_of (offsets db) k = Some r \<Longrightarrow> row_below db k r"
  unfolding db_ok_def offsets_ok_def row_below_def by blast

lemma upsert_offset_ok:
  assumes "db_ok db" and "row_below db k fresh" and "\<And>r. row_below db k r \<Longrightarrow> row_below db k (change r)"
  shows "db_ok (upsert_offset k fresh change db)"
proof -
  have "row_below db k r" if "map_of (offsets db) k = Some r" for r
    using assms(1) that by (rule row_below_stored)
  with assms show ?thesis
    by (auto simp: upsert_offset_def intro!: set_offset_ok split: option.split)
qed

lemma update_offset_ok:
  assumes "db_ok db" and "\<And>r. row_below db k r \<Longrightarrow> row_below db k (change r)"
  shows "db_ok (update_offset k change db)"
proof -
  have "row_below db k r" if "map_of (offsets db) k = Some r" for r
    using assms(1) that by (rule row_below_stored)
  with assms show ?thesis
    by (auto simp: update_offset_def intro!: set_offset_ok split: option.split)
qed

lemma row_below_new [simp]: "row_below db k (new_offset now reason)"
  by (simp add: row_below_def new_offset_def)

lemma ensure_destination_offset_ok: "db_ok db \<Longrightarrow> db_ok (ensure_destination_offset k now db)"
  unfolding ensure_destination_offset_def by (rule upsert_offset_ok) simp_all

lemma clear_destination_issues_ok [simp]: "db_ok (clear_destination_issues k db) = db_ok db"
  by (rule db_ok_fields) (simp_all add: clear_destination_issues_def)

lemma row_below_fields:
  "cycles db' = cycles db \<Longrightarrow> cycle_seq db' = cycle_seq db \<Longrightarrow> offset_below db' k v = offset_below db k v"
  by (simp add: offset_below_def)

lemma set_destination_target_ok:
  assumes "db_ok db" and "offset_below db k (Some t)"
  shows "db_ok (set_destination_target k t now db)"
  unfolding set_destination_target_def mark_local_change_ok
proof (rule upsert_offset_ok)
  have b: "offset_below (clear_destination_issues k db) k v = offset_below db k v" for v
    by (rule row_below_fields) (simp_all add: clear_destination_issues_def)
  show "db_ok (clear_destination_issues k db)" using assms(1) by simp
  show "row_below (clear_destination_issues k db) k
      ((new_offset now ''pending_target_cycle'')\<lparr>target_cycle := Some t\<rparr>)"
    using assms(2) by (simp add: row_below_def new_offset_def b)
  show "row_below (clear_destination_issues k db) k (r\<lparr>target_cycle := Some t, off_status := ''red'',
      off_reason := ''pending_target_cycle'', off_updated := now\<rparr>)"
    if "row_below (clear_destination_issues k db) k r" for r
    using assms(2) that by (simp add: row_below_def b)
qed

lemma upsert_destination_status_ok:
  assumes "db_ok db" and "offset_below db k v"
  shows "db_ok (upsert_destination_status k v status reason now db)"
  unfolding upsert_destination_status_def mark_local_change_ok
  by (rule upsert_offset_ok [OF assms(1)])
    (use assms(2) in \<open>auto simp: row_below_def new_offset_def coalesce_def split: option.splits\<close>)

lemma clear_destination_target_ok: "db_ok db \<Longrightarrow> db_ok (clear_destination_target k reason now db)"
  unfolding clear_destination_target_def mark_local_change_ok
  by (rule update_offset_ok) (simp_all add: row_below_def)

lemma reset_destination_offset_ok: "db_ok db \<Longrightarrow> db_ok (reset_destination_offset k reason now db)"
  unfolding reset_destination_offset_def by (rule upsert_offset_ok) simp_all

lemma set_snapshot_names_ok:
  assumes "db_ok db"
  shows "db_ok (set_destination_verified_snapshot k name now db)"
    "db_ok (set_destination_verified_dst_snapshot k name now db)"
  unfolding set_destination_verified_snapshot_def set_destination_verified_dst_snapshot_def
  by (rule update_offset_ok [OF assms]; simp add: row_below_def)+

subsection \<open>Events\<close>

lemma insert_event_ok:
  assumes "db_ok db" and "\<exists>c\<in>set (cycles db). cyc_source c = we_source e \<and> cyc_id c = i"
  shows "db_ok (insert_event i now e db)"
proof -
  have "events_ok (insert_event i now e db)"
    using assms by (fastforce simp: db_ok_def events_ok_def insert_event_def sorted_wrt_append)
  then show ?thesis
    using assms(1) by (simp add: db_ok_def cycles_ok_def offsets_ok_def offset_below_def insert_event_def)
qed

lemma touch_source_meta_ok [simp]: "db_ok (touch_source_meta s now db) = db_ok db"
  by (rule db_ok_fields) (simp_all add: touch_source_meta_def Let_def)

lemma notified_ok [simp]: "db_ok (db\<lparr>scheduler_notified := b\<rparr>) = db_ok db"
  by (rule db_ok_fields) simp_all

lemma record_event_step:
  assumes "db_ok db"
  obtains i db1 where "ensure_open_cycle (we_source e) now db = (Some i, db1)" "db_ok db1"
    "\<exists>c\<in>set (cycles db1). cyc_source c = we_source e \<and> is_open c \<and> cyc_id c = i"
    "events db1 = events db" "offsets db1 = offsets db" "db_ok (insert_event i now e db1)"
proof -
  from assms obtain i db1 where r: "ensure_open_cycle (we_source e) now db = (Some i, db1)" "db_ok db1"
    "\<exists>c\<in>set (cycles db1). cyc_source c = we_source e \<and> is_open c \<and> cyc_id c = i"
    "events db1 = events db" "offsets db1 = offsets db"
    by (rule ensure_open_cycle_ok [where s = "we_source e" and now = now])
  have "db_ok (insert_event i now e db1)" using insert_event_ok [OF r(2)] r(3) by blast
  with r that show ?thesis by blast
qed

lemma record_event_ok: "db_ok db \<Longrightarrow> db_ok (snd (record_event now e db))"
proof -
  assume "db_ok db"
  then obtain i db1 where "ensure_open_cycle (we_source e) now db = (Some i, db1)"
    and "db_ok (insert_event i now e db1)" by (rule record_event_step)
  then show ?thesis
    by (auto simp: record_event_def Let_def intro: mark_open_cycle_needs_rescan_ok)
qed

lemma batch_insert_ok:
  assumes "db_ok db" and "\<And>s i. map_of cycs s = Some i \<Longrightarrow>
      \<exists>c\<in>set (cycles db). cyc_source c = s \<and> cyc_id c = i"
    and "batch_insert now es cycs rescans db = Some (cycs', rescans', db')"
  shows "db_ok db'"
  using assms
proof (induction now es cycs rescans db rule: batch_insert.induct)
  case (2 now e es cycs rescans db)
  show ?case
  proof (cases "map_of cycs (we_source e)")
    case None
    from 2(3) obtain i db1 where r: "ensure_open_cycle (we_source e) now db = (Some i, db1)" "db_ok db1"
      "\<exists>c\<in>set (cycles db1). cyc_source c = we_source e \<and> is_open c \<and> cyc_id c = i"
      "set (cycles db) \<subseteq> set (cycles db1)"
      by (rule ensure_open_cycle_ok [where s = "we_source e" and now = now])
    have ins: "db_ok (insert_event i now e db1)" using insert_event_ok [OF r(2)] r(3) by blast
    have m: "\<exists>c\<in>set (cycles (insert_event i now e db1)). cyc_source c = s \<and> cyc_id c = j"
      if "map_of ((we_source e, i) # cycs) s = Some j" for s j
      using that r(3,4) 2(4) [of s j] by (fastforce simp: insert_event_def split: if_splits)
    show ?thesis
      using "2.IH"(1) [OF refl None r(1) [symmetric] refl ins m] 2(5) None r(1)
      by (simp add: Let_def)
  next
    case (Some i)
    have ins: "db_ok (insert_event i now e db)" using insert_event_ok [OF 2(3)] 2(4) [OF Some] by blast
    have m: "\<exists>c\<in>set (cycles (insert_event i now e db)). cyc_source c = s \<and> cyc_id c = j"
      if "map_of cycs s = Some j" for s j
      using 2(4) [OF that] by (simp add: insert_event_def)
    show ?thesis
      using "2.IH"(2) [OF refl Some ins m] 2(5) Some by (simp add: Let_def)
  qed
qed simp

lemma fold_ok: "(\<And>x db. db_ok db \<Longrightarrow> db_ok (f x db)) \<Longrightarrow> db_ok db \<Longrightarrow> db_ok (fold f xs db)"
  by (induction xs arbitrary: db) simp_all

lemma record_events_batch_ok: "db_ok db \<Longrightarrow> db_ok (record_events_batch now es db)"
  using batch_insert_ok [of db "[]" now es "[]"]
  by (auto simp: record_events_batch_def Let_def intro!: fold_ok mark_open_cycle_needs_rescan_ok
      split: option.splits)

lemma delete_up_to_filter: "filter (\<lambda>x. \<not> P x) (delete_up_to n P xs) = filter (\<lambda>x. \<not> P x) xs"
  by (induction n P xs rule: delete_up_to.induct) auto

lemma delete_up_to_count:
  "length (filter P (delete_up_to n P xs)) = length (filter P xs) - n"
  by (induction n P xs rule: delete_up_to.induct) auto

lemma length_filter_split: "length xs = length (filter P xs) + length (filter (\<lambda>x. \<not> P x) xs)"
  by (induction xs) auto

lemma delete_up_to_removed:
  "length xs - length (delete_up_to n P xs) = min n (length (filter P xs))"
  using length_filter_split [of xs P] length_filter_split [of "delete_up_to n P xs" P]
    delete_up_to_filter [of P n xs] delete_up_to_count [of P n xs] by simp

lemma prune_loop_eq:
  "prune_loop s keep gone evs =
     (gone + length (filter (prunable s keep) evs), filter (\<lambda>e. \<not> prunable s keep e) evs)"
proof (induction s keep gone evs rule: prune_loop.induct)
  case (1 s keep gone evs)
  let ?P = "prunable s keep"
  let ?e = "delete_up_to EVENT_PRUNE_CHUNK ?P evs"
  have r: "length evs - length ?e = min EVENT_PRUNE_CHUNK (length (filter ?P evs))"
    by (rule delete_up_to_removed)
  show ?case
  proof (cases "length evs - length ?e < EVENT_PRUNE_CHUNK")
    case True
    then have c: "length (filter ?P evs) < EVENT_PRUNE_CHUNK" using r by linarith
    then have "filter ?P ?e = []" using delete_up_to_count [of ?P EVENT_PRUNE_CHUNK evs] by simp
    then have "?e = filter (\<lambda>e. \<not> ?P e) ?e" by (simp add: filter_empty_conv filter_id_conv)
    then have "?e = filter (\<lambda>e. \<not> ?P e) evs" by (simp add: delete_up_to_filter)
    with True c r show ?thesis by (subst prune_loop.simps) (simp add: Let_def)
  next
    case False
    then show ?thesis
      using 1 [OF refl refl] r
      by (subst prune_loop.simps) (simp add: Let_def delete_up_to_filter delete_up_to_count)
  qed
qed

lemma prune_event_log_eq:
  "prune_event_log s keep db = (length (filter (prunable s keep) (events db)),
     db\<lparr>events := filter (\<lambda>e. \<not> prunable s keep e) (events db)\<rparr>)"
  by (simp add: prune_event_log_def prune_loop_eq)

lemma prune_event_log_ok: "db_ok db \<Longrightarrow> db_ok (snd (prune_event_log s keep db))"
  by (auto simp: prune_event_log_eq db_ok_def cycles_ok_def offsets_ok_def offset_below_def
      events_ok_def sorted_wrt_map intro: sorted_wrt_filter)

subsection \<open>Configuration and targets\<close>

lemma ensure_config_ok: "db_ok db \<Longrightarrow> db_ok (ensure_config cfg now db)"
proof -
  assume ok: "db_ok db"
  have rows: "db_ok (db\<lparr>destination_rows := x\<rparr>) = db_ok db" "db_ok (db\<lparr>source_rows := y\<rparr>) = db_ok db"
    "db_ok (db\<lparr>applied_process := p\<rparr>) = db_ok db" "db_ok (db\<lparr>applied_cell := q\<rparr>) = db_ok db" for db x y p q
    by (rule db_ok_fields; simp)+
  have "db_ok (upsert_config_source now s db)" if "db_ok db" for s db
    unfolding upsert_config_source_def Let_def
    by (rule fold_ok) (use that in \<open>simp_all add: rows ensure_destination_offset_ok\<close>)
  with ok show ?thesis by (simp add: ensure_config_def Let_def rows fold_ok)
qed

lemma set_targets_ok:
  assumes "db_ok db" and "\<And>d. offset_below db (s, d) (Some t)"
  shows "db_ok (fold (\<lambda>i. set_destination_target (s, i) t now) ids db)"
  using assms
proof (induction ids arbitrary: db)
  case (Cons i ids)
  have "db_ok (set_destination_target (s, i) t now db)"
    using Cons.prems by (intro set_destination_target_ok)
  moreover have "offset_below (set_destination_target (s, i) t now db) (s, d) (Some t)" for d
    using Cons.prems(2) [of d]
    by (simp add: set_destination_target_def mark_local_change_def upsert_offset_def
        clear_destination_issues_def offset_below_def Let_def)
  ultimately show ?case using Cons.IH by simp
qed simp

lemma force_target_one_ok: "db_ok db \<Longrightarrow> db_ok (snd (force_target_one now s db))"
proof -
  assume ok: "db_ok db"
  obtain c db' where r: "close_current_cycle_for_source (src_id s) now db = (c, db')" by fastforce
  show ?thesis
  proof (cases c)
    case None
    with ok r show ?thesis using close_ok [OF ok, of "src_id s" now] by (simp add: force_target_one_def)
  next
    case (Some x)
    note f = close_current_cycle_ok [OF ok r [unfolded Some]]
    have "db_ok (fold (\<lambda>i. set_destination_target (src_id s, i) (cyc_id x) now) (map dst_id (drivable s)) db')"
      using f(1,5) by (rule set_targets_ok)
    then show ?thesis by (simp add: force_target_one_def r Some target_drivable_def fold_map comp_def)
  qed
qed

lemma clear_rescan_offset_below:
  "offset_below (clear_cycle_needs_rescan i db) k v = offset_below db k v"
proof -
  define g where "g c = (if cyc_id c = i \<and> \<not> manual_full_rescan c then c\<lparr>needs_full_rescan := False\<rparr> else c)" for c :: Cycle
  have g: "cyc_id (g c) = cyc_id c" "cyc_source (g c) = cyc_source c" "is_open (g c) = is_open c" for c :: Cycle
    by (simp_all add: g_def is_open_def)
  have "clear_cycle_needs_rescan i db = db\<lparr>cycles := map g (cycles db)\<rparr>"
    by (simp add: clear_cycle_needs_rescan_def update_cycles_def g_def)
  then show ?thesis by (simp add: offset_below_def g)
qed

lemma advance_source_ok:
  assumes "db_ok db" and "advance_source cal now s db = Some (r, db')"
  shows "db_ok db'"
proof (cases "current_open_cycle (src_id s) db")
  case None
  with assms show ?thesis by (simp add: advance_source_def)
next
  case (Some c)
  let ?has = "cycle_has_actionable_events (src_id s) (cyc_id c) db"
  obtain due where due: "collect_due (destination_due cal now c ?has db (src_id s)) (drivable s) = Some due"
    using assms(2) Some by (auto simp: advance_source_def Let_def split: option.splits)
  obtain x db1 where cl: "close_current_cycle_for_source (src_id s) now db = (x, db1)" by fastforce
  have ok1: "db_ok db1" using close_ok [OF assms(1), of "src_id s" now] cl by simp
  show ?thesis
  proof (cases due)
    case Nil
    with assms Some due cl ok1 show ?thesis by (auto simp: advance_source_def Let_def split: if_splits)
  next
    case (Cons i is')
    show ?thesis
    proof (cases x)
      case None
      with assms Some due cl Cons ok1 show ?thesis by (auto simp: advance_source_def Let_def)
    next
      case (Some y)
      note f = close_current_cycle_ok [OF assms(1) cl [unfolded Some]]
      let ?db2 = "if \<not> needs_full_rescan y \<and> all_realtime s due
          then clear_cycle_needs_rescan (cyc_id y) db1 else db1"
      have "db_ok ?db2" using f(1) by (simp add: mark_cycle_flags_ok)
      moreover have "offset_below ?db2 (src_id s, d) (Some (cyc_id y))" for d
        using f(5) by (simp add: clear_rescan_offset_below)
      ultimately have "db_ok (fold (\<lambda>i. set_destination_target (src_id s, i) (cyc_id y) now) due ?db2)"
        by (rule set_targets_ok)
      with assms(2) \<open>current_open_cycle (src_id s) db = Some c\<close> due cl Cons Some show ?thesis
        by (simp add: advance_source_def Let_def)
    qed
  qed
qed

end
