(* ===== verification/Store_Log.thy ===== *)
theory Store_Log
  imports Prelude Config Scheduler Store
begin

text \<open>
  What the state database promises. The engine's operations on cycles, events and offsets as a
  step relation, with the invariant over everything reachable; the interface \<open>cycle_log\<close> of an
  event log that is cut into cycles, and its instance: an event recorded before a cycle is closed
  is in the backlog of every destination that is brought to that cycle; the rule by which
  destinations are targeted; and pruning, with the one case in which it drops events that a
  destination has not seen.
\<close>

section \<open>Pruning after a pass\<close>

fun min_verified :: "string \<Rightarrow> db \<Rightarrow> DestinationConfig list \<Rightarrow> nat option \<Rightarrow> nat option option" where
  "min_verified s db [] m = Some m"
| "min_verified s db (d # ds) m =
     (case destination_last_verified (s, dst_id d) db of
        None \<Rightarrow> None
      | Some v \<Rightarrow> min_verified s db ds (Some (case m of None \<Rightarrow> v | Some n \<Rightarrow> min n v)))"

text \<open>The early return of the loop is \<open>None\<close>; without an enabled destination there is no
  minimum, and nothing is pruned either.\<close>

definition prune_verified_cycle_events :: "SourceGroupConfig \<Rightarrow> db \<Rightarrow> db" where
  "prune_verified_cycle_events s db =
     (case min_verified (src_id s) db (filter dst_enabled (destinations s)) None of
        None \<Rightarrow> db
      | Some None \<Rightarrow> db
      | Some (Some keep_from) \<Rightarrow> snd (prune_event_log (src_id s) keep_from db))"

lemma min_verified_spec:
  "min_verified s db ds m = Some r \<Longrightarrow>
     (\<forall>d\<in>set ds. \<exists>v. destination_last_verified (s, dst_id d) db = Some v \<and> (\<exists>k. r = Some k \<and> k \<le> v))
     \<and> (\<forall>n. m = Some n \<longrightarrow> (\<exists>k. r = Some k \<and> k \<le> n))"
  by (induction s db ds m rule: min_verified.induct) (fastforce split: option.splits)+

lemma prune_verified_events:
  assumes "e \<in> set (events db)"
    and "e \<notin> set (events (prune_verified_cycle_events s db))"
  shows "ev_source e = src_id s \<and> (\<forall>d\<in>set (destinations s). dst_enabled d \<longrightarrow>
    (\<exists>v. destination_last_verified (src_id s, dst_id d) db = Some v \<and> ev_cycle e < v))"
proof -
  obtain keep where k: "min_verified (src_id s) db (filter dst_enabled (destinations s)) None = Some (Some keep)"
    using assms by (auto simp: prune_verified_cycle_events_def split: option.splits)
  then have "prunable (src_id s) keep e"
    using assms by (simp add: prune_verified_cycle_events_def prune_event_log_eq)
  then show ?thesis
    using min_verified_spec [OF k] by (fastforce simp: prunable_def)
qed

lemma prune_verified_ok: "db_ok db \<Longrightarrow> db_ok (prune_verified_cycle_events s db)"
  by (auto simp: prune_verified_cycle_events_def prune_event_log_ok split: option.split)

section \<open>The remaining operations keep the invariant\<close>

lemma advance_sources_ok:
  "db_ok db \<Longrightarrow> advance_sources cal now ss closed db = Some (r, db') \<Longrightarrow> db_ok db'"
proof (induction ss arbitrary: closed db)
  case (Cons s ss)
  obtain x db1 where a: "advance_source cal now s db = Some (x, db1)"
    using Cons.prems(2) by (auto split: option.splits)
  have "db_ok db1" by (rule advance_source_ok [OF Cons.prems(1) a])
  with Cons.IH Cons.prems(2) a show ?case by (auto split: option.splits)
qed simp

lemma prepared_ok: "db_ok db \<Longrightarrow> db_ok (ensure_open_cycles cfg now (ensure_config cfg now db))"
  by (simp add: ensure_config_ok ensure_open_cycles_ok)

lemma advance_due_ok:
  "db_ok db \<Longrightarrow> advance_due_destination_targets cal cfg now db = Some (r, db') \<Longrightarrow> db_ok db'"
  unfolding advance_due_destination_targets_def by (meson advance_sources_ok prepared_ok)

lemma force_fold_ok:
  "db_ok db \<Longrightarrow> db_ok (snd (fold (\<lambda>s (closed, db). case force_target_one now s db of
         (None, db) \<Rightarrow> (closed, db) | (Some c, db) \<Rightarrow> (closed @ [c], db)) ss (closed, db)))"
proof (induction ss arbitrary: closed db)
  case (Cons s ss)
  then show ?case
    using force_target_one_ok [OF Cons.prems, of now s]
    by (cases "force_target_one now s db") (auto split: option.splits)
qed simp

lemma force_target_all_ok: "db_ok db \<Longrightarrow> db_ok (snd (force_target_all_destinations cfg now db))"
  unfolding force_target_all_destinations_def by (intro force_fold_ok prepared_ok)

lemma force_target_source_ok: "db_ok db \<Longrightarrow> db_ok (snd (force_target_source cfg s now db))"
  by (auto simp: force_target_source_def Let_def intro: force_target_one_ok prepared_ok split: option.split)

lemma force_target_destination_ok:
  "db_ok db \<Longrightarrow> db_ok (snd (force_target_destination cfg s d now db))"
proof -
  assume "db_ok db"
  then have ok: "db_ok (ensure_open_cycles cfg now (ensure_config cfg now db))" (is "db_ok ?db")
    by (rule prepared_ok)
  obtain x db1 where cl: "close_current_cycle_for_source s now ?db = (x, db1)" by fastforce
  have ok1: "db_ok db1" using close_ok [OF ok, of s now] cl by simp
  have "db_ok (set_destination_target (s, d) (cyc_id c) now db1)" if "x = Some c" for c
    using close_current_cycle_ok(5) [OF ok cl [unfolded that]] ok1
    by (intro set_destination_target_ok)
  with ok ok1 cl show ?thesis
    by (auto simp: force_target_destination_def Let_def split: option.split)
qed

lemma close_due_source_ok: "db_ok (snd p) \<Longrightarrow> db_ok (snd (close_due_source now force s p))"
proof -
  assume "db_ok (snd p)"
  moreover obtain closed db where p: "p = (closed, db)" by fastforce
  ultimately have ok: "db_ok db" by simp
  let ?u = "\<lambda>c :: Cycle. update_cycles (\<lambda>r. cyc_id r = cyc_id c \<and> is_open r)
      (\<lambda>r. r\<lparr>cyc_status := ''closed'', ends_at := Some now\<rparr>) db"
  have "db_ok (?u c)" for c by (rule update_cycles_ok [OF ok]) (simp add: is_open_def)
  then show ?thesis
    using ok by (auto simp: close_due_source_def p Let_def ensure_open_ok split: option.split)
qed

lemma close_due_cycles_ok: "db_ok db \<Longrightarrow> db_ok (snd (close_due_cycles cfg force now db))"
proof -
  have f: "db_ok (snd p) \<Longrightarrow> db_ok (snd (fold (close_due_source now force) ss p))" for ss p
    by (induction ss arbitrary: p) (simp_all add: close_due_source_ok)
  assume "db_ok db"
  then show ?thesis by (simp add: close_due_cycles_def Let_def f prepared_ok)
qed

lemma delete_offsets_ok:
  "db_ok db \<Longrightarrow> db_ok (db\<lparr>offsets := fold (\<lambda>(k, _). AList.delete k) gone (offsets db)\<rparr>)"
proof -
  assume ok: "db_ok db"
  have sub: "map_of (fold (\<lambda>(k, _). AList.delete k) gone t) k = Some r \<Longrightarrow> map_of t k = Some r"
    for t :: "(destination_key \<times> offset_row) list" and k r
  proof (induction gone arbitrary: t)
    case (Cons g gone)
    obtain k' r' where g: "g = (k', r')" by fastforce
    have "map_of (AList.delete k' t) k = Some r" using Cons.IH Cons.prems by (simp add: g)
    then show ?case by (simp add: tbl_simps split: if_splits)
  qed simp
  let ?db = "db\<lparr>offsets := fold (\<lambda>(k, _). AList.delete k) gone (offsets db)\<rparr>"
  have b: "offset_below ?db k v = offset_below db k v" for k v by (simp add: offset_below_def)
  have "offsets_ok ?db"
    unfolding offsets_ok_def b
  proof (intro allI impI)
    fix k r assume "map_of (offsets ?db) k = Some r"
    then have "map_of (fold (\<lambda>(k, _). AList.delete k) gone (offsets db)) k = Some r" by simp
    then have "map_of (offsets db) k = Some r" by (rule sub)
    then show "offset_below db k (target_cycle r) \<and> offset_below db k (last_completed r) \<and>
        offset_below db k (last_verified r)"
      using ok unfolding db_ok_def offsets_ok_def by blast
  qed
  moreover have "cycles_ok ?db = cycles_ok db" "events_ok ?db = events_ok db"
    by (simp_all add: cycles_ok_def events_ok_def)
  ultimately show ?thesis using ok by (simp add: db_ok_def)
qed

lemma prune_removed_ok: "db_ok db \<Longrightarrow> db_ok (snd (prune_removed_destination_offsets cfg db))"
  by (simp add: prune_removed_destination_offsets_def Let_def delete_offsets_ok)

text \<open>A cycle of the source that is not open lies below its open cycle.\<close>

lemma not_open_below:
  assumes "db_ok db" and "c \<in> set (cycles db)" and "\<not> is_open c"
  shows "offset_below db (cyc_source c, d) (Some (cyc_id c))"
proof -
  have ok: "cycles_ok db" using assms(1) by (simp add: db_ok_def)
  have "cyc_id c < cyc_id x" if "x \<in> set (cycles db)" "is_open x" "cyc_source x = cyc_source c" for x
  proof -
    have "cyc_id c \<le> cyc_id x" using ok that assms(2) unfolding cycles_ok_def by auto
    moreover have "cyc_id c \<noteq> cyc_id x"
      using sorted_ids_inj [of cyc_id "cycles db" c x] ok that assms(2,3) unfolding cycles_ok_def by blast
    ultimately show ?thesis by simp
  qed
  moreover have "cyc_id c \<le> cycle_seq db" using ok assms(2) unfolding cycles_ok_def by blast
  ultimately show ?thesis by (auto simp: offset_below_def)
qed

section \<open>The log is ordered\<close>

text \<open>Along the log, the events of one source belong to later and later cycles.\<close>

definition log_ordered :: "db \<Rightarrow> bool" where
  "log_ordered db \<longleftrightarrow> (\<forall>s. sorted (map ev_cycle (filter (\<lambda>e. ev_source e = s) (events db))))"

lemma log_ordered_events: "events db' = events db \<Longrightarrow> log_ordered db' = log_ordered db"
  by (simp add: log_ordered_def)

definition open_id :: "string \<Rightarrow> nat \<Rightarrow> db \<Rightarrow> bool" where
  "open_id s i db \<longleftrightarrow> (\<exists>c\<in>set (cycles db). cyc_source c = s \<and> is_open c \<and> cyc_id c = i)"

lemma open_id_mono: "open_id s i db \<Longrightarrow> set (cycles db) \<subseteq> set (cycles db') \<Longrightarrow> open_id s i db'"
  by (auto simp: open_id_def)

lemma open_id_insert [simp]: "open_id s i (insert_event j now e db) = open_id s i db"
  by (simp add: open_id_def insert_event_def)

lemma event_below_open:
  assumes "db_ok db" and "open_id s i db" and "e \<in> set (events db)" and "ev_source e = s"
  shows "ev_cycle e \<le> i"
  using assms unfolding db_ok_def events_ok_def cycles_ok_def open_id_def by metis

lemma insert_event_ordered:
  assumes "db_ok db" and "log_ordered db" and "open_id (we_source e) i db"
  shows "log_ordered (insert_event i now e db)"
  using assms event_below_open [OF assms(1,3)]
  by (auto simp: log_ordered_def insert_event_def sorted_append)

lemma insert_event_open_ok:
  "db_ok db \<Longrightarrow> open_id (we_source e) i db \<Longrightarrow> db_ok (insert_event i now e db)"
  by (rule insert_event_ok) (auto simp: open_id_def)

lemma ensure_open_cycle_open:
  assumes "db_ok db"
  obtains i db' where "ensure_open_cycle s now db = (Some i, db')" "db_ok db'" "open_id s i db'"
    "events db' = events db" "event_seq db' = event_seq db" "offsets db' = offsets db"
    "set (cycles db) \<subseteq> set (cycles db')"
  using assms
proof (rule ensure_open_cycle_ok [where s = s and now = now])
  fix i db'
  assume "ensure_open_cycle s now db = (Some i, db')" "db_ok db'"
    "\<exists>c\<in>set (cycles db'). cyc_source c = s \<and> is_open c \<and> cyc_id c = i"
    "events db' = events db" "event_seq db' = event_seq db" "offsets db' = offsets db"
    "set (cycles db) \<subseteq> set (cycles db')"
  then show thesis by (intro that) (simp_all add: open_id_def)
qed

subsection \<open>The operations that leave the log alone\<close>

lemma events_simps [simp]:
  "events (update_cycles P f db) = events db"
  "events (mark_local_change s db) = events db"
  "events (snd (ensure_open_cycle s now db)) = events db"
  "events (touch_source_meta s now db) = events db"
  "events (upsert_offset k fresh change db) = events db"
  "events (update_offset k change db) = events db"
  "events (clear_destination_issues k db) = events db"
  by (simp_all add: update_cycles_def mark_local_change_def ensure_open_cycle_def Let_def
      touch_source_meta_def upsert_offset_def update_offset_def clear_destination_issues_def
      split: option.split)

lemma events_marks [simp]:
  "events (mark_cycle_status i status db) = events db"
  "events (mark_cycle_needs_rescan i db) = events db"
  "events (mark_cycle_manual_full_rescan i db) = events db"
  "events (mark_cycle_manual_incremental i db) = events db"
  "events (clear_cycle_needs_rescan i db) = events db"
  by (simp_all add: mark_cycle_status_def mark_cycle_needs_rescan_def mark_cycle_manual_full_rescan_def
      mark_cycle_manual_incremental_def clear_cycle_needs_rescan_def)

lemma events_offsets [simp]:
  "events (ensure_destination_offset k now db) = events db"
  "events (upsert_destination_status k v status reason now db) = events db"
  "events (set_destination_target k t now db) = events db"
  "events (clear_destination_target k reason now db) = events db"
  "events (reset_destination_offset k reason now db) = events db"
  "events (set_destination_verified_snapshot k name now db) = events db"
  "events (set_destination_verified_dst_snapshot k name now db) = events db"
  "events (snd (prune_removed_destination_offsets cfg db)) = events db"
  by (simp_all add: ensure_destination_offset_def upsert_destination_status_def
      set_destination_target_def clear_destination_target_def reset_destination_offset_def
      set_destination_verified_snapshot_def set_destination_verified_dst_snapshot_def
      prune_removed_destination_offsets_def Let_def)

lemma fold_same: "(\<And>x db. g (f x db) = g db) \<Longrightarrow> g (fold f xs db) = g db"
  by (induction xs arbitrary: db) simp_all

lemma events_mark_open [simp]: "events (mark_open_cycle_needs_rescan s now db) = events db"
proof -
  have "events (snd (ensure_open_cycle s now db)) = events db" by simp
  then show ?thesis
    by (cases "ensure_open_cycle s now db")
      (auto simp: mark_open_cycle_needs_rescan_def split: option.split)
qed

lemma events_close [simp]: "events (snd (close_current_cycle_for_source s now db)) = events db"
  by (simp add: close_current_cycle_for_source_def Let_def split: option.split)

lemma events_prepare [simp]:
  "events (ensure_open_cycles cfg now db) = events db"
  "events (ensure_config cfg now db) = events db"
proof -
  show "events (ensure_open_cycles cfg now db) = events db"
    unfolding ensure_open_cycles_def by (rule fold_same) simp
  have "events (upsert_config_source now s db) = events db" for s db
    unfolding upsert_config_source_def Let_def by (subst fold_same) simp_all
  then have "events (fold (upsert_config_source now) ss db) = events db" for ss db
    by (rule fold_same)
  then show "events (ensure_config cfg now db) = events db" by (simp add: ensure_config_def Let_def)
qed

lemma events_force_one [simp]: "events (snd (force_target_one now s db)) = events db"
proof -
  have "events (target_drivable s i now db) = events db" for i db
    unfolding target_drivable_def by (rule fold_same) simp
  moreover have "events (snd (close_current_cycle_for_source (src_id s) now db)) = events db" by simp
  ultimately show ?thesis
    by (cases "close_current_cycle_for_source (src_id s) now db")
      (auto simp: force_target_one_def split: option.split)
qed

lemma events_force_fold:
  "events (snd (fold (\<lambda>s (closed, db). case force_target_one now s db of
         (None, db) \<Rightarrow> (closed, db) | (Some c, db) \<Rightarrow> (closed @ [c], db)) ss p)) = events (snd p)"
proof (induction ss arbitrary: p)
  case (Cons s ss)
  obtain closed db where p: "p = (closed, db)" by fastforce
  have "events (snd (force_target_one now s db)) = events db" by simp
  with Cons show ?case
    by (cases "force_target_one now s db") (auto simp: p split: option.split)
qed simp

lemma events_targets [simp]:
  "events (snd (force_target_all_destinations cfg now db)) = events db"
  "events (snd (force_target_source cfg s now db)) = events db"
  "events (snd (force_target_destination cfg s d now db)) = events db"
  "events (snd (close_due_cycles cfg force now db)) = events db"
proof -
  show "events (snd (force_target_all_destinations cfg now db)) = events db"
    by (simp add: force_target_all_destinations_def events_force_fold)
  show "events (snd (force_target_source cfg s now db)) = events db"
    by (simp add: force_target_source_def Let_def split: option.split)
  let ?db = "ensure_open_cycles cfg now (ensure_config cfg now db)"
  have "events (snd (close_current_cycle_for_source s now ?db)) = events db" by simp
  then show "events (snd (force_target_destination cfg s d now db)) = events db"
    by (cases "close_current_cycle_for_source s now ?db")
      (auto simp: force_target_destination_def Let_def split: option.split)
  have c: "events (snd (close_due_source now force x p)) = events (snd p)" for x p
    by (cases p) (simp add: close_due_source_def Let_def split: option.split)
  have "events (snd (fold (close_due_source now force) ss p)) = events (snd p)" for ss p
    by (induction ss arbitrary: p) (simp_all add: c)
  then show "events (snd (close_due_cycles cfg force now db)) = events db"
    by (simp add: close_due_cycles_def Let_def)
qed

lemma events_advance_source:
  assumes "advance_source cal now s db = Some (r, db')"
  shows "events db' = events db"
proof -
  have f: "events (fold (\<lambda>i. set_destination_target (src_id s, i) c now) ids x) = events x" for c ids x
    by (rule fold_same) simp
  obtain x db1 where cl: "close_current_cycle_for_source (src_id s) now db = (x, db1)" by fastforce
  have "events db1 = events db" using events_close [of "src_id s" now db] cl by simp
  then show ?thesis
    using assms by (auto simp: advance_source_def Let_def cl f split: option.splits list.splits if_splits)
qed

lemma events_advance:
  "advance_sources cal now ss closed db = Some (r, db') \<Longrightarrow> events db' = events db"
proof (induction ss arbitrary: closed db)
  case (Cons s ss)
  obtain x db1 where a: "advance_source cal now s db = Some (x, db1)"
    using Cons.prems by (auto split: option.splits)
  with Cons events_advance_source [OF a] show ?case by (auto split: option.splits)
qed simp

subsection \<open>Recording\<close>

lemma record_event_effect:
  assumes "db_ok db"
  obtains i db1 where "ensure_open_cycle (we_source e) now db = (Some i, db1)" "db_ok db1"
    "open_id (we_source e) i db1" "events db1 = events db" "offsets db1 = offsets db"
    "fst (record_event now e db) = Some (event_seq db + 1)"
    "events (snd (record_event now e db)) = events (insert_event i now e db1)"
proof -
  from assms obtain i db1 where r: "ensure_open_cycle (we_source e) now db = (Some i, db1)" "db_ok db1"
    "open_id (we_source e) i db1" "events db1 = events db" "event_seq db1 = event_seq db"
    "offsets db1 = offsets db"
    by (rule ensure_open_cycle_open [where s = "we_source e" and now = now])
  show ?thesis
    by (rule that [OF r(1-4,6)]) (simp_all add: record_event_def r Let_def insert_event_def)
qed

lemma record_event_appends:
  assumes "db_ok db"
  shows "\<exists>new. events (snd (record_event now e db)) = events db @ new"
proof -
  from assms obtain i db1 where "events db1 = events db"
    "events (snd (record_event now e db)) = events (insert_event i now e db1)"
    by (rule record_event_effect [where e = e and now = now])
  then show ?thesis by (simp add: insert_event_def)
qed

lemma record_event_ordered:
  assumes "db_ok db" and "log_ordered db"
  shows "log_ordered (snd (record_event now e db))"
proof -
  from assms(1) obtain i db1 where r: "db_ok db1" "open_id (we_source e) i db1" "events db1 = events db"
    "events (snd (record_event now e db)) = events (insert_event i now e db1)"
    by (rule record_event_effect [where e = e and now = now])
  have "log_ordered db1" using assms(2) log_ordered_events [OF r(3)] by simp
  then have "log_ordered (insert_event i now e db1)" by (rule insert_event_ordered [OF r(1) _ r(2)])
  then show ?thesis using log_ordered_events [OF r(4)] by simp
qed

lemma batch_insert_ordered:
  assumes "batch_insert now es cycs rescans db = Some (cycs', rescans', db')"
    and "db_ok db" and "log_ordered db" and "\<And>s i. map_of cycs s = Some i \<Longrightarrow> open_id s i db"
  shows "log_ordered db' \<and> (\<exists>new. events db' = events db @ new)"
  using assms
proof (induction now es cycs rescans db rule: batch_insert.induct)
  case (2 now e es cycs rescans db)
  have step: "log_ordered db' \<and> (\<exists>new. events db' = events db @ new)"
    if "db_ok db1" "open_id (we_source e) i db1" "events db1 = events db"
      and "log_ordered (insert_event i now e db1) \<Longrightarrow> db_ok (insert_event i now e db1) \<Longrightarrow>
        log_ordered db' \<and> (\<exists>new. events db' = events (insert_event i now e db1) @ new)" for i db1
  proof -
    have "log_ordered db1" using 2(5) log_ordered_events [OF that(3)] by simp
    then have "log_ordered (insert_event i now e db1)" by (rule insert_event_ordered [OF that(1) _ that(2)])
    moreover have "db_ok (insert_event i now e db1)" using that(1,2) by (rule insert_event_open_ok)
    ultimately have "log_ordered db' \<and> (\<exists>new. events db' = events (insert_event i now e db1) @ new)"
      by (intro that(4))
    then show ?thesis using that(3) by (auto simp: insert_event_def)
  qed
  show ?case
  proof (cases "map_of cycs (we_source e)")
    case None
    from 2(4) obtain i db1 where r: "ensure_open_cycle (we_source e) now db = (Some i, db1)" "db_ok db1"
      "open_id (we_source e) i db1" "events db1 = events db" "set (cycles db) \<subseteq> set (cycles db1)"
      by (rule ensure_open_cycle_open [where s = "we_source e" and now = now])
    have m: "open_id s j (insert_event i now e db1)"
      if "map_of ((we_source e, i) # cycs) s = Some j" for s j
      using that r(3) open_id_mono [OF _ r(5)] 2(6) [of s j] by (auto split: if_splits)
    show ?thesis
      by (rule step [OF r(2,3,4)], rule "2.IH"(1) [OF refl None r(1) [symmetric] refl _ _ _ m])
        (use 2(3) None r(1) in \<open>simp_all add: Let_def\<close>)
  next
    case (Some i)
    show ?thesis
      by (rule step [OF 2(4) 2(6) [OF Some] refl], rule "2.IH"(2) [OF refl Some])
        (use 2(3,6) Some in \<open>simp_all add: Let_def\<close>)
  qed
qed simp

lemma events_fold_marks:
  "events (fold (\<lambda>s. touch_source_meta s now) ss db) = events db"
  "events (fold (\<lambda>s. mark_open_cycle_needs_rescan s now) ss db) = events db"
  by (rule fold_same, simp)+

lemma record_events_batch_log:
  assumes "db_ok db" and "log_ordered db"
  shows "log_ordered (record_events_batch now es db) \<and>
    (\<exists>new. events (record_events_batch now es db) = events db @ new)"
proof (cases "batch_insert now es [] [] db")
  case None
  then show ?thesis using assms by (simp add: record_events_batch_def)
next
  case (Some r)
  obtain cycs rescans db1 where r: "r = (cycs, rescans, db1)" by (cases r)
  have b: "log_ordered db1 \<and> (\<exists>new. events db1 = events db @ new)"
    using batch_insert_ordered [OF Some [unfolded r] assms] by simp
  show ?thesis
  proof (cases "es = []")
    case True
    then show ?thesis using assms by (simp add: record_events_batch_def)
  next
    case False
    then have "events (record_events_batch now es db) = events db1"
      by (simp add: record_events_batch_def Some r Let_def events_fold_marks)
    with b show ?thesis using log_ordered_events by metis
  qed
qed

section \<open>Steps of the database\<close>

text \<open>A cycle that may be reported as reached: one of the source that is no longer open.\<close>

definition settled :: "destination_key \<Rightarrow> nat option \<Rightarrow> db \<Rightarrow> bool" where
  "settled k v db \<longleftrightarrow> (case v of None \<Rightarrow> True
     | Some i \<Rightarrow> list_ex (\<lambda>c. cyc_id c = i \<and> cyc_source c = fst k \<and> \<not> is_open c) (cycles db))"

lemma settled_below: "db_ok db \<Longrightarrow> settled k v db \<Longrightarrow> offset_below db k v"
  using not_open_below [of db _ "snd k"]
  by (cases k) (fastforce simp: settled_def list_ex_iff split: option.splits)

text \<open>An operation on the other tables (issues, reports, tasks, notices) leaves the log's tables alone.\<close>

definition same_log :: "db \<Rightarrow> db \<Rightarrow> bool" where
  "same_log db db' \<longleftrightarrow> cycles db' = cycles db \<and> cycle_seq db' = cycle_seq db \<and> events db' = events db \<and>
     event_seq db' = event_seq db \<and> offsets db' = offsets db"

lemma same_log_ok: "same_log db db' \<Longrightarrow> db_ok db' = db_ok db"
  unfolding same_log_def by (elim conjE) (rule db_ok_fields)

text \<open>Pruning stands apart: it is the only step that removes an event.\<close>

inductive log_step :: "calendar \<Rightarrow> db \<Rightarrow> db \<Rightarrow> bool" for cal where
  config: "log_step cal db (ensure_config cfg now db)"
| open_all: "log_step cal db (ensure_open_cycles cfg now db)"
| close_due: "log_step cal db (snd (close_due_cycles cfg force now db))"
| advance: "advance_due_destination_targets cal cfg now db = Some (closed, db') \<Longrightarrow> log_step cal db db'"
| force_all: "log_step cal db (snd (force_target_all_destinations cfg now db))"
| force_source: "log_step cal db (snd (force_target_source cfg s now db))"
| force_destination: "log_step cal db (snd (force_target_destination cfg s d now db))"
| close: "log_step cal db (snd (close_current_cycle_for_source s now db))"
| event: "log_step cal db (snd (record_event now e db))"
| batch: "log_step cal db (record_events_batch now es db)"
| prune_removed: "log_step cal db (snd (prune_removed_destination_offsets cfg db))"
| outcome: "settled k v db \<Longrightarrow> log_step cal db (upsert_destination_status k v status reason now db)"
| target: "settled k (Some t) db \<Longrightarrow> log_step cal db (set_destination_target k t now db)"
| clear_target: "log_step cal db (clear_destination_target k reason now db)"
| reset: "log_step cal db (reset_destination_offset k reason now db)"
| snapshot: "log_step cal db (set_destination_verified_snapshot k name now db)"
| dst_snapshot: "log_step cal db (set_destination_verified_dst_snapshot k name now db)"
| status: "status \<noteq> ''open'' \<Longrightarrow> log_step cal db (mark_cycle_status i status db)"
| rescan: "log_step cal db (mark_cycle_needs_rescan i db)"
| manual_full: "log_step cal db (mark_cycle_manual_full_rescan i db)"
| manual_incremental: "log_step cal db (mark_cycle_manual_incremental i db)"
| clear_rescan: "log_step cal db (clear_cycle_needs_rescan i db)"
| rescan_open: "log_step cal db (mark_open_cycle_needs_rescan s now db)"
| view: "same_log db db' \<Longrightarrow> log_step cal db db'"

inductive store_reachable :: "calendar \<Rightarrow> db \<Rightarrow> bool" for cal where
  start: "store_reachable cal empty_db"
| step: "store_reachable cal db \<Longrightarrow> log_step cal db db' \<Longrightarrow> store_reachable cal db'"
| prune: "store_reachable cal db \<Longrightarrow> store_reachable cal (prune_verified_cycle_events s db)"

lemma log_step_ok: "log_step cal db db' \<Longrightarrow> db_ok db \<Longrightarrow> db_ok db'"
  by (induction rule: log_step.induct)
    (simp_all add: ensure_config_ok ensure_open_cycles_ok close_due_cycles_ok force_target_all_ok
      force_target_source_ok force_target_destination_ok close_ok record_event_ok
      record_events_batch_ok prune_removed_ok settled_below upsert_destination_status_ok
      set_destination_target_ok clear_destination_target_ok reset_destination_offset_ok
      set_snapshot_names_ok mark_cycle_status_ok mark_cycle_flags_ok mark_open_cycle_needs_rescan_ok
      advance_due_ok same_log_ok)

lemma events_advance_due:
  "advance_due_destination_targets cal cfg now db = Some (r, db') \<Longrightarrow> events db' = events db"
  unfolding advance_due_destination_targets_def by (drule events_advance) simp

lemma log_step_events:
  assumes "log_step cal db db'" and "db_ok db" and "log_ordered db"
  shows "log_ordered db' \<and> (\<exists>new. events db' = events db @ new)"
proof -
  have same: "log_ordered db2 \<and> (\<exists>new. events db2 = events db @ new)" if "events db2 = events db" for db2
    using log_ordered_events [OF that] assms(3) that by simp
  from assms(1) show ?thesis
  proof cases
    case (event now e)
    then show ?thesis
      using record_event_ordered [OF assms(2,3), of now e] record_event_appends [OF assms(2), of now e]
      by simp
  next
    case (batch now es)
    then show ?thesis using record_events_batch_log [OF assms(2,3), of now es] by simp
  next
    case (advance cfg now closed)
    then show ?thesis by (intro same events_advance_due)
  next
    case view
    then show ?thesis by (intro same) (simp add: same_log_def)
  qed (rule same, simp)+
qed

lemma prune_ordered: "log_ordered db \<Longrightarrow> log_ordered (prune_verified_cycle_events s db)"
proof -
  assume o: "log_ordered db"
  have swap: "filter Q (filter P xs) = filter P (filter Q xs)" for P Q and xs :: "event_row list"
    by (simp add: conj_commute)
  have "log_ordered (db\<lparr>events := filter P (events db)\<rparr>)" for P
    using o by (simp add: log_ordered_def swap [of _ P] sorted_filter del: filter_filter)
  with o show ?thesis
    by (simp add: prune_verified_cycle_events_def prune_event_log_eq split: option.split)
qed

lemma reachable_ok: "store_reachable cal db \<Longrightarrow> db_ok db \<and> log_ordered db"
proof (induction rule: store_reachable.induct)
  case start
  then show ?case
    by (simp add: empty_db_def db_ok_def cycles_ok_def offsets_ok_def events_ok_def log_ordered_def)
next
  case (step db db')
  then show ?case using log_step_ok log_step_events by blast
next
  case (prune db s)
  then show ?case by (simp add: prune_verified_ok prune_ordered)
qed


abbreviation touched :: WatcherEvent where
  "touched \<equiv> \<lparr>we_source = ''s'', we_mask = 0, we_kind = ''modify'', we_path = Some ''a'', we_rescan = False\<rparr>"


text \<open>What pruning after a pass does, exactly: it removes the events of the source in the
  cycles that every enabled destination has verified past, and nothing at all while there is an
  enabled destination that has never verified, or no enabled destination.\<close>

theorem prune_exact:
  "events (prune_verified_cycle_events s db) = filter (\<lambda>e. \<not> (ev_source e = src_id s \<and>
     (\<exists>d\<in>set (destinations s). dst_enabled d) \<and>
     (\<forall>d\<in>set (destinations s). dst_enabled d \<longrightarrow>
        (\<exists>v. destination_last_verified (src_id s, dst_id d) db = Some v \<and> ev_cycle e < v)))) (events db)"
proof -
  let ?ds = "filter dst_enabled (destinations s)"
  let ?v = "\<lambda>d. destination_last_verified (src_id s, dst_id d) db"
  have spec: "(case min_verified (src_id s) db ds m of None \<Rightarrow> \<exists>d\<in>set ds. ?v d = None
      | Some None \<Rightarrow> ds = [] \<and> m = None
      | Some (Some k) \<Rightarrow> (ds \<noteq> [] \<or> m \<noteq> None) \<and>
          (\<forall>c. c < k \<longleftrightarrow> (\<forall>d\<in>set ds. \<exists>v. ?v d = Some v \<and> c < v) \<and> (\<forall>n. m = Some n \<longrightarrow> c < n)))" for ds m
    by (induction "src_id s" db ds m rule: min_verified.induct)
      (auto split: option.splits)
  show ?thesis
    using spec [of ?ds None]
    by (auto simp: prune_verified_cycle_events_def prune_event_log_eq prunable_def
        filter_empty_conv intro!: filter_cong filter_True [symmetric] split: option.splits)
qed

text \<open>C1: no event is lost. Every step of the database keeps every recorded event, and pruning
  removes one only when every enabled destination of its source has verified a later cycle.\<close>

theorem events_kept:
  assumes "store_reachable cal db" and "e \<in> set (events db)"
  shows "(\<forall>db'. log_step cal db db' \<longrightarrow> e \<in> set (events db')) \<and>
    (\<forall>s. e \<in> set (events (prune_verified_cycle_events s db)) \<or>
      (ev_source e = src_id s \<and> (\<forall>d\<in>set (destinations s). dst_enabled d \<longrightarrow>
        (\<exists>v. destination_last_verified (src_id s, dst_id d) db = Some v \<and> ev_cycle e < v))))"
proof -
  have "e \<in> set (events db')" if "log_step cal db db'" for db'
    using log_step_events [OF that] reachable_ok [OF assms(1)] assms(2) by auto
  with prune_verified_events [OF assms(2)] show ?thesis by blast
qed

lemma events_kept_witness:
  "\<lparr>ev_id = 1, ev_source = ''s'', ev_cycle = 1, observed_at = 0, raw_mask = 0, ev_kind = ''modify'',
     ev_path = Some ''a'', ev_rescan = False\<rparr>
   \<in> set (events (mark_cycle_status 1 ''failed'' (snd (record_event 0 touched empty_db))))"
proof -
  let ?db = "snd (record_event 0 touched empty_db)"
  let ?e = "\<lparr>ev_id = 1, ev_source = ''s'', ev_cycle = 1, observed_at = 0, raw_mask = 0,
      ev_kind = ''modify'', ev_path = Some ''a'', ev_rescan = False\<rparr>"
  have r: "store_reachable utc ?db"
    by (rule store_reachable.step [OF store_reachable.start log_step.event])
  have "?e \<in> set (events ?db)"
    by (simp add: record_event_def ensure_open_cycle_def current_open_cycle_id_def newest_def
        empty_db_def insert_event_def touch_source_meta_def is_open_def Let_def)
  moreover have "log_step utc ?db (mark_cycle_status 1 ''failed'' ?db)"
    by (rule log_step.status) simp
  ultimately show ?thesis using events_kept [OF r] by blast
qed

lemma sort_key_sorted: "sorted (map f xs) \<Longrightarrow> sort_key f xs = xs"
  by (rule sort_key_id_if_sorted)

lemma strict_sorted_map: "sorted_wrt (<) (map f xs) \<Longrightarrow> sorted (map (f :: _ \<Rightarrow> nat) xs)"
  by (simp add: strict_sorted_imp_sorted)

lemma events_between_eq:
  assumes "db_ok db"
  shows "events_between_cycles s v t db = map cycle_event_of
     (filter (\<lambda>e. ev_source e = s \<and> v < ev_cycle e \<and> ev_cycle e \<le> t) (events db))"
proof -
  have "sorted (map ev_id (events db))"
    using assms by (intro strict_sorted_map) (simp add: db_ok_def events_ok_def)
  then show ?thesis
    by (simp add: events_between_cycles_def sort_key_sorted sorted_filter)
qed

lemma filter_sorted_split:
  "sorted (map f xs) \<Longrightarrow> v \<le> t \<Longrightarrow> t \<le> u \<Longrightarrow>
     filter (\<lambda>x. v < f x \<and> f x \<le> u) xs =
     filter (\<lambda>x. v < f x \<and> f x \<le> t) xs @ filter (\<lambda>x. t < f x \<and> f x \<le> (u :: nat)) xs"
proof (induction xs)
  case (Cons x xs)
  show ?case
  proof (cases "f x \<le> t")
    case True
    with Cons show ?thesis by auto
  next
    case False
    then have "filter (\<lambda>y. v < f y \<and> f y \<le> t) (x # xs) = []"
      using Cons.prems by (fastforce simp: filter_empty_conv)
    moreover have "filter (\<lambda>y. v < f y \<and> f y \<le> u) (x # xs) = filter (\<lambda>y. t < f y \<and> f y \<le> u) (x # xs)"
      using False Cons.prems by (intro filter_cong) fastforce+
    ultimately show ?thesis by simp
  qed
qed simp

text \<open>Bringing a destination from one verified cycle to a later one in several passes hands it
  the same events in the same order as doing it in one pass.\<close>

theorem backlog_splits:
  assumes "store_reachable cal db" and "v \<le> t" and "t \<le> u"
  shows "events_between_cycles s v u db =
    events_between_cycles s v t db @ events_between_cycles s t u db"
proof -
  have ok: "db_ok db" and o: "log_ordered db" using reachable_ok [OF assms(1)] by simp_all
  let ?xs = "filter (\<lambda>e. ev_source e = s) (events db)"
  have f: "filter (\<lambda>e. ev_source e = s \<and> a < ev_cycle e \<and> ev_cycle e \<le> b) (events db) =
      filter (\<lambda>e. a < ev_cycle e \<and> ev_cycle e \<le> b) ?xs" for a b
    by (simp add: conj_commute conj_assoc)
  have "sorted (map ev_cycle ?xs)" using o by (simp add: log_ordered_def)
  from filter_sorted_split [OF this assms(2,3)] show ?thesis
    unfolding events_between_eq [OF ok] f by simp
qed

lemma backlog_splits_witness:
  "events_between_cycles ''s'' 0 2 (snd (record_event 0 touched empty_db)) =
   events_between_cycles ''s'' 0 1 (snd (record_event 0 touched empty_db)) @
   events_between_cycles ''s'' 1 2 (snd (record_event 0 touched empty_db))"
  by (rule backlog_splits [OF store_reachable.step [OF store_reachable.start log_step.event [of utc]]])
    simp_all

section \<open>The interface of the event log\<close>

text \<open>
  What a reader of the log relies on. \<open>behind s v d\<close> says that the mark \<open>v\<close> of a reader of the
  source \<open>s\<close> lies below its open cycle. Recording and closing keep the marks behind and keep the
  backlog above them; a record is in the backlog of the cycle that the next close returns.
\<close>

locale cycle_log =
  fixes good :: "'d \<Rightarrow> bool"
    and put :: "'e \<Rightarrow> 'd \<Rightarrow> 'd"
    and cut :: "'s \<Rightarrow> 'd \<Rightarrow> nat option \<times> 'd"
    and backlog :: "'s \<Rightarrow> nat \<Rightarrow> nat \<Rightarrow> 'd \<Rightarrow> 'r list"
    and behind :: "'s \<Rightarrow> nat \<Rightarrow> 'd \<Rightarrow> bool"
    and source_of :: "'e \<Rightarrow> 's"
    and read_of :: "'e \<Rightarrow> 'r \<Rightarrow> bool"
    and current :: "'s \<Rightarrow> 'd \<Rightarrow> nat option"
  assumes put_good: "good d \<Longrightarrow> good (put e d)"
    and put_behind: "good d \<Longrightarrow> behind s v d \<Longrightarrow> behind s v (put e d)"
    and put_keeps: "good d \<Longrightarrow> set (backlog s v t d) \<subseteq> set (backlog s v t (put e d))"
    and put_current: "good d \<Longrightarrow> current s d = Some c \<Longrightarrow> current s (put e d) = Some c"
    and put_read: "good d \<Longrightarrow> behind (source_of e) v d \<Longrightarrow>
      \<exists>c. current (source_of e) (put e d) = Some c \<and>
        (\<exists>r\<in>set (backlog (source_of e) v c (put e d)). read_of e r)"
    and cut_keeps: "good d \<Longrightarrow> set (backlog s v t d) \<subseteq> set (backlog s v t (snd (cut s d)))"
    and cut_current: "good d \<Longrightarrow> current s d = Some c \<Longrightarrow> fst (cut s d) = Some c"
begin

lemma puts_good: "good d \<Longrightarrow> good (fold put es d)"
  by (induction es arbitrary: d) (simp_all add: put_good)

lemma puts_current: "good d \<Longrightarrow> current s d = Some c \<Longrightarrow> current s (fold put es d) = Some c"
  by (induction es arbitrary: d) (simp_all add: put_good put_current)

lemma puts_keep: "good d \<Longrightarrow> r \<in> set (backlog s v t d) \<Longrightarrow> r \<in> set (backlog s v t (fold put es d))"
proof (induction es arbitrary: d)
  case (Cons e es)
  then have "r \<in> set (backlog s v t (put e d))" using put_keeps by blast
  with Cons show ?case by (simp add: put_good)
qed simp

lemma puts_read:
  assumes "good d" and "e \<in> set es" and "behind (source_of e) v d"
  shows "\<exists>c. current (source_of e) (fold put es d) = Some c \<and>
    (\<exists>r\<in>set (backlog (source_of e) v c (fold put es d)). read_of e r)"
  using assms
proof (induction es arbitrary: d)
  case (Cons x es)
  have good: "good (put x d)" and behind: "behind (source_of e) v (put x d)"
    using Cons.prems put_good put_behind by simp_all
  show ?case
  proof (cases "e = x")
    case True
    with put_read [of d e v] Cons.prems obtain c r where
      "current (source_of e) (put x d) = Some c" "r \<in> set (backlog (source_of e) v c (put x d))" "read_of e r"
      by auto
    then show ?thesis using puts_current [OF good] puts_keep [OF good] by (metis fold_simps(2))
  next
    case False
    with Cons.IH [OF good _ behind] Cons.prems(2) show ?thesis by simp
  qed
qed simp

text \<open>Every record made before the cut is read by a reader that is brought to the cut.\<close>

lemma cut_delivers:
  assumes "good d" and "e \<in> set es" and "behind (source_of e) v d"
  shows "\<exists>c. fst (cut (source_of e) (fold put es d)) = Some c \<and>
    (\<exists>r\<in>set (backlog (source_of e) v c (snd (cut (source_of e) (fold put es d)))). read_of e r)"
proof -
  obtain c r where c: "current (source_of e) (fold put es d) = Some c"
    "r \<in> set (backlog (source_of e) v c (fold put es d))" "read_of e r"
    using puts_read [OF assms] by blast
  have good: "good (fold put es d)" using assms(1) by (rule puts_good)
  have "fst (cut (source_of e) (fold put es d)) = Some c" by (rule cut_current [OF good c(1)])
  moreover have "r \<in> set (backlog (source_of e) v c (snd (cut (source_of e) (fold put es d))))"
    using cut_keeps [OF good] c(2) by blast
  ultimately show ?thesis using c(3) by blast
qed

end

section \<open>The state database is a cycle log\<close>

lemma open_id_current:
  assumes "db_ok db"
  shows "current_open_cycle_id s db = Some i \<longleftrightarrow> open_id s i db"
proof -
  have "cycles_ok db" using assms by (simp add: db_ok_def)
  then show ?thesis
    by (auto simp: current_open_cycle_id_eq current_open_iff open_id_def)
qed

lemma update_cycles_same:
  assumes "\<And>c. cyc_id (f c) = cyc_id c \<and> cyc_source (f c) = cyc_source c \<and> is_open (f c) = is_open c"
  shows "open_id s i (update_cycles P f db) = open_id s i db"
    "offset_below (update_cycles P f db) k v = offset_below db k v"
proof -
  define g where "g c = (if P c then f c else c)" for c
  have g: "cyc_id (g c) = cyc_id c" "cyc_source (g c) = cyc_source c" "is_open (g c) = is_open c" for c
    using assms [of c] by (simp_all add: g_def)
  have u: "update_cycles P f db = db\<lparr>cycles := map g (cycles db)\<rparr>"
    by (simp add: update_cycles_def g_def)
  show "open_id s i (update_cycles P f db) = open_id s i db"
    "offset_below (update_cycles P f db) k v = offset_below db k v"
    by (simp_all add: u open_id_def offset_below_def g)
qed

lemma needs_rescan_same:
  "open_id s i (mark_cycle_needs_rescan j db) = open_id s i db"
  "offset_below (mark_cycle_needs_rescan j db) k v = offset_below db k v"
  unfolding mark_cycle_needs_rescan_def by (rule update_cycles_same; simp add: is_open_def)+

lemma offset_below_ensure:
  assumes "db_ok db" and "offset_below db k v"
  shows "offset_below (snd (ensure_open_cycle s now db)) k v"
proof -
  have "cycles_ok db" using assms(1) by (simp add: db_ok_def)
  then show ?thesis
    by (cases rule: ensure_open_cycle_cases [where s = s and now = now])
      (use assms(2) offset_below_opened in simp_all)
qed

lemma log_fields:
  "open_id s i (touch_source_meta x now db) = open_id s i db"
  "offset_below (touch_source_meta x now db) k v = offset_below db k v"
  "open_id s i (db\<lparr>scheduler_notified := b\<rparr>) = open_id s i db"
  "offset_below (db\<lparr>scheduler_notified := b\<rparr>) k v = offset_below db k v"
  "offset_below (insert_event j now e db) k v = offset_below db k v"
  by (simp_all add: open_id_def offset_below_def touch_source_meta_def insert_event_def Let_def)

lemma mark_open_keeps:
  assumes "db_ok db"
  shows "open_id s i db \<Longrightarrow> open_id s i (mark_open_cycle_needs_rescan x now db)"
    and "offset_below db k v \<Longrightarrow> offset_below (mark_open_cycle_needs_rescan x now db) k v"
proof -
  from assms obtain j db' where r: "ensure_open_cycle x now db = (Some j, db')" "set (cycles db) \<subseteq> set (cycles db')"
    by (rule ensure_open_cycle_open [where s = x and now = now])
  show "open_id s i (mark_open_cycle_needs_rescan x now db)" if "open_id s i db"
    using open_id_mono [OF that r(2)] by (simp add: mark_open_cycle_needs_rescan_def r needs_rescan_same)
  show "offset_below (mark_open_cycle_needs_rescan x now db) k v" if "offset_below db k v"
    using offset_below_ensure [OF assms that, of x now]
    by (simp add: mark_open_cycle_needs_rescan_def r needs_rescan_same)
qed

text \<open>One recorded event: the cycle it goes to is open afterwards, marks stay below, and the row
  is the last of the log.\<close>

lemma record_event_log:
  assumes "db_ok db"
  obtains i where "open_id (we_source e) i (snd (record_event now e db))"
    "\<And>s j. open_id s j db \<Longrightarrow> open_id s j (snd (record_event now e db))"
    "\<And>k v. offset_below db k v \<Longrightarrow> offset_below (snd (record_event now e db)) k v"
    "events (snd (record_event now e db)) = events db @ [\<lparr>ev_id = event_seq db + 1,
       ev_source = we_source e, ev_cycle = i, observed_at = now, raw_mask = we_mask e,
       ev_kind = we_kind e, ev_path = we_path e, ev_rescan = we_rescan e\<rparr>]"
proof -
  from assms obtain i db1 where r: "ensure_open_cycle (we_source e) now db = (Some i, db1)" "db_ok db1"
    "open_id (we_source e) i db1" "events db1 = events db" "event_seq db1 = event_seq db"
    "set (cycles db) \<subseteq> set (cycles db1)"
    by (rule ensure_open_cycle_open [where s = "we_source e" and now = now])
  let ?db2 = "touch_source_meta (we_source e) now (insert_event i now e db1)"
  have ok2: "db_ok ?db2" using insert_event_open_ok [OF r(2,3)] by simp
  have res: "snd (record_event now e db) = (if we_rescan e
      then mark_open_cycle_needs_rescan (we_source e) now ?db2 else ?db2)\<lparr>scheduler_notified := True\<rparr>"
    by (simp add: record_event_def r(1) Let_def)
  have o: "open_id s j (snd (record_event now e db))" if "open_id s j db1" for s j
    using that mark_open_keeps(1) [OF ok2] by (simp add: res log_fields)
  have "offset_below (snd (record_event now e db)) k v" if "offset_below db k v" for k v
    using offset_below_ensure [OF assms that, of "we_source e" now] mark_open_keeps(2) [OF ok2]
    by (simp add: res log_fields r(1))
  moreover have "events (snd (record_event now e db)) = events (insert_event i now e db1)"
    by (simp add: res)
  ultimately show ?thesis
    by (intro that [OF o [OF r(3)] o]) (auto intro: open_id_mono [OF _ r(6)] simp: insert_event_def r(4,5))
qed

definition put_event :: "int \<times> WatcherEvent \<Rightarrow> db \<Rightarrow> db" where
  "put_event p db = snd (record_event (fst p) (snd p) db)"

definition cut_cycle :: "int \<Rightarrow> string \<Rightarrow> db \<Rightarrow> nat option \<times> db" where
  "cut_cycle now s db = map_prod (map_option cyc_id) id (close_current_cycle_for_source s now db)"

definition reads_event :: "int \<times> WatcherEvent \<Rightarrow> CycleEvent \<Rightarrow> bool" where
  "reads_event p r \<longleftrightarrow> event_kind r = we_kind (snd p) \<and> event_path r = we_path (snd p) \<and>
     rescan_required r = we_rescan (snd p)"

interpretation store_log: cycle_log db_ok put_event "cut_cycle now" events_between_cycles
  "\<lambda>s v db. offset_below db (s, []) (Some v)" "\<lambda>p. we_source (snd p)" reads_event current_open_cycle_id
  for now
proof
  fix d :: db and p :: "int \<times> WatcherEvent" and s :: string and v t c
  assume ok: "db_ok d"
  note put = put_event_def
  obtain i where r: "open_id (we_source (snd p)) i (put_event p d)"
    "\<And>s j. open_id s j d \<Longrightarrow> open_id s j (put_event p d)"
    "\<And>k v. offset_below d k v \<Longrightarrow> offset_below (put_event p d) k v"
    "events (put_event p d) = events d @ [\<lparr>ev_id = event_seq d + 1, ev_source = we_source (snd p),
       ev_cycle = i, observed_at = fst p, raw_mask = we_mask (snd p), ev_kind = we_kind (snd p),
       ev_path = we_path (snd p), ev_rescan = we_rescan (snd p)\<rparr>]"
    unfolding put using record_event_log [OF ok, of "snd p" "fst p" thesis] by metis
  show good: "db_ok (put_event p d)" unfolding put using ok by (rule record_event_ok)
  show "offset_below (put_event p d) (s, []) (Some v)" if "offset_below d (s, []) (Some v)"
    using that by (rule r(3))
  show "set (events_between_cycles s v t d) \<subseteq> set (events_between_cycles s v t (put_event p d))"
    unfolding events_between_eq [OF ok] events_between_eq [OF good] r(4) by auto
  show "current_open_cycle_id s (put_event p d) = Some c" if "current_open_cycle_id s d = Some c"
    using that r(2) unfolding open_id_current [OF ok] open_id_current [OF good] by blast
  show "\<exists>c. current_open_cycle_id (we_source (snd p)) (put_event p d) = Some c \<and>
      (\<exists>r\<in>set (events_between_cycles (we_source (snd p)) v c (put_event p d)). reads_event p r)"
    if "offset_below d (we_source (snd p), []) (Some v)"
  proof (intro exI conjI)
    show "current_open_cycle_id (we_source (snd p)) (put_event p d) = Some i"
      using r(1) open_id_current [OF good] by blast
    have "v < i" using r(3) [OF that] r(1) unfolding offset_below_def open_id_def by auto
    then show "\<exists>r\<in>set (events_between_cycles (we_source (snd p)) v i (put_event p d)). reads_event p r"
      unfolding events_between_eq [OF good] r(4) by (auto simp: cycle_event_of_def reads_event_def)
  qed
  have snd_cut: "snd (cut_cycle now s d) = snd (close_current_cycle_for_source s now d)"
    by (simp add: cut_cycle_def)
  show "set (events_between_cycles s v t d) \<subseteq> set (events_between_cycles s v t (snd (cut_cycle now s d)))"
    by (simp add: snd_cut events_between_cycles_def)
  show "fst (cut_cycle now s d) = Some c" if "current_open_cycle_id s d = Some c"
    using that by (auto simp: cut_cycle_def close_current_cycle_for_source_def
        current_open_cycle_id_eq Let_def split: option.splits)
qed

text \<open>C2: no event falls between two cycles. Whatever sequence of events is recorded, once the
  cycle of a source is closed every one of them is in the backlog that brings a destination from
  its verified cycle to the closed one, with its path, its kind and its rescan flag.\<close>

theorem closed_cycle_delivers:
  assumes "store_reachable cal db" and "(at, e) \<in> set es"
    and "map_of (offsets db) (we_source e, d) = Some r" and "last_verified r = Some v"
  shows "\<exists>c. fst (close_current_cycle_for_source (we_source e) now (fold put_event es db)) = Some c \<and>
    (\<exists>x\<in>set (events_between_cycles (we_source e) v (cyc_id c)
         (snd (close_current_cycle_for_source (we_source e) now (fold put_event es db)))).
       event_kind x = we_kind e \<and> event_path x = we_path e \<and> rescan_required x = we_rescan e)"
proof -
  have ok: "db_ok db" using reachable_ok [OF assms(1)] by simp
  have "offset_below db (we_source e, d) (Some v)"
    using ok assms(3,4) unfolding db_ok_def offsets_ok_def by metis
  then have "offset_below db (we_source (snd (at, e)), []) (Some v)" by (simp add: offset_below_def)
  from store_log.cut_delivers [OF ok assms(2) this, of now] show ?thesis
    by (auto simp: cut_cycle_def reads_event_def)
qed

lemma closed_cycle_delivers_witness:
  "\<exists>c. fst (close_current_cycle_for_source ''s'' 9 (fold put_event [(5, touched)]
       (upsert_destination_status (''s'', ''d'') (Some 1) ''green'' ''verified'' 3
         (snd (close_current_cycle_for_source ''s'' 2 (snd (record_event 0 touched empty_db))))))) = Some c
     \<and> (\<exists>x\<in>set (events_between_cycles ''s'' 1 (cyc_id c)
       (snd (close_current_cycle_for_source ''s'' 9 (fold put_event [(5, touched)]
       (upsert_destination_status (''s'', ''d'') (Some 1) ''green'' ''verified'' 3
         (snd (close_current_cycle_for_source ''s'' 2 (snd (record_event 0 touched empty_db))))))))).
       event_path x = Some ''a'')"
proof -
  let ?db1 = "snd (record_event 0 touched empty_db)"
  let ?db2 = "snd (close_current_cycle_for_source ''s'' 2 ?db1)"
  let ?db = "upsert_destination_status (''s'', ''d'') (Some 1) ''green'' ''verified'' 3 ?db2"
  have cyc: "\<exists>c\<in>set (cycles ?db2). cyc_id c = 1 \<and> cyc_source c = ''s'' \<and> \<not> is_open c"
    by (simp add: record_event_def ensure_open_cycle_def current_open_cycle_id_def newest_def
        empty_db_def insert_event_def touch_source_meta_def is_open_def Let_def update_cycles_def
        close_current_cycle_for_source_def current_open_cycle_def mark_local_change_def)
  have "store_reachable utc ?db1"
    by (rule store_reachable.step [OF store_reachable.start log_step.event])
  then have "store_reachable utc ?db2" by (rule store_reachable.step [OF _ log_step.close])
  then have r: "store_reachable utc ?db"
    by (rule store_reachable.step [OF _ log_step.outcome]) (use cyc in \<open>simp add: settled_def list_ex_iff\<close>)
  have "\<exists>x. map_of (offsets ?db) (we_source touched, ''d'') = Some x \<and> last_verified x = Some 1"
    by (auto simp: upsert_destination_status_def mark_local_change_def upsert_offset_def tbl_simps
        new_offset_def coalesce_def Let_def split: option.split)
  then show ?thesis using closed_cycle_delivers [OF r, of 5 touched "[(5, touched)]" "''d''" _ 1 9] by auto blast
qed

section \<open>Targeting\<close>

lemma collect_due_spec:
  "collect_due due ds = Some ids \<Longrightarrow>
     (\<forall>d\<in>set ds. \<exists>b. due d = Some b) \<and> ids = map dst_id (filter (\<lambda>d. due d = Some True) ds)"
  by (induction ds arbitrary: ids) (auto split: option.splits if_splits)

lemma target_of_set:
  "destination_target_cycle k (set_destination_target j t now db) =
     (if k = j then Some t else destination_target_cycle k db)"
  by (auto simp: destination_target_cycle_def destination_offset_def set_destination_target_def
      mark_local_change_def upsert_offset_def clear_destination_issues_def tbl_simps Let_def
      new_offset_def DestinationOffset.truncate_def split: option.splits)

lemma targets_of_fold:
  "destination_target_cycle (s, i) (fold (\<lambda>i. set_destination_target (s, i) t now) ids db) =
     (if i \<in> set ids then Some t else destination_target_cycle (s, i) db)"
  by (induction ids arbitrary: db) (simp_all add: target_of_set)

lemma target_offsets: "offsets db' = offsets db \<Longrightarrow> destination_target_cycle k db' = destination_target_cycle k db"
  by (simp add: destination_target_cycle_def destination_offset_def)

lemma offsets_clear_rescan [simp]: "offsets (clear_cycle_needs_rescan i db) = offsets db"
  by (simp add: clear_cycle_needs_rescan_def update_cycles_def)

lemma offsets_ensure [simp]: "offsets (snd (ensure_open_cycle s now db)) = offsets db"
  by (simp add: ensure_open_cycle_def Let_def split: option.split)

lemma offsets_close [simp]: "offsets (snd (close_current_cycle_for_source s now db)) = offsets db"
  by (simp add: close_current_cycle_for_source_def Let_def update_cycles_def mark_local_change_def
      split: option.split)

text \<open>The targeting rule. When the scheduler's step closes a cycle, a destination that is due
  gets exactly that cycle as its target and every other one keeps its target; a destination
  that still has to reach its target is never due, so its target is never moved.\<close>

theorem advance_targets:
  assumes "advance_source cal now s db = Some (Some c, db')"
    and "current_open_cycle (src_id s) db = Some o1" and "distinct (map dst_id (drivable s))"
    and "d \<in> set (drivable s)"
  shows "destination_target_cycle (src_id s, dst_id d) db' =
      (if destination_due cal now o1 (cycle_has_actionable_events (src_id s) (cyc_id o1) db) db (src_id s) d
          = Some True
       then Some (cyc_id c) else destination_target_cycle (src_id s, dst_id d) db)
    \<and> cyc_id c = cyc_id o1
    \<and> (\<forall>t. destination_target_cycle (src_id s, dst_id d) db = Some t \<and>
          destination_last_verified (src_id s, dst_id d) db < Some t \<longrightarrow>
          destination_target_cycle (src_id s, dst_id d) db' = Some t)"
proof -
  let ?due = "destination_due cal now o1 (cycle_has_actionable_events (src_id s) (cyc_id o1) db) db (src_id s)"
  obtain ids where ids: "collect_due ?due (drivable s) = Some ids"
    using assms(1) unfolding advance_source_def assms(2) Let_def by (cases "collect_due ?due (drivable s)") simp_all
  note spec = collect_due_spec [OF ids]
  obtain x db1 where cl: "close_current_cycle_for_source (src_id s) now db = (x, db1)" by fastforce
  have off: "offsets db1 = offsets db" using offsets_close [of "src_id s" now db] cl by simp
  let ?new = "\<lambda>c. fold (\<lambda>i. set_destination_target (src_id s, i) (cyc_id c) now) ids
      (if \<not> needs_full_rescan c \<and> all_realtime s ids then clear_cycle_needs_rescan (cyc_id c) db1 else db1)"
  have adv: "Some (Some c, db') = (if ids = [] then
        (if cycle_has_actionable_events (src_id s) (cyc_id o1) db \<and> source_events_quiesced (src_id s) now db
         then Some (x, db1) else Some (None, db))
      else case x of None \<Rightarrow> Some (None, db1) | Some c \<Rightarrow> Some (Some c, ?new c))"
    using assms(1) unfolding advance_source_def assms(2) Let_def
    by (cases ids; cases x) (simp_all add: ids cl split: if_splits)
  have xc: "x = Some c" using adv by (cases x) (simp_all split: if_splits)
  have id: "cyc_id c = cyc_id o1"
    using cl unfolding close_current_cycle_for_source_def assms(2) xc by (auto simp: Let_def)
  have due_mem: "dst_id d \<in> set ids \<longleftrightarrow> ?due d = Some True"
  proof -
    have "set ids = dst_id ` {x \<in> set (drivable s). ?due x = Some True}" using spec by auto
    moreover have "inj_on dst_id (set (drivable s))" using assms(3) by (simp only: distinct_map)
    ultimately show ?thesis using assms(4) by (simp add: inj_on_image_mem_iff)
  qed
  have tgt: "destination_target_cycle (src_id s, dst_id d) db' =
      (if dst_id d \<in> set ids then Some (cyc_id c) else destination_target_cycle (src_id s, dst_id d) db)"
  proof (cases ids)
    case Nil
    then have "db' = db1" using adv xc by (simp split: if_splits)
    then show ?thesis using target_offsets [OF off] by (simp add: Nil)
  next
    case (Cons i js)
    let ?db2 = "if \<not> needs_full_rescan c \<and> all_realtime s ids
        then clear_cycle_needs_rescan (cyc_id c) db1 else db1"
    have "db' = fold (\<lambda>i. set_destination_target (src_id s, i) (cyc_id c) now) ids ?db2"
      using adv xc Cons by simp
    moreover have "offsets ?db2 = offsets db" using off by simp
    then have "destination_target_cycle k ?db2 = destination_target_cycle k db" for k
      by (rule target_offsets)
    ultimately show ?thesis by (simp only: targets_of_fold)
  qed
  have nd: "?due d \<noteq> Some True" if "destination_target_cycle (src_id s, dst_id d) db = Some t"
      "destination_last_verified (src_id s, dst_id d) db < Some t" for t
    using that by (auto simp: destination_due_def destination_target_cycle_def destination_offset_def
        destination_last_verified_def DestinationOffset.truncate_def Let_def split: option.splits)
  show ?thesis
    by (intro conjI id allI impI) (use tgt due_mem nd in \<open>simp_all only: if_True if_False simp_thms\<close>)
qed

definition demo_pair :: SourceGroupConfig where
  "demo_pair = SourceGroupConfig_default\<lparr>src_id := ''s'', destinations :=
     [DestinationConfig_default\<lparr>dst_id := ''a'', dst_enabled := True, paused := False\<rparr>,
      DestinationConfig_default\<lparr>dst_id := ''b'', dst_enabled := False, paused := False\<rparr>]\<rparr>"

lemmas store_eval = record_event_def ensure_open_cycle_def current_open_cycle_id_def newest_def
  empty_db_def insert_event_def touch_source_meta_def is_open_def Let_def update_cycles_def
  close_current_cycle_for_source_def current_open_cycle_def mark_local_change_def

abbreviation cycle_row :: "nat \<Rightarrow> int \<Rightarrow> int option \<Rightarrow> string \<Rightarrow> Cycle" where
  "cycle_row i from until status \<equiv> \<lparr>cyc_id = i, cyc_source = ''s'', starts_at = from, ends_at = until,
     cyc_status = status, needs_full_rescan = False, manual_full_rescan = False,
     manual_changed_since_rescan = False\<rparr>"

abbreviation touch_row :: "nat \<Rightarrow> nat \<Rightarrow> int \<Rightarrow> event_row" where
  "touch_row i c at \<equiv> \<lparr>ev_id = i, ev_source = ''s'', ev_cycle = c, observed_at = at, raw_mask = 0,
     ev_kind = ''modify'', ev_path = Some ''a'', ev_rescan = False\<rparr>"

lemma first_touch:
  "cycles (snd (record_event 0 touched empty_db)) = [cycle_row 1 0 None ''open'']"
  "cycle_seq (snd (record_event 0 touched empty_db)) = 1"
  "events (snd (record_event 0 touched empty_db)) = [touch_row 1 1 0]"
  "event_seq (snd (record_event 0 touched empty_db)) = 1"
  "offsets (snd (record_event 0 touched empty_db)) = []"
  by (simp_all add: store_eval)

lemma advance_targets_witness:
  "destination_target_cycle (''s'', ''a'')
     (snd (the (advance_source utc 5 demo_pair (snd (record_event 0 touched empty_db))))) = Some 1"
proof -
  let ?db = "snd (record_event 0 touched empty_db)"
  let ?c = "cycle_row 1 0 (Some 5) ''closed''"
  let ?d = "DestinationConfig_default\<lparr>dst_id := ''a'', dst_enabled := True, paused := False\<rparr>"
  have o1: "current_open_cycle ''s'' ?db = Some (cycle_row 1 0 None ''open'')"
    by (simp add: current_open_cycle_def newest_def first_touch is_open_def)
  have dr: "drivable demo_pair = [?d]" by (simp add: drivable_def demo_pair_def)
  have s: "src_id demo_pair = ''s''" by (simp add: demo_pair_def)
  have due: "destination_due utc 5 (cycle_row 1 0 None ''open'') b ?db ''s'' ?d = Some True" for b
    by (simp add: destination_due_def destination_offset_def first_touch Let_def)
  obtain db1 where cl: "close_current_cycle_for_source ''s'' 5 ?db = (Some ?c, db1)"
    by (simp add: close_current_cycle_for_source_def o1 Let_def)
  obtain db' where r: "advance_source utc 5 demo_pair ?db = Some (Some ?c, db')"
    by (simp add: advance_source_def s dr o1 [unfolded One_nat_def] due [unfolded One_nat_def]
        cl [unfolded One_nat_def] Let_def)
  have o2: "current_open_cycle (src_id demo_pair) ?db = Some (cycle_row 1 0 None ''open'')"
    using o1 by (simp add: s)
  have "distinct (map dst_id (drivable demo_pair))" "?d \<in> set (drivable demo_pair)"
    by (simp_all add: dr)
  from advance_targets [OF r o2 this] show ?thesis by (simp add: r s due [unfolded One_nat_def])
qed

lemma disabled_run:
  obtains db where "store_reachable utc db" "events db = [touch_row 1 1 0, touch_row 2 2 3]"
    "destination_last_verified (''s'', ''b'') db = Some 1" "destination_last_verified (''s'', ''a'') db = Some 3"
proof -
  define d1 where "d1 = snd (record_event 0 touched empty_db)"
  define d2 where "d2 = snd (close_current_cycle_for_source ''s'' 1 d1)"
  define d3 where "d3 = upsert_destination_status (''s'', ''b'') (Some 1) ''green'' ''verified'' 2 d2"
  define d4 where "d4 = snd (record_event 3 touched d3)"
  define d5 where "d5 = snd (close_current_cycle_for_source ''s'' 4 d4)"
  define d6 where "d6 = snd (close_current_cycle_for_source ''s'' 5 d5)"
  define d7 where "d7 = upsert_destination_status (''s'', ''a'') (Some 3) ''green'' ''verified'' 6 d6"
  have c2: "cycles d2 = [cycle_row 1 0 (Some 1) ''closed'', cycle_row 2 1 None ''open'']"
    "cycle_seq d2 = 2" "events d2 = [touch_row 1 1 0]" "event_seq d2 = 1" "offsets d2 = []"
    by (simp_all add: d2_def d1_def first_touch store_eval)
  have c3: "cycles d3 = cycles d2" "cycle_seq d3 = 2" "events d3 = events d2" "event_seq d3 = 1"
    "\<exists>r. offsets d3 = [((''s'', ''b''), r)] \<and> last_verified r = Some 1"
    by (simp_all add: d3_def upsert_destination_status_def mark_local_change_def upsert_offset_def
        c2 new_offset_def)
  then obtain r where r: "offsets d3 = [((''s'', ''b''), r)]" "last_verified r = Some 1" by blast
  have c4: "cycles d4 = cycles d2" "cycle_seq d4 = 2" "events d4 = [touch_row 1 1 0, touch_row 2 2 3]"
    "offsets d4 = offsets d3"
    by (simp_all add: d4_def store_eval c2 c3)
  have c5: "cycles d5 = [cycle_row 1 0 (Some 1) ''closed'', cycle_row 2 1 (Some 4) ''closed'',
      cycle_row 3 4 None ''open'']" "cycle_seq d5 = 3" "events d5 = events d4" "offsets d5 = offsets d3"
    by (simp_all add: d5_def c4 c2 store_eval)
  have c6: "cycles d6 = [cycle_row 1 0 (Some 1) ''closed'', cycle_row 2 1 (Some 4) ''closed'',
      cycle_row 3 4 (Some 5) ''closed'', cycle_row 4 5 None ''open'']"
    "events d6 = events d4" "offsets d6 = offsets d3"
    by (simp_all add: d6_def c5 store_eval)
  have c7: "events d7 = events d4" "destination_last_verified (''s'', ''b'') d7 = Some 1"
    "destination_last_verified (''s'', ''a'') d7 = Some 3"
    by (simp_all add: d7_def upsert_destination_status_def mark_local_change_def upsert_offset_def
        destination_last_verified_def c6 new_offset_def r)
  have "store_reachable utc d1" unfolding d1_def
    by (rule store_reachable.step [OF store_reachable.start log_step.event])
  then have "store_reachable utc d2" unfolding d2_def by (rule store_reachable.step [OF _ log_step.close])
  then have "store_reachable utc d3" unfolding d3_def
    by (rule store_reachable.step [OF _ log_step.outcome]) (simp add: settled_def c2 is_open_def)
  then have "store_reachable utc d4" unfolding d4_def by (rule store_reachable.step [OF _ log_step.event])
  then have "store_reachable utc d5" unfolding d5_def by (rule store_reachable.step [OF _ log_step.close])
  then have "store_reachable utc d6" unfolding d6_def by (rule store_reachable.step [OF _ log_step.close])
  then have "store_reachable utc d7" unfolding d7_def
    by (rule store_reachable.step [OF _ log_step.outcome]) (simp add: settled_def c6 is_open_def)
  with that c7 show ?thesis by (simp add: c4)
qed

lemma disabled_run_prune:
  assumes "events db = [touch_row 1 1 0, touch_row 2 2 3]"
    and "destination_last_verified (''s'', ''a'') db = Some 3"
  shows "events (prune_verified_cycle_events demo_pair db) = []"
    "offsets (prune_verified_cycle_events demo_pair db) = offsets db"
proof -
  have "min_verified ''s'' db (filter dst_enabled (destinations demo_pair)) None = Some (Some 3)"
    by (simp add: demo_pair_def assms)
  then have p: "prune_verified_cycle_events demo_pair db = snd (prune_event_log ''s'' 3 db)"
    by (simp add: prune_verified_cycle_events_def demo_pair_def)
  show "events (prune_verified_cycle_events demo_pair db) = []"
    "offsets (prune_verified_cycle_events demo_pair db) = offsets db"
    by (simp_all add: p prune_event_log_eq prunable_def assms)
qed

lemma prune_exact_witness:
  "\<exists>db. store_reachable utc db \<and> events db \<noteq> [] \<and> events (prune_verified_cycle_events demo_pair db) = []"
proof -
  obtain db where db: "store_reachable utc db" "events db = [touch_row 1 1 0, touch_row 2 2 3]"
    "destination_last_verified (''s'', ''b'') db = Some 1" "destination_last_verified (''s'', ''a'') db = Some 3"
    by (rule disabled_run)
  have m: "src_id demo_pair = ''s''" "\<exists>d\<in>set (destinations demo_pair). dst_enabled d"
    "\<And>d. d \<in> set (destinations demo_pair) \<Longrightarrow> dst_enabled d \<Longrightarrow> dst_id d = ''a''"
    by (auto simp: demo_pair_def)
  have "\<exists>v. destination_last_verified (src_id demo_pair, dst_id d) db = Some v \<and> c < v"
    if "d \<in> set (destinations demo_pair)" "dst_enabled d" "c < 3" for d c
    using m(3) [OF that(1,2)] db(4) that(3) unfolding m(1) by auto
  moreover have "ev_source e = src_id demo_pair \<and> ev_cycle e < 3" if "e \<in> set (events db)" for e
    using that unfolding db(2) m(1) by auto
  ultimately have "events (prune_verified_cycle_events demo_pair db) = []"
    unfolding prune_exact [of demo_pair db] using m(2) by (intro filter_False) blast
  moreover have "events db \<noteq> []" by (simp add: db(2))
  ultimately show ?thesis using db(1) by blast
qed

text \<open>A destination that is switched off for a while can lose events. Pruning looks at the
  enabled destinations only, so the events that a disabled destination has still to apply are
  deleted although its verified cycle is kept; it resumes from there when it is enabled again.\<close>

theorem disabled_destination_loses_events:
  "\<exists>db s e d v. store_reachable utc db \<and> e \<in> set (events db) \<and> ev_source e = src_id s \<and>
     d \<in> set (destinations s) \<and> \<not> dst_enabled d \<and>
     destination_last_verified (src_id s, dst_id d) db = Some v \<and> v < ev_cycle e \<and>
     destination_last_verified (src_id s, dst_id d) (prune_verified_cycle_events s db) = Some v \<and>
     e \<notin> set (events (prune_verified_cycle_events s db))"
proof -
  obtain db where db: "store_reachable utc db" "events db = [touch_row 1 1 0, touch_row 2 2 3]"
    "destination_last_verified (''s'', ''b'') db = Some 1" "destination_last_verified (''s'', ''a'') db = Some 3"
    by (rule disabled_run)
  note p = disabled_run_prune [OF db(2,4)]
  let ?d = "DestinationConfig_default\<lparr>dst_id := ''b'', dst_enabled := False, paused := False\<rparr>"
  have "src_id demo_pair = ''s''" "?d \<in> set (destinations demo_pair)" by (simp_all add: demo_pair_def)
  moreover have "destination_last_verified (''s'', ''b'') (prune_verified_cycle_events demo_pair db) = Some 1"
    using db(3) by (simp add: destination_last_verified_def p(2))
  moreover have "destination_last_verified (''s'', ''b'') db = Some 1"
    "touch_row 2 2 3 \<in> set (events db)" "touch_row 2 2 3 \<notin> set (events (prune_verified_cycle_events demo_pair db))"
    "ev_source (touch_row 2 2 3) = ''s''" "dst_id ?d = ''b''" "\<not> dst_enabled ?d" "(1::nat) < ev_cycle (touch_row 2 2 3)"
    using db p(1) by simp_all
  ultimately show ?thesis using db(1) by metis
qed

end
