(* ===== verification/Store_Views.thy ===== *)
theory Store_Views
  imports Prelude Config Store
begin

text \<open>
  The rest of the state database (\<open>src/src/core/state.rs\<close>): issues of a destination, compare
  reports, the restart notice of a source, the task log, the journal cursor of a Windows volume,
  and the status view that the user interface shows. A compare report is stored as JSON text and
  read back; the model stores the report. The column \<open>duration_ms\<close> of the task log, a
  difference of Julian dates rounded by SQLite, is left out.
\<close>

section \<open>Issues and reports\<close>

definition replace_destination_issues :: "destination_key \<Rightarrow> nat \<Rightarrow> string \<Rightarrow> string list \<Rightarrow> string \<Rightarrow> int \<Rightarrow> db \<Rightarrow> db" where
  "replace_destination_issues k cycle kind paths message now db =
     (let kept = filter (\<lambda>((s, d, _, kd), _). \<not> ((s, d) = k \<and> kd = kind)) (issues db)
      in db\<lparr>issues := fold (\<lambda>p. AList.update (fst k, snd k, p, kind)
           \<lparr>iss_cycle = Some cycle, iss_message = message, iss_updated = now\<rparr>) paths kept\<rparr>)"

record DestinationIssueView =
  view_cycle :: "nat option"
  view_path :: string
  view_kind :: string
  view_message :: string
  view_updated :: int

text \<open>\<open>ORDER BY updated_at DESC, rel_path ASC\<close>.\<close>

definition destination_issues :: "destination_key \<Rightarrow> db \<Rightarrow> DestinationIssueView list" where
  "destination_issues k db = sort_key (\<lambda>v. - view_updated v) (sort_key view_path
     (map (\<lambda>((_, _, p, kd), r). \<lparr>view_cycle = iss_cycle r, view_path = p, view_kind = kd,
         view_message = iss_message r, view_updated = iss_updated r\<rparr>)
       (filter (\<lambda>((s, d, _, _), _). (s, d) = k) (issues db))))"

definition put_scan_report :: "ScanReport \<Rightarrow> db \<Rightarrow> db" where
  "put_scan_report r db =
     db\<lparr>reports := AList.update (rep_source r, rep_destination r) r (reports db)\<rparr>"

definition delete_scan_report :: "destination_key \<Rightarrow> db \<Rightarrow> db" where
  "delete_scan_report k db = db\<lparr>reports := AList.delete k (reports db)\<rparr>"

definition get_scan_report :: "destination_key \<Rightarrow> db \<Rightarrow> ScanReport option" where
  "get_scan_report k db = map_of (reports db) k"

section \<open>The restart notice\<close>

text \<open>\<open>INSERT OR IGNORE\<close> and then the guarded update; the result tells whether a row changed.\<close>

definition raise_restart_notice :: "string \<Rightarrow> int \<Rightarrow> db \<Rightarrow> bool \<times> db" where
  "raise_restart_notice s now db =
     (let t = (if map_of (source_meta db) s = None then AList.update s empty_meta (source_meta db)
               else source_meta db);
          m = (case map_of t s of Some m \<Rightarrow> m | None \<Rightarrow> empty_meta)
      in if restart_notice_at m = None
         then (True, db\<lparr>source_meta := AList.update s
                (m\<lparr>restart_notice_at := Some now, restart_gap_started := last_event_observed_at m\<rparr>) t\<rparr>)
         else (False, db\<lparr>source_meta := t\<rparr>))"

definition clear_restart_notice_if_covered :: "string \<Rightarrow> int \<Rightarrow> db \<Rightarrow> bool \<times> db" where
  "clear_restart_notice_if_covered s started db =
     (case map_of (source_meta db) s of
        None \<Rightarrow> (False, db)
      | Some m \<Rightarrow> (case restart_notice_at m of
          None \<Rightarrow> (False, db)
        | Some at \<Rightarrow>
            if at \<le> started
            then (True, db\<lparr>source_meta := AList.update s
                   (m\<lparr>restart_notice_at := None, restart_gap_started := None\<rparr>) (source_meta db)\<rparr>)
            else (False, db)))"

definition dismiss_restart_notice :: "string \<Rightarrow> db \<Rightarrow> db" where
  "dismiss_restart_notice s db =
     (case map_of (source_meta db) s of
        None \<Rightarrow> db
      | Some m \<Rightarrow> db\<lparr>source_meta := AList.update s
          (m\<lparr>restart_notice_at := None, restart_gap_started := None\<rparr>) (source_meta db)\<rparr>)"

definition restart_notice :: "string \<Rightarrow> db \<Rightarrow> (int \<times> int option) option" where
  "restart_notice s db =
     (case map_of (source_meta db) s of
        None \<Rightarrow> None
      | Some m \<Rightarrow> map_option (\<lambda>at. (at, restart_gap_started m)) (restart_notice_at m))"

section \<open>The task log\<close>

definition TASK_LOG_KEEP :: nat where "TASK_LOG_KEEP = 100"

definition newest_task_ids :: "nat \<Rightarrow> TaskLogEntry list \<Rightarrow> nat list" where
  "newest_task_ids n ts = take n (rev (sort (map task_id ts)))"

definition task_start :: "string \<Rightarrow> string \<Rightarrow> string \<Rightarrow> int \<Rightarrow> db \<Rightarrow> nat \<times> db" where
  "task_start kind s d now db =
     (let i = task_seq db + 1;
          ts = tasks db @ [\<lparr>task_id = i, task_kind = kind, task_source = s, task_destination = d,
            task_started = now, task_ended = None, task_status = ''running'', task_error = '''',
            files_synced = 0, task_differences = 0, entries_scanned = 0\<rparr>];
          keep = newest_task_ids TASK_LOG_KEEP ts
      in (i, db\<lparr>task_seq := i,
            tasks := filter (\<lambda>t. \<not> (task_ended t \<noteq> None \<and> task_id t \<notin> set keep)) ts\<rparr>))"

definition update_tasks :: "(TaskLogEntry \<Rightarrow> bool) \<Rightarrow> (TaskLogEntry \<Rightarrow> TaskLogEntry) \<Rightarrow> db \<Rightarrow> db" where
  "update_tasks P f db = db\<lparr>tasks := map (\<lambda>t. if P t then f t else t) (tasks db)\<rparr>"

definition task_finish :: "nat \<Rightarrow> string \<Rightarrow> string \<Rightarrow> nat \<Rightarrow> nat \<Rightarrow> nat \<Rightarrow> int \<Rightarrow> db \<Rightarrow> db" where
  "task_finish i status error synced diffs scanned now =
     update_tasks (\<lambda>t. task_id t = i) (\<lambda>t. t\<lparr>task_ended := Some now, task_status := status,
       task_error := error, files_synced := synced, task_differences := diffs,
       entries_scanned := scanned\<rparr>)"

definition task_discard :: "nat \<Rightarrow> db \<Rightarrow> db" where
  "task_discard i db = db\<lparr>tasks := filter (\<lambda>t. task_id t \<noteq> i) (tasks db)\<rparr>"

definition abort_stale_running_tasks :: "int \<Rightarrow> db \<Rightarrow> nat \<times> db" where
  "abort_stale_running_tasks now db =
     (length (filter (\<lambda>t. task_status t = ''running'') (tasks db)),
      update_tasks (\<lambda>t. task_status t = ''running'') (\<lambda>t. t\<lparr>task_ended := Some now,
        task_status := ''aborted'', task_error := ''daemon restarted while the task was running''\<rparr>) db)"

definition task_by_id :: "nat \<Rightarrow> db \<Rightarrow> TaskLogEntry option" where
  "task_by_id i db = List.find (\<lambda>t. task_id t = i) (tasks db)"

definition recent_tasks :: "nat \<Rightarrow> db \<Rightarrow> TaskLogEntry list" where
  "recent_tasks n db = take n (rev (sort_key task_id (tasks db)))"

section \<open>Process start and journal cursors\<close>

definition record_process_started_at :: "int \<Rightarrow> db \<Rightarrow> db" where
  "record_process_started_at t db = db\<lparr>process_started := Some t\<rparr>"

definition process_started_at :: "db \<Rightarrow> int option" where
  "process_started_at db = process_started db"

record WindowsUsnCursor =
  cursor_journal :: nat
  cursor_next :: int

definition windows_usn_cursor :: "string \<Rightarrow> string \<Rightarrow> db \<Rightarrow> WindowsUsnCursor option" where
  "windows_usn_cursor s volume db =
     (case map_of (usn_cursors db) s of
        None \<Rightarrow> None
      | Some r \<Rightarrow> if usn_volume r = volume
          then Some \<lparr>cursor_journal = journal_id r, cursor_next = next_usn r\<rparr> else None)"

definition set_windows_usn_cursor :: "string \<Rightarrow> string \<Rightarrow> nat \<Rightarrow> int \<Rightarrow> db \<Rightarrow> db" where
  "set_windows_usn_cursor s volume journal next db =
     db\<lparr>usn_cursors := AList.update s \<lparr>usn_volume = volume, journal_id = journal, next_usn = next\<rparr>
       (usn_cursors db)\<rparr>"

section \<open>The status view\<close>

definition latest_cycle_id_for_display :: "string \<Rightarrow> db \<Rightarrow> nat option" where
  "latest_cycle_id_for_display s db =
     (let closed = latest_closed_cycle_id s db in
      case current_open_cycle s db of
        Some c \<Rightarrow>
          if cycle_has_actionable_events s (cyc_id c) db
          then Some (case closed of Some i \<Rightarrow> max i (cyc_id c) | None \<Rightarrow> cyc_id c)
          else closed
      | None \<Rightarrow> closed)"

record DestinationView =
  dv_source :: string
  dv_destination :: string
  dv_path :: path_buf
  dv_enabled :: bool
  latest_closed :: "nat option"
  dv_target :: "nat option"
  dv_verified :: "nat option"
  dv_completed :: "nat option"
  dv_status :: string
  dv_reason :: string
  dv_updated :: int
  dv_issues :: "DestinationIssueView list"
  scan_differences :: "nat option"
  scan_at :: "int option"
  dv_notice_at :: "int option"
  dv_gap_started :: "int option"

definition has_source_changing :: "DestinationIssueView list \<Rightarrow> bool" where
  "has_source_changing is = list_ex (\<lambda>i. view_kind i = ''source_changing'') is"

definition computed_status :: "bool \<Rightarrow> DestinationOffset \<Rightarrow> string" where
  "computed_status changing off =
     (if changing then ''yellow''
      else if off_status off = ''green'' \<and> target_cycle off \<noteq> None \<and> last_verified off \<ge> target_cycle off
      then ''green''
      else if off_status off = ''yellow'' then ''yellow'' else ''red'')"

definition computed_reason :: "bool \<Rightarrow> DestinationOffset \<Rightarrow> string" where
  "computed_reason changing off =
     (if changing then ''source_changing''
      else if target_cycle off \<noteq> None \<and> last_verified off < target_cycle off \<and>
        off_reason off \<in> {''not_verified'', ''pending_target_cycle'', ''verified''}
      then ''behind_target_cycle'' else off_reason off)"

definition destination_view :: "int \<Rightarrow> db \<Rightarrow> SourceGroupConfig \<Rightarrow> DestinationConfig \<Rightarrow> DestinationView" where
  "destination_view now db s d =
     (let k = (src_id s, dst_id d);
          off = destination_offset k now db;
          is = destination_issues k db;
          ch = has_source_changing is;
          notice = restart_notice (src_id s) db;
          report = (case get_scan_report k db of
             Some r \<Rightarrow> if rep_error r = '''' then Some r else None | None \<Rightarrow> None)
      in \<lparr>dv_source = src_id s, dv_destination = dst_id d, dv_path = dst_path d,
          dv_enabled = dst_enabled d, latest_closed = latest_cycle_id_for_display (src_id s) db,
          dv_target = target_cycle off, dv_verified = last_verified off,
          dv_completed = last_completed off, dv_status = computed_status ch off,
          dv_reason = computed_reason ch off, dv_updated = off_updated off, dv_issues = is,
          scan_differences = map_option (\<lambda>r. to_add r + to_update r + to_delete r + type_mismatch r) report,
          scan_at = map_option scanned_at report,
          dv_notice_at = map_option fst notice,
          dv_gap_started = (case notice of None \<Rightarrow> None | Some (_, gap) \<Rightarrow> gap)\<rparr>)"

definition destination_views :: "AppConfig \<Rightarrow> int \<Rightarrow> db \<Rightarrow> DestinationView list" where
  "destination_views cfg now db =
     concat (map (\<lambda>s. map (destination_view now db s) (destinations s)) (source_groups cfg))"

section \<open>What the views promise\<close>

lemma computed_status_green:
  "computed_status ch off = ''green'' \<longleftrightarrow> \<not> ch \<and> off_status off = ''green'' \<and>
     (\<exists>t. target_cycle off = Some t \<and> Some t \<le> last_verified off)"
  by (auto simp: computed_status_def)

text \<open>A destination is shown green exactly when its stored status is green, it has a target,
  its verified cycle has reached the target, and no file of it is reported as changing; a
  destination that is behind its target is never shown green.\<close>

theorem shown_green_iff:
  "dv_status (destination_view now db s d) = ''green'' \<longleftrightarrow>
     (\<exists>t v. dv_target (destination_view now db s d) = Some t \<and>
        dv_verified (destination_view now db s d) = Some v \<and> t \<le> v) \<and>
     off_status (destination_offset (src_id s, dst_id d) now db) = ''green'' \<and>
     \<not> (\<exists>i\<in>set (dv_issues (destination_view now db s d)). view_kind i = ''source_changing'')"
proof -
  let ?off = "destination_offset (src_id s, dst_id d) now db"
  let ?is = "destination_issues (src_id s, dst_id d) db"
  have f: "dv_status (destination_view now db s d) = computed_status (has_source_changing ?is) ?off"
    "dv_target (destination_view now db s d) = target_cycle ?off"
    "dv_verified (destination_view now db s d) = last_verified ?off"
    "dv_issues (destination_view now db s d) = ?is"
    by (simp_all add: destination_view_def Let_def)
  have "Some t \<le> last_verified ?off \<longleftrightarrow> (\<exists>v. last_verified ?off = Some v \<and> t \<le> v)" for t
    by (cases "last_verified ?off") simp_all
  then show ?thesis
    unfolding f computed_status_green by (auto simp: has_source_changing_def list_ex_iff)
qed

section \<open>The task log keeps what runs\<close>

definition tasks_ok :: "db \<Rightarrow> bool" where
  "tasks_ok db \<longleftrightarrow> sorted_wrt (<) (map task_id (tasks db)) \<and> (\<forall>t\<in>set (tasks db). task_id t \<le> task_seq db)"

lemma sorted_map_id: "(\<And>t. task_id (g t) = task_id t) \<Longrightarrow> map task_id (map g ts) = map task_id ts"
  by simp

lemma tasks_ok_empty: "tasks_ok empty_db"
  by (simp add: tasks_ok_def empty_db_def)

lemma tasks_ok_start: "tasks_ok db \<Longrightarrow> tasks_ok (snd (task_start kind s d now db))"
proof -
  assume "tasks_ok db"
  then have "sorted_wrt (<) (map task_id (tasks db @ [t]))" if "task_id t = task_seq db + 1" for t
    using that by (auto simp: tasks_ok_def sorted_wrt_append less_Suc_eq_le)
  then have "sorted_wrt (<) (map task_id (filter P (tasks db @ [t])))" if "task_id t = task_seq db + 1" for t P
    using that unfolding sorted_wrt_map by (intro sorted_wrt_filter)
  with \<open>tasks_ok db\<close> show ?thesis
    by (auto simp: tasks_ok_def task_start_def Let_def simp del: filter_append)
qed

lemma tasks_ok_update:
  "tasks_ok db \<Longrightarrow> (\<And>t. task_id (f t) = task_id t) \<Longrightarrow> tasks_ok (update_tasks P f db)"
  by (auto simp: tasks_ok_def update_tasks_def comp_def if_distrib [of task_id] cong: if_cong)

lemma tasks_ok_others:
  assumes "tasks_ok db"
  shows "tasks_ok (task_finish i status error n m k now db)"
    "tasks_ok (task_discard i db)" "tasks_ok (snd (abort_stale_running_tasks now db))"
  using assms
  by (auto simp: task_finish_def abort_stale_running_tasks_def tasks_ok_def task_discard_def sorted_wrt_map
      intro!: tasks_ok_update [unfolded tasks_ok_def sorted_wrt_map] sorted_wrt_filter)


lemma newest_last:
  assumes "tasks_ok db" and "task_id x = task_seq db + 1" and "n > 0"
  shows "newest_task_ids n (tasks db @ [x]) = (task_seq db + 1) # take (n - 1) (rev (map task_id (tasks db)))"
proof -
  have "sorted (map task_id (tasks db @ [x]))"
    using assms(1,2) by (force simp: tasks_ok_def sorted_append strict_sorted_imp_sorted)
  then have "sort (map task_id (tasks db @ [x])) = map task_id (tasks db @ [x])"
    by (rule sorted_sort_id)
  with assms(2,3) show ?thesis by (cases n) (simp_all add: newest_task_ids_def)
qed

lemma length_filter_ids:
  assumes "distinct (map f xs)" and "\<forall>x\<in>set xs. P x \<longrightarrow> f x \<in> set keep"
  shows "length (filter P xs) \<le> length keep"
proof -
  have "distinct (map f (filter P xs))" using assms(1) by (simp add: distinct_map_filter)
  then have "length (filter P xs) = card (set (map f (filter P xs)))"
    by (metis distinct_card length_map)
  also have "\<dots> \<le> card (set keep)" by (rule card_mono) (use assms(2) in auto)
  also have "\<dots> \<le> length keep" by (rule card_length)
  finally show ?thesis .
qed

text \<open>Starting a task adds its running row, removes no other running row, keeps the finished
  rows among the newest hundred, and so leaves fewer than a hundred finished rows.\<close>

theorem task_start_retention:
  assumes "tasks_ok db"
  shows "(\<exists>t. task_by_id (fst (task_start kind s d now db)) (snd (task_start kind s d now db)) = Some t \<and>
      task_status t = ''running'' \<and> task_ended t = None) \<and>
    (\<forall>t\<in>set (tasks db). task_ended t = None \<longrightarrow> t \<in> set (tasks (snd (task_start kind s d now db)))) \<and>
    length (filter (\<lambda>t. task_ended t \<noteq> None) (tasks (snd (task_start kind s d now db)))) < TASK_LOG_KEEP"
proof -
  define i where "i = fst (task_start kind s d now db)"
  define db' where "db' = snd (task_start kind s d now db)"
  define x where "x = \<lparr>task_id = task_seq db + 1, task_kind = kind, task_source = s,
      task_destination = d, task_started = now, task_ended = None, task_status = ''running'',
      task_error = '''', files_synced = 0, task_differences = 0, entries_scanned = 0\<rparr>"
  let ?old = "take (TASK_LOG_KEEP - 1) (rev (map task_id (tasks db)))"
  have n: "newest_task_ids TASK_LOG_KEEP (tasks db @ [x]) = (task_seq db + 1) # ?old"
    by (rule newest_last [OF assms(1)]) (simp_all add: x_def TASK_LOG_KEEP_def)
  have i: "i = task_seq db + 1" by (simp add: i_def task_start_def Let_def)
  have old: "task_id t < i" if "t \<in> set (tasks db)" for t
    using assms(1) that by (auto simp: tasks_ok_def i)
  have t': "tasks db' = filter (\<lambda>t. \<not> (task_ended t \<noteq> None \<and> task_id t \<notin> set (i # ?old))) (tasks db) @ [x]"
    unfolding db'_def task_start_def Let_def x_def [symmetric] n i by (simp add: x_def)
  have "List.find (\<lambda>t. task_id t = i) (filter P (tasks db) @ [x]) = Some x" for P
  proof -
    have "List.find (\<lambda>t. task_id t = i) (filter P (tasks db)) = None"
      using old by (fastforce simp: find_None_iff)
    moreover have "List.find Q (xs @ [y]) = (case List.find Q xs of None \<Rightarrow> if Q y then Some y else None | r \<Rightarrow> r)"
      for Q and xs :: "TaskLogEntry list" and y by (induction xs) auto
    ultimately show ?thesis by (simp add: i x_def)
  qed
  then have f: "task_by_id i db' = Some x" by (simp only: task_by_id_def t')
  have "distinct (map task_id (tasks db))"
    using assms(1) by (auto simp: tasks_ok_def strict_sorted_iff)
  then have le: "length (filter (\<lambda>t. task_ended t \<noteq> None \<and> task_id t \<in> set ?old) (tasks db)) \<le> length ?old"
    by (intro length_filter_ids) auto
  have eq: "filter (\<lambda>t. task_ended t \<noteq> None) (tasks db') =
      filter (\<lambda>t. task_ended t \<noteq> None \<and> task_id t \<in> set ?old) (tasks db)"
    unfolding t' using old by (auto simp: x_def intro!: filter_cong dest: less_imp_neq)
  have "length ?old < TASK_LOG_KEEP" by (simp add: TASK_LOG_KEEP_def)
  with le have "length (filter (\<lambda>t. task_ended t \<noteq> None) (tasks db')) < TASK_LOG_KEEP"
    unfolding eq by (rule order_le_less_trans)
  moreover have "task_status x = ''running''" "task_ended x = None" by (simp_all add: x_def)
  ultimately show ?thesis using f unfolding i_def [symmetric] db'_def [symmetric] by (auto simp: t')
qed

lemma task_start_retention_witness:
  "length (filter (\<lambda>t. task_ended t \<noteq> None) (tasks (snd (task_start ''sync'' ''s'' ''d'' 0 empty_db)))) < 100"
  using task_start_retention [OF tasks_ok_empty, of "''sync''" "''s''" "''d''" 0]
  by (simp add: TASK_LOG_KEEP_def)

section \<open>The restart notice\<close>

lemma notice_of_update:
  "restart_notice s (db\<lparr>source_meta := AList.update s' m t\<rparr>) =
     (if s = s' then map_option (\<lambda>at. (at, restart_gap_started m)) (restart_notice_at m)
      else restart_notice s (db\<lparr>source_meta := t\<rparr>))"
  by (simp add: restart_notice_def tbl_simps)

text \<open>A raised notice stays as it is until it is covered or dismissed: raising it again changes
  nothing, so the reported gap never shrinks, and an action clears it exactly when the action
  began at or after the notice.\<close>

theorem restart_notice_lifecycle:
  "(\<exists>n. restart_notice s (snd (raise_restart_notice s now db)) = Some n \<and>
      (restart_notice s db \<noteq> None \<longrightarrow> restart_notice s db = Some n) \<and>
      (restart_notice s db = None \<longrightarrow> n = (now, last_event_observed_at (meta_of s db))) \<and>
      (fst (raise_restart_notice s now db) \<longleftrightarrow> restart_notice s db = None)) \<and>
   restart_notice s (snd (clear_restart_notice_if_covered s started db)) =
     (case restart_notice s db of None \<Rightarrow> None
      | Some n \<Rightarrow> if fst n \<le> started then None else Some n) \<and>
   restart_notice s (dismiss_restart_notice s db) = None"
proof (intro conjI)
  show "\<exists>n. restart_notice s (snd (raise_restart_notice s now db)) = Some n \<and>
      (restart_notice s db \<noteq> None \<longrightarrow> restart_notice s db = Some n) \<and>
      (restart_notice s db = None \<longrightarrow> n = (now, last_event_observed_at (meta_of s db))) \<and>
      (fst (raise_restart_notice s now db) \<longleftrightarrow> restart_notice s db = None)"
    by (cases "map_of (source_meta db) s")
      (auto simp: raise_restart_notice_def notice_of_update restart_notice_def tbl_simps empty_meta_def
        meta_of_def Let_def)
  show "restart_notice s (snd (clear_restart_notice_if_covered s started db)) =
     (case restart_notice s db of None \<Rightarrow> None
      | Some n \<Rightarrow> if fst n \<le> started then None else Some n)"
    by (auto simp: clear_restart_notice_if_covered_def restart_notice_def tbl_simps split: option.split)
  show "restart_notice s (dismiss_restart_notice s db) = None"
    by (auto simp: dismiss_restart_notice_def restart_notice_def tbl_simps split: option.split)
qed

lemma restart_notice_lifecycle_witness:
  "restart_notice ''s'' (snd (clear_restart_notice_if_covered ''s'' 4
     (snd (raise_restart_notice ''s'' 5 empty_db)))) = Some (5, None)"
proof -
  have "restart_notice ''s'' empty_db = None" "last_event_observed_at (meta_of ''s'' empty_db) = None"
    by (simp_all add: restart_notice_def empty_db_def meta_of_def empty_meta_def)
  with restart_notice_lifecycle [of "''s''" 5 empty_db]
    restart_notice_lifecycle [of "''s''" 5 "snd (raise_restart_notice ''s'' 5 empty_db)" 4]
  show ?thesis by simp
qed

section \<open>Issues\<close>

lemma fold_update_lookup:
  "map_of (fold (\<lambda>p. AList.update (f p) v) ps t) k = (if \<exists>p\<in>set ps. k = f p then Some v else map_of t k)"
  by (induction ps arbitrary: t) (auto simp: tbl_simps)

lemma map_of_filter_key:
  "map_of (filter (\<lambda>(k, _). P k) t) k = (if P k then map_of t k else None)"
  by (induction t) auto

text \<open>Replacing the issues of one kind leaves exactly the given paths under that kind and does
  not touch any other kind or destination.\<close>

theorem replaced_issues_exact:
  "map_of (issues (replace_destination_issues (s, d) cycle kind paths message now db)) (s', d', p, kind') =
     (if (s', d') = (s, d) \<and> kind' = kind then
        if p \<in> set paths then Some \<lparr>iss_cycle = Some cycle, iss_message = message, iss_updated = now\<rparr> else None
      else map_of (issues db) (s', d', p, kind'))"
proof -
  have "filter (\<lambda>((s', d', _, kd), _). \<not> ((s', d') = (s, d) \<and> kd = kind)) (issues db) =
      filter (\<lambda>(k, _). (\<lambda>(s', d', _, kd). \<not> ((s', d') = (s, d) \<and> kd = kind)) k) (issues db)"
    by (rule filter_cong) (auto split: prod.splits)
  then show ?thesis
    by (auto simp: replace_destination_issues_def fold_update_lookup map_of_filter_key)
qed

end
