(* ===== verification/Manifest.thy ===== *)
theory Manifest
  imports Prelude Paths Config Store
begin

text \<open>
  Snapshots of a tree as manifests, their comparison and the verification of a copy
  (\<open>src/src/core/sync/mod.rs\<close>): when two entries match, the difference of two manifests, the report
  that \<open>Compare\<close> stores, and the check that ends a pass. A hash map built from a manifest keeps
  the last entry of a path. Sizes and times are the \<open>i64\<close> values; their differences are taken in
  \<open>i128\<close>, which does not wrap. The permission bits are a 32 bit word.
\<close>

section \<open>Entries\<close>

record SnapshotEntry =
  rel_path :: string
  file_type :: string
  size_of :: int
  mtime_ns :: int
  mode_bits :: u32
  hash :: "string option"

definition EXACT_MTIME_TOLERANCE_NS :: int where "EXACT_MTIME_TOLERANCE_NS = 1000"
definition DELTA_MIN_SIZE :: nat where "DELTA_MIN_SIZE = 256 * 1024"
definition DELTA_MAX_SIZE :: nat where "DELTA_MAX_SIZE = 512 * 1024 * 1024"

definition mtimes_match :: "int \<Rightarrow> int \<Rightarrow> NativeSyncConfig \<Rightarrow> bool" where
  "mtimes_match l r sync \<longleftrightarrow> \<bar>l - r\<bar> \<le> int (modify_window_secs sync) * 1000000000"

definition mtimes_match_exact :: "int \<Rightarrow> int \<Rightarrow> bool" where
  "mtimes_match_exact l r \<longleftrightarrow> \<bar>l - r\<bar> \<le> EXACT_MTIME_TOLERANCE_NS"

definition entries_match_with :: "SnapshotEntry \<Rightarrow> SnapshotEntry \<Rightarrow> NativeSyncConfig \<Rightarrow> bool \<Rightarrow> bool" where
  "entries_match_with l r sync exact =
     (if file_type l \<noteq> file_type r then False
      else if file_type l = ''dir'' then mtimes_match (mtime_ns l) (mtime_ns r) sync
      else if file_type l = ''file'' \<and> (checksum sync \<or> (hash l \<noteq> None \<and> hash r \<noteq> None))
        then size_of l = size_of r \<and> hash l = hash r
      else if file_type l = ''file'' \<and> exact
        then size_of l = size_of r \<and> mtimes_match_exact (mtime_ns l) (mtime_ns r)
      else if file_type l = ''file''
        then size_of l = size_of r \<and> mtimes_match (mtime_ns l) (mtime_ns r) sync
      else if file_type l = ''symlink'' then hash l = hash r
      else False)"

definition entries_match :: "SnapshotEntry \<Rightarrow> SnapshotEntry \<Rightarrow> NativeSyncConfig \<Rightarrow> bool" where
  "entries_match l r sync = entries_match_with l r sync False"

definition entries_match_exact :: "SnapshotEntry \<Rightarrow> SnapshotEntry \<Rightarrow> NativeSyncConfig \<Rightarrow> bool" where
  "entries_match_exact l r sync = entries_match_with l r sync True"

definition entry_mode_differs :: "SnapshotEntry \<Rightarrow> SnapshotEntry \<Rightarrow> bool" where
  "entry_mode_differs l r \<longleftrightarrow> file_type l = ''file'' \<and> mode_bits l \<noteq> mode_bits r"

definition saturating_mul :: "nat \<Rightarrow> nat \<Rightarrow> nat" where
  "saturating_mul a b = min (a * b) (2 ^ 64 - 1)"

definition should_attempt_delta :: "SnapshotEntry \<Rightarrow> SnapshotEntry \<Rightarrow> bool" where
  "should_attempt_delta source existing =
     (if file_type source \<noteq> ''file'' \<or> file_type existing \<noteq> ''file'' \<or> hash source \<noteq> None then False
      else let s = nat (size_of source); e = nat (size_of existing)
      in if \<not> (DELTA_MIN_SIZE \<le> s \<and> s \<le> DELTA_MAX_SIZE) \<or> e = 0 then False
         else if s = e then False
         else saturating_mul (min s e) 10 \<ge> saturating_mul (max s e) 7)"

definition ensure_source_stable :: "(int \<times> int) option \<Rightarrow> SnapshotEntry \<Rightarrow> string + unit" where
  "ensure_source_stable live e =
     (case live of
        None \<Rightarrow> Inl (''failed to re-check source'')
      | Some (len, mtime) \<Rightarrow>
          bail_if (len \<noteq> size_of e \<or> mtime \<noteq> mtime_ns e) (''source changed while copying '' @ rel_path e))"

section \<open>The difference of two manifests\<close>

record ManifestDiff =
  transfer :: "(SnapshotEntry \<times> SnapshotEntry option) list"
  type_mismatches :: "SnapshotEntry list"
  missing_dirs :: "SnapshotEntry list"
  extras :: "SnapshotEntry list"
  mode_fixes :: "SnapshotEntry list"
  in_sync_count :: nat

definition map_entry_refs :: "SnapshotEntry list \<Rightarrow> string \<Rightarrow> SnapshotEntry option" where
  "map_entry_refs entries = map_of (rev (map (\<lambda>e. (rel_path e, e)) entries))"

definition diff_source_entry :: "(string \<Rightarrow> SnapshotEntry option) \<Rightarrow> path_buf list \<Rightarrow> NativeSyncConfig \<Rightarrow> bool \<Rightarrow>
    SnapshotEntry \<Rightarrow> ManifestDiff \<Rightarrow> ManifestDiff" where
  "diff_source_entry dst_map ex sync exact entry diff =
     (if is_rel_excluded (rel_path entry) ex then diff
      else case dst_map (rel_path entry) of
        None \<Rightarrow>
          if file_type entry = ''dir'' then diff\<lparr>missing_dirs := missing_dirs diff @ [entry]\<rparr>
          else diff\<lparr>transfer := transfer diff @ [(entry, None)]\<rparr>
      | Some existing \<Rightarrow>
          if file_type existing \<noteq> file_type entry
          then diff\<lparr>type_mismatches := type_mismatches diff @ [entry]\<rparr>
          else if file_type entry = ''dir'' \<or> entries_match_with entry existing sync exact
          then let diff = diff\<lparr>in_sync_count := in_sync_count diff + 1\<rparr>
               in if entry_mode_differs entry existing
                  then diff\<lparr>mode_fixes := mode_fixes diff @ [entry]\<rparr> else diff
          else diff\<lparr>transfer := transfer diff @ [(entry, Some existing)]\<rparr>)"

definition diff_manifests :: "SnapshotEntry list \<Rightarrow> SnapshotEntry list \<Rightarrow> path_buf list \<Rightarrow> NativeSyncConfig \<Rightarrow> bool \<Rightarrow>
    ManifestDiff" where
  "diff_manifests source dst ex sync exact =
     (let diff = fold (diff_source_entry (map_entry_refs dst) ex sync exact) source
            \<lparr>transfer = [], type_mismatches = [], missing_dirs = [], extras = [], mode_fixes = [],
             in_sync_count = 0\<rparr>
      in if mirror sync
         then diff\<lparr>extras := filter (\<lambda>e. \<not> is_rel_excluded (rel_path e) ex \<and>
                map_entry_refs source (rel_path e) = None) dst\<rparr>
         else diff)"

definition entries_to_copy :: "ManifestDiff \<Rightarrow> (SnapshotEntry \<times> SnapshotEntry option) list" where
  "entries_to_copy diff = transfer diff @
     map (\<lambda>e. (e, None)) (filter (\<lambda>e. file_type e \<noteq> ''dir'') (type_mismatches diff))"

text \<open>\<open>sort_by\<close> is stable; it orders by depth and then by path, both descending.\<close>

definition extra_paths_deepest_first :: "ManifestDiff \<Rightarrow> string list" where
  "extra_paths_deepest_first diff =
     sort_key (\<lambda>p. - int (path_depth p)) (rev (sort (map rel_path (extras diff))))"

section \<open>The compare report\<close>

definition SCAN_DIFF_PER_KIND_CAP :: nat where "SCAN_DIFF_PER_KIND_CAP = 200"

text \<open>The counter of a kind is the number of entries of that kind pushed so far.\<close>

definition push_diff :: "string \<Rightarrow> SnapshotEntry \<Rightarrow> ScanDiffEntry list \<Rightarrow> ScanDiffEntry list" where
  "push_diff kind e diffs =
     (if length (filter (\<lambda>d. diff_kind d = kind) diffs) < SCAN_DIFF_PER_KIND_CAP
      then diffs @ [\<lparr>diff_path = rel_path e, diff_kind = kind, diff_type = file_type e\<rparr>] else diffs)"

definition scan_samples :: "NativeSyncConfig \<Rightarrow> ManifestDiff \<Rightarrow> (string \<times> SnapshotEntry) list" where
  "scan_samples sync diff =
     map (\<lambda>(e, existing). (if existing = None then ''add'' else ''update'', e)) (transfer diff)
     @ map (\<lambda>e. (''add'', e)) (missing_dirs diff)
     @ map (\<lambda>e. (''type_mismatch'', e)) (type_mismatches diff)
     @ map (\<lambda>e. (''metadata'', e)) (mode_fixes diff)
     @ (if mirror sync then map (\<lambda>e. (''delete'', e)) (extras diff) else [])"

definition build_scan_report :: "string \<Rightarrow> string \<Rightarrow> SnapshotEntry list \<Rightarrow> SnapshotEntry list \<Rightarrow> path_buf list \<Rightarrow>
    NativeSyncConfig \<Rightarrow> bool \<Rightarrow> int \<Rightarrow> ScanReport" where
  "build_scan_report source_id destination_id source dst ex sync exact now =
     (let diff = diff_manifests source dst ex sync exact;
          samples = scan_samples sync diff;
          count = (\<lambda>kind. length (filter (\<lambda>(k, _). k = kind) samples));
          diffs = sort_key diff_path (fold (\<lambda>(k, e). push_diff k e) samples [])
      in \<lparr>rep_source = source_id, rep_destination = destination_id, scanned_at = now,
          source_entries = length source, dst_entries = length dst, in_sync = in_sync_count diff,
          to_add = count ''add'', to_update = count ''update'', to_delete = count ''delete'',
          type_mismatch = count ''type_mismatch'', metadata = count ''metadata'',
          differences = diffs,
          truncated = (count ''add'' + count ''update'' + count ''delete'' + count ''type_mismatch''
            + count ''metadata'' > length diffs),
          rep_error = '''', rep_method = ''''\<rparr>)"

section \<open>Verification\<close>

text \<open>The loops run over hash maps, in an order the program does not fix. Whether they end
  without an error does not depend on it; the first error found does, so an error is any one of
  those that the model lists.\<close>

datatype verify_error = Mismatch string | Missing string | ExtraPath string | BadPath path_error
  | Unreadable string

definition verify_errors :: "SnapshotEntry list \<Rightarrow> SnapshotEntry list \<Rightarrow> string list \<Rightarrow> path_buf list \<Rightarrow>
    NativeSyncConfig \<Rightarrow> verify_error list" where
  "verify_errors expected actual ignored ex sync =
     (let want_of = map_entry_refs expected; got_of = map_entry_refs actual in
      List.map_filter (\<lambda>rel. if rel \<in> set ignored then None
          else case (want_of rel, got_of rel) of
            (Some want, Some got) \<Rightarrow> if entries_match_exact want got sync then None else Some (Mismatch rel)
          | (Some want, None) \<Rightarrow> Some (Missing rel)
          | (None, _) \<Rightarrow> None) (remdups (map rel_path expected))
      @ (if mirror sync
         then List.map_filter (\<lambda>rel. if is_rel_excluded rel ex \<or> rel \<in> set ignored then None
                else if want_of rel = None then Some (ExtraPath rel) else None)
                (remdups (map rel_path actual))
         else []))"

definition verify_snapshot_entries :: "SnapshotEntry list \<Rightarrow> SnapshotEntry list \<Rightarrow> string list \<Rightarrow> path_buf list \<Rightarrow>
    NativeSyncConfig \<Rightarrow> verify_error + unit" where
  "verify_snapshot_entries expected actual ignored ex sync =
     first_error (map Inl (verify_errors expected actual ignored ex sync))"

text \<open>What the file system returns for a path of the destination is a parameter: \<open>None\<close> when
  nothing is there, an error when the entry cannot be read back.\<close>

fun verify_copied_entries :: "(path_buf \<Rightarrow> (string + SnapshotEntry) option) \<Rightarrow> path_buf \<Rightarrow> SnapshotEntry list \<Rightarrow>
    string list \<Rightarrow> NativeSyncConfig \<Rightarrow> verify_error + unit" where
  "verify_copied_entries read dst_root [] ignored sync = Inr ()"
| "verify_copied_entries read dst_root (want # copied) ignored sync =
     (if file_type want = ''dir'' \<or> rel_path want \<in> set ignored
      then verify_copied_entries read dst_root copied ignored sync
      else case safe_join_rel dst_root (rel_path want) of
        Inl e \<Rightarrow> Inl (BadPath e)
      | Inr path \<Rightarrow>
          (case read path of
             None \<Rightarrow> Inl (Missing (rel_path want))
           | Some (Inl e) \<Rightarrow> Inl (Unreadable e)
           | Some (Inr got) \<Rightarrow>
               if entries_match_exact want got sync
               then verify_copied_entries read dst_root copied ignored sync
               else Inl (Mismatch (rel_path want))))"

section \<open>What the comparison computes\<close>

definition needs_copy :: "(string \<Rightarrow> SnapshotEntry option) \<Rightarrow> NativeSyncConfig \<Rightarrow> bool \<Rightarrow> SnapshotEntry \<Rightarrow> bool" where
  "needs_copy dst sync exact e \<longleftrightarrow> file_type e \<noteq> ''dir'' \<and>
     (case dst (rel_path e) of None \<Rightarrow> True
      | Some x \<Rightarrow> file_type x = file_type e \<and> \<not> entries_match_with e x sync exact)"

definition other_type :: "(string \<Rightarrow> SnapshotEntry option) \<Rightarrow> SnapshotEntry \<Rightarrow> bool" where
  "other_type dst e \<longleftrightarrow> (\<exists>x. dst (rel_path e) = Some x \<and> file_type x \<noteq> file_type e)"

definition absent_dir :: "(string \<Rightarrow> SnapshotEntry option) \<Rightarrow> SnapshotEntry \<Rightarrow> bool" where
  "absent_dir dst e \<longleftrightarrow> file_type e = ''dir'' \<and> dst (rel_path e) = None"

definition agrees :: "(string \<Rightarrow> SnapshotEntry option) \<Rightarrow> NativeSyncConfig \<Rightarrow> bool \<Rightarrow> SnapshotEntry \<Rightarrow> bool" where
  "agrees dst sync exact e \<longleftrightarrow> (\<exists>x. dst (rel_path e) = Some x \<and> file_type x = file_type e \<and>
     (file_type e = ''dir'' \<or> entries_match_with e x sync exact))"

lemmas class_defs = needs_copy_def other_type_def absent_dir_def agrees_def

lemma diff_fold:
  "fold (diff_source_entry dst ex sync exact) es diff = diff\<lparr>
     transfer := transfer diff @ map (\<lambda>e. (e, dst (rel_path e)))
       (filter (\<lambda>e. \<not> is_rel_excluded (rel_path e) ex \<and> needs_copy dst sync exact e) es),
     type_mismatches := type_mismatches diff @
       filter (\<lambda>e. \<not> is_rel_excluded (rel_path e) ex \<and> other_type dst e) es,
     missing_dirs := missing_dirs diff @
       filter (\<lambda>e. \<not> is_rel_excluded (rel_path e) ex \<and> absent_dir dst e) es,
     mode_fixes := mode_fixes diff @ filter (\<lambda>e. \<not> is_rel_excluded (rel_path e) ex \<and>
       agrees dst sync exact e \<and> (\<forall>x. dst (rel_path e) = Some x \<longrightarrow> entry_mode_differs e x)) es,
     in_sync_count := in_sync_count diff +
       length (filter (\<lambda>e. \<not> is_rel_excluded (rel_path e) ex \<and> agrees dst sync exact e) es)\<rparr>"
proof (induction es arbitrary: diff)
  case (Cons e es)
  have "diff_source_entry dst ex sync exact e diff = diff\<lparr>
     transfer := transfer diff @ (if \<not> is_rel_excluded (rel_path e) ex \<and> needs_copy dst sync exact e
       then [(e, dst (rel_path e))] else []),
     type_mismatches := type_mismatches diff @
       (if \<not> is_rel_excluded (rel_path e) ex \<and> other_type dst e then [e] else []),
     missing_dirs := missing_dirs diff @
       (if \<not> is_rel_excluded (rel_path e) ex \<and> absent_dir dst e then [e] else []),
     mode_fixes := mode_fixes diff @ (if \<not> is_rel_excluded (rel_path e) ex \<and>
       agrees dst sync exact e \<and> (\<forall>x. dst (rel_path e) = Some x \<longrightarrow> entry_mode_differs e x)
       then [e] else []),
     in_sync_count := in_sync_count diff +
       (if \<not> is_rel_excluded (rel_path e) ex \<and> agrees dst sync exact e then 1 else 0)\<rparr>"
    by (cases "is_rel_excluded (rel_path e) ex"; cases "dst (rel_path e)")
      (simp_all add: diff_source_entry_def class_defs Let_def)
  then show ?case by (simp add: Cons)
qed simp

lemma diff_fields:
  "transfer (diff_manifests source dst ex sync exact) = map (\<lambda>e. (e, map_entry_refs dst (rel_path e)))
     (filter (\<lambda>e. \<not> is_rel_excluded (rel_path e) ex \<and> needs_copy (map_entry_refs dst) sync exact e) source)"
  "type_mismatches (diff_manifests source dst ex sync exact) =
     filter (\<lambda>e. \<not> is_rel_excluded (rel_path e) ex \<and> other_type (map_entry_refs dst) e) source"
  "missing_dirs (diff_manifests source dst ex sync exact) =
     filter (\<lambda>e. \<not> is_rel_excluded (rel_path e) ex \<and> absent_dir (map_entry_refs dst) e) source"
  "mode_fixes (diff_manifests source dst ex sync exact) = filter (\<lambda>e. \<not> is_rel_excluded (rel_path e) ex \<and>
     agrees (map_entry_refs dst) sync exact e \<and>
     (\<forall>x. map_entry_refs dst (rel_path e) = Some x \<longrightarrow> entry_mode_differs e x)) source"
  "in_sync_count (diff_manifests source dst ex sync exact) =
     length (filter (\<lambda>e. \<not> is_rel_excluded (rel_path e) ex \<and> agrees (map_entry_refs dst) sync exact e) source)"
  "extras (diff_manifests source dst ex sync exact) = (if mirror sync then
     filter (\<lambda>e. \<not> is_rel_excluded (rel_path e) ex \<and> map_entry_refs source (rel_path e) = None) dst else [])"
  by (simp_all add: diff_manifests_def diff_fold Let_def)

text \<open>The comparison classifies every entry of the source that is not excluded exactly once: as
  a directory to create, an entry to copy, an entry whose type differs, or one in sync.\<close>

theorem diff_classifies:
  "length (missing_dirs (diff_manifests source dst ex sync exact))
   + length (transfer (diff_manifests source dst ex sync exact))
   + length (type_mismatches (diff_manifests source dst ex sync exact))
   + in_sync_count (diff_manifests source dst ex sync exact)
   = length (filter (\<lambda>e. \<not> is_rel_excluded (rel_path e) ex) source)"
  unfolding diff_fields length_map
proof (induction source)
  case (Cons e source)
  show ?case
  proof (cases "map_entry_refs dst (rel_path e)")
    case None
    with Cons show ?thesis by (simp add: class_defs)
  next
    case (Some x)
    with Cons show ?thesis by (auto simp: class_defs)
  qed
qed simp

lemma map_entry_refs_mem: "map_entry_refs es p = Some e \<Longrightarrow> e \<in> set es \<and> rel_path e = p"
  unfolding map_entry_refs_def by (drule map_of_SomeD) auto

lemma map_entry_refs_None: "map_entry_refs es p = None \<longleftrightarrow> p \<notin> rel_path ` set es"
  by (auto simp: map_entry_refs_def map_of_eq_None_iff image_image)

lemma map_entry_refs_distinct:
  "distinct (map rel_path es) \<Longrightarrow> e \<in> set es \<Longrightarrow> map_entry_refs es (rel_path e) = Some e"
  by (simp add: map_entry_refs_def map_of_eq_Some_iff rev_map [symmetric] comp_def image_image)

lemma map_filter_Nil: "List.map_filter f xs = [] \<longleftrightarrow> (\<forall>x\<in>set xs. f x = None)"
  by (auto simp: map_filter_def filter_empty_conv)

lemma first_error_Inl: "first_error (map Inl es) = Inr () \<longleftrightarrow> es = []"
  by (cases es) simp_all

lemma entries_match_type: "entries_match_with l r sync exact \<Longrightarrow> file_type l = file_type r"
  by (simp add: entries_match_with_def split: if_splits)


definition demo_entry :: "string \<Rightarrow> string \<Rightarrow> int \<Rightarrow> SnapshotEntry" where
  "demo_entry p t m = \<lparr>rel_path = p, file_type = t, size_of = 3, mtime_ns = m, mode_bits = 420, hash = None\<rparr>"

lemma demo_not_excluded: "\<not> is_rel_excluded ''a'' [''tmp'']" "\<not> is_rel_excluded ''d'' [''tmp'']"
  by (simp_all add: is_rel_excluded_def exclude_matches_def str_simps)


text \<open>For every entry but a directory the exact comparison is the stricter one, unless the
  window is zero: what matches exactly also matches within a window of at least one second.\<close>

theorem exact_match_within_window:
  assumes "entries_match_exact l r sync" and "modify_window_secs sync > 0"
  shows "entries_match l r sync"
proof -
  have "mtimes_match (mtime_ns l) (mtime_ns r) sync" if "mtimes_match_exact (mtime_ns l) (mtime_ns r)"
  proof -
    have "1000000000 \<le> int (modify_window_secs sync) * 1000000000" using assms(2) by simp
    with that show ?thesis by (simp add: mtimes_match_def mtimes_match_exact_def EXACT_MTIME_TOLERANCE_NS_def)
  qed
  with assms(1) show ?thesis
    by (simp add: entries_match_def entries_match_exact_def entries_match_with_def split: if_splits)
qed

lemma exact_match_within_window_witness:
  "entries_match (demo_entry ''a'' ''file'' 7) (demo_entry ''a'' ''file'' 900) NativeSyncConfig_default"
  by (rule exact_match_within_window)
    (simp_all add: entries_match_exact_def entries_match_with_def demo_entry_def mtimes_match_exact_def
      EXACT_MTIME_TOLERANCE_NS_def NativeSyncConfig_default_def DEFAULT_MODIFY_WINDOW_SECS_def)

section \<open>Deleting children first\<close>

lemma depth_sorted:
  assumes "i < j" and "j < length (extra_paths_deepest_first diff)"
  shows "path_depth (extra_paths_deepest_first diff ! j) \<le> path_depth (extra_paths_deepest_first diff ! i)"
proof -
  let ?xs = "extra_paths_deepest_first diff"
  have "sorted (map (\<lambda>p. - int (path_depth p)) ?xs)"
    unfolding extra_paths_deepest_first_def by (rule sorted_sort_key)
  from sorted_nth_mono [OF this, of i j] assms show ?thesis by simp
qed

text \<open>Mirror deletion is ordered. The list holds exactly the destination-only paths, and a path
  comes after everything below it, so a directory is deleted when its listed contents are gone.\<close>

theorem extras_children_first:
  "set (extra_paths_deepest_first diff) = rel_path ` set (extras diff) \<and>
   (\<forall>i j. i < length (extra_paths_deepest_first diff) \<and> j < length (extra_paths_deepest_first diff) \<and>
      (\<exists>c more. components (extra_paths_deepest_first diff ! i) =
         components (extra_paths_deepest_first diff ! j) @ c # more) \<longrightarrow> i < j)"
proof (intro conjI allI impI)
  show "set (extra_paths_deepest_first diff) = rel_path ` set (extras diff)"
    by (simp add: extra_paths_deepest_first_def)
  fix i j
  let ?xs = "extra_paths_deepest_first diff"
  assume a: "i < length ?xs \<and> j < length ?xs \<and>
      (\<exists>c more. components (?xs ! i) = components (?xs ! j) @ c # more)"
  then have "path_depth (?xs ! j) < path_depth (?xs ! i)" by (auto simp: path_depth_def)
  then show "i < j"
    using depth_sorted [of j i diff] a by (cases i j rule: linorder_cases) auto
qed

lemma extras_children_first_witness:
  "extra_paths_deepest_first \<lparr>transfer = [], type_mismatches = [], missing_dirs = [],
     extras = [demo_entry ''a'' ''dir'' 0, demo_entry ''a/b'' ''file'' 0], mode_fixes = [],
     in_sync_count = 0\<rparr> = [''a/b'', ''a''] \<and> (0 :: nat) < 1"
proof -
  let ?d = "\<lparr>transfer = [], type_mismatches = [], missing_dirs = [],
     extras = [demo_entry ''a'' ''dir'' 0, demo_entry ''a/b'' ''file'' 0], mode_fixes = [],
     in_sync_count = 0\<rparr>"
  have x: "extra_paths_deepest_first ?d = [''a/b'', ''a'']"
    by (simp add: extra_paths_deepest_first_def demo_entry_def path_depth_def str_simps)
  have "components ''a/b'' = components ''a'' @ Normal ''b'' # []" by (simp add: str_simps)
  then have "components (extra_paths_deepest_first ?d ! 0) =
      components (extra_paths_deepest_first ?d ! 1) @ Normal ''b'' # []"
    unfolding x by simp
  moreover have "0 < length (extra_paths_deepest_first ?d)" "1 < length (extra_paths_deepest_first ?d)"
    by (simp_all add: x)
  ultimately have "(0 :: nat) < 1" using extras_children_first [of ?d] by blast
  with x show ?thesis by blast
qed

section \<open>The report names every difference\<close>

abbreviation diff_line :: "string \<times> SnapshotEntry \<Rightarrow> ScanDiffEntry" where
  "diff_line p \<equiv> \<lparr>diff_path = rel_path (snd p), diff_kind = fst p, diff_type = file_type (snd p)\<rparr>"

lemma push_fold:
  "length (fold (\<lambda>(k, e). push_diff k e) samples acc) \<le> length acc + length samples \<and>
   (length (fold (\<lambda>(k, e). push_diff k e) samples acc) = length acc + length samples \<longrightarrow>
      fold (\<lambda>(k, e). push_diff k e) samples acc = acc @ map diff_line samples)"
proof (induction samples arbitrary: acc)
  case (Cons p samples)
  obtain k e where p: "p = (k, e)" by fastforce
  show ?case
  proof (cases "length (filter (\<lambda>d. diff_kind d = k) acc) < SCAN_DIFF_PER_KIND_CAP")
    case True
    then have "fold (\<lambda>(k, e). push_diff k e) (p # samples) acc =
        fold (\<lambda>(k, e). push_diff k e) samples (acc @ [diff_line p])"
      by (simp add: p push_diff_def)
    then show ?thesis using Cons [of "acc @ [diff_line p]"] by simp
  next
    case False
    then have "fold (\<lambda>(k, e). push_diff k e) (p # samples) acc = fold (\<lambda>(k, e). push_diff k e) samples acc"
      by (simp add: p push_diff_def)
    then show ?thesis using Cons [of acc] by simp
  qed
qed simp

lemma kinds_count:
  assumes "\<forall>(k, e)\<in>set samples. k \<in> {''add'', ''update'', ''delete'', ''type_mismatch'', ''metadata''}"
  shows "length (filter (\<lambda>(k, _). k = ''add'') samples) + length (filter (\<lambda>(k, _). k = ''update'') samples)
    + length (filter (\<lambda>(k, _). k = ''delete'') samples) + length (filter (\<lambda>(k, _). k = ''type_mismatch'') samples)
    + length (filter (\<lambda>(k, _). k = ''metadata'') samples) = length samples"
  using assms by (induction samples) auto

lemma sample_kinds:
  "\<forall>(k, e)\<in>set (scan_samples sync diff). k \<in> {''add'', ''update'', ''delete'', ''type_mismatch'', ''metadata''}"
  by (auto simp: scan_samples_def split: if_splits)

text \<open>A report that is not truncated names every difference. Its lines are then exactly the
  entries to copy, to create, to replace, to delete and to chmod, and the counters add up to
  their number; so repairing the listed paths repairs the tree.\<close>

theorem report_names_all:
  fixes source dst ex sync exact source_id destination_id now
  defines "r \<equiv> build_scan_report source_id destination_id source dst ex sync exact now"
    and "diff \<equiv> diff_manifests source dst ex sync exact"
  assumes "\<not> truncated r"
  shows "diff_path ` set (differences r) =
      rel_path ` (fst ` set (transfer diff) \<union> set (missing_dirs diff) \<union> set (type_mismatches diff)
        \<union> set (mode_fixes diff) \<union> set (extras diff)) \<and>
    length (differences r) = to_add r + to_update r + to_delete r + type_mismatch r + metadata r"
proof -
  let ?s = "scan_samples sync diff"
  let ?f = "fold (\<lambda>(k, e). push_diff k e) ?s []"
  note count = kinds_count [OF sample_kinds [of sync diff]]
  have r: "differences r = sort_key diff_path ?f"
    "to_add r + to_update r + to_delete r + type_mismatch r + metadata r = length ?s"
    "truncated r \<longleftrightarrow> length ?s > length ?f"
    using count by (simp_all add: r_def build_scan_report_def diff_def [symmetric] Let_def)
  have len: "length ?f = length ?s" using assms(3) r(3) push_fold [of ?s "[]"] by simp
  then have "?f = map diff_line ?s" using push_fold [of ?s "[]"] by simp
  then have "diff_path ` set (differences r) = rel_path ` (snd ` set ?s)"
    by (simp add: r(1) image_image)
  moreover have "extras diff = []" if "\<not> mirror sync" using that by (simp add: diff_def diff_fields)
  then have "snd ` set ?s = fst ` set (transfer diff) \<union> set (missing_dirs diff) \<union> set (type_mismatches diff)
        \<union> set (mode_fixes diff) \<union> set (extras diff)"
    by (cases "mirror sync") (simp_all add: scan_samples_def image_Un image_image split_beta Un_assoc Un_left_commute)
  ultimately show ?thesis using len r by simp
qed

lemma report_names_all_witness:
  "diff_path ` set (differences (build_scan_report ''s'' ''d'' [demo_entry ''a'' ''file'' 7] [] []
     NativeSyncConfig_default True 0)) = {''a''}"
proof -
  have "\<not> truncated (build_scan_report ''s'' ''d'' [demo_entry ''a'' ''file'' 7] [] []
     NativeSyncConfig_default True 0)"
    by (simp add: build_scan_report_def scan_samples_def diff_fields class_defs map_entry_refs_def
        demo_entry_def is_rel_excluded_def push_diff_def SCAN_DIFF_PER_KIND_CAP_def Let_def)
  from report_names_all [OF this] show ?thesis
    by (simp add: diff_fields class_defs map_entry_refs_def demo_entry_def is_rel_excluded_def)
qed

end
