(* ===== verification/Walk.thy ===== *)
theory Walk
  imports Prelude Paths Config Store Manifest
begin

text \<open>
  Taking a snapshot (\<open>src/src/core/sync/mod.rs\<close>): the breadth-first walk of a directory tree with
  its filters, the entry made of each visited path, and the snapshot of a list of changed paths.

  The file system below the root is a value, a tree that does not change during the walk; a
  failing system call and a cancellation poll that fires end the walk early and are not modelled.
  A path below the root is the list of its names; its text is the names joined by slashes. A
  symbolic link is a leaf, as for \<open>symlink_metadata\<close>; a path that continues below one is not
  followed. The hash of a file's content and of a link's target are part of the tree.
\<close>

section \<open>Trees\<close>

record file_meta =
  meta_len :: int
  meta_mtime :: int
  meta_mode :: u32

datatype leaf_kind = RegularFile (content_hash: string) | Symlink (target_hash: string) | Special

datatype fs_node = Leaf leaf_kind file_meta | Dir file_meta "(string \<times> fs_node) list"

fun is_dir :: "fs_node \<Rightarrow> bool" where
  "is_dir (Dir m cs) = True"
| "is_dir (Leaf k m) = False"

fun lookup :: "fs_node \<Rightarrow> string list \<Rightarrow> fs_node option" where
  "lookup n [] = Some n"
| "lookup (Leaf k m) (c # q) = None"
| "lookup (Dir m cs) (c # q) = (case map_of cs c of None \<Rightarrow> None | Some k \<Rightarrow> lookup k q)"

text \<open>A directory lists a name once, and no name is empty, special or contains a slash.\<close>

fun tree_ok :: "fs_node \<Rightarrow> bool" where
  "tree_ok (Leaf k m) = True"
| "tree_ok (Dir m cs) \<longleftrightarrow> distinct (map fst cs) \<and> (\<forall>c\<in>set cs. valid_name (fst c)) \<and>
     (\<forall>c\<in>set cs. tree_ok (snd c))"

type_synonym names = "string list"

definition rel_of :: "names \<Rightarrow> string" where
  "rel_of p = join_with ''/'' p"

section \<open>The walk\<close>

datatype SnapshotMode = Source | Destination

definition entry_is_excluded :: "names \<Rightarrow> path_buf list \<Rightarrow> bool" where
  "entry_is_excluded p ex = (if p = [] then False else is_rel_excluded (rel_of p) ex)"

definition should_visit_path :: "names \<Rightarrow> SnapshotMode \<Rightarrow> path_buf list \<Rightarrow> bool" where
  "should_visit_path p m ex =
     (let name = (if p = [] then '''' else last p) in
      if name = INTERNAL_TMP \<or> name = INTERNAL_TRASH \<or> name = INTERNAL_PROBE then False
      else if m = Source then \<not> entry_is_excluded p ex
      else True)"

definition sorted_read_dir :: "(string \<times> fs_node) list \<Rightarrow> (string \<times> fs_node) list" where
  "sorted_read_dir cs = sort_key fst cs"

definition visited_children :: "(names \<Rightarrow> bool) \<Rightarrow> names \<Rightarrow> (string \<times> fs_node) list \<Rightarrow> (names \<times> fs_node) list" where
  "visited_children visit p cs =
     filter (\<lambda>(q, k). visit q) (map (\<lambda>(c, k). (p @ [c], k)) (sorted_read_dir cs))"

lemma size_children:
  "sum_list (map (size \<circ> snd) (filter (is_dir \<circ> snd) (visited_children visit p cs))) < size (Dir m cs)"
proof -
  have mono: "sum_list (map f (filter P xs)) \<le> sum_list (map f xs)" for f :: "_ \<Rightarrow> nat" and P and xs :: "(names \<times> fs_node) list"
    by (induction xs) auto
  have "sum_list (map (size \<circ> snd) (filter (is_dir \<circ> snd) (visited_children visit p cs)))
      \<le> sum_list (map (size \<circ> snd) (map (\<lambda>(c, k). (p @ [c], k)) (sorted_read_dir cs)))"
    unfolding visited_children_def by (rule order_trans [OF mono mono])
  also have "\<dots> = sum_list (map (size \<circ> snd) (sorted_read_dir cs))"
    by (simp add: comp_def split_beta)
  also have "\<dots> = sum_list (map (size \<circ> snd) cs)"
    by (simp add: sorted_read_dir_def flip: sum_mset_sum_list)
  also have "\<dots> \<le> size_list (size_prod (\<lambda>_. 0) size) cs"
    by (induction cs) (auto simp: size_prod_simp)
  finally show ?thesis by simp
qed

text \<open>The queue holds directories; a visited child is handed to the callback and queued when it is
  a directory. The result lists the callback's arguments in order.\<close>

function bfs :: "(names \<Rightarrow> bool) \<Rightarrow> (names \<times> fs_node) list \<Rightarrow> (names \<times> fs_node) list" where
  "bfs visit [] = []"
| "bfs visit ((p, Leaf k m) # queue) = bfs visit queue"
| "bfs visit ((p, Dir m cs) # queue) =
     (let kids = visited_children visit p cs
      in kids @ bfs visit (queue @ filter (is_dir \<circ> snd) kids))"
  by pat_completeness auto
termination
proof (relation "measures [\<lambda>(_, q). sum_list (map (size \<circ> snd) q), \<lambda>(_, q). length q]")
  fix visit p m cs queue kids
  assume "kids = visited_children visit p cs"
  then show "((visit, queue @ filter (is_dir \<circ> snd) kids), visit, (p, Dir m cs) # queue)
      \<in> measures [\<lambda>(_, q). sum_list (map (size \<circ> snd) q), \<lambda>(_, q). length q]"
    using size_children [of visit p cs m] by simp
qed auto

definition for_each_breadth_first_snapshot_path :: "names \<Rightarrow> fs_node \<Rightarrow> SnapshotMode \<Rightarrow> path_buf list \<Rightarrow>
    (names \<times> fs_node) list" where
  "for_each_breadth_first_snapshot_path start node m ex =
     (if \<not> is_dir node then (if start \<noteq> [] then [(start, node)] else [])
      else bfs (\<lambda>p. should_visit_path p m ex) [(start, node)])"

section \<open>Entries\<close>

definition snapshot_entry_from_metadata :: "string \<Rightarrow> bool \<Rightarrow> fs_node \<Rightarrow> SnapshotEntry option" where
  "snapshot_entry_from_metadata rel ck node =
     (let entry = (\<lambda>t m h. Some \<lparr>rel_path = rel, file_type = t, size_of = meta_len m,
            mtime_ns = meta_mtime m, mode_bits = meta_mode m, hash = h\<rparr>)
      in case node of
        Leaf (Symlink t) m \<Rightarrow> entry ''symlink'' m (Some t)
      | Dir m _ \<Rightarrow> entry ''dir'' m None
      | Leaf (RegularFile h) m \<Rightarrow> entry ''file'' m (if ck then Some h else None)
      | Leaf Special m \<Rightarrow> None)"

text \<open>The loop of the callback: a path whose text cannot be formed ends the whole snapshot.\<close>

fun entries_of_walk :: "bool \<Rightarrow> (names \<times> fs_node) list \<Rightarrow> path_error + SnapshotEntry list" where
  "entries_of_walk ck [] = Inr []"
| "entries_of_walk ck ((p, n) # rest) =
     (case rel_to_string (rel_of p) of
        Inl e \<Rightarrow> Inl e
      | Inr rel \<Rightarrow> map_sum id (\<lambda>es. (case snapshot_entry_from_metadata rel ck n of
            None \<Rightarrow> es | Some e \<Rightarrow> e # es)) (entries_of_walk ck rest))"

definition take_snapshot_with_excludes :: "fs_node \<Rightarrow> SnapshotMode \<Rightarrow> path_buf list \<Rightarrow> bool \<Rightarrow>
    path_error + SnapshotEntry list" where
  "take_snapshot_with_excludes root m ex ck =
     entries_of_walk ck (for_each_breadth_first_snapshot_path [] root m ex)"

definition take_snapshot :: "fs_node \<Rightarrow> SnapshotMode \<Rightarrow> path_error + SnapshotEntry list" where
  "take_snapshot root m = take_snapshot_with_excludes root m [] True"

section \<open>Snapshots of changed paths\<close>

type_synonym entry_map = "(string \<times> SnapshotEntry) list"

definition insert_entry :: "bool \<Rightarrow> names \<times> fs_node \<Rightarrow> entry_map \<Rightarrow> entry_map" where
  "insert_entry ck pn entries =
     (case rel_to_string (rel_of (fst pn)) of
        Inl _ \<Rightarrow> entries
      | Inr rel \<Rightarrow>
          (case snapshot_entry_from_metadata rel ck (snd pn) of
             None \<Rightarrow> entries | Some e \<Rightarrow> AList.update (rel_path e) e entries))"

definition collect_snapshot_path :: "fs_node \<Rightarrow> names \<Rightarrow> SnapshotMode \<Rightarrow> path_buf list \<Rightarrow> bool \<Rightarrow> bool \<Rightarrow>
    entry_map \<Rightarrow> entry_map" where
  "collect_snapshot_path root p m ex ck recur entries =
     (case lookup root p of
        None \<Rightarrow> entries
      | Some node \<Rightarrow>
          if is_dir node \<and> recur then
            let entries = (if p \<noteq> [] then insert_entry ck (p, node) entries else entries)
            in fold (insert_entry ck) (for_each_breadth_first_snapshot_path p node m ex) entries
          else insert_entry ck (p, node) entries)"

text \<open>\<open>sort_by\<close> on the path and then on the flag, \<open>true\<close> first.\<close>

definition sort_diff_paths :: "DiffPath list \<Rightarrow> DiffPath list" where
  "sort_diff_paths ps = sort_key dp_rel (sort_key (\<lambda>p. \<not> dp_recursive p) ps)"

definition covers :: "string option \<Rightarrow> string \<Rightarrow> bool" where
  "covers covering rel = (case covering of None \<Rightarrow> False
     | Some anc \<Rightarrow> length rel > length anc \<and> rel ! length anc = CHR ''/'' \<and> starts_with rel anc)"

definition names_of :: "path_buf \<Rightarrow> names" where
  "names_of p = map component_str (components p)"

fun diff_path_loop :: "fs_node \<Rightarrow> SnapshotMode \<Rightarrow> path_buf list \<Rightarrow> bool \<Rightarrow> DiffPath list \<Rightarrow> string option \<Rightarrow>
    entry_map \<Rightarrow> path_error + entry_map" where
  "diff_path_loop root m ex ck [] covering entries = Inr entries"
| "diff_path_loop root m ex ck (path # ps) covering entries =
     (if rel_str_is_internal (dp_rel path) then diff_path_loop root m ex ck ps covering entries
      else if covers covering (dp_rel path) then diff_path_loop root m ex ck ps covering entries
      else let covering = (if dp_recursive path then Some (dp_rel path) else None) in
        (case normalize_rel_path (dp_rel path) of
           Inl e \<Rightarrow> Inl e
         | Inr rel \<Rightarrow>
             if m = Source \<and> is_rel_excluded rel ex then diff_path_loop root m ex ck ps covering entries
             else diff_path_loop root m ex ck ps covering
               (collect_snapshot_path root (names_of rel) m ex ck (dp_recursive path) entries)))"

text \<open>\<open>into_values\<close> of a \<open>BTreeMap\<close>: in the order of the keys.\<close>

definition take_snapshot_diff_paths_with_excludes :: "fs_node \<Rightarrow> DiffPath list \<Rightarrow> SnapshotMode \<Rightarrow> path_buf list \<Rightarrow>
    bool \<Rightarrow> path_error + SnapshotEntry list" where
  "take_snapshot_diff_paths_with_excludes root ps m ex ck =
     map_sum id (\<lambda>entries. map snd (sort_key fst entries))
       (diff_path_loop root m ex ck (sort_diff_paths ps) None [])"

section \<open>What the walk visits\<close>

definition below :: "(names \<Rightarrow> bool) \<Rightarrow> names \<Rightarrow> fs_node \<Rightarrow> names \<Rightarrow> fs_node \<Rightarrow> bool" where
  "below visit p n r x \<longleftrightarrow> (\<exists>q. q \<noteq> [] \<and> r = p @ q \<and> lookup n q = Some x \<and>
     (\<forall>q'. q' \<noteq> [] \<longrightarrow> prefix q' q \<longrightarrow> visit (p @ q')))"

lemma below_Leaf [simp]: "\<not> below visit p (Leaf k m) r x"
proof
  assume "below visit p (Leaf k m) r x"
  then obtain q where "q \<noteq> []" "lookup (Leaf k m) q = Some x" by (auto simp: below_def)
  then show False by (cases q) simp_all
qed

lemma below_Dir:
  assumes "tree_ok (Dir m cs)"
  shows "below visit p (Dir m cs) r x \<longleftrightarrow> (\<exists>c k. (c, k) \<in> set cs \<and> visit (p @ [c]) \<and>
     (r = p @ [c] \<and> x = k \<or> below visit (p @ [c]) k r x))" (is "?L \<longleftrightarrow> ?R")
proof
  have look: "map_of cs c = Some k \<longleftrightarrow> (c, k) \<in> set cs" for c k
    using assms by (simp add: map_of_eq_Some_iff)
  show ?R if ?L
  proof -
    from that obtain q where q: "q \<noteq> []" "r = p @ q" "lookup (Dir m cs) q = Some x"
      "\<And>q'. q' \<noteq> [] \<Longrightarrow> prefix q' q \<Longrightarrow> visit (p @ q')" by (auto simp: below_def)
    then obtain c q1 where c: "q = c # q1" by (cases q) auto
    then obtain k where k: "(c, k) \<in> set cs" "lookup k q1 = Some x"
      using q(3) look by (auto split: option.splits)
    have v: "visit (p @ [c])" using q(4) [of "[c]"] by (simp add: c)
    have "below visit (p @ [c]) k r x" if "q1 \<noteq> []"
      using that k(2) q(2) c q(4) [of "c # q'" for q'] unfolding below_def by fastforce
    then show ?R using k v q(2) c by (cases "q1 = []") auto
  qed
  show ?L if ?R
  proof -
    from that obtain c k where k: "(c, k) \<in> set cs" "visit (p @ [c])"
      "r = p @ [c] \<and> x = k \<or> below visit (p @ [c]) k r x" by blast
    from k(3) obtain q1 where q1: "r = p @ c # q1" "lookup k q1 = Some x"
      "\<And>q'. q' \<noteq> [] \<Longrightarrow> prefix q' q1 \<Longrightarrow> visit (p @ c # q')"
      by (auto simp: below_def)
    have "visit (p @ q')" if "q' \<noteq> []" "prefix q' (c # q1)" for q'
      using that k(2) q1(3) by (cases q') (auto simp: prefix_Cons, metis append.right_neutral)
    moreover have "map_of cs c = Some k" using k(1) look by blast
    then have "lookup (Dir m cs) (c # q1) = Some x" using q1(2) by simp
    ultimately show ?L using q1(1) unfolding below_def by blast
  qed
qed

lemma visited_children_mem:
  "(r, k) \<in> set (visited_children visit p cs) \<longleftrightarrow> (\<exists>c. r = p @ [c] \<and> (c, k) \<in> set cs \<and> visit r)"
  unfolding visited_children_def sorted_read_dir_def by (auto simp: image_def split: prod.splits)

lemma bfs_mem:
  assumes "\<And>p n. (p, n) \<in> set qs \<Longrightarrow> tree_ok n"
  shows "(r, x) \<in> set (bfs visit qs) \<longleftrightarrow> (\<exists>p n. (p, n) \<in> set qs \<and> below visit p n r x)"
  using assms
proof (induction visit qs rule: bfs.induct)
  case (2 visit p k m queue)
  have "tree_ok n" if "(q, n) \<in> set queue" for q n using 2(2) [of q n] that by simp
  from 2(1) [OF this] show ?case by auto
next
  case (3 visit p m cs queue)
  let ?kids = "visited_children visit p cs"
  let ?next = "queue @ filter (is_dir \<circ> snd) ?kids"
  have ok: "tree_ok (Dir m cs)" by (rule 3(2) [of p]) simp
  have next_ok: "tree_ok k" if "(q, k) \<in> set ?next" for q k
    using that ok 3(2) [of q k] by (auto simp: visited_children_mem)
  have dirs: "is_dir n" if "below visit q n r x" for q n using that by (cases n) simp_all
  have "(r, x) \<in> set (bfs visit ((p, Dir m cs) # queue)) \<longleftrightarrow>
      (r, x) \<in> set ?kids \<or> (r, x) \<in> set (bfs visit ?next)"
    by (simp only: bfs.simps Let_def set_append Un_iff)
  also have "(r, x) \<in> set (bfs visit ?next) \<longleftrightarrow> (\<exists>q n. (q, n) \<in> set ?next \<and> below visit q n r x)"
    by (rule 3(1) [OF refl], rule next_ok)
  also have "\<dots> \<longleftrightarrow> (\<exists>q n. (q, n) \<in> set queue \<and> below visit q n r x) \<or>
      (\<exists>q n. (q, n) \<in> set ?kids \<and> below visit q n r x)"
    using dirs by auto
  also have "(r, x) \<in> set ?kids \<or> (\<exists>q n. (q, n) \<in> set queue \<and> below visit q n r x) \<or>
      (\<exists>q n. (q, n) \<in> set ?kids \<and> below visit q n r x) \<longleftrightarrow>
      below visit p (Dir m cs) r x \<or> (\<exists>q n. (q, n) \<in> set queue \<and> below visit q n r x)"
    unfolding below_Dir [OF ok] visited_children_mem by blast
  also have "\<dots> \<longleftrightarrow> (\<exists>q n. (q, n) \<in> set ((p, Dir m cs) # queue) \<and> below visit q n r x)"
    by auto
  finally show ?case .
qed simp

section \<open>What is kept\<close>

definition kept :: "SnapshotMode \<Rightarrow> path_buf list \<Rightarrow> names \<Rightarrow> bool" where
  "kept m ex r \<longleftrightarrow> (\<forall>w\<in>set r. \<not> internal_name w) \<and> (m = Source \<longrightarrow> \<not> is_rel_excluded (rel_of r) ex)"

lemma lookup_valid: "tree_ok n \<Longrightarrow> lookup n q = Some x \<Longrightarrow> (\<forall>w\<in>set q. valid_name w) \<and> tree_ok x"
proof (induction n q rule: lookup.induct)
  case (3 m cs c q)
  then obtain k where k: "map_of cs c = Some k" "lookup k q = Some x" by (auto split: option.splits)
  have "(c, k) \<in> set cs" by (rule map_of_SomeD [OF k(1)])
  with 3 k show ?case by auto
qed auto

lemma components_rel: "\<forall>w\<in>set r. valid_name w \<Longrightarrow> components (rel_of r) = map Normal r"
  by (cases "r = []") (simp_all add: rel_of_def components_join)

lemma excluded_above:
  assumes "\<forall>w\<in>set r. valid_name w" and "prefix q r" and "is_rel_excluded (rel_of q) ex"
  shows "is_rel_excluded (rel_of r) ex"
proof -
  obtain s where s: "r = q @ s" using assms(2) by (auto simp: prefix_def)
  then have "components (rel_of r) = components (rel_of q) @ map Normal s"
    using assms(1) components_rel [of r] components_rel [of q] by simp
  with assms(3) show ?thesis by (rule excludes.blocked_below)
qed

lemma should_visit_iff:
  "r \<noteq> [] \<Longrightarrow> should_visit_path r m ex \<longleftrightarrow> \<not> internal_name (last r) \<and> (m = Source \<longrightarrow> \<not> is_rel_excluded (rel_of r) ex)"
  by (auto simp: should_visit_path_def entry_is_excluded_def internal_name_def Let_def)

text \<open>Pruning at every directory keeps exactly what filtering the full path would keep.\<close>

lemma visible_kept:
  assumes "\<forall>w\<in>set (p @ q). valid_name w" and "\<forall>w\<in>set p. \<not> internal_name w"
    and "q = [] \<Longrightarrow> m = Source \<Longrightarrow> \<not> is_rel_excluded (rel_of p) ex"
  shows "(\<forall>q'. q' \<noteq> [] \<longrightarrow> prefix q' q \<longrightarrow> should_visit_path (p @ q') m ex) \<longleftrightarrow> kept m ex (p @ q)"
proof
  assume v: "\<forall>q'. q' \<noteq> [] \<longrightarrow> prefix q' q \<longrightarrow> should_visit_path (p @ q') m ex"
  have "\<not> internal_name w" if "w \<in> set q" for w
  proof -
    from that obtain a b where ab: "q = a @ w # b" by (meson split_list)
    then have "prefix (a @ [w]) q" by simp
    with v have "should_visit_path (p @ a @ [w]) m ex" by blast
    then show ?thesis using should_visit_iff [of "p @ a @ [w]"] by simp
  qed
  moreover have "\<not> is_rel_excluded (rel_of (p @ q)) ex" if "m = Source"
  proof (cases "q = []")
    case True
    with assms(3) that show ?thesis by simp
  next
    case False
    then have "should_visit_path (p @ q) m ex" using v by simp
    then show ?thesis using should_visit_iff [of "p @ q" m ex] False that by simp
  qed
  ultimately show "kept m ex (p @ q)" using assms(2) by (auto simp: kept_def)
next
  assume k: "kept m ex (p @ q)"
  show "\<forall>q'. q' \<noteq> [] \<longrightarrow> prefix q' q \<longrightarrow> should_visit_path (p @ q') m ex"
  proof (intro allI impI)
    fix q' assume q': "q' \<noteq> []" "prefix q' q"
    have "\<not> is_rel_excluded (rel_of (p @ q')) ex" if "m = Source"
      using excluded_above [OF assms(1), of "p @ q'" ex] q'(2) k that by (auto simp: kept_def)
    moreover have "last q' \<in> set q" using q' by (meson last_in_set set_mono_prefix subsetD)
    then have "\<not> internal_name (last q')" using k by (simp add: kept_def)
    ultimately show "should_visit_path (p @ q') m ex" using q'(1) should_visit_iff [of "p @ q'"] by simp
  qed
qed

lemma walk_mem:
  assumes "tree_ok node" and "\<forall>w\<in>set p. valid_name w \<and> \<not> internal_name w" and "is_dir node"
  shows "(r, x) \<in> set (for_each_breadth_first_snapshot_path p node m ex) \<longleftrightarrow>
    (\<exists>q. q \<noteq> [] \<and> r = p @ q \<and> lookup node q = Some x \<and> kept m ex r)"
proof -
  have "(r, x) \<in> set (for_each_breadth_first_snapshot_path p node m ex) \<longleftrightarrow>
      below (\<lambda>p. should_visit_path p m ex) p node r x"
    using assms(1,3) bfs_mem [of "[(p, node)]"] by (simp add: for_each_breadth_first_snapshot_path_def)
  also have "\<dots> \<longleftrightarrow> (\<exists>q. q \<noteq> [] \<and> r = p @ q \<and> lookup node q = Some x \<and> kept m ex r)"
    unfolding below_def
  proof (intro ex_cong1 conj_cong refl)
    fix q assume q: "q \<noteq> []" "r = p @ q" "lookup node q = Some x"
    have "\<forall>w\<in>set (p @ q). valid_name w" using lookup_valid [OF assms(1) q(3)] assms(2) by auto
    moreover have "\<forall>w\<in>set p. \<not> internal_name w" using assms(2) by blast
    ultimately show "(\<forall>q'. q' \<noteq> [] \<longrightarrow> prefix q' q \<longrightarrow> should_visit_path (p @ q') m ex) = kept m ex r"
      unfolding q(2) using q(1) by (intro visible_kept) simp_all
  qed
  finally show ?thesis .
qed

lemma below_extends: "below visit p n r x \<Longrightarrow> strict_prefix p r"
  by (auto simp: below_def strict_prefix_def)

lemma kids_distinct:
  assumes "distinct (map fst cs)"
  shows "distinct (map fst (visited_children visit p cs))"
proof -
  have "mset (map fst (sorted_read_dir cs)) = mset (map fst cs)" by (simp add: sorted_read_dir_def)
  then have "distinct (map fst (sorted_read_dir cs))" using assms mset_eq_imp_distinct_iff by blast
  moreover have "map fst (map (\<lambda>(c, k). (p @ [c], k)) xs) = map (\<lambda>c. p @ [c]) (map fst xs)"
    for xs :: "(string \<times> fs_node) list" by (induction xs) auto
  ultimately have "distinct (map fst (map (\<lambda>(c, k). (p @ [c], k)) (sorted_read_dir cs)))"
    by (simp add: distinct_map inj_on_def)
  then show ?thesis by (simp only: visited_children_def distinct_map_filter)
qed

abbreviation apart :: "names \<Rightarrow> names \<Rightarrow> bool" where
  "apart a b \<equiv> \<not> prefix a b \<and> \<not> prefix b a"

lemma sorted_wrt_pairs:
  "distinct xs \<Longrightarrow> (\<And>a b. a \<in> set xs \<Longrightarrow> b \<in> set xs \<Longrightarrow> a \<noteq> b \<Longrightarrow> P a b) \<Longrightarrow> sorted_wrt P xs"
  by (induction xs) auto

lemma bfs_distinct:
  assumes "\<And>p n. (p, n) \<in> set qs \<Longrightarrow> tree_ok n" and "sorted_wrt apart (map fst qs)"
  shows "distinct (map fst (bfs visit qs))"
  using assms
proof (induction visit qs rule: bfs.induct)
  case (2 visit p k m queue)
  have "tree_ok n" if "(q, n) \<in> set queue" for q n using 2(2) [of q n] that by simp
  from 2(1) [OF this] 2(3) show ?case by simp
next
  case (3 visit p m cs queue)
  let ?kids = "visited_children visit p cs"
  let ?dirs = "filter (is_dir \<circ> snd) ?kids"
  have ok: "tree_ok (Dir m cs)" by (rule 3(2) [of p]) simp
  have next_ok: "tree_ok k" if "(q, k) \<in> set (queue @ ?dirs)" for q k
    using that ok 3(2) [of q k] by (auto simp: visited_children_mem)
  have q_apart: "apart p q" if "q \<in> fst ` set queue" for q using 3(3) that by auto
  have kid: "\<exists>c. r = p @ [c]" if "r \<in> fst ` set ?kids" for r
    using that visited_children_mem by fastforce
  have kids: "distinct (map fst ?kids)" by (rule kids_distinct) (use ok in simp)
  have "sorted_wrt apart (map fst (queue @ ?dirs))"
    unfolding map_append sorted_wrt_append
  proof (intro conjI ballI)
    show "sorted_wrt apart (map fst queue)" using 3(3) by simp
    show "sorted_wrt apart (map fst ?dirs)"
    proof (rule sorted_wrt_pairs)
      show "distinct (map fst ?dirs)" using kids by (rule distinct_map_filter)
      fix a b assume "a \<in> set (map fst ?dirs)" "b \<in> set (map fst ?dirs)" "a \<noteq> b"
      then have "a \<in> fst ` set ?kids" "b \<in> fst ` set ?kids" "a \<noteq> b" by auto
      then obtain c c' where "a = p @ [c]" "b = p @ [c']" "c \<noteq> c'" using kid [of a] kid [of b] by auto
      then show "apart a b" by simp
    qed
    fix a b assume a: "a \<in> set (map fst queue)" and b: "b \<in> set (map fst ?dirs)"
    obtain c where c: "b = p @ [c]" using b kid [of b] by auto
    show "\<not> prefix a b" "\<not> prefix b a"
      using q_apart [of a] a c by (auto simp: prefix_snoc append_prefixD)
  qed
  from 3(1) [OF refl next_ok this] have rest: "distinct (map fst (bfs visit (queue @ ?dirs)))" .
  have "r \<notin> fst ` set (bfs visit (queue @ ?dirs))" if rk: "r \<in> fst ` set ?kids" for r
  proof
    assume "r \<in> fst ` set (bfs visit (queue @ ?dirs))"
    then obtain x where "(r, x) \<in> set (bfs visit (queue @ ?dirs))" by auto
    moreover have "(r, x) \<in> set (bfs visit (queue @ ?dirs)) \<longleftrightarrow>
        (\<exists>q n. (q, n) \<in> set (queue @ ?dirs) \<and> below visit q n r x)"
      by (rule bfs_mem) (rule next_ok)
    ultimately obtain q n where q: "(q, n) \<in> set (queue @ ?dirs)" "strict_prefix q r"
      using below_extends by blast
    obtain c where c: "r = p @ [c]" using kid [OF rk] by blast
    show False
    proof (cases "(q, n) \<in> set queue")
      case True
      then have "apart p q" using q_apart by force
      with q(2) c show False by (auto simp: strict_prefix_def prefix_snoc)
    next
      case False
      then have "q \<in> fst ` set ?kids" using q(1) by force
      then obtain c' where "q = p @ [c']" using kid by blast
      with q(2) c show False by (auto simp: strict_prefix_def)
    qed
  qed
  with kids rest show ?case by (auto simp: Let_def)
qed simp

section \<open>Snapshots\<close>

lemma rel_of_names: "p \<noteq> [] \<Longrightarrow> \<forall>w\<in>set p. valid_name w \<Longrightarrow> rel_names (rel_of p) p"
  by (simp add: rel_names_def rel_of_def)

lemma rel_of_inj:
  assumes "\<forall>w\<in>set p. valid_name w" and "\<forall>w\<in>set q. valid_name w" and "rel_of p = rel_of q"
  shows "p = q"
  using assms components_rel [of p] components_rel [of q] by (metis component.inject inj_onI map_inj_on)

lemma entry_rel: "snapshot_entry_from_metadata rel ck n = Some e \<Longrightarrow> rel_path e = rel"
  by (auto simp: snapshot_entry_from_metadata_def Let_def split: fs_node.splits leaf_kind.splits)

lemma entries_of_walk_ok:
  assumes "\<And>p n. (p, n) \<in> set ps \<Longrightarrow> p \<noteq> [] \<and> (\<forall>w\<in>set p. valid_name w)"
  shows "entries_of_walk ck ps = Inr (List.map_filter (\<lambda>(p, n). snapshot_entry_from_metadata (rel_of p) ck n) ps)"
  using assms
proof (induction ps)
  case (Cons pn ps)
  obtain p n where pn: "pn = (p, n)" by fastforce
  have "rel_to_string (rel_of p) = Inr (rel_of p)"
    using Cons.prems [of p n] by (intro rel_to_string_of_names [OF rel_of_names]) (simp_all add: pn)
  moreover have "entries_of_walk ck ps = Inr (List.map_filter (\<lambda>(p, n). snapshot_entry_from_metadata (rel_of p) ck n) ps)"
  proof (rule Cons.IH)
    fix p n assume "(p, n) \<in> set ps"
    then show "p \<noteq> [] \<and> (\<forall>w\<in>set p. valid_name w)" using Cons.prems [of p n] by simp
  qed
  ultimately show ?case
    by (simp add: pn map_filter_def split: option.split)
qed (simp add: map_filter_def)

lemma map_filter_rels:
  "distinct (map fst ps) \<Longrightarrow> (\<And>p n. (p, n) \<in> set ps \<Longrightarrow> \<forall>w\<in>set p. valid_name w) \<Longrightarrow>
     distinct (map rel_path (List.map_filter (\<lambda>(p, n). snapshot_entry_from_metadata (rel_of p) ck n) ps))"
proof (induction ps)
  case (Cons pn ps)
  obtain p n where pn: "pn = (p, n)" by fastforce
  have "rel_of p \<notin> rel_path ` set (List.map_filter (\<lambda>(p, n). snapshot_entry_from_metadata (rel_of p) ck n) ps)"
  proof
    assume "rel_of p \<in> rel_path ` set (List.map_filter (\<lambda>(p, n). snapshot_entry_from_metadata (rel_of p) ck n) ps)"
    then obtain q k e where q: "(q, k) \<in> set ps" "snapshot_entry_from_metadata (rel_of q) ck k = Some e"
      "rel_of p = rel_path e" by (auto simp: map_filter_def)
    then have "rel_of p = rel_of q" using entry_rel by simp
    then have "p = q" using Cons.prems(2) [of p n] Cons.prems(2) [of q k] q(1) by (intro rel_of_inj) (simp_all add: pn)
    then show False using Cons.prems(1) q(1) by (force simp: pn)
  qed
  moreover have "distinct (map rel_path (List.map_filter (\<lambda>(p, n). snapshot_entry_from_metadata (rel_of p) ck n) ps))"
    by (rule Cons.IH) (use Cons.prems in auto)
  moreover have "List.map_filter (\<lambda>(p, n). snapshot_entry_from_metadata (rel_of p) ck n) (pn # ps) =
      (case snapshot_entry_from_metadata (rel_of p) ck n of None \<Rightarrow> [] | Some e \<Rightarrow> [e])
      @ List.map_filter (\<lambda>(p, n). snapshot_entry_from_metadata (rel_of p) ck n) ps"
    by (simp add: pn map_filter_def split: option.split)
  ultimately show ?case
    by (cases "snapshot_entry_from_metadata (rel_of p) ck n") (simp_all add: entry_rel)
qed (simp add: map_filter_def)

text \<open>C27: a snapshot is exact. It succeeds on a well-formed tree, names every path once, and has an
  entry for exactly the files, links and directories whose path holds no bookkeeping directory
  and, on the source side, is not excluded; that the walk never enters a filtered directory
  loses none of them.\<close>

theorem snapshot_exact:
  assumes "tree_ok root" and "is_dir root"
  shows "\<exists>es. take_snapshot_with_excludes root m ex ck = Inr es \<and> distinct (map rel_path es) \<and>
    (\<forall>e. e \<in> set es \<longleftrightarrow> (\<exists>r x. r \<noteq> [] \<and> lookup root r = Some x \<and>
       (\<forall>w\<in>set r. \<not> internal_name w) \<and> (m = Source \<longrightarrow> \<not> is_rel_excluded (rel_of r) ex) \<and>
       snapshot_entry_from_metadata (rel_of r) ck x = Some e))"
proof -
  let ?w = "for_each_breadth_first_snapshot_path [] root m ex"
  have mem: "(r, x) \<in> set ?w \<longleftrightarrow> r \<noteq> [] \<and> lookup root r = Some x \<and> kept m ex r" for r x
    using walk_mem [OF assms(1), of "[]" r x m ex] assms(2) by simp
  have valid: "p \<noteq> [] \<and> (\<forall>w\<in>set p. valid_name w)" if "(p, n) \<in> set ?w" for p n
    using that mem lookup_valid [OF assms(1)] by blast
  have "distinct (map fst ?w)"
    using assms by (auto simp: for_each_breadth_first_snapshot_path_def intro!: bfs_distinct)
  then have d: "distinct (map rel_path (List.map_filter (\<lambda>(p, n). snapshot_entry_from_metadata (rel_of p) ck n) ?w))"
    by (rule map_filter_rels) (use valid in blast)
  have set: "e \<in> set (List.map_filter (\<lambda>(p, n). snapshot_entry_from_metadata (rel_of p) ck n) ?w) \<longleftrightarrow>
      (\<exists>r x. (r, x) \<in> set ?w \<and> snapshot_entry_from_metadata (rel_of r) ck x = Some e)" for e
    by (force simp: map_filter_def)
  show ?thesis
  proof -
    note mem' = mem [unfolded kept_def]
    have w: "take_snapshot_with_excludes root m ex ck =
        Inr (List.map_filter (\<lambda>(p, n). snapshot_entry_from_metadata (rel_of p) ck n) ?w)"
      unfolding take_snapshot_with_excludes_def by (rule entries_of_walk_ok) (use valid in blast)
    show ?thesis
      using set d unfolding mem' by (intro exI [of _ "List.map_filter (\<lambda>(p, n). snapshot_entry_from_metadata (rel_of p) ck n) ?w"]
        conjI w d allI) (simp add: conj_assoc)
  qed
qed

definition demo_tree :: fs_node where
  "demo_tree = Dir \<lparr>meta_len = 0, meta_mtime = 0, meta_mode = 0\<rparr>
     [(''a'', Leaf (RegularFile ''h'') \<lparr>meta_len = 3, meta_mtime = 7, meta_mode = 420\<rparr>),
      (''.auto_sync_trash'', Dir \<lparr>meta_len = 0, meta_mtime = 0, meta_mode = 0\<rparr>
         [(''b'', Leaf (RegularFile ''h'') \<lparr>meta_len = 3, meta_mtime = 7, meta_mode = 420\<rparr>)])]"

lemma snapshot_exact_witness:
  "\<exists>es. take_snapshot_with_excludes demo_tree Source [] False = Inr es \<and>
     (\<exists>e\<in>set es. rel_path e = ''a'' \<and> file_type e = ''file'') \<and>
     \<not> (\<exists>e\<in>set es. \<exists>w. rel_path e = rel_of [''.auto_sync_trash'', w])"
proof -
  have v: "tree_ok demo_tree" "is_dir demo_tree"
    by (simp_all add: demo_tree_def valid_name_def is_sep_def)
  from snapshot_exact [OF v, of Source "[]" False] obtain es where
    es: "take_snapshot_with_excludes demo_tree Source [] False = Inr es"
    and mem: "\<And>e. e \<in> set es \<longleftrightarrow> (\<exists>r x. r \<noteq> [] \<and> lookup demo_tree r = Some x \<and>
       (\<forall>w\<in>set r. \<not> internal_name w) \<and> (Source = Source \<longrightarrow> \<not> is_rel_excluded (rel_of r) []) \<and>
       snapshot_entry_from_metadata (rel_of r) False x = Some e)" by blast
  let ?e = "\<lparr>rel_path = ''a'', file_type = ''file'', size_of = 3, mtime_ns = 7, mode_bits = 420, hash = None\<rparr>"
  have "?e \<in> set es"
    unfolding mem
    by (rule exI [of _ "[''a'']"])
      (simp add: demo_tree_def internal_name_def INTERNAL_TMP_def INTERNAL_TRASH_def INTERNAL_PROBE_def
        is_rel_excluded_def snapshot_entry_from_metadata_def rel_of_def)
  moreover have "rel_path e \<noteq> rel_of [''.auto_sync_trash'', w]" if "e \<in> set es" for e w
  proof
    assume e: "rel_path e = rel_of [''.auto_sync_trash'', w]"
    from that mem obtain r x where r: "r \<noteq> []" "lookup demo_tree r = Some x" "\<forall>w\<in>set r. \<not> internal_name w"
      "snapshot_entry_from_metadata (rel_of r) False x = Some e" by blast
    have eq: "rel_of r = rel_of [''.auto_sync_trash'', w]" using entry_rel [OF r(4)] e by simp
    have "components (rel_of r) = map Normal r"
      using lookup_valid [OF v(1) r(2)] components_rel by blast
    moreover have "Normal ''.auto_sync_trash'' \<in> set (components (rel_of [''.auto_sync_trash'', w]))"
      unfolding set_inner_components by (simp add: rel_of_def is_sep_def)
    ultimately have "''.auto_sync_trash'' \<in> set r" unfolding eq by auto
    with r(3) have "\<not> internal_name ''.auto_sync_trash''" by blast
    then show False by (simp add: internal_name_def INTERNAL_TRASH_def)
  qed
  ultimately show ?thesis using es by (intro exI [of _ es]) force
qed

end
