(* ===== verification/Storage.thy ===== *)
theory Storage
  imports Prelude Paths "HOL-Library.Product_Lexorder"
begin

text \<open>
  What storage lies under a path (\<open>src/src/core/storage.rs\<close> and the mount helpers of
  \<open>src/src/core/sync/mod.rs\<close>): the mount table, the devices of a pool, whether they rotate.
  The text of \<open>/proc/self/mounts\<close>, the output of \<open>zpool\<close> and the \<open>/sys\<close> tree are arguments.
\<close>

section \<open>The order of paths\<close>

text \<open>\<open>PathBuf\<close>'s order compares components; the enum's order is that of its declaration.\<close>

instantiation component :: linorder
begin

fun component_key :: "component \<Rightarrow> nat \<times> string" where
  "component_key RootDir = (0, '''')"
| "component_key CurDir = (1, '''')"
| "component_key ParentDir = (2, '''')"
| "component_key (Normal s) = (3, s)"

definition less_eq_component :: "component \<Rightarrow> component \<Rightarrow> bool" where
  "less_eq_component a b \<longleftrightarrow> component_key a \<le> component_key b"

definition less_component :: "component \<Rightarrow> component \<Rightarrow> bool" where
  "less_component a b \<longleftrightarrow> component_key a < component_key b"

lemma component_key_inj: "component_key a = component_key b \<Longrightarrow> a = b"
  by (cases a; cases b) simp_all

instance
  by standard (auto simp: less_eq_component_def less_component_def intro: component_key_inj)

end

section \<open>The mount table\<close>

text \<open>A field of the mount table: a backslash takes the next three characters, which are octal
  digits (\<open>u8::from_str_radix\<close>, so a value above 255 is refused) or kept as they are. A leading
  plus sign is accepted by \<open>from_str_radix\<close>.\<close>

definition is_octal :: "char \<Rightarrow> bool" where
  "is_octal c \<longleftrightarrow> (let n = of_char c :: nat in 48 \<le> n \<and> n \<le> 55)"

definition parse_octal_u8 :: "string \<Rightarrow> nat option" where
  "parse_octal_u8 s =
     (let ds = (case s of CHR ''+'' # t \<Rightarrow> t | _ \<Rightarrow> s)
      in if ds = [] \<or> \<not> list_all is_octal ds then None
         else let n = fold (\<lambda>c a. 8 * a + digit_val c) ds 0 in if n < 256 then Some n else None)"

function unescape_mount_field :: "string \<Rightarrow> string" where
  "unescape_mount_field [] = []"
| "unescape_mount_field (c # cs) =
     (if c \<noteq> CHR 0x5C then c # unescape_mount_field cs
      else let code = take 3 cs in
        (case parse_octal_u8 code of Some b \<Rightarrow> [char_of b] | None \<Rightarrow> CHR 0x5C # code)
        @ unescape_mount_field (drop 3 cs))"
  by pat_completeness auto
termination
  by (relation "measure length") auto

text \<open>The mount entry with the longest mount point; later entries win ties.\<close>

definition mount_step :: "path_buf \<Rightarrow> string \<Rightarrow> nat \<times> (string \<times> string) option \<Rightarrow>
    nat \<times> (string \<times> string) option" where
  "mount_step path line = (\<lambda>(best_components, best).
     case split_whitespace line of
       device # mount # fstype # _ \<Rightarrow>
         let mount_point = unescape_mount_field mount; n = length (components mount_point)
         in if path_starts_with path mount_point \<and> n \<ge> best_components
            then (n, Some (unescape_mount_field device, fstype)) else (best_components, best)
     | _ \<Rightarrow> (best_components, best))"

definition mount_for_path :: "string \<Rightarrow> path_buf \<Rightarrow> (string \<times> string) option" where
  "mount_for_path mounts path = snd (fold (mount_step path) (str_lines mounts) (0, None))"

definition nested_mount_of :: "path_buf \<Rightarrow> string \<Rightarrow> path_buf option" where
  "nested_mount_of root line =
     (case split_whitespace line of
        _ # raw_mount # _ \<Rightarrow>
          let mount_point = unescape_mount_field raw_mount;
              cs = components mount_point
          in if path_eq mount_point root \<or> \<not> path_starts_with mount_point root then None
             else if Normal ''.zfs'' \<in> set (drop (length (components root)) cs) then None
             else Some mount_point
      | _ \<Rightarrow> None)"

text \<open>Adjacent equal paths are dropped after the sort.\<close>

fun dedup_paths :: "path_buf list \<Rightarrow> path_buf list" where
  "dedup_paths (p # q # ps) = (if path_eq p q then dedup_paths (p # ps) else p # dedup_paths (q # ps))"
| "dedup_paths ps = ps"

definition nested_mounts_in :: "string \<Rightarrow> path_buf \<Rightarrow> path_buf list" where
  "nested_mounts_in mounts root =
     dedup_paths (sort_key components (List.map_filter (nested_mount_of root) (str_lines mounts)))"

section \<open>Devices\<close>

definition aux_sections :: "string list" where
  "aux_sections = [''cache'', ''logs'', ''log'', ''spares'', ''spare'', ''special'', ''dedup'']"

fun zpool_devices :: "string list \<Rightarrow> string list" where
  "zpool_devices [] = []"
| "zpool_devices (line # ls) =
     (case List.find (\<lambda>f. f \<noteq> []) (split_on (\<lambda>c. c = CHR 0x09) line) of
        None \<Rightarrow> zpool_devices ls
      | Some name \<Rightarrow>
          if name \<in> set aux_sections then []
          else if starts_with name ''/dev/'' then name # zpool_devices ls
          else zpool_devices ls)"

definition parse_zpool_devices :: "string \<Rightarrow> string list" where
  "parse_zpool_devices output = zpool_devices (str_lines output)"

fun verdict_of_members :: "('a \<Rightarrow> bool option) \<Rightarrow> bool \<Rightarrow> 'a list \<Rightarrow> bool option" where
  "verdict_of_members rot unknown [] = (if unknown then None else Some False)"
| "verdict_of_members rot unknown (d # ds) =
     (case rot d of
        Some True \<Rightarrow> Some True
      | Some False \<Rightarrow> verdict_of_members rot unknown ds
      | None \<Rightarrow> verdict_of_members rot True ds)"

definition rotational_of_devices :: "(path_buf \<Rightarrow> bool option) \<Rightarrow> string list \<Rightarrow> bool option" where
  "rotational_of_devices device_rotational devices =
     (if devices = [] then None else verdict_of_members device_rotational False devices)"

text \<open>The block device tree under \<open>/sys/class/block\<close>: the members of a stacked device, the content
  of its \<open>queue/rotational\<close>, the name of the directory its canonical path lies in. The recursion
  follows it to a depth of six.\<close>

record sys_block =
  block_exists :: "string \<Rightarrow> bool"
  block_slaves :: "string \<Rightarrow> string list"
  block_queue :: "string \<Rightarrow> string option"
  block_parent :: "string \<Rightarrow> string option"

function block_name_rotational :: "sys_block \<Rightarrow> string \<Rightarrow> nat \<Rightarrow> bool option" where
  "block_name_rotational sys name depth =
     (if depth > 6 then None
      else if \<not> block_exists sys name then None
      else if block_slaves sys name \<noteq> []
      then verdict_of_members (\<lambda>slave. block_name_rotational sys slave (depth + 1)) False (block_slaves sys name)
      else case block_queue sys name of
        Some raw \<Rightarrow> (if trim raw = ''0'' then Some False else if trim raw = ''1'' then Some True else None)
      | None \<Rightarrow> (case block_parent sys name of
          None \<Rightarrow> None
        | Some parent \<Rightarrow> if parent = ''block'' then None
            else block_name_rotational sys parent (depth + 1)))"
  by pat_completeness auto
termination
  by (relation "measure (\<lambda>(_, _, depth). 7 - depth)") auto

declare block_name_rotational.simps [simp del]

definition device_rotational :: "(path_buf \<Rightarrow> path_buf option) \<Rightarrow> sys_block \<Rightarrow> path_buf \<Rightarrow> bool option" where
  "device_rotational canonicalize sys device =
     (let real_path = (case canonicalize device of Some p \<Rightarrow> p | None \<Rightarrow> device)
      in case file_name real_path of None \<Rightarrow> None | Some name \<Rightarrow> block_name_rotational sys name 0)"

definition detect_rotational :: "(path_buf \<Rightarrow> path_buf option) \<Rightarrow> string option \<Rightarrow> (string \<Rightarrow> string option) \<Rightarrow>
    sys_block \<Rightarrow> path_buf \<Rightarrow> bool option" where
  "detect_rotational canonicalize mounts zpool_list sys path =
     (case canonicalize path of None \<Rightarrow> None | Some real_path \<Rightarrow>
      case mounts of None \<Rightarrow> None | Some text \<Rightarrow>
      case mount_for_path text real_path of None \<Rightarrow> None | Some (device, fstype) \<Rightarrow>
        if fstype = ''zfs''
        then (case zpool_list (hd (split_on is_sep device)) of None \<Rightarrow> None
              | Some output \<Rightarrow> rotational_of_devices (device_rotational canonicalize sys) (parse_zpool_devices output))
        else if \<not> starts_with device ''/dev/'' then None
        else rotational_of_devices (device_rotational canonicalize sys) [device])"

section \<open>Reading the mount table\<close>

text \<open>The kernel writes the separators of the table and the backslash as three octal digits.\<close>

fun mount_escape :: "string \<Rightarrow> string" where
  "mount_escape [] = []"
| "mount_escape (c # cs) =
     (if c = CHR '' '' then CHR 0x5C # ''040'' else if c = CHR 0x09 then CHR 0x5C # ''011''
      else if c = CHR 0x0A then CHR 0x5C # ''012'' else if c = CHR 0x5C then CHR 0x5C # ''134''
      else [c]) @ mount_escape cs"

lemma octal_codes:
  "parse_octal_u8 ''040'' = Some 32" "parse_octal_u8 ''011'' = Some 9"
  "parse_octal_u8 ''012'' = Some 10" "parse_octal_u8 ''134'' = Some 92"
  by (simp_all add: parse_octal_u8_def is_octal_def digit_val_def)

lemma unescape_mount_escape: "unescape_mount_field (mount_escape s) = s"
  by (induction s) (simp_all add: octal_codes char_of_def bit_iff_odd)

text \<open>The entry found has the longest mount point among those that contain the path.\<close>

definition mount_entry :: "path_buf \<Rightarrow> string \<Rightarrow> (nat \<times> string \<times> string) option" where
  "mount_entry path line =
     (case split_whitespace line of
       device # mount # fstype # _ \<Rightarrow>
         if path_starts_with path (unescape_mount_field mount)
         then Some (length (components (unescape_mount_field mount)), unescape_mount_field device, fstype)
         else None
     | _ \<Rightarrow> None)"

lemma mount_step_entry:
  "mount_step path line (n, best) = (case mount_entry path line of
     None \<Rightarrow> (n, best) | Some (k, e) \<Rightarrow> if k \<ge> n then (k, Some e) else (n, best))"
  by (auto simp: mount_step_def mount_entry_def Let_def split: list.split)

lemma mount_fold_best:
  assumes "fold (mount_step path) lines (n, best) = (n', best')"
  shows "n \<le> n' \<and> (\<forall>line\<in>set lines. \<forall>k e. mount_entry path line = Some (k, e) \<longrightarrow> k \<le> n') \<and>
    ((n', best') = (n, best) \<or> (\<exists>line\<in>set lines. \<exists>e. best' = Some e \<and> mount_entry path line = Some (n', e)))"
  using assms
proof (induction lines arbitrary: n best)
  case (Cons line lines)
  obtain n1 best1 where s: "mount_step path line (n, best) = (n1, best1)" by fastforce
  with Cons.prems have "fold (mount_step path) lines (n1, best1) = (n', best')" by simp
  from Cons.IH [OF this] s show ?case
    by (auto simp: mount_step_entry split: option.splits if_splits prod.splits)
qed simp

lemma mount_for_path_deepest:
  assumes "mount_for_path mounts path = Some e"
  shows "\<exists>line\<in>set (str_lines mounts). \<exists>k. mount_entry path line = Some (k, e) \<and>
    (\<forall>line'\<in>set (str_lines mounts). \<forall>k' e'. mount_entry path line' = Some (k', e') \<longrightarrow> k' \<le> k)"
proof -
  obtain n' where "fold (mount_step path) (str_lines mounts) (0, None) = (n', Some e)"
    using assms by (cases "fold (mount_step path) (str_lines mounts) (0, None)") (simp add: mount_for_path_def)
  from mount_fold_best [OF this] show ?thesis by blast
qed

end
