(* ===== verification/Zfs.thy ===== *)
theory Zfs
  imports Prelude Paths Config Store Storage
begin

text \<open>
  ZFS snapshots as read views and diff bases (the ZFS part of \<open>src/src/core/sync/mod.rs\<close>): the
  output of \<open>zfs diff\<close>, the union of both sides' changes, the dataset a path lives on, the
  snapshot of a cycle, the verified baselines of a destination and the clean-up of old snapshots.

  The \<open>zfs\<close> program is not part of the repository: its subcommands are a record of functions on
  an arbitrary state of the pool, and what the code relies on is the predicate \<open>zfs_lawful\<close>. The
  text of a path is the list of its UTF-8 bytes here, so that \<open>from_utf8_lossy\<close> on a valid name
  changes nothing. The release build's wrap-around of \<open>u8\<close> arithmetic is kept.
\<close>

section \<open>Diff output\<close>

text \<open>A \<open>BTreeMap\<close> from paths to flags is an association list that is sorted when it is read.\<close>

type_synonym path_flags = "(string \<times> bool) list"

definition or_merge :: "string \<Rightarrow> bool \<Rightarrow> path_flags \<Rightarrow> path_flags" where
  "or_merge r b t = AList.update r (case map_of t r of None \<Rightarrow> b | Some b' \<Rightarrow> b' \<or> b) t"

definition in_order :: "path_flags \<Rightarrow> DiffPath list" where
  "in_order t = map (\<lambda>(r, b). \<lparr>dp_rel = r, dp_recursive = b\<rparr>) (sort_key fst t)"

definition diff_union_and_dst_only :: "DiffPath list \<Rightarrow> DiffPath list \<Rightarrow> DiffPath list \<times> DiffPath list" where
  "diff_union_and_dst_only src_changed dst_changed =
     (let t = fold (\<lambda>p. AList.update (dp_rel p) (dp_recursive p)) src_changed [];
          src_rels = map fst t;
          (t, dst_only) = fold (\<lambda>p (t, dst_only).
             (or_merge (dp_rel p) (dp_recursive p) t,
              if dp_rel p \<in> set src_rels then dst_only else dst_only @ [p])) dst_changed (t, [])
      in (in_order t, dst_only))"

definition digit_u8 :: "char \<Rightarrow> u8" where
  "digit_u8 c = word_of_nat (of_char c) - 48"

function unescape_zfs_path :: "string \<Rightarrow> string" where
  "unescape_zfs_path [] = []"
| "unescape_zfs_path (c # cs) =
     (if c = CHR 0x5C \<and> length cs \<ge> 3 \<and> is_octal (cs ! 0) \<and> is_octal (cs ! 1) \<and> is_octal (cs ! 2)
      then char_of (unat (digit_u8 (cs ! 0) * 64 + digit_u8 (cs ! 1) * 8 + digit_u8 (cs ! 2)))
           # unescape_zfs_path (drop 3 cs)
      else c # unescape_zfs_path cs)"
  by pat_completeness auto
termination
  by (relation "measure length") auto

definition path_strip_prefix :: "path_buf \<Rightarrow> path_buf \<Rightarrow> path_buf option" where
  "path_strip_prefix p root = map_option push_all (strip_prefix (components p) (components root))"

definition diff_changes :: "string list" where "diff_changes = [''-'', ''+'', ''M'', ''R'']"

definition is_tab :: "char \<Rightarrow> bool" where "is_tab c \<longleftrightarrow> c = CHR 0x09"

text \<open>One reported path: below the root, expressible as a wire path, not the engine's own.\<close>

definition diff_field :: "path_buf \<Rightarrow> string \<Rightarrow> string option" where
  "diff_field live_root raw =
     (case path_strip_prefix (unescape_zfs_path raw) live_root of None \<Rightarrow> None
      | Some rel \<Rightarrow> if rel = '''' then None
          else (case rel_to_string rel of Inl _ \<Rightarrow> None
                | Inr r \<Rightarrow> if rel_str_is_internal r then None else Some r))"

definition diff_line :: "path_buf \<Rightarrow> string \<Rightarrow> path_flags" where
  "diff_line live_root line =
     (let fields = split_on is_tab line; change = hd fields
      in if change \<notin> set diff_changes then []
         else map (\<lambda>r. (r, change \<noteq> ''M'')) (List.map_filter (diff_field live_root) (tl fields)))"

definition parse_zfs_diff :: "string \<Rightarrow> path_buf \<Rightarrow> DiffPath list" where
  "parse_zfs_diff output live_root =
     in_order (fold (\<lambda>(r, b). or_merge r b) (concat (map (diff_line live_root) (str_lines output))) [])"

section \<open>The commands\<close>

record 'z zfs_cmds =
  zfs_creation :: "string \<Rightarrow> 'z \<Rightarrow> int option"
  zfs_destroy :: "string \<Rightarrow> 'z \<Rightarrow> bool \<times> 'z"
  zfs_snapshot_cmd :: "string \<Rightarrow> 'z \<Rightarrow> bool \<times> 'z"
  zfs_list_snapshots :: "string \<Rightarrow> 'z \<Rightarrow> string list option"
  zfs_diff_text :: "string \<Rightarrow> string option \<Rightarrow> 'z \<Rightarrow> string option"
  zfs_diff_types :: "string \<Rightarrow> string \<Rightarrow> 'z \<Rightarrow> string option"
  zfs_filesystem_list :: "string option"
  zfs_mountpoint_of :: "string \<Rightarrow> string option"

record zfs_host =
  real_path :: "path_buf \<Rightarrow> path_buf option"
  path_exists :: "path_buf \<Rightarrow> bool"
  mount_table :: "string option"

datatype zfs_error = NotOnDataset path_buf | NestedMounts "path_buf list" | NoMountpoint string
  | CommandFailed string | DestroyFailed string | SnapshotFailed string
  | SnapshotNotVisible path_buf | CannotCanonicalize path_buf

definition zfs_diff_changed_paths :: "'z zfs_cmds \<Rightarrow> 'z \<Rightarrow> string \<Rightarrow> string \<Rightarrow> path_buf \<Rightarrow> DiffPath list option" where
  "zfs_diff_changed_paths z w base new live_root =
     (if base = new then Some []
      else if zfs_creation z base w = None then None
      else map_option (\<lambda>text. parse_zfs_diff text live_root) (zfs_diff_text z base (Some new) w))"

definition zfs_diff_changed_paths_live :: "'z zfs_cmds \<Rightarrow> 'z \<Rightarrow> string \<Rightarrow> path_buf \<Rightarrow> DiffPath list option" where
  "zfs_diff_changed_paths_live z w base live_root =
     (if zfs_creation z base w = None then None
      else map_option (\<lambda>text. parse_zfs_diff text live_root) (zfs_diff_text z base None w))"

section \<open>Datasets\<close>

record ZfsDataset =
  ds_name :: string
  ds_mountpoint :: path_buf
  ds_path :: path_buf

definition filesystem_of_line :: "string \<Rightarrow> (string \<times> path_buf) option" where
  "filesystem_of_line line =
     (case split_on is_tab line of
        name # mountpoint # _ \<Rightarrow> if mountpoint = ''-'' \<or> mountpoint = '''' then None else Some (name, mountpoint)
      | _ \<Rightarrow> None)"

definition zfs_filesystems :: "'z zfs_cmds \<Rightarrow> zfs_error + (string \<times> path_buf) list" where
  "zfs_filesystems z = (case zfs_filesystem_list z of None \<Rightarrow> Inl (CommandFailed ''zfs list'')
     | Some output \<Rightarrow> Inr (List.map_filter filesystem_of_line (str_lines output)))"

definition zfs_mountpoint :: "'z zfs_cmds \<Rightarrow> string \<Rightarrow> zfs_error + path_buf" where
  "zfs_mountpoint z name = (case zfs_mountpoint_of z name of None \<Rightarrow> Inl (CommandFailed name)
     | Some output \<Rightarrow> let m = trim output in if m = '''' \<or> m = ''-'' then Inl (NoMountpoint name) else Inr m)"

definition nested_mounts_under :: "zfs_host \<Rightarrow> path_buf \<Rightarrow> path_buf list" where
  "nested_mounts_under h live_root =
     (case real_path h live_root of None \<Rightarrow> []
      | Some root \<Rightarrow> (case mount_table h of None \<Rightarrow> [] | Some text \<Rightarrow> nested_mounts_in text root))"

definition ensure_no_nested_mounts :: "zfs_host \<Rightarrow> path_buf \<Rightarrow> zfs_error + unit" where
  "ensure_no_nested_mounts h live_root =
     (case nested_mounts_under h live_root of [] \<Rightarrow> Inr () | ps \<Rightarrow> Inl (NestedMounts ps))"

text \<open>The deepest mount point that contains the path; the first of equally deep ones.\<close>

definition best_dataset :: "path_buf \<Rightarrow> (string \<times> path_buf) list \<Rightarrow> (string \<times> path_buf) option" where
  "best_dataset path fss = fold (\<lambda>(name, m) best.
     if path_starts_with path m \<and>
        (case best of None \<Rightarrow> True | Some (_, cur) \<Rightarrow> length (components m) > length (components cur))
     then Some (name, m) else best) fss None"

text \<open>The path in the dataset is the remainder below the mount point.\<close>

definition path_in_dataset_of :: "path_buf \<Rightarrow> path_buf \<Rightarrow> zfs_error + path_buf" where
  "path_in_dataset_of p mountpoint =
     (case path_strip_prefix p mountpoint of None \<Rightarrow> Inl (NotOnDataset p) | Some rel \<Rightarrow> Inr rel)"

definition resolve_dataset_for_path :: "'z zfs_cmds \<Rightarrow> zfs_host \<Rightarrow> path_buf \<Rightarrow> zfs_error + ZfsDataset" where
  "resolve_dataset_for_path z h p =
     (case real_path h p of None \<Rightarrow> Inl (CannotCanonicalize p)
      | Some c \<Rightarrow>
     (case zfs_filesystems z of Inl e \<Rightarrow> Inl e
      | Inr fss \<Rightarrow>
     (case best_dataset c fss of None \<Rightarrow> Inl (NotOnDataset c)
      | Some (name, m) \<Rightarrow>
     (case ensure_no_nested_mounts h c of Inl e \<Rightarrow> Inl e
      | Inr _ \<Rightarrow>
     (case path_in_dataset_of c m of Inl e \<Rightarrow> Inl e
      | Inr rel \<Rightarrow> Inr \<lparr>ds_name = name, ds_mountpoint = m, ds_path = rel\<rparr>)))))"

definition live_root_of :: "path_buf \<Rightarrow> path_buf \<Rightarrow> path_buf" where
  "live_root_of mountpoint rel = (if rel = '''' then mountpoint else path_push mountpoint rel)"

definition resolve_zfs_dataset :: "'z zfs_cmds \<Rightarrow> zfs_host \<Rightarrow> SourceGroupConfig \<Rightarrow> zfs_error + ZfsDataset" where
  "resolve_zfs_dataset z h s =
     (case dataset (snapshot s) of
        Some name \<Rightarrow>
          (case zfs_mountpoint z name of Inl e \<Rightarrow> Inl e
           | Inr m \<Rightarrow>
               let rel = (case path_in_dataset (snapshot s) of Some p \<Rightarrow> p
                   | None \<Rightarrow> (case path_in_dataset_of (src_path s) m of Inr p \<Rightarrow> p | Inl _ \<Rightarrow> ''''))
               in (case ensure_no_nested_mounts h (live_root_of m rel) of Inl e \<Rightarrow> Inl e
                   | Inr _ \<Rightarrow> Inr \<lparr>ds_name = name, ds_mountpoint = m, ds_path = rel\<rparr>))
      | None \<Rightarrow> resolve_dataset_for_path z h (src_path s))"

section \<open>Snapshots\<close>

text \<open>\<open>{:012}\<close>.\<close>

fun decimal :: "nat \<Rightarrow> string" where
  "decimal n = (if n < 10 then [char_of (48 + n)] else decimal (n div 10) @ [char_of (48 + n mod 10)])"

declare decimal.simps [simp del]

definition pad12 :: "nat \<Rightarrow> string" where
  "pad12 n = (let ds = decimal n in replicate (12 - length ds) (CHR ''0'') @ ds)"

definition ensure_zfs_snapshot :: "'z zfs_cmds \<Rightarrow> string \<Rightarrow> int option \<Rightarrow> 'z \<Rightarrow> (zfs_error + unit) \<times> 'z" where
  "ensure_zfs_snapshot z full not_before w =
     (let create = (\<lambda>w. case zfs_snapshot_cmd z full w of
            (True, w) \<Rightarrow> (Inr (), w) | (False, w) \<Rightarrow> (Inl (SnapshotFailed full), w))
      in case zfs_creation z full w of
           None \<Rightarrow> create w
         | Some created \<Rightarrow>
             if \<not> (case not_before of None \<Rightarrow> False | Some bound \<Rightarrow> created < bound - 300) then (Inr (), w)
             else (case zfs_destroy z full w of
                     (False, w) \<Rightarrow> (Inl (DestroyFailed full), w) | (True, w) \<Rightarrow> create w))"

record ZfsSnapshot =
  zs_dataset :: string
  zs_full_name :: string
  zs_source_path :: path_buf
  zs_live_root :: path_buf

definition ZfsSnapshot_create :: "'z zfs_cmds \<Rightarrow> zfs_host \<Rightarrow> SourceGroupConfig \<Rightarrow> nat \<Rightarrow> int option \<Rightarrow> 'z \<Rightarrow>
    (zfs_error + ZfsSnapshot) \<times> 'z" where
  "ZfsSnapshot_create z h s cycle starts w =
     (case resolve_zfs_dataset z h s of Inl e \<Rightarrow> (Inl e, w)
      | Inr ds \<Rightarrow>
          let snapshot_id = snap_prefix (snapshot s) @ ''_'' @ sanitize_snapshot_component (src_id s)
                @ ''_'' @ pad12 cycle;
              full = ds_name ds @ ''@'' @ snapshot_id
          in case ensure_zfs_snapshot z full starts w of (Inl e, w) \<Rightarrow> (Inl e, w)
             | (Inr _, w) \<Rightarrow>
                 let p = path_push (path_push (path_push (path_push (ds_mountpoint ds) ''.zfs'') ''snapshot'')
                       snapshot_id) (ds_path ds)
                 in if \<not> path_exists h p then (Inl (SnapshotNotVisible p), w)
                    else (Inr \<lparr>zs_dataset = ds_name ds, zs_full_name = full, zs_source_path = p,
                        zs_live_root = live_root_of (ds_mountpoint ds) (ds_path ds)\<rparr>, w))"

definition snapshot_cycle_suffix_matches :: "string \<Rightarrow> string \<Rightarrow> bool" where
  "snapshot_cycle_suffix_matches name pre =
     (case strip_prefix name pre of None \<Rightarrow> False
      | Some rest \<Rightarrow> (case strip_prefix rest ''_'' of None \<Rightarrow> False
          | Some digits \<Rightarrow> length digits = 12 \<and> list_all is_ascii_digit digits))"

text \<open>The loop over the superseded snapshots; a failed \<open>destroy\<close> is only counted.\<close>

definition destroy_all :: "'z zfs_cmds \<Rightarrow> string list \<Rightarrow> 'z \<Rightarrow> 'z" where
  "destroy_all z names w = fold (\<lambda>n w. snd (zfs_destroy z n w)) names w"

definition source_snapshot_prefix :: "SourceGroupConfig \<Rightarrow> string \<Rightarrow> string" where
  "source_snapshot_prefix s ds =
     ds @ ''@'' @ snap_prefix (snapshot s) @ ''_'' @ sanitize_snapshot_component (src_id s)"

definition superseded_snapshots :: "SourceGroupConfig \<Rightarrow> ZfsSnapshot \<Rightarrow> string list \<Rightarrow> string list \<Rightarrow> string list" where
  "superseded_snapshots s latest referenced listed =
     (let snaps = filter (\<lambda>n. snapshot_cycle_suffix_matches n (source_snapshot_prefix s (zs_dataset latest))) listed;
          keep = keep_extra_cycles (snapshot s) + 1
      in filter (\<lambda>n. n \<noteq> zs_full_name latest \<and> n \<notin> set referenced) (take (length snaps - keep) snaps))"

definition cleanup_zfs_snapshots :: "'z zfs_cmds \<Rightarrow> SourceGroupConfig \<Rightarrow> ZfsSnapshot \<Rightarrow> string list \<Rightarrow> 'z \<Rightarrow> 'z" where
  "cleanup_zfs_snapshots z s latest referenced w =
     (case zfs_list_snapshots z (zs_dataset latest) w of None \<Rightarrow> w
      | Some listed \<Rightarrow> destroy_all z (superseded_snapshots s latest referenced listed) w)"

section \<open>Read views\<close>

type_synonym read_view = "ZfsSnapshot option"

text \<open>The endpoint of a view is the live one or, below a snapshot, its path; the engine's model
  needs only which of them it is.\<close>

definition SourceReadView_prepare :: "'z zfs_cmds \<Rightarrow> zfs_host \<Rightarrow> SourceGroupConfig \<Rightarrow> nat \<Rightarrow> int option \<Rightarrow> 'z \<Rightarrow>
    (zfs_error + read_view) \<times> 'z" where
  "SourceReadView_prepare z h s cycle starts w =
     (if backend (snapshot s) = ManifestBackend then (Inr None, w)
      else case ZfsSnapshot_create z h s cycle starts w of
        (Inr snap, w) \<Rightarrow> (Inr (Some snap), w)
      | (Inl e, w) \<Rightarrow> if backend (snapshot s) = AutoBackend then (Inr None, w) else (Inl e, w))"

definition view_cleanup :: "'z zfs_cmds \<Rightarrow> SourceGroupConfig \<Rightarrow> string list \<Rightarrow> read_view \<Rightarrow> 'z \<Rightarrow> 'z" where
  "view_cleanup z s referenced v w = (case v of None \<Rightarrow> w
     | Some snap \<Rightarrow> cleanup_zfs_snapshots z s snap referenced w)"

section \<open>Verified baselines\<close>

definition dst_baseline_prefix :: "SourceGroupConfig \<Rightarrow> string \<Rightarrow> string" where
  "dst_baseline_prefix s d = snap_prefix (snapshot s) @ ''_dstbase_''
     @ sanitize_snapshot_component (src_id s) @ ''_'' @ sanitize_snapshot_component d"

datatype DstBaselineAction = Refresh path_buf "string set option" | Retain | Clear

definition dataset_of_name :: "string \<Rightarrow> string" where
  "dataset_of_name name = hd (split_on (\<lambda>c. c = CHR ''@'') name)"

text \<open>The first path of a row for a non-directory that this pass did not touch itself.\<close>

definition row_outside :: "path_buf \<Rightarrow> string set \<Rightarrow> string \<Rightarrow> string option" where
  "row_outside live_root touched line =
     (case split_on is_tab line of
        change # file_type # paths \<Rightarrow>
          if change \<notin> set diff_changes \<or> file_type = ''/'' then None
          else List.find (\<lambda>r. r \<notin> touched) (List.map_filter (diff_field live_root) paths)
      | _ \<Rightarrow> None)"

fun first_outside :: "path_buf \<Rightarrow> string set \<Rightarrow> string list \<Rightarrow> string option" where
  "first_outside live_root touched [] = None"
| "first_outside live_root touched (line # ls) =
     (case row_outside live_root touched line of Some r \<Rightarrow> Some r | None \<Rightarrow> first_outside live_root touched ls)"

definition baseline_refresh_contaminated :: "'z zfs_cmds \<Rightarrow> zfs_host \<Rightarrow> string option \<Rightarrow> string \<Rightarrow> path_buf \<Rightarrow>
    string set option \<Rightarrow> 'z \<Rightarrow> string option" where
  "baseline_refresh_contaminated z h previous new_base dst_root touched w =
     (case touched of None \<Rightarrow> None | Some t \<Rightarrow>
     (case previous of None \<Rightarrow> None | Some prev \<Rightarrow>
        if dataset_of_name prev \<noteq> dataset_of_name new_base then None
        else (case real_path h dst_root of None \<Rightarrow> None | Some root \<Rightarrow>
        (case zfs_diff_types z prev new_base w of None \<Rightarrow> None
         | Some text \<Rightarrow> first_outside root t (str_lines text)))))"

definition create_dst_baseline_snapshot :: "'z zfs_cmds \<Rightarrow> zfs_host \<Rightarrow> int \<Rightarrow> SourceGroupConfig \<Rightarrow> string \<Rightarrow>
    path_buf \<Rightarrow> nat \<Rightarrow> 'z \<Rightarrow> (zfs_error + string) \<times> 'z" where
  "create_dst_baseline_snapshot z h now s d dst_root cycle w =
     (case resolve_dataset_for_path z h dst_root of Inl e \<Rightarrow> (Inl e, w)
      | Inr ds \<Rightarrow>
          let full = ds_name ds @ ''@'' @ dst_baseline_prefix s d @ ''_'' @ pad12 cycle
          in case ensure_zfs_snapshot z full (Some (now div SECOND)) w of
               (Inl e, w) \<Rightarrow> (Inl e, w) | (Inr _, w) \<Rightarrow> (Inr full, w))"

definition superseded_baselines :: "SourceGroupConfig \<Rightarrow> string \<Rightarrow> string option \<Rightarrow> string \<Rightarrow> string list \<Rightarrow> string list" where
  "superseded_baselines s d cur ds listed =
     filter (\<lambda>n. snapshot_cycle_suffix_matches n (ds @ ''@'' @ dst_baseline_prefix s d) \<and> Some n \<noteq> cur) listed"

definition cleanup_dst_baseline_snapshots :: "'z zfs_cmds \<Rightarrow> SourceGroupConfig \<Rightarrow> string \<Rightarrow> string option \<Rightarrow>
    string option \<Rightarrow> 'z \<Rightarrow> 'z" where
  "cleanup_dst_baseline_snapshots z s d cur prev w =
     (case coalesce cur prev of None \<Rightarrow> w
      | Some name \<Rightarrow>
          let ds = dataset_of_name name
          in case zfs_list_snapshots z ds w of None \<Rightarrow> w
             | Some listed \<Rightarrow> destroy_all z (superseded_baselines s d cur ds listed) w)"

definition record_destination_verified_baselines :: "'z zfs_cmds \<Rightarrow> zfs_host \<Rightarrow> int \<Rightarrow> SourceGroupConfig \<Rightarrow> string \<Rightarrow>
    string option \<Rightarrow> DstBaselineAction \<Rightarrow> nat \<Rightarrow> 'z \<times> db \<Rightarrow> 'z \<times> db" where
  "record_destination_verified_baselines z h now s d src_name action cycle = (\<lambda>(w, db).
     let k = (src_id s, d);
         db = set_destination_verified_snapshot k src_name now db;
         previous = destination_verified_dst_snapshot k db;
         finish = (\<lambda>base w. (cleanup_dst_baseline_snapshots z s d base previous w,
             set_destination_verified_dst_snapshot k base now db))
     in case action of
          Retain \<Rightarrow> (w, db)
        | Clear \<Rightarrow> finish None w
        | Refresh dst_root touched \<Rightarrow>
            if src_name = None then finish None w
            else (case create_dst_baseline_snapshot z h now s d dst_root cycle w of
                    (Inl _, w) \<Rightarrow> finish None w
                  | (Inr name, w) \<Rightarrow>
                      (case baseline_refresh_contaminated z h previous name dst_root touched w of
                         Some _ \<Rightarrow> (snd (zfs_destroy z name w), db)
                       | None \<Rightarrow> finish (Some name) w)))"

section \<open>Reading what the diff writes\<close>

text \<open>\<open>zfs diff\<close> writes a byte that is not printable ASCII, a blank or a backslash as three octal
  digits. A row is the change, and each path after a tab.\<close>

definition octal3 :: "char \<Rightarrow> string" where
  "octal3 c = (let n = of_char c :: nat in
     [char_of (48 + n div 64), char_of (48 + n div 8 mod 8), char_of (48 + n mod 8)])"

definition zfs_plain :: "char \<Rightarrow> bool" where
  "zfs_plain c \<longleftrightarrow> (let n = of_char c :: nat in 32 < n \<and> n < 127 \<and> n \<noteq> 92)"

fun zfs_escape :: "string \<Rightarrow> string" where
  "zfs_escape [] = []"
| "zfs_escape (c # cs) = (if zfs_plain c then [c] else CHR 0x5C # octal3 c) @ zfs_escape cs"

definition render_row :: "string \<times> string list \<Rightarrow> string" where
  "render_row row = fst row @ concat (map (\<lambda>p. CHR 0x09 # zfs_escape p) (snd row))"

definition render_rows :: "(string \<times> string list) list \<Rightarrow> string" where
  "render_rows rows = concat (map (\<lambda>r. render_row r @ [CHR 0x0A]) rows)"

lemma of_char_small: "of_char c < (256 :: nat)"
  using of_char_mod_256 [of c, where 'a = nat] by (metis mod_less_divisor zero_less_numeral)

lemma octal3_octal: "\<forall>d\<in>set (octal3 c). is_octal d"
proof -
  have "of_char c div 64 < (4 :: nat)"
    by (rule less_mult_imp_div_less) (rule less_le_trans [OF of_char_small], simp)
  moreover have "k mod 8 \<le> (7 :: nat)" for k by presburger
  ultimately show ?thesis by (simp add: octal3_def is_octal_def Let_def)
qed

lemma digit_u8_of: "n < 8 \<Longrightarrow> digit_u8 (char_of (48 + n :: nat)) = word_of_nat n"
  by (simp add: digit_u8_def)

lemma octal3_value:
  "char_of (unat (digit_u8 (octal3 c ! 0) * 64 + digit_u8 (octal3 c ! 1) * 8 + digit_u8 (octal3 c ! 2))) = c"
proof -
  let ?n = "of_char c :: nat"
  have n: "?n < 256" by (rule of_char_small)
  have "?n div 64 < 8" by (rule less_mult_imp_div_less) (rule less_le_trans [OF of_char_small], simp)
  then have "digit_u8 (octal3 c ! 0) * 64 + digit_u8 (octal3 c ! 1) * 8 + digit_u8 (octal3 c ! 2)
      = word_of_nat (?n div 64 * 64 + ?n div 8 mod 8 * 8 + ?n mod 8)"
    by (simp add: octal3_def Let_def digit_u8_of)
  also have "?n div 64 * 64 + ?n div 8 mod 8 * 8 + ?n mod 8 = ?n"
    using mod_mult2_eq [of ?n 8 8] div_mult_mod_eq [of ?n 64] by simp
  finally show ?thesis by (simp add: unsigned_of_nat take_bit_eq_mod)
qed

lemma unescape_zfs_escape: "unescape_zfs_path (zfs_escape s) = s"
proof (induction s)
  case (Cons c s)
  show ?case
  proof (cases "zfs_plain c")
    case True
    then have "c \<noteq> CHR 0x5C" by (auto simp: zfs_plain_def)
    with True Cons show ?thesis by simp
  next
    case False
    obtain a b d where o: "octal3 c = [a, b, d]" by (simp add: octal3_def Let_def)
    with octal3_octal [of c] have "is_octal a" "is_octal b" "is_octal d" by simp_all
    with False o octal3_value [of c] Cons show ?thesis by simp
  qed
qed simp

lemma zfs_escape_printable: "c \<in> set (zfs_escape s) \<Longrightarrow> 32 < (of_char c :: nat)"
proof (induction s)
  case (Cons x s)
  have "32 < (of_char d :: nat)" if "d \<in> set (octal3 x)" for d
    using octal3_octal [of x] that by (auto simp: is_octal_def Let_def)
  with Cons show ?case by (auto simp: zfs_plain_def Let_def split: if_splits)
qed simp

definition rel_below :: "path_buf \<Rightarrow> path_buf \<Rightarrow> string option" where
  "rel_below live_root p =
     (case path_strip_prefix p live_root of None \<Rightarrow> None
      | Some rel \<Rightarrow> if rel = '''' then None
          else (case rel_to_string rel of Inl _ \<Rightarrow> None
                | Inr r \<Rightarrow> if rel_str_is_internal r then None else Some r))"

lemma diff_field_escape: "diff_field live_root (zfs_escape p) = rel_below live_root p"
  by (simp add: diff_field_def rel_below_def unescape_zfs_escape)

lemma escape_no_sep: "\<forall>c\<in>set (zfs_escape p). \<not> is_tab c \<and> c \<noteq> CHR 0x0A \<and> c \<noteq> CHR 0x0D"
  using zfs_escape_printable [of _ p] by (force simp: is_tab_def)

lemma change_no_sep:
  "ch \<in> set diff_changes \<Longrightarrow> \<forall>c\<in>set ch. \<not> is_tab c \<and> c \<noteq> CHR 0x0A \<and> c \<noteq> CHR 0x0D"
  by (auto simp: diff_changes_def is_tab_def)

lemma split_row:
  "\<forall>c\<in>set ch. \<not> is_tab c \<Longrightarrow> split_on is_tab (render_row (ch, ps)) = ch # map zfs_escape ps"
proof (induction ps arbitrary: ch)
  case (Cons p ps)
  have "split_on is_tab (render_row (ch, p # ps)) = ch # split_on is_tab (render_row (zfs_escape p, ps))"
    using Cons.prems by (simp add: render_row_def split_on_append is_tab_def)
  with Cons.IH [of "zfs_escape p"] escape_no_sep [of p] show ?case by simp
qed (simp add: render_row_def split_on_id)

lemma row_chars:
  assumes "fst row \<in> set diff_changes" and "c \<in> set (render_row row)"
  shows "c \<noteq> CHR 0x0A \<and> c \<noteq> CHR 0x0D"
proof -
  from assms(2) consider "c \<in> set (fst row)" | p where "c = CHR 0x09 \<or> c \<in> set (zfs_escape p)"
    by (auto simp: render_row_def split: if_splits)
  then show ?thesis
  proof cases
    case 1
    with change_no_sep [OF assms(1)] show ?thesis by blast
  next
    case (2 p)
    then show ?thesis using escape_no_sep [of p] by auto
  qed
qed

lemma split_rows:
  "\<forall>row\<in>set rows. fst row \<in> set diff_changes \<Longrightarrow>
     split_on (\<lambda>c. c = CHR 0x0A) (render_rows rows) = map render_row rows @ [[]]"
proof (induction rows)
  case (Cons row rows)
  then show ?case
    using row_chars [of row] by (simp add: render_rows_def split_on_append)
qed (simp add: render_rows_def)

lemma lines_of_rows:
  assumes "\<forall>row\<in>set rows. fst row \<in> set diff_changes"
  shows "str_lines (render_rows rows) = map render_row rows"
proof -
  have "strip_cr (render_row row) = render_row row" if "row \<in> set rows" for row
  proof -
    have "render_row row = [] \<or> last (render_row row) \<noteq> CHR 0x0D"
      using row_chars [of row "last (render_row row)"] assms that last_in_set by metis
    then show ?thesis by (auto simp: strip_cr_def)
  qed
  then show ?thesis by (simp add: str_lines_def split_rows [OF assms])
qed

lemma or_merge_lookup:
  "map_of (or_merge r b t) k = (if k = r then Some (map_of t r = Some True \<or> b) else map_of t k)"
  by (auto simp: or_merge_def tbl_simps split: option.split)

lemma or_merge_fold:
  "map_of (fold (\<lambda>(r, b). or_merge r b) xs t) k =
     (if k \<notin> fst ` set xs then map_of t k else Some (map_of t k = Some True \<or> (k, True) \<in> set xs))"
proof (induction xs arbitrary: t)
  case (Cons x xs)
  obtain r b where x: "x = (r, b)" by fastforce
  show ?case
    by (simp only: x fold_simps prod.case o_def Cons.IH or_merge_lookup) force
qed simp

lemma or_merge_collect:
  "map_of (fold (\<lambda>(r, b). or_merge r b) xs []) r = Some b \<longleftrightarrow>
     (\<exists>b'. (r, b') \<in> set xs) \<and> b = ((r, True) \<in> set xs)"
proof -
  have "r \<in> fst ` set xs \<longleftrightarrow> (\<exists>b'. (r, b') \<in> set xs)" by force
  then show ?thesis by (auto simp: or_merge_fold)
qed

lemma or_merge_distinct:
  "distinct (map fst t) \<Longrightarrow> distinct (map fst (fold (\<lambda>(r, b). or_merge r b) xs t))"
  by (induction xs arbitrary: t) (auto simp: or_merge_def distinct_update)

lemma in_order_mem: "distinct (map fst t) \<Longrightarrow> p \<in> set (in_order t) \<longleftrightarrow> map_of t (dp_rel p) = Some (dp_recursive p)"
  by (cases p) (force simp: in_order_def map_of_eq_Some_iff)



section \<open>The union of both sides\<close>

lemma collect_flags:
  assumes "distinct (map dp_rel ps)"
  shows "map_of (fold (\<lambda>p. AList.update (dp_rel p) (dp_recursive p)) ps t) r =
      (case map_of (map (\<lambda>p. (dp_rel p, dp_recursive p)) ps) r of Some b \<Rightarrow> Some b | None \<Rightarrow> map_of t r)"
  using assms
proof (induction ps arbitrary: t)
  case (Cons p ps)
  have "map_of (map (\<lambda>p. (dp_rel p, dp_recursive p)) ps) (dp_rel p) = None"
    using Cons.prems by (simp add: map_of_eq_None_iff image_image)
  moreover have "distinct (map dp_rel ps)" using Cons.prems by simp
  note Cons.IH [OF this, of "AList.update (dp_rel p) (dp_recursive p) t"]
  ultimately show ?case by (auto simp: tbl_simps split: option.split)
qed simp

lemma collect_flags_distinct:
  "distinct (map fst t) \<Longrightarrow>
     distinct (map fst (fold (\<lambda>p. AList.update (dp_rel p) (dp_recursive p)) ps t))"
  by (induction ps arbitrary: t) (simp_all add: distinct_update)

lemma map_of_flags:
  assumes "distinct (map dp_rel ps)"
  shows "map_of (map (\<lambda>p. (dp_rel p, dp_recursive p)) ps) r = Some b \<longleftrightarrow>
    (\<exists>q\<in>set ps. dp_rel q = r \<and> dp_recursive q = b)"
proof -
  have "distinct (map fst (map (\<lambda>p. (dp_rel p, dp_recursive p)) ps))" using assms by (simp add: comp_def)
  then show ?thesis by (auto simp: map_of_eq_Some_iff)
qed

lemma union_loop:
  "fold (\<lambda>p (t, o'). (or_merge (dp_rel p) (dp_recursive p) t, if dp_rel p \<in> K then o' else o' @ [p])) ps (t, o')
     = (fold (\<lambda>(r, b). or_merge r b) (map (\<lambda>p. (dp_rel p, dp_recursive p)) ps) t,
        o' @ filter (\<lambda>p. dp_rel p \<notin> K) ps)"
  by (induction ps arbitrary: t o') auto

lemma diff_union_parts:
  assumes "distinct (map dp_rel src_changed)"
    and "diff_union_and_dst_only src_changed dst_changed = (both, dst_only)"
  shows diff_union_flags: "set both = {p. \<exists>q\<in>set src_changed \<union> set dst_changed. dp_rel q = dp_rel p \<and>
      (dp_recursive p = (\<exists>q\<in>set src_changed \<union> set dst_changed. dp_rel q = dp_rel p \<and> dp_recursive q))}"
    and diff_union_distinct: "distinct (map dp_rel both)"
    and diff_dst_only: "dst_only = filter (\<lambda>p. dp_rel p \<notin> dp_rel ` set src_changed) dst_changed"
proof -
  let ?kv = "\<lambda>p. (dp_rel p, dp_recursive p)"
  define s where "s = fold (\<lambda>p. AList.update (dp_rel p) (dp_recursive p)) src_changed []"
  have s: "map_of s r = map_of (map ?kv src_changed) r" for r
    unfolding s_def collect_flags [OF assms(1)] by (simp split: option.split)
  then have "dom (map_of s) = dom (map_of (map ?kv src_changed))" by presburger
  then have keys: "fst ` set s = dp_rel ` set src_changed"
    by (simp add: dom_map_of_conv_image_fst image_comp comp_def)
  define t where "t = fold (\<lambda>(r, b). or_merge r b) (map ?kv dst_changed) s"
  have res: "both = in_order t" "dst_only = filter (\<lambda>p. dp_rel p \<notin> dp_rel ` set src_changed) dst_changed"
    using assms(2) by (simp_all add: diff_union_and_dst_only_def Let_def union_loop s_def [symmetric] keys t_def)
  have "distinct (map fst s)" unfolding s_def by (rule collect_flags_distinct) simp
  then have d: "distinct (map fst t)" unfolding t_def by (rule or_merge_distinct)
  have at: "map_of t r = Some b \<longleftrightarrow> (\<exists>q\<in>set src_changed \<union> set dst_changed. dp_rel q = r) \<and>
      b = (\<exists>q\<in>set src_changed \<union> set dst_changed. dp_rel q = r \<and> dp_recursive q)" for r b
  proof (cases "r \<in> dp_rel ` set dst_changed")
    case True
    then show ?thesis
      by (auto simp: t_def or_merge_fold s image_comp comp_def map_of_flags [OF assms(1)] image_iff)
  next
    case False
    then have "map_of t r = map_of s r" by (simp add: t_def or_merge_fold image_comp comp_def)
    moreover have "q \<notin> set dst_changed" if "dp_rel q = r" for q using False that by blast
    ultimately show ?thesis
      using assms(1) unfolding s map_of_flags [OF assms(1)]
      by (auto simp: distinct_map inj_on_def)
  qed
  show "set both = {p. \<exists>q\<in>set src_changed \<union> set dst_changed. dp_rel q = dp_rel p \<and>
      (dp_recursive p = (\<exists>q\<in>set src_changed \<union> set dst_changed. dp_rel q = dp_rel p \<and> dp_recursive q))}"
    unfolding res(1) set_eq_iff mem_Collect_eq in_order_mem [OF d] at by blast
  have "distinct (map fst (sort_key fst t))" using d by (simp add: distinct_map)
  then show "distinct (map dp_rel both)"
    by (simp add: res(1) in_order_def comp_def case_prod_beta)
  show "dst_only = filter (\<lambda>p. dp_rel p \<notin> dp_rel ` set src_changed) dst_changed" by (rule res(2))
qed

text \<open>The union of the two sides' changes names every path of either side once, recursive as soon
  as one side says so; the destination-only list is the destination's part that the source does
  not name. The source side is a parsed report, so its paths are distinct.\<close>

theorem diff_union_exact:
  assumes "distinct (map dp_rel src_changed)"
    and "diff_union_and_dst_only src_changed dst_changed = (both, dst_only)"
  shows "distinct (map dp_rel both) \<and>
    set both = {p. \<exists>q\<in>set src_changed \<union> set dst_changed. dp_rel q = dp_rel p \<and>
      (dp_recursive p = (\<exists>q\<in>set src_changed \<union> set dst_changed. dp_rel q = dp_rel p \<and> dp_recursive q))} \<and>
    dst_only = filter (\<lambda>p. dp_rel p \<notin> dp_rel ` set src_changed) dst_changed"
  using diff_union_parts [OF assms] by blast

lemma diff_union_exact_witness:
  "snd (diff_union_and_dst_only [\<lparr>dp_rel = ''a'', dp_recursive = False\<rparr>]
     [\<lparr>dp_rel = ''a'', dp_recursive = True\<rparr>, \<lparr>dp_rel = ''b'', dp_recursive = False\<rparr>]) = [\<lparr>dp_rel = ''b'', dp_recursive = False\<rparr>]"
  using diff_union_exact [of "[\<lparr>dp_rel = ''a'', dp_recursive = False\<rparr>]", OF _ surjective_pairing [of "diff_union_and_dst_only
     [\<lparr>dp_rel = ''a'', dp_recursive = False\<rparr>] [\<lparr>dp_rel = ''a'', dp_recursive = True\<rparr>, \<lparr>dp_rel = ''b'', dp_recursive = False\<rparr>]"]]
  by simp

section \<open>What the commands promise\<close>

text \<open>The snapshots of the pool with their creation times, as the commands read and change them. A
  command that fails changes nothing.\<close>

definition zfs_lawful :: "'z zfs_cmds \<Rightarrow> int \<Rightarrow> ('z \<Rightarrow> string \<Rightarrow> int option) \<Rightarrow> bool" where
  "zfs_lawful z now snaps \<longleftrightarrow>
     (\<forall>n w. zfs_creation z n w = snaps w n) \<and>
     (\<forall>n w. snaps (snd (zfs_destroy z n w)) = (if fst (zfs_destroy z n w) then (snaps w)(n := None) else snaps w)) \<and>
     (\<forall>n w. snaps (snd (zfs_snapshot_cmd z n w)) = (if fst (zfs_snapshot_cmd z n w) then (snaps w)(n \<mapsto> now) else snaps w))"

lemma zfs_destroyD:
  assumes "zfs_lawful z now snaps" and "zfs_destroy z n w = (ok, w')"
  shows "snaps w' = (if ok then (snaps w)(n := None) else snaps w)"
  using assms unfolding zfs_lawful_def by (metis fst_conv snd_conv)

lemma zfs_snapshotD:
  assumes "zfs_lawful z now snaps" and "zfs_snapshot_cmd z n w = (ok, w')"
  shows "snaps w' = (if ok then (snaps w)(n \<mapsto> now) else snaps w)"
  using assms unfolding zfs_lawful_def by (metis fst_conv snd_conv)

lemma destroy_all_others:
  assumes "zfs_lawful z now snaps" and "n \<notin> set names"
  shows "snaps (destroy_all z names w) n = snaps w n"
  using assms(2)
proof (induction names arbitrary: w)
  case (Cons m names)
  obtain ok w' where "zfs_destroy z m w = (ok, w')" by fastforce
  with zfs_destroyD [OF assms(1) this] Cons show ?case by (simp add: destroy_all_def)
qed (simp add: destroy_all_def)

text \<open>A pool as a list of named snapshots, newest first, on which every command succeeds.\<close>

definition pool_cmds :: "int \<Rightarrow> (string \<times> int) list zfs_cmds" where
  "pool_cmds now = \<lparr>zfs_creation = (\<lambda>n w. map_of w n),
     zfs_destroy = (\<lambda>n w. (map_of w n \<noteq> None, AList.delete n w)),
     zfs_snapshot_cmd = (\<lambda>n w. if map_of w n = None then (True, (n, now) # w) else (False, w)),
     zfs_list_snapshots = (\<lambda>ds w. Some (filter (\<lambda>n. starts_with n (ds @ ''@'')) (rev (map fst w)))),
     zfs_diff_text = (\<lambda>a b w. None), zfs_diff_types = (\<lambda>a b w. None),
     zfs_filesystem_list = None, zfs_mountpoint_of = (\<lambda>n. None)\<rparr>"

lemma pool_lawful: "zfs_lawful (pool_cmds now) now map_of"
  by (auto simp: zfs_lawful_def pool_cmds_def tbl_simps fun_eq_iff)

section \<open>The identity of a snapshot\<close>

text \<open>A read view is never a leftover of the same name. When \<open>ensure_zfs_snapshot\<close> succeeds the
  snapshot exists and is at most five minutes older than the bound it was given, or was taken
  just now; no other snapshot is touched, whether it succeeds or fails.\<close>

theorem snapshot_identity:
  assumes "zfs_lawful z now snaps" and "ensure_zfs_snapshot z full not_before w = (r, w')"
  shows "(r = Inr () \<longrightarrow> (\<exists>t. snaps w' full = Some t \<and>
      (t = now \<or> (\<forall>bound. not_before = Some bound \<longrightarrow> bound - 300 \<le> t)))) \<and>
    (\<forall>n. n \<noteq> full \<longrightarrow> snaps w' n = snaps w n)"
proof -
  have made: "(r = Inr () \<longrightarrow> snaps w' full = Some now) \<and> (\<forall>n. n \<noteq> full \<longrightarrow> snaps w' n = snaps v n)"
    if "(case zfs_snapshot_cmd z full v of (True, w) \<Rightarrow> (Inr (), w) | (False, w) \<Rightarrow> (Inl (SnapshotFailed full), w))
      = (r, w')" for v
    using that zfs_snapshotD [OF assms(1), of full v]
    by (cases "zfs_snapshot_cmd z full v") (auto split: bool.splits)
  have c: "zfs_creation z full w = snaps w full" using assms(1) by (simp add: zfs_lawful_def)
  show ?thesis
  proof (cases "snaps w full")
    case None
    with assms(2) c have "(case zfs_snapshot_cmd z full w of (True, w) \<Rightarrow> (Inr (), w)
        | (False, w) \<Rightarrow> (Inl (SnapshotFailed full), w)) = (r, w')"
      by (simp add: ensure_zfs_snapshot_def Let_def)
    from made [OF this] show ?thesis by blast
  next
    case (Some created)
    obtain ok v where d: "zfs_destroy z full w = (ok, v)" by fastforce
    note e = assms(2) [unfolded ensure_zfs_snapshot_def Let_def c Some d]
    show ?thesis
    proof (cases "\<exists>bound. not_before = Some bound \<and> created < bound - 300")
      case False
      then have "r = Inr ()" "w' = w" using e by (auto split: option.splits)
      with False Some show ?thesis by (auto simp: not_less)
    next
      case True
      then have "(case ok of True \<Rightarrow> (case zfs_snapshot_cmd z full v of (True, w) \<Rightarrow> (Inr (), w)
          | (False, w) \<Rightarrow> (Inl (SnapshotFailed full), w)) | False \<Rightarrow> (Inl (DestroyFailed full), v)) = (r, w')"
        using e by (auto split: bool.splits)
      moreover have "\<forall>n. n \<noteq> full \<longrightarrow> snaps v n = snaps w n" using zfs_destroyD [OF assms(1) d] by simp
      ultimately show ?thesis using made [of v] by (cases ok) auto
    qed
  qed
qed

lemma snapshot_identity_witness:
  "\<exists>t. map_of (snd (ensure_zfs_snapshot (pool_cmds 5000) ''p@a'' (Some 4900) [(''p@a'', 100)])) ''p@a'' = Some t \<and> t = 5000"
proof -
  obtain r w where e: "ensure_zfs_snapshot (pool_cmds 5000) ''p@a'' (Some 4900) [(''p@a'', 100)] = (r, w)" by fastforce
  then have "r = Inr ()" by (auto simp: ensure_zfs_snapshot_def pool_cmds_def Let_def)
  with snapshot_identity [OF pool_lawful e] obtain t where "map_of w ''p@a'' = Some t" "t = 5000 \<or> 4600 \<le> t" by auto
  moreover have "map_of w ''p@a'' = Some 5000"
    using e by (auto simp: ensure_zfs_snapshot_def pool_cmds_def Let_def)
  ultimately show ?thesis using e by simp
qed

section \<open>Clean-up destroys only what is superseded\<close>

lemma suffix_digits:
  "snapshot_cycle_suffix_matches n pre \<longleftrightarrow>
     (\<exists>ds. n = pre @ ''_'' @ ds \<and> length ds = 12 \<and> list_all is_ascii_digit ds)"
proof
  assume "snapshot_cycle_suffix_matches n pre"
  then obtain rest ds where "strip_prefix n pre = Some rest" "strip_prefix rest ''_'' = Some ds"
    "length ds = 12" "list_all is_ascii_digit ds"
    by (auto simp: snapshot_cycle_suffix_matches_def split: option.splits)
  then show "\<exists>ds. n = pre @ ''_'' @ ds \<and> length ds = 12 \<and> list_all is_ascii_digit ds"
    unfolding strip_prefix_Some_iff by auto
next
  assume "\<exists>ds. n = pre @ ''_'' @ ds \<and> length ds = 12 \<and> list_all is_ascii_digit ds"
  then obtain ds where ds: "n = pre @ ''_'' @ ds" "length ds = 12" "list_all is_ascii_digit ds" by blast
  have "strip_prefix n pre = Some (''_'' @ ds)" "strip_prefix (''_'' @ ds) ''_'' = Some ds"
    unfolding strip_prefix_Some_iff using ds(1) by simp_all
  with ds show "snapshot_cycle_suffix_matches n pre" by (simp add: snapshot_cycle_suffix_matches_def)
qed

lemma old_part:
  assumes "n \<in> set (take (length xs - k) xs)"
  obtains older newer where "xs = older @ n # newer" and "k \<le> length newer"
proof -
  obtain a b where s: "take (length xs - k) xs = a @ n # b" using assms by (meson split_list)
  have "xs = a @ n # (b @ drop (length xs - k) xs)" using append_take_drop_id [of "length xs - k" xs] s by simp
  moreover have "k \<le> length (b @ drop (length xs - k) xs)"
  proof (cases "k \<le> length xs")
    case False
    then show ?thesis using assms by simp
  qed simp
  ultimately show ?thesis by (rule that)
qed

text \<open>C25: cleaning up the snapshots of a source after a verified cycle never destroys a snapshot that
  a destination still needs as its diff base, the snapshot just used, one of the
  \<open>keep_extra_cycles + 1\<close> newest, or a snapshot of another source whose id merely starts the same.
  A snapshot it does destroy has the source's own prefix followed by twelve digits, and at least
  that many newer ones are listed.\<close>

theorem cleanup_destroys_superseded:
  assumes "zfs_lawful z now snaps" and "snaps (cleanup_zfs_snapshots z s latest referenced w) n \<noteq> snaps w n"
  shows "n \<notin> set referenced \<and> n \<noteq> zs_full_name latest \<and>
    (\<exists>listed older newer. zfs_list_snapshots z (zs_dataset latest) w = Some listed \<and>
       filter (\<lambda>m. snapshot_cycle_suffix_matches m (source_snapshot_prefix s (zs_dataset latest))) listed =
         older @ n # newer \<and> keep_extra_cycles (snapshot s) < length newer) \<and>
    (\<forall>i ds. n = zs_dataset latest @ ''@'' @ snap_prefix (snapshot s) @ ''_'' @ i @ ''_'' @ ds \<longrightarrow>
       length ds = 12 \<longrightarrow> i = sanitize_snapshot_component (src_id s))"
proof -
  let ?match = "\<lambda>m. snapshot_cycle_suffix_matches m (source_snapshot_prefix s (zs_dataset latest))"
  obtain listed where l: "zfs_list_snapshots z (zs_dataset latest) w = Some listed"
    using assms(2) by (auto simp: cleanup_zfs_snapshots_def split: option.splits)
  have "n \<in> set (superseded_snapshots s latest referenced listed)"
    using assms(2) destroy_all_others [OF assms(1)] by (fastforce simp: cleanup_zfs_snapshots_def l)
  then have n: "n \<notin> set referenced" "n \<noteq> zs_full_name latest"
    "n \<in> set (take (length (filter ?match listed) - (keep_extra_cycles (snapshot s) + 1)) (filter ?match listed))"
    by (simp_all add: superseded_snapshots_def Let_def)
  from old_part [OF n(3)] obtain older newer where
    on: "filter ?match listed = older @ n # newer" "keep_extra_cycles (snapshot s) + 1 \<le> length newer" by blast
  have "n \<in> set (filter ?match listed)" using on(1) by simp
  then have "?match n" by simp
  then have "i = sanitize_snapshot_component (src_id s)"
    if "n = zs_dataset latest @ ''@'' @ snap_prefix (snapshot s) @ ''_'' @ i @ ''_'' @ ds" "length ds = 12" for i ds
    using that by (auto simp: suffix_digits source_snapshot_prefix_def append_eq_append_conv)
  with n on l show ?thesis by (metis Suc_eq_plus1 Suc_le_lessD)
qed

abbreviation demo_snapshot :: "string \<Rightarrow> string" where
  "demo_snapshot digits \<equiv> ''p@x_s_'' @ digits"

definition demo_zfs_source :: SourceGroupConfig where
  "demo_zfs_source = SourceGroupConfig_default\<lparr>src_id := ''s'',
     snapshot := SnapshotConfig_default\<lparr>snap_prefix := ''x'', keep_extra_cycles := 0\<rparr>\<rparr>"

definition demo_latest :: ZfsSnapshot where
  "demo_latest = \<lparr>zs_dataset = ''p'', zs_full_name = demo_snapshot ''000000000003'', zs_source_path = ''/p'',
     zs_live_root = ''/p''\<rparr>"

lemma demo_prefix: "source_snapshot_prefix demo_zfs_source ''p'' = ''p@x_s''"
  by (simp add: source_snapshot_prefix_def demo_zfs_source_def sanitize_snapshot_component_def is_ascii_alphanumeric_def)

lemma demo_cleanup:
  "map_of (cleanup_zfs_snapshots (pool_cmds 9) demo_zfs_source demo_latest []
     [(demo_snapshot ''000000000003'', 3), (demo_snapshot ''000000000001'', 1)]) (demo_snapshot ''000000000001'') = None"
proof -
  have m: "snapshot_cycle_suffix_matches (demo_snapshot ''000000000003'') ''p@x_s''"
    "snapshot_cycle_suffix_matches (demo_snapshot ''000000000001'') ''p@x_s''"
    by (simp_all add: snapshot_cycle_suffix_matches_def strip_prefix_def is_ascii_digit_def)
  have "superseded_snapshots demo_zfs_source demo_latest []
      [demo_snapshot ''000000000001'', demo_snapshot ''000000000003''] = [demo_snapshot ''000000000001'']"
    using m by (simp add: superseded_snapshots_def demo_latest_def demo_prefix Let_def)
      (simp add: demo_zfs_source_def)
  then show ?thesis
    by (simp add: cleanup_zfs_snapshots_def pool_cmds_def demo_latest_def destroy_all_def starts_with_def tbl_simps)
qed

lemma cleanup_destroys_superseded_witness:
  "\<exists>older newer. filter (\<lambda>m. snapshot_cycle_suffix_matches m (source_snapshot_prefix demo_zfs_source ''p''))
     [demo_snapshot ''000000000001'', demo_snapshot ''000000000003''] = older @ demo_snapshot ''000000000001'' # newer
   \<and> 0 < length newer"
proof -
  let ?w = "[(demo_snapshot ''000000000003'', 3), (demo_snapshot ''000000000001'', 1)] :: (string \<times> int) list"
  have "map_of (cleanup_zfs_snapshots (pool_cmds 9) demo_zfs_source demo_latest [] ?w) (demo_snapshot ''000000000001'')
      \<noteq> map_of ?w (demo_snapshot ''000000000001'')"
    unfolding demo_cleanup by simp
  moreover have d: "zs_dataset demo_latest = ''p''" "keep_extra_cycles (snapshot demo_zfs_source) = 0"
    by (simp_all add: demo_latest_def demo_zfs_source_def)
  ultimately obtain listed older newer where o:
    "zfs_list_snapshots (pool_cmds 9) ''p'' ?w = Some listed"
    "filter (\<lambda>m. snapshot_cycle_suffix_matches m (source_snapshot_prefix demo_zfs_source ''p'')) listed =
       older @ demo_snapshot ''000000000001'' # newer" "0 < length newer"
    using cleanup_destroys_superseded [OF pool_lawful, of 9 demo_zfs_source demo_latest "[]" ?w] unfolding d by metis
  moreover have "listed = [demo_snapshot ''000000000001'', demo_snapshot ''000000000003'']"
    using o(1) by (simp add: pool_cmds_def starts_with_def)
  ultimately show ?thesis by blast
qed

text \<open>Two destinations can share their baselines' names. The name of a baseline joins the source id and
  the destination id with an underscore, which both may contain: the pairs \<open>(s, a_b)\<close> and
  \<open>(s_a, b)\<close>, all of them cleaned ids, get the same prefix, so the clean-up after a verified pass
  of one pair destroys the current baseline of the other.\<close>

theorem baselines_collide:
  "\<exists>s d s' d' name cur w. clean_id (src_id s) = src_id s \<and> clean_id d = d \<and>
     clean_id (src_id s') = src_id s' \<and> clean_id d' = d' \<and> src_id s \<noteq> src_id s' \<and>
     name = ''p@'' @ dst_baseline_prefix s d @ ''_000000000001'' \<and>
     map_of w name = Some 5 \<and>
     map_of (cleanup_dst_baseline_snapshots (pool_cmds 9) s' d' (Some cur) None w) name = None"
proof -
  let ?s = "\<lambda>i. SourceGroupConfig_default\<lparr>src_id := i, snapshot := SnapshotConfig_default\<lparr>snap_prefix := ''x''\<rparr>\<rparr>"
  let ?old = "''p@x_dstbase_s_a_b_000000000001''" and ?new = "''p@x_dstbase_s_a_b_000000000002''"
  let ?w = "[(?new, 9), (?old, 5)] :: (string \<times> int) list"
  have ids: "clean_id ''s'' = ''s''" "clean_id ''a_b'' = ''a_b''" "clean_id ''s_a'' = ''s_a''" "clean_id ''b'' = ''b''"
    by (simp_all add: clean_id_def trim_no_ws is_whitespace_def is_ascii_alphanumeric_def)
  have pre: "dst_baseline_prefix (?s ''s'') ''a_b'' = ''x_dstbase_s_a_b''" "dst_baseline_prefix (?s ''s_a'') ''b'' = ''x_dstbase_s_a_b''"
    by (simp_all add: dst_baseline_prefix_def sanitize_snapshot_component_def is_ascii_alphanumeric_def)
  have "snapshot_cycle_suffix_matches ?old ''p@x_dstbase_s_a_b''" "snapshot_cycle_suffix_matches ?new ''p@x_dstbase_s_a_b''"
    by (simp_all add: snapshot_cycle_suffix_matches_def strip_prefix_def is_ascii_digit_def)
  then have "superseded_baselines (?s ''s_a'') ''b'' (Some ?new) ''p'' [?old, ?new] = [?old]"
    by (simp add: superseded_baselines_def pre)
  moreover have "dataset_of_name ?new = ''p''" by (simp add: dataset_of_name_def)
  ultimately have "map_of (cleanup_dst_baseline_snapshots (pool_cmds 9) (?s ''s_a'') ''b'' (Some ?new) None ?w) ?old = None"
    by (simp add: cleanup_dst_baseline_snapshots_def coalesce_def pool_cmds_def starts_with_def destroy_all_def tbl_simps)
  with ids pre show ?thesis
    by (intro exI [of _ "?s ''s''"] exI [of _ "''a_b''"] exI [of _ "?s ''s_a''"] exI [of _ "''b''"]
        exI [of _ ?old] exI [of _ ?new] exI [of _ ?w]) simp
qed

end
