(* ===== verification/Baselines.thy ===== *)
theory Baselines
  imports Prelude Zfs
begin

text \<open>
  Why a diff against the verified baselines is enough. The specification behind the baseline
  rules of \<open>record_destination_verified_baselines\<close> (\<open>src/src/core/sync/mod.rs\<close>): two trees, their
  baselines, the paths written on each side since, and the three kinds of passes. The trees are
  functions from relative paths to contents (with a value for \<open>absent\<close>); \<open>zfs diff\<close> names every path
  written since the base, also one that was written back to its old content. A pass is taken when
  its copy work succeeded, which makes the destination equal to the source at the paths it
  was given.
\<close>

section \<open>Passes and their baseline actions\<close>

record 'v sides =
  src_tree :: "string \<Rightarrow> 'v"
  dst_tree :: "string \<Rightarrow> 'v"
  src_base :: "string \<Rightarrow> 'v"
  dst_base :: "string \<Rightarrow> 'v"
  src_written :: "string set"
  dst_written :: "string set"

definition apply_paths :: "string set \<Rightarrow> 'v sides \<Rightarrow> 'v sides" where
  "apply_paths ps w = w\<lparr>dst_tree := override_on (dst_tree w) (src_tree w) ps,
     dst_written := dst_written w \<union> ps\<rparr>"

text \<open>The source-side base always advances to the snapshot the pass read. \<open>Retain\<close> keeps the
  destination's base, \<open>Refresh\<close> takes the destination as it is now.\<close>

definition advance_source_base :: "'v sides \<Rightarrow> 'v sides" where
  "advance_source_base w = w\<lparr>src_base := src_tree w, src_written := {}\<rparr>"

definition refresh_dst_base :: "'v sides \<Rightarrow> 'v sides" where
  "refresh_dst_base w = w\<lparr>dst_base := dst_tree w, dst_written := {}\<rparr>"

definition reports :: "string set \<Rightarrow> DiffPath list \<Rightarrow> bool" where
  "reports ps ds \<longleftrightarrow> dp_rel ` set ds = ps \<and> distinct (map dp_rel ds)"

definition incremental_pass :: "DiffPath list \<Rightarrow> 'v sides \<Rightarrow> 'v sides" where
  "incremental_pass src_changed w = advance_source_base (apply_paths (set (diff_path_rels src_changed)) w)"

definition dual_full_pass :: "DiffPath list \<Rightarrow> DiffPath list \<Rightarrow> 'v sides \<Rightarrow> 'v sides" where
  "dual_full_pass src_changed dst_changed w =
     refresh_dst_base (advance_source_base (apply_paths
       (set (diff_path_rels (fst (diff_union_and_dst_only src_changed dst_changed)))) w))"

definition walk_full_pass :: "'v sides \<Rightarrow> 'v sides" where
  "walk_full_pass w = refresh_dst_base (advance_source_base (apply_paths UNIV w))"

inductive sides_reachable :: "'v sides \<Rightarrow> bool" where
  first_full: "sides_reachable (walk_full_pass w)"
| source_write: "sides_reachable w \<Longrightarrow>
    sides_reachable (w\<lparr>src_tree := (src_tree w)(p := v), src_written := insert p (src_written w)\<rparr>)"
| dst_write: "sides_reachable w \<Longrightarrow>
    sides_reachable (w\<lparr>dst_tree := (dst_tree w)(p := v), dst_written := insert p (dst_written w)\<rparr>)"
| incremental: "sides_reachable w \<Longrightarrow> reports (src_written w) ds \<Longrightarrow> sides_reachable (incremental_pass ds w)"
| dual_full: "sides_reachable w \<Longrightarrow> reports (src_written w) ds \<Longrightarrow> reports (dst_written w) es \<Longrightarrow>
    sides_reachable (dual_full_pass ds es w)"
| walk_full: "sides_reachable w \<Longrightarrow> sides_reachable (walk_full_pass w)"

section \<open>The invariant of the baselines\<close>

text \<open>Where the two bases differ, the destination has been written since its base. So the bases need
  not be equal, which \<open>Retain\<close> after an incremental pass makes them stop being.\<close>

definition bases_ok :: "'v sides \<Rightarrow> bool" where
  "bases_ok w \<longleftrightarrow> (\<forall>p. p \<notin> src_written w \<longrightarrow> src_tree w p = src_base w p) \<and>
     (\<forall>p. p \<notin> dst_written w \<longrightarrow> dst_tree w p = dst_base w p) \<and>
     (\<forall>p. p \<notin> dst_written w \<longrightarrow> src_base w p = dst_base w p)"

lemma diff_union_rels:
  assumes "distinct (map dp_rel ds)"
  shows "set (diff_path_rels (fst (diff_union_and_dst_only ds es))) = dp_rel ` (set ds \<union> set es)"
proof -
  obtain both dst_only where b: "diff_union_and_dst_only ds es = (both, dst_only)" by fastforce
  note u = diff_union_flags [OF assms b]
  have "dp_rel ` set both = dp_rel ` (set ds \<union> set es)"
  proof
    show "dp_rel ` set both \<subseteq> dp_rel ` (set ds \<union> set es)"
    proof
      fix r assume "r \<in> dp_rel ` set both"
      then obtain p :: DiffPath where "r = dp_rel p" "\<exists>q\<in>set ds \<union> set es. dp_rel q = dp_rel p"
        unfolding u by (elim imageE CollectE bexE conjE) blast
      then show "r \<in> dp_rel ` (set ds \<union> set es)" by (metis imageI)
    qed
    show "dp_rel ` (set ds \<union> set es) \<subseteq> dp_rel ` set both"
    proof
      fix r assume "r \<in> dp_rel ` (set ds \<union> set es)"
      then have "\<lparr>dp_rel = r, dp_recursive = (\<exists>q\<in>set ds \<union> set es. dp_rel q = r \<and> dp_recursive q)\<rparr> \<in> set both"
        unfolding u by auto
      then show "r \<in> dp_rel ` set both" by force
    qed
  qed
  then show ?thesis by (simp add: diff_path_rels_def b)
qed

lemma override_all [simp]: "override_on f g UNIV = g"
  by (simp add: override_on_def)

lemma walk_full_ok: "bases_ok (walk_full_pass w)"
  by (simp add: bases_ok_def walk_full_pass_def refresh_dst_base_def advance_source_base_def
      apply_paths_def override_on_def)

lemma union_is_complete:
  assumes "bases_ok w" and "reports (src_written w) ds" and "reports (dst_written w) es"
    and "p \<notin> set (diff_path_rels (fst (diff_union_and_dst_only ds es)))"
  shows "src_tree w p = dst_tree w p"
proof -
  have "set (diff_path_rels (fst (diff_union_and_dst_only ds es))) = src_written w \<union> dst_written w"
    using assms(2,3) diff_union_rels [of ds es] by (simp add: reports_def image_Un)
  with assms(4) have "p \<notin> src_written w" "p \<notin> dst_written w" by auto
  with assms(1) show ?thesis by (simp add: bases_ok_def)
qed

lemma dual_is_walk:
  assumes "bases_ok w" and "reports (src_written w) ds" and "reports (dst_written w) es"
  shows "dual_full_pass ds es w = walk_full_pass w"
proof -
  have "override_on (dst_tree w) (src_tree w) (set (diff_path_rels (fst (diff_union_and_dst_only ds es)))) = src_tree w"
    using union_is_complete [OF assms] by (auto simp: override_on_def)
  then show ?thesis
    by (simp add: dual_full_pass_def walk_full_pass_def refresh_dst_base_def advance_source_base_def
        apply_paths_def)
qed

lemma reachable_bases_ok: "sides_reachable w \<Longrightarrow> bases_ok w"
proof (induction rule: sides_reachable.induct)
  case (incremental w ds)
  then have "set (diff_path_rels ds) = src_written w" by (simp add: reports_def diff_path_rels_def)
  with incremental(3) show ?case
    by (auto simp: bases_ok_def incremental_pass_def advance_source_base_def apply_paths_def override_on_def)
next
  case (dual_full w ds es)
  then show ?case using dual_is_walk walk_full_ok by metis
qed (rule walk_full_ok | simp add: bases_ok_def)+


text \<open>The quick comparison misses nothing. A path on which source and destination differ is in the
  union of the two reports, so a Compare that examines only the union finds every difference.\<close>

theorem quick_compare_complete:
  assumes "sides_reachable w" and "reports (src_written w) ds" and "reports (dst_written w) es"
    and "src_tree w p \<noteq> dst_tree w p"
  shows "p \<in> set (diff_path_rels (fst (diff_union_and_dst_only ds es)))"
  using union_is_complete [OF reachable_bases_ok [OF assms(1)] assms(2,3)] assms(4) by blast

section \<open>An example\<close>

definition demo_sides :: "nat sides" where
  "demo_sides = walk_full_pass \<lparr>src_tree = (\<lambda>_. 0), dst_tree = (\<lambda>_. 0), src_base = (\<lambda>_. 0),
     dst_base = (\<lambda>_. 0), src_written = {}, dst_written = {}\<rparr>"

definition demo_drift :: "nat sides" where
  "demo_drift = (let w = demo_sides; w = w\<lparr>src_tree := (src_tree w)(''a'' := 1), src_written := insert ''a'' (src_written w)\<rparr>;
     w = incremental_pass [\<lparr>dp_rel = ''a'', dp_recursive = False\<rparr>] w
     in w\<lparr>dst_tree := (dst_tree w)(''a'' := 0), dst_written := insert ''a'' (dst_written w)\<rparr>)"

lemma demo_drift_reachable:
  "sides_reachable demo_drift" "src_written demo_drift = {}" "dst_written demo_drift = {''a''}"
  "src_tree demo_drift ''a'' = 1" "dst_tree demo_drift ''a'' = 0"
proof -
  show "sides_reachable demo_drift"
    unfolding demo_drift_def Let_def
    by (intro sides_reachable.dst_write sides_reachable.incremental sides_reachable.source_write)
      (simp_all add: demo_sides_def sides_reachable.first_full reports_def,
       simp add: walk_full_pass_def refresh_dst_base_def advance_source_base_def apply_paths_def)
qed (simp_all add: demo_drift_def demo_sides_def incremental_pass_def walk_full_pass_def refresh_dst_base_def
    advance_source_base_def apply_paths_def diff_path_rels_def override_on_def Let_def)


lemma quick_compare_complete_witness:
  "''a'' \<in> set (diff_path_rels (fst (diff_union_and_dst_only [] [\<lparr>dp_rel = ''a'', dp_recursive = True\<rparr>])))"
  by (rule quick_compare_complete [OF demo_drift_reachable(1)])
    (simp_all add: reports_def demo_drift_reachable)

end
