(* ===== verification/Engine.thy ===== *)
theory Engine
  imports Prelude Paths Config Scheduler Standby Cancel Store Store_Log Store_Views Zfs
begin

text \<open>
  The engine (\<open>src/src/core/sync/mod.rs\<close>): manual requests, the plan of an incremental pass, what a
  failed destination records, one pass over a cycle in its three forms (this machine, transfer of
  a directory, transfer of a file), and the loop that drives all pending cycles.

  What the file system and the peers answer is the record \<open>pass_env\<close>: for each destination the
  outcome of the copy work, an error being the list of texts of its chain (\<open>anyhow\<close>). Everything
  the engine decides from these outcomes, and everything it writes to the database, is modelled.
  One clock reading stands for the readings of a pass. Log output, the progress cells and the task
  counters are left out of the pass; errors of SQLite are not modelled.
\<close>

type_synonym err_chain = "string list"

section \<open>Machines by reference\<close>

definition machine_id_from_path :: "string option \<Rightarrow> string" where
  "machine_id_from_path i =
     (case i of None \<Rightarrow> ''local'' | Some v \<Rightarrow> if trim v = '''' then ''local'' else trim v)"

definition resolve_machine :: "MachineConfig list \<Rightarrow> string \<Rightarrow> MachineConfig option" where
  "resolve_machine ms reference =
     (let i = machine_id_from_path (Some reference) in
      if i = ''local'' then List.find (\<lambda>m. m_id m = ''local'') ms
      else case List.find (\<lambda>m. trim (alias_name m) \<noteq> '''' \<and> eq_ignore_ascii_case (trim (alias_name m)) i) ms of
        Some m \<Rightarrow> Some m
      | None \<Rightarrow> (case List.find (\<lambda>m. eq_ignore_ascii_case (m_id m) i) ms of
          Some m \<Rightarrow> Some m
        | None \<Rightarrow> List.find (\<lambda>m. eq_ignore_ascii_case (trim (m_host m)) i) ms))"

definition find_machine :: "host \<Rightarrow> AppConfig \<Rightarrow> string \<Rightarrow> MachineConfig option" where
  "find_machine h cfg i = resolve_machine (normalized_machines h cfg) i"

section \<open>Manual requests\<close>

datatype SyncRequestMode = IncrementalSync | FullSync | RepairScan

definition sync_request_mode_wire_value :: "SyncRequestMode \<Rightarrow> string" where
  "sync_request_mode_wire_value m =
     (case m of IncrementalSync \<Rightarrow> ''incremental'' | FullSync \<Rightarrow> ''full'' | RepairScan \<Rightarrow> ''repair_scan'')"

definition sync_request_mode_from_str :: "string \<Rightarrow> err_chain + SyncRequestMode" where
  "sync_request_mode_from_str v =
     (let v = to_ascii_lowercase (trim v) in
      if v = '''' \<or> v = ''incremental'' then Inr IncrementalSync
      else if v = ''full'' then Inr FullSync
      else if v \<in> {''repair_scan'', ''repair-scan'', ''repair''} then Inr RepairScan
      else Inl [''unsupported sync mode: '' @ v])"

definition path_event :: "string \<Rightarrow> string \<Rightarrow> string \<Rightarrow> WatcherEvent" where
  "path_event s kind p = \<lparr>we_source = s, we_mask = 0, we_kind = kind, we_path = Some p, we_rescan = False\<rparr>"

definition record_failed :: err_chain where "record_failed = [''failed to create open cycle'']"

fun record_paths :: "int \<Rightarrow> string \<Rightarrow> string \<Rightarrow> string list \<Rightarrow> db \<Rightarrow> (err_chain + unit) \<times> db" where
  "record_paths now s kind [] db = (Inr (), db)"
| "record_paths now s kind (p # ps) db =
     (case record_event now (path_event s kind p) db of
        (None, db) \<Rightarrow> (Inl record_failed, db)
      | (Some _, db) \<Rightarrow> record_paths now s kind ps db)"

definition target_and_mark :: "AppConfig \<Rightarrow> string \<Rightarrow> string \<Rightarrow> (nat \<Rightarrow> db \<Rightarrow> db) \<Rightarrow> int \<Rightarrow> db \<Rightarrow> db" where
  "target_and_mark cfg s d mark now db =
     (case force_target_destination cfg s d now db of
        (None, db) \<Rightarrow> db | (Some c, db) \<Rightarrow> mark (cyc_id c) db)"

definition report_total :: "ScanReport \<Rightarrow> nat" where
  "report_total r = to_add r + to_update r + to_delete r + type_mismatch r + metadata r"

definition sample_is_complete :: "ScanReport \<Rightarrow> bool" where
  "sample_is_complete r \<longleftrightarrow> \<not> truncated r \<and> length (differences r) \<ge> report_total r"

definition queue_scan_repair :: "AppConfig \<Rightarrow> string \<Rightarrow> string \<Rightarrow> int \<Rightarrow> db \<Rightarrow> (err_chain + unit) \<times> db" where
  "queue_scan_repair cfg s d now db =
     (case get_scan_report (s, d) db of
        None \<Rightarrow> (Inl [''no compare report stored; run Compare first''], db)
      | Some r \<Rightarrow>
          if rep_error r \<noteq> ''''
          then (Inl [''last compare failed ('' @ rep_error r @ ''); run Compare again''], db)
          else if report_total r = 0 then (Inr (), db)
          else if sample_is_complete r
          then (case record_paths now s ''scan_repair'' (map diff_path (differences r)) db of
                  (Inl e, db) \<Rightarrow> (Inl e, db)
                | (Inr _, db) \<Rightarrow> (Inr (), delete_scan_report (s, d)
                    (target_and_mark cfg s d mark_cycle_manual_incremental now db)))
          else (Inr (), delete_scan_report (s, d)
                  (target_and_mark cfg s d mark_cycle_manual_full_rescan now db)))"

definition request_paused :: "AppConfig \<Rightarrow> string \<Rightarrow> string \<Rightarrow> bool" where
  "request_paused cfg s d =
     (case List.find (\<lambda>x. src_id x = s) (source_groups cfg) of None \<Rightarrow> False
      | Some src \<Rightarrow> (case List.find (\<lambda>x. dst_id x = d) (destinations src) of None \<Rightarrow> False
          | Some dst \<Rightarrow> paused dst))"

definition queue_destination_sync :: "AppConfig \<Rightarrow> string \<Rightarrow> string \<Rightarrow> SyncRequestMode \<Rightarrow> int \<Rightarrow> db \<Rightarrow>
    (err_chain + unit) \<times> db" where
  "queue_destination_sync cfg s d m now db =
     (if request_paused cfg s d then (Inl [''destination is paused; resume it before syncing''], db)
      else case m of
        RepairScan \<Rightarrow> queue_scan_repair cfg s d now db
      | IncrementalSync \<Rightarrow> (Inr (), target_and_mark cfg s d mark_cycle_manual_incremental now db)
      | FullSync \<Rightarrow> (Inr (), target_and_mark cfg s d mark_cycle_manual_full_rescan now db))"

section \<open>What a failed destination records\<close>

definition chain_text :: "err_chain \<Rightarrow> string" where
  "chain_text e = join_with '': '' e"

definition short_reason :: "err_chain \<Rightarrow> string" where
  "short_reason e = take 120 (chain_text e)"

definition changed_prefixes :: "string list" where
  "changed_prefixes = [''source changed while copying '', ''source symlink changed while copying '']"

definition changed_path_of :: "string \<Rightarrow> string \<Rightarrow> string option" where
  "changed_path_of line pre =
     (case split_once pre line of None \<Rightarrow> None
      | Some (_, p) \<Rightarrow> if trim p = '''' then None else Some (trim p))"

text \<open>The paths are collected in a \<open>BTreeSet\<close>, so they come out sorted.\<close>

definition source_changed_paths :: "err_chain \<Rightarrow> string list" where
  "source_changed_paths e = sort (remdups (concat (map (\<lambda>text. concat (map (\<lambda>line.
     List.map_filter (changed_path_of line) changed_prefixes) (str_lines text))) e)))"

definition source_changing_error :: "string list \<Rightarrow> err_chain" where
  "source_changing_error ps = [join_with [CHR 0x0A] (map (\<lambda>p. ''source changed while copying '' @ p) (sort (remdups ps)))]"

definition record_destination_failure :: "destination_key \<Rightarrow> nat \<Rightarrow> err_chain \<Rightarrow> int \<Rightarrow> db \<Rightarrow> (err_chain + unit) \<times> db" where
  "record_destination_failure k cycle e now db =
     (if error_is_cancelled e
      then (Inr (), clear_destination_target k ''cancelled'' now
             (clear_destination_issues k (clear_cycle_needs_rescan cycle db)))
      else let ps = source_changed_paths e in
        if ps = []
        then (Inr (), upsert_destination_status k None ''red'' (short_reason e) now (clear_destination_issues k db))
        else (case record_paths now (fst k) ''source_changing_deferred'' ps db of
                (Inl err, db) \<Rightarrow> (Inl err, db)
              | (Inr _, db) \<Rightarrow> (Inr (), upsert_destination_status k (Some cycle) ''yellow'' ''source_changing'' now
                  (replace_destination_issues k cycle ''source_changing'' ps
                    ''source file changed while copying; deferred to the next cycle'' now db))))"

section \<open>The plan of an incremental pass\<close>

datatype incremental_plan = ApplyPaths "(nat \<times> string list) list" | Unusable string

definition path_error_text :: "path_error \<Rightarrow> string" where
  "path_error_text e = (case e of
     AbsolutePath p \<Rightarrow> ''relative path is absolute: '' @ p
   | UnsafePath p \<Rightarrow> ''unsafe relative path: '' @ p
   | EmptyPath \<Rightarrow> ''invalid empty relative path''
   | InvalidPath p \<Rightarrow> ''invalid relative path: '' @ p)"

text \<open>The result \<open>None\<close> of the loop is an event without a path.\<close>

fun collect_event_paths :: "nat \<Rightarrow> CycleEvent list \<Rightarrow> string list \<Rightarrow> err_chain + string list option" where
  "collect_event_paths cycle [] acc = Inr (Some acc)"
| "collect_event_paths cycle (e # es) acc =
     (case event_path e of
        None \<Rightarrow> Inr None
      | Some p \<Rightarrow> (case normalize_rel_path p of
          Inl err \<Rightarrow> Inl [''invalid event path in cycle '' @ decimal cycle @ '': '' @ p, path_error_text err]
        | Inr rel \<Rightarrow> (case rel_to_string rel of
            Inl err \<Rightarrow> Inl [path_error_text err]
          | Inr r \<Rightarrow> collect_event_paths cycle es (acc @ [r]))))"

definition actionable :: "CycleEvent \<Rightarrow> bool" where
  "actionable e \<longleftrightarrow> event_path e \<noteq> None \<or> rescan_required e"

type_synonym indexed_dst = "nat \<times> DestinationConfig"

fun plan_destinations :: "db \<Rightarrow> string \<Rightarrow> nat \<Rightarrow> indexed_dst list \<Rightarrow> (nat \<times> string list) list \<Rightarrow>
    err_chain + incremental_plan option" where
  "plan_destinations db s cycle [] plans = Inr (Some (ApplyPaths plans))"
| "plan_destinations db s cycle ((i, d) # ds) plans =
     (case destination_last_verified (s, dst_id d) db of
        None \<Rightarrow> Inr None
      | Some v \<Rightarrow>
          let es = filter actionable (events_between_cycles s v cycle db) in
          if list_ex rescan_required es then Inr None
          else (case collect_event_paths cycle es [] of
                  Inl e \<Rightarrow> Inl e
                | Inr None \<Rightarrow> Inr (Some (Unusable ''realtime_event_path_unavailable''))
                | Inr (Some ps) \<Rightarrow> plan_destinations db s cycle ds (plans @ [(i, sort (remdups ps))])))"

definition event_incremental_plan :: "db \<Rightarrow> SourceGroupConfig \<Rightarrow> Cycle \<Rightarrow> indexed_dst list \<Rightarrow>
    err_chain + incremental_plan option" where
  "event_incremental_plan db src cyc ready =
     (if ready = [] then Inr None
      else if manual_full_rescan cyc then Inr None
      else if needs_full_rescan cyc then Inr None
      else plan_destinations db (src_id src) (cyc_id cyc) ready [])"

section \<open>The environment of a pass\<close>

text \<open>The outcomes of the work on the file system and on the peers.\<close>

record 'z pass_env =
  env_now :: int
  env_cal :: calendar
  env_dev :: device_of
  env_host :: host
  env_ops :: cancel_world
  env_kind :: string
  env_files :: nat
  env_failed :: nat
  env_cancelled :: bool
  gate_text :: "gate \<Rightarrow> string"
  zfs :: "'z zfs_cmds"
  zhost :: zfs_host
  zfs_text :: "zfs_error \<Rightarrow> string"
  source_endpoint :: "err_chain + bool"
  endpoint_online :: "DestinationConfig \<Rightarrow> err_chain + unit"
  sync_paths :: "DestinationConfig \<Rightarrow> DiffPath list \<Rightarrow> DiffPath list \<Rightarrow> err_chain + unit"
  sync_tree :: "DestinationConfig \<Rightarrow> err_chain + string set"
  read_source :: "err_chain + unit"
  read_destination :: "DestinationConfig \<Rightarrow> err_chain + unit"
  sync_snapshot :: "DestinationConfig \<Rightarrow> err_chain + unit"

text \<open>\<open>source_endpoint\<close> tells whether the source is a directory, \<open>sync_paths\<close> is
  \<open>sync_endpoint_event_paths\<close> or its transfer counterpart, \<open>sync_tree\<close> is
  \<open>sync_destination_fast_missing_dirs\<close> with the paths it touched, and \<open>sync_snapshot\<close> the pass
  over a whole snapshot (\<open>sync_endpoint\<close>, \<open>sync_directory_with_transfer\<close> or \<open>sync_file_with_transfer\<close>).\<close>

record tally =
  all_verified :: bool
  targeted_count :: nat
  blocked_count :: nat
  had_unblocked_failure :: bool
  progressed :: bool

definition tally_start :: tally where
  "tally_start = \<lparr>all_verified = True, targeted_count = 0, blocked_count = 0,
     had_unblocked_failure = False, progressed = False\<rparr>"

record SyncCycleOutcome =
  out_progressed :: bool
  out_blocked :: bool

definition blocked :: "tally \<Rightarrow> tally" where
  "blocked t = t\<lparr>all_verified := False, blocked_count := blocked_count t + 1\<rparr>"

definition failed_one :: "tally \<Rightarrow> tally" where
  "failed_one t = t\<lparr>all_verified := False, had_unblocked_failure := True\<rparr>"

definition conclusion :: "tally \<Rightarrow> string" where
  "conclusion t = (if targeted_count t = 0 \<or> all_verified t then ''verified''
     else if blocked_count t > 0 \<and> \<not> had_unblocked_failure t then ''closed'' else ''failed'')"

definition verified_ge :: "nat option \<Rightarrow> nat \<Rightarrow> bool" where
  "verified_ge v c = (case v of None \<Rightarrow> False | Some n \<Rightarrow> n \<ge> c)"

definition mark_verified :: "destination_key \<Rightarrow> nat \<Rightarrow> int \<Rightarrow> db \<Rightarrow> db" where
  "mark_verified k cycle now db =
     upsert_destination_status k (Some cycle) ''green'' ''verified'' now (clear_destination_issues k db)"

definition standby_gate_blocks_sync :: "gate \<Rightarrow> bool \<Rightarrow> bool" where
  "standby_gate_blocks_sync g manual_sync = (case g of Asleep _ _ \<Rightarrow> \<not> manual_sync | NotMounted _ _ \<Rightarrow> True)"

definition enabled_destinations :: "SourceGroupConfig \<Rightarrow> indexed_dst list" where
  "enabled_destinations src = filter (\<lambda>(_, d). dst_enabled d) (enumerate 0 (destinations src))"

section \<open>Which destinations are ready\<close>

text \<open>The tally, the ready destinations and the database; the part both passes have in common ends
  before the gate of the local pass.\<close>

type_synonym collected = "tally \<times> indexed_dst list \<times> db"

definition hold :: "destination_key \<Rightarrow> string \<Rightarrow> int \<Rightarrow> collected \<Rightarrow> collected" where
  "hold k reason now = (\<lambda>(t, ready, db).
     (blocked t, ready, upsert_destination_status k None ''yellow'' reason now db))"

definition consider_destination :: "'z pass_env \<Rightarrow> SourceGroupConfig \<Rightarrow> Cycle \<Rightarrow> indexed_dst \<Rightarrow>
    (collected \<Rightarrow> collected) \<Rightarrow> collected \<Rightarrow> collected" where
  "consider_destination env src cyc x proceed = (\<lambda>(t, ready, db).
     let d = snd x; k = (src_id src, dst_id d); now = env_now env in
     if destination_target_cycle k db \<noteq> Some (cyc_id cyc) then (t, ready, db)
     else let t = t\<lparr>targeted_count := targeted_count t + 1\<rparr> in
       if verified_ge (destination_last_verified k db) (cyc_id cyc)
       then (t, ready, upsert_destination_status k (Some (cyc_id cyc)) ''green'' ''verified'' now db)
       else if paused d then hold k ''paused'' now (t, ready, db)
       else if kind_target_active KIND_COMPARE (target_for (src_id src) (dst_id d)) (env_ops env)
       then hold k ''waiting_for_compare'' now (t, ready, db)
       else proceed (t, ready, db))"

definition gate_verdict :: "'z pass_env \<Rightarrow> AppConfig \<Rightarrow> SourceGroupConfig \<Rightarrow> Cycle \<Rightarrow> DestinationConfig \<Rightarrow> gate option" where
  "gate_verdict env cfg src cyc d =
     (if standby_pools cfg = [] then None
      else case gate_for_sync (env_cal env) (env_dev env) (standby_pools cfg) (src_path src) (dst_path d) (env_now env) of
        Inr (Some g) \<Rightarrow>
          if standby_gate_blocks_sync g (manual_full_rescan cyc \<or> manual_changed_since_rescan cyc) then Some g else None
      | Inr None \<Rightarrow> None
      | Inl _ \<Rightarrow> None)"

definition local_gate :: "'z pass_env \<Rightarrow> AppConfig \<Rightarrow> SourceGroupConfig \<Rightarrow> Cycle \<Rightarrow> indexed_dst \<Rightarrow> collected \<Rightarrow> collected" where
  "local_gate env cfg src cyc x = (\<lambda>(t, ready, db).
     let d = snd x; k = (src_id src, dst_id d); now = env_now env in
     case gate_verdict env cfg src cyc d of
       Some (Asleep p n) \<Rightarrow> hold k (gate_text env (Asleep p n)) now (t, ready, db)
     | Some (NotMounted p e) \<Rightarrow>
         (failed_one t, ready, upsert_destination_status k None ''red'' (gate_text env (NotMounted p e)) now db)
     | None \<Rightarrow> (case endpoint_online env d of
         Inl e \<Rightarrow> (failed_one t, ready, upsert_destination_status k None ''red'' (short_reason e) now db)
       | Inr _ \<Rightarrow> (t, ready @ [x], db)))"

definition collect_ready :: "'z pass_env \<Rightarrow> AppConfig \<Rightarrow> SourceGroupConfig \<Rightarrow> Cycle \<Rightarrow> db \<Rightarrow> collected" where
  "collect_ready env cfg src cyc db =
     fold (\<lambda>x. consider_destination env src cyc x (local_gate env cfg src cyc x))
       (enabled_destinations src) (tally_start, [], db)"

text \<open>The transfer pass asks neither the gate nor the file system.\<close>

definition collect_ready_transfer :: "'z pass_env \<Rightarrow> SourceGroupConfig \<Rightarrow> Cycle \<Rightarrow> db \<Rightarrow> collected" where
  "collect_ready_transfer env src cyc db =
     fold (\<lambda>x. consider_destination env src cyc x (\<lambda>(t, ready, db). (t, ready @ [x], db)))
       (enabled_destinations src) (tally_start, [], db)"

section \<open>Driving the ready destinations\<close>

type_synonym 'z engine_state = "db \<times> 'z"
type_synonym 'z pass_result = "(err_chain + SyncCycleOutcome) \<times> 'z engine_state"

fun run_ready :: "(indexed_dst \<Rightarrow> tally \<Rightarrow> 's \<Rightarrow> (err_chain + tally) \<times> 's) \<Rightarrow> indexed_dst list \<Rightarrow> tally \<Rightarrow> 's \<Rightarrow>
    (err_chain + tally) \<times> 's" where
  "run_ready step [] t s = (Inr t, s)"
| "run_ready step (x # xs) t s =
     (case step x t s of (Inl e, s) \<Rightarrow> (Inl e, s) | (Inr t, s) \<Rightarrow> run_ready step xs t s)"

definition fail_destination :: "int \<Rightarrow> destination_key \<Rightarrow> nat \<Rightarrow> err_chain \<Rightarrow> tally \<Rightarrow> 'z engine_state \<Rightarrow>
    (err_chain + tally) \<times> 'z engine_state" where
  "fail_destination now k cycle e t = (\<lambda>(db, w).
     case record_destination_failure k cycle e now db of
       (Inl err, db) \<Rightarrow> (Inl err, db, w) | (Inr _, db) \<Rightarrow> (Inr (failed_one t), db, w))"

definition conclude :: "nat \<Rightarrow> tally \<Rightarrow> 'z engine_state \<Rightarrow> 'z pass_result" where
  "conclude cycle t = (\<lambda>(db, w).
     (Inr \<lparr>out_progressed = progressed t, out_blocked = blocked_count t > 0\<rparr>,
      mark_cycle_status cycle (conclusion t) db, w))"

definition unusable_pass :: "int \<Rightarrow> string \<Rightarrow> nat \<Rightarrow> string \<Rightarrow> indexed_dst list \<Rightarrow> 'z engine_state \<Rightarrow> 'z pass_result" where
  "unusable_pass now s cycle reason ready = (\<lambda>(db, w).
     (Inr \<lparr>out_progressed = False, out_blocked = False\<rparr>,
      mark_cycle_status cycle ''failed'' (fold (\<lambda>(_, d) db.
        upsert_destination_status (s, dst_id d) None ''yellow'' reason now
          (clear_destination_issues (s, dst_id d) db)) ready db), w))"

definition source_unavailable :: "'z pass_env \<Rightarrow> SourceGroupConfig \<Rightarrow> nat \<Rightarrow> err_chain \<Rightarrow> 'z engine_state \<Rightarrow> 'z pass_result" where
  "source_unavailable env src cycle e = (\<lambda>(db, w).
     (Inl ((''source path is unavailable: '' @ src_path src) # e),
      mark_cycle_status cycle ''failed'' (fold (\<lambda>d.
        upsert_destination_status (src_id src, dst_id d) None ''red'' ''source_unavailable'' (env_now env))
        (destinations src) db), w))"

definition apply_event_paths :: "'z pass_env \<Rightarrow> SourceGroupConfig \<Rightarrow> Cycle \<Rightarrow> (nat \<times> string list) list \<Rightarrow>
    indexed_dst \<Rightarrow> tally \<Rightarrow> 'z engine_state \<Rightarrow> (err_chain + tally) \<times> 'z engine_state" where
  "apply_event_paths env src cyc plans = (\<lambda>(i, d) t (db, w).
     let k = (src_id src, dst_id d);
         rels = (case map_of plans i of Some r \<Rightarrow> r | None \<Rightarrow> [])
     in case sync_paths env d (diff_paths_all_recursive rels) [] of
          Inr _ \<Rightarrow> (Inr (t\<lparr>progressed := (progressed t \<or> rels \<noteq> [])\<rparr>), mark_verified k (cyc_id cyc) (env_now env) db, w)
        | Inl e \<Rightarrow> fail_destination (env_now env) k (cyc_id cyc) e t (db, w))"

text \<open>The status written while an event-loss reconcile runs.\<close>

definition mark_event_loss :: "int \<Rightarrow> string \<Rightarrow> indexed_dst list \<Rightarrow> db \<Rightarrow> db" where
  "mark_event_loss now s ready db = fold (\<lambda>(_, d).
     upsert_destination_status (s, dst_id d) None ''red'' ''event_loss_reconcile'' now) ready db"

definition is_event_loss :: "Cycle \<Rightarrow> bool" where
  "is_event_loss cyc \<longleftrightarrow> needs_full_rescan cyc \<and> \<not> manual_full_rescan cyc"

section \<open>The reconcile of a local pass\<close>

text \<open>\<open>verified_pass\<close> is what every successful branch does: the tally, the status, the baselines.\<close>

definition verified_pass :: "'z pass_env \<Rightarrow> SourceGroupConfig \<Rightarrow> Cycle \<Rightarrow> DestinationConfig \<Rightarrow> string option \<Rightarrow>
    DstBaselineAction \<Rightarrow> tally \<Rightarrow> 'z engine_state \<Rightarrow> (err_chain + tally) \<times> 'z engine_state" where
  "verified_pass env src cyc d base action t = (\<lambda>(db, w).
     let (w, db) = record_destination_verified_baselines (zfs env) (zhost env) (env_now env) src (dst_id d) base action
           (cyc_id cyc) (w, mark_verified (src_id src, dst_id d) (cyc_id cyc) (env_now env) db)
     in (Inr t, db, w))"

definition effective_root :: "SourceGroupConfig \<Rightarrow> DestinationConfig \<Rightarrow> path_buf" where
  "effective_root src d = (if add_directory src
     then path_push (dst_path d) (case file_name (src_path src) of Some n \<Rightarrow> n | None \<Rightarrow> '''') else dst_path d)"

text \<open>The incremental attempt by \<open>zfs diff\<close>; \<open>None\<close> falls back to a full reconcile.\<close>

definition zfs_incremental :: "'z pass_env \<Rightarrow> AppConfig \<Rightarrow> SourceGroupConfig \<Rightarrow> Cycle \<Rightarrow> read_view \<Rightarrow> DstBaselineAction \<Rightarrow>
    DestinationConfig \<Rightarrow> tally \<Rightarrow> 'z engine_state \<Rightarrow> ((err_chain + tally) \<times> 'z engine_state) option" where
  "zfs_incremental env cfg src cyc view action d t = (\<lambda>(db, w).
     if zfs_diff (effective_sync_config cfg d) \<and> \<not> is_event_loss cyc \<and> \<not> manual_full_rescan cyc
     then (case view of None \<Rightarrow> None | Some zs \<Rightarrow>
          (case destination_verified_snapshot (src_id src, dst_id d) db of None \<Rightarrow> None | Some base \<Rightarrow>
          (case zfs_diff_changed_paths (zfs env) w base (zs_full_name zs) (zs_live_root zs) of None \<Rightarrow> None
           | Some ps \<Rightarrow> (case sync_paths env d ps [] of Inl _ \<Rightarrow> None
               | Inr _ \<Rightarrow> Some (verified_pass env src cyc d (Some (zs_full_name zs)) action
                   (t\<lparr>progressed := (progressed t \<or> ps \<noteq> [])\<rparr>) (db, w))))))
     else None)"

definition full_zfs_diff_paths :: "'z pass_env \<Rightarrow> destination_key \<Rightarrow> ZfsSnapshot \<Rightarrow> path_buf \<Rightarrow> 'z engine_state \<Rightarrow>
    (DiffPath list \<times> DiffPath list) option" where
  "full_zfs_diff_paths env k zs dst_root = (\<lambda>(db, w).
     case destination_verified_snapshot k db of None \<Rightarrow> None | Some src_b \<Rightarrow>
     (case destination_verified_dst_snapshot k db of None \<Rightarrow> None | Some dst_b \<Rightarrow>
        if dataset_of_name src_b \<noteq> zs_dataset zs then None
        else (case resolve_dataset_for_path (zfs env) (zhost env) dst_root of Inl _ \<Rightarrow> None | Inr ds \<Rightarrow>
          if dataset_of_name dst_b \<noteq> ds_name ds then None
          else (case real_path (zhost env) dst_root of None \<Rightarrow> None | Some live \<Rightarrow>
            (case zfs_diff_changed_paths (zfs env) w src_b (zs_full_name zs) (zs_live_root zs) of None \<Rightarrow> None
             | Some src_changed \<Rightarrow>
            (case zfs_diff_changed_paths_live (zfs env) w dst_b live of None \<Rightarrow> None
             | Some dst_changed \<Rightarrow> Some (diff_union_and_dst_only src_changed dst_changed)))))))"

definition zfs_full :: "'z pass_env \<Rightarrow> AppConfig \<Rightarrow> SourceGroupConfig \<Rightarrow> Cycle \<Rightarrow> read_view \<Rightarrow>
    DestinationConfig \<Rightarrow> tally \<Rightarrow> 'z engine_state \<Rightarrow> ((err_chain + tally) \<times> 'z engine_state) option" where
  "zfs_full env cfg src cyc view d t s =
     (if zfs_diff (effective_sync_config cfg d) \<and> manual_full_rescan cyc
      then (case view of None \<Rightarrow> None | Some zs \<Rightarrow>
        (case full_zfs_diff_paths env (src_id src, dst_id d) zs (effective_root src d) s of None \<Rightarrow> None
         | Some (ps, dst_only) \<Rightarrow> (case sync_paths env d ps dst_only of Inl _ \<Rightarrow> None
             | Inr _ \<Rightarrow> Some (verified_pass env src cyc d (Some (zs_full_name zs))
                 (Refresh (effective_root src d) (Some (set (diff_path_rels ps))))
                 (t\<lparr>progressed := (progressed t \<or> ps \<noteq> [])\<rparr>) s))))
      else None)"

definition reconcile_dir :: "'z pass_env \<Rightarrow> AppConfig \<Rightarrow> SourceGroupConfig \<Rightarrow> Cycle \<Rightarrow> read_view \<Rightarrow>
    indexed_dst \<Rightarrow> tally \<Rightarrow> 'z engine_state \<Rightarrow> (err_chain + tally) \<times> 'z engine_state" where
  "reconcile_dir env cfg src cyc view x t s =
     (let d = snd x in
      case zfs_incremental env cfg src cyc view Retain d t s of Some r \<Rightarrow> r
      | None \<Rightarrow> (case zfs_full env cfg src cyc view d t s of Some r \<Rightarrow> r
      | None \<Rightarrow> (case sync_tree env d of
          Inr wrote \<Rightarrow> verified_pass env src cyc d (map_option zs_full_name view)
            (if zfs_diff (effective_sync_config cfg d) then Refresh (effective_root src d) (Some wrote) else Clear)
            (t\<lparr>progressed := True\<rparr>) s
        | Inl e \<Rightarrow> fail_destination (env_now env) (src_id src, dst_id d) (cyc_id cyc) e t s)))"

definition snapshot_context :: "SourceGroupConfig \<Rightarrow> string" where
  "snapshot_context src = ''failed to snapshot source '' @ src_path src"

definition reconcile_file :: "'z pass_env \<Rightarrow> SourceGroupConfig \<Rightarrow> Cycle \<Rightarrow> read_view \<Rightarrow>
    indexed_dst \<Rightarrow> tally \<Rightarrow> 'z engine_state \<Rightarrow> (err_chain + tally) \<times> 'z engine_state" where
  "reconcile_file env src cyc view x t s =
     (let d = snd x in
      case read_source env of
        Inl e \<Rightarrow> (Inl (snapshot_context src # e), s)
      | Inr _ \<Rightarrow> (case sync_snapshot env d of
          Inr _ \<Rightarrow> verified_pass env src cyc d (map_option zs_full_name view) Clear (t\<lparr>progressed := True\<rparr>) s
        | Inl e \<Rightarrow> fail_destination (env_now env) (src_id src, dst_id d) (cyc_id cyc) e t s))"

text \<open>After a verified cycle the superseded snapshots of the view go.\<close>

definition conclude_view :: "'z pass_env \<Rightarrow> SourceGroupConfig \<Rightarrow> nat \<Rightarrow> read_view \<Rightarrow> tally \<Rightarrow> 'z engine_state \<Rightarrow> 'z pass_result" where
  "conclude_view env src cycle view t = (\<lambda>(db, w).
     let (r, db, w) = conclude cycle t (db, w)
     in (r, db, if conclusion t = ''verified''
          then view_cleanup (zfs env) src (source_referenced_snapshots (src_id src) db) view w else w))"

definition reconcile_local :: "'z pass_env \<Rightarrow> AppConfig \<Rightarrow> SourceGroupConfig \<Rightarrow> Cycle \<Rightarrow> bool \<Rightarrow> indexed_dst list \<Rightarrow> tally \<Rightarrow>
    'z engine_state \<Rightarrow> 'z pass_result" where
  "reconcile_local env cfg src cyc dir_source ready t = (\<lambda>(db, w).
     let c = cyc_id cyc;
         db = (if is_event_loss cyc then mark_event_loss (env_now env) (src_id src) ready db else db)
     in case SourceReadView_prepare (zfs env) (zhost env) src c (Some (starts_at cyc div SECOND)) w of
          (Inl e, w) \<Rightarrow> (Inl [zfs_text env e], db, w)
        | (Inr view, w) \<Rightarrow>
            let db = mark_cycle_status c ''syncing'' (mark_cycle_status c ''planning'' db);
                step = (if dir_source then reconcile_dir env cfg src cyc view else reconcile_file env src cyc view)
            in (case run_ready step ready t (db, w) of
                  (Inl e, s) \<Rightarrow> (Inl e, s) | (Inr t, s) \<Rightarrow> conclude_view env src c view t s))"

definition sync_cycle_local :: "'z pass_env \<Rightarrow> AppConfig \<Rightarrow> SourceGroupConfig \<Rightarrow> Cycle \<Rightarrow> 'z engine_state \<Rightarrow> 'z pass_result" where
  "sync_cycle_local env cfg src cyc = (\<lambda>(db, w).
     let c = cyc_id cyc; s = src_id src in
     case source_endpoint env of
       Inl e \<Rightarrow> source_unavailable env src c e (db, w)
     | Inr dir_source \<Rightarrow>
         (case collect_ready env cfg src cyc db of (t, ready, db) \<Rightarrow>
            if ready = [] then conclude c t (db, w)
            else (case event_incremental_plan db src cyc ready of
                Inl e \<Rightarrow> (Inl e, db, w)
              | Inr (Some (Unusable reason)) \<Rightarrow> unusable_pass (env_now env) s c reason ready (db, w)
              | Inr (Some (ApplyPaths plans)) \<Rightarrow>
                  (case run_ready (apply_event_paths env src cyc plans) ready t (mark_cycle_status c ''syncing'' db, w) of
                     (Inl e, st) \<Rightarrow> (Inl e, st) | (Inr t, st) \<Rightarrow> conclude c t st)
              | Inr None \<Rightarrow> reconcile_local env cfg src cyc dir_source ready t (db, w))))"

section \<open>Passes that transfer\<close>

definition destination_machine :: "'z pass_env \<Rightarrow> AppConfig \<Rightarrow> DestinationConfig \<Rightarrow> MachineConfig option" where
  "destination_machine env cfg d = find_machine (env_host env) cfg (machine_id_or_local (dst_machine d))"

definition unknown_destination :: "int \<Rightarrow> destination_key \<Rightarrow> tally \<Rightarrow> db \<Rightarrow> (err_chain + tally) \<times> db" where
  "unknown_destination now k t db =
     (Inr (failed_one t), upsert_destination_status k None ''red'' ''unknown_destination_machine'' now db)"

definition transfer_event_paths :: "'z pass_env \<Rightarrow> AppConfig \<Rightarrow> SourceGroupConfig \<Rightarrow> Cycle \<Rightarrow> (nat \<times> string list) list \<Rightarrow>
    indexed_dst \<Rightarrow> tally \<Rightarrow> 'z engine_state \<Rightarrow> (err_chain + tally) \<times> 'z engine_state" where
  "transfer_event_paths env cfg src cyc plans x t = (\<lambda>(db, w).
     case destination_machine env cfg (snd x) of
       None \<Rightarrow> let (r, db) = unknown_destination (env_now env) (src_id src, dst_id (snd x)) t db in (r, db, w)
     | Some _ \<Rightarrow> apply_event_paths env src cyc plans x t (db, w))"

text \<open>The flag of the state: the source's snapshot has been read. The first destination that needs
  it is scanned at the same time.\<close>

definition transfer_destination :: "'z pass_env \<Rightarrow> AppConfig \<Rightarrow> SourceGroupConfig \<Rightarrow> Cycle \<Rightarrow> read_view \<Rightarrow>
    indexed_dst \<Rightarrow> tally \<Rightarrow> bool \<times> 'z engine_state \<Rightarrow> (err_chain + tally) \<times> bool \<times> 'z engine_state" where
  "transfer_destination env cfg src cyc view x t = (\<lambda>(cached, db, w).
     let d = snd x; k = (src_id src, dst_id d); now = env_now env;
         on_this_machine = (machine_id_or_local (dst_machine d) = ''local'')
     in case destination_machine env cfg d of
          None \<Rightarrow> let (r, db) = unknown_destination now k t db in (r, cached, db, w)
        | Some _ \<Rightarrow>
     (case zfs_incremental env cfg src cyc view (if on_this_machine then Retain else Clear) d t (db, w) of
        Some (r, s) \<Rightarrow> (r, cached, s)
      | None \<Rightarrow>
          (case (if cached then Inr () else
                 case read_source env of Inl e \<Rightarrow> Inl (snapshot_context src # e)
                 | Inr _ \<Rightarrow> (case read_destination env d of
                     Inl e \<Rightarrow> Inl ((''failed to snapshot destination '' @ effective_root src d) # e)
                   | Inr _ \<Rightarrow> Inr ())) of
             Inl e \<Rightarrow> (Inl e, cached, db, w)
           | Inr _ \<Rightarrow>
               (case sync_snapshot env d of
                  Inr _ \<Rightarrow> (case verified_pass env src cyc d (map_option zs_full_name view)
                      (if on_this_machine \<and> zfs_diff (effective_sync_config cfg d)
                       then Refresh (effective_root src d) None else Clear)
                      (t\<lparr>progressed := True\<rparr>) (db, w) of (r, s) \<Rightarrow> (r, True, s))
                | Inl e \<Rightarrow> (case fail_destination now k (cyc_id cyc) e t (db, w) of (r, s) \<Rightarrow> (r, True, s))))))"

definition reconcile_transfer :: "'z pass_env \<Rightarrow> AppConfig \<Rightarrow> SourceGroupConfig \<Rightarrow> Cycle \<Rightarrow> indexed_dst list \<Rightarrow> tally \<Rightarrow>
    'z engine_state \<Rightarrow> 'z pass_result" where
  "reconcile_transfer env cfg src cyc ready t = (\<lambda>(db, w).
     let c = cyc_id cyc;
         db = (if is_event_loss cyc then mark_event_loss (env_now env) (src_id src) ready db else db);
         db = mark_cycle_status c ''planning'' db
     in case (if machine_id_or_local (src_machine src) = ''local''
              then SourceReadView_prepare (zfs env) (zhost env) src c (Some (starts_at cyc div SECOND)) w
              else (Inr None, w)) of
          (Inl e, w) \<Rightarrow> (Inl [zfs_text env e], db, w)
        | (Inr view, w) \<Rightarrow>
            (case run_ready (transfer_destination env cfg src cyc view) ready t
                    (False, mark_cycle_status c ''syncing'' db, w) of
               (Inl e, _, s) \<Rightarrow> (Inl e, s) | (Inr t, _, s) \<Rightarrow> conclude_view env src c view t s))"

definition transfer_file_destination :: "'z pass_env \<Rightarrow> AppConfig \<Rightarrow> SourceGroupConfig \<Rightarrow> Cycle \<Rightarrow>
    indexed_dst \<Rightarrow> tally \<Rightarrow> 'z engine_state \<Rightarrow> (err_chain + tally) \<times> 'z engine_state" where
  "transfer_file_destination env cfg src cyc x t = (\<lambda>(db, w).
     let d = snd x; k = (src_id src, dst_id d); now = env_now env in
     if destination_target_cycle k db \<noteq> Some (cyc_id cyc) then (Inr t, db, w)
     else let t = t\<lparr>targeted_count := targeted_count t + 1\<rparr> in
       if paused d then (Inr (blocked t), upsert_destination_status k None ''yellow'' ''paused'' now db, w)
       else (case destination_machine env cfg d of
           None \<Rightarrow> let (r, db) = unknown_destination now k t db in (r, db, w)
         | Some _ \<Rightarrow> (case sync_snapshot env d of
             Inr _ \<Rightarrow> (Inr (t\<lparr>progressed := True\<rparr>), mark_verified k (cyc_id cyc) now db, w)
           | Inl e \<Rightarrow> fail_destination now k (cyc_id cyc) e t (db, w))))"

definition sync_cycle_file_with_transfer :: "'z pass_env \<Rightarrow> AppConfig \<Rightarrow> SourceGroupConfig \<Rightarrow> Cycle \<Rightarrow> 'z engine_state \<Rightarrow> 'z pass_result" where
  "sync_cycle_file_with_transfer env cfg src cyc = (\<lambda>(db, w).
     let m = machine_id_or_local (src_machine src) in
     case find_machine (env_host env) cfg m of
       None \<Rightarrow> (Inl [''unknown source machine: '' @ m], db, w)
     | Some _ \<Rightarrow>
     (case read_source env of
       Inl e \<Rightarrow> (Inl e, db, w)
     | Inr _ \<Rightarrow>
         (case run_ready (transfer_file_destination env cfg src cyc) (enabled_destinations src) tally_start
                 (mark_cycle_status (cyc_id cyc) ''syncing'' db, w) of
            (Inl e, s) \<Rightarrow> (Inl e, s) | (Inr t, s) \<Rightarrow> conclude (cyc_id cyc) t s)))"

definition sync_cycle_with_transfer :: "'z pass_env \<Rightarrow> AppConfig \<Rightarrow> SourceGroupConfig \<Rightarrow> Cycle \<Rightarrow> 'z engine_state \<Rightarrow> 'z pass_result" where
  "sync_cycle_with_transfer env cfg src cyc = (\<lambda>(db, w).
     let c = cyc_id cyc; s = src_id src; m = machine_id_or_local (src_machine src) in
     case find_machine (env_host env) cfg m of
       None \<Rightarrow> (Inl [''unknown source machine: '' @ m], db, w)
     | Some _ \<Rightarrow>
     (case source_endpoint env of
        Inl e \<Rightarrow> source_unavailable env src c e (db, w)
      | Inr dir_source \<Rightarrow>
          if \<not> dir_source then sync_cycle_file_with_transfer env cfg src cyc (db, w)
          else (case collect_ready_transfer env src cyc db of (t, ready, db) \<Rightarrow>
            if ready = [] then conclude c t (db, w)
            else (case event_incremental_plan db src cyc ready of
                Inl e \<Rightarrow> (Inl e, db, w)
              | Inr (Some (Unusable reason)) \<Rightarrow> unusable_pass (env_now env) s c reason ready (db, w)
              | Inr (Some (ApplyPaths plans)) \<Rightarrow>
                  (case run_ready (transfer_event_paths env cfg src cyc plans) ready t
                      (mark_cycle_status c ''syncing'' db, w) of
                     (Inl e, st) \<Rightarrow> (Inl e, st) | (Inr t, st) \<Rightarrow> conclude c t st)
              | Inr None \<Rightarrow> reconcile_transfer env cfg src cyc ready t (db, w)))))"

definition cycle_has_remote_target :: "host \<Rightarrow> AppConfig \<Rightarrow> SourceGroupConfig \<Rightarrow> Cycle \<Rightarrow> db \<Rightarrow> bool" where
  "cycle_has_remote_target h cfg src cyc db \<longleftrightarrow>
     \<not> machine_is_local h cfg (src_machine src) \<or>
     list_ex (\<lambda>d. dst_enabled d \<and> destination_target_cycle (src_id src, dst_id d) db = Some (cyc_id cyc) \<and>
       \<not> machine_is_local h cfg (dst_machine d)) (destinations src)"

definition sync_cycle_for_source_inner :: "'z pass_env \<Rightarrow> AppConfig \<Rightarrow> SourceGroupConfig \<Rightarrow> Cycle \<Rightarrow> 'z engine_state \<Rightarrow> 'z pass_result" where
  "sync_cycle_for_source_inner env cfg src cyc s =
     (if cycle_has_remote_target (env_host env) cfg src cyc (fst s)
      then sync_cycle_with_transfer env cfg src cyc s else sync_cycle_local env cfg src cyc s)"

section \<open>The task log of a pass\<close>

definition cycle_runs_full_reconcile :: "db \<Rightarrow> SourceGroupConfig \<Rightarrow> Cycle \<Rightarrow> bool" where
  "cycle_runs_full_reconcile db src cyc \<longleftrightarrow> needs_full_rescan cyc \<or>
     list_ex (\<lambda>d. dst_enabled d \<and>
       (let off = destination_offset (src_id src, dst_id d) 0 db
        in target_cycle off = Some (cyc_id cyc) \<and> last_verified off = None)) (destinations src)"

definition task_log_kind :: "string \<Rightarrow> db \<Rightarrow> SourceGroupConfig \<Rightarrow> Cycle \<Rightarrow> string" where
  "task_log_kind kind db src cyc =
     (if kind = ''repair_scan'' \<and> manual_full_rescan cyc then ''repair_full''
      else if kind = ''incremental'' \<and> cycle_runs_full_reconcile db src cyc then ''full'' else kind)"

definition cycle_failed :: "db \<Rightarrow> string \<Rightarrow> nat \<Rightarrow> bool" where
  "cycle_failed db s cycle \<longleftrightarrow>
     (case cycle_by_id s cycle db of None \<Rightarrow> False | Some c \<Rightarrow> cyc_status c = ''failed'')"

definition enabled_offsets :: "db \<Rightarrow> SourceGroupConfig \<Rightarrow> (string \<times> DestinationOffset) list" where
  "enabled_offsets db src = map (\<lambda>d. (dst_id d, destination_offset (src_id src, dst_id d) 0 db))
     (filter dst_enabled (destinations src))"

definition failed_pass_reason :: "db \<Rightarrow> SourceGroupConfig \<Rightarrow> nat \<Rightarrow> string option" where
  "failed_pass_reason db src cycle =
     (if \<not> cycle_failed db (src_id src) cycle then None
      else let reasons = map (\<lambda>(i, off). i @ '': '' @ (if off_reason off = '''' then ''failed'' else off_reason off))
             (filter (\<lambda>(_, off). off_status off = ''red'') (enabled_offsets db src))
           in Some (if reasons = [] then ''sync pass failed'' else join_with ''; '' reasons))"

definition source_changing_only_pass :: "db \<Rightarrow> SourceGroupConfig \<Rightarrow> nat \<Rightarrow> nat option" where
  "source_changing_only_pass db src cycle =
     (if \<not> cycle_failed db (src_id src) cycle then None
      else if list_ex (\<lambda>(_, off). off_status off = ''red'') (enabled_offsets db src) then None
      else let n = length (filter (\<lambda>(_, off). off_reason off = ''source_changing'') (enabled_offsets db src))
           in if n > 0 then Some n else None)"

text \<open>The entry of the task log is opened with the kind, closed with the outcome, and dropped when
  the pass did nothing.\<close>

definition close_task :: "nat \<Rightarrow> err_chain + SyncCycleOutcome \<Rightarrow> SourceGroupConfig \<Rightarrow> nat \<Rightarrow> nat \<Rightarrow> nat \<Rightarrow> int \<Rightarrow> db \<Rightarrow> db" where
  "close_task i r src cycle n_files n_failed now db =
     (case r of
        Inl e \<Rightarrow> if error_is_cancelled e
          then task_finish i ''cancelled'' CANCELLED_MESSAGE n_files n_failed 0 now db
          else task_finish i ''failed'' (chain_text e) n_files n_failed 0 now db
      | Inr out \<Rightarrow> (case source_changing_only_pass db src cycle of
          Some n \<Rightarrow> task_finish i ''warning'' (decimal n_files @ '' files synced; '' @ decimal n
              @ '' destination(s) had files change during the copy - deferred to the next cycle'')
              n_files n_failed 0 now db
        | None \<Rightarrow> (case failed_pass_reason db src cycle of
            Some reason \<Rightarrow> task_finish i ''failed'' reason n_files n_failed 0 now db
          | None \<Rightarrow> if n_files = 0 \<and> n_failed = 0 \<and> \<not> out_progressed out then task_discard i db
              else task_finish i ''success'' '''' n_files n_failed 0 now db)))"

definition sync_cycle_for_source :: "'z pass_env \<Rightarrow> AppConfig \<Rightarrow> SourceGroupConfig \<Rightarrow> Cycle \<Rightarrow> 'z engine_state \<Rightarrow> 'z pass_result" where
  "sync_cycle_for_source env cfg src cyc = (\<lambda>(db, w).
     let now = env_now env; kind = env_kind env;
         ids = join_with '','' (map dst_id (filter dst_enabled (destinations src)));
         (i, db) = task_start (task_log_kind kind db src cyc) (src_id src) ids now db;
         (r, db, w) = sync_cycle_for_source_inner env cfg src cyc (db, w);
         db = (if \<not> isl r \<and> kind = ''full'' then snd (clear_restart_notice_if_covered (src_id src) now db) else db)
     in (r, close_task i r src (cyc_id cyc) (env_files env) (env_failed env) now db, w))"

section \<open>Driving every pending cycle\<close>

fun drive_cycles :: "(Cycle \<Rightarrow> 'z pass_env) \<Rightarrow> AppConfig \<Rightarrow> SourceGroupConfig \<Rightarrow> Cycle list \<Rightarrow> bool \<times> bool \<Rightarrow>
    'z engine_state \<Rightarrow> (err_chain + bool \<times> bool) \<times> 'z engine_state" where
  "drive_cycles env cfg src [] fl s = (Inr fl, s)"
| "drive_cycles env cfg src (c # cs) fl s =
     (if env_cancelled (env c) then (Inl [CANCELLED_MESSAGE], s)
      else if source_has_target_cycle (src_id src) (cyc_id c) (fst s)
      then (case sync_cycle_for_source (env c) cfg src c s of
              (Inr out, s) \<Rightarrow> drive_cycles env cfg src cs
                 (fst fl \<or> out_progressed out, snd fl \<or> out_blocked out) s
            | (Inl e, s) \<Rightarrow> if error_is_cancelled e then (Inl e, s) else (Inr fl, s))
      else if cyc_status c = ''closed''
      then drive_cycles env cfg src cs fl (mark_cycle_status (cyc_id c) ''verified'' (fst s), snd s)
      else drive_cycles env cfg src cs fl s)"

text \<open>Pruning only after a source whose pass did work.\<close>

definition drive_source :: "(Cycle \<Rightarrow> 'z pass_env) \<Rightarrow> AppConfig \<Rightarrow> SourceGroupConfig \<Rightarrow> 'z engine_state \<Rightarrow>
    (err_chain + bool \<times> bool) \<times> 'z engine_state" where
  "drive_source env cfg src s =
     (case drive_cycles env cfg src (closed_cycles_for_source (src_id src) (fst s)) (False, False) s of
        (Inl e, s) \<Rightarrow> (Inl e, s)
      | (Inr (p, b), db, w) \<Rightarrow> (Inr (p, b), (if p then prune_verified_cycle_events src db else db), w))"

fun drive_sources :: "(string \<Rightarrow> Cycle \<Rightarrow> 'z pass_env) \<Rightarrow> AppConfig \<Rightarrow> SourceGroupConfig list \<Rightarrow> bool \<times> bool \<Rightarrow>
    'z engine_state \<Rightarrow> (err_chain + bool \<times> bool) \<times> 'z engine_state" where
  "drive_sources env cfg [] fl s = (Inr fl, s)"
| "drive_sources env cfg (src # srcs) fl s =
     (case drive_source (env (src_id src)) cfg src s of
        (Inl e, s) \<Rightarrow> (Inl e, s)
      | (Inr (p, b), s) \<Rightarrow> drive_sources env cfg srcs (fst fl \<or> p, snd fl \<or> b) s)"

definition local_sources :: "AppConfig \<Rightarrow> SourceGroupConfig list" where
  "local_sources cfg = filter (\<lambda>s. src_enabled s \<and> machine_id_or_local (src_machine s) = ''local'') (source_groups cfg)"

text \<open>The loop runs as long as a round progressed and left something blocked. It need not end, so it
  takes fuel; \<open>None\<close> is a loop that has not ended within it. Each round has its environments.\<close>

fun drive_loop :: "nat \<Rightarrow> (nat \<Rightarrow> string \<Rightarrow> Cycle \<Rightarrow> 'z pass_env) \<Rightarrow> AppConfig \<Rightarrow> nat \<Rightarrow> 'z engine_state \<Rightarrow>
    ((err_chain + unit) \<times> 'z engine_state) option" where
  "drive_loop 0 env cfg n s = None"
| "drive_loop (Suc fuel) env cfg n s =
     (case drive_sources (env n) cfg (local_sources cfg) (False, False) s of
        (Inl e, s) \<Rightarrow> Some (Inl e, s)
      | (Inr (p, b), s) \<Rightarrow> if \<not> p \<or> \<not> b then Some (Inr (), s) else drive_loop fuel env cfg (n + 1) s)"

definition sync_all_pending_inner :: "nat \<Rightarrow> (nat \<Rightarrow> string \<Rightarrow> Cycle \<Rightarrow> 'z pass_env) \<Rightarrow> 'z zfs_cmds \<Rightarrow> AppConfig \<Rightarrow> int \<Rightarrow>
    'z engine_state \<Rightarrow> ((err_chain + unit) \<times> 'z engine_state) option" where
  "sync_all_pending_inner fuel env z cfg now = (\<lambda>(db, w).
     let (orphans, db) = prune_removed_destination_offsets cfg (ensure_config cfg now db)
     in drive_loop fuel env cfg 0 (db, destroy_all z orphans w))"

end
