(* ===== verification/Engine_Pass.thy ===== *)
theory Engine_Pass
  imports Prelude Config Store Store_Log Store_Views Zfs Engine
begin

text \<open>
  What one pass of the engine may do to the database. Every pass, local or with transfer, is a
  sequence of the steps \<open>pass_step\<close>, which are steps of the database (\<open>log_step\<close>), so the invariants of
  the store hold after it; in such a sequence a destination's verified cycle advances only to the
  pass's cycle and only when it was earned.
\<close>

section \<open>Targets and verified cycles under the operations\<close>

named_theorems offset_simps "targets and verified cycles after an operation"

lemma target_lookup:
  "destination_target_cycle k db = (case map_of (offsets db) k of None \<Rightarrow> None | Some r \<Rightarrow> target_cycle r)"
  by (simp add: destination_target_cycle_def destination_offset_def DestinationOffset.truncate_def split: option.split)

lemma lookup_upsert_offset:
  "map_of (offsets (upsert_offset k fresh ch db)) j = (if j = k
     then Some (case map_of (offsets db) k of None \<Rightarrow> fresh | Some r \<Rightarrow> ch r) else map_of (offsets db) j)"
  by (simp add: upsert_offset_def Let_def tbl_simps)

lemma lookup_update_offset:
  "map_of (offsets (update_offset k ch db)) j = (if j = k
     then map_option ch (map_of (offsets db) k) else map_of (offsets db) j)"
  by (auto simp: update_offset_def tbl_simps split: option.split)

lemma offsets_others [simp]:
  "offsets (mark_local_change s db) = offsets db"
  "offsets (clear_destination_issues k db) = offsets db"
  "offsets (replace_destination_issues k c kind ps m now db) = offsets db"
  "offsets (mark_cycle_status i st db) = offsets db"
  "offsets (clear_cycle_needs_rescan i db) = offsets db"
  "offsets (insert_event i now e db) = offsets db"
  "offsets (touch_source_meta s now db) = offsets db"
  by (simp_all add: mark_local_change_def clear_destination_issues_def replace_destination_issues_def
      mark_cycle_status_def clear_cycle_needs_rescan_def update_cycles_def insert_event_def
      touch_source_meta_def Let_def)

lemma offsets_record_event [simp]: "offsets (snd (record_event now e db)) = offsets db"
proof -
  have o: "offsets (snd (ensure_open_cycle s now db)) = offsets db" for s db
    by (simp add: ensure_open_cycle_def Let_def split: option.split)
  have m: "offsets (mark_open_cycle_needs_rescan s now db) = offsets db" for s db
    by (cases "ensure_open_cycle s now db", insert o [of s db])
      (auto simp: mark_open_cycle_needs_rescan_def mark_cycle_needs_rescan_def update_cycles_def split: option.split)
  show ?thesis
    by (cases "ensure_open_cycle (we_source e) now db", insert o [of "we_source e" db])
      (auto simp: record_event_def Let_def m split: option.split)
qed

lemma status_offsets [offset_simps]:
  "destination_target_cycle j (upsert_destination_status k v st r now db) = destination_target_cycle j db"
  "destination_last_verified j (upsert_destination_status k v st r now db) =
     (if j = k \<and> v \<noteq> None then v else destination_last_verified j db)"
  by (auto simp: upsert_destination_status_def target_lookup destination_last_verified_def
      lookup_upsert_offset new_offset_def coalesce_def split: option.split)

lemma untarget_offsets [offset_simps]:
  "destination_target_cycle j (clear_destination_target k r now db) = (if j = k then None else destination_target_cycle j db)"
  "destination_last_verified j (clear_destination_target k r now db) = destination_last_verified j db"
  by (auto simp: clear_destination_target_def target_lookup destination_last_verified_def
      lookup_update_offset split: option.split)

lemma base_offsets [offset_simps]:
  "destination_target_cycle j (set_destination_verified_snapshot k n now db) = destination_target_cycle j db"
  "destination_last_verified j (set_destination_verified_snapshot k n now db) = destination_last_verified j db"
  "destination_target_cycle j (set_destination_verified_dst_snapshot k n now db) = destination_target_cycle j db"
  "destination_last_verified j (set_destination_verified_dst_snapshot k n now db) = destination_last_verified j db"
  by (auto simp: set_destination_verified_snapshot_def set_destination_verified_dst_snapshot_def
      target_lookup destination_last_verified_def lookup_update_offset split: option.split)

lemma same_offsets:
  "offsets db' = offsets db \<Longrightarrow> destination_target_cycle j db' = destination_target_cycle j db \<and>
     destination_last_verified j db' = destination_last_verified j db"
  by (simp add: target_lookup destination_last_verified_def)

lemma same_log_offsets:
  "same_log db db' \<Longrightarrow> destination_target_cycle j db' = destination_target_cycle j db \<and>
     destination_last_verified j db' = destination_last_verified j db"
  by (rule same_offsets) (simp add: same_log_def)

lemma other_offsets [offset_simps]:
  "destination_target_cycle j (snd (record_event now e db)) = destination_target_cycle j db"
  "destination_last_verified j (snd (record_event now e db)) = destination_last_verified j db"
  "destination_target_cycle j (mark_cycle_status i st db) = destination_target_cycle j db"
  "destination_last_verified j (mark_cycle_status i st db) = destination_last_verified j db"
  "destination_target_cycle j (clear_cycle_needs_rescan i db) = destination_target_cycle j db"
  "destination_last_verified j (clear_cycle_needs_rescan i db) = destination_last_verified j db"
  "destination_target_cycle j (clear_destination_issues k db) = destination_target_cycle j db"
  "destination_last_verified j (clear_destination_issues k db) = destination_last_verified j db"
  by (rule conjunct1 [OF same_offsets] conjunct2 [OF same_offsets], simp)+

section \<open>The steps of a pass\<close>

inductive pass_step :: "string \<Rightarrow> nat \<Rightarrow> (string \<Rightarrow> bool) \<Rightarrow> db \<Rightarrow> db \<Rightarrow> bool" for s c earned where
  noted: "pass_step s c earned db (upsert_destination_status (s, d) None st r now db)"
| verified: "earned d \<Longrightarrow> destination_target_cycle (s, d) db \<in> {None, Some c} \<Longrightarrow>
    pass_step s c earned db (upsert_destination_status (s, d) (Some c) st r now db)"
| reverified: "verified_ge (destination_last_verified (s, d) db) c \<Longrightarrow>
    destination_target_cycle (s, d) db = Some c \<Longrightarrow>
    pass_step s c earned db (upsert_destination_status (s, d) (Some c) st r now db)"
| untarget: "pass_step s c earned db (clear_destination_target (s, d) r now db)"
| event: "pass_step s c earned db (snd (record_event now e db))"
| status: "st \<noteq> ''open'' \<Longrightarrow> pass_step s c earned db (mark_cycle_status c st db)"
| clear_rescan: "pass_step s c earned db (clear_cycle_needs_rescan c db)"
| base: "pass_step s c earned db (set_destination_verified_snapshot (s, d) n now db)"
| dst_base: "pass_step s c earned db (set_destination_verified_dst_snapshot (s, d) n now db)"
| view: "same_log db db' \<Longrightarrow> pass_step s c earned db db'"

abbreviation pass_steps :: "string \<Rightarrow> nat \<Rightarrow> (string \<Rightarrow> bool) \<Rightarrow> db \<Rightarrow> db \<Rightarrow> bool" where
  "pass_steps s c earned \<equiv> (pass_step s c earned)\<^sup>*\<^sup>*"

lemma pass_step_target:
  "pass_step s c earned db db' \<Longrightarrow> destination_target_cycle k db' \<in> {destination_target_cycle k db, None}"
proof (induction rule: pass_step.induct)
  case (view db db')
  from same_log_offsets [OF this, of k] show ?case by simp
qed (auto simp: offset_simps)

lemma pass_step_verified:
  "pass_step s c earned db db' \<Longrightarrow> destination_last_verified k db' = destination_last_verified k db \<or>
     (fst k = s \<and> destination_last_verified k db' = Some c \<and>
      (earned (snd k) \<or> verified_ge (destination_last_verified k db) c) \<and>
      destination_target_cycle k db \<in> {None, Some c})"
proof (induction rule: pass_step.induct)
  case (view db db')
  from same_log_offsets [OF this, of k] show ?case by simp
qed (auto simp: offset_simps)

lemma pass_steps_target:
  "pass_steps s c earned db db' \<Longrightarrow> destination_target_cycle k db' \<in> {destination_target_cycle k db, None}"
proof (induction rule: rtranclp_induct)
  case (step db1 db2)
  from pass_step_target [OF step(2), of k] step(3) show ?case by auto
qed simp

lemma verified_ge_same [simp]: "verified_ge (Some c) c"
  by (simp add: verified_ge_def)

lemma pass_steps_verified:
  assumes "pass_steps s c earned db db'"
  shows "destination_last_verified k db' = destination_last_verified k db \<or>
     (fst k = s \<and> destination_last_verified k db' = Some c \<and>
      (earned (snd k) \<or> verified_ge (destination_last_verified k db) c))"
  using assms
proof (induction rule: rtranclp_induct)
  case (step db1 db2)
  from pass_step_verified [OF step(2), of k] step(3) show ?case by fastforce
qed simp

subsection \<open>They are steps of the store\<close>

lemma settled_iff: "settled (s, d) (Some c) db \<longleftrightarrow> (\<exists>x\<in>set (cycles db). cyc_id x = c \<and> cyc_source x = s \<and> \<not> is_open x)"
  by (simp add: settled_def list_ex_iff)

lemma settled_mono: "settled (s, d) (Some c) db \<Longrightarrow> set (cycles db) \<subseteq> set (cycles db') \<Longrightarrow> settled (s, d) (Some c) db'"
  by (auto simp: settled_iff)

lemma settled_cycles:
  assumes "settled (s, d) (Some c) db" and "cycles db' = cycles db"
  shows "settled (s, d) (Some c) db'"
  using assms by (simp only: settled_iff)

lemma settled_update:
  assumes "settled (s, d) (Some c) db"
    and f: "\<And>x. cyc_id (f x) = cyc_id x \<and> cyc_source (f x) = cyc_source x \<and> (is_open (f x) \<longrightarrow> is_open x)"
  shows "settled (s, d) (Some c) (update_cycles P f db)"
proof -
  obtain x where x: "x \<in> set (cycles db)" "cyc_id x = c" "cyc_source x = s" "\<not> is_open x"
    using assms(1) by (auto simp: settled_iff)
  let ?y = "if P x then f x else x"
  have "?y \<in> set (cycles (update_cycles P f db))" using x(1) by (auto simp: update_cycles_def)
  moreover have "cyc_id ?y = c \<and> cyc_source ?y = s \<and> \<not> is_open ?y" using x f [of x] by auto
  ultimately show ?thesis unfolding settled_iff by blast
qed

lemma cycles_offset_ops [simp]:
  "cycles (upsert_destination_status k v st r now db) = cycles db"
  "cycles (clear_destination_target k r now db) = cycles db"
  "cycles (set_destination_verified_snapshot k n now db) = cycles db"
  "cycles (set_destination_verified_dst_snapshot k n now db) = cycles db"
  by (simp_all add: upsert_destination_status_def clear_destination_target_def mark_local_change_def
      upsert_offset_def update_offset_def set_destination_verified_snapshot_def
      set_destination_verified_dst_snapshot_def Let_def split: option.split)

lemma settled_event:
  assumes "settled (s, d) (Some c) db"
  shows "settled (s, d) (Some c) (snd (record_event now e db))"
proof -
  have en: "settled (s, d) (Some c) (snd (ensure_open_cycle s' now db))" if "settled (s, d) (Some c) db" for s' db
    using that by (auto simp: ensure_open_cycle_def settled_iff Let_def split: option.split)
  have mk: "settled (s, d) (Some c) (mark_open_cycle_needs_rescan s' now db)" if "settled (s, d) (Some c) db" for s' db
    using en [OF that, of s']
    by (cases "ensure_open_cycle s' now db")
      (auto simp: mark_open_cycle_needs_rescan_def mark_cycle_needs_rescan_def is_open_def
        intro: settled_update split: option.split)
  obtain i db1 where o: "ensure_open_cycle (we_source e) now db = (i, db1)" by fastforce
  let ?db2 = "\<lambda>i. touch_source_meta (we_source e) now (insert_event i now e db1)"
  have "settled (s, d) (Some c) db1" using en [OF assms, of "we_source e"] o by simp
  moreover have "cycles (?db2 i) = cycles db1" for i
    by (simp add: touch_source_meta_def insert_event_def Let_def)
  ultimately have "settled (s, d) (Some c) (?db2 i)" for i by (rule settled_cycles)
  moreover have "settled (s, d) (Some c) (db\<lparr>scheduler_notified := b\<rparr>) = settled (s, d) (Some c) db" for b db
    by (simp add: settled_iff)
  ultimately show ?thesis
    using \<open>settled (s, d) (Some c) db1\<close> mk by (simp add: record_event_def o Let_def split: option.split)
qed

lemma settled_any: "settled (s, d) (Some c) db = settled (s, d') (Some c) db"
  by (simp only: settled_iff)

lemma pass_step_settled:
  assumes "pass_step s c earned db db'" and "settled (s', d) (Some i) db"
  shows "settled (s', d) (Some i) db'"
  using assms
proof (induction rule: pass_step.induct)
  case (status st db)
  then show ?case unfolding mark_cycle_status_def by (intro settled_update) (simp_all add: is_open_def)
next
  case (clear_rescan db)
  then show ?case unfolding clear_cycle_needs_rescan_def by (intro settled_update) (simp_all add: is_open_def)
next
  case (view db db')
  then show ?case by (intro settled_cycles [OF view(2)]) (simp add: same_log_def)
next
  case (event db now e)
  then show ?case by (rule settled_event)
qed (simp_all only: settled_iff cycles_offset_ops)

lemma pass_step_log:
  assumes "pass_step s c earned db db'" and "settled (s, d0) (Some c) db"
  shows "log_step cal db db'"
  using assms
proof (induction rule: pass_step.induct)
  case (noted d st r now db)
  show ?case by (rule log_step.outcome) (simp add: settled_def)
next
  case (verified d db st r now)
  show ?case by (rule log_step.outcome) (use verified settled_any in blast)
next
  case (reverified d db st r now)
  show ?case by (rule log_step.outcome) (use reverified settled_any in blast)
qed (auto intro: log_step.intros)

lemma pass_steps_settled:
  "pass_steps s c earned db db' \<Longrightarrow> settled (s', d) (Some i) db \<Longrightarrow> settled (s', d) (Some i) db'"
  by (induction rule: rtranclp_induct) (simp_all add: pass_step_settled)

lemma pass_steps_reachable:
  assumes "pass_steps s c earned db db'" and "store_reachable cal db" and "settled (s, d) (Some c) db"
  shows "store_reachable cal db'"
  using assms
proof (induction rule: rtranclp_induct)
  case (step db1 db2)
  then show ?case using pass_steps_settled [OF step(1)] pass_step_log [OF step(2)] store_reachable.step by blast
qed simp

section \<open>Chains of steps\<close>

named_theorems pass_intros "how a chain of pass steps is extended by an operation"

lemma chain: "pass_steps s c earned db0 db \<Longrightarrow> pass_step s c earned db db' \<Longrightarrow> pass_steps s c earned db0 db'"
  by (rule rtranclp.rtrancl_into_rtrancl)

lemmas chain_noted [pass_intros] = chain [OF _ pass_step.noted]
lemmas chain_untarget [pass_intros] = chain [OF _ pass_step.untarget]
lemmas chain_event [pass_intros] = chain [OF _ pass_step.event]
lemmas chain_status [pass_intros] = chain [OF _ pass_step.status]
lemmas chain_clear_rescan [pass_intros] = chain [OF _ pass_step.clear_rescan]
lemmas chain_base [pass_intros] = chain [OF _ pass_step.base]
lemmas chain_dst_base [pass_intros] = chain [OF _ pass_step.dst_base]

lemma chain_views [pass_intros]:
  "pass_steps s c earned db0 db \<Longrightarrow> pass_steps s c earned db0 (clear_destination_issues k db)"
  "pass_steps s c earned db0 db \<Longrightarrow> pass_steps s c earned db0 (replace_destination_issues k i kind ps m now db)"
  "pass_steps s c earned db0 db \<Longrightarrow> pass_steps s c earned db0 (snd (task_start kind src d now db))"
  "pass_steps s c earned db0 db \<Longrightarrow> pass_steps s c earned db0 (task_finish n st e f g h now db)"
  "pass_steps s c earned db0 db \<Longrightarrow> pass_steps s c earned db0 (task_discard n db)"
  "pass_steps s c earned db0 db \<Longrightarrow> pass_steps s c earned db0 (snd (clear_restart_notice_if_covered src now db))"
  by (erule chain [OF _ pass_step.view],
      simp add: same_log_def clear_destination_issues_def replace_destination_issues_def task_start_def
        task_finish_def update_tasks_def task_discard_def clear_restart_notice_if_covered_def Let_def
        split: option.split)+

lemma chain_record_paths [pass_intros]:
  "pass_steps s c earned db0 db \<Longrightarrow> pass_steps s c earned db0 (snd (record_paths now src kind ps db))"
proof (induction ps arbitrary: db)
  case (Cons p ps)
  obtain i db1 where r: "record_event now (path_event src kind p) db = (i, db1)" by fastforce
  have "pass_steps s c earned db0 db1" using chain_event [OF Cons.prems, of now "path_event src kind p"] r by simp
  with Cons.IH r show ?case by (cases i) simp_all
qed simp

text \<open>A target that is this cycle, or was withdrawn, stays so.\<close>

abbreviation held :: "string \<Rightarrow> nat \<Rightarrow> string \<Rightarrow> db \<Rightarrow> bool" where
  "held s c d db \<equiv> destination_target_cycle (s, d) db \<in> {None, Some c}"

lemma held_steps: "pass_steps s c earned db db' \<Longrightarrow> held s c d db \<Longrightarrow> held s c d db'"
  using pass_steps_target [of s c earned db db' "(s, d)"] by auto

lemma chain_mark_verified [pass_intros]:
  assumes "pass_steps s c earned db0 db" and "earned d" and "held s c d db"
  shows "pass_steps s c earned db0 (mark_verified (s, d) c now db)"
  unfolding mark_verified_def
  by (rule chain [OF chain_views(1) [OF assms(1)] pass_step.verified])
    (use assms(2,3) in \<open>simp_all add: offset_simps\<close>)

section \<open>What a destination has to do to be verified\<close>

text \<open>A run that succeeded, or that failed only because the source changed under it.\<close>

definition outcome_counts :: "err_chain + 'a \<Rightarrow> bool" where
  "outcome_counts r \<longleftrightarrow> (case r of Inr _ \<Rightarrow> True
     | Inl e \<Rightarrow> \<not> error_is_cancelled e \<and> source_changed_paths e \<noteq> [])"

definition run_counts :: "'z pass_env \<Rightarrow> DestinationConfig \<Rightarrow> bool" where
  "run_counts env d \<longleftrightarrow> (\<exists>ps dst_only. outcome_counts (sync_paths env d ps dst_only)) \<or>
     outcome_counts (sync_tree env d) \<or> outcome_counts (sync_snapshot env d)"

definition earned_in :: "'z pass_env \<Rightarrow> SourceGroupConfig \<Rightarrow> string \<Rightarrow> bool" where
  "earned_in env src i \<longleftrightarrow> (\<exists>d\<in>set (destinations src). dst_id d = i \<and> dst_enabled d \<and> \<not> paused d \<and> run_counts env d)"

definition runnable :: "SourceGroupConfig \<Rightarrow> indexed_dst \<Rightarrow> bool" where
  "runnable src x \<longleftrightarrow> snd x \<in> set (destinations src) \<and> dst_enabled (snd x) \<and> \<not> paused (snd x)"

lemma earned_inI: "runnable src x \<Longrightarrow> run_counts env (snd x) \<Longrightarrow> earned_in env src (dst_id (snd x))"
  by (auto simp: earned_in_def runnable_def)

lemma counts_simps [simp]:
  "outcome_counts (Inr a)"
  "outcome_counts (Inl e) \<longleftrightarrow> \<not> error_is_cancelled e \<and> source_changed_paths e \<noteq> []"
  by (simp_all add: outcome_counts_def)

lemma run_countsI:
  "sync_paths env d ps dst_only = Inr u \<Longrightarrow> run_counts env d"
  "sync_tree env d = Inr paths \<Longrightarrow> run_counts env d"
  "sync_snapshot env d = Inr u \<Longrightarrow> run_counts env d"
  unfolding run_counts_def by (metis counts_simps(1))+

lemma failure_steps:
  assumes "pass_steps s c earned db0 db" and "held s c d db" and "outcome_counts (Inl e :: err_chain + unit) \<Longrightarrow> earned d"
  shows "pass_steps s c earned db0 (snd (record_destination_failure (s, d) c e now db))"
proof (cases "error_is_cancelled e \<or> source_changed_paths e = []")
  case True
  then show ?thesis
    using assms(1) by (auto simp: record_destination_failure_def Let_def intro!: pass_intros)
next
  case False
  obtain r db1 where r: "record_paths now s ''source_changing_deferred'' (source_changed_paths e) db = (r, db1)" by fastforce
  have c: "pass_steps s c earned db0 db1"
    using chain_record_paths [OF assms(1), of now s "''source_changing_deferred''" "source_changed_paths e"] r by simp
  have "pass_steps s c earned db db1"
    using chain_record_paths [OF rtranclp.rtrancl_refl, of s c earned db now s "''source_changing_deferred''"
        "source_changed_paths e"] r by simp
  from held_steps [OF this assms(2)] have h: "held s c d db1" .
  let ?m = "''source file changed while copying; deferred to the next cycle''"
  have "pass_steps s c earned db0 (upsert_destination_status (s, d) (Some c) ''yellow'' ''source_changing'' now
      (replace_destination_issues (s, d) c ''source_changing'' (source_changed_paths e) ?m now db1))"
  proof (rule chain [OF chain_views(2) [OF c] pass_step.verified])
    show "earned d" using False assms(3) by simp
    have "offsets (replace_destination_issues (s, d) c ''source_changing'' (source_changed_paths e) ?m now db1) = offsets db1"
      by simp
    from same_offsets [OF this] h
    show "held s c d (replace_destination_issues (s, d) c ''source_changing'' (source_changed_paths e) ?m now db1)" by simp
  qed
  with False c show ?thesis
    by (simp add: record_destination_failure_def Let_def r split: sum.split)
qed

lemma fail_steps:
  assumes "pass_steps s c earned db0 (fst st)" and "held s c d (fst st)" and "outcome_counts (Inl e :: err_chain + unit) \<Longrightarrow> earned d"
  shows "pass_steps s c earned db0 (fst (snd (fail_destination now (s, d) c e t st)))"
proof -
  obtain db w where st: "st = (db, w)" by fastforce
  obtain r db1 where r: "record_destination_failure (s, d) c e now db = (r, db1)" by fastforce
  have "pass_steps s c earned db0 (snd (record_destination_failure (s, d) c e now db))"
    by (rule failure_steps [OF assms [unfolded st fst_conv]])
  then show ?thesis by (simp add: fail_destination_def st r split: sum.split)
qed

lemma baseline_steps [pass_intros]:
  "pass_steps (src_id src) c earned db0 (snd st) \<Longrightarrow>
     pass_steps (src_id src) c earned db0 (snd (record_destination_verified_baselines z h now src d name action i st))"
  by (cases st; cases action)
    (auto simp: record_destination_verified_baselines_def Let_def intro!: pass_intros split: sum.split option.split prod.split)

lemma run_ready_steps:
  fixes db_of :: "'s \<Rightarrow> db"
  assumes "run_ready step xs t s = (r, s')" and "pass_steps sid c earned db0 (db_of s)"
    and "\<And>x t s. x \<in> set xs \<Longrightarrow> pass_steps sid c earned db0 (db_of s) \<Longrightarrow>
      pass_steps sid c earned db0 (db_of (snd (step x t s)))"
  shows "pass_steps sid c earned db0 (db_of s')"
  using assms
proof (induction xs arbitrary: t s)
  case (Cons x xs)
  obtain r1 s1 where s1: "step x t s = (r1, s1)" by fastforce
  have "pass_steps sid c earned db0 (db_of s1)" using Cons.prems(3) [of x s t] Cons.prems(2) s1 by simp
  with Cons s1 show ?case by (cases r1) auto
qed simp

section \<open>Every destination step\<close>

text \<open>The situation of a destination that the loops drive.\<close>

definition driven :: "SourceGroupConfig \<Rightarrow> nat \<Rightarrow> db \<Rightarrow> indexed_dst \<Rightarrow> bool" where
  "driven src c db x \<longleftrightarrow> runnable src x \<and> held (src_id src) c (dst_id (snd x)) db"

lemma driven_held:
  "driven src c db0 x \<Longrightarrow> pass_steps (src_id src) c earned db0 db \<Longrightarrow> held (src_id src) c (dst_id (snd x)) db"
  unfolding driven_def using held_steps by blast

lemma verified_pass_steps:
  assumes "pass_steps (src_id src) (cyc_id cyc) (earned_in env src) db0 (fst st)"
    and "driven src (cyc_id cyc) db0 x" and "run_counts env (snd x)"
  shows "pass_steps (src_id src) (cyc_id cyc) (earned_in env src) db0
    (fst (snd (verified_pass env src cyc (snd x) name action t st)))"
proof -
  obtain db w where st: "st = (db, w)" by fastforce
  have "pass_steps (src_id src) (cyc_id cyc) (earned_in env src) db0
      (mark_verified (src_id src, dst_id (snd x)) (cyc_id cyc) (env_now env) db)"
    by (rule chain_mark_verified [OF assms(1) [unfolded st fst_conv] earned_inI driven_held [OF assms(2)]])
      (use assms st in \<open>auto simp: driven_def\<close>)
  then have "pass_steps (src_id src) (cyc_id cyc) (earned_in env src) db0
      (snd (record_destination_verified_baselines (zfs env) (zhost env) (env_now env) src (dst_id (snd x)) name action
        (cyc_id cyc) (w, mark_verified (src_id src, dst_id (snd x)) (cyc_id cyc) (env_now env) db)))"
    by (intro baseline_steps) simp
  then show ?thesis by (simp add: verified_pass_def st case_prod_beta Let_def)
qed

lemma failed_run_steps:
  assumes "pass_steps (src_id src) c (earned_in env src) db0 (fst st)" and "driven src c db0 x"
    and "outcome_counts (Inl e :: err_chain + unit) \<Longrightarrow> run_counts env (snd x)"
  shows "pass_steps (src_id src) c (earned_in env src) db0
    (fst (snd (fail_destination now (src_id src, dst_id (snd x)) c e t st)))"
  by (rule fail_steps [OF assms(1) driven_held [OF assms(2,1)]])
    (use assms(2,3) in \<open>auto simp: driven_def intro: earned_inI\<close>)

lemma apply_steps:
  assumes "pass_steps (src_id src) (cyc_id cyc) (earned_in env src) db0 (fst st)" and "driven src (cyc_id cyc) db0 x"
  shows "pass_steps (src_id src) (cyc_id cyc) (earned_in env src) db0 (fst (snd (apply_event_paths env src cyc plans x t st)))"
proof -
  obtain i d where x: "x = (i, d)" by fastforce
  obtain db w where st: "st = (db, w)" by fastforce
  let ?rels = "case map_of plans i of Some r \<Rightarrow> r | None \<Rightarrow> []"
  show ?thesis
  proof (cases "sync_paths env d (diff_paths_all_recursive ?rels) []")
    case (Inr u)
    then have "run_counts env (snd x)" unfolding run_counts_def x by (metis counts_simps(1) snd_conv)
    moreover have "runnable src x" using assms(2) by (simp add: driven_def)
    ultimately have "pass_steps (src_id src) (cyc_id cyc) (earned_in env src) db0
        (mark_verified (src_id src, dst_id (snd x)) (cyc_id cyc) (env_now env) db)"
      using assms(1) driven_held [OF assms(2,1)] st by (intro chain_mark_verified earned_inI) simp_all
    then show ?thesis by (simp add: apply_event_paths_def x st Inr Let_def)
  next
    case (Inl e)
    have "run_counts env (snd x)" if "outcome_counts (Inl e :: err_chain + unit)"
      using that Inl unfolding run_counts_def x by (metis snd_conv)
    then have "pass_steps (src_id src) (cyc_id cyc) (earned_in env src) db0
        (fst (snd (fail_destination (env_now env) (src_id src, dst_id (snd x)) (cyc_id cyc) e t st)))"
      by (intro failed_run_steps [OF assms])
    then show ?thesis by (simp add: apply_event_paths_def x st Inl Let_def)
  qed
qed

lemma zfs_attempts:
  "zfs_incremental env cfg src cyc view action d t st = Some r \<Longrightarrow>
     \<exists>name t'. run_counts env d \<and> r = verified_pass env src cyc d name action t' st"
  "zfs_full env cfg src cyc view d t st = Some r \<Longrightarrow>
     \<exists>name a t'. run_counts env d \<and> r = verified_pass env src cyc d name a t' st"
  unfolding zfs_incremental_def zfs_full_def
  by (cases st, simp split: if_splits option.splits sum.splits prod.splits, blast intro: run_countsI)+

lemma zfs_attempt_steps:
  assumes "zfs_incremental env cfg src cyc view action (snd x) t st = Some r \<or>
      zfs_full env cfg src cyc view (snd x) t st = Some r"
    and "pass_steps (src_id src) (cyc_id cyc) (earned_in env src) db0 (fst st)" and "driven src (cyc_id cyc) db0 x"
  shows "pass_steps (src_id src) (cyc_id cyc) (earned_in env src) db0 (fst (snd r))"
proof -
  obtain name a t' where v: "run_counts env (snd x)" "r = verified_pass env src cyc (snd x) name a t' st"
    using assms(1) zfs_attempts(1) [of env cfg src cyc view action "snd x" t st r]
      zfs_attempts(2) [of env cfg src cyc view "snd x" t st r] by blast
  show ?thesis unfolding v(2) by (rule verified_pass_steps [OF assms(2,3) v(1)])
qed

lemma reconcile_dir_steps:
  assumes "pass_steps (src_id src) (cyc_id cyc) (earned_in env src) db0 (fst st)" and "driven src (cyc_id cyc) db0 x"
  shows "pass_steps (src_id src) (cyc_id cyc) (earned_in env src) db0 (fst (snd (reconcile_dir env cfg src cyc view x t st)))"
proof (cases "zfs_incremental env cfg src cyc view Retain (snd x) t st")
  case (Some r)
  then show ?thesis using zfs_attempt_steps [OF disjI1 assms] by (simp add: reconcile_dir_def)
next
  case inc: None
  show ?thesis
  proof (cases "zfs_full env cfg src cyc view (snd x) t st")
    case (Some r)
    then show ?thesis using zfs_attempt_steps [OF disjI2 assms] inc by (simp add: reconcile_dir_def)
  next
    case None
    have "outcome_counts (sync_tree env (snd x)) \<Longrightarrow> run_counts env (snd x)" by (simp add: run_counts_def)
    then show ?thesis
      using inc None verified_pass_steps [OF assms] failed_run_steps [OF assms]
      by (cases "sync_tree env (snd x)") (simp_all add: reconcile_dir_def run_countsI Let_def)
  qed
qed

lemma reconcile_file_steps:
  assumes "pass_steps (src_id src) (cyc_id cyc) (earned_in env src) db0 (fst st)" and "driven src (cyc_id cyc) db0 x"
  shows "pass_steps (src_id src) (cyc_id cyc) (earned_in env src) db0 (fst (snd (reconcile_file env src cyc view x t st)))"
proof -
  have "outcome_counts (sync_snapshot env (snd x)) \<Longrightarrow> run_counts env (snd x)" by (simp add: run_counts_def)
  then show ?thesis
    using verified_pass_steps [OF assms] failed_run_steps [OF assms] assms(1)
    by (cases "read_source env"; cases "sync_snapshot env (snd x)") (simp_all add: reconcile_file_def run_countsI)
qed

lemma unknown_steps:
  "pass_steps (src_id src) c earned db0 db \<Longrightarrow>
     pass_steps (src_id src) c earned db0 (snd (unknown_destination now (src_id src, d) t db))"
  by (simp add: unknown_destination_def pass_intros)

lemma transfer_event_steps:
  assumes "pass_steps (src_id src) (cyc_id cyc) (earned_in env src) db0 (fst st)" and "driven src (cyc_id cyc) db0 x"
  shows "pass_steps (src_id src) (cyc_id cyc) (earned_in env src) db0
    (fst (snd (transfer_event_paths env cfg src cyc plans x t st)))"
  using apply_steps [OF assms, of plans t] unknown_steps [OF assms(1)]
  by (cases st) (simp add: transfer_event_paths_def case_prod_beta Let_def split: option.split)

lemma transfer_destination_steps:
  assumes "pass_steps (src_id src) (cyc_id cyc) (earned_in env src) db0 (fst (snd st))" and "driven src (cyc_id cyc) db0 x"
  shows "pass_steps (src_id src) (cyc_id cyc) (earned_in env src) db0
    (fst (snd (snd (transfer_destination env cfg src cyc view x t st))))"
proof -
  obtain cached db w where st: "st = (cached, db, w)" by (cases st)
  have s: "pass_steps (src_id src) (cyc_id cyc) (earned_in env src) db0 (fst (db, w))" using assms(1) st by simp
  have c: "outcome_counts (sync_snapshot env (snd x)) \<Longrightarrow> run_counts env (snd x)" by (simp add: run_counts_def)
  show ?thesis
  proof (cases "destination_machine env cfg (snd x)")
    case None
    then show ?thesis using unknown_steps [of src _ _ db0 db] s
      by (simp add: transfer_destination_def st case_prod_beta Let_def)
  next
    case m: (Some m)
    let ?a = "if machine_id_or_local (dst_machine (snd x)) = ''local'' then Retain else Clear"
    show ?thesis
    proof (cases "zfs_incremental env cfg src cyc view ?a (snd x) t (db, w)")
      case (Some r)
      then show ?thesis using zfs_attempt_steps [OF disjI1 [OF Some] s assms(2)] m
        by (cases r) (simp add: transfer_destination_def st Let_def)
    next
      case None
      then show ?thesis
        using m s c verified_pass_steps [OF s assms(2)] failed_run_steps [OF s assms(2)]
        by (cases "sync_snapshot env (snd x)")
          (auto simp: transfer_destination_def st Let_def run_countsI case_prod_beta split: sum.split)
    qed
  qed
qed

section \<open>Collecting\<close>

lemma hold_steps:
  "pass_steps s c earned db0 db \<Longrightarrow> pass_steps s c earned db0 (snd (snd (hold (s, d) r now (t, ready, db))))"
  by (simp add: hold_def pass_intros)

lemma hold_ready [simp]: "fst (snd (hold k r now col)) = fst (snd col)"
  by (cases col) (simp add: hold_def)

lemma enabled_destinations_in: "x \<in> set (enabled_destinations src) \<Longrightarrow> snd x \<in> set (destinations src) \<and> dst_enabled (snd x)"
  by (auto simp: enabled_destinations_def in_set_enumerate_eq)

text \<open>What collecting establishes: the database moves by steps of the pass, and every destination it
  calls ready may be driven and was still behind.\<close>

definition collected_ok :: "SourceGroupConfig \<Rightarrow> nat \<Rightarrow> (string \<Rightarrow> bool) \<Rightarrow> db \<Rightarrow> collected \<Rightarrow> bool" where
  "collected_ok src c earned db0 col \<longleftrightarrow> pass_steps (src_id src) c earned db0 (snd (snd col)) \<and>
     progressed (fst col) = False \<and>
     (\<forall>x\<in>set (fst (snd col)). runnable src x \<and> x \<in> set (enabled_destinations src) \<and>
        destination_target_cycle (src_id src, dst_id (snd x)) db0 = Some c \<and>
        \<not> verified_ge (destination_last_verified (src_id src, dst_id (snd x)) db0) c)"

lemma same_target_back:
  assumes "pass_steps s c earned db0 db" and "destination_target_cycle (s, d) db = Some c"
    and "\<not> verified_ge (destination_last_verified (s, d) db) c"
  shows "destination_target_cycle (s, d) db0 = Some c \<and> \<not> verified_ge (destination_last_verified (s, d) db0) c"
proof -
  have "destination_last_verified (s, d) db \<noteq> Some c" using assms(3) by auto
  then have "destination_last_verified (s, d) db = destination_last_verified (s, d) db0"
    using pass_steps_verified [OF assms(1), of "(s, d)"] by blast
  with pass_steps_target [OF assms(1), of "(s, d)"] assms(2,3) show ?thesis by auto
qed

lemma consider_ok:
  assumes "collected_ok src (cyc_id cyc) earned db0 col" and "x \<in> set (enabled_destinations src)"
    and "\<And>t ready db. pass_steps (src_id src) (cyc_id cyc) earned db0 db \<Longrightarrow>
      pass_steps (src_id src) (cyc_id cyc) earned db0 (snd (snd (proceed (t, ready, db)))) \<and>
      progressed (fst (proceed (t, ready, db))) = progressed t \<and>
      fst (snd (proceed (t, ready, db))) \<in> {ready, ready @ [x]}"
  shows "collected_ok src (cyc_id cyc) earned db0 (consider_destination env src cyc x proceed col)"
proof -
  obtain t ready db where col: "col = (t, ready, db)" by (cases col)
  let ?k = "(src_id src, dst_id (snd x))"
  have p: "pass_steps (src_id src) (cyc_id cyc) earned db0 db" using assms(1) by (simp add: collected_ok_def col)
  have h: "collected_ok src (cyc_id cyc) earned db0 (hold ?k r (env_now env) (t\<lparr>targeted_count := n\<rparr>, ready, db))" for r n
    using assms(1) hold_steps [OF p] by (simp add: collected_ok_def col hold_def blocked_def)
  show ?thesis
  proof (cases "destination_target_cycle ?k db = Some (cyc_id cyc)")
    case False
    then show ?thesis using assms(1) by (simp add: consider_destination_def col Let_def)
  next
    case tgt: True
    show ?thesis
    proof (cases "verified_ge (destination_last_verified ?k db) (cyc_id cyc)")
      case True
      have "pass_steps (src_id src) (cyc_id cyc) earned db0
          (upsert_destination_status ?k (Some (cyc_id cyc)) ''green'' ''verified'' (env_now env) db)"
        by (rule chain [OF p pass_step.reverified [OF True tgt]])
      with assms(1) True tgt show ?thesis by (simp add: consider_destination_def col Let_def collected_ok_def)
    next
      case False
      note behind = same_target_back [OF p tgt False]
      show ?thesis
      proof (cases "paused (snd x) \<or> kind_target_active KIND_COMPARE (target_for (src_id src) (dst_id (snd x))) (env_ops env)")
        case True
        then show ?thesis using False tgt h by (auto simp: consider_destination_def col Let_def)
      next
        case run: False
        have "runnable src x" using enabled_destinations_in [OF assms(2)] run by (simp add: runnable_def)
        with assms(1,2) behind assms(3) [OF p, of "t\<lparr>targeted_count := targeted_count t + 1\<rparr>" ready]
        have "collected_ok src (cyc_id cyc) earned db0 (proceed (t\<lparr>targeted_count := targeted_count t + 1\<rparr>, ready, db))"
          by (auto simp: collected_ok_def col)
        then show ?thesis using False tgt run by (simp add: consider_destination_def col Let_def)
      qed
    qed
  qed
qed

lemma collect_fold_ok:
  assumes "collected_ok src (cyc_id cyc) earned db0 col" and "set xs \<subseteq> set (enabled_destinations src)"
    and "\<And>x t ready db. pass_steps (src_id src) (cyc_id cyc) earned db0 db \<Longrightarrow>
      pass_steps (src_id src) (cyc_id cyc) earned db0 (snd (snd (f x (t, ready, db)))) \<and>
      progressed (fst (f x (t, ready, db))) = progressed t \<and>
      fst (snd (f x (t, ready, db))) \<in> {ready, ready @ [x]}"
  shows "collected_ok src (cyc_id cyc) earned db0 (fold (\<lambda>x. consider_destination env src cyc x (f x)) xs col)"
  using assms
proof (induction xs arbitrary: col)
  case (Cons x xs)
  have "collected_ok src (cyc_id cyc) earned db0 (consider_destination env src cyc x (f x) col)"
    using Cons.prems(2) by (intro consider_ok [OF Cons.prems(1) _ Cons.prems(3)]) simp_all
  from Cons.IH [OF this _ Cons.prems(3)] Cons.prems(2) show ?case by simp
qed simp

lemma tally_progressed [simp]:
  "progressed (blocked t) = progressed t" "progressed (failed_one t) = progressed t" "progressed tally_start = False"
  by (simp_all add: blocked_def failed_one_def tally_start_def)

lemma local_gate_steps:
  assumes "pass_steps (src_id src) c earned db0 db"
  shows "pass_steps (src_id src) c earned db0 (snd (snd (local_gate env cfg src cyc x (t, ready, db)))) \<and>
    progressed (fst (local_gate env cfg src cyc x (t, ready, db))) = progressed t \<and>
    fst (snd (local_gate env cfg src cyc x (t, ready, db))) \<in> {ready, ready @ [x]}"
  using hold_steps [OF assms] assms
  by (auto simp: local_gate_def Let_def hold_def intro: pass_intros split: option.split gate.split sum.split)

lemma collect_start: "collected_ok src c earned db (tally_start, [], db)"
  by (simp add: collected_ok_def)

lemma collect_ready_ok: "collected_ok src (cyc_id cyc) earned db (collect_ready env cfg src cyc db)"
  unfolding collect_ready_def by (rule collect_fold_ok [OF collect_start _ local_gate_steps]) simp_all

lemma collect_ready_transfer_ok: "collected_ok src (cyc_id cyc) earned db (collect_ready_transfer env src cyc db)"
  unfolding collect_ready_transfer_def by (rule collect_fold_ok [OF collect_start]) simp_all

lemma collected_driven:
  assumes "collected_ok src c earned db0 (t, ready, db)" and "x \<in> set ready"
  shows "driven src c db x"
  using assms held_steps [of "src_id src" c earned db0 db "dst_id (snd x)"]
  by (auto simp: collected_ok_def driven_def)

section \<open>Whole passes\<close>

lemma conclusion_not_open: "conclusion t \<noteq> ''open''"
  by (simp add: conclusion_def)

lemma conclude_steps:
  "pass_steps s c earned db0 (fst st) \<Longrightarrow> pass_steps s c earned db0 (fst (snd (conclude c t st)))"
  "pass_steps s c earned db0 (fst st) \<Longrightarrow> pass_steps s c earned db0 (fst (snd (conclude_view env src c view t st)))"
  using conclusion_not_open [of t]
  by (auto simp: conclude_view_def conclude_def case_prod_beta Let_def intro: chain_status)

lemma fold_steps:
  "pass_steps s c earned db0 db \<Longrightarrow> (\<And>x db. pass_steps s c earned db0 db \<Longrightarrow> pass_steps s c earned db0 (f x db)) \<Longrightarrow>
     pass_steps s c earned db0 (fold f xs db)"
  by (induction xs arbitrary: db) simp_all

lemma unusable_steps:
  "pass_steps s c earned db0 (fst st) \<Longrightarrow> pass_steps s c earned db0 (fst (snd (unusable_pass now s c reason ready st)))"
  by (cases st) (auto simp: unusable_pass_def intro!: chain_status fold_steps pass_intros)

lemma source_unavailable_steps:
  "pass_steps (src_id src) c earned db0 (fst st) \<Longrightarrow>
     pass_steps (src_id src) c earned db0 (fst (snd (source_unavailable env src c e st)))"
  by (cases st) (auto simp: source_unavailable_def intro!: chain_status fold_steps pass_intros)

lemma event_loss_steps:
  "pass_steps s c earned db0 db \<Longrightarrow> pass_steps s c earned db0 (mark_event_loss now s ready db)"
  by (auto simp: mark_event_loss_def intro!: fold_steps pass_intros)

lemma driven_later:
  "driven src c db0 x \<Longrightarrow> pass_steps (src_id src) c earned db0 db \<Longrightarrow> driven src c db x"
  using driven_held [of src c db0 x earned db] by (simp add: driven_def)

lemma reconcile_local_steps:
  assumes "pass_steps (src_id src) (cyc_id cyc) (earned_in env src) db0 (fst st)"
    and "\<And>x. x \<in> set ready \<Longrightarrow> driven src (cyc_id cyc) db0 x"
  shows "pass_steps (src_id src) (cyc_id cyc) (earned_in env src) db0
    (fst (snd (reconcile_local env cfg src cyc dir_source ready t st)))"
proof -
  let ?R = "pass_steps (src_id src) (cyc_id cyc) (earned_in env src) db0"
  obtain db w where st: "st = (db, w)" by fastforce
  define db1 where "db1 = (if is_event_loss cyc then mark_event_loss (env_now env) (src_id src) ready db else db)"
  have d1: "?R db1" using assms(1) event_loss_steps by (simp add: db1_def st)
  let ?db2 = "mark_cycle_status (cyc_id cyc) ''syncing'' (mark_cycle_status (cyc_id cyc) ''planning'' db1)"
  have d2: "?R ?db2" by (intro chain_status d1) simp_all
  obtain rv w1 where v: "SourceReadView_prepare (zfs env) (zhost env) src (cyc_id cyc) (Some (starts_at cyc div SECOND)) w
      = (rv, w1)" by fastforce
  show ?thesis
  proof (cases rv)
    case (Inl e)
    then show ?thesis using d1 by (simp add: reconcile_local_def st v db1_def [symmetric] Let_def)
  next
    case (Inr view)
    let ?step = "if dir_source then reconcile_dir env cfg src cyc view else reconcile_file env src cyc view"
    obtain r s1 where run: "run_ready ?step ready t (?db2, w1) = (r, s1)" by (rule prod.exhaust)
    have one: "?R (fst (snd (?step x t s)))" if "x \<in> set ready" "?R (fst s)" for x t s
      using reconcile_dir_steps [OF that(2)] reconcile_file_steps [OF that(2)] assms(2) [OF that(1)] by simp
    have "?R (fst s1)" by (rule run_ready_steps [OF run, of _ _ _ _ fst]) (use d2 one in simp_all)
    then show ?thesis
      using Inr run conclude_steps(2) [of _ _ _ _ s1]
      by (cases r) (simp_all add: reconcile_local_def st v db1_def [symmetric] Let_def split: if_splits)
  qed
qed

lemma reconcile_transfer_steps:
  assumes "pass_steps (src_id src) (cyc_id cyc) (earned_in env src) db0 (fst st)"
    and "\<And>x. x \<in> set ready \<Longrightarrow> driven src (cyc_id cyc) db0 x"
  shows "pass_steps (src_id src) (cyc_id cyc) (earned_in env src) db0
    (fst (snd (reconcile_transfer env cfg src cyc ready t st)))"
proof -
  let ?R = "pass_steps (src_id src) (cyc_id cyc) (earned_in env src) db0"
  obtain db w where st: "st = (db, w)" by fastforce
  define db1 where "db1 = mark_cycle_status (cyc_id cyc) ''planning''
      (if is_event_loss cyc then mark_event_loss (env_now env) (src_id src) ready db else db)"
  have d1: "?R db1" unfolding db1_def by (rule chain_status) (use assms(1) event_loss_steps st in simp_all)
  let ?db2 = "mark_cycle_status (cyc_id cyc) ''syncing'' db1"
  have d2: "?R ?db2" by (intro chain_status d1) simp_all
  obtain rv w1 where v: "(if machine_id_or_local (src_machine src) = ''local''
      then SourceReadView_prepare (zfs env) (zhost env) src (cyc_id cyc) (Some (starts_at cyc div SECOND)) w
      else (Inr None, w)) = (rv, w1)" by fastforce
  show ?thesis
  proof (cases rv)
    case (Inl e)
    then show ?thesis using d1 by (simp add: reconcile_transfer_def st v db1_def [symmetric] Let_def)
  next
    case (Inr view)
    obtain r c s1 where run: "run_ready (transfer_destination env cfg src cyc view) ready t (False, ?db2, w1) = (r, c, s1)"
      by (metis prod_cases3 prod.collapse)
    have one: "?R (fst (snd (snd (transfer_destination env cfg src cyc view x t s))))"
      if "x \<in> set ready" "?R (fst (snd s))" for x t s
      by (rule transfer_destination_steps [OF that(2) assms(2) [OF that(1)]])
    have "?R (fst (snd (c, s1)))"
      by (rule run_ready_steps [OF run, of _ _ _ _ "\<lambda>s. fst (snd s)"]) (use d2 one in simp_all)
    then show ?thesis
      using Inr run conclude_steps(2) [of _ _ _ _ s1]
      by (cases r) (simp_all add: reconcile_transfer_def st v db1_def [symmetric] Let_def)
  qed
qed

end
