(* ===== verification/Engine_Cycle.thy ===== *)
theory Engine_Cycle
  imports Prelude Config Store Store_Log Store_Views Zfs Engine Engine_Pass
begin

text \<open>
  Whole passes over a cycle and the loop over all pending cycles: every pass refines the store's
  transition system, a destination's verified cycle advances only when the pass earned it, and the
  loop ends.
\<close>

section \<open>Every pass is a sequence of steps\<close>

lemma planned_steps:
  assumes "pass_steps s c earned db0 db"
    and "\<And>plans x t st. x \<in> set ready \<Longrightarrow> pass_steps s c earned db0 (fst st) \<Longrightarrow>
      pass_steps s c earned db0 (fst (snd (step plans x t st)))"
    and "pass_steps s c earned db0 (fst (snd full))"
  shows "pass_steps s c earned db0 (fst (snd (case plan of
      Inl e \<Rightarrow> (Inl e, db, w)
    | Inr (Some (Unusable reason)) \<Rightarrow> unusable_pass now s c reason ready (db, w)
    | Inr (Some (ApplyPaths plans)) \<Rightarrow>
        (case run_ready (step plans) ready t (mark_cycle_status c ''syncing'' db, w) of
           (Inl e, st) \<Rightarrow> (Inl e, st) | (Inr t, st) \<Rightarrow> conclude c t st)
    | Inr None \<Rightarrow> full)))"
proof -
  have run: "pass_steps s c earned db0 (fst st)"
    if "run_ready (step plans) ready t (mark_cycle_status c ''syncing'' db, w) = (r, st)" for plans r st
    by (rule run_ready_steps [OF that, of _ _ _ _ fst]) (simp_all add: chain_status [OF assms(1)] assms(2))
  show ?thesis
  proof (cases plan)
    case (Inl e)
    then show ?thesis using assms(1) by simp
  next
    case (Inr p)
    show ?thesis
    proof (cases p)
      case None
      then show ?thesis using Inr assms(3) by simp
    next
      case (Some q)
      show ?thesis
      proof (cases q)
        case (Unusable reason)
        have "pass_steps s c earned db0 (fst (snd (unusable_pass now s c reason ready (db, w))))"
          by (rule unusable_steps) (simp add: assms(1))
        then show ?thesis using Inr Some Unusable by simp
      next
        case (ApplyPaths plans)
        obtain r st where r: "run_ready (step plans) ready t (mark_cycle_status c ''syncing'' db, w) = (r, st)"
          by (rule prod.exhaust)
        from conclude_steps(1) [OF run [OF r]] run [OF r] show ?thesis
          using Inr Some ApplyPaths r by (cases r) simp_all
      qed
    qed
  qed
qed

lemma sync_cycle_local_steps:
  "pass_steps (src_id src) (cyc_id cyc) (earned_in env src) (fst st) (fst (snd (sync_cycle_local env cfg src cyc st)))"
proof -
  obtain db w where st: "st = (db, w)" by fastforce
  obtain t ready db1 where col: "collect_ready env cfg src cyc db = (t, ready, db1)" by (metis prod_cases3)
  note ok = collect_ready_ok [of src cyc "earned_in env src" db env cfg, unfolded col]
  let ?R = "pass_steps (src_id src) (cyc_id cyc) (earned_in env src) db"
  have r1: "?R db1" using ok by (simp add: collected_ok_def)
  have drv: "driven src (cyc_id cyc) db x" if "x \<in> set ready" for x
    using ok that by (auto simp: collected_ok_def driven_def)
  have c: "?R (fst (snd (conclude (cyc_id cyc) t (db1, w))))"
    by (rule conclude_steps) (simp add: r1)
  have rec: "?R (fst (snd (reconcile_local env cfg src cyc b ready t (db1, w))))" for b
    by (rule reconcile_local_steps) (simp_all add: r1 drv)
  have ap: "?R (fst (snd (apply_event_paths env src cyc plans x t st)))" if "x \<in> set ready" "?R (fst st)" for plans x t st
    by (rule apply_steps [OF that(2) drv [OF that(1)]])
  note plan = planned_steps [where step = "apply_event_paths env src cyc", OF r1 ap rec]
  show ?thesis
  proof (cases "source_endpoint env")
    case (Inl e)
    then show ?thesis using source_unavailable_steps [of src _ _ db st] by (simp add: sync_cycle_local_def st Let_def)
  next
    case (Inr b)
    then show ?thesis using c plan by (simp add: sync_cycle_local_def st col Let_def)
  qed
qed

lemma transfer_file_destination_steps:
  assumes "pass_steps (src_id src) (cyc_id cyc) (earned_in env src) db0 (fst st)"
    and "x \<in> set (enabled_destinations src)"
  shows "pass_steps (src_id src) (cyc_id cyc) (earned_in env src) db0
    (fst (snd (transfer_file_destination env cfg src cyc x t st)))"
proof -
  obtain db w where st: "st = (db, w)" by fastforce
  have r: "pass_steps (src_id src) (cyc_id cyc) (earned_in env src) db0 db" using assms(1) st by simp
  let ?k = "(src_id src, dst_id (snd x))"
  show ?thesis
  proof (cases "destination_target_cycle ?k db = Some (cyc_id cyc) \<and> \<not> paused (snd x)")
    case False
    then show ?thesis using r
      by (auto simp: transfer_file_destination_def st Let_def intro!: pass_intros)
  next
    case True
    then have held: "held (src_id src) (cyc_id cyc) (dst_id (snd x)) db" by simp
    have e: "run_counts env (snd x) \<Longrightarrow> earned_in env src (dst_id (snd x))"
      using enabled_destinations_in [OF assms(2)] True by (auto simp: earned_in_def)
    show ?thesis
    proof (cases "destination_machine env cfg (snd x)")
      case None
      then show ?thesis using True unknown_steps [OF r]
        by (simp add: transfer_file_destination_def st Let_def case_prod_beta)
    next
      case m: (Some m)
      show ?thesis
      proof (cases "sync_snapshot env (snd x)")
        case (Inr u)
        have "earned_in env src (dst_id (snd x))" by (rule e) (rule run_countsI(3) [OF Inr])
        from chain_mark_verified [where earned = "earned_in env src", OF r this held] show ?thesis
          using True m Inr by (simp add: transfer_file_destination_def st Let_def)
      next
        case (Inl err)
        have "outcome_counts (Inl err :: err_chain + unit) \<Longrightarrow> earned_in env src (dst_id (snd x))"
          by (rule e) (use Inl in \<open>simp add: run_counts_def\<close>)
        from fail_steps [of "src_id src" "cyc_id cyc" "earned_in env src" db0 "(db, w)" "dst_id (snd x)" err, OF _ _ this]
        show ?thesis using True m Inl r held by (simp add: transfer_file_destination_def st Let_def)
      qed
    qed
  qed
qed

lemma sync_cycle_file_steps:
  "pass_steps (src_id src) (cyc_id cyc) (earned_in env src) (fst st)
     (fst (snd (sync_cycle_file_with_transfer env cfg src cyc st)))"
proof -
  obtain db w where st: "st = (db, w)" by fastforce
  let ?R = "pass_steps (src_id src) (cyc_id cyc) (earned_in env src) db"
  obtain r s1 where r: "run_ready (transfer_file_destination env cfg src cyc) (enabled_destinations src) tally_start
      (mark_cycle_status (cyc_id cyc) ''syncing'' db, w) = (r, s1)" by (rule prod.exhaust)
  have "?R (mark_cycle_status (cyc_id cyc) ''syncing'' db)" by (intro chain_status) simp_all
  then have "?R (fst s1)"
    by (intro run_ready_steps [OF r, of _ _ _ _ fst] transfer_file_destination_steps) simp_all
  with conclude_steps(1) [OF this] show ?thesis
    by (cases r) (simp_all add: sync_cycle_file_with_transfer_def st r Let_def split: sum.split option.split)
qed

lemma sync_cycle_with_transfer_steps:
  "pass_steps (src_id src) (cyc_id cyc) (earned_in env src) (fst st)
     (fst (snd (sync_cycle_with_transfer env cfg src cyc st)))"
proof -
  obtain db w where st: "st = (db, w)" by fastforce
  obtain t ready db1 where col: "collect_ready_transfer env src cyc db = (t, ready, db1)" by (metis prod_cases3)
  note ok = collect_ready_transfer_ok [of src cyc "earned_in env src" db env, unfolded col]
  let ?R = "pass_steps (src_id src) (cyc_id cyc) (earned_in env src) db"
  have r1: "?R db1" using ok by (simp add: collected_ok_def)
  have drv: "driven src (cyc_id cyc) db x" if "x \<in> set ready" for x
    using ok that by (auto simp: collected_ok_def driven_def)
  have c: "?R (fst (snd (conclude (cyc_id cyc) t (db1, w))))"
    by (rule conclude_steps) (simp add: r1)
  have rec: "?R (fst (snd (reconcile_transfer env cfg src cyc ready t (db1, w))))"
    by (rule reconcile_transfer_steps) (simp_all add: r1 drv)
  have ap: "?R (fst (snd (transfer_event_paths env cfg src cyc plans x t st)))"
    if "x \<in> set ready" "?R (fst st)" for plans x t st
    by (rule transfer_event_steps [OF that(2) drv [OF that(1)]])
  note plan = planned_steps [where step = "transfer_event_paths env cfg src cyc", OF r1 ap rec]
  have u: "?R (fst (snd (source_unavailable env src (cyc_id cyc) e (db, w))))" for e
    by (rule source_unavailable_steps) simp
  have f: "?R (fst (snd (sync_cycle_file_with_transfer env cfg src cyc (db, w))))"
    using sync_cycle_file_steps [of src cyc env "(db, w)" cfg] by simp
  show ?thesis using c plan u f
    by (cases "find_machine (env_host env) cfg (machine_id_or_local (src_machine src))"; cases "source_endpoint env")
      (simp_all add: sync_cycle_with_transfer_def st col Let_def)
qed

lemma pass_inner_steps:
  "pass_steps (src_id src) (cyc_id cyc) (earned_in env src) (fst st)
     (fst (snd (sync_cycle_for_source_inner env cfg src cyc st)))"
  by (simp add: sync_cycle_for_source_inner_def sync_cycle_with_transfer_steps sync_cycle_local_steps)

lemma close_task_steps:
  "pass_steps s c earned db0 db \<Longrightarrow> pass_steps s c earned db0 (close_task i r src cycle n f now db)"
  by (auto simp: close_task_def intro!: pass_intros split: sum.split option.split)

lemma sync_cycle_for_source_steps:
  "pass_steps (src_id src) (cyc_id cyc) (earned_in env src) (fst st)
     (fst (snd (sync_cycle_for_source env cfg src cyc st)))"
proof -
  obtain db w where st: "st = (db, w)" by fastforce
  let ?R = "pass_steps (src_id src) (cyc_id cyc) (earned_in env src)"
  let ?ids = "join_with '','' (map dst_id (filter dst_enabled (destinations src)))"
  obtain i db1 where t: "task_start (task_log_kind (env_kind env) db src cyc) (src_id src) ?ids (env_now env) db = (i, db1)"
    by fastforce
  have r1: "?R db db1"
    using chain_views(3) [OF rtranclp.rtrancl_refl [of "pass_step (src_id src) (cyc_id cyc) (earned_in env src)" db],
        of "task_log_kind (env_kind env) db src cyc" "src_id src" ?ids "env_now env"] t by simp
  obtain r db2 w2 where p: "sync_cycle_for_source_inner env cfg src cyc (db1, w) = (r, db2, w2)" by (metis prod_cases3)
  have "?R db1 db2" using pass_inner_steps [of src cyc env "(db1, w)" cfg] p by simp
  with r1 have "?R db db2" by (rule rtranclp_trans)
  then have "?R db (close_task i r src (cyc_id cyc) (env_files env) (env_failed env) (env_now env)
      (if \<not> isl r \<and> env_kind env = ''full'' then snd (clear_restart_notice_if_covered (src_id src) (env_now env) db2) else db2))"
    by (auto intro!: close_task_steps pass_intros)
  then show ?thesis by (simp add: sync_cycle_for_source_def st t p Let_def)
qed

section \<open>The loops\<close>

lemma drive_cycles_inv:
  assumes "drive_cycles env cfg src cs fl s = (r, s')" and "I (fst s)"
    and "\<And>c db db'. c \<in> set cs \<Longrightarrow> I db \<Longrightarrow> pass_steps (src_id src) (cyc_id c) (earned_in (env c) src) db db' \<Longrightarrow> I db'"
    and "\<And>c db. c \<in> set cs \<Longrightarrow> I db \<Longrightarrow> I (mark_cycle_status (cyc_id c) ''verified'' db)"
  shows "I (fst s')"
  using assms
proof (induction cs arbitrary: fl s)
  case (Cons c cs)
  have IH: "I (fst s')" if "drive_cycles env cfg src cs fl s = (r, s')" "I (fst s)" for fl s
    by (rule Cons.IH [OF that])
      (rule Cons.prems(3) [OF list.set_intros(2)] Cons.prems(4) [OF list.set_intros(2)], assumption+)+
  obtain ro so where o: "sync_cycle_for_source (env c) cfg src c s = (ro, so)" by (rule prod.exhaust)
  have so: "I (fst so)"
    by (rule Cons.prems(3) [of c "fst s"])
      (use Cons.prems(2) sync_cycle_for_source_steps [of src c "env c" s cfg] o in simp_all)
  have m: "I (mark_cycle_status (cyc_id c) ''verified'' (fst s))" by (rule Cons.prems(4)) (simp_all add: Cons.prems(2))
  show ?case
  proof (cases "env_cancelled (env c)")
    case True
    then show ?thesis using Cons.prems(1,2) by simp
  next
    case False
    note run = Cons.prems(1) [unfolded drive_cycles.simps(2) if_not_P [OF False]]
    show ?thesis
    proof (cases "source_has_target_cycle (src_id src) (cyc_id c) (fst s)")
      case True
      then show ?thesis using run o so IH [of _ so] by (cases ro) (auto split: if_splits)
    next
      case nt: False
      show ?thesis
      proof (cases "cyc_status c = ''closed''")
        case True
        then show ?thesis using run nt m IH [of fl "(mark_cycle_status (cyc_id c) ''verified'' (fst s), snd s)"] by simp
      next
        case other: False
        then show ?thesis using run nt Cons.prems(2) IH [of fl s] by simp
      qed
    qed
  qed
qed simp

lemma drive_sources_inv:
  assumes "drive_sources env cfg srcs fl s = (r, s')" and "I (fst s)"
    and "\<And>src s r s'. src \<in> set srcs \<Longrightarrow> I (fst s) \<Longrightarrow> drive_source (env (src_id src)) cfg src s = (r, s') \<Longrightarrow> I (fst s')"
  shows "I (fst s')"
  using assms
proof (induction srcs arbitrary: fl s)
  case (Cons src srcs)
  obtain r1 s1 where d: "drive_source (env (src_id src)) cfg src s = (r1, s1)" by (rule prod.exhaust)
  have "I (fst s1)" by (rule Cons.prems(3) [OF _ Cons.prems(2) d]) simp
  have IH: "I (fst s')" if "drive_sources env cfg srcs fl s = (r, s')" "I (fst s)" for fl s
    by (rule Cons.IH [OF that]) (rule Cons.prems(3) [OF list.set_intros(2)], assumption+)
  show ?case using Cons.prems(1) d \<open>I (fst s1)\<close> IH [of _ s1] by (cases r1) auto
qed simp

lemma drive_loop_inv:
  assumes "drive_loop fuel env cfg n s = Some (r, s')" and "I (fst s)"
    and "\<And>n src s r s'. I (fst s) \<Longrightarrow> drive_source (env n (src_id src)) cfg src s = (r, s') \<Longrightarrow> I (fst s')"
  shows "I (fst s')"
  using assms
proof (induction fuel arbitrary: n s)
  case (Suc fuel)
  obtain r1 s1 where d: "drive_sources (env n) cfg (local_sources cfg) (False, False) s = (r1, s1)" by (rule prod.exhaust)
  have "I (fst s1)" by (rule drive_sources_inv [where I = I, OF d Suc.prems(2)]) (rule Suc.prems(3))
  moreover have IH: "I (fst s')" if "drive_loop fuel env cfg n s = Some (r, s')" "I (fst s)" for n s
    by (rule Suc.IH [OF that]) (rule Suc.prems(3))
  ultimately show ?case using Suc.prems(1) d IH [of "n + 1" s1] by (cases r1) (simp_all split: if_splits prod.splits)
qed simp

subsection \<open>The loops keep the store's invariants\<close>

lemma closed_settled:
  "c \<in> set (closed_cycles_for_source s db) \<Longrightarrow> settled (s, d) (Some (cyc_id c)) db"
  by (auto simp: closed_cycles_for_source_def settled_iff is_open_def)

lemma mark_settled:
  "settled (s, d) (Some i) db \<Longrightarrow> settled (s, d) (Some i) (mark_cycle_status c ''verified'' db)"
  unfolding mark_cycle_status_def by (rule settled_update) (simp_all add: is_open_def)

lemma drive_source_reachable:
  assumes "drive_source env cfg src s = (r, s')" and "store_reachable cal (fst s)"
  shows "store_reachable cal (fst s')"
proof -
  let ?cs = "closed_cycles_for_source (src_id src) (fst s)"
  let ?I = "\<lambda>db. store_reachable cal db \<and> (\<forall>c\<in>set ?cs. settled (src_id src, '''') (Some (cyc_id c)) db)"
  obtain r1 s1 where d: "drive_cycles env cfg src ?cs (False, False) s = (r1, s1)" by (rule prod.exhaust)
  have "?I (fst s1)"
  proof (rule drive_cycles_inv [OF d])
    show "?I (fst s)" using assms(2) closed_settled by blast
  next
    fix c db db' assume "c \<in> set ?cs" "?I db" "pass_steps (src_id src) (cyc_id c) (earned_in (env c) src) db db'"
    then show "?I db'" using pass_steps_reachable pass_steps_settled by blast
  next
    fix c db assume "c \<in> set ?cs" "?I db"
    then show "?I (mark_cycle_status (cyc_id c) ''verified'' db)"
      using mark_settled store_reachable.step [OF _ log_step.status [of "''verified''"]] by auto
  qed
  then show ?thesis using assms(1) d
    by (cases r1; cases s1) (auto simp: drive_source_def intro: store_reachable.prune)
qed

lemma drive_loop_reachable:
  assumes "drive_loop fuel env cfg n s = Some (r, s')" and "store_reachable cal (fst s)"
  shows "store_reachable cal (fst s')"
  by (rule drive_loop_inv [where I = "store_reachable cal", OF assms]) (rule drive_source_reachable)

lemma sync_all_reachable:
  assumes "sync_all_pending_inner fuel env z cfg now (db, w) = Some (r, s')" and "store_reachable cal db"
  shows "store_reachable cal (fst s')"
proof -
  obtain o1 db1 where p: "prune_removed_destination_offsets cfg (ensure_config cfg now db) = (o1, db1)" by fastforce
  have "store_reachable cal (snd (prune_removed_destination_offsets cfg (ensure_config cfg now db)))"
    by (intro store_reachable.step [OF store_reachable.step [OF assms(2) log_step.config] log_step.prune_removed])
  with assms(1) p show ?thesis
    using drive_loop_reachable [of fuel env cfg 0 "(db1, destroy_all z o1 w)"] by (auto simp: sync_all_pending_inner_def)
qed

section \<open>Progress\<close>

text \<open>The destinations that still have to be brought to their target.\<close>

definition pending :: "db \<Rightarrow> destination_key set" where
  "pending db = {k. \<exists>t. destination_target_cycle k db = Some t \<and> \<not> verified_ge (destination_last_verified k db) t}"

lemma pending_finite [simp]: "finite (pending db)"
proof (rule finite_subset)
  show "pending db \<subseteq> fst ` set (offsets db)"
  proof
    fix k assume "k \<in> pending db"
    then obtain r where "map_of (offsets db) k = Some r" by (auto simp: pending_def target_lookup split: option.splits)
    then show "k \<in> fst ` set (offsets db)" by (metis map_of_SomeD fst_conv image_eqI)
  qed
qed simp

lemma pending_offsets: "offsets db' = offsets db \<Longrightarrow> pending db' = pending db"
  unfolding pending_def target_lookup destination_last_verified_def by simp

lemma pass_step_pending: "pass_step s c earned db db' \<Longrightarrow> pending db' \<subseteq> pending db"
proof
  fix k assume st: "pass_step s c earned db db'" and "k \<in> pending db'"
  then obtain t where t: "destination_target_cycle k db' = Some t" "\<not> verified_ge (destination_last_verified k db') t"
    by (auto simp: pending_def)
  from pass_step_target [OF st, of k] t(1) have tgt: "destination_target_cycle k db = Some t" by auto
  moreover from pass_step_verified [OF st, of k] t(2) tgt have "destination_last_verified k db' = destination_last_verified k db"
    by auto
  ultimately show "k \<in> pending db" using t(2) by (auto simp: pending_def)
qed

lemma pass_steps_pending: "pass_steps s c earned db db' \<Longrightarrow> pending db' \<subseteq> pending db"
  by (induction rule: rtranclp_induct) (use pass_step_pending in \<open>blast+\<close>)

abbreviation done_at :: "string \<Rightarrow> nat \<Rightarrow> string \<Rightarrow> db \<Rightarrow> bool" where
  "done_at s c d db \<equiv> verified_ge (destination_last_verified (s, d) db) c"

lemma done_stays: "pass_steps s c earned db db' \<Longrightarrow> done_at s c d db \<Longrightarrow> done_at s c d db'"
  using pass_steps_verified [of s c earned db db' "(s, d)"] by auto

text \<open>A destination step counts as progress only when it verified its destination.\<close>

definition honest :: "string \<Rightarrow> nat \<Rightarrow> indexed_dst \<Rightarrow> tally \<Rightarrow> (err_chain + tally) \<Rightarrow> db \<Rightarrow> bool" where
  "honest s c x t r db \<longleftrightarrow> (case r of Inl e \<Rightarrow> True
     | Inr t' \<Rightarrow> progressed t' \<longrightarrow> progressed t \<or> done_at s c (dst_id (snd x)) db)"

lemma honest_simps [simp]:
  "honest s c x t (Inl e) db"
  "honest s c x t (Inr t') db \<longleftrightarrow> (progressed t' \<longrightarrow> progressed t \<or> done_at s c (dst_id (snd x)) db)"
  by (simp_all add: honest_def)

lemma honest_done: "done_at s c (dst_id (snd x)) db \<Longrightarrow> honest s c x t r db"
  by (simp add: honest_def split: sum.split)

lemma done_mark: "done_at s c d (mark_verified (s, d) c now db)"
  by (simp add: mark_verified_def offset_simps)

lemma honest_fail: "honest s c x t (fst (fail_destination now k c e t st)) db"
  by (cases st) (simp add: fail_destination_def split: sum.split prod.split)

lemma baselines_verified:
  "destination_last_verified k (snd (record_destination_verified_baselines z h now src d n a i st)) =
     destination_last_verified k (snd st)"
  by (cases st; cases a)
    (simp_all add: record_destination_verified_baselines_def Let_def offset_simps split: sum.split option.split prod.split)

lemma done_verified_pass:
  "done_at (src_id src) (cyc_id cyc) (dst_id d) (fst (snd (verified_pass env src cyc d n a t st)))"
  using done_mark [of "src_id src" "dst_id d" "cyc_id cyc" "env_now env" "fst st"]
  by (cases st) (simp add: verified_pass_def case_prod_beta Let_def baselines_verified)

lemma honest_apply:
  "honest (src_id src) (cyc_id cyc) x t (fst (apply_event_paths env src cyc plans x t st))
     (fst (snd (apply_event_paths env src cyc plans x t st)))"
proof -
  obtain i d where x: "x = (i, d)" by (rule prod.exhaust)
  show ?thesis
    by (cases st) (simp add: x apply_event_paths_def Let_def done_mark honest_fail split: sum.split)
qed

lemma honest_zfs:
  "zfs_incremental env cfg src cyc view action (snd x) t st = Some r \<or> zfs_full env cfg src cyc view (snd x) t st = Some r \<Longrightarrow>
     honest (src_id src) (cyc_id cyc) x t' (fst r) (fst (snd r))"
  by (rule honest_done)
    (use zfs_attempts(1) [of env cfg src cyc view action "snd x" t st r]
       zfs_attempts(2) [of env cfg src cyc view "snd x" t st r] done_verified_pass in metis)

lemma honest_reconcile:
  "honest (src_id src) (cyc_id cyc) x t (fst (reconcile_dir env cfg src cyc view x t st))
     (fst (snd (reconcile_dir env cfg src cyc view x t st)))"
  "honest (src_id src) (cyc_id cyc) x t (fst (reconcile_file env src cyc view x t st))
     (fst (snd (reconcile_file env src cyc view x t st)))"
   apply (cases "zfs_incremental env cfg src cyc view Retain (snd x) t st"; cases "zfs_full env cfg src cyc view (snd x) t st")
  using honest_zfs [of env cfg src cyc view Retain x t st]
  by (simp_all add: reconcile_dir_def reconcile_file_def honest_done done_verified_pass honest_fail Let_def split: sum.split)

lemma honest_unknown: "honest s c x t (fst (unknown_destination now k t db)) db'"
  by (simp add: unknown_destination_def)

lemma honest_transfer:
  "honest (src_id src) (cyc_id cyc) x t (fst (transfer_event_paths env cfg src cyc plans x t st))
     (fst (snd (transfer_event_paths env cfg src cyc plans x t st)))"
  using honest_apply [of src cyc x t env plans st]
  by (cases st) (simp add: transfer_event_paths_def case_prod_beta Let_def honest_unknown split: option.split)

lemma honest_transfer_destination:
  "honest (src_id src) (cyc_id cyc) x t (fst (transfer_destination env cfg src cyc view x t st))
     (fst (snd (snd (transfer_destination env cfg src cyc view x t st))))"
proof -
  obtain cached db w where st: "st = (cached, db, w)" by (cases st)
  let ?a = "if machine_id_or_local (dst_machine (snd x)) = ''local'' then Retain else Clear"
  show ?thesis
    using honest_zfs [of env cfg src cyc view ?a x t "(db, w)"]
    by (cases "machine_id_or_local (dst_machine (snd x)) = ''local''";
        cases "zfs_incremental env cfg src cyc view ?a (snd x) t (db, w)")
      (simp_all add: transfer_destination_def st Let_def case_prod_beta honest_unknown honest_done done_verified_pass
        honest_fail split: option.split sum.split)
qed

lemma run_ready_honest:
  fixes db_of :: "'s \<Rightarrow> db"
  assumes "run_ready step xs t s = (Inr t', s')" and "pass_steps sid c earned db0 (db_of s)"
    and "\<And>x t s. x \<in> set xs \<Longrightarrow> pass_steps sid c earned db0 (db_of s) \<Longrightarrow>
      pass_steps sid c earned (db_of s) (db_of (snd (step x t s))) \<and>
      honest sid c x t (fst (step x t s)) (db_of (snd (step x t s)))"
  shows "pass_steps sid c earned (db_of s) (db_of s') \<and>
    (progressed t' \<longrightarrow> progressed t \<or> (\<exists>x\<in>set xs. done_at sid c (dst_id (snd x)) (db_of s')))"
  using assms
proof (induction xs arbitrary: t s)
  case (Cons x xs)
  obtain r1 s1 where s1: "step x t s = (r1, s1)" by (rule prod.exhaust)
  then obtain t1 where t1: "r1 = Inr t1" using Cons.prems(1) by (cases r1) simp_all
  have here: "pass_steps sid c earned (db_of s) (db_of s1)" "honest sid c x t (Inr t1) (db_of s1)"
    using Cons.prems(3) [of x s t] Cons.prems(2) s1 t1 by simp_all
  have sub: "pass_steps sid c earned db0 (db_of s1)" using Cons.prems(2) here(1) by (rule rtranclp_trans)
  have run: "run_ready step xs t1 s1 = (Inr t', s')" using Cons.prems(1) s1 t1 by simp
  have rest: "pass_steps sid c earned (db_of s) (db_of (snd (step x t s))) \<and>
      honest sid c x t (fst (step x t s)) (db_of (snd (step x t s)))"
    if "x \<in> set xs" "pass_steps sid c earned db0 (db_of s)" for x t s
    using Cons.prems(3) [of x s t] that by simp
  have IH: "pass_steps sid c earned (db_of s1) (db_of s') \<and>
      (progressed t' \<longrightarrow> progressed t1 \<or> (\<exists>x\<in>set xs. done_at sid c (dst_id (snd x)) (db_of s')))"
    by (rule Cons.IH [OF run sub]) (rule rest)
  have "pass_steps sid c earned (db_of s) (db_of s')" using here(1) IH [THEN conjunct1] by (rule rtranclp_trans)
  then show ?case
    using here(2) IH done_stays [OF IH [THEN conjunct1], of "dst_id (snd x)"] by auto
qed simp

text \<open>A pass that reports progress verified one of its ready destinations.\<close>

definition made_progress :: "string \<Rightarrow> nat \<Rightarrow> indexed_dst list \<Rightarrow> 'z pass_result \<Rightarrow> bool" where
  "made_progress s c ready p \<longleftrightarrow> (case fst p of Inl e \<Rightarrow> True
     | Inr out \<Rightarrow> out_progressed out \<longrightarrow> (\<exists>x\<in>set ready. done_at s c (dst_id (snd x)) (fst (snd p))))"

lemma conclude_progress:
  assumes "progressed t \<longrightarrow> (\<exists>x\<in>set ready. done_at s c (dst_id (snd x)) (fst st))"
  shows "made_progress s c ready (conclude i t st)" and "made_progress s c ready (conclude_view env src i view t st)"
  using assms by (cases st; simp add: made_progress_def conclude_view_def conclude_def Let_def offset_simps)+

lemma finished_progress:
  fixes st :: "'z engine_state"
  assumes "progressed t = False" and "pass_steps s c earned db0 (fst st)"
    and "\<And>x t (st :: 'z engine_state). x \<in> set ready \<Longrightarrow> pass_steps s c earned db0 (fst st) \<Longrightarrow>
      pass_steps s c earned (fst st) (fst (snd (step x t st))) \<and> honest s c x t (fst (step x t st)) (fst (snd (step x t st)))"
  shows "made_progress s c ready (case run_ready step ready t st of
      (Inl e, st) \<Rightarrow> (Inl e, st) | (Inr t, st) \<Rightarrow> conclude c t st)"
    and "made_progress s c ready (case run_ready step ready t st of
      (Inl e, st) \<Rightarrow> (Inl e, st) | (Inr t, st) \<Rightarrow> conclude_view env src c view t st)"
proof -
  obtain r st' where r: "run_ready step ready t st = (r, st')" by (rule prod.exhaust)
  have "progressed t' \<longrightarrow> (\<exists>x\<in>set ready. done_at s c (dst_id (snd x)) (fst st'))" if "r = Inr t'" for t'
    using run_ready_honest [where db_of = fst, OF r [unfolded that] assms(2,3)] assms(1) by simp
  note out = conclude_progress [OF this]
  show "made_progress s c ready (case run_ready step ready t st of
      (Inl e, st) \<Rightarrow> (Inl e, st) | (Inr t, st) \<Rightarrow> conclude c t st)"
    using out(1) by (cases r) (simp_all add: r made_progress_def)
  show "made_progress s c ready (case run_ready step ready t st of
      (Inl e, st) \<Rightarrow> (Inl e, st) | (Inr t, st) \<Rightarrow> conclude_view env src c view t st)"
    using out(2) by (cases r) (simp_all add: r made_progress_def)
qed

lemma planned_progress:
  fixes w :: 'z
  assumes "progressed t = False" and "pass_steps s c earned db0 db"
    and "\<And>plans x t (st :: 'z engine_state). x \<in> set ready \<Longrightarrow> pass_steps s c earned db0 (fst st) \<Longrightarrow>
      pass_steps s c earned (fst st) (fst (snd (step plans x t st))) \<and>
      honest s c x t (fst (step plans x t st)) (fst (snd (step plans x t st)))"
    and "made_progress s c ready full"
  shows "made_progress s c ready (case plan of
      Inl e \<Rightarrow> (Inl e, db, w)
    | Inr (Some (Unusable reason)) \<Rightarrow> unusable_pass now s c reason ready (db, w)
    | Inr (Some (ApplyPaths plans)) \<Rightarrow>
        (case run_ready (step plans) ready t (mark_cycle_status c ''syncing'' db, w) of
           (Inl e, st) \<Rightarrow> (Inl e, st) | (Inr t, st) \<Rightarrow> conclude c t st)
    | Inr None \<Rightarrow> full)"
proof -
  have run: "made_progress s c ready (case run_ready (step plans) ready t (mark_cycle_status c ''syncing'' db, w) of
      (Inl e, st) \<Rightarrow> (Inl e, st) | (Inr t, st) \<Rightarrow> conclude c t st)" for plans
    by (rule finished_progress(1) [where earned = earned and ?db0.0 = db0])
      (simp_all add: assms(1,3) chain_status [OF assms(2)])
  have "made_progress s c ready (unusable_pass now s c reason ready (db, w))" for reason
    by (simp add: made_progress_def unusable_pass_def)
  moreover have "made_progress s c ready (Inl e, db, w)" for e by (simp add: made_progress_def)
  ultimately show ?thesis using run assms(4) by (simp split: sum.split option.split incremental_plan.split)
qed

lemma reconcile_local_progress:
  assumes "progressed t = False" and "\<And>x. x \<in> set ready \<Longrightarrow> driven src (cyc_id cyc) (fst st) x"
  shows "made_progress (src_id src) (cyc_id cyc) ready (reconcile_local env cfg src cyc dir_source ready t st)"
proof -
  let ?R = "pass_steps (src_id src) (cyc_id cyc) (earned_in env src)"
  obtain db w where st: "st = (db, w)" by fastforce
  define db1 where "db1 = (if is_event_loss cyc then mark_event_loss (env_now env) (src_id src) ready db else db)"
  let ?db2 = "mark_cycle_status (cyc_id cyc) ''syncing'' (mark_cycle_status (cyc_id cyc) ''planning'' db1)"
  have "?R db db1" using event_loss_steps [of "src_id src" "cyc_id cyc" "earned_in env src" db db] by (simp add: db1_def)
  then have d2: "?R db ?db2" by (intro chain_status) simp_all
  obtain rv w1 where v: "SourceReadView_prepare (zfs env) (zhost env) src (cyc_id cyc) (Some (starts_at cyc div SECOND)) w
      = (rv, w1)" by fastforce
  show ?thesis
  proof (cases rv)
    case (Inl e)
    then show ?thesis by (simp add: made_progress_def reconcile_local_def st v db1_def [symmetric] Let_def)
  next
    case (Inr view)
    let ?step = "if dir_source then reconcile_dir env cfg src cyc view else reconcile_file env src cyc view"
    have one: "?R (fst s) (fst (snd (?step x t s))) \<and>
        honest (src_id src) (cyc_id cyc) x t (fst (?step x t s)) (fst (snd (?step x t s)))"
      if "x \<in> set ready" "?R db (fst s)" for x t s
    proof -
      have d: "driven src (cyc_id cyc) (fst s) x" by (rule driven_later [OF _ that(2)]) (use assms(2) that(1) st in simp)
      show ?thesis by (simp add: reconcile_dir_steps [OF _ d] reconcile_file_steps [OF _ d] honest_reconcile)
    qed
    have "made_progress (src_id src) (cyc_id cyc) ready (case run_ready ?step ready t (?db2, w1) of
      (Inl e, st) \<Rightarrow> (Inl e, st) | (Inr t, st) \<Rightarrow> conclude_view env src (cyc_id cyc) view t st)"
      by (rule finished_progress(2) [where ?db0.0 = db and earned = "earned_in env src", OF assms(1) _ one]) (use d2 in simp_all)
    then show ?thesis using Inr by (simp add: reconcile_local_def st v db1_def [symmetric] Let_def)
  qed
qed

lemma reconcile_transfer_progress:
  assumes "progressed t = False" and "\<And>x. x \<in> set ready \<Longrightarrow> driven src (cyc_id cyc) (fst st) x"
  shows "made_progress (src_id src) (cyc_id cyc) ready (reconcile_transfer env cfg src cyc ready t st)"
proof -
  let ?R = "pass_steps (src_id src) (cyc_id cyc) (earned_in env src)"
  obtain db w where st: "st = (db, w)" by fastforce
  define db1 where "db1 = mark_cycle_status (cyc_id cyc) ''planning''
      (if is_event_loss cyc then mark_event_loss (env_now env) (src_id src) ready db else db)"
  let ?db2 = "mark_cycle_status (cyc_id cyc) ''syncing'' db1"
  have "?R db db1" unfolding db1_def
    by (rule chain_status) (use event_loss_steps [of "src_id src" "cyc_id cyc" "earned_in env src" db db] in simp_all)
  then have d2: "?R db ?db2" by (intro chain_status) simp_all
  obtain rv w1 where v: "(if machine_id_or_local (src_machine src) = ''local''
      then SourceReadView_prepare (zfs env) (zhost env) src (cyc_id cyc) (Some (starts_at cyc div SECOND)) w
      else (Inr None, w)) = (rv, w1)" by fastforce
  show ?thesis
  proof (cases rv)
    case (Inl e)
    then show ?thesis by (simp add: made_progress_def reconcile_transfer_def st v db1_def [symmetric] Let_def)
  next
    case (Inr view)
    let ?step = "transfer_destination env cfg src cyc view"
    have one: "?R (fst (snd s)) (fst (snd (snd (?step x t s)))) \<and>
        honest (src_id src) (cyc_id cyc) x t (fst (?step x t s)) (fst (snd (snd (?step x t s))))"
      if "x \<in> set ready" "?R db (fst (snd s))" for x t s
    proof -
      have d: "driven src (cyc_id cyc) (fst (snd s)) x"
        by (rule driven_later [OF _ that(2)]) (use assms(2) that(1) st in simp)
      show ?thesis by (simp add: transfer_destination_steps [OF _ d] honest_transfer_destination)
    qed
    obtain r c s1 where run: "run_ready ?step ready t (False, ?db2, w1) = (r, c, s1)"
      by (metis prod_cases3 prod.collapse)
    have "progressed t' \<longrightarrow> (\<exists>x\<in>set ready. done_at (src_id src) (cyc_id cyc) (dst_id (snd x)) (fst s1))"
      if "r = Inr t'" for t'
      using run_ready_honest [where db_of = "\<lambda>s. fst (snd s)" and ?db0.0 = db and earned = "earned_in env src",
          OF run [unfolded that] _ one] d2 assms(1) by simp
    note out = conclude_progress(2) [OF this]
    then show ?thesis
      using Inr run by (cases r) (simp_all add: reconcile_transfer_def st v db1_def [symmetric] Let_def made_progress_def)
  qed
qed

text \<open>The pass that transfers a single file has no such test; it may drive a destination that is
  already done.\<close>

definition transfers_file :: "'z pass_env \<Rightarrow> AppConfig \<Rightarrow> SourceGroupConfig \<Rightarrow> Cycle \<Rightarrow> db \<Rightarrow> bool" where
  "transfers_file env cfg src cyc db \<longleftrightarrow>
     source_endpoint env = Inr False \<and> cycle_has_remote_target (env_host env) cfg src cyc db"

lemma done_not_pending:
  assumes "collected_ok src c earned db (t, ready, db1)" and "pass_steps (src_id src) c earned db db'"
    and "x \<in> set ready" and "done_at (src_id src) c (dst_id (snd x)) db'"
  shows "pending db' \<subset> pending db"
proof -
  let ?k = "(src_id src, dst_id (snd x))"
  have "?k \<in> pending db" using assms(1,3) by (auto simp: collected_ok_def pending_def)
  moreover have "?k \<notin> pending db'"
  proof
    assume "?k \<in> pending db'"
    then obtain t where t: "destination_target_cycle ?k db' = Some t" "\<not> verified_ge (destination_last_verified ?k db') t"
      by (auto simp: pending_def)
    from pass_steps_target [OF assms(2), of ?k] t(1) assms(1,3) have "t = c" by (auto simp: collected_ok_def)
    with t(2) assms(4) show False by simp
  qed
  ultimately show ?thesis using pass_steps_pending [OF assms(2)] by blast
qed

lemma progress_shrinks:
  assumes "made_progress (src_id src) c ready p" and "fst p = Inr out" and "out_progressed out"
    and "collected_ok src c earned db (t, ready, db1)" and "pass_steps (src_id src) c earned db (fst (snd p))"
  shows "pending (fst (snd p)) \<subset> pending db"
  using assms(1-3) done_not_pending [OF assms(4,5)] by (auto simp: made_progress_def)

lemma sync_cycle_local_progress:
  assumes "sync_cycle_local env cfg src cyc st = (Inr out, st')" and "out_progressed out"
  shows "pending (fst st') \<subset> pending (fst st)"
proof -
  obtain db w where st: "st = (db, w)" by fastforce
  obtain t ready db1 where col: "collect_ready env cfg src cyc db = (t, ready, db1)" by (metis prod_cases3)
  note ok = collect_ready_ok [of src cyc "earned_in env src" db env cfg, unfolded col]
  let ?R = "pass_steps (src_id src) (cyc_id cyc) (earned_in env src)"
  have r1: "?R db db1" and t0: "progressed t = False" using ok by (simp_all add: collected_ok_def)
  have drv: "driven src (cyc_id cyc) db1 x" if "x \<in> set ready" for x by (rule collected_driven [OF ok that])
  have one: "?R (fst st) (fst (snd (apply_event_paths env src cyc plans x t st))) \<and>
      honest (src_id src) (cyc_id cyc) x t (fst (apply_event_paths env src cyc plans x t st))
        (fst (snd (apply_event_paths env src cyc plans x t st)))"
    if "x \<in> set ready" "?R db1 (fst st)" for plans x t st
    using driven_later [OF drv [OF that(1)] that(2)] by (simp add: apply_steps honest_apply)
  have rec: "made_progress (src_id src) (cyc_id cyc) ready (reconcile_local env cfg src cyc b ready t (db1, w))" for b
    by (rule reconcile_local_progress [OF t0]) (simp add: drv)
  note plan = planned_progress [where step = "apply_event_paths env src cyc" and ?db0.0 = db1,
      OF t0 rtranclp.rtrancl_refl one rec]
  have c: "made_progress (src_id src) (cyc_id cyc) rs (conclude (cyc_id cyc) t (db1, w))" for rs
    by (rule conclude_progress) (simp add: t0)
  have "made_progress (src_id src) (cyc_id cyc) ready (sync_cycle_local env cfg src cyc st)"
    using plan c
    by (cases "source_endpoint env")
      (simp_all add: sync_cycle_local_def st col Let_def source_unavailable_def, simp add: made_progress_def)
  from progress_shrinks [OF this _ assms(2) ok] show ?thesis
    using sync_cycle_local_steps [of src cyc env st cfg] assms(1) st by simp
qed

lemma sync_cycle_with_transfer_progress:
  assumes "sync_cycle_with_transfer env cfg src cyc st = (Inr out, st')" and "out_progressed out"
    and "source_endpoint env \<noteq> Inr False"
  shows "pending (fst st') \<subset> pending (fst st)"
proof -
  obtain db w where st: "st = (db, w)" by fastforce
  obtain t ready db1 where col: "collect_ready_transfer env src cyc db = (t, ready, db1)" by (metis prod_cases3)
  note ok = collect_ready_transfer_ok [of src cyc "earned_in env src" db env, unfolded col]
  let ?R = "pass_steps (src_id src) (cyc_id cyc) (earned_in env src)"
  have r1: "?R db db1" and t0: "progressed t = False" using ok by (simp_all add: collected_ok_def)
  have drv: "driven src (cyc_id cyc) db1 x" if "x \<in> set ready" for x by (rule collected_driven [OF ok that])
  have one: "?R (fst st) (fst (snd (transfer_event_paths env cfg src cyc plans x t st))) \<and>
      honest (src_id src) (cyc_id cyc) x t (fst (transfer_event_paths env cfg src cyc plans x t st))
        (fst (snd (transfer_event_paths env cfg src cyc plans x t st)))"
    if "x \<in> set ready" "?R db1 (fst st)" for plans x t st
    using driven_later [OF drv [OF that(1)] that(2)] by (simp add: transfer_event_steps honest_transfer)
  have rec: "made_progress (src_id src) (cyc_id cyc) ready (reconcile_transfer env cfg src cyc ready t (db1, w))"
    by (rule reconcile_transfer_progress [OF t0]) (simp add: drv)
  note plan = planned_progress [where step = "transfer_event_paths env cfg src cyc" and ?db0.0 = db1,
      OF t0 rtranclp.rtrancl_refl one rec]
  have c: "made_progress (src_id src) (cyc_id cyc) rs (conclude (cyc_id cyc) t (db1, w))" for rs
    by (rule conclude_progress) (simp add: t0)
  obtain b where "source_endpoint env = Inl b \<or> source_endpoint env = Inr True"
    using assms(3) by (cases "source_endpoint env") auto
  then have "made_progress (src_id src) (cyc_id cyc) ready (sync_cycle_with_transfer env cfg src cyc st)"
    using plan c
    by (cases "find_machine (env_host env) cfg (machine_id_or_local (src_machine src))")
      (auto simp: sync_cycle_with_transfer_def st col Let_def source_unavailable_def, simp_all add: made_progress_def)
  from progress_shrinks [OF this _ assms(2) ok] show ?thesis
    using sync_cycle_with_transfer_steps [of src cyc env st cfg] assms(1) st by simp
qed

lemma task_start_offsets: "offsets (snd (task_start kind s d now db)) = offsets db"
  by (simp add: task_start_def Let_def)

lemma close_task_offsets:
  "offsets (close_task i r src cycle n f now db) = offsets db"
  "offsets (snd (clear_restart_notice_if_covered s now db)) = offsets db"
  by (auto simp: close_task_def task_finish_def update_tasks_def task_discard_def clear_restart_notice_if_covered_def
      split: sum.split option.split)

lemma sync_cycle_progress:
  assumes "sync_cycle_for_source env cfg src cyc st = (Inr out, st')" and "out_progressed out"
    and "\<And>db. \<not> transfers_file env cfg src cyc db"
  shows "pending (fst st') \<subset> pending (fst st)"
proof -
  obtain db w where st: "st = (db, w)" by fastforce
  let ?ids = "join_with '','' (map dst_id (filter dst_enabled (destinations src)))"
  obtain i db1 where t: "task_start (task_log_kind (env_kind env) db src cyc) (src_id src) ?ids (env_now env) db = (i, db1)"
    by fastforce
  have "offsets db1 = offsets db"
    using task_start_offsets [of "task_log_kind (env_kind env) db src cyc" "src_id src" ?ids "env_now env" db] t by simp
  then have p1: "pending db1 = pending db" by (rule pending_offsets)
  obtain r db2 w2 where p: "sync_cycle_for_source_inner env cfg src cyc (db1, w) = (r, db2, w2)" by (metis prod_cases3)
  have r: "r = Inr out" using assms(1) by (simp add: sync_cycle_for_source_def st t p Let_def)
  have "offsets (fst st') = offsets db2"
    using assms(1) by (auto simp: sync_cycle_for_source_def st t p Let_def close_task_offsets)
  then have p2: "pending (fst st') = pending db2" by (rule pending_offsets)
  have "pending db2 \<subset> pending db1"
  proof (cases "cycle_has_remote_target (env_host env) cfg src cyc db1")
    case True
    then have "source_endpoint env \<noteq> Inr False" using assms(3) by (auto simp: transfers_file_def)
    with sync_cycle_with_transfer_progress [OF _ assms(2), of env cfg src cyc "(db1, w)" "(db2, w2)"] p r True show ?thesis
      by (simp add: sync_cycle_for_source_inner_def)
  next
    case False
    with sync_cycle_local_progress [OF _ assms(2), of env cfg src cyc "(db1, w)" "(db2, w2)"] p r show ?thesis
      by (simp add: sync_cycle_for_source_inner_def)
  qed
  with p1 p2 st show ?thesis by simp
qed

subsection \<open>The loop ends\<close>

lemma drive_cycles_progress:
  assumes "drive_cycles env cfg src cs fl s = (Inr fl', s')"
    and "\<And>c db. c \<in> set cs \<Longrightarrow> \<not> transfers_file (env c) cfg src c db"
  shows "pending (fst s') \<subseteq> pending (fst s) \<and> (fst fl' \<longrightarrow> fst fl \<or> pending (fst s') \<subset> pending (fst s))"
  using assms
proof (induction cs arbitrary: fl s)
  case (Cons c cs)
  have IH: "pending (fst s') \<subseteq> pending (fst s) \<and> (fst fl' \<longrightarrow> fst fl \<or> pending (fst s') \<subset> pending (fst s))"
    if "drive_cycles env cfg src cs fl s = (Inr fl', s')" for fl s
    by (rule Cons.IH [OF that]) (simp add: Cons.prems(2))
  obtain ro so where o: "sync_cycle_for_source (env c) cfg src c s = (ro, so)" by (rule prod.exhaust)
  have sub: "pending (fst so) \<subseteq> pending (fst s)"
    using pass_steps_pending [OF sync_cycle_for_source_steps [of src c "env c" s cfg]] o by simp
  have less: "pending (fst so) \<subset> pending (fst s)" if "ro = Inr out" "out_progressed out" for out
    using sync_cycle_progress [OF _ that(2), of "env c" cfg src c s so] o that(1) Cons.prems(2) [of c] by simp
  have m: "pending (mark_cycle_status (cyc_id c) ''verified'' (fst s)) = pending (fst s)"
    by (rule pending_offsets) simp
  have nc: "\<not> env_cancelled (env c)" using Cons.prems(1) by (auto split: if_splits)
  note run = Cons.prems(1) [unfolded drive_cycles.simps(2) if_not_P [OF nc]]
  show ?case
  proof (cases "source_has_target_cycle (src_id src) (cyc_id c) (fst s)")
    case True
    show ?thesis
    proof (cases ro)
      case (Inl e)
      then show ?thesis using run True o sub by (auto split: if_splits)
    next
      case (Inr out)
      then show ?thesis using run True o sub less [of out] IH [of _ so] by fastforce
    qed
  next
    case False
    then show ?thesis
      using run m IH [of fl "(mark_cycle_status (cyc_id c) ''verified'' (fst s), snd s)"] IH [of fl s]
      by (auto split: if_splits)
  qed
qed simp

lemma prune_offsets: "offsets (prune_verified_cycle_events src db) = offsets db"
  by (simp add: prune_verified_cycle_events_def prune_event_log_eq split: option.split)

lemma drive_source_progress:
  assumes "drive_source env cfg src s = (Inr fl, s')" and "\<And>c db. \<not> transfers_file (env c) cfg src c db"
  shows "pending (fst s') \<subseteq> pending (fst s) \<and> (fst fl \<longrightarrow> pending (fst s') \<subset> pending (fst s))"
proof -
  obtain r db w where d: "drive_cycles env cfg src (closed_cycles_for_source (src_id src) (fst s)) (False, False) s = (r, db, w)"
    by (metis prod_cases3)
  then have r: "r = Inr fl" using assms(1) by (cases r) (auto simp: drive_source_def)
  have o: "offsets (if b then prune_verified_cycle_events src db else db) = offsets db" for b by (simp add: prune_offsets)
  have "fst s' = (if fst fl then prune_verified_cycle_events src db else db)"
    using assms(1) d r by (cases fl) (auto simp: drive_source_def)
  with pending_offsets [OF o] have p: "pending (fst s') = pending db" by simp
  from drive_cycles_progress [OF d [unfolded r] assms(2)] p show ?thesis by simp
qed

lemma drive_sources_progress:
  assumes "drive_sources env cfg srcs fl s = (Inr fl', s')"
    and "\<And>src c db. src \<in> set srcs \<Longrightarrow> \<not> transfers_file (env (src_id src) c) cfg src c db"
  shows "pending (fst s') \<subseteq> pending (fst s) \<and> (fst fl' \<longrightarrow> fst fl \<or> pending (fst s') \<subset> pending (fst s))"
  using assms
proof (induction srcs arbitrary: fl s)
  case (Cons src srcs)
  obtain r s1 where d: "drive_source (env (src_id src)) cfg src s = (r, s1)" by (rule prod.exhaust)
  then obtain fl1 where r: "r = Inr fl1" using Cons.prems(1) by (cases r) simp_all
  have one: "pending (fst s1) \<subseteq> pending (fst s) \<and> (fst fl1 \<longrightarrow> pending (fst s1) \<subset> pending (fst s))"
    by (rule drive_source_progress [OF d [unfolded r]]) (simp add: Cons.prems(2))
  have "drive_sources env cfg srcs (fst fl \<or> fst fl1, snd fl \<or> snd fl1) s1 = (Inr fl', s')"
    using Cons.prems(1) d r by (simp add: case_prod_beta)
  from Cons.IH [OF this] Cons.prems(2)
  have "pending (fst s') \<subseteq> pending (fst s1) \<and>
      (fst fl' \<longrightarrow> (fst fl \<or> fst fl1) \<or> pending (fst s') \<subset> pending (fst s1))" by simp
  with one show ?case by blast
qed simp

lemma drive_loop_returns:
  assumes "\<And>n src c db. src \<in> set (local_sources cfg) \<Longrightarrow> \<not> transfers_file (env n (src_id src) c) cfg src c db"
    and "fuel > card (pending (fst s))"
  shows "drive_loop fuel env cfg n s \<noteq> None"
  using assms(2)
proof (induction fuel arbitrary: n s)
  case (Suc fuel)
  obtain r s1 where d: "drive_sources (env n) cfg (local_sources cfg) (False, False) s = (r, s1)" by (rule prod.exhaust)
  show ?case
  proof (cases r)
    case (Inr fl)
    have "drive_loop fuel env cfg (n + 1) s1 \<noteq> None" if "fst fl"
    proof (rule Suc.IH)
      have "pending (fst s1) \<subset> pending (fst s)"
        using drive_sources_progress [OF d [unfolded Inr] assms(1)] that by simp
      from psubset_card_mono [OF pending_finite this] Suc.prems show "fuel > card (pending (fst s1))" by simp
    qed
    then show ?thesis using d Inr by (cases fl) auto
  qed (simp add: d)
qed simp

end
