(* ===== verification/Engine_Facts.thy ===== *)
theory Engine_Facts
  imports Prelude Paths Config Standby Cancel Store Store_Log Store_Views Zfs Engine Engine_Pass Engine_Cycle
begin

text \<open>
  The properties of the engine: which destinations a pass drives, when a destination may count as
  verified, what the incremental plan hands out, what happens to the paths of a copy that failed
  because the source changed, and whether the loop over the pending cycles ends.
\<close>

section \<open>Which destinations a pass drives\<close>

text \<open>A destination of the cycle that is behind and that nothing holds back.\<close>

definition eligible :: "'z pass_env \<Rightarrow> SourceGroupConfig \<Rightarrow> Cycle \<Rightarrow> db \<Rightarrow> indexed_dst \<Rightarrow> bool" where
  "eligible env src cyc db x \<longleftrightarrow>
     destination_target_cycle (src_id src, dst_id (snd x)) db = Some (cyc_id cyc) \<and>
     \<not> verified_ge (destination_last_verified (src_id src, dst_id (snd x)) db) (cyc_id cyc) \<and>
     \<not> paused (snd x) \<and>
     \<not> kind_target_active KIND_COMPARE (target_for (src_id src) (dst_id (snd x))) (env_ops env)"

definition same_targets :: "db \<Rightarrow> db \<Rightarrow> bool" where
  "same_targets db db' \<longleftrightarrow> (\<forall>k. destination_target_cycle k db' = destination_target_cycle k db)"

lemma same_targets_status [simp]: "same_targets db0 (upsert_destination_status k v st r now db) = same_targets db0 db"
  by (simp add: same_targets_def offset_simps)

text \<open>Collecting never changes which destinations are eligible.\<close>

lemma eligible_steps:
  assumes "pass_steps (src_id src) (cyc_id cyc) (\<lambda>_. False) db db'"
    and "same_targets db db'"
  shows "eligible env src cyc db' = eligible env src cyc db"
proof
  fix x :: indexed_dst
  let ?k = "(src_id src, dst_id (snd x))"
  have "verified_ge (destination_last_verified ?k db') (cyc_id cyc) =
      verified_ge (destination_last_verified ?k db) (cyc_id cyc)"
    using pass_steps_verified [OF assms(1), of ?k] by auto
  then show "eligible env src cyc db' x = eligible env src cyc db x"
    using assms(2) by (simp add: eligible_def same_targets_def)
qed

lemma collect_fold_exact:
  assumes proceed: "\<And>x t ready db. pass_steps (src_id src) (cyc_id cyc) (\<lambda>_. False) db0 db \<Longrightarrow> same_targets db0 db \<Longrightarrow>
      pass_steps (src_id src) (cyc_id cyc) (\<lambda>_. False) db0 (snd (snd (f x (t, ready, db)))) \<and>
      same_targets db0 (snd (snd (f x (t, ready, db)))) \<and>
      fst (snd (f x (t, ready, db))) = (if P x then ready @ [x] else ready)"
    and "pass_steps (src_id src) (cyc_id cyc) (\<lambda>_. False) db0 (snd (snd col))" and "same_targets db0 (snd (snd col))"
  shows "fst (snd (fold (\<lambda>x. consider_destination env src cyc x (f x)) xs col)) =
    fst (snd col) @ filter (\<lambda>x. eligible env src cyc db0 x \<and> P x) xs"
  using assms(2,3)
proof (induction xs arbitrary: col)
  case (Cons x xs)
  obtain t ready db where col: "col = (t, ready, db)" by (cases col)
  let ?S = "pass_steps (src_id src) (cyc_id cyc) (\<lambda>_. False) db0"
  let ?k = "(src_id src, dst_id (snd x))"
  have el: "eligible env src cyc db x = eligible env src cyc db0 x"
    by (rule fun_cong [OF eligible_steps]) (use Cons.prems col in simp_all)
  have p: "?S db" "same_targets db0 db" using Cons.prems col by simp_all
  have h: "?S (upsert_destination_status ?k None st r now db)" for st r now by (rule chain_noted [OF p(1)])
  let ?c = "consider_destination env src cyc x (f x) col"
  have "?S (snd (snd ?c)) \<and> same_targets db0 (snd (snd ?c)) \<and>
      fst (snd ?c) = (if eligible env src cyc db x \<and> P x then ready @ [x] else ready)"
  proof (cases "destination_target_cycle ?k db = Some (cyc_id cyc)")
    case False
    then show ?thesis using p by (simp add: consider_destination_def col eligible_def Let_def)
  next
    case tgt: True
    show ?thesis
    proof (cases "verified_ge (destination_last_verified ?k db) (cyc_id cyc)")
      case True
      have "?S (upsert_destination_status ?k (Some (cyc_id cyc)) ''green'' ''verified'' (env_now env) db)"
        by (rule chain [OF p(1) pass_step.reverified [OF True tgt]])
      then show ?thesis using p True tgt by (simp add: consider_destination_def col eligible_def Let_def)
    next
      case False
      then show ?thesis
        using p tgt h proceed [OF p, of x "t\<lparr>targeted_count := targeted_count t + 1\<rparr>" ready]
        by (auto simp: consider_destination_def col eligible_def hold_def Let_def)
    qed
  qed
  with Cons.IH [of ?c] show ?case by (simp add: el col)
qed simp

lemma collect_ready_list:
  "fst (snd (collect_ready env cfg src cyc db)) = filter (\<lambda>x. eligible env src cyc db x \<and>
     gate_verdict env cfg src cyc (snd x) = None \<and> (\<exists>u. endpoint_online env (snd x) = Inr u)) (enabled_destinations src)"
proof -
  let ?P = "\<lambda>x. gate_verdict env cfg src cyc (snd x) = None \<and> (\<exists>u. endpoint_online env (snd x) = Inr u)"
  have "pass_steps (src_id src) (cyc_id cyc) (\<lambda>_. False) db (snd (snd (local_gate env cfg src cyc x (t, ready, db')))) \<and>
      same_targets db (snd (snd (local_gate env cfg src cyc x (t, ready, db')))) \<and>
      fst (snd (local_gate env cfg src cyc x (t, ready, db'))) = (if ?P x then ready @ [x] else ready)"
    if "pass_steps (src_id src) (cyc_id cyc) (\<lambda>_. False) db db'" "same_targets db db'" for x t ready db'
    using chain_noted [OF that(1)] that
    by (auto simp: local_gate_def Let_def hold_def split: option.split gate.split sum.split)
  from collect_fold_exact [where P = ?P and f = "local_gate env cfg src cyc" and env = env and xs = "enabled_destinations src"
      and col = "(tally_start, [], db)", OF this]
  show ?thesis by (simp add: collect_ready_def same_targets_def)
qed

lemma collect_ready_transfer_list:
  "fst (snd (collect_ready_transfer env src cyc db)) = filter (eligible env src cyc db) (enabled_destinations src)"
  unfolding collect_ready_transfer_def
  by (subst collect_fold_exact [where P = "\<lambda>_. True" and ?db0.0 = db]) (simp_all add: same_targets_def)

text \<open>C11: the local pass drives exactly the enabled destinations, in the order of the configuration,
  that the cycle targets and that are behind it, are not paused and not being compared, whose
  standby gate lets them pass and whose endpoint is online; the pass with transfer drives the same
  ones without the last two conditions. What earlier destinations recorded during collecting does
  not matter.\<close>

theorem collect_ready_exact:
  "fst (snd (collect_ready env cfg src cyc db)) = filter (\<lambda>x. eligible env src cyc db x \<and>
     gate_verdict env cfg src cyc (snd x) = None \<and> (\<exists>u. endpoint_online env (snd x) = Inr u)) (enabled_destinations src) \<and>
   fst (snd (collect_ready_transfer env src cyc db)) = filter (eligible env src cyc db) (enabled_destinations src)"
  by (simp add: collect_ready_list collect_ready_transfer_list)

end
