(* ===== verification/Engine_Runs.thy ===== *)
theory Engine_Runs
  imports Prelude Calendar Config Standby Cancel Store Store_Log Store_Views Zfs Engine Engine_Pass Engine_Cycle Engine_Facts
begin

text \<open>
  A small instance of the engine, used to apply its properties to concrete inputs: this machine and
  one peer, a source here with a destination on the peer and one on this machine, and a database in
  which a cycle of the source is closed and both destinations are to be brought to it.
\<close>

definition demo_cmds :: "nat zfs_cmds" where
  "demo_cmds = \<lparr>zfs_creation = (\<lambda>_ _. None), zfs_destroy = (\<lambda>_ w. (True, w)), zfs_snapshot_cmd = (\<lambda>_ w. (True, w)),
     zfs_list_snapshots = (\<lambda>_ _. None), zfs_diff_text = (\<lambda>_ _ _. None), zfs_diff_types = (\<lambda>_ _ _. None),
     zfs_filesystem_list = None, zfs_mountpoint_of = (\<lambda>_. None)\<rparr>"

text \<open>A Saturday at 23:00.\<close>

definition demo_now :: int where "demo_now = 5 * DAY + 23 * 3600 * SECOND"

definition demo_env :: "bool \<Rightarrow> nat pass_env" where
  "demo_env is_directory = \<lparr>env_now = demo_now, env_cal = utc, env_dev = (\<lambda>_. Some 1), env_host = demo_host, env_ops = cancel_init,
     env_kind = ''incremental'', env_files = 1, env_failed = 0, env_cancelled = False, gate_text = (\<lambda>_. ''gate''),
     zfs = demo_cmds, zhost = \<lparr>real_path = Some, path_exists = (\<lambda>_. True), mount_table = None\<rparr>,
     zfs_text = (\<lambda>_. ''zfs''), source_endpoint = Inr is_directory, endpoint_online = (\<lambda>_. Inr ()),
     sync_paths = (\<lambda>_ _ _. Inr ()), sync_tree = (\<lambda>_. Inr {}), read_source = Inr (),
     read_destination = (\<lambda>_. Inr ()), sync_snapshot = (\<lambda>_. Inr ())\<rparr>"

definition demo_peer :: MachineConfig where
  "demo_peer = (MachineConfig_local demo_host)\<lparr>m_id := ''n2'', m_host := ''10.0.0.2'', m_name := ''n2''\<rparr>"

lemma demo_words:
  "clean_id ''local'' = ''local''" "clean_id ''n2'' = ''n2''" "clean_id '''' = ''''" "trim '''' = ''''" 
  "trim ''nas'' = ''nas''" "trim ''n2'' = ''n2''" "trim ''local'' = ''local''" "trim ''linux'' = ''linux''"
  "trim ''192.168.2.9'' = ''192.168.2.9''" "trim ''10.0.0.2'' = ''10.0.0.2''"
  by (simp_all add: clean_id_def str_simps is_ascii_alphanumeric_def)

lemma demo_lower:
  "eq_ignore_ascii_case ''n2'' ''local'' = False" "eq_ignore_ascii_case ''n2'' ''nas'' = False"
  "eq_ignore_ascii_case ''local'' ''n2'' = False" "eq_ignore_ascii_case ''n2'' ''n2'' = True"
  "eq_ignore_ascii_case ''192.168.2.9'' ''n2'' = False" "eq_ignore_ascii_case ''local'' ''local'' = True"
  "to_ascii_lowercase ''n2'' = ''n2''"
  by (simp_all add: str_simps)

lemma demo_clean:
  "clean_machine demo_host (MachineConfig_local demo_host) = MachineConfig_local demo_host"
  "clean_machine demo_host demo_peer = demo_peer"
  by (simp_all add: clean_machine_def MachineConfig_local_def demo_host_def demo_peer_def demo_words default_machine_port_def
    default_install_dir_for_os_def)

lemma demo_machines: "clean_machines demo_host [demo_peer] = [MachineConfig_local demo_host, demo_peer]"
proof -
  have ids: "m_id demo_peer = ''n2''" "m_id (MachineConfig_local demo_host) = ''local''"
    by (simp_all add: demo_peer_def MachineConfig_local_def)
  show ?thesis by (simp add: clean_machines_def local_machine_from_config_def ids demo_words demo_clean)
qed

definition demo_group :: SourceGroupConfig where
  "demo_group = SourceGroupConfig_default\<lparr>src_id := ''s'', src_path := ''/s'', destinations :=
     [DestinationConfig_default\<lparr>dst_id := ''a'', dst_machine := ''n2'', dst_path := ''/a'', paused := True\<rparr>,
      DestinationConfig_default\<lparr>dst_id := ''b'', dst_machine := ''local'', dst_path := ''/b''\<rparr>]\<rparr>"

definition demo_peers :: AppConfig where
  "demo_peers = (AppConfig_default demo_host)\<lparr>machines := [demo_peer], source_groups := [demo_group],
     standby_pools := [StandbyPoolConfig_default\<lparr>pool_name := ''s'', mount_roots := [''/s''], wake := demo_wake\<rparr>]\<rparr>"

definition demo_db :: db where
  "demo_db = set_destination_target (''s'', ''b'') 1 5 (set_destination_target (''s'', ''a'') 1 5
     (snd (close_current_cycle_for_source ''s'' 4 (snd (record_event 3 touched empty_db)))))"

abbreviation demo_cycle :: Cycle where
  "demo_cycle \<equiv> cycle_row 1 3 (Some 4) ''closed''"

lemma demo_places:
  "machine_is_local demo_host demo_peers ''n2'' = False" "machine_is_local demo_host demo_peers ''local'' = True"
  "find_machine demo_host demo_peers ''local'' = Some (MachineConfig_local demo_host)"
proof -
  have m: "normalized_machines demo_host demo_peers = [MachineConfig_local demo_host, demo_peer]"
    by (simp add: demo_peers_def demo_machines normalized_machines_def)
  have f: "m_id demo_peer = ''n2''" "m_id (MachineConfig_local demo_host) = ''local''"
    "alias_name demo_peer = []" "alias_name (MachineConfig_local demo_host) = []"
    "m_host (MachineConfig_local demo_host) = ''192.168.2.9''" "local_hostname demo_host = ''nas''"
    by (simp_all add: demo_peer_def MachineConfig_local_def demo_host_def)
  show "machine_is_local demo_host demo_peers ''n2'' = False" "machine_is_local demo_host demo_peers ''local'' = True"
    "find_machine demo_host demo_peers ''local'' = Some (MachineConfig_local demo_host)"
    by (simp_all add: machine_is_local_def m f machine_matches_reference_def machine_id_or_local_def demo_words demo_lower
        find_machine_def resolve_machine_def machine_id_from_path_def Let_def)
qed

lemma demo_db_facts:
  "cycles demo_db = [demo_cycle, cycle_row 2 4 None ''open'']"
  "destination_target_cycle (''s'', ''a'') demo_db = Some 1" "destination_target_cycle (''s'', ''b'') demo_db = Some 1"
  "destination_last_verified (''s'', ''b'') demo_db = None" "offsets demo_db \<noteq> []"
proof -
  define d1 where "d1 = snd (record_event 3 touched empty_db)"
  define d2 where "d2 = snd (close_current_cycle_for_source ''s'' 4 d1)"
  have d1: "cycles d1 = [cycle_row 1 3 None ''open'']" "cycle_seq d1 = 1" "offsets d1 = []"
    by (simp_all add: d1_def store_eval empty_db_def)
  have d2: "cycles d2 = [demo_cycle, cycle_row 2 4 None ''open'']" "offsets d2 = []"
    by (simp_all add: d2_def d1 store_eval)
  note eval = set_destination_target_def mark_local_change_def target_lookup lookup_upsert_offset new_offset_def
    upsert_offset_def destination_last_verified_def clear_destination_issues_def tbl_simps
  show "cycles demo_db = [demo_cycle, cycle_row 2 4 None ''open'']"
    "destination_target_cycle (''s'', ''a'') demo_db = Some 1" "destination_target_cycle (''s'', ''b'') demo_db = Some 1"
    "destination_last_verified (''s'', ''b'') demo_db = None" "offsets demo_db \<noteq> []"
    by (simp_all add: demo_db_def d1_def [symmetric] d2_def [symmetric] d2 eval)
qed

section \<open>A loop that does not end\<close>

lemma targeted_source: "destination_target_cycle (s, d) db = Some t \<Longrightarrow> source_has_target_cycle s t db"
  by (auto simp: target_lookup source_has_target_cycle_def list_ex_iff dest!: map_of_SomeD split: option.splits)

abbreviation stuck :: "db \<Rightarrow> bool" where
  "stuck db \<equiv> cycles db = [demo_cycle, cycle_row 2 4 None ''open''] \<and>
     destination_target_cycle (''s'', ''a'') db = Some 1 \<and> destination_target_cycle (''s'', ''b'') db = Some 1"

lemma demo_destinations:
  "enabled_destinations demo_group =
     [(0, DestinationConfig_default\<lparr>dst_id := ''a'', dst_machine := ''n2'', dst_path := ''/a'', paused := True\<rparr>),
      (1, DestinationConfig_default\<lparr>dst_id := ''b'', dst_machine := ''local'', dst_path := ''/b''\<rparr>)]"
  by (simp add: enabled_destinations_def demo_group_def DestinationConfig_default_def)

lemma demo_ids: "src_id demo_group = ''s''" "src_machine demo_group = ''local''" "src_enabled demo_group"
  by (simp_all add: demo_group_def SourceGroupConfig_default_def)

lemma demo_remote: "destination_target_cycle (''s'', ''a'') db = Some 1 \<Longrightarrow>
  cycle_has_remote_target demo_host demo_peers demo_group demo_cycle db"
  by (simp add: cycle_has_remote_target_def demo_group_def SourceGroupConfig_default_def DestinationConfig_default_def demo_places)

lemma cycles_mark_verified [simp]: "cycles (mark_verified k c now db) = cycles db"
  by (simp add: mark_verified_def clear_destination_issues_def)

lemma target_mark_verified [simp]:
  "destination_target_cycle j (mark_verified k c now db) = destination_target_cycle j db"
  by (simp add: mark_verified_def offset_simps)

lemma demo_file_pass:
  assumes "stuck db"
  obtains db' where "sync_cycle_for_source_inner (demo_env False) demo_peers demo_group demo_cycle (db, w) =
    (Inr \<lparr>out_progressed = True, out_blocked = True\<rparr>, db', w)" "stuck db'"
proof -
  let ?db1 = "mark_cycle_status 1 ''syncing'' db"
  let ?db2 = "mark_verified (''s'', ''b'') 1 demo_now (upsert_destination_status (''s'', ''a'') None ''yellow'' ''paused'' demo_now ?db1)"
  let ?db' = "mark_cycle_status 1 ''closed'' ?db2"
  have t: "destination_target_cycle (''s'', ''a'') ?db1 = Some 1"
    "destination_target_cycle (''s'', ''b'') (upsert_destination_status (''s'', ''a'') None ''yellow'' ''paused'' demo_now ?db1) = Some 1"
    using assms by (simp_all add: offset_simps)
  have "sync_cycle_for_source_inner (demo_env False) demo_peers demo_group demo_cycle (db, w) =
      (Inr \<lparr>out_progressed = True, out_blocked = True\<rparr>, ?db', w)"
    using assms demo_remote [of db] t
    by (simp add: sync_cycle_for_source_inner_def sync_cycle_with_transfer_def sync_cycle_file_with_transfer_def
        demo_env_def demo_ids machine_id_or_local_def demo_words demo_places demo_destinations
        transfer_file_destination_def destination_machine_def DestinationConfig_default_def tally_start_def blocked_def
        conclude_def conclusion_def Let_def)
  moreover have "cycles ?db' = [demo_cycle, cycle_row 2 4 None ''open'']" using assms
    by (simp add: mark_cycle_status_def update_cycles_def)
  moreover have "destination_target_cycle (''s'', ''a'') ?db' = Some 1" "destination_target_cycle (''s'', ''b'') ?db' = Some 1"
    using assms by (simp_all add: offset_simps)
  ultimately show ?thesis by (intro that) simp_all
qed

lemma demo_round:
  assumes "stuck db"
  obtains db' where "drive_sources (\<lambda>_ _. demo_env False) demo_peers (local_sources demo_peers) (False, False) (db, w) =
    (Inr (True, True), db', w)" "stuck db'"
proof -
  let ?ids = "join_with '','' (map dst_id (filter dst_enabled (destinations demo_group)))"
  have cl: "closed_cycles_for_source ''s'' db = [demo_cycle]"
    using assms by (simp add: closed_cycles_for_source_def)
  obtain i db1 where ts: "task_start (task_log_kind ''incremental'' db demo_group demo_cycle) ''s'' ?ids demo_now db = (i, db1)" 
    by fastforce
  have same: "cycles db1 = cycles db" "offsets db1 = offsets db"
    using ts by (auto simp: task_start_def Let_def)
  have "stuck db1" using assms same by (simp add: target_lookup)
  then obtain db2 where p: "sync_cycle_for_source_inner (demo_env False) demo_peers demo_group demo_cycle (db1, w) =
    (Inr \<lparr>out_progressed = True, out_blocked = True\<rparr>, db2, w)" "stuck db2" by (rule demo_file_pass)
  let ?r = "Inr \<lparr>out_progressed = True, out_blocked = True\<rparr> :: err_chain + SyncCycleOutcome"
  let ?db3 = "close_task i ?r demo_group 1 1 0 demo_now db2"
  have s: "sync_cycle_for_source (demo_env False) demo_peers demo_group demo_cycle (db, w) = (?r, ?db3, w)"
    using ts p(1) by (simp add: sync_cycle_for_source_def demo_ids demo_env_def Let_def)
  have "cycles ?db3 = cycles db2" 
    by (auto simp: close_task_def task_finish_def update_tasks_def task_discard_def split: option.split)
  then have "stuck ?db3" using p(2) by (simp add: target_lookup close_task_offsets)
  then have "stuck (prune_verified_cycle_events demo_group ?db3)"
    by (simp add: target_lookup prune_offsets)
      (simp add: prune_verified_cycle_events_def prune_event_log_eq split: option.split)
  moreover have "drive_sources (\<lambda>_ _. demo_env False) demo_peers (local_sources demo_peers) (False, False) (db, w) =
    (Inr (True, True), prune_verified_cycle_events demo_group ?db3, w)"
  proof -
    have "local_sources demo_peers = [demo_group]"
      by (simp add: local_sources_def demo_peers_def demo_ids machine_id_or_local_def demo_words)
    moreover have "source_has_target_cycle ''s'' 1 db" using assms targeted_source by blast
    moreover have "env_cancelled (demo_env False) = False" by (simp add: demo_env_def)
    ultimately show ?thesis using s by (simp add: drive_source_def demo_ids cl)
  qed
  ultimately show ?thesis by (rule that [rotated])
qed

lemma demo_reachable: "store_reachable utc demo_db"
proof -
  have "store_reachable utc (snd (close_current_cycle_for_source ''s'' 4 (snd (record_event 3 touched empty_db))))"
    by (intro store_reachable.step [OF store_reachable.step [OF store_reachable.start log_step.event] log_step.close])
  moreover have "settled (''s'', d) (Some 1) (snd (close_current_cycle_for_source ''s'' 4 (snd (record_event 3 touched empty_db))))" for d
    by (simp add: settled_def store_eval)
  moreover have "cycles (set_destination_target k t now db) = cycles db" for k t now db
    by (simp add: set_destination_target_def mark_local_change_def upsert_offset_def clear_destination_issues_def Let_def)
  ultimately show ?thesis unfolding demo_db_def
    by (intro store_reachable.step [OF store_reachable.step [OF _ log_step.target] log_step.target])
      (simp_all add: settled_def)
qed

text \<open>C38: the loop over the pending cycles need not end. A source that is a single file, with a
  destination on another machine, is driven by a pass that does not ask whether a destination is
  already verified: it copies the file again and reports progress, so with a second destination that
  is paused the round is both progressed and blocked, and the loop starts over for ever.\<close>

theorem paused_file_destination_loops:
  "store_reachable utc demo_db \<and> (\<forall>fuel n w. drive_loop fuel (\<lambda>_ _ _. demo_env False) demo_peers n (demo_db, w) = None)"
proof -
  have "drive_loop fuel (\<lambda>_ _ _. demo_env False) demo_peers n (db, w) = None" if "stuck db" for fuel n db w
    using that
  proof (induction fuel arbitrary: n db)
    case (Suc fuel)
    obtain db' where "drive_sources (\<lambda>_ _. demo_env False) demo_peers (local_sources demo_peers) (False, False) (db, w) =
      (Inr (True, True), db', w)" "stuck db'" by (rule demo_round [OF Suc.prems])
    then show ?case using Suc.IH by simp
  qed simp
  then show ?thesis using demo_db_facts demo_reachable by simp
qed

section \<open>When a destination counts as verified\<close>

text \<open>C8: a pass over a cycle changes a destination's verified cycle only for a destination of its
  own source, only to its own cycle, and only when the destination, enabled and not paused, was
  copied to without an error other than files changing under the copy, or had verified the cycle
  already. It targets nothing: a destination's target is kept or withdrawn.\<close>

theorem verified_only_if_earned:
  "(destination_last_verified k (fst (snd (sync_cycle_for_source env cfg src cyc st))) = destination_last_verified k (fst st) \<or>
     fst k = src_id src \<and>
     destination_last_verified k (fst (snd (sync_cycle_for_source env cfg src cyc st))) = Some (cyc_id cyc) \<and>
     (earned_in env src (snd k) \<or> verified_ge (destination_last_verified k (fst st)) (cyc_id cyc))) \<and>
   destination_target_cycle k (fst (snd (sync_cycle_for_source env cfg src cyc st)))
     \<in> {destination_target_cycle k (fst st), None}"
  using pass_steps_verified [OF sync_cycle_for_source_steps [of src cyc env st cfg], of k]
    pass_steps_target [OF sync_cycle_for_source_steps [of src cyc env st cfg], of k]
  by blast

section \<open>The engine and the store\<close>



text \<open>C9: where no file is transferred the run ends. A round that made progress brought at least one
  destination to its target and none is set back, so there are at most as many rounds as
  destinations are behind, and one more.\<close>

theorem pending_loop_returns:
  assumes "\<And>n src c db. src \<in> set (local_sources cfg) \<Longrightarrow> \<not> transfers_file (env n (src_id src) c) cfg src c db"
    and "fuel > card (pending (snd (prune_removed_destination_offsets cfg (ensure_config cfg now db))))"
  shows "\<exists>r s. sync_all_pending_inner fuel env z cfg now (db, w) = Some (r, s)"
proof -
  obtain o1 db1 where p: "prune_removed_destination_offsets cfg (ensure_config cfg now db) = (o1, db1)" by fastforce
  have "drive_loop fuel env cfg 0 (db1, destroy_all z o1 w) \<noteq> None"
    by (rule drive_loop_returns [OF assms(1)]) (use assms(2) p in simp_all)
  then show ?thesis using p by (auto simp: sync_all_pending_inner_def)
qed

lemma pending_loop_returns_witness:
  "\<exists>r s. sync_all_pending_inner (Suc (card (pending (snd (prune_removed_destination_offsets demo_peers
     (ensure_config demo_peers 9 demo_db)))))) (\<lambda>_ _ _. demo_env True) demo_cmds demo_peers 9 (demo_db, 0) = Some (r, s)"
  by (rule pending_loop_returns) (simp_all add: transfers_file_def demo_env_def)

section \<open>The standby gate\<close>

lemma demo_window_closed: "is_within_wake_window utc demo_now demo_wake = Inr False"
proof -
  have "demo_now \<ge> 5 * DAY + 36000 * SECOND" "\<not> demo_now < 5 * DAY + 36000 * SECOND + wake_window demo_wake"
    by (simp_all add: demo_now_def wake_window_def demo_wake_def WakeSchedule_default_def SECOND_def MINUTE_def)
  then have "window_scan utc 0 5 (int (wake_every demo_wake)) 36000 demo_now (wake_window demo_wake) 5 (Suc n) = Inr False" for n
    using demo_opens(1) utc_ten [of 5] by simp
  from this [of "wake_every demo_wake * 7 + 7"]
  have "window_scan utc 0 5 (int (wake_every demo_wake)) 36000 demo_now (wake_window demo_wake) 5 (wake_every demo_wake * 7 + 8) = Inr False"
    by (simp only: add_Suc_right [symmetric]) simp
  moreover have "local_date utc demo_now = 5" by (simp add: utc_def demo_now_def DAY_def SECOND_def)
  ultimately show ?thesis by (simp add: is_within_wake_window_def parse_demo_wake)
qed

lemma demo_unmounted:
  "is_mount_point (\<lambda>_. Some 1) ''/s'' = Inr False"
  by (simp add: is_mount_point_def path_parent_def str_simps)

lemma demo_asleep:
  "\<exists>n. gate_for_sync utc (\<lambda>_. Some 1) (standby_pools demo_peers) ''/s'' ''/b'' demo_now = Inr (Some (Asleep ''s'' n))"
proof -
  let ?p = "StandbyPoolConfig_default\<lparr>pool_name := ''s'', mount_roots := [''/s''], wake := demo_wake\<rparr>"
  have "pool_covers_path ?p ''/s''" "\<not> pool_covers_path ?p ''/b''"
    by (simp_all add: pool_covers_path_def path_under_def path_starts_with_def str_simps StandbyPoolConfig_default_def)
  then show ?thesis
    by (simp add: gate_for_sync_def demo_peers_def gates_pool_def StandbyPoolConfig_default_def demo_window_closed)
qed

text \<open>A source whose pool is not mounted is driven all the same in two cases. The destination
  \<open>b\<close> is on no pool and the source's pool is asleep and its root is a bare directory. The local pass of a
  scheduled cycle holds it; the pass of a manual cycle drives it, because the gate answers that the pool
  is asleep, which a manual cycle overrides, and the mount is then not looked at; and the pass with
  transfer, which runs as soon as one destination of the cycle is on another machine, asks no gate.\<close>

theorem unmounted_source_is_driven:
  "is_mount_point (env_dev (demo_env True)) (src_path demo_group) = Inr False \<and>
   map fst (fst (snd (collect_ready (demo_env True) demo_peers demo_group demo_cycle demo_db))) = [] \<and>
   map fst (fst (snd (collect_ready (demo_env True) demo_peers demo_group (demo_cycle\<lparr>manual_full_rescan := True\<rparr>) demo_db))) = [1] \<and>
   cycle_has_remote_target demo_host demo_peers demo_group demo_cycle demo_db \<and>
   map fst (fst (snd (collect_ready_transfer (demo_env True) demo_group demo_cycle demo_db))) = [1]"
proof -
  let ?b = "DestinationConfig_default\<lparr>dst_id := ''b'', dst_machine := ''local'', dst_path := ''/b''\<rparr>"
  have f: "src_path demo_group = ''/s''" "env_dev (demo_env True) = (\<lambda>_. Some 1)" "env_cal (demo_env True) = utc"
    "env_now (demo_env True) = demo_now" "standby_pools demo_peers \<noteq> []" "dst_path ?b = ''/b''"
    by (simp_all add: demo_group_def demo_env_def demo_peers_def)
  have e: "eligible (demo_env True) demo_group c demo_db (1, ?b)" if "cyc_id c = 1" for c
    using that demo_db_facts
    by (simp add: eligible_def demo_ids DestinationConfig_default_def verified_ge_def kind_target_active_def demo_env_def
        cancel_init_def)
  have p: "\<not> eligible (demo_env True) demo_group c demo_db (0, a)" if "paused a" for c a
    using that by (simp add: eligible_def)
  have g: "gate_verdict (demo_env True) demo_peers demo_group c ?b = None \<longleftrightarrow> manual_full_rescan c \<or> manual_changed_since_rescan c" for c
    using demo_asleep by (auto simp: gate_verdict_def f standby_gate_blocks_sync_def split: if_splits)
  have o: "endpoint_online (demo_env True) d = Inr ()" for d by (simp add: demo_env_def)
  show ?thesis
    using demo_unmounted demo_remote [OF demo_db_facts(2)] e p
    by (simp add: collect_ready_list collect_ready_transfer_list demo_destinations f g o)
qed

end
