(* ===== verification/Engine_Events.thy ===== *)
theory Engine_Events
  imports Prelude Paths Config Store Store_Log Store_Views Zfs Engine Engine_Pass Engine_Cycle Engine_Facts Engine_Runs
begin

text \<open>
  How the engine reads and writes the event log: the plan of an incremental pass, the paths that a
  failed copy defers, and the repair queued from a compare report. The lemmas about recording rest
  on the interpretation \<open>store_log\<close> of the interface of the log.
\<close>

section \<open>Recording paths\<close>

lemma record_event_some: "db_ok db \<Longrightarrow> \<exists>i. fst (record_event now e db) = Some i"
  by (erule ensure_open_cycle_open [where s = "we_source e" and now = now]) (simp add: record_event_def Let_def)

lemma record_paths_puts:
  assumes "db_ok db"
  shows "record_paths now s kind ps db = (Inr (), fold put_event (map (\<lambda>p. (now, path_event s kind p)) ps) db)"
  using assms
proof (induction ps arbitrary: db)
  case (Cons p ps)
  obtain i db1 where r: "record_event now (path_event s kind p) db = (Some i, db1)"
    using record_event_some [OF Cons.prems, of now "path_event s kind p"] by (metis fst_conv prod.exhaust)
  have "db_ok db1" using record_event_ok [OF Cons.prems, of now "path_event s kind p"] r by simp
  from Cons.IH [OF this] r show ?case by (simp add: put_event_def)
qed simp

lemma path_event_source [simp]: "we_source (path_event s kind p) = s"
  by (simp add: path_event_def)

lemma recorded_paths:
  assumes "db_ok db" and "p \<in> set ps" and "offset_below db (s, []) (Some v)"
  obtains c where "current_open_cycle_id s (snd (record_paths now s kind ps db)) = Some c"
    "\<exists>x\<in>set (events_between_cycles s v c (snd (record_paths now s kind ps db))). event_path x = Some p"
proof -
  let ?es = "map (\<lambda>p. (now, path_event s kind p)) ps"
  have m: "(now, path_event s kind p) \<in> set ?es" using assms(2) by simp
  have "\<exists>c. current_open_cycle_id s (fold put_event ?es db) = Some c \<and>
      (\<exists>r\<in>set (events_between_cycles s v c (fold put_event ?es db)). reads_event (now, path_event s kind p) r)"
    using store_log.puts_read [OF assms(1) m, of v] assms(3) by simp
  then show ?thesis
    using that by (auto simp: record_paths_puts [OF assms(1)] reads_event_def path_event_def)
qed

section \<open>Deferred paths\<close>

lemma current_open_others:
  "current_open_cycle_id s (replace_destination_issues k c kind ps m now db) = current_open_cycle_id s db"
  "current_open_cycle_id s (upsert_destination_status k v st r now db) = current_open_cycle_id s db"
  by (simp_all add: current_open_cycle_id_def newest_def replace_destination_issues_def Let_def)

lemma events_replace_issues [simp]:
  "events (replace_destination_issues k c kind ps m now db) = events db"
  by (simp add: replace_destination_issues_def Let_def)


section \<open>The plan\<close>

text \<open>The wire name of an event's path.\<close>

definition event_name :: "CycleEvent \<Rightarrow> string \<Rightarrow> bool" where
  "event_name x r \<longleftrightarrow> (case event_path x of None \<Rightarrow> False | Some p \<Rightarrow>
     (case normalize_rel_path p of Inl e \<Rightarrow> False | Inr rel \<Rightarrow> rel_to_string rel = Inr r))"

lemma collect_event_paths_Some:
  "collect_event_paths c es acc = Inr (Some ps) \<Longrightarrow> \<exists>rs. ps = acc @ rs \<and> list_all2 event_name es rs"
proof (induction c es acc rule: collect_event_paths.induct)
  case (2 c e es acc)
  then obtain p rel r where p: "event_path e = Some p" "normalize_rel_path p = Inr rel" "rel_to_string rel = Inr r"
    "collect_event_paths c es (acc @ [r]) = Inr (Some ps)"
    by (auto split: option.splits sum.splits)
  from 2(1) [OF p(1-4)] obtain rs where "ps = (acc @ [r]) @ rs" "list_all2 event_name es rs" by blast
  moreover have "event_name e r" using p by (simp add: event_name_def)
  ultimately show ?case by (intro exI [of _ "r # rs"]) simp
qed simp

lemma list_all2_range: "list_all2 P xs ys \<Longrightarrow> (\<And>x y z. P x y \<Longrightarrow> P x z \<Longrightarrow> y = z) \<Longrightarrow> set ys = {y. \<exists>x\<in>set xs. P x y}"
proof (induction xs ys rule: list_all2_induct)
  case (Cons x xs y ys)
  then show ?case by auto
qed simp

lemma event_name_unique: "event_name x y \<Longrightarrow> event_name x z \<Longrightarrow> y = z"
  by (auto simp: event_name_def split: option.splits sum.splits)

text \<open>What a plan hands to one destination.\<close>

definition planned_for :: "db \<Rightarrow> string \<Rightarrow> nat \<Rightarrow> indexed_dst \<Rightarrow> nat \<times> string list \<Rightarrow> bool" where
  "planned_for db s c x plan \<longleftrightarrow> fst plan = fst x \<and> sorted (snd plan) \<and> distinct (snd plan) \<and>
     (\<exists>v. destination_last_verified (s, dst_id (snd x)) db = Some v \<and>
        list_all (\<lambda>e. \<not> rescan_required e) (events_between_cycles s v c db) \<and>
        set (snd plan) = {r. \<exists>e\<in>set (events_between_cycles s v c db). event_name e r})"

lemma plan_destinations_Some:
  "plan_destinations db s c xs plans = Inr (Some (ApplyPaths out)) \<Longrightarrow>
     \<exists>new. out = plans @ new \<and> list_all2 (planned_for db s c) xs new"
proof (induction xs arbitrary: plans)
  case (Cons x xs)
  obtain i d where x: "x = (i, d)" by (rule prod.exhaust)
  from Cons.prems obtain v where v: "destination_last_verified (s, dst_id d) db = Some v"
    by (auto simp: x split: option.splits)
  let ?all = "events_between_cycles s v c db"
  let ?es = "filter actionable ?all"
  from Cons.prems have nr: "\<not> list_ex rescan_required ?es" by (auto simp: x v Let_def split: if_splits)
  with Cons.prems obtain ps where ps: "collect_event_paths c ?es [] = Inr (Some ps)"
    "plan_destinations db s c xs (plans @ [(i, sort (remdups ps))]) = Inr (Some (ApplyPaths out))"
    by (auto simp: x v Let_def split: sum.splits option.splits)
  from collect_event_paths_Some [OF ps(1)] have la: "list_all2 event_name ?es ps" by auto
  from Cons.IH [OF ps(2)] obtain new where new: "out = (plans @ [(i, sort (remdups ps))]) @ new"
    "list_all2 (planned_for db s c) xs new" by blast
  have "set ps = {r. \<exists>e\<in>set ?es. event_name e r}" by (rule list_all2_range [OF la event_name_unique])
  also have "\<dots> = {r. \<exists>e\<in>set ?all. event_name e r}"
    by (auto simp: actionable_def event_name_def split: option.splits)
  finally have "set ps = {r. \<exists>e\<in>set ?all. event_name e r}" .
  moreover have "list_all (\<lambda>e. \<not> rescan_required e) ?all"
    using nr by (auto simp: list_ex_iff list_all_iff actionable_def)
  ultimately have "planned_for db s c x (i, sort (remdups ps))" by (auto simp: planned_for_def x v)
  with new show ?case by (intro exI [of _ "(i, sort (remdups ps)) # new"]) simp
qed simp

text \<open>An incremental plan hands every ready destination exactly the paths of its backlog: the wire
  names of the paths of all events between its verified cycle and the cycle of the pass, once
  each and sorted, and there is a plan only when none of these events asks for a rescan and the
  cycle itself does not.\<close>

theorem plan_exact:
  assumes "event_incremental_plan db src cyc ready = Inr (Some (ApplyPaths plans))"
  shows "list_all2 (planned_for db (src_id src) (cyc_id cyc)) ready plans \<and> ready \<noteq> [] \<and>
    \<not> needs_full_rescan cyc \<and> \<not> manual_full_rescan cyc"
  using assms plan_destinations_Some [of db "src_id src" "cyc_id cyc" ready "[]" plans]
  by (auto simp: event_incremental_plan_def split: if_splits)

section \<open>Repairs\<close>

lemma open_id_prepare:
  assumes "db_ok db" and "open_id s i db"
  shows "open_id s i (ensure_open_cycles cfg now (ensure_config cfg now db))"
proof -
  have m: "set (cycles db) \<subseteq> set (cycles (snd (ensure_open_cycle x now db)))" for x db
    by (auto simp: ensure_open_cycle_def Let_def split: option.split)
  have f: "set (cycles db) \<subseteq> set (cycles (fold (\<lambda>s db. snd (ensure_open_cycle (src_id s) now db)) ss db))" for ss db
    by (induction ss arbitrary: db) (use m in \<open>force+\<close>)
  have "cycles (upsert_config_source now s db) = cycles db" for s db
    unfolding upsert_config_source_def Let_def
    by (subst fold_same) (simp_all add: ensure_destination_offset_def upsert_offset_def Let_def)
  then have "cycles (fold (upsert_config_source now) ss db) = cycles db" for ss db by (rule fold_same)
  then have "cycles (ensure_config cfg now db) = cycles db" by (simp add: ensure_config_def Let_def)
  with f [of "ensure_config cfg now db"] show ?thesis
    unfolding ensure_open_cycles_def by (intro open_id_mono [OF assms(2)]) simp
qed

lemma fold_keeps: "P db \<Longrightarrow> (\<And>x db. P db \<Longrightarrow> P (f x db)) \<Longrightarrow> P (fold f xs db)"
  by (induction xs arbitrary: db) simp_all

lemma row_prepare:
  assumes "map_of (offsets db) k = Some r"
  shows "map_of (offsets (ensure_open_cycles cfg now (ensure_config cfg now db))) k = Some r"
proof -
  let ?P = "\<lambda>db. map_of (offsets db) k = Some r"
  have e: "?P (ensure_destination_offset j now db)" if "?P db" for j db
    using that by (cases "k = j") (simp_all add: ensure_destination_offset_def lookup_upsert_offset)
  have u: "?P (upsert_config_source now s db)" if "?P db" for s db
    unfolding upsert_config_source_def Let_def by (rule fold_keeps) (use that e in simp_all)
  have "?P (fold (upsert_config_source now) ss db)" if "?P db" for ss db by (rule fold_keeps [of ?P, OF that u])
  then have c: "?P (ensure_config cfg now db)" using assms by (simp add: ensure_config_def Let_def)
  have "offsets (snd (ensure_open_cycle x now db)) = offsets db" for x db
    by (simp add: ensure_open_cycle_def Let_def split: option.split)
  then show ?thesis unfolding ensure_open_cycles_def by (intro fold_keeps [of ?P, OF c]) simp
qed

lemma offsets_fold_put: "offsets (fold put_event es db) = offsets db"
  by (induction es arbitrary: db) (simp_all add: put_event_def)

lemma target_lookup_set:
  "destination_target_cycle k (set_destination_target k t now db) = Some t"
  "destination_last_verified j (set_destination_target k t now db) = destination_last_verified j db"
  by (auto simp: set_destination_target_def mark_local_change_def target_lookup destination_last_verified_def
      lookup_upsert_offset new_offset_def clear_destination_issues_def split: option.split)

text \<open>C12: a repair queued from a complete compare report reaches everything the report lists. It sets
  the destination a target, and the path of every difference is in the backlog between the
  destination's verified cycle and that target, so the pass that follows hands it out.\<close>

theorem repair_reaches_report:
  assumes "store_reachable cal db" and "\<not> request_paused cfg s d"
    and "get_scan_report (s, d) db = Some rep" and "rep_error rep = ''''" and "report_total rep > 0"
    and "sample_is_complete rep" and "enabled_source cfg s = Some src"
    and "\<exists>x\<in>set (destinations src). dst_id x = d \<and> dst_enabled x"
    and "destination_last_verified (s, d) db = Some v" and "p \<in> set (map diff_path (differences rep))"
    and "queue_destination_sync cfg s d RepairScan now db = (r, db')"
  shows "r = Inr () \<and> destination_last_verified (s, d) db' = Some v \<and>
    (\<exists>t. destination_target_cycle (s, d) db' = Some t \<and>
       (\<exists>x\<in>set (events_between_cycles s v t db'). event_path x = Some p))"
proof -
  have ok: "db_ok db" using reachable_ok [OF assms(1)] by simp
  let ?ps = "map diff_path (differences rep)"
  obtain row where row: "map_of (offsets db) (s, d) = Some row" "last_verified row = Some v"
    using assms(9) by (auto simp: destination_last_verified_def split: option.splits)
  have "offset_below db (s, []) (Some v)"
    using ok row unfolding db_ok_def offsets_ok_def offset_below_def by (metis fst_conv)
  define db1 where "db1 = snd (record_paths now s ''scan_repair'' ?ps db)"
  obtain c where c: "current_open_cycle_id s db1 = Some c"
    "\<exists>x\<in>set (events_between_cycles s v c db1). event_path x = Some p"
    using recorded_paths [OF ok assms(10) \<open>offset_below db (s, []) (Some v)\<close>, of now "''scan_repair''"] db1_def by blast
  have r1: "record_paths now s ''scan_repair'' ?ps db = (Inr (), db1)" by (simp add: db1_def record_paths_puts [OF ok])
  have ok1: "db_ok db1" and o1: "offsets db1 = offsets db"
    unfolding db1_def record_paths_puts [OF ok] by (simp_all add: store_log.puts_good ok offsets_fold_put)
  define db2 where "db2 = ensure_open_cycles cfg now (ensure_config cfg now db1)"
  have ok2: "db_ok db2" unfolding db2_def by (rule prepared_ok [OF ok1])
  have c2: "current_open_cycle_id s db2 = Some c"
    using c(1) open_id_prepare [OF ok1] open_id_current [OF ok1] open_id_current [OF ok2] db2_def by metis
  obtain cc db3 where cl: "close_current_cycle_for_source s now db2 = (Some cc, db3)" "cyc_id cc = c"
    using store_log.cut_current [OF ok2 c2, of now]
    by (cases "close_current_cycle_for_source s now db2") (auto simp: cut_cycle_def)
  have o3: "offsets db3 = offsets db2"
    using cl(1) by (auto simp: close_current_cycle_for_source_def Let_def ensure_open_cycle_def update_cycles_def
        mark_local_change_def split: option.splits)
  have e3: "events db3 = events db1"
    using events_close [of s now db2] events_prepare [where cfg = cfg and now = now] cl(1) db2_def by (metis snd_conv)
  let ?db4 = "set_destination_target (s, d) c now db3"
  have force: "force_target_destination cfg s d now db1 = (Some cc, ?db4)"
    using assms(7,8) cl by (auto simp: force_target_destination_def db2_def [symmetric] list_ex_iff Let_def)
  have q: "r = Inr ()" "db' = delete_scan_report (s, d) (mark_cycle_manual_incremental c ?db4)"
    using assms(2-6,11) force cl(2)
    by (simp_all add: queue_destination_sync_def queue_scan_repair_def target_and_mark_def r1)
  have same: "offsets db' = offsets ?db4" "events db' = events db1"
    by (simp_all add: q e3 delete_scan_report_def mark_cycle_manual_incremental_def update_cycles_def)
  have "map_of (offsets db3) (s, d) = Some row"
    unfolding o3 db2_def by (rule row_prepare) (simp add: o1 row)
  then have "destination_last_verified (s, d) db3 = Some v" by (simp add: destination_last_verified_def row)
  with same_offsets [OF same(1), of "(s, d)"] c(2) q(1) same(2) show ?thesis
    by (simp add: target_lookup_set events_between_cycles_def)
qed

section \<open>Concrete inputs\<close>

lemma str_lines_one:
  assumes "list_all (\<lambda>c. c \<noteq> CHR 0x0A \<and> c \<noteq> CHR 0x0D) s" and "s \<noteq> []"
  shows "str_lines s = [s]"
proof -
  have "split_on (\<lambda>c. c = CHR 0x0A) s = [s]" using assms(1) by (induction s) auto
  moreover have "last s \<noteq> CHR 0x0D" using assms by (auto simp: list_all_iff)
  ultimately show ?thesis using assms(2) by (simp add: str_lines_def strip_cr_def)
qed

lemma demo_changed:
  assumes "text \<in> {''source changed while copying x'', ''source changed while copying x ''}"
  shows "source_changed_paths [text] = [''x'']" and "error_is_cancelled [text] = False"
proof -
  have "str_lines text = [text]" using assms by (intro str_lines_one) auto
  moreover have "changed_path_of text ''source changed while copying '' = Some ''x''"
    "changed_path_of text ''source symlink changed while copying '' = None"
    using assms by (auto simp: changed_path_of_def str_simps starts_with_def)
  ultimately show "source_changed_paths [text] = [''x'']"
    by (simp add: source_changed_paths_def changed_prefixes_def List.map_filter_simps)
  show "error_is_cancelled [text] = False"
    using assms by (auto simp: error_is_cancelled_def CANCELLED_MESSAGE_def str_contains_def starts_with_def)
qed

lemma demo_settled: "settled (''s'', ''b'') (Some 1) demo_db"
  by (simp add: settled_def demo_db_facts is_open_def)


text \<open>The deferral reads the paths back from the texts of the error and trims them. A file whose
  name ends in a space is deferred under another name: the destination counts as verified, and no
  event of the file itself is left.\<close>

theorem deferral_trims_names:
  "destination_last_verified (''s'', ''b'') (snd (record_destination_failure (''s'', ''b'') 1
     (source_changing_error [''x '']) 9 demo_db)) = Some 1 \<and>
   Some ''x '' \<notin> ev_path ` set (events (snd (record_destination_failure (''s'', ''b'') 1
     (source_changing_error [''x '']) 9 demo_db)))"
proof -
  have e: "source_changing_error [''x ''] = [''source changed while copying x '']"
    by (simp add: source_changing_error_def)
  have ok: "db_ok demo_db" using reachable_ok [OF demo_reachable] by simp
  have ev: "events demo_db = [touch_row 1 1 3]"
    by (simp add: demo_db_def) (simp add: store_eval empty_db_def)
  obtain i where "events (snd (record_event 9 (path_event ''s'' ''source_changing_deferred'' ''x'') demo_db)) =
      events demo_db @ [\<lparr>ev_id = event_seq demo_db + 1,
       ev_source = ''s'', ev_cycle = i, observed_at = 9, raw_mask = 0, ev_kind = ''source_changing_deferred'',
       ev_path = Some ''x'', ev_rescan = False\<rparr>]"
    by (rule record_event_log [OF ok, of "path_event ''s'' ''source_changing_deferred'' ''x''" 9])
      (simp add: path_event_def)
  then show ?thesis
    by (simp add: e record_destination_failure_def demo_changed record_paths_puts [OF ok] put_event_def offset_simps ev Let_def)
qed

definition demo_behind :: db where
  "demo_behind = upsert_destination_status (''s'', ''b'') (Some 0) ''green'' ''verified'' 6 demo_db"

lemma demo_events: "events demo_db = [touch_row 1 1 3]"
  by (simp add: demo_db_def) (simp add: store_eval empty_db_def)

lemma demo_rel: "normalize_rel_path ''a'' = Inr ''a''" "rel_to_string ''a'' = Inr ''a''"
  by (simp_all add: str_simps normalize_rel_path_def rel_to_string_def)

lemma plan_exact_witness:
  "list_all2 (planned_for demo_behind ''s'' 1) [(1 :: nat, DestinationConfig_default\<lparr>dst_id := ''b''\<rparr>)] [(1, [''a''])]"
proof -
  have v: "destination_last_verified (''s'', ''b'') demo_behind = Some 0" "events demo_behind = [touch_row 1 1 3]"
    by (simp_all add: demo_behind_def offset_simps demo_events)
  have "event_incremental_plan demo_behind demo_group demo_cycle [(1, DestinationConfig_default\<lparr>dst_id := ''b''\<rparr>)] =
      Inr (Some (ApplyPaths [(1, [''a''])]))"
    by (simp add: event_incremental_plan_def demo_ids v events_between_cycles_def cycle_event_of_def actionable_def demo_rel)
  from plan_exact [OF this] show ?thesis by (simp add: demo_ids)
qed

definition demo_report :: ScanReport where
  "demo_report = \<lparr>rep_source = ''s'', rep_destination = ''b'', scanned_at = 7, source_entries = 1, dst_entries = 0,
     in_sync = 0, to_add = 1, to_update = 0, to_delete = 0, type_mismatch = 0, metadata = 0,
     differences = [\<lparr>diff_path = ''q'', diff_kind = ''add'', diff_type = ''file''\<rparr>], truncated = False, rep_error = '''', rep_method = ''''\<rparr>"

definition demo_compared :: db where
  "demo_compared = put_scan_report demo_report (upsert_destination_status (''s'', ''b'') (Some 1) ''green'' ''verified'' 6 demo_db)"

lemma demo_compared_facts:
  "store_reachable utc demo_compared" "destination_last_verified (''s'', ''b'') demo_compared = Some 1"
  "get_scan_report (''s'', ''b'') demo_compared = Some demo_report"
proof -
  have "store_reachable utc (upsert_destination_status (''s'', ''b'') (Some 1) ''green'' ''verified'' 6 demo_db)"
    by (rule store_reachable.step [OF demo_reachable log_step.outcome]) (rule demo_settled)
  then show "store_reachable utc demo_compared" unfolding demo_compared_def
    by (rule store_reachable.step [OF _ log_step.view]) (simp add: same_log_def put_scan_report_def)
  have "offsets demo_compared = offsets (upsert_destination_status (''s'', ''b'') (Some 1) ''green'' ''verified'' 6 demo_db)"
    by (simp add: demo_compared_def put_scan_report_def)
  from same_offsets [OF this, of "(''s'', ''b'')"] show "destination_last_verified (''s'', ''b'') demo_compared = Some 1"
    by (simp add: offset_simps)
  show "get_scan_report (''s'', ''b'') demo_compared = Some demo_report"
    by (simp add: demo_compared_def get_scan_report_def put_scan_report_def demo_report_def tbl_simps)
qed

lemma demo_request:
  "enabled_source demo_peers ''s'' = Some demo_group" "\<not> request_paused demo_peers ''s'' ''b''"
  "\<exists>x\<in>set (destinations demo_group). dst_id x = ''b'' \<and> dst_enabled x"
  by (simp_all add: enabled_source_def request_paused_def demo_peers_def demo_ids)
    (simp_all add: demo_group_def DestinationConfig_default_def)

lemma repair_reaches_report_witness:
  "\<exists>t. destination_target_cycle (''s'', ''b'') (snd (queue_destination_sync demo_peers ''s'' ''b'' RepairScan 8 demo_compared)) = Some t"
proof -
  have r: "rep_error demo_report = ''''" "report_total demo_report > 0" "sample_is_complete demo_report"
    "''q'' \<in> set (map diff_path (differences demo_report))"
    by (simp_all add: demo_report_def report_total_def sample_is_complete_def)
  show ?thesis
    using repair_reaches_report [OF demo_compared_facts(1) demo_request(2) demo_compared_facts(3) r(1-3) demo_request(1,3)
        demo_compared_facts(2) r(4) surjective_pairing [of "queue_destination_sync demo_peers ''s'' ''b'' RepairScan 8 demo_compared"]]
    by blast
qed

end
