(* ===== verification/Disk.thy ===== *)
theory Disk
  imports Prelude Paths
begin

text \<open>
  The part of \<open>std::fs\<close> that the receiving side uses: files, directories and links under names, and
  the calls on them with their errors. It models the operating system, not code of the program, so
  that what the program does to a tree can be stated. Bounds of the model: a path is looked up by
  its names alone, so a link on the way to a file is not followed; a link at the end of a path
  dangles for a call that follows it; everything is on one device; permissions refuse nothing. The
  modification times of directories are those that the program sets. \<open>None\<close> in a file's time or
  mode is the system's choice at its creation.
\<close>

type_synonym key = "string list"

datatype node = RegularFile (bytes_of: "u8 list") (file_mtime: "int option") (file_mode: "u32 option")
  | Directory (dir_mtime: "int option") (dir_mode: "u32 option") | SymbolicLink (link_target: path_buf)

type_synonym fs = "key \<Rightarrow> node option"

datatype io_error = NotFound | NotADirectory | IsADirectory | AlreadyExists | DirectoryNotEmpty | InvalidInput

text \<open>Where a path leads from the root directory; the working directory is taken to be the root.\<close>

fun walk_names :: "component list \<Rightarrow> key \<Rightarrow> key" where
  "walk_names [] k = k"
| "walk_names (RootDir # cs) k = walk_names cs []"
| "walk_names (CurDir # cs) k = walk_names cs k"
| "walk_names (ParentDir # cs) k = walk_names cs (butlast k)"
| "walk_names (Normal s # cs) k = walk_names cs (k @ [s])"

definition locate :: "path_buf \<Rightarrow> key" where
  "locate p = walk_names (components p) []"

definition dir_at :: "key \<Rightarrow> fs \<Rightarrow> bool" where
  "dir_at k d \<longleftrightarrow> k = [] \<or> (case d k of Some (Directory t m) \<Rightarrow> True | _ \<Rightarrow> False)"

definition below :: "key \<Rightarrow> key \<Rightarrow> bool" where
  "below k j \<longleftrightarrow> take (length k) j = k"

definition fs_ok :: "fs \<Rightarrow> bool" where
  "fs_ok d \<longleftrightarrow> d [] = None \<and> (\<forall>k x. d (k @ [x]) \<noteq> None \<longrightarrow> dir_at k d)"

section \<open>Calls\<close>

definition lstat :: "key \<Rightarrow> fs \<Rightarrow> node option" where
  "lstat k d = (if k = [] then Some (Directory None None) else d k)"

fun make_dirs :: "key \<Rightarrow> key \<Rightarrow> fs \<Rightarrow> (io_error + unit) \<times> fs" where
  "make_dirs pre [] d = (Inr (), d)"
| "make_dirs pre (x # xs) d =
     (case d (pre @ [x]) of
        None \<Rightarrow> make_dirs (pre @ [x]) xs (d(pre @ [x] \<mapsto> Directory None None))
      | Some (Directory t m) \<Rightarrow> make_dirs (pre @ [x]) xs d
      | Some n \<Rightarrow> (Inl NotADirectory, d))"

definition create_dir_all :: "key \<Rightarrow> fs \<Rightarrow> (io_error + unit) \<times> fs" where
  "create_dir_all k = make_dirs [] k"

definition remove_tree :: "key \<Rightarrow> fs \<Rightarrow> fs" where
  "remove_tree k d = (\<lambda>j. if below k j then None else d j)"

text \<open>\<open>fs::write\<close> and \<open>File::create\<close> with its writes.\<close>

definition write_file :: "key \<Rightarrow> u8 list \<Rightarrow> fs \<Rightarrow> (io_error + unit) \<times> fs" where
  "write_file k w d =
     (if k = [] then (Inl IsADirectory, d)
      else if \<not> dir_at (butlast k) d then (Inl (if d (butlast k) = None then NotFound else NotADirectory), d)
      else case d k of
        None \<Rightarrow> (Inr (), d(k \<mapsto> RegularFile w None None))
      | Some (RegularFile old t m) \<Rightarrow> (Inr (), d(k \<mapsto> RegularFile w None m))
      | Some (Directory t m) \<Rightarrow> (Inl IsADirectory, d)
      | Some (SymbolicLink p) \<Rightarrow> (Inl InvalidInput, d))"

definition read_file :: "key \<Rightarrow> fs \<Rightarrow> io_error + u8 list" where
  "read_file k d = (case lstat k d of None \<Rightarrow> Inl NotFound | Some (RegularFile w t m) \<Rightarrow> Inr w
     | Some (Directory t m) \<Rightarrow> Inl IsADirectory | Some (SymbolicLink p) \<Rightarrow> Inl NotFound)"

definition set_file_times :: "key \<Rightarrow> int \<Rightarrow> fs \<Rightarrow> (io_error + unit) \<times> fs" where
  "set_file_times k t d = (case d k of None \<Rightarrow> (Inl NotFound, d)
     | Some (RegularFile w t0 m) \<Rightarrow> (Inr (), d(k \<mapsto> RegularFile w (Some t) m))
     | Some (Directory t0 m) \<Rightarrow> (Inr (), d(k \<mapsto> Directory (Some t) m))
     | Some (SymbolicLink p) \<Rightarrow> (Inl NotFound, d))"

definition set_permissions :: "key \<Rightarrow> u32 \<Rightarrow> fs \<Rightarrow> (io_error + unit) \<times> fs" where
  "set_permissions k m d = (case d k of None \<Rightarrow> (Inl NotFound, d)
     | Some (RegularFile w t m0) \<Rightarrow> (Inr (), d(k \<mapsto> RegularFile w t (Some m)))
     | Some (Directory t m0) \<Rightarrow> (Inr (), d(k \<mapsto> Directory t (Some m)))
     | Some (SymbolicLink p) \<Rightarrow> (Inl NotFound, d))"

text \<open>\<open>OpenOptions\<close> with \<open>create\<close>, \<open>read\<close> and \<open>write\<close>, and \<open>set_len\<close>, \<open>seek\<close> and \<open>write_all\<close> on the
  open file.\<close>

definition open_rw :: "key \<Rightarrow> fs \<Rightarrow> (io_error + unit) \<times> fs" where
  "open_rw k d = (case d k of Some (RegularFile w t m) \<Rightarrow> (Inr (), d) | _ \<Rightarrow> write_file k [] d)"

definition set_len :: "nat \<Rightarrow> u8 list \<Rightarrow> u8 list" where
  "set_len n w = take n w @ replicate (n - length w) 0"

definition write_at :: "nat \<Rightarrow> u8 list \<Rightarrow> u8 list \<Rightarrow> u8 list" where
  "write_at offset bytes w = set_len offset w @ bytes @ drop (offset + length bytes) w"

definition update_file :: "key \<Rightarrow> (u8 list \<Rightarrow> u8 list) \<Rightarrow> fs \<Rightarrow> (io_error + unit) \<times> fs" where
  "update_file k f d = (case d k of Some (RegularFile w t m) \<Rightarrow> (Inr (), d(k \<mapsto> RegularFile (f w) None m))
     | _ \<Rightarrow> (Inl NotFound, d))"

definition symlink :: "path_buf \<Rightarrow> key \<Rightarrow> fs \<Rightarrow> (io_error + unit) \<times> fs" where
  "symlink target k d = (if lstat k d \<noteq> None then (Inl AlreadyExists, d)
     else if \<not> dir_at (butlast k) d then (Inl (if d (butlast k) = None then NotFound else NotADirectory), d)
     else (Inr (), d(k \<mapsto> SymbolicLink target)))"

definition read_link :: "key \<Rightarrow> fs \<Rightarrow> io_error + path_buf" where
  "read_link k d = (case lstat k d of None \<Rightarrow> Inl NotFound | Some (SymbolicLink p) \<Rightarrow> Inr p
     | Some n \<Rightarrow> Inl InvalidInput)"

definition is_directory :: "node \<Rightarrow> bool" where
  "is_directory n \<longleftrightarrow> (case n of Directory t m \<Rightarrow> True | _ \<Rightarrow> False)"

definition moved :: "key \<Rightarrow> key \<Rightarrow> fs \<Rightarrow> fs" where
  "moved a b d = (\<lambda>j. if below b j then d (a @ drop (length b) j) else if below a j then None else d j)"

text \<open>\<open>rename\<close>: the last case but one is a directory over a directory, which must be empty.\<close>

definition no_entries :: "key \<Rightarrow> fs \<Rightarrow> bool" where
  "no_entries k d \<longleftrightarrow> (\<forall>x. d (k @ [x]) = None)"

definition rename :: "key \<Rightarrow> key \<Rightarrow> fs \<Rightarrow> (io_error + unit) \<times> fs" where
  "rename a b d =
     (case d a of
        None \<Rightarrow> (Inl NotFound, d)
      | Some n \<Rightarrow>
          if a = b then (Inr (), d)
          else if below a b then (Inl InvalidInput, d)
          else if b = [] \<or> below b a then (Inl DirectoryNotEmpty, d)
          else if \<not> dir_at (butlast b) d then (Inl (if d (butlast b) = None then NotFound else NotADirectory), d)
          else case d b of
            None \<Rightarrow> (Inr (), moved a b d)
          | Some o' \<Rightarrow>
              if is_directory n \<and> \<not> is_directory o' then (Inl NotADirectory, d)
              else if \<not> is_directory n \<and> is_directory o' then (Inl IsADirectory, d)
              else if is_directory n \<and> \<not> no_entries b d then (Inl DirectoryNotEmpty, d)
              else (Inr (), moved a b d))"

section \<open>Lemmas\<close>

named_theorems disk_simps "how the calls change the files"

lemma below_refl [simp]: "below k k" "below [] k"
  by (simp_all add: below_def)

lemma below_append [simp]: "below k (k @ j)"
  by (simp add: below_def)

lemma below_iff: "below k j \<longleftrightarrow> (\<exists>m. j = k @ m)"
  unfolding below_def by (metis append_eq_conv_conj append_take_drop_id)

lemma below_trans: "below i j \<Longrightarrow> below j k \<Longrightarrow> below i k"
  by (auto simp: below_iff)

lemma dir_at_root [simp]: "dir_at [] d"
  by (simp add: dir_at_def)

lemma dir_atE: "dir_at k d \<Longrightarrow> k \<noteq> [] \<Longrightarrow> \<exists>t m. d k = Some (Directory t m)"
  by (auto simp: dir_at_def split: option.splits node.splits)

lemma dir_at_upd [simp]: "dir_at k (d(j \<mapsto> Directory t m)) \<longleftrightarrow> k = j \<or> dir_at k d"
  by (auto simp: dir_at_def)

text \<open>In a proper tree there is nothing below a file or below a name that is not there.\<close>

lemma fs_ok_above: "fs_ok d \<Longrightarrow> d (k @ m) \<noteq> None \<Longrightarrow> m \<noteq> [] \<Longrightarrow> dir_at k d"
proof (induction m rule: rev_induct)
  case (snoc x m)
  have "dir_at (k @ m) d" using snoc.prems unfolding fs_ok_def by (metis append.assoc)
  then show ?case
  proof (cases "m = []")
    case False
    then have "d (k @ m) \<noteq> None" using \<open>dir_at (k @ m) d\<close> dir_atE by fastforce
    with snoc.IH snoc.prems(1) False show ?thesis by blast
  qed simp
qed simp

lemma fs_ok_leaf: "fs_ok d \<Longrightarrow> \<not> dir_at k d \<Longrightarrow> m \<noteq> [] \<Longrightarrow> d (k @ m) = None"
  using fs_ok_above by blast

lemma make_dirs_spec:
  assumes "make_dirs pre xs d = (r, d')" and "dir_at pre d" and "fs_ok d"
  shows "fs_ok d' \<and> (\<forall>j. d j \<noteq> None \<longrightarrow> d' j = d j) \<and>
    (\<forall>j. d' j \<noteq> d j \<longrightarrow> d' j = Some (Directory None None) \<and> below j (pre @ xs)) \<and>
    (r = Inr () \<longrightarrow> (\<forall>j. below j xs \<longrightarrow> dir_at (pre @ j) d'))"
  using assms
proof (induction pre xs d rule: make_dirs.induct)
  case (1 pre d)
  then show ?case by (auto simp: below_def)
next
  case (2 pre x xs d)
  have pre: "below j ((pre @ [x]) @ xs) = below j (pre @ x # xs)" for j by simp
  show ?case
  proof (cases "d (pre @ [x])")
    case None
    let ?d = "d(pre @ [x] \<mapsto> Directory None None)"
    have ok: "fs_ok ?d" using "2.prems"(2,3) by (auto simp: fs_ok_def)
    have run: "make_dirs (pre @ [x]) xs ?d = (r, d')" using "2.prems"(1) None by simp
    have at: "dir_at (pre @ [x]) ?d" by simp
    from "2.IH"(1) [OF None run at ok] have IH: "fs_ok d'" "\<And>j. ?d j \<noteq> None \<Longrightarrow> d' j = ?d j"
      "\<And>j. d' j \<noteq> ?d j \<Longrightarrow> d' j = Some (Directory None None) \<and> below j (pre @ x # xs)"
      "r = Inr () \<Longrightarrow> \<forall>j. below j xs \<longrightarrow> dir_at ((pre @ [x]) @ j) d'" by auto
    have "d' j = d j" if "d j \<noteq> None" for j using IH(2) [of j] that None by (auto split: if_splits)
    moreover have "d' j = Some (Directory None None) \<and> below j (pre @ x # xs)" if "d' j \<noteq> d j" for j
      using that IH(2,3) [of j] by (cases "j = pre @ [x]") (auto simp: below_def)
    moreover have "dir_at (pre @ j) d'" if "r = Inr ()" "below j (x # xs)" for j
    proof (cases j)
      case Nil
      have "d' pre = d pre" if "pre \<noteq> []" using calculation(1) [of pre] dir_atE [OF "2.prems"(2) that] by auto
      then show ?thesis using Nil "2.prems"(2) by (cases "pre = []") (auto simp: dir_at_def)
    next
      case (Cons y j')
      then have "y = x" "below j' xs" using that(2) by (auto simp: below_def)
      with IH(4) [OF that(1)] Cons show ?thesis by auto
    qed
    ultimately show ?thesis using IH(1) by blast
  next
    case (Some n)
    show ?thesis
    proof (cases n)
      case (Directory t m)
      have run: "make_dirs (pre @ [x]) xs d = (r, d')" using "2.prems"(1) Some Directory by simp
      have "dir_at (pre @ [x]) d" using Some Directory by (simp add: dir_at_def)
      from "2.IH"(2) [OF Some Directory run this "2.prems"(3)]
      have IH: "fs_ok d'" "\<And>j. d j \<noteq> None \<Longrightarrow> d' j = d j"
        "\<And>j. d' j \<noteq> d j \<Longrightarrow> d' j = Some (Directory None None) \<and> below j (pre @ x # xs)"
        "r = Inr () \<Longrightarrow> \<forall>j. below j xs \<longrightarrow> dir_at ((pre @ [x]) @ j) d'" by auto
      have "dir_at (pre @ j) d'" if "r = Inr ()" "below j (x # xs)" for j
      proof (cases j)
        case Nil
        have "d' pre = d pre" if "pre \<noteq> []" using IH(2) [of pre] dir_atE [OF "2.prems"(2) that] by auto
        then show ?thesis using Nil "2.prems"(2) by (cases "pre = []") (auto simp: dir_at_def)
      next
        case (Cons y j')
        then have "y = x" "below j' xs" using that(2) by (auto simp: below_def)
        with IH(4) [OF that(1)] Cons show ?thesis by auto
      qed
      with IH show ?thesis by blast
    qed (use "2.prems" Some in auto)
  qed
qed

lemma fs_ok_root: "fs_ok d \<Longrightarrow> d [] = None"
  by (simp add: fs_ok_def)

lemma fs_okD: "fs_ok d \<Longrightarrow> d (k @ [x]) \<noteq> None \<Longrightarrow> dir_at k d"
  unfolding fs_ok_def by blast

lemma dir_at_cong: "(k \<noteq> [] \<Longrightarrow> d' k = d k) \<Longrightarrow> dir_at k d' = dir_at k d"
  by (cases "k = []") (simp_all add: dir_at_def)

lemma dir_at_iff: "dir_at k d \<longleftrightarrow> k = [] \<or> (\<exists>n. d k = Some n \<and> is_directory n)"
  by (auto simp: dir_at_def is_directory_def split: option.splits node.splits)

text \<open>A new file goes into a directory; a changed node keeps its kind.\<close>

lemma fs_ok_create:
  assumes "fs_ok d" and "k \<noteq> []" and "dir_at (butlast k) d" and "\<not> dir_at k d"
  shows "fs_ok (d(k \<mapsto> n))"
proof -
  have above: "d (k @ [x]) = None" for x using fs_okD [OF assms(1), of k x] assms(4) by blast
  have "dir_at j (d(k \<mapsto> n))" if "(d(k \<mapsto> n)) (j @ [x]) \<noteq> None" for j x
  proof -
    have "j \<noteq> k" using that above by auto
    moreover have "dir_at j d"
      using that assms(3) fs_okD [OF assms(1), of j x] by (cases "j @ [x] = k") auto
    ultimately show ?thesis using dir_at_cong [of j "d(k \<mapsto> n)" d] by simp
  qed
  then show ?thesis using assms(1,2) by (simp add: fs_ok_def)
qed

lemma fs_ok_change:
  assumes "fs_ok d" and "d k = Some n" and "is_directory n' = is_directory n"
  shows "fs_ok (d(k \<mapsto> n'))"
proof -
  have "k \<noteq> []" using assms(1,2) fs_ok_root by fastforce
  have "dir_at j (d(k \<mapsto> n')) = dir_at j d" for j
    using assms(2,3) by (auto simp: dir_at_iff)
  then show ?thesis using assms \<open>k \<noteq> []\<close> by (auto simp: fs_ok_def)
qed

lemma below_antisym: "below j k \<Longrightarrow> below k j \<Longrightarrow> j = k"
  by (auto simp: below_iff)

lemma below_Nil [simp]: "below k [] \<longleftrightarrow> k = []"
  by (auto simp: below_def)

lemma below_snoc: "below k (j @ [x]) \<longleftrightarrow> k = j @ [x] \<or> below k j"
  by (auto simp: below_iff append_eq_append_conv2 append_eq_Cons_conv Cons_eq_append_conv)

lemma fs_ok_remove_tree:
  assumes "fs_ok d" and "k \<noteq> []"
  shows "fs_ok (remove_tree k d)"
proof -
  have "dir_at j (remove_tree k d)" if "remove_tree k d (j @ [x]) \<noteq> None" for j x
  proof -
    have "\<not> below k (j @ [x])" and "d (j @ [x]) \<noteq> None" using that by (auto simp: remove_tree_def split: if_splits)
    then have "\<not> below k j" "dir_at j d" using fs_okD [OF assms(1)] by (auto simp: below_snoc)
    then show ?thesis using dir_at_cong [of j "remove_tree k d" d] by (simp add: remove_tree_def)
  qed
  then show ?thesis using assms by (simp add: fs_ok_def remove_tree_def)
qed

lemma fs_ok_moved:
  assumes ok: "fs_ok d" and a: "d a = Some n" and ab: "\<not> below a b" "\<not> below b a" and dir: "dir_at (butlast b) d"
  shows "fs_ok (moved a b d)"
proof -
  have ne: "a \<noteq> []" "b \<noteq> []" using a fs_ok_root [OF ok] ab by auto
  have b: "b = butlast b @ [last b]" using ne(2) by simp
  have "dir_at j (moved a b d)" if "moved a b d (j @ [x]) \<noteq> None" for j x
  proof (cases "below b j")
    case True
    then have "below b (j @ [x])" by (simp add: below_snoc)
    with that have "d ((a @ drop (length b) j) @ [x]) \<noteq> None"
      using True by (auto simp: moved_def below_iff)
    then have "dir_at (a @ drop (length b) j) d" by (rule fs_okD [OF ok])
    with True ne show ?thesis by (auto simp: dir_at_iff moved_def)
  next
    case False
    show ?thesis
    proof (cases "b = j @ [x]")
      case True
      then have "\<not> below a j" "dir_at j d" using ab(1) dir by (auto simp: below_snoc)
      then show ?thesis using False dir_at_cong [of j "moved a b d" d] by (simp add: moved_def)
    next
      case neq: False
      then have nb: "\<not> below b (j @ [x])" using False by (simp add: below_snoc)
      with that have "\<not> below a (j @ [x])" "d (j @ [x]) \<noteq> None" by (auto simp: moved_def split: if_splits)
      then have "\<not> below a j" "dir_at j d" using fs_okD [OF ok] by (auto simp: below_snoc)
      then show ?thesis using False dir_at_cong [of j "moved a b d" d] by (simp add: moved_def)
    qed
  qed
  then show ?thesis using ok ne by (simp add: fs_ok_def moved_def)
qed

section \<open>Changes below a key\<close>

text \<open>Below \<open>k\<close> anything may happen; elsewhere the only change is a directory made on the way to \<open>k\<close>.\<close>

definition confined :: "key \<Rightarrow> fs \<Rightarrow> fs \<Rightarrow> bool" where
  "confined k d d' \<longleftrightarrow> (fs_ok d \<longrightarrow> fs_ok d' \<and>
     (\<forall>j. below k j \<or> d' j = d j \<or> (below j k \<and> d j = None \<and> d' j = Some (Directory None None))))"

lemma confined_refl: "confined k d d"
  by (simp add: confined_def)

lemma confined_trans:
  assumes "confined k d d1" and "confined k d1 d2"
  shows "confined k d d2"
proof -
  have "below k j \<or> d2 j = d j \<or> (below j k \<and> d j = None \<and> d2 j = Some (Directory None None))" if "fs_ok d" for j
    using assms that unfolding confined_def by (metis option.distinct(1))
  then show ?thesis using assms unfolding confined_def by blast
qed

lemma confined_below: "(fs_ok d \<Longrightarrow> fs_ok d') \<Longrightarrow> (\<And>j. \<not> below k j \<Longrightarrow> d' j = d j) \<Longrightarrow> confined k d d'"
  by (auto simp: confined_def)

lemma confined_upd: "below k j \<Longrightarrow> (fs_ok d \<Longrightarrow> fs_ok (d(j \<mapsto> n))) \<Longrightarrow> confined k d (d(j \<mapsto> n))"
  by (rule confined_below) auto

lemma confined_create_dir_all:
  assumes "below k j"
  shows "confined k d (snd (create_dir_all j d))"
proof -
  have "fs_ok d' \<and> (\<forall>i. below k i \<or> d' i = d i \<or> (below i k \<and> d i = None \<and> d' i = Some (Directory None None)))"
    if "fs_ok d" and run: "create_dir_all j d = (r, d')" for r d'
  proof -
    from make_dirs_spec [OF run [unfolded create_dir_all_def] dir_at_root that(1)]
    have s: "fs_ok d'" "\<And>i. d i \<noteq> None \<Longrightarrow> d' i = d i"
      "\<And>i. d' i \<noteq> d i \<Longrightarrow> d' i = Some (Directory None None) \<and> below i j" by auto
    have "below k i \<or> below i k" if "below i j" for i
      using that assms by (auto simp: below_iff append_eq_append_conv2)
    with s show ?thesis by metis
  qed
  then show ?thesis unfolding confined_def by (metis prod.collapse)
qed

lemma confined_write_file:
  assumes "below k j"
  shows "confined k d (snd (write_file j w d))"
proof (cases "d j")
  case None
  have "confined k d (d(j \<mapsto> RegularFile w None None))" if "j \<noteq> []" "dir_at (butlast j) d"
    using assms that None by (intro confined_upd fs_ok_create) (simp_all add: dir_at_iff)
  with None show ?thesis by (simp add: write_file_def confined_refl)
next
  case (Some n)
  have "confined k d (d(j \<mapsto> RegularFile w t m))" if "\<not> is_directory n" for t m
    using assms Some that by (intro confined_upd fs_ok_change) (simp_all add: is_directory_def)
  with Some show ?thesis by (cases n) (simp_all add: write_file_def confined_refl is_directory_def)
qed

lemma confined_update:
  "below k j \<Longrightarrow> confined k d (snd (set_file_times j t d))"
  "below k j \<Longrightarrow> confined k d (snd (set_permissions j m d))"
  "below k j \<Longrightarrow> confined k d (snd (update_file j f d))"
  by (auto simp: set_file_times_def set_permissions_def update_file_def confined_refl is_directory_def
      split: option.splits node.splits intro!: confined_upd elim!: fs_ok_change)

lemma confined_open_rw: "below k j \<Longrightarrow> confined k d (snd (open_rw j d))"
  by (auto simp: open_rw_def confined_refl confined_write_file split: option.splits node.splits)

lemma confined_symlink: "below k j \<Longrightarrow> confined k d (snd (symlink p j d))"
  by (auto simp: symlink_def lstat_def confined_refl dir_at_iff
      intro!: confined_upd fs_ok_create split: if_splits)

lemma confined_remove_tree: "below k j \<Longrightarrow> j \<noteq> [] \<Longrightarrow> confined k d (remove_tree j d)"
  by (rule confined_below) (simp add: fs_ok_remove_tree, auto simp: remove_tree_def dest: below_trans)

lemma rename_cases:
  assumes "rename a b d = (r, d')"
  obtains (Same) "d' = d" | (Moved) n where "d' = moved a b d" "r = Inr ()" "d a = Some n" "\<not> below a b"
      "\<not> below b a" "dir_at (butlast b) d" "\<not> (\<exists>o'. d b = Some o' \<and> is_directory n \<and> \<not> is_directory o')"
  using assms by (auto simp: rename_def split: option.splits if_splits)

lemma confined_rename:
  assumes "below k a" and "below k b"
  shows "confined k d (snd (rename a b d))"
proof -
  obtain r d' where run: "rename a b d = (r, d')" by fastforce
  then show ?thesis
  proof (cases rule: rename_cases)
    case (Moved n)
    have "moved a b d j = d j" if "\<not> below k j" for j
      using that assms below_trans [of k a j] below_trans [of k b j] by (auto simp: moved_def)
    then have "confined k d (moved a b d)"
      using fs_ok_moved [OF _ Moved(3-6)] by (intro confined_below) auto
    then show ?thesis using run Moved(1) by simp
  qed (simp add: run confined_refl)
qed

end
