(* ===== verification/Receive.thy ===== *)
theory Receive
  imports Prelude Paths Delta Manifest Zfs Disk "HOL-Library.Signed_Division"
begin

text \<open>
  The receiving side of a transfer (\<open>src/src/core/sync/mod.rs\<close>): the endpoints that a sender calls on
  the destination's machine, over the file model of \<open>Disk\<close>. A file arrives in chunks, in one request,
  in a batch or as a delta under a temporary name of its cycle; it is checked against the sender's
  hash and renamed over the final path. What a mirror pass removes goes to the trash of the cycle.
  \<open>blake3\<close>, the JSON parser of a batch header, \<open>canonicalize\<close>, directory listings and the length a
  directory reports, the times the system keeps and its clock are parameters. Flushing to disk has no effect in the model.
\<close>

section \<open>Calls in sequence\<close>

datatype receive_error = Io io_error | UnsafeRel path_error | Dangerous string | WrongSize nat nat
  | HashMismatch string | DeltaFailed delta_error | NotAFileEntry | NotALinkEntry | OffsetOverflow
  | ExceedsSize string | BeyondLength nat nat | MalformedBatch | BodyBroken

type_synonym ('e, 'a) action = "fs \<Rightarrow> ('e + 'a) \<times> fs"

type_synonym 'a io = "(receive_error, 'a) action"

definition bind_io :: "('e, 'a) action \<Rightarrow> ('a \<Rightarrow> ('e, 'b) action) \<Rightarrow> ('e, 'b) action" where
  "bind_io m k = (\<lambda>d. case m d of (Inl e, d') \<Rightarrow> (Inl e, d') | (Inr x, d') \<Rightarrow> k x d')"

definition seq_io :: "('e, unit) action \<Rightarrow> ('e, 'b) action \<Rightarrow> ('e, 'b) action" where
  "seq_io m k = bind_io m (\<lambda>_. k)"

definition ret_io :: "'a \<Rightarrow> ('e, 'a) action" where
  "ret_io x = (\<lambda>d. (Inr x, d))"

definition fail_io :: "'e \<Rightarrow> ('e, 'a) action" where
  "fail_io e = (\<lambda>d. (Inl e, d))"

definition call :: "(fs \<Rightarrow> (io_error + 'a) \<times> fs) \<Rightarrow> 'a io" where
  "call f = (\<lambda>d. case f d of (Inl e, d') \<Rightarrow> (Inl (Io e), d') | (Inr x, d') \<Rightarrow> (Inr x, d'))"

definition look :: "(fs \<Rightarrow> io_error + 'a) \<Rightarrow> 'a io" where
  "look f = (\<lambda>d. case f d of Inl e \<Rightarrow> (Inl (Io e), d) | Inr x \<Rightarrow> (Inr x, d))"

definition ask :: "(fs \<Rightarrow> 'a) \<Rightarrow> ('e, 'a) action" where
  "ask f = (\<lambda>d. (Inr (f d), d))"

definition lift_err :: "('c \<Rightarrow> 'e) \<Rightarrow> 'c + 'a \<Rightarrow> ('e, 'a) action" where
  "lift_err c r = (case r of Inl e \<Rightarrow> fail_io (c e) | Inr x \<Rightarrow> ret_io x)"

text \<open>\<open>.ok()\<close>.\<close>

definition ok_io :: "('e, 'a) action \<Rightarrow> ('e, unit) action" where
  "ok_io m = (\<lambda>d. (Inr (), snd (m d)))"

definition bail_io :: "bool \<Rightarrow> 'e \<Rightarrow> ('e, unit) action" where
  "bail_io b e = (if b then fail_io e else ret_io ())"

fun for_io :: "('a \<Rightarrow> ('e, unit) action) \<Rightarrow> 'a list \<Rightarrow> ('e, unit) action" where
  "for_io f [] = ret_io ()"
| "for_io f (x # xs) = seq_io (f x) (for_io f xs)"

section \<open>Parameters and requests\<close>

record receiver =
  canonical_path :: "path_buf \<Rightarrow> path_buf option"
  process_id :: nat
  blake3 :: "u8 list \<Rightarrow> u8 list"
  dir_len :: "key \<Rightarrow> nat"
  read_dir_names :: "key \<Rightarrow> fs \<Rightarrow> string list option"
  modified_at :: "key \<Rightarrow> fs \<Rightarrow> int option"
  system_now :: int

record TransferDirSpec = spec_rel :: string  spec_mode :: u32  spec_mtime :: int

record TransferModeSpec = fix_rel :: string  fix_mode :: u32

record ChunkQuery =
  chunk_root :: path_buf  chunk_rel :: string  chunk_cycle :: int  chunk_size :: int  chunk_offset :: nat

record PutFileQuery =
  put_root :: path_buf  put_rel :: string  put_cycle :: int  put_size :: int  put_mtime :: int
  put_mode :: u32  put_hash :: "string option"

record DeltaQuery =
  delta_root :: path_buf  delta_rel :: string  delta_cycle :: int  delta_size :: int  delta_mtime :: int
  delta_mode :: u32  delta_hash :: string

record BatchFileHeader =
  head_rel :: string  head_size :: int  head_mtime :: int  head_mode :: u32  head_hash :: string

definition show_i64 :: "int \<Rightarrow> string" where
  "show_i64 c = (if c < 0 then ''-'' @ decimal (nat (- c)) else decimal (nat c))"

definition hex_digit :: "nat \<Rightarrow> char" where
  "hex_digit n = char_of (if n < 10 then 48 + n else 87 + n)"

definition to_hex :: "u8 list \<Rightarrow> string" where
  "to_hex bs = concat (map (\<lambda>b. [hex_digit (unat b div 16), hex_digit (unat b mod 16)]) bs)"

definition hash_bytes :: "receiver \<Rightarrow> u8 list \<Rightarrow> string" where
  "hash_bytes rc w = to_hex (blake3 rc w)"

section \<open>Files\<close>

definition hash_file :: "receiver \<Rightarrow> path_buf \<Rightarrow> string io" where
  "hash_file rc p = bind_io (look (read_file (locate p))) (\<lambda>w. ret_io (hash_bytes rc w))"

definition hash_symlink_target :: "path_buf \<Rightarrow> string" where
  "hash_symlink_target target = ''symlink:'' @ target"

definition hash_symlink :: "path_buf \<Rightarrow> string io" where
  "hash_symlink p = bind_io (look (read_link (locate p))) (\<lambda>target. ret_io (hash_symlink_target target))"

text \<open>\<open>path.exists() || fs::symlink_metadata(path).is_ok()\<close>: the second covers the first.\<close>

definition present :: "path_buf \<Rightarrow> fs \<Rightarrow> bool" where
  "present p d \<longleftrightarrow> lstat (locate p) d \<noteq> None"

text \<open>\<open>path.exists()\<close> alone follows a link.\<close>

definition exists_path :: "path_buf \<Rightarrow> fs \<Rightarrow> bool" where
  "exists_path p d \<longleftrightarrow> (case lstat (locate p) d of None \<Rightarrow> False | Some (SymbolicLink t) \<Rightarrow> False | _ \<Rightarrow> True)"

definition metadata_len :: "receiver \<Rightarrow> path_buf \<Rightarrow> fs \<Rightarrow> io_error + nat" where
  "metadata_len rc p d = (case lstat (locate p) d of
       Some (RegularFile w t m) \<Rightarrow> Inr (length w)
     | Some (Directory t m) \<Rightarrow> Inr (dir_len rc (locate p))
     | _ \<Rightarrow> Inl NotFound)"

definition remove_any :: "path_buf \<Rightarrow> unit io" where
  "remove_any p = (\<lambda>d. if present p d then (Inr (), remove_tree (locate p) d) else (Inl (Io NotFound), d))"

definition create_dirs :: "path_buf \<Rightarrow> unit io" where
  "create_dirs p = call (create_dir_all (locate p))"

definition create_parent :: "path_buf \<Rightarrow> unit io" where
  "create_parent p = (case path_parent p of Some q \<Rightarrow> create_dirs q | None \<Rightarrow> ret_io ())"

definition set_mode :: "path_buf \<Rightarrow> u32 \<Rightarrow> unit io" where
  "set_mode p m = call (set_permissions (locate p) m)"

text \<open>\<open>FileTime::from_unix_time\<close> takes whole seconds and a \<open>u32\<close> of nanoseconds; both are taken from
  the \<open>i64\<close> by truncating division. The system refuses nanoseconds above 999999999.\<close>

definition file_time :: "int \<Rightarrow> int \<times> u32" where
  "file_time ns = (ns sdiv 1000000000, word_of_int (ns smod 1000000000))"

definition set_file_mtime :: "path_buf \<Rightarrow> int \<times> u32 \<Rightarrow> unit io" where
  "set_file_mtime p t = (case t of (secs, nanos) \<Rightarrow>
     if unat nanos > 999999999 then fail_io (Io InvalidInput)
     else call (set_file_times (locate p) (secs * 1000000000 + int (unat nanos))))"

definition tmp_of :: "receiver \<Rightarrow> path_buf \<Rightarrow> int \<Rightarrow> string \<Rightarrow> path_buf" where
  "tmp_of rc root cycle rel = tmp_path root (show_i64 cycle) rel (decimal (process_id rc))"

definition safe_join :: "path_buf \<Rightarrow> string \<Rightarrow> path_buf io" where
  "safe_join root rel = lift_err UnsafeRel (safe_join_rel root rel)"

definition reject_dangerous :: "receiver \<Rightarrow> path_buf \<Rightarrow> unit io" where
  "reject_dangerous rc root = lift_err Dangerous (reject_dangerous_destination (canonical_path rc) root)"

section \<open>Replacing and removing\<close>

text \<open>A path that has vanished is where it should be.\<close>

definition rename_if_there :: "key \<Rightarrow> key \<Rightarrow> unit io" where
  "rename_if_there a b = (\<lambda>d. case rename a b d of
       (Inr _, d') \<Rightarrow> (Inr (), d')
     | (Inl NotFound, d') \<Rightarrow> (Inr (), d')
     | (Inl e, d') \<Rightarrow> (Inl (Io e), d'))"

definition move_to_trash :: "path_buf \<Rightarrow> string \<Rightarrow> int \<Rightarrow> unit io" where
  "move_to_trash dst_root rel cycle =
     (let path = path_push dst_root rel;
          trash = path_push (path_push (path_push dst_root INTERNAL_TRASH) (show_i64 cycle)) rel
      in bind_io (ask (present path)) (\<lambda>here.
         if \<not> here then ret_io ()
         else seq_io (create_parent trash)
           (seq_io (bind_io (ask (present trash)) (\<lambda>old. if old then remove_any trash else ret_io ()))
             (rename_if_there (locate path) (locate trash)))))"

definition same_kind :: "node \<Rightarrow> node \<Rightarrow> bool" where
  "same_kind a b \<longleftrightarrow> (case (a, b) of (RegularFile u t m, RegularFile v t' m') \<Rightarrow> True
     | (SymbolicLink p, SymbolicLink q) \<Rightarrow> True | _ \<Rightarrow> False)"

definition replace_path :: "path_buf \<Rightarrow> int \<Rightarrow> string \<Rightarrow> path_buf \<Rightarrow> path_buf \<Rightarrow> unit io" where
  "replace_path dst_root cycle rel tmp final_path =
     seq_io
       (bind_io (ask (present final_path)) (\<lambda>here.
          if \<not> here then ret_io ()
          else (\<lambda>d. case (lstat (locate tmp) d, lstat (locate final_path) d) of
                 (Some t, Some f) \<Rightarrow> if same_kind t f then (Inr (), d) else move_to_trash dst_root rel cycle d
               | _ \<Rightarrow> (Inl (Io NotFound), d))))
       (call (rename (locate tmp) (locate final_path)))"

definition finish_received_file :: "receiver \<Rightarrow> path_buf \<Rightarrow> int \<Rightarrow> SnapshotEntry \<Rightarrow> path_buf \<Rightarrow> path_buf \<Rightarrow> unit io" where
  "finish_received_file rc dst_root cycle e tmp final_path =
     seq_io (case hash e of
         None \<Rightarrow> ret_io ()
       | Some expected \<Rightarrow> bind_io (hash_file rc tmp) (\<lambda>actual.
           if actual \<noteq> expected then seq_io (ok_io (remove_any tmp)) (fail_io (HashMismatch (rel_path e)))
           else ret_io ()))
     (seq_io (ok_io (set_mode tmp (mode_bits e)))
     (seq_io (ok_io (set_file_mtime tmp (file_time (mtime_ns e))))
     (seq_io (create_parent final_path)
       (replace_path dst_root cycle (rel_path e) tmp final_path))))"

section \<open>Endpoints for directories, modes and removal\<close>

definition dir_path :: "path_buf \<Rightarrow> string \<Rightarrow> path_buf io" where
  "dir_path root rel = (if rel = '''' then ret_io root else safe_join root rel)"

definition transfer_prepare_dir :: "receiver \<Rightarrow> path_buf \<Rightarrow> string option \<Rightarrow> unit io" where
  "transfer_prepare_dir rc root rel =
     seq_io (reject_dangerous rc root)
       (bind_io (case rel of Some r \<Rightarrow> safe_join root r | None \<Rightarrow> ret_io root) create_dirs)"

definition transfer_prepare_dirs :: "receiver \<Rightarrow> path_buf \<Rightarrow> TransferDirSpec list \<Rightarrow> unit io" where
  "transfer_prepare_dirs rc root dirs =
     seq_io (reject_dangerous rc root)
       (for_io (\<lambda>s. bind_io (dir_path root (spec_rel s)) create_dirs) dirs)"

definition transfer_remove_path :: "receiver \<Rightarrow> path_buf \<Rightarrow> string \<Rightarrow> int \<Rightarrow> unit io" where
  "transfer_remove_path rc root rel cycle =
     seq_io (reject_dangerous rc root)
       (bind_io (safe_join root rel) (\<lambda>p. bind_io (ask (present p)) (\<lambda>here.
          if \<not> here then ret_io () else move_to_trash root rel cycle)))"

definition transfer_remove_paths :: "receiver \<Rightarrow> path_buf \<Rightarrow> string list \<Rightarrow> int \<Rightarrow> unit io" where
  "transfer_remove_paths rc root rels cycle =
     seq_io (reject_dangerous rc root)
       (for_io (\<lambda>rel. bind_io (safe_join root rel) (\<lambda>p. bind_io (ask (present p)) (\<lambda>here.
          if \<not> here then ret_io () else move_to_trash root rel cycle))) rels)"

text \<open>Deepest first, then by path descending, as in \<open>extra_paths_deepest_first\<close>.\<close>

definition deepest_first :: "TransferDirSpec list \<Rightarrow> TransferDirSpec list" where
  "deepest_first dirs = sort_key (\<lambda>s. - int (path_depth (spec_rel s)))
     (rev (sort_key spec_rel (rev dirs)))"

definition set_dir_mtimes :: "path_buf \<Rightarrow> TransferDirSpec list \<Rightarrow> unit io" where
  "set_dir_mtimes root dirs =
     for_io (\<lambda>s. bind_io (dir_path root (spec_rel s)) (\<lambda>p. bind_io (ask (exists_path p)) (\<lambda>here.
         if \<not> here then ret_io ()
         else seq_io (ok_io (set_mode p (spec_mode s))) (set_file_mtime p (file_time (spec_mtime s))))))
       (deepest_first dirs)"

definition transfer_set_dir_mtimes :: "receiver \<Rightarrow> path_buf \<Rightarrow> TransferDirSpec list \<Rightarrow> unit io" where
  "transfer_set_dir_mtimes rc root dirs = seq_io (reject_dangerous rc root) (set_dir_mtimes root dirs)"

definition transfer_set_modes :: "receiver \<Rightarrow> path_buf \<Rightarrow> TransferModeSpec list \<Rightarrow> unit io" where
  "transfer_set_modes rc root items =
     seq_io (reject_dangerous rc root)
       (for_io (\<lambda>i. bind_io (safe_join root (fix_rel i)) (\<lambda>p. bind_io (ask (present p)) (\<lambda>here.
          if \<not> here then ret_io () else set_mode p (fix_mode i)))) items)"

section \<open>Endpoints for one file\<close>

definition as_len :: "int \<Rightarrow> nat" where
  "as_len sz = nat (max sz 0)"

definition transfer_file_offset :: "receiver \<Rightarrow> path_buf \<Rightarrow> string \<Rightarrow> int \<Rightarrow> int \<Rightarrow> nat io" where
  "transfer_file_offset rc root rel cycle sz =
     seq_io (reject_dangerous rc root)
       (\<lambda>d. let tmp = tmp_of rc root cycle rel in
         case metadata_len rc tmp d of
           Inr n \<Rightarrow> if n \<le> as_len sz then (Inr n, d) else (Inr 0, snd (remove_any tmp d))
         | Inl NotFound \<Rightarrow> (Inr 0, d)
         | Inl e \<Rightarrow> (Inl (Io e), d))"

text \<open>The steps that the chunk and the stream endpoint share: the open temporary file, cut at the
  offset.\<close>

definition open_at_offset :: "receiver \<Rightarrow> path_buf \<Rightarrow> nat \<Rightarrow> unit io" where
  "open_at_offset rc tmp offset =
     seq_io (create_parent tmp)
     (seq_io (bind_io (ask (present tmp)) (\<lambda>here.
         if offset = 0 \<and> here then remove_any tmp else ret_io ()))
     (seq_io (call (open_rw (locate tmp)))
     (bind_io (look (read_file (locate tmp))) (\<lambda>w.
         if length w < offset then fail_io (BeyondLength offset (length w))
         else if length w > offset then call (update_file (locate tmp) (set_len offset))
         else ret_io ()))))"

definition transfer_receive_file_chunk :: "receiver \<Rightarrow> ChunkQuery \<Rightarrow> u8 list \<Rightarrow> unit io" where
  "transfer_receive_file_chunk rc q bytes =
     (let sz = as_len (chunk_size q);
          tmp = tmp_of rc (chunk_root q) (chunk_cycle q) (chunk_rel q)
      in seq_io (reject_dangerous rc (chunk_root q))
        (seq_io (bail_io (chunk_offset q + length bytes \<ge> 2 ^ 64) OffsetOverflow)
        (seq_io (bail_io (chunk_offset q + length bytes > sz) (ExceedsSize (chunk_rel q)))
        (seq_io (open_at_offset rc tmp (chunk_offset q))
          (call (update_file (locate tmp) (write_at (chunk_offset q) bytes)))))))"

text \<open>The answer is the open file, that is the path it was opened under.\<close>

definition transfer_open_file_stream_target :: "receiver \<Rightarrow> ChunkQuery \<Rightarrow> path_buf io" where
  "transfer_open_file_stream_target rc q =
     (let sz = as_len (chunk_size q);
          tmp = tmp_of rc (chunk_root q) (chunk_cycle q) (chunk_rel q)
      in seq_io (reject_dangerous rc (chunk_root q))
        (seq_io (bail_io (chunk_offset q > sz) (BeyondLength (chunk_offset q) sz))
        (seq_io (open_at_offset rc tmp (chunk_offset q)) (ret_io tmp))))"

definition transfer_finish_file :: "receiver \<Rightarrow> path_buf \<Rightarrow> int \<Rightarrow> SnapshotEntry \<Rightarrow> string option \<Rightarrow> unit io" where
  "transfer_finish_file rc root cycle e full_hash =
     seq_io (reject_dangerous rc root)
     (seq_io (bail_io (file_type e \<noteq> ''file'') NotAFileEntry)
     (bind_io (safe_join root (rel_path e)) (\<lambda>final_path.
       let tmp = tmp_of rc root cycle (rel_path e) in
       bind_io (look (metadata_len rc tmp)) (\<lambda>len.
         seq_io (bail_io (len \<noteq> as_len (size_of e)) (WrongSize len (as_len (size_of e))))
           (finish_received_file rc root cycle (if hash e = None then e\<lparr>hash := full_hash\<rparr> else e)
             tmp final_path)))))"

definition file_entry :: "string \<Rightarrow> int \<Rightarrow> int \<Rightarrow> u32 \<Rightarrow> string option \<Rightarrow> SnapshotEntry" where
  "file_entry rel sz mtime md h = \<lparr>rel_path = rel, file_type = ''file'', size_of = sz,
     mtime_ns = mtime, mode_bits = md, hash = h\<rparr>"

definition transfer_put_file :: "receiver \<Rightarrow> PutFileQuery \<Rightarrow> u8 list \<Rightarrow> unit io" where
  "transfer_put_file rc q bytes =
     seq_io (reject_dangerous rc (put_root q))
     (seq_io (bail_io (length bytes \<noteq> as_len (put_size q)) (WrongSize (length bytes) (as_len (put_size q))))
     (seq_io (case put_hash q of None \<Rightarrow> ret_io ()
         | Some expected \<Rightarrow> bail_io (hash_bytes rc bytes \<noteq> expected) (HashMismatch (put_rel q)))
     (let e = file_entry (put_rel q) (put_size q) (put_mtime q) (put_mode q) (put_hash q) in
      bind_io (safe_join (put_root q) (rel_path e)) (\<lambda>final_path.
        let tmp = tmp_of rc (put_root q) (put_cycle q) (rel_path e) in
        seq_io (create_parent tmp)
        (seq_io (call (write_file (locate tmp) bytes))
          (finish_received_file rc (put_root q) (put_cycle q) e tmp final_path))))))"

definition no_sums :: BlockSums where
  "no_sums = \<lparr>block_len = 0, file_size = 0, blocks = []\<rparr>"

text \<open>The file is read through a buffer that delivers it in chunks of at most 8 KiB.\<close>

fun buffered :: "nat \<Rightarrow> u8 list \<Rightarrow> read_event list" where
  "buffered 0 w = []"
| "buffered (Suc n) w = (if w = [] then [] else Chunk (take 8192 w) # buffered n (drop 8192 w))"

definition transfer_block_sums :: "receiver \<Rightarrow> path_buf \<Rightarrow> string \<Rightarrow> BlockSums io" where
  "transfer_block_sums rc root rel =
     seq_io (reject_dangerous rc root)
     (bind_io (safe_join root rel) (\<lambda>p d.
        case lstat (locate p) d of
          Some (RegularFile w t m) \<Rightarrow>
            (let len = block_len_for (length w) in
             case compute_block_sums_from_reader (blake3 rc) (buffered (length w) w) len of
               Inl e \<Rightarrow> (Inl (Io InvalidInput), d)
             | Inr bs \<Rightarrow> (Inr \<lparr>block_len = word_of_nat len, file_size = word_of_nat (length w), blocks = bs\<rparr>, d))
        | _ \<Rightarrow> (Inr no_sums, d)))"

text \<open>Copies out of a directory fail like copies out of an empty file.\<close>

definition delta_basis :: "path_buf \<Rightarrow> fs \<Rightarrow> io_error + u8 list" where
  "delta_basis p d = (case lstat (locate p) d of Some (RegularFile w t m) \<Rightarrow> Inr w
     | Some (Directory t m) \<Rightarrow> Inr [] | _ \<Rightarrow> Inl NotFound)"

definition transfer_apply_delta :: "receiver \<Rightarrow> DeltaQuery \<Rightarrow> u8 list \<Rightarrow> unit io" where
  "transfer_apply_delta rc q delta =
     seq_io (reject_dangerous rc (delta_root q))
     (bind_io (safe_join (delta_root q) (delta_rel q)) (\<lambda>final_path.
       let tmp = tmp_of rc (delta_root q) (delta_cycle q) (delta_rel q) in
       seq_io (create_parent tmp)
       (bind_io (look (delta_basis final_path)) (\<lambda>old.
         seq_io (call (write_file (locate tmp) (fst (apply_delta old delta))))
         (seq_io (case snd (apply_delta old delta) of None \<Rightarrow> ret_io () | Some e \<Rightarrow> fail_io (DeltaFailed e))
         (bind_io (look (metadata_len rc tmp)) (\<lambda>len.
           if len \<noteq> as_len (delta_size q)
           then seq_io (ok_io (remove_any tmp)) (fail_io (WrongSize len (as_len (delta_size q))))
           else finish_received_file rc (delta_root q) (delta_cycle q)
             (file_entry (delta_rel q) (delta_size q) (delta_mtime q) (delta_mode q) (Some (delta_hash q)))
             tmp final_path)))))))"

definition receive_symlink_target :: "receiver \<Rightarrow> path_buf \<Rightarrow> int \<Rightarrow> SnapshotEntry \<Rightarrow> path_buf \<Rightarrow> unit io" where
  "receive_symlink_target rc dst_root cycle e target =
     seq_io (reject_dangerous rc dst_root)
     (seq_io (bail_io (file_type e \<noteq> ''symlink'') NotALinkEntry)
     (bind_io (safe_join dst_root (rel_path e)) (\<lambda>final_path.
       let tmp = tmp_of rc dst_root cycle (rel_path e) in
       seq_io (create_parent tmp)
       (seq_io (bind_io (ask (present tmp)) (\<lambda>here. if here then remove_any tmp else ret_io ()))
       (seq_io (call (symlink target (locate tmp)))
       (seq_io (bind_io (hash_symlink tmp) (\<lambda>h.
           if Some h \<noteq> hash e then seq_io (ok_io (remove_any tmp)) (fail_io (HashMismatch (rel_path e)))
           else ret_io ()))
         (replace_path dst_root cycle (rel_path e) tmp final_path)))))))"

text \<open>The raw bytes of the target win over its wire string.\<close>

definition transfer_receive_symlink ::
    "receiver \<Rightarrow> path_buf \<Rightarrow> int \<Rightarrow> SnapshotEntry \<Rightarrow> string \<Rightarrow> string option \<Rightarrow> unit io" where
  "transfer_receive_symlink rc root cycle req target target_bytes =
     receive_symlink_target rc root cycle (req\<lparr>file_type := ''symlink'', size_of := 0\<rparr>)
       (case target_bytes of Some bytes \<Rightarrow> bytes | None \<Rightarrow> target)"

section \<open>Batches of small files\<close>

type_synonym staged = "SnapshotEntry \<times> path_buf \<times> path_buf"

definition newline :: u8 where "newline = 10"

definition stage_file :: "receiver \<Rightarrow> path_buf \<Rightarrow> int \<Rightarrow> BatchFileHeader \<Rightarrow> u8 list \<Rightarrow> staged io" where
  "stage_file rc root cycle h payload =
     seq_io (bail_io (hash_bytes rc payload \<noteq> head_hash h) (HashMismatch (head_rel h)))
     (let e = file_entry (head_rel h) (head_size h) (head_mtime h) (head_mode h) (Some (head_hash h)) in
      bind_io (safe_join root (rel_path e)) (\<lambda>final_path.
        let tmp = tmp_of rc root cycle (rel_path e) in
        seq_io (create_parent tmp)
        (seq_io (call (write_file (locate tmp) payload)) (ret_io (e, tmp, final_path)))))"

function stage_frames :: "(u8 list \<Rightarrow> BatchFileHeader option) \<Rightarrow> receiver \<Rightarrow> path_buf \<Rightarrow> int \<Rightarrow> u8 list \<Rightarrow>
    staged list \<Rightarrow> string list \<Rightarrow> (staged list \<times> string list) io" where
  "stage_frames parse rc root cycle rest staged failed d =
     (if rest = [] then (Inr (staged, failed), d)
      else if newline \<notin> set rest then (Inl MalformedBatch, d)
      else case parse (takeWhile (\<lambda>b. b \<noteq> newline) rest) of
        None \<Rightarrow> (Inl MalformedBatch, d)
      | Some h \<Rightarrow>
          (let body = tl (dropWhile (\<lambda>b. b \<noteq> newline) rest); sz = as_len (head_size h) in
           if length body < sz then (Inl MalformedBatch, d)
           else case stage_file rc root cycle h (take sz body) d of
             (Inr s, d') \<Rightarrow> stage_frames parse rc root cycle (drop sz body) (staged @ [s]) failed d'
           | (Inl e, d') \<Rightarrow> stage_frames parse rc root cycle (drop sz body) staged (failed @ [head_rel h]) d'))"
  by pat_completeness auto
termination
proof (relation "measure (\<lambda>(_, _, _, _, rest, _). length rest)", goal_cases)
  case (2 parse rc root cycle rest staged failed d h body sz)
  then have "dropWhile (\<lambda>b. b \<noteq> newline) rest \<noteq> []" by (auto simp: dropWhile_eq_Nil_conv)
  then have "length body < length rest"
    using 2 length_dropWhile_le [of "\<lambda>b. b \<noteq> newline" rest] by (cases "dropWhile (\<lambda>b. b \<noteq> newline) rest") auto
  then show ?case by simp
next
  case (3 parse rc root cycle rest staged failed d h body sz)
  then have "dropWhile (\<lambda>b. b \<noteq> newline) rest \<noteq> []" by (auto simp: dropWhile_eq_Nil_conv)
  then have "length body < length rest"
    using 3 length_dropWhile_le [of "\<lambda>b. b \<noteq> newline" rest] by (cases "dropWhile (\<lambda>b. b \<noteq> newline) rest") auto
  then show ?case by simp
qed simp

declare stage_frames.simps [simp del]

definition settle_staged :: "receiver \<Rightarrow> staged \<Rightarrow> unit io" where
  "settle_staged rc s = (case s of (e, tmp, final_path) \<Rightarrow>
     seq_io (bind_io (hash_file rc tmp) (\<lambda>actual.
         if hash e \<noteq> Some actual then seq_io (ok_io (remove_any tmp)) (fail_io (HashMismatch (rel_path e)))
         else ret_io ()))
     (seq_io (ok_io (set_mode tmp (mode_bits e)))
       (ok_io (set_file_mtime tmp (file_time (mtime_ns e))))))"

definition publish_staged :: "path_buf \<Rightarrow> int \<Rightarrow> staged \<Rightarrow> unit io" where
  "publish_staged root cycle s = (case s of (e, tmp, final_path) \<Rightarrow>
     seq_io (create_parent final_path) (replace_path root cycle (rel_path e) tmp final_path))"

text \<open>One phase over the files: those whose step succeeds go on, the others are reported.\<close>

fun each_staged :: "(staged \<Rightarrow> unit io) \<Rightarrow> staged list \<Rightarrow> fs \<Rightarrow> (staged list \<times> string list) \<times> fs" where
  "each_staged f [] d = (([], []), d)"
| "each_staged f (s # ss) d =
     (case f s d of
        (Inr _, d') \<Rightarrow> (case each_staged f ss d' of ((ok, bad), d'') \<Rightarrow> ((s # ok, bad), d''))
      | (Inl e, d') \<Rightarrow> (case each_staged f ss d' of ((ok, bad), d'') \<Rightarrow> ((ok, rel_path (fst s) # bad), d'')))"

definition transfer_put_files_batch ::
    "(u8 list \<Rightarrow> BatchFileHeader option) \<Rightarrow> receiver \<Rightarrow> path_buf \<Rightarrow> int \<Rightarrow> u8 list \<Rightarrow> string list io" where
  "transfer_put_files_batch parse rc root cycle body =
     seq_io (reject_dangerous rc root)
     (bind_io (stage_frames parse rc root cycle body [] []) (\<lambda>(staged, failed) d.
        case each_staged (settle_staged rc) staged d of ((publish, bad), d1) \<Rightarrow>
        case each_staged (publish_staged root cycle) publish d1 of ((done_files, bad'), d2) \<Rightarrow>
          (Inr (failed @ bad @ bad'), d2)))"

section \<open>Clean-up\<close>

definition TMP_KEEP_DAYS :: nat where "TMP_KEEP_DAYS = 7"

text \<open>Times in nanoseconds. A cutoff that a \<open>SystemTime\<close> cannot hold is the epoch.\<close>

definition sweep_cutoff :: "receiver \<Rightarrow> nat \<Rightarrow> int" where
  "sweep_cutoff rc keep_days =
     (let secs = int (saturating_mul keep_days 86400)
      in if system_now rc div 1000000000 - secs < - (2 ^ 63) then 0 else system_now rc - secs * 1000000000)"

definition sweep_aged_subdirs :: "receiver \<Rightarrow> path_buf \<Rightarrow> nat \<Rightarrow> int option \<Rightarrow> unit io" where
  "sweep_aged_subdirs rc root keep_days keep_name =
     bind_io (ask (read_dir_names rc (locate root))) (\<lambda>names. case names of
       None \<Rightarrow> ret_io ()
     | Some entries \<Rightarrow>
         for_io (\<lambda>name. if (case keep_name of None \<Rightarrow> False | Some keep \<Rightarrow> name = show_i64 keep) then ret_io ()
           else bind_io (ask (modified_at rc (locate (path_push root name)))) (\<lambda>modified. case modified of
               None \<Rightarrow> ret_io ()
             | Some t \<Rightarrow> if t < sweep_cutoff rc keep_days then ok_io (remove_any (path_push root name))
                 else ret_io ())) entries)"

definition remove_dir :: "path_buf \<Rightarrow> unit io" where
  "remove_dir p = (\<lambda>d. if locate p = [] \<or> \<not> dir_at (locate p) d then (Inl (Io NotADirectory), d)
     else if \<not> no_entries (locate p) d then (Inl (Io DirectoryNotEmpty), d)
     else (Inr (), remove_tree (locate p) d))"

definition cleanup_tmp_cycle :: "receiver \<Rightarrow> path_buf \<Rightarrow> int \<Rightarrow> unit io" where
  "cleanup_tmp_cycle rc dst_root cycle =
     (let root = path_push dst_root INTERNAL_TMP; path = path_push root (show_i64 cycle)
      in seq_io (bind_io (ask (exists_path path)) (\<lambda>here. if here then ok_io (remove_any path) else ret_io ()))
        (seq_io (sweep_aged_subdirs rc root TMP_KEEP_DAYS (Some cycle)) (ok_io (remove_dir root))))"

definition cleanup_expired_trash :: "receiver \<Rightarrow> path_buf \<Rightarrow> nat \<Rightarrow> unit io" where
  "cleanup_expired_trash rc dst_root keep_days =
     (if keep_days = 0 then ret_io ()
      else let root = path_push dst_root INTERNAL_TRASH
        in seq_io (sweep_aged_subdirs rc root keep_days None) (ok_io (remove_dir root)))"

definition transfer_cleanup_tmp :: "receiver \<Rightarrow> path_buf \<Rightarrow> int \<Rightarrow> nat option \<Rightarrow> unit io" where
  "transfer_cleanup_tmp rc root cycle keep =
     seq_io (reject_dangerous rc root)
     (seq_io (cleanup_tmp_cycle rc root cycle)
       (cleanup_expired_trash rc root (case keep of None \<Rightarrow> 30 | Some days \<Rightarrow> days)))"

section \<open>Requests\<close>

text \<open>A streamed body: each chunk is written where the one before ended.\<close>

fun write_stream :: "ChunkQuery \<Rightarrow> path_buf \<Rightarrow> nat \<Rightarrow> read_event list \<Rightarrow> unit io" where
  "write_stream q tmp written [] = ret_io ()"
| "write_stream q tmp written (Fail # es) = fail_io BodyBroken"
| "write_stream q tmp written (Chunk bytes # es) =
     seq_io (bail_io (written + length bytes \<ge> 2 ^ 64) OffsetOverflow)
     (seq_io (bail_io (written + length bytes > as_len (chunk_size q)) (ExceedsSize (chunk_rel q)))
     (seq_io (call (update_file (locate tmp) (write_at written bytes)))
       (write_stream q tmp (written + length bytes) es)))"

definition api_transfer_put_file_stream :: "receiver \<Rightarrow> ChunkQuery \<Rightarrow> read_event list \<Rightarrow> unit io" where
  "api_transfer_put_file_stream rc q body =
     bind_io (transfer_open_file_stream_target rc q) (\<lambda>tmp. write_stream q tmp (chunk_offset q) body)"

datatype transfer_request =
    PrepareDir path_buf "string option"
  | PrepareDirs path_buf "TransferDirSpec list"
  | SetDirMtimes path_buf "TransferDirSpec list"
  | SetModes path_buf "TransferModeSpec list"
  | RemovePath path_buf string int
  | RemovePaths path_buf "string list" int
  | CleanupTmp path_buf int "nat option"
  | FileOffset path_buf string int int
  | PutFile PutFileQuery "u8 list"
  | PutFilesBatch path_buf int "u8 list"
  | PutFileStream ChunkQuery "read_event list"
  | AskBlockSums path_buf string
  | ApplyDelta DeltaQuery "u8 list"
  | ReceiveFileChunk ChunkQuery "u8 list"
  | FinishFile path_buf int SnapshotEntry "string option"
  | ReceiveSymlink path_buf int SnapshotEntry string "string option"

datatype answer = Ack | FileOffsetIs nat | BatchFailed "string list" | BlockSumsAre BlockSums

definition answer_io :: "('a \<Rightarrow> answer) \<Rightarrow> 'a io \<Rightarrow> answer io" where
  "answer_io f m = bind_io m (\<lambda>x. ret_io (f x))"

definition ack_io :: "unit io \<Rightarrow> answer io" where
  "ack_io = answer_io (\<lambda>_. Ack)"

fun serve :: "(u8 list \<Rightarrow> BatchFileHeader option) \<Rightarrow> receiver \<Rightarrow> transfer_request \<Rightarrow> answer io" where
  "serve parse rc (PrepareDir root rel) = ack_io (transfer_prepare_dir rc root rel)"
| "serve parse rc (PrepareDirs root dirs) = ack_io (transfer_prepare_dirs rc root dirs)"
| "serve parse rc (SetDirMtimes root dirs) = ack_io (transfer_set_dir_mtimes rc root dirs)"
| "serve parse rc (SetModes root items) = ack_io (transfer_set_modes rc root items)"
| "serve parse rc (RemovePath root rel cycle) = ack_io (transfer_remove_path rc root rel cycle)"
| "serve parse rc (RemovePaths root rels cycle) = ack_io (transfer_remove_paths rc root rels cycle)"
| "serve parse rc (CleanupTmp root cycle keep) = ack_io (transfer_cleanup_tmp rc root cycle keep)"
| "serve parse rc (FileOffset root rel cycle sz) = answer_io FileOffsetIs (transfer_file_offset rc root rel cycle sz)"
| "serve parse rc (PutFile q body) = ack_io (transfer_put_file rc q body)"
| "serve parse rc (PutFilesBatch root cycle body) = answer_io BatchFailed (transfer_put_files_batch parse rc root cycle body)"
| "serve parse rc (PutFileStream q body) = ack_io (api_transfer_put_file_stream rc q body)"
| "serve parse rc (AskBlockSums root rel) = answer_io BlockSumsAre (transfer_block_sums rc root rel)"
| "serve parse rc (ApplyDelta q body) = ack_io (transfer_apply_delta rc q body)"
| "serve parse rc (ReceiveFileChunk q body) = ack_io (transfer_receive_file_chunk rc q body)"
| "serve parse rc (FinishFile root cycle e full_hash) = ack_io (transfer_finish_file rc root cycle e full_hash)"
| "serve parse rc (ReceiveSymlink root cycle e target bytes) = ack_io (transfer_receive_symlink rc root cycle e target bytes)"

fun request_root :: "transfer_request \<Rightarrow> path_buf" where
  "request_root (PrepareDir root rel) = root"
| "request_root (PrepareDirs root dirs) = root"
| "request_root (SetDirMtimes root dirs) = root"
| "request_root (SetModes root items) = root"
| "request_root (RemovePath root rel cycle) = root"
| "request_root (RemovePaths root rels cycle) = root"
| "request_root (CleanupTmp root cycle keep) = root"
| "request_root (FileOffset root rel cycle sz) = root"
| "request_root (PutFile q body) = put_root q"
| "request_root (PutFilesBatch root cycle body) = root"
| "request_root (PutFileStream q body) = chunk_root q"
| "request_root (AskBlockSums root rel) = root"
| "request_root (ApplyDelta q body) = delta_root q"
| "request_root (ReceiveFileChunk q body) = chunk_root q"
| "request_root (FinishFile root cycle e full_hash) = root"
| "request_root (ReceiveSymlink root cycle e target bytes) = root"

text \<open>The requests whose relative path no check of the code covers.\<close>

fun unchecked_rel :: "transfer_request \<Rightarrow> string option" where
  "unchecked_rel (FileOffset root rel cycle sz) = Some rel"
| "unchecked_rel (PutFileStream q body) = Some (chunk_rel q)"
| "unchecked_rel (ReceiveFileChunk q body) = Some (chunk_rel q)"
| "unchecked_rel _ = None"

end
