(* ===== verification/Receive_Runs.thy ===== *)
theory Receive_Runs
  imports Receive
begin

text \<open>
  Facts about runs of the receiving side: rules for a successful run and for what any run may change,
  where the temporary, final and trash paths of a transfer lie, and the publication of a file.
\<close>

section \<open>Successful runs\<close>

named_theorems run_simps "what a successful run of a combinator did"

lemma bind_io_Inr [run_simps]:
  "bind_io m k d = (Inr y, d'') \<longleftrightarrow> (\<exists>x d'. m d = (Inr x, d') \<and> k x d' = (Inr y, d''))"
  by (auto simp: bind_io_def split: prod.splits sum.splits)

lemma seq_io_Inr [run_simps]:
  "seq_io m k d = (Inr y, d'') \<longleftrightarrow> (\<exists>d'. m d = (Inr (), d') \<and> k d' = (Inr y, d''))"
  by (simp add: seq_io_def run_simps)

text \<open>A step whose outcome is known.\<close>

lemma bind_step:
  "m d = (Inr x, d') \<Longrightarrow> bind_io m k d = k x d'"
  "m d = (Inl e, d') \<Longrightarrow> bind_io m k d = (Inl e, d')"
  by (simp_all add: bind_io_def)

lemma seq_step:
  "m d = (Inr (), d') \<Longrightarrow> seq_io m k d = k d'"
  "m d = (Inl e, d') \<Longrightarrow> seq_io m k d = (Inl e, d')"
  by (simp_all add: seq_io_def bind_io_def)

lemma step_result:
  "ret_io x d = (Inr x, d)" "fail_io e d = (Inl e, d)" "ask q d = (Inr (q d), d)" "ok_io m d = (Inr (), snd (m d))"
  "f d = (Inr y, d') \<Longrightarrow> call f d = (Inr y, d')" "f d = (Inl i, d') \<Longrightarrow> call f d = (Inl (Io i), d')"
  "g d = Inr z \<Longrightarrow> look g d = (Inr z, d)" "g d = Inl i \<Longrightarrow> look g d = (Inl (Io i), d)"
  "bail_io b e d = (if b then (Inl e, d) else (Inr (), d))" "lift_err c (Inr z) d = (Inr z, d)"
  by (simp_all add: ret_io_def fail_io_def ask_def ok_io_def call_def look_def bail_io_def lift_err_def)

lemma bind_ask: "bind_io (ask f) k d = k (f d) d"
  by (simp add: bind_io_def ask_def)

lemma bind_safe_join: "safe_join_rel root rel = Inr p \<Longrightarrow> bind_io (safe_join root rel) k d = k p d"
  by (simp add: bind_io_def safe_join_def lift_err_def ret_io_def)

lemma basic_io_Inr [run_simps]:
  "ret_io x d = (Inr y, d') \<longleftrightarrow> y = x \<and> d' = d"
  "fail_io e d = (Inr y, d') \<longleftrightarrow> False"
  "ask f d = (Inr y, d') \<longleftrightarrow> y = f d \<and> d' = d"
  "ok_io m d = (Inr u, d') \<longleftrightarrow> d' = snd (m d)"
  "bail_io b e d = (Inr u, d') \<longleftrightarrow> \<not> b \<and> d' = d"
  by (auto simp: ret_io_def fail_io_def ask_def ok_io_def bail_io_def)

lemma call_Inr [run_simps]: "call f d = (Inr x, d') \<longleftrightarrow> f d = (Inr x, d')"
  by (auto simp: call_def split: prod.splits sum.splits)

lemma look_Inr [run_simps]: "look f d = (Inr x, d') \<longleftrightarrow> f d = Inr x \<and> d' = d"
  by (auto simp: look_def split: sum.splits)

lemma lift_err_Inr [run_simps]: "lift_err c r d = (Inr x, d') \<longleftrightarrow> r = Inr x \<and> d' = d"
  by (auto simp: lift_err_def run_simps split: sum.splits)

lemma if_io_Inr [run_simps]: "(if b then m else k) d = (Inr x, d') \<longleftrightarrow> (if b then m d = (Inr x, d') else k d = (Inr x, d'))"
  by simp

section \<open>Failed runs\<close>

named_theorems fail_simps "where a failed run of a combinator stopped"

lemma bind_io_Inl [fail_simps]:
  "bind_io m k d = (Inl e, d'') \<longleftrightarrow> m d = (Inl e, d'') \<or> (\<exists>x d'. m d = (Inr x, d') \<and> k x d' = (Inl e, d''))"
  by (auto simp: bind_io_def split: prod.splits sum.splits)

lemma seq_io_Inl [fail_simps]:
  "seq_io m k d = (Inl e, d'') \<longleftrightarrow> m d = (Inl e, d'') \<or> (\<exists>d'. m d = (Inr (), d') \<and> k d' = (Inl e, d''))"
  by (simp add: seq_io_def fail_simps)

lemma basic_io_Inl [fail_simps]:
  "ret_io x d = (Inl e, d') \<longleftrightarrow> False" "fail_io i d = (Inl e, d') \<longleftrightarrow> e = i \<and> d' = d"
  "ask f d = (Inl e, d') \<longleftrightarrow> False" "ok_io m d = (Inl e, d') \<longleftrightarrow> False"
  "bail_io b i d = (Inl e, d') \<longleftrightarrow> b \<and> e = i \<and> d' = d"
  by (auto simp: ret_io_def fail_io_def ask_def ok_io_def bail_io_def)

lemma call_Inl [fail_simps]:
  "call f d = (Inl e, d') \<longleftrightarrow> (\<exists>i. e = Io i \<and> f d = (Inl i, d'))"
  "look g d = (Inl e, d') \<longleftrightarrow> (\<exists>i. e = Io i \<and> g d = Inl i) \<and> d' = d"
  by (auto simp: call_def look_def split: prod.splits sum.splits)

lemma lift_err_Inl [fail_simps]: "lift_err c r d = (Inl e, d') \<longleftrightarrow> (\<exists>i. r = Inl i \<and> e = c i) \<and> d' = d"
  by (auto simp: lift_err_def run_simps fail_simps split: sum.splits)

text \<open>Runs that fail only where the system does.\<close>

definition io_only :: "'a io \<Rightarrow> bool" where
  "io_only m \<longleftrightarrow> (\<forall>d e d'. m d = (Inl e, d') \<longrightarrow> (\<exists>i. e = Io i))"

lemma io_only_bind: "io_only m \<Longrightarrow> (\<And>x. io_only (k x)) \<Longrightarrow> io_only (bind_io m k)"
  unfolding io_only_def fail_simps by blast

lemma io_only_seq: "io_only m \<Longrightarrow> io_only k \<Longrightarrow> io_only (seq_io m k)"
  unfolding seq_io_def by (rule io_only_bind)

lemma io_only_basic: "io_only (ret_io x)" "io_only (ask q)" "io_only (call f)" "io_only (look g)" "io_only (ok_io m)"
  by (auto simp: io_only_def fail_simps)

lemma io_only_if: "(b \<Longrightarrow> io_only m) \<Longrightarrow> (\<not> b \<Longrightarrow> io_only k) \<Longrightarrow> io_only (if b then m else k)"
  by simp

lemma io_only_steps: "io_only (remove_any p)" "io_only (rename_if_there a b)" "io_only (create_parent p)"
  by (auto simp: io_only_def remove_any_def rename_if_there_def create_parent_def create_dirs_def fail_simps
      split: if_splits prod.splits sum.splits io_error.splits option.splits)

lemma io_only_trash: "io_only (move_to_trash root rel cycle)"
  unfolding move_to_trash_def Let_def
  by (intro io_only_bind io_only_seq io_only_basic io_only_if io_only_steps)

lemma io_only_replace: "io_only (replace_path root cycle rel tmp p)"
proof -
  have "io_only (\<lambda>d. case (lstat (locate tmp) d, lstat (locate p) d) of
       (Some t, Some f) \<Rightarrow> if same_kind t f then (Inr (), d) else move_to_trash root rel cycle d
     | _ \<Rightarrow> (Inl (Io NotFound), d))"
    using io_only_trash [of root rel cycle] by (auto simp: io_only_def split: option.splits if_splits)
  then show ?thesis unfolding replace_path_def
    by (intro io_only_bind io_only_seq io_only_basic io_only_if)
qed

section \<open>What a run may change\<close>

definition obeys :: "(fs \<Rightarrow> fs \<Rightarrow> bool) \<Rightarrow> ('e, 'a) action \<Rightarrow> bool" where
  "obeys R m \<longleftrightarrow> (\<forall>d. R d (snd (m d)))"

text \<open>A relation between the files before and after, kept by every step, is kept by the whole run,
  whether it succeeds or fails.\<close>

locale run_relation =
  fixes R :: "fs \<Rightarrow> fs \<Rightarrow> bool"
  assumes R_refl: "R d d" and R_trans: "R d d1 \<Longrightarrow> R d1 d2 \<Longrightarrow> R d d2"
begin

lemma obeys_bind: "obeys R m \<Longrightarrow> (\<And>x. obeys R (k x)) \<Longrightarrow> obeys R (bind_io m k)"
  unfolding obeys_def bind_io_def
  by (auto split: prod.splits sum.splits) (metis R_trans snd_conv)+

lemma obeys_seq: "obeys R m \<Longrightarrow> obeys R k \<Longrightarrow> obeys R (seq_io m k)"
  unfolding seq_io_def by (rule obeys_bind)

lemma obeys_basic: "obeys R (ret_io x)" "obeys R (fail_io e)" "obeys R (ask f)"
    "obeys R (look g)" "obeys R (lift_err c r)" "obeys R (bail_io b e)"
  by (auto simp: obeys_def R_refl ret_io_def fail_io_def ask_def look_def lift_err_def bail_io_def
      split: sum.splits)

lemma obeys_ok: "obeys R m \<Longrightarrow> obeys R (ok_io m)"
  by (simp add: obeys_def ok_io_def)

lemma obeys_call: "(\<And>d. R d (snd (f d))) \<Longrightarrow> obeys R (call f)"
  unfolding obeys_def call_def by (auto split: prod.splits sum.splits) (metis snd_conv)+

lemma obeys_if: "(b \<Longrightarrow> obeys R m) \<Longrightarrow> (\<not> b \<Longrightarrow> obeys R k) \<Longrightarrow> obeys R (if b then m else k)"
  by simp

lemma obeys_option: "(o' = None \<Longrightarrow> obeys R m) \<Longrightarrow> (\<And>x. o' = Some x \<Longrightarrow> obeys R (k x)) \<Longrightarrow>
    obeys R (case o' of None \<Rightarrow> m | Some x \<Rightarrow> k x)"
  by (simp split: option.splits)

lemma obeys_for: "(\<And>x. x \<in> set xs \<Longrightarrow> obeys R (f x)) \<Longrightarrow> obeys R (for_io f xs)"
  by (induction xs) (simp_all add: obeys_basic obeys_seq)

lemma obeys_bind_known:
  "obeys R m \<Longrightarrow> (\<And>x d d'. m d = (Inr x, d') \<Longrightarrow> obeys R (k x)) \<Longrightarrow> obeys R (bind_io m k)"
  unfolding obeys_def bind_io_def
  by (auto split: prod.splits sum.splits) (metis R_trans snd_conv)+

lemmas obeys_intros = obeys_bind obeys_seq obeys_basic obeys_ok obeys_if obeys_option obeys_for

end

interpretation within: run_relation "confined k" for k
  by unfold_locales (rule confined_refl, rule confined_trans)

lemma obeys_confined:
  assumes "below k (locate p)"
  shows "obeys (confined k) (create_dirs p)" "obeys (confined k) (set_mode p m)"
    "obeys (confined k) (set_file_mtime p t)" "locate p \<noteq> [] \<Longrightarrow> obeys (confined k) (remove_any p)"
    "obeys (confined k) (call (write_file (locate p) w))"
    "obeys (confined k) (call (open_rw (locate p)))"
    "obeys (confined k) (call (update_file (locate p) f))"
    "obeys (confined k) (call (symlink target (locate p)))"
    "below k (locate q) \<Longrightarrow> obeys (confined k) (call (rename (locate p) (locate q)))"
  using assms confined_create_dir_all confined_update confined_write_file confined_open_rw confined_symlink
    confined_rename confined_remove_tree
  by (auto simp: create_dirs_def set_mode_def set_file_mtime_def intro!: within.obeys_call
      within.obeys_basic split: prod.splits)
    (auto simp: obeys_def remove_any_def confined_refl)

section \<open>Where the paths lie\<close>

lemma below_butlast: "below j (butlast k) \<Longrightarrow> below j k"
  by (cases k rule: rev_cases) (auto simp: below_iff)

lemma below_split: "below k (a @ m) \<Longrightarrow> below k a \<or> below a k"
  by (auto simp: below_iff append_eq_append_conv2)

lemma walk_append: "walk_names (cs @ cs') k = walk_names cs' (walk_names cs k)"
  by (induction cs k rule: walk_names.induct) simp_all

lemma walk_skip: "walk_names cs k = walk_names (filter (\<lambda>c. c \<noteq> CurDir) cs) k"
  by (induction cs k rule: walk_names.induct) simp_all

lemma walk_Normal: "walk_names (map Normal ws) k = k @ ws"
  by (induction ws arbitrary: k) simp_all

lemma is_absolute_RootDir: "is_absolute p \<longleftrightarrow> RootDir \<in> set (components p)"
proof -
  have "RootDir \<notin> set (List.map_filter component_of ws)" for ws
    by (auto simp: map_filter_def split: if_splits)
  then show ?thesis by (auto simp: components_def Let_def)
qed

lemma locate_push:
  assumes "\<not> is_absolute q"
  shows "locate (path_push p q) = walk_names (components q) (locate p)"
proof (cases "p = ''''")
  case True
  then have "path_push p q = q" using assms by (simp add: path_push_def)
  with True show ?thesis by (simp add: locate_def)
next
  case False
  have "walk_names (components q) k = walk_names (inner_components q) k" for k
    using assms by (simp add: components_def Let_def)
  with components_push [OF assms False] show ?thesis by (simp add: locate_def walk_append)
qed

definition plain_rel :: "string \<Rightarrow> string list \<Rightarrow> bool" where
  "plain_rel rel ws \<longleftrightarrow> ws \<noteq> [] \<and> (\<forall>w\<in>set ws. valid_name w) \<and>
     filter (\<lambda>c. c \<noteq> CurDir) (components rel) = map Normal ws"

lemma plain_relative: "plain_rel rel ws \<Longrightarrow> \<not> is_absolute rel"
proof
  assume p: "plain_rel rel ws" and "is_absolute rel"
  then have "RootDir \<in> set (filter (\<lambda>c. c \<noteq> CurDir) (components rel))" by (simp add: is_absolute_RootDir)
  with p show False by (auto simp: plain_rel_def)
qed

lemma plain_names: "plain_rel (join_with ''/'' ws) ws" if "ws \<noteq> []" "\<forall>w\<in>set ws. valid_name w"
  using that by (simp add: plain_rel_def components_join filter_map comp_def)

lemma plain_valid: "valid_name w \<Longrightarrow> plain_rel w [w]"
  using plain_names [of "[w]"] by simp

lemma locate_join:
  assumes "plain_rel rel ws"
  shows "locate (path_push p rel) = locate p @ ws"
  using assms locate_push [OF plain_relative [OF assms]] walk_skip [of "components rel"]
  by (simp add: plain_rel_def walk_Normal)

lemma plain_unique: "plain_rel rel ws \<Longrightarrow> plain_rel rel ws' \<Longrightarrow> ws = ws'"
  by (auto simp: plain_rel_def inj_map_eq_map [of Normal] inj_def)

lemma components_last:
  assumes "plain_rel rel ws"
  obtains pre where "components rel = pre @ [Normal (last ws)]"
    and "filter (\<lambda>c. c \<noteq> CurDir) pre = map Normal (butlast ws)" and "canonical pre"
proof -
  from assms have ne: "components rel \<noteq> []" by (auto simp: plain_rel_def)
  then obtain pre c where c: "components rel = pre @ [c]" by (metis rev_exhaust)
  have can: "canonical (pre @ [c])" using components_canonical [of rel] c by simp
  have f: "filter (\<lambda>c. c \<noteq> CurDir) (pre @ [c]) = map Normal ws" and ws: "ws \<noteq> []"
    using assms c by (simp_all add: plain_rel_def)
  have "c \<noteq> CurDir"
  proof (cases pre)
    case (Cons a pre')
    with can show ?thesis by (auto simp: canonical_def inner_def)
  qed (use f ws in auto)
  with f have g: "filter (\<lambda>c. c \<noteq> CurDir) pre @ [c] = map Normal (butlast ws @ [last ws])" using ws by simp
  have "canonical pre" using can by (cases pre) (auto simp: canonical_def)
  with g c that show ?thesis by simp
qed

lemma parent_of_names:
  assumes "components p = cs @ [Normal x]"
  shows "file_name p = Some x" and "path_parent p = Some (push_all cs)"
    and "locate p = locate (push_all cs) @ [x]" and "components (push_all cs) = cs"
proof -
  have can: "canonical cs" using components_canonical [of p] assms by (cases cs) (auto simp: canonical_def)
  then show c: "components (push_all cs) = cs" by (rule components_push_all)
  show "file_name p = Some x" "path_parent p = Some (push_all cs)" using assms by (simp_all add: file_name_def path_parent_def)
  show "locate p = locate (push_all cs) @ [x]" by (simp add: locate_def assms c walk_append)
qed

lemma create_parent_eq:
  "components p = cs @ [Normal x] \<Longrightarrow> create_parent p = call (create_dir_all (butlast (locate p)))"
  by (simp add: create_parent_def create_dirs_def parent_of_names)

lemma plain_parent:
  assumes "plain_rel rel ws"
  shows "file_name rel = Some (last ws)"
    and "\<exists>q. path_parent rel = Some q \<and> \<not> is_absolute q \<and> locate (path_push p q) = locate p @ butlast ws"
proof -
  obtain pre where pre: "components rel = pre @ [Normal (last ws)]"
    and f: "filter (\<lambda>c. c \<noteq> CurDir) pre = map Normal (butlast ws)" using components_last [OF assms] by blast
  note parts = parent_of_names [OF pre]
  show "file_name rel = Some (last ws)" by (rule parts(1))
  have na: "\<not> is_absolute (push_all pre)"
    using plain_relative [OF assms] by (simp add: is_absolute_RootDir parts(4) pre)
  have "locate (path_push p (push_all pre)) = locate p @ butlast ws"
    by (simp add: locate_push [OF na] parts(4) walk_skip [of pre] f walk_Normal)
  with parts(2) na show "\<exists>q. path_parent rel = Some q \<and> \<not> is_absolute q \<and> locate (path_push p q) = locate p @ butlast ws"
    by blast
qed

lemma decimal_digits: "decimal n \<noteq> '''' \<and> (\<forall>c\<in>set (decimal n). is_ascii_digit c)"
proof (induction n rule: decimal.induct)
  case (1 n)
  have d: "is_ascii_digit (char_of (48 + m mod 10))" for m :: nat by (simp add: is_ascii_digit_def)
  then show ?case
  proof (cases "n < 10")
    case True
    then have "decimal n = [char_of (48 + n mod 10)]" by (simp add: decimal.simps [of n])
    with d show ?thesis by simp
  next
    case False
    then have "decimal n = decimal (n div 10) @ [char_of (48 + n mod 10)]" by (simp add: decimal.simps [of n])
    with 1 d False show ?thesis by simp
  qed
qed

lemma digit_not_special: "is_ascii_digit c \<Longrightarrow> c \<noteq> CHR ''.'' \<and> \<not> is_sep c"
  by (auto simp: is_ascii_digit_def is_sep_def)

lemma valid_decimal: "valid_name (decimal n)"
  using decimal_digits [of n] digit_not_special
  by (cases "decimal n") (auto simp: valid_name_def)

lemma valid_show_i64: "valid_name (show_i64 c)"
proof -
  have "valid_name (''-'' @ decimal n)" for n
    using valid_decimal [of n] by (auto simp: valid_name_def is_sep_def)
  then show ?thesis using valid_decimal by (simp add: show_i64_def)
qed

lemma valid_internal: "valid_name INTERNAL_TMP" "valid_name INTERNAL_TRASH"
  by (auto simp: valid_name_def INTERNAL_TMP_def INTERNAL_TRASH_def is_sep_def)

lemma valid_tmp_name: "valid_name w \<Longrightarrow> valid_name (w @ ''.tmp.'' @ decimal n)"
  using valid_decimal [of n] by (auto simp: valid_name_def is_sep_def append_eq_Cons_conv)

lemma locate_push_valid: "valid_name w \<Longrightarrow> locate (path_push p w) = locate p @ [w]"
  by (rule locate_join [OF plain_valid])

lemma push_not_Nil: "q \<noteq> '''' \<Longrightarrow> path_push p q \<noteq> ''''"
  by (simp add: path_push_def)

lemma components_push_valid:
  "valid_name w \<Longrightarrow> p \<noteq> '''' \<Longrightarrow> components (path_push p w) = components p @ [Normal w]"
  by (simp add: components_push valid_name_relative inner_components_valid del: component_of.simps)

text \<open>The three places of a transfer of \<open>rel\<close> below \<open>root\<close>.\<close>

definition tmp_key :: "receiver \<Rightarrow> path_buf \<Rightarrow> int \<Rightarrow> string list \<Rightarrow> key" where
  "tmp_key rc root cycle ws = locate root @ [INTERNAL_TMP, show_i64 cycle] @ butlast ws
     @ [last ws @ ''.tmp.'' @ decimal (process_id rc)]"

definition trash_key :: "path_buf \<Rightarrow> int \<Rightarrow> string list \<Rightarrow> key" where
  "trash_key root cycle ws = locate root @ [INTERNAL_TRASH, show_i64 cycle] @ ws"

lemma tmp_of_key:
  assumes "plain_rel rel ws"
  shows "locate (tmp_of rc root cycle rel) = tmp_key rc root cycle ws"
    and "create_parent (tmp_of rc root cycle rel) = call (create_dir_all (butlast (tmp_key rc root cycle ws)))"
proof -
  let ?base = "path_push (path_push root INTERNAL_TMP) (show_i64 cycle)"
  let ?name = "last ws @ ''.tmp.'' @ decimal (process_id rc)"
  from plain_parent(2) [OF assms, of ?base] obtain q where q: "path_parent rel = Some q"
    "locate (path_push ?base q) = locate ?base @ butlast ws" by blast
  have t: "tmp_of rc root cycle rel = path_push (path_push ?base q) ?name"
    by (simp add: tmp_of_def tmp_path_def plain_parent(1) [OF assms] q(1))
  have "valid_name (last ws)" using assms by (simp add: plain_rel_def)
  then have v: "valid_name ?name" by (rule valid_tmp_name)
  show l: "locate (tmp_of rc root cycle rel) = tmp_key rc root cycle ws"
    by (simp add: t locate_push_valid [OF v, simplified] q(2) locate_push_valid valid_internal valid_show_i64 tmp_key_def)
  have "path_push ?base q \<noteq> ''''"
    by (auto simp: path_push_def INTERNAL_TMP_def is_absolute_def starts_with_def)
  from components_push_valid [OF v this] show
    "create_parent (tmp_of rc root cycle rel) = call (create_dir_all (butlast (tmp_key rc root cycle ws)))"
    using create_parent_eq [of "tmp_of rc root cycle rel"] l by (simp add: t)
qed

lemma safe_join_plain:
  assumes "safe_join_rel root rel = Inr p"
  obtains ws where "plain_rel rel ws" and "locate p = locate root @ ws" and "components p = components root @ map Normal ws \<or> root = ''''"
proof -
  from assms obtain out where n: "normalize_rel_path rel = Inr out" and p: "p = path_push root out"
    by (auto simp: safe_join_rel_def split: sum.splits)
  from normalize_rel_path_names [OF n] obtain ws where ws: "rel_names out ws" "components out = map Normal ws"
    and f: "filter (\<lambda>c. c \<noteq> CurDir) (components rel) = map Normal ws" by blast
  have "plain_rel rel ws" using ws(1) f by (simp add: plain_rel_def rel_names_def)
  moreover have po: "plain_rel out ws" using ws by (simp add: plain_rel_def rel_names_def filter_map comp_def)
  moreover have "components p = components root @ map Normal ws" if "root \<noteq> ''''"
    using components_push [OF plain_relative [OF po] that] inner_components_names [OF ws(1)] by (simp add: p)
  ultimately show ?thesis using that locate_join [OF po] by (simp add: p) blast
qed

lemma final_parent:
  assumes "components p = components root @ map Normal ws" and "ws \<noteq> []"
  shows "create_parent p = call (create_dir_all (butlast (locate p)))"
proof (rule create_parent_eq)
  show "components p = (components root @ map Normal (butlast ws)) @ [Normal (last ws)]"
    using assms by (metis append.assoc append_butlast_last_id list.simps(8,9) map_append)
qed

lemma trash_path_key:
  fixes cycle :: int
  assumes "plain_rel rel ws" and "root \<noteq> ''''"
    and trash_def: "trash = path_push (path_push (path_push root INTERNAL_TRASH) (show_i64 cycle)) rel"
  shows "locate trash = trash_key root cycle ws"
    and "create_parent trash = call (create_dir_all (butlast (trash_key root cycle ws)))"
proof -
  show l: "locate trash = trash_key root cycle ws"
    by (simp add: trash_def trash_key_def locate_join [OF assms(1)] locate_push_valid valid_internal valid_show_i64)
  let ?base = "path_push (path_push root INTERNAL_TRASH) (show_i64 cycle)"
  have ne: "?base \<noteq> ''''" by (auto simp: path_push_def INTERNAL_TRASH_def is_absolute_def starts_with_def)
  have "inner_components rel = filter (\<lambda>c. c \<noteq> CurDir) (components rel)"
    using plain_relative [OF assms(1)] inner_components_inner [of rel]
    by (auto simp: components_def Let_def inner_def list_all_iff filter_id_conv split: component.splits)
  then have "components trash = components ?base @ map Normal ws"
    using components_push [OF plain_relative [OF assms(1)] ne] assms(1) by (simp add: trash_def plain_rel_def)
  then show "create_parent trash = call (create_dir_all (butlast (trash_key root cycle ws)))"
    using final_parent [of trash ?base ws] assms(1) l by (simp add: plain_rel_def)
qed

section \<open>Every request stays below its root\<close>

lemma keys_below:
  "below (locate root) (tmp_key rc root cycle ws)" "below (locate root) (trash_key root cycle ws)"
  "below (locate root) (butlast (tmp_key rc root cycle ws))"
  "ws \<noteq> [] \<Longrightarrow> below (locate root) (butlast (trash_key root cycle ws))"
  by (auto simp: tmp_key_def trash_key_def butlast_append)

lemma keys_not_Nil [simp]: "tmp_key rc root cycle ws \<noteq> []" "trash_key root cycle ws \<noteq> []"
  by (simp_all add: tmp_key_def trash_key_def)

abbreviation contained :: "path_buf \<Rightarrow> ('e, 'a) action \<Rightarrow> bool" where
  "contained root \<equiv> obeys (confined (locate root))"

lemma contained_call_dirs: "below (locate root) k \<Longrightarrow> contained root (call (create_dir_all k))"
  by (rule within.obeys_call) (rule confined_create_dir_all)

lemma contained_trash:
  assumes "plain_rel rel ws" and "root \<noteq> ''''"
  shows "contained root (move_to_trash root rel cycle)"
proof -
  let ?trash = "path_push (path_push (path_push root INTERNAL_TRASH) (show_i64 cycle)) rel"
  note key = trash_path_key [OF assms refl, of cycle]
  have ws: "ws \<noteq> []" using assms(1) by (simp add: plain_rel_def)
  have "contained root (rename_if_there (locate (path_push root rel)) (trash_key root cycle ws))"
    using confined_rename [of "locate root" "locate (path_push root rel)" "trash_key root cycle ws"]
      keys_below(2) locate_join [OF assms(1)]
    by (auto simp: obeys_def rename_if_there_def split: prod.splits sum.splits io_error.splits) (metis snd_conv)+
  moreover have "contained root (remove_any ?trash)"
    by (rule obeys_confined(4)) (simp_all add: key keys_below)
  ultimately show ?thesis unfolding move_to_trash_def Let_def key
    by (intro within.obeys_intros contained_call_dirs keys_below(4) ws) (simp_all add: within.obeys_basic)
qed

lemma contained_replace:
  assumes "plain_rel rel ws" and "root \<noteq> ''''" and "below (locate root) (locate tmp)" "below (locate root) (locate p)"
  shows "contained root (replace_path root cycle rel tmp p)"
proof -
  have "contained root (\<lambda>d. case (lstat (locate tmp) d, lstat (locate p) d) of
       (Some t, Some f) \<Rightarrow> if same_kind t f then (Inr (), d) else move_to_trash root rel cycle d
     | _ \<Rightarrow> (Inl (Io NotFound), d))"
    using contained_trash [OF assms(1,2), of cycle] by (auto simp: obeys_def confined_refl split: option.splits)
  then show ?thesis unfolding replace_path_def
    by (intro within.obeys_intros obeys_confined(9) assms(3,4)) (simp_all add: within.obeys_basic)
qed

lemma safe_join_parts:
  assumes "safe_join_rel root rel = Inr p" and "root \<noteq> ''''"
  obtains ws where "plain_rel rel ws" and "ws \<noteq> []" and "locate p = locate root @ ws"
    and "create_parent p = call (create_dir_all (locate root @ butlast ws))"
proof -
  from safe_join_plain [OF assms(1)] obtain ws where ws: "plain_rel rel ws" "locate p = locate root @ ws"
    "components p = components root @ map Normal ws \<or> root = ''''" by blast
  then have ne: "ws \<noteq> []" by (simp add: plain_rel_def)
  moreover have "create_parent p = call (create_dir_all (locate root @ butlast ws))"
    using final_parent [of p root ws] ws ne assms(2) by (simp add: butlast_append)
  ultimately show ?thesis using that ws by blast
qed

lemma contained_finish:
  assumes "safe_join_rel root (rel_path e) = Inr p" and "root \<noteq> ''''" and "below (locate root) (locate tmp)" "locate tmp \<noteq> []"
  shows "contained root (finish_received_file rc root cycle e tmp p)"
proof -
  obtain ws where ws: "plain_rel (rel_path e) ws" "ws \<noteq> []" "locate p = locate root @ ws"
    and cp: "create_parent p = call (create_dir_all (locate root @ butlast ws))"
    using safe_join_parts [OF assms(1,2)] by blast
  show ?thesis unfolding finish_received_file_def hash_file_def cp
    by (intro within.obeys_intros contained_replace [OF ws(1) assms(2,3)] contained_call_dirs
        obeys_confined(2-4) assms(3,4)) (simp_all add: ws(3))
qed

lemma contained_safe_join:
  assumes "\<And>p. safe_join_rel root rel = Inr p \<Longrightarrow> contained root (k p)"
  shows "contained root (bind_io (safe_join root rel) k)"
  by (rule within.obeys_bind_known) (auto simp: safe_join_def within.obeys_basic run_simps assms)

lemma contained_reject: "contained root (reject_dangerous rc r)"
  by (simp add: reject_dangerous_def within.obeys_basic)

lemma contained_dir_path:
  assumes "root \<noteq> ''''" and "\<And>p. below (locate root) (locate p) \<Longrightarrow> contained root (k p)"
  shows "contained root (bind_io (dir_path root rel) k)"
proof (cases "rel = ''''")
  case True
  then show ?thesis unfolding dir_path_def by (intro within.obeys_bind_known) (auto simp: run_simps within.obeys_basic assms(2))
next
  case False
  have "contained root (k p)" if "safe_join_rel root rel = Inr p" for p
    using safe_join_parts [OF that assms(1)] by (intro assms(2)) (metis below_append)
  with False show ?thesis by (simp add: dir_path_def contained_safe_join)
qed

lemmas contained_intros = contained_reject contained_safe_join within.obeys_intros

lemma joined_below:
  "safe_join_rel root rel = Inr p \<Longrightarrow> root \<noteq> '''' \<Longrightarrow> below (locate root) (locate p)"
  by (metis below_append safe_join_parts)

lemma joined_plain: "safe_join_rel root rel = Inr p \<Longrightarrow> root \<noteq> '''' \<Longrightarrow> \<exists>ws. plain_rel rel ws"
  by (metis safe_join_parts)

lemma tmp_below:
  assumes "plain_rel rel ws"
  shows "below (locate root) (locate (tmp_of rc root cycle rel))" and "locate (tmp_of rc root cycle rel) \<noteq> []"
    and "contained root (create_parent (tmp_of rc root cycle rel))"
  using tmp_of_key [OF assms] keys_below contained_call_dirs by simp_all

lemma contained_open_at:
  assumes "plain_rel rel ws"
  shows "contained root (open_at_offset rc (tmp_of rc root cycle rel) offset)"
  unfolding open_at_offset_def
  by (intro within.obeys_intros obeys_confined(4-7) tmp_below [OF assms])

lemma contained_stream:
  assumes "plain_rel rel ws"
  shows "contained root (write_stream q (tmp_of rc root cycle rel) n es)"
proof (induction q "tmp_of rc root cycle rel" n es rule: write_stream.induct)
  case (3 q written bytes es)
  then show ?case unfolding write_stream.simps
    by (intro within.obeys_intros obeys_confined(7) tmp_below [OF assms])
qed (simp_all add: within.obeys_basic)

text \<open>The receiver lists directories by the names of their entries.\<close>

definition lists_names :: "receiver \<Rightarrow> bool" where
  "lists_names rc \<longleftrightarrow> (\<forall>k d. \<forall>ns\<in>set_option (read_dir_names rc k d). \<forall>n\<in>set ns. valid_name n)"

lemma contained_sweep:
  assumes "valid_name dir" and "lists_names rc"
  shows "contained root (sweep_aged_subdirs rc (path_push root dir) days keep)"
proof -
  have sweep: "contained root (for_io (\<lambda>name. if (case keep of None \<Rightarrow> False | Some k \<Rightarrow> name = show_i64 k) then ret_io ()
       else bind_io (ask (modified_at rc (locate (path_push (path_push root dir) name)))) (\<lambda>modified. case modified of
           None \<Rightarrow> ret_io ()
         | Some t \<Rightarrow> if t < sweep_cutoff rc days then ok_io (remove_any (path_push (path_push root dir) name))
             else ret_io ())) ns)" if "read_dir_names rc k d = Some ns" for ns k d
  proof (intro within.obeys_intros obeys_confined(4))
    fix n assume "n \<in> set ns"
    then have "valid_name n" using assms(2) that by (force simp: lists_names_def)
    then show "below (locate root) (locate (path_push (path_push root dir) n))"
      "locate (path_push (path_push root dir) n) \<noteq> []"
      using assms(1) by (simp_all add: locate_push_valid)
  qed
  show ?thesis unfolding sweep_aged_subdirs_def
    by (rule within.obeys_bind_known) (auto simp: run_simps within.obeys_basic intro: sweep split: option.splits)
qed

lemma contained_remove_dir: "valid_name dir \<Longrightarrow> contained root (remove_dir (path_push root dir))"
  using confined_remove_tree [of "locate root" "locate (path_push root dir)"]
  by (auto simp: obeys_def remove_dir_def confined_refl locate_push_valid)

lemma contained_cleanup:
  assumes "lists_names rc"
  shows "contained root (transfer_cleanup_tmp rc root cycle keep)"
proof -
  have "contained root (remove_any (path_push (path_push root INTERNAL_TMP) (show_i64 cycle)))"
    by (rule obeys_confined(4)) (simp_all add: locate_push_valid valid_internal valid_show_i64)
  then show ?thesis
    unfolding transfer_cleanup_tmp_def cleanup_tmp_cycle_def cleanup_expired_trash_def Let_def
    by (intro contained_intros contained_sweep contained_remove_dir assms valid_internal)
qed

lemma contained_stage:
  assumes "root \<noteq> ''''"
  shows "contained root (stage_file rc root cycle h payload)"
  unfolding stage_file_def Let_def
  by (intro contained_intros; metis assms joined_plain tmp_below obeys_confined(5))

definition staged_ok :: "receiver \<Rightarrow> path_buf \<Rightarrow> int \<Rightarrow> staged \<Rightarrow> bool" where
  "staged_ok rc root cycle s \<longleftrightarrow> (case s of (e, tmp, p) \<Rightarrow>
     tmp = tmp_of rc root cycle (rel_path e) \<and> safe_join_rel root (rel_path e) = Inr p)"

lemma stage_file_ok: "stage_file rc root cycle h payload d = (Inr s, d') \<Longrightarrow> staged_ok rc root cycle s"
  by (auto simp: stage_file_def Let_def run_simps safe_join_def staged_ok_def)

lemma contained_frames:
  assumes "root \<noteq> ''''"
  shows "confined (locate root) d (snd (stage_frames parse rc root cycle rest staged failed d)) \<and>
    ((\<forall>s\<in>set staged. staged_ok rc root cycle s) \<longrightarrow>
      (case fst (stage_frames parse rc root cycle rest staged failed d) of Inl e \<Rightarrow> True
       | Inr (ss, fs) \<Rightarrow> \<forall>s\<in>set ss. staged_ok rc root cycle s))"
  using assms
proof (induction parse rc root cycle rest staged failed d rule: stage_frames.induct)
  case (1 parse rc root cycle rest staged failed d)
  let ?head = "parse (takeWhile (\<lambda>b. b \<noteq> newline) rest)" and ?body = "tl (dropWhile (\<lambda>b. b \<noteq> newline) rest)"
  show ?case
  proof (cases "rest = [] \<or> newline \<notin> set rest \<or> ?head = None \<or>
      length ?body < as_len (head_size (the ?head))")
    case True
    then show ?thesis
      by (subst (1 2) stage_frames.simps) (auto simp: confined_refl Let_def split: option.splits)
  next
    case False
    then obtain h where h: "?head = Some h" "\<not> length ?body < as_len (head_size h)" "rest \<noteq> []" "\<not> newline \<notin> set rest"
      by auto
    obtain r d' where st: "stage_file rc root cycle h (take (as_len (head_size h)) ?body) d = (r, d')" by fastforce
    have here: "confined (locate root) d d'" using contained_stage [OF "1.prems"] st by (metis obeys_def snd_conv)
    have eq: "stage_frames parse rc root cycle rest staged failed d = (case r of
        Inr s \<Rightarrow> stage_frames parse rc root cycle (drop (as_len (head_size h)) ?body) (staged @ [s]) failed d'
      | Inl e \<Rightarrow> stage_frames parse rc root cycle (drop (as_len (head_size h)) ?body) staged (failed @ [head_rel h]) d')"
      using h st by (subst stage_frames.simps) (simp add: Let_def split: sum.splits)
    show ?thesis
    proof (cases r)
      case (Inr s)
      note IH = "1.IH"(2) [OF h(3,4,1) refl refl h(2) st [unfolded Inr, symmetric] refl "1.prems"]
      with here eq Inr stage_file_ok [OF st [unfolded Inr]] show ?thesis
        by (auto intro: confined_trans split: sum.splits)
    next
      case (Inl e)
      note IH = "1.IH"(1) [OF h(3,4,1) refl refl h(2) st [unfolded Inl, symmetric] refl "1.prems"]
      with here eq Inl show ?thesis by (auto intro: confined_trans split: sum.splits)
    qed
  qed
qed

lemma confined_each:
  assumes "\<And>s. s \<in> set ss \<Longrightarrow> contained root (f s)"
  shows "confined (locate root) d (snd (each_staged f ss d)) \<and> set (fst (fst (each_staged f ss d))) \<subseteq> set ss"
  using assms
proof (induction f ss d rule: each_staged.induct)
  case (2 f s ss d)
  obtain r d' where st: "f s d = (r, d')" by fastforce
  have here: "confined (locate root) d d'" using 2(3) [of s] st by (metis list.set_intros(1) obeys_def snd_conv)
  show ?case
  proof (cases r)
    case (Inl e)
    with here st 2(1) [OF st [unfolded Inl, symmetric] refl] 2(3) show ?thesis
      by (auto intro: confined_trans split: prod.splits)
  next
    case (Inr u)
    with here st 2(2) [OF st [unfolded Inr, symmetric] refl] 2(3) show ?thesis
      by (auto intro: confined_trans split: prod.splits)
  qed
qed (simp add: confined_refl)

lemma contained_settle: "staged_ok rc root cycle s \<Longrightarrow> root \<noteq> '''' \<Longrightarrow> contained root (settle_staged rc s)"
  unfolding settle_staged_def staged_ok_def hash_file_def
  by (cases s) (auto intro!: within.obeys_intros obeys_confined(2-4) dest!: joined_plain intro: tmp_below
      simp: tmp_of_key)

lemma contained_publish:
  assumes "staged_ok rc root cycle s" and "root \<noteq> ''''"
  shows "contained root (publish_staged root cycle s)"
proof -
  obtain e tmp p where s: "s = (e, tmp, p)" by (metis prod_cases3)
  with assms(1) have t: "tmp = tmp_of rc root cycle (rel_path e)" and j: "safe_join_rel root (rel_path e) = Inr p"
    by (simp_all add: staged_ok_def)
  obtain ws where ws: "plain_rel (rel_path e) ws" "create_parent p = call (create_dir_all (locate root @ butlast ws))"
    using safe_join_parts [OF j assms(2)] by blast
  show ?thesis unfolding publish_staged_def s prod.case ws(2)
    by (intro contained_intros contained_replace [OF ws(1) assms(2)] contained_call_dirs)
      (simp_all add: t tmp_below [OF ws(1)] joined_below [OF j assms(2)])
qed

lemma contained_batch:
  assumes "root \<noteq> ''''"
  shows "contained root (transfer_put_files_batch parse rc root cycle body)"
proof -
  let ?tail = "\<lambda>(staged, failed) d. case each_staged (settle_staged rc) staged d of ((publish, bad), d1) \<Rightarrow>
        case each_staged (publish_staged root cycle) publish d1 of ((done_files, bad'), d2) \<Rightarrow>
          (Inr (failed @ bad @ bad') :: receive_error + string list, d2)"
  have tail: "contained root (?tail (staged, failed))" if ok: "\<forall>s\<in>set staged. staged_ok rc root cycle s" for staged failed
  proof -
    have "confined (locate root) d (snd (?tail (staged, failed) d))" for d
    proof -
      obtain publish bad d1 where one: "each_staged (settle_staged rc) staged d = ((publish, bad), d1)"
        by (metis prod.collapse)
      obtain fin bad' d2 where two: "each_staged (publish_staged root cycle) publish d1 = ((fin, bad'), d2)"
        by (metis prod.collapse)
      have "confined (locate root) d d1 \<and> set publish \<subseteq> set staged"
        using confined_each [of staged root "settle_staged rc" d, OF contained_settle] ok assms one by fastforce
      moreover have "confined (locate root) d1 d2" if "set publish \<subseteq> set staged"
        using confined_each [of publish root "publish_staged root cycle" d1, OF contained_publish] ok assms two that
        by fastforce
      ultimately show ?thesis using one two confined_trans by auto
    qed
    then show ?thesis by (simp add: obeys_def)
  qed
  have frames: "contained root (stage_frames parse rc root cycle body [] [])"
    using contained_frames [OF assms] by (auto simp: obeys_def)
  show ?thesis unfolding transfer_put_files_batch_def
  proof (intro within.obeys_seq contained_reject within.obeys_bind_known frames)
    fix x d d' assume run: "stage_frames parse rc root cycle body [] [] d = (Inr x, d')"
    obtain staged failed where x: "x = (staged, failed)" by fastforce
    have "\<forall>s\<in>set staged. staged_ok rc root cycle s"
      using contained_frames [OF assms, of d parse rc cycle body "[]" "[]"] run x by simp
    from tail [OF this] show "contained root (?tail x)" by (simp add: x)
  qed
qed

lemma contained_each_dir:
  assumes "root \<noteq> ''''"
  shows "contained root (set_dir_mtimes root dirs)"
    and "contained root (for_io (\<lambda>s. bind_io (dir_path root (spec_rel s)) create_dirs) dirs)"
  unfolding set_dir_mtimes_def
  by (intro within.obeys_for contained_dir_path assms within.obeys_intros obeys_confined(1-3); assumption)+

lemma contained_modes:
  assumes "root \<noteq> ''''"
  shows "contained root (transfer_set_modes rc root items)"
  unfolding transfer_set_modes_def
  by (intro contained_intros obeys_confined(2) joined_below [OF _ assms])

lemma contained_removal:
  assumes "root \<noteq> ''''"
  shows "contained root (bind_io (safe_join root rel) (\<lambda>p. bind_io (ask (present p)) (\<lambda>here.
           if \<not> here then ret_io () else move_to_trash root rel cycle)))"
  by (intro contained_intros; metis assms joined_plain contained_trash)

lemma contained_put:
  assumes "put_root q \<noteq> ''''"
  shows "contained (put_root q) (transfer_put_file rc q bytes)"
  unfolding transfer_put_file_def Let_def
  by (intro contained_intros contained_finish assms;
      (assumption | metis assms joined_plain tmp_below obeys_confined(5)))

lemma contained_delta:
  assumes "delta_root q \<noteq> ''''"
  shows "contained (delta_root q) (transfer_apply_delta rc q bytes)"
proof -
  have rel: "rel_path (file_entry r sz t m h) = r" for r sz t m h by (simp add: file_entry_def)
  show ?thesis unfolding transfer_apply_delta_def Let_def
    by (intro contained_intros contained_finish assms; (simp only: rel)?;
        (assumption | metis assms joined_plain tmp_below obeys_confined(4,5)))
qed

lemma contained_finish_file:
  assumes "root \<noteq> ''''"
  shows "contained root (transfer_finish_file rc root cycle e full_hash)"
proof -
  have rel: "rel_path (if b then e\<lparr>hash := h\<rparr> else e) = rel_path e" for b h by simp
  show ?thesis unfolding transfer_finish_file_def Let_def
    by (intro contained_intros contained_finish assms; (simp only: rel)?;
        (assumption | metis assms joined_plain tmp_below))
qed

lemma contained_symlink:
  assumes "root \<noteq> ''''"
  shows "contained root (receive_symlink_target rc root cycle e target)"
proof -
  have "contained root (replace_path root cycle (rel_path e) (tmp_of rc root cycle (rel_path e)) p)"
    if "safe_join_rel root (rel_path e) = Inr p" for p
    using joined_plain [OF that assms] contained_replace tmp_below assms joined_below [OF that assms] by blast
  then show ?thesis unfolding receive_symlink_target_def hash_symlink_def Let_def
    by (intro contained_intros; (assumption | metis assms joined_plain tmp_below obeys_confined(4,8)))
qed

lemma contained_offset:
  assumes "plain_rel rel ws"
  shows "contained root (transfer_file_offset rc root rel cycle sz)"
    and "contained root (open_at_offset rc (tmp_of rc root cycle rel) offset)"
proof -
  have "contained root (remove_any (tmp_of rc root cycle rel))"
    by (intro obeys_confined(4) tmp_below [OF assms])
  then have "contained root (\<lambda>d. let tmp = tmp_of rc root cycle rel in
         case metadata_len rc tmp d of
           Inr n \<Rightarrow> if n \<le> as_len sz then (Inr n, d) else (Inr 0, snd (remove_any tmp d))
         | Inl NotFound \<Rightarrow> (Inr 0, d)
         | Inl e \<Rightarrow> (Inl (Io e), d))"
    by (auto simp: obeys_def Let_def confined_refl split: sum.splits io_error.splits)
  then show "contained root (transfer_file_offset rc root rel cycle sz)"
    unfolding transfer_file_offset_def by (intro contained_intros)
qed (rule contained_open_at [OF assms])

lemma contained_join: "contained root (safe_join r rel)"
  by (simp add: safe_join_def within.obeys_basic)

lemma contained_sums: "contained root (transfer_block_sums rc r rel)"
  unfolding transfer_block_sums_def
  by (intro within.obeys_seq contained_reject within.obeys_bind contained_join)
    (auto simp: obeys_def confined_refl Let_def split: option.splits node.splits sum.splits)

lemma contained_prepare_dir:
  assumes "root \<noteq> ''''"
  shows "contained root (transfer_prepare_dir rc root rel)"
proof (cases rel)
  case None
  then show ?thesis unfolding transfer_prepare_dir_def
    by (intro within.obeys_seq contained_reject within.obeys_bind_known)
      (auto simp: run_simps within.obeys_basic intro: obeys_confined(1))
next
  case (Some r)
  then show ?thesis unfolding transfer_prepare_dir_def
    by (auto intro!: within.obeys_seq contained_reject contained_safe_join obeys_confined(1) joined_below assms)
qed

text \<open>The requests that address the temporary file of a path that no check covers.\<close>

lemma contained_unchecked:
  assumes "unchecked_rel req = Some rel" and "plain_rel rel ws"
  shows "contained (request_root req) (serve parse rc req)"
proof -
  note open_files = contained_offset [OF assms(2)] contained_open_at [OF assms(2)] contained_stream [OF assms(2)]
  show ?thesis
  proof (cases req)
    case (PutFileStream q body)
    with open_files assms(1) show ?thesis
      by (auto simp: ack_io_def answer_io_def api_transfer_put_file_stream_def run_simps Let_def
          transfer_open_file_stream_target_def intro!: contained_intros within.obeys_bind_known)
  next
    case (ReceiveFileChunk q body)
    with open_files tmp_below [OF assms(2)] assms(1) show ?thesis
      by (auto simp: ack_io_def answer_io_def transfer_receive_file_chunk_def Let_def
          intro!: contained_intros obeys_confined(7))
  next
    case (FileOffset r rel cycle sz)
    with open_files assms(1) show ?thesis by (auto simp: answer_io_def intro!: contained_intros)
  qed (use assms(1) in auto)
qed

lemma contained_request:
  assumes "request_root req \<noteq> ''''" and "lists_names rc"
    and "\<forall>rel\<in>set_option (unchecked_rel req). \<exists>p. normalize_rel_path rel = Inr p"
  shows "contained (request_root req) (serve parse rc req)"
proof (cases "unchecked_rel req")
  case (Some rel)
  then obtain ws where "plain_rel rel ws"
    using assms(3) joined_plain [of "''x''" rel] by (auto simp: safe_join_rel_def)
  with Some show ?thesis by (rule contained_unchecked)
next
  case None
  show ?thesis
  proof (cases req)
    case (AskBlockSums r rel)
    then show ?thesis by (auto simp: answer_io_def intro!: contained_intros contained_sums)
  qed (use assms None in \<open>auto simp: ack_io_def answer_io_def transfer_prepare_dirs_def
      transfer_set_dir_mtimes_def transfer_remove_path_def transfer_remove_paths_def transfer_receive_symlink_def
      intro!: contained_intros contained_each_dir contained_modes contained_removal contained_cleanup
      contained_put contained_batch contained_delta contained_finish_file contained_symlink contained_prepare_dir\<close>)
qed


end
