(* ===== verification/Receive_Publish.thy ===== *)
theory Receive_Publish
  imports Receive_Runs
begin

text \<open>
  What a successful request leaves on the destination: the published file with its content, mode and
  time, the trash that holds what was replaced or removed, chunks and deltas that assemble to the
  sender's file; and the requests that go wrong.
\<close>

section \<open>Effects of the calls\<close>

lemma create_dir_all_effect:
  assumes "create_dir_all k d = (Inr (), d')" and "fs_ok d"
  shows "fs_ok d'" and "d j \<noteq> None \<Longrightarrow> d' j = d j" and "\<not> below j k \<Longrightarrow> d' j = d j" and "dir_at k d'"
    and "d' j \<noteq> d j \<Longrightarrow> d j = None \<and> d' j = Some (Directory None None) \<and> below j k"
  using make_dirs_spec [OF assms(1) [unfolded create_dir_all_def] dir_at_root assms(2)]
  by (auto dest: spec [of _ k])

lemma make_dirs_total:
  "\<forall>j. below j xs \<longrightarrow> d (pre @ j) = None \<or> dir_at (pre @ j) d \<Longrightarrow> fst (make_dirs pre xs d) = Inr ()"
proof (induction pre xs d rule: make_dirs.induct)
  case (2 pre x xs d)
  have step: "d ((pre @ [x]) @ j) = None \<or> dir_at ((pre @ [x]) @ j) d" if "below j xs" for j
    using 2(3) that by (auto simp: below_def dest: spec [of _ "x # j"])
  have "d (pre @ [x]) = None \<or> dir_at (pre @ [x]) d" using step [of "[]"] by simp
  then consider "d (pre @ [x]) = None" | t m where "d (pre @ [x]) = Some (Directory t m)"
    by (auto dest: dir_atE)
  then show ?case
  proof cases
    case 1
    let ?d = "d(pre @ [x] \<mapsto> Directory None None)"
    have "\<forall>j. below j xs \<longrightarrow> ?d ((pre @ [x]) @ j) = None \<or> dir_at ((pre @ [x]) @ j) ?d"
      using step dir_at_upd [of _ d "pre @ [x]" None None] by (auto simp del: append_assoc)
    from 2(1) [OF 1 this] show ?thesis using 1 by (simp del: fun_upd_apply)
  next
    case (2 t m)
    with "2.IH"(2) [OF 2 refl] step show ?thesis by simp
  qed
qed simp

lemma create_dir_all_total:
  assumes "fs_ok d" and "\<forall>j. below j k \<longrightarrow> d j = None \<or> dir_at j d"
  obtains d' where "create_dir_all k d = (Inr (), d')"
proof -
  have "fst (create_dir_all k d) = Inr ()" unfolding create_dir_all_def by (rule make_dirs_total) (simp add: assms(2))
  with that show ?thesis by (metis prod.collapse)
qed

lemma rename_effect:
  assumes "rename a b d = (Inr (), d')"
  shows "d a \<noteq> None" and "d' (b @ m) = d (a @ m)" and "\<not> below a j \<Longrightarrow> \<not> below b j \<Longrightarrow> d' j = d j"
    and "a \<noteq> b \<Longrightarrow> d' (a @ m) = None" and "a \<noteq> b \<Longrightarrow> \<not> below a b" and "a \<noteq> b \<Longrightarrow> \<not> below b a"
proof -
  show "d a \<noteq> None" using assms by (auto simp: rename_def split: option.splits)
  have c: "(a = b \<and> d' = d) \<or> (a \<noteq> b \<and> d' = moved a b d \<and> \<not> below a b \<and> \<not> below b a)"
    using assms by (auto simp: rename_def split: option.splits if_splits)
  then show "d' (b @ m) = d (a @ m)" "\<not> below a j \<Longrightarrow> \<not> below b j \<Longrightarrow> d' j = d j" by (auto simp: moved_def)
  show "a \<noteq> b \<Longrightarrow> \<not> below a b" "a \<noteq> b \<Longrightarrow> \<not> below b a" using c by auto
  show "d' (a @ m) = None" if "a \<noteq> b"
  proof -
    have "\<not> below b (a @ m)" using c that by (auto simp: below_iff append_eq_append_conv2)
    with c that show ?thesis by (auto simp: moved_def)
  qed
qed

lemma rename_leaf:
  assumes "fs_ok d" and "d a = Some n" and "\<not> below a b" "\<not> below b a" and "dir_at (butlast b) d" and "d b = None" and "b \<noteq> []"
  shows "rename a b d = (Inr (), moved a b d)"
  using assms by (auto simp: rename_def)

lemma present_iff: "locate p \<noteq> [] \<Longrightarrow> present p d \<longleftrightarrow> d (locate p) \<noteq> None"
  by (simp add: present_def lstat_def)

lemma present_join: "plain_rel rel ws \<Longrightarrow> present (path_push root rel) d \<longleftrightarrow> d (locate root @ ws) \<noteq> None"
  using locate_join [of rel ws root] by (simp add: present_def lstat_def plain_rel_def)

section \<open>The trash\<close>

text \<open>\<open>held\<close>: the subtree at \<open>a\<close> before is the subtree at \<open>b\<close> afterwards and is gone from \<open>a\<close>.\<close>

definition held :: "key \<Rightarrow> key \<Rightarrow> fs \<Rightarrow> fs \<Rightarrow> bool" where
  "held a b d d' \<longleftrightarrow> (\<forall>m. d' (b @ m) = d (a @ m)) \<and> (\<forall>m. d' (a @ m) = None) \<and>
     (\<forall>j. \<not> below a j \<and> \<not> below b j \<longrightarrow>
        d' j = d j \<or> (below j b \<and> d j = None \<and> d' j = Some (Directory None None)))"

lemma trash_not_below: "\<not> below (trash_key root cycle ws) (locate root @ ws)"
  by (auto simp: trash_key_def below_iff)

lemma remove_tree_absent: "fs_ok d \<Longrightarrow> d k = None \<Longrightarrow> k \<noteq> [] \<Longrightarrow> remove_tree k d = d"
proof
  fix j assume ok: "fs_ok d" "d k = None" "k \<noteq> []"
  then have "\<not> dir_at k d" by (simp add: dir_at_iff)
  from fs_ok_leaf [OF ok(1) this] ok(2) have "d (k @ m) = None" for m by (cases "m = []") simp_all
  then show "remove_tree k d j = d j" by (auto simp: remove_tree_def below_iff)
qed

lemma trash_absent:
  assumes "plain_rel rel ws" and "d (locate root @ ws) = None"
  shows "move_to_trash root rel cycle d = (Inr (), d)"
  by (simp add: move_to_trash_def Let_def bind_io_def ask_def ret_io_def present_join [OF assms(1)] assms(2))

lemma trash_present:
  fixes cycle :: int
  assumes "plain_rel rel ws" and "root \<noteq> ''''" and "d (locate root @ ws) \<noteq> None" and "fs_ok d"
    and k_def: "k = trash_key root cycle ws"
  shows "move_to_trash root rel cycle d =
    (case create_dir_all (butlast k) d of
       (Inl e, d1) \<Rightarrow> (Inl (Io e), d1)
     | (Inr _, d1) \<Rightarrow> rename_if_there (locate root @ ws) k (remove_tree k d1))"
proof -
  let ?t = "path_push (path_push (path_push root INTERNAL_TRASH) (show_i64 cycle)) rel"
  note key = trash_path_key [OF assms(1,2) refl, of cycle]
  obtain r d1 where made: "create_dir_all (butlast k) d = (r, d1)" by fastforce
  have start: "move_to_trash root rel cycle d = seq_io (call (create_dir_all (butlast k)))
       (seq_io (bind_io (ask (present ?t)) (\<lambda>old. if old then remove_any ?t else ret_io ()))
         (rename_if_there (locate root @ ws) k)) d"
    using assms(3) by (simp add: move_to_trash_def Let_def bind_step(1) [OF step_result(3)] present_join [OF assms(1)]
        key k_def locate_join [OF assms(1), of root])
  show ?thesis
  proof (cases r)
    case (Inl e)
    then show ?thesis using made start by (simp add: seq_step(2) [OF step_result(6)])
  next
    case (Inr u)
    then have made: "create_dir_all (butlast k) d = (Inr (), d1)" using made by simp
    have ok: "fs_ok d1" using create_dir_all_effect(1) [OF made assms(4)] .
    have clear: "bind_io (ask (present ?t)) (\<lambda>old. if old then remove_any ?t else ret_io ()) d1
        = (Inr (), remove_tree k d1)"
      using remove_tree_absent [OF ok, of k]
      by (auto simp: bind_step(1) [OF step_result(3)] remove_any_def ret_io_def present_iff key k_def)
    have first: "call (create_dir_all (butlast k)) d = (Inr (), d1)" using made by (rule step_result)
    show ?thesis
      by (simp add: start made seq_step(1) [of "call (create_dir_all (butlast k))", OF first]
          seq_step(1) [of "bind_io (ask (present ?t)) (\<lambda>old. if old then remove_any ?t else ret_io ())", OF clear])
  qed
qed

text \<open>A successful move holds the whole subtree, whatever the trash held at that place before.\<close>

lemma move_to_trash_held:
  assumes "plain_rel rel ws" and "root \<noteq> ''''" and "fs_ok d" and "d (locate root @ ws) \<noteq> None"
    and run: "move_to_trash root rel cycle d = (Inr (), d')"
  shows "held (locate root @ ws) (trash_key root cycle ws) d d' \<and> fs_ok d'"
proof -
  let ?a = "locate root @ ws" and ?k = "trash_key root cycle ws"
  have ws: "ws \<noteq> []" using assms(1) by (simp add: plain_rel_def)
  have na: "\<not> below ?k ?a" by (rule trash_not_below)
  obtain d1 where made: "create_dir_all (butlast ?k) d = (Inr (), d1)"
    using run by (auto simp: trash_present [OF assms(1,2,4,3) refl] split: prod.splits sum.splits)
  note eff = create_dir_all_effect [OF made assms(3)]
  have k: "?k = butlast ?k @ [last ?k]" by simp
  have nbk: "\<not> below ?k (butlast ?k)" using k by (metis below_antisym below_append not_Cons_self2 append_self_conv)
  let ?d = "remove_tree ?k d1"
  have dir: "dir_at (butlast ?k) ?d" using eff(4) nbk dir_at_cong [of "butlast ?k" ?d d1] by (simp add: remove_tree_def)
  have here: "?d ?a = d ?a" using eff(2) [of ?a] assms(4) na by (simp add: remove_tree_def)
  obtain r d2 where ren: "rename ?a ?k ?d = (r, d2)" by fastforce
  with run made have "r \<noteq> Inl NotFound \<Longrightarrow> r = Inr ()" "d2 = d'"
    by (auto simp: trash_present [OF assms(1,2,4,3) refl] rename_if_there_def split: sum.splits io_error.splits)
  moreover have "r \<noteq> Inl NotFound"
    using ren here assms(4) dir by (auto simp: rename_def dir_at_iff split: option.splits if_splits)
  ultimately have ren: "rename ?a ?k ?d = (Inr (), d')" using ren by simp
  note reff = rename_effect [OF ren]
  have ne: "?a \<noteq> ?k" using na by auto
  have nb: "\<not> below ?a ?k" using reff(5) ne by simp
  have same: "?d (?a @ m) = d (?a @ m)" for m
  proof -
    have "\<not> below ?k (?a @ m)" using na nb below_split by blast
    moreover have "\<not> below (?a @ m) (butlast ?k)" using nb k by (metis below_append below_trans)
    ultimately show ?thesis using eff(3) by (simp add: remove_tree_def)
  qed
  have "d' j = d j \<or> (below j ?k \<and> d j = None \<and> d' j = Some (Directory None None))"
    if "\<not> below ?a j" "\<not> below ?k j" for j
  proof -
    have "below j ?k" if "below j (butlast ?k)" using that k below_trans below_append by metis
    then show ?thesis using reff(3) [OF that] that(2) eff(5) [of j] by (auto simp: remove_tree_def)
  qed
  then have "held ?a ?k d d'" using reff(2,4) ne same by (simp add: held_def)
  moreover have "fs_ok d'"
    using assms(3) run contained_trash [OF assms(1,2), of cycle]
    by (auto simp: obeys_def confined_def dest: spec [of _ d])
  ultimately show ?thesis ..
qed

lemma move_to_trash_total:
  assumes "plain_rel rel ws" and "root \<noteq> ''''" and "fs_ok d" and "d (locate root @ ws) \<noteq> None"
    and apart: "\<not> below (locate root @ ws) (trash_key root cycle ws)"
    and free: "\<forall>j. below j (butlast (trash_key root cycle ws)) \<longrightarrow> d j = None \<or> dir_at j d"
  obtains d' where "move_to_trash root rel cycle d = (Inr (), d')"
proof -
  let ?a = "locate root @ ws" and ?k = "trash_key root cycle ws"
  obtain d1 where made: "create_dir_all (butlast ?k) d = (Inr (), d1)" using create_dir_all_total [OF assms(3) free] .
  note eff = create_dir_all_effect [OF made assms(3)]
  let ?d = "remove_tree ?k d1"
  have na: "\<not> below ?k ?a" by (rule trash_not_below)
  have k: "?k = butlast ?k @ [last ?k]" by simp
  have nbk: "\<not> below ?k (butlast ?k)" using k by (metis below_antisym below_append not_Cons_self2 append_self_conv)
  have "?d ?a = d ?a" using eff(2) [of ?a] assms(4) na by (simp add: remove_tree_def)
  then obtain n where n: "?d ?a = Some n" using assms(4) by auto
  have "dir_at (butlast ?k) ?d"
    using eff(4) nbk dir_at_cong [of "butlast ?k" ?d d1] by (simp add: remove_tree_def)
  then have "rename ?a ?k ?d = (Inr (), moved ?a ?k ?d)"
    using fs_ok_remove_tree [OF eff(1)] n apart na by (intro rename_leaf) (simp_all add: remove_tree_def)
  then have "move_to_trash root rel cycle d = (Inr (), moved ?a ?k ?d)"
    using made by (simp add: trash_present [OF assms(1,2,4,3) refl] rename_if_there_def)
  then show ?thesis by (rule that)
qed

lemma remove_one:
  assumes "plain_rel rel ws" and "safe_join_rel root rel = Inr p" and "root \<noteq> ''''"
  shows "bind_io (safe_join root rel) (\<lambda>p. bind_io (ask (present p)) (\<lambda>here.
      if \<not> here then ret_io () else move_to_trash root rel cycle)) d = move_to_trash root rel cycle d"
proof -
  obtain ws' where ws': "plain_rel rel ws'" "locate p = locate root @ ws'" using safe_join_plain [OF assms(2)] by blast
  have "ws' = ws" using plain_unique [OF ws'(1) assms(1)] .
  then have p: "present p d \<longleftrightarrow> d (locate root @ ws) \<noteq> None"
    using ws'(2) assms(1) by (simp add: present_def lstat_def plain_rel_def)
  show ?thesis
    using trash_absent [OF assms(1), of d root cycle] by (auto simp: bind_safe_join [OF assms(2)] bind_ask p ret_io_def)
qed


lemma plain_join: "plain_rel (join_with ''/'' ws) ws \<Longrightarrow> safe_join_rel root (join_with ''/'' ws) = Inr (path_push root (join_with ''/'' ws))"
  using normalize_rel_names [of "join_with ''/'' ws" ws] by (simp add: safe_join_rel_def plain_rel_def rel_names_def)

text \<open>C23: a mirror pass removes what the source no longer has, deepest paths first, so a directory
  follows its files. When it arrives, the place in the trash where its files already are is cleared for
  it: after the two removals, both acknowledged, the file is neither on the destination nor in the
  trash, nor has any file come to another place.\<close>

theorem mirror_delete_empties_trash:
  assumes "reject_dangerous_destination (canonical_path rc) root = Inr ()" and "root \<noteq> ''''" and "fs_ok d"
    and ws: "ws \<noteq> []" "\<forall>w\<in>set ws. valid_name w" "hd ws \<noteq> INTERNAL_TRASH" and "valid_name f"
    and has_file: "d (locate root @ ws @ [f]) = Some (RegularFile w t m)"
    and alone: "\<forall>k. d (locate root @ ws @ k) \<noteq> None \<longrightarrow> k = [] \<or> k = [f]"
    and vacant: "\<forall>k. below k (trash_key root cycle ws) \<longrightarrow> d k = None \<or> dir_at k d"
  shows "\<exists>d'. transfer_remove_paths rc root [join_with ''/'' (ws @ [f]), join_with ''/'' ws] cycle d = (Inr (), d') \<and>
    (\<forall>k w t m. d' k = Some (RegularFile w t m) \<longrightarrow> d k = Some (RegularFile w t m) \<and> k \<noteq> locate root @ ws @ [f])"
proof -
  let ?R = "locate root" and ?T = "trash_key root cycle"
  have pf: "plain_rel (join_with ''/'' (ws @ [f])) (ws @ [f])" and pd: "plain_rel (join_with ''/'' ws) ws"
    using ws assms(7) by (auto intro!: plain_names)
  have apart: "\<not> below (?R @ ws @ m) (?T (ws @ m'))" for m m'
    using ws(1,3) by (cases ws) (auto simp: trash_key_def below_iff)
  have k1: "butlast (?T (ws @ [f])) = ?T ws" by (simp add: trash_key_def butlast_append)
  obtain d1 where r1: "move_to_trash root (join_with ''/'' (ws @ [f])) cycle d = (Inr (), d1)"
    using move_to_trash_total [OF pf assms(2,3), of cycle] has_file apart [of "[f]" "[f]"] vacant k1 by auto
  have h1: "held (?R @ ws @ [f]) (?T (ws @ [f])) d d1" "fs_ok d1"
    using move_to_trash_held [OF pf assms(2,3) _ r1] has_file by auto
  have "d1 (?T (ws @ [f])) = Some (RegularFile w t m)"
    using h1(1) has_file by (auto simp: held_def dest: spec [of _ "[]"])
  then have in_trash: "d1 (?T ws @ [f]) \<noteq> None" by (simp add: trash_key_def)
  have dirs: "dir_at j d1" if "below j (?T ws)" for j
  proof -
    obtain m where "?T ws = j @ m" using \<open>below j (?T ws)\<close> by (auto simp: below_iff)
    then show ?thesis using fs_ok_above [OF h1(2), of j "m @ [f]"] in_trash by simp
  qed
  have "d (?R @ ws) \<noteq> None" using fs_okD [OF assms(3), of "?R @ ws" f] has_file ws(1) by (auto simp: dir_at_iff)
  moreover have "\<not> below (?R @ ws @ [f]) (?R @ ws)" "\<not> below (?T (ws @ [f])) (?R @ ws)"
    by (auto simp: below_iff trash_key_def)
  ultimately have dir: "d1 (?R @ ws) \<noteq> None" using h1(1) unfolding held_def by metis
  obtain d2 where r2: "move_to_trash root (join_with ''/'' ws) cycle d1 = (Inr (), d2)"
    using move_to_trash_total [OF pd assms(2) h1(2) dir, of cycle] apart [of "[]" "[]"] dirs below_butlast by fastforce
  have h2: "held (?R @ ws) (?T ws) d1 d2" using move_to_trash_held [OF pd assms(2) h1(2) dir r2] by simp
  have run: "transfer_remove_paths rc root [join_with ''/'' (ws @ [f]), join_with ''/'' ws] cycle d = (Inr (), d2)"
    by (simp add: transfer_remove_paths_def seq_io_Inr reject_dangerous_def lift_err_Inr assms(1) basic_io_Inr
        remove_one [OF pf plain_join [OF pf] assms(2)] remove_one [OF pd plain_join [OF pd] assms(2)] r1 r2)
  have isdir: "\<not> (\<exists>w t m. d (?R @ ws) = Some (RegularFile w t m))"
    using fs_okD [OF assms(3), of "?R @ ws" f] has_file ws(1) by (auto simp: dir_at_iff is_directory_def)
  have one: "d k = Some (RegularFile w t m)" if "d1 k = Some (RegularFile w t m)" "\<not> below (?T (ws @ [f])) k" for k w t m
    using h1(1) that unfolding held_def by (metis below_iff node.distinct(1) option.distinct(1) option.inject)
  have "d k = Some (RegularFile w t m) \<and> k \<noteq> ?R @ ws @ [f]" if reg: "d2 k = Some (RegularFile w t m)" for k w t m
  proof -
    have nk: "\<not> below (?R @ ws) k" using h2 reg by (auto simp: held_def below_iff)
    have "\<not> below (?T ws) k"
    proof
      assume "below (?T ws) k"
      then obtain j where j: "d1 (?R @ ws @ j) = Some (RegularFile w t m)" using h2 reg by (auto simp: held_def below_iff)
      have "\<not> below (?T (ws @ [f])) ((?R @ ws) @ j)"
        using below_split [of "?T (ws @ [f])" "?R @ ws" j] apart [of "[]" "[f]"] by (auto simp: below_iff trash_key_def)
      then have "d (?R @ ws @ j) = Some (RegularFile w t m)" using one j by simp
      moreover from this have "j = [] \<or> j = [f]" using alone by blast
      moreover have "d1 (?R @ ws @ [f]) = None" using h1(1) by (auto simp: held_def dest: spec [of _ "[]"])
      ultimately show False using isdir j by auto
    qed
    then have "d1 k = Some (RegularFile w t m)" "\<not> below (?T (ws @ [f])) k"
      using h2 reg nk by (auto simp: held_def below_iff trash_key_def)
    with one nk below_append [of "?R @ ws" "[f]"] show ?thesis by auto
  qed
  with run show ?thesis by blast
qed

section \<open>Publication\<close>

lemma file_time_nonneg:
  assumes "0 \<le> ns"
  shows "snd (file_time ns) = word_of_int (ns mod 1000000000)" and "unat (snd (file_time ns)) \<le> 999999999"
    and "fst (file_time ns) * 1000000000 + int (unat (snd (file_time ns))) = ns"
proof -
  have t: "file_time ns = (ns div 1000000000, word_of_int (ns mod 1000000000))"
    using assms by (simp add: file_time_def signed_divide_int_def signed_modulo_int_def sgn_if)
  have m: "0 \<le> ns mod 1000000000" "ns mod 1000000000 < 1000000000" by simp_all
  have u: "int (unat (word_of_int (ns mod 1000000000) :: u32)) = ns mod 1000000000"
    using m by (simp add: unat_eq_nat_uint uint_word_of_int take_bit_int_eq_self)
  show "snd (file_time ns) = word_of_int (ns mod 1000000000)" by (simp add: t)
  have "int (unat (word_of_int (ns mod 1000000000) :: u32)) \<le> int 999999999" using u m(2) by linarith
  then show "unat (snd (file_time ns)) \<le> 999999999" unfolding t snd_conv by (simp only: of_nat_le_iff)
  show "fst (file_time ns) * 1000000000 + int (unat (snd (file_time ns))) = ns"
    unfolding t fst_conv snd_conv u by (rule div_mult_mod_eq)
qed

lemma file_time_before_1970:
  assumes "ns < 0" and "ns mod 1000000000 \<noteq> 0"
  shows "unat (snd (file_time ns)) > 999999999"
proof -
  let ?r = "ns smod 1000000000"
  have r: "?r = - ((- ns) mod 1000000000)"
    using assms(1) by (simp add: signed_modulo_int_def signed_divide_int_def sgn_if minus_div_mult_eq_mod [symmetric])
  have ne: "(- ns) mod 1000000000 \<noteq> 0" using assms(2) by (simp add: mod_minus_eq zmod_zminus1_eq_if)
  moreover have "0 \<le> (- ns) mod 1000000000" "(- ns) mod 1000000000 < 1000000000" by simp_all
  ultimately have b: "- 1000000000 < ?r" "?r < 0" unfolding r by linarith+
  have "uint (word_of_int ?r :: u32) = ?r mod 2 ^ 32" by (simp add: uint_word_of_int take_bit_eq_mod)
  also have "\<dots> = (?r + 2 ^ 32) mod 2 ^ 32" by simp
  also have "\<dots> = ?r + 2 ^ 32" using b by (intro mod_pos_pos_trivial) auto
  finally have "int (unat (snd (file_time ns))) = ?r + 2 ^ 32" by (simp add: file_time_def)
  moreover have "(2 :: int) ^ 32 = 4294967296" by simp
  ultimately have "int 999999999 < int (unat (snd (file_time ns)))" using b(1) by linarith
  then show ?thesis by (simp only: of_nat_less_iff)
qed

text \<open>A checked file with its mode and time, when the time is not before 1970.\<close>

definition received :: "u8 list \<Rightarrow> SnapshotEntry \<Rightarrow> node" where
  "received w e = RegularFile w (Some (mtime_ns e)) (Some (mode_bits e))"

lemma snd_call: "snd (call f d) = snd (f d)"
  by (simp add: call_def split: prod.splits sum.splits)

lemma settle_file:
  assumes "d (locate p) = Some (RegularFile w t m)" and "0 \<le> mtime_ns e"
  shows "snd (set_mode p (mode_bits e) d) = d(locate p \<mapsto> RegularFile w t (Some (mode_bits e)))"
    and "snd (set_file_mtime p (file_time (mtime_ns e)) (d(locate p \<mapsto> RegularFile w t (Some (mode_bits e)))))
      = d(locate p \<mapsto> received w e)"
proof -
  show "snd (set_mode p (mode_bits e) d) = d(locate p \<mapsto> RegularFile w t (Some (mode_bits e)))"
    using assms(1) by (simp add: set_mode_def snd_call set_permissions_def)
  obtain secs nanos where st: "file_time (mtime_ns e) = (secs, nanos)" by fastforce
  then have "\<not> unat nanos > 999999999" "secs * 1000000000 + int (unat nanos) = mtime_ns e"
    using file_time_nonneg(2,3) [OF assms(2)] by simp_all
  then show "snd (set_file_mtime p (file_time (mtime_ns e)) (d(locate p \<mapsto> RegularFile w t (Some (mode_bits e)))))
      = d(locate p \<mapsto> received w e)"
    by (simp add: set_file_mtime_def st snd_call set_file_times_def received_def)
qed

lemma tmp_trash_apart: "\<not> below (tmp_key rc root cycle ws) (trash_key root c vs)" "\<not> below (trash_key root c vs) (tmp_key rc root cycle ws)"
  by (auto simp: tmp_key_def trash_key_def below_iff INTERNAL_TMP_def INTERNAL_TRASH_def)

lemma tmp_final_apart: "tmp_key rc root cycle ws \<noteq> locate root @ ws"
proof
  assume "tmp_key rc root cycle ws = locate root @ ws"
  then have "length ([INTERNAL_TMP, show_i64 cycle] @ butlast ws @ [last ws @ ''.tmp.'' @ decimal (process_id rc)]) = length ws"
    by (simp add: tmp_key_def)
  then show False by simp
qed

lemma write_file_effect:
  assumes "write_file k w d = (Inr (), d')" and "fs_ok d"
  shows "fs_ok d'" and "\<exists>m. d' k = Some (RegularFile w None m)" and "j \<noteq> k \<Longrightarrow> d' j = d j" and "k \<noteq> []"
proof -
  show "fs_ok d'" using confined_write_file [of "[]" k d w] assms by (simp add: confined_def)
  show "\<exists>m. d' k = Some (RegularFile w None m)" "j \<noteq> k \<Longrightarrow> d' j = d j" "k \<noteq> []"
    using assms(1) by (auto simp: write_file_def split: if_splits option.splits node.splits)
qed

lemma replace_path_steps:
  assumes "plain_rel rel ws" and "locate p = locate root @ ws" and "d (locate tmp) = Some n" and "locate tmp \<noteq> []"
    and run: "replace_path root cycle rel tmp p d = (Inr (), d')"
  obtains d1 where "rename (locate tmp) (locate root @ ws) d1 = (Inr (), d')"
    and "d1 = d \<and> (\<forall>o'. d (locate root @ ws) = Some o' \<longrightarrow> same_kind n o') \<or>
      (\<exists>o'. d (locate root @ ws) = Some o' \<and> \<not> same_kind n o' \<and> move_to_trash root rel cycle d = (Inr (), d1))"
proof -
  have ne: "locate p \<noteq> []" using assms(1,2) by (simp add: plain_rel_def)
  from run obtain d1 where one: "bind_io (ask (present p)) (\<lambda>here. if \<not> here then ret_io ()
          else (\<lambda>d. case (lstat (locate tmp) d, lstat (locate p) d) of
                 (Some t, Some f) \<Rightarrow> if same_kind t f then (Inr (), d) else move_to_trash root rel cycle d
               | _ \<Rightarrow> (Inl (Io NotFound), d))) d = (Inr (), d1)"
    and two: "rename (locate tmp) (locate p) d1 = (Inr (), d')"
    unfolding replace_path_def seq_io_Inr call_Inr by blast
  have "d1 = d \<and> (\<forall>o'. d (locate p) = Some o' \<longrightarrow> same_kind n o') \<or>
      (\<exists>o'. d (locate p) = Some o' \<and> \<not> same_kind n o' \<and> move_to_trash root rel cycle d = (Inr (), d1))"
    using one ne assms(3,4)
    by (cases "d (locate p)") (auto simp: bind_ask present_iff basic_io_Inr lstat_def split: if_splits)
  with two that assms(2) show ?thesis by simp
qed

lemma replace_path_publishes:
  assumes "plain_rel rel ws" and "root \<noteq> ''''" and "fs_ok d"
    and tmp: "locate tmp = tmp_key rc root cycle ws" and final: "locate p = locate root @ ws"
    and n: "d (locate tmp) = Some n"
    and run: "replace_path root cycle rel tmp p d = (Inr (), d')"
  shows "d' (locate root @ ws) = Some n"
    and "d (locate root @ ws) = Some o' \<Longrightarrow> \<not> same_kind n o' \<Longrightarrow> d' (trash_key root cycle ws) = Some o'"
proof -
  let ?a = "locate root @ ws" and ?k = "trash_key root cycle ws" and ?t = "tmp_key rc root cycle ws"
  obtain d1 where ren: "rename ?t ?a d1 = (Inr (), d')"
    and before: "d1 = d \<and> (\<forall>o'. d ?a = Some o' \<longrightarrow> same_kind n o') \<or>
      (\<exists>o'. d ?a = Some o' \<and> \<not> same_kind n o' \<and> move_to_trash root rel cycle d = (Inr (), d1))"
    using replace_path_steps [OF assms(1) final n _ run] tmp by auto
  have moved: "d' ?a = d1 ?t" using rename_effect(2) [OF ren, of "[]"] by simp
  have held: "held ?a ?k d d1" if "d ?a = Some o'" "\<not> same_kind n o'" for o'
    using before that move_to_trash_held [OF assms(1-3)] by auto
  have "d1 ?t = d ?t"
  proof (cases "d1 = d")
    case False
    with before obtain o' where "d ?a = Some o'" "\<not> same_kind n o'" by auto
    from held [OF this] have h: "held ?a ?k d d1" .
    have "\<not> below ?a ?t" using h rename_effect(1) [OF ren] by (auto simp: held_def below_iff)
    then show ?thesis using h tmp_trash_apart n tmp unfolding held_def by (metis option.distinct(1))
  qed simp
  with moved n tmp show "d' ?a = Some n" by simp
  assume o': "d ?a = Some o'" "\<not> same_kind n o'"
  from held [OF this] have h: "held ?a ?k d d1" .
  then have k: "d1 ?k = Some o'" using o' by (auto simp: held_def dest: spec [of _ "[]"])
  have "\<not> below ?a ?k" using h k by (auto simp: held_def below_iff)
  then show "d' ?k = Some o'" using rename_effect(3) [OF ren, of ?k] tmp_trash_apart k by simp
qed

lemma finish_publishes:
  assumes "plain_rel (rel_path e) ws" and "root \<noteq> ''''" and "fs_ok d" and "0 \<le> mtime_ns e"
    and tmp: "locate tmp = tmp_key rc root cycle ws" and final: "locate p = locate root @ ws"
    and cp: "create_parent p = call (create_dir_all (locate root @ butlast ws))"
    and w: "d (tmp_key rc root cycle ws) = Some (RegularFile w t m)"
    and run: "finish_received_file rc root cycle e tmp p d = (Inr (), d')"
  shows "d' (locate root @ ws) = Some (received w e)" and "hash e = Some h \<Longrightarrow> hash_bytes rc w = h"
    and "d (locate root @ ws) = Some o' \<Longrightarrow> \<not> same_kind (received w e) o' \<Longrightarrow> d' (trash_key root cycle ws) = Some o'"
proof -
  let ?t = "tmp_key rc root cycle ws"
  let ?d1 = "d(?t \<mapsto> RegularFile w t (Some (mode_bits e)))" and ?d2 = "d(?t \<mapsto> received w e)"
  have settle: "snd (set_mode tmp (mode_bits e) d) = ?d1" "snd (set_file_mtime tmp (file_time (mtime_ns e)) ?d1) = ?d2"
    using settle_file [of d tmp w t m e] w tmp assms(4) by simp_all
  have read: "read_file ?t d = Inr w" using w by (simp add: read_file_def lstat_def)
  from run obtain d3 where check: "\<forall>h. hash e = Some h \<longrightarrow> hash_bytes rc w = h"
    and dirs: "create_dir_all (locate root @ butlast ws) ?d2 = (Inr (), d3)"
    and rep: "replace_path root cycle (rel_path e) tmp p d3 = (Inr (), d')"
    unfolding finish_received_file_def cp
    by (auto simp: run_simps tmp read hash_file_def settle split: option.splits if_splits)
  have ok: "fs_ok ?d2" using fs_ok_change [OF assms(3) w] by (simp add: received_def is_directory_def)
  note eff = create_dir_all_effect [OF dirs ok]
  have "d3 ?t = Some (received w e)" using eff(2) [of ?t] by simp
  note pub = replace_path_publishes [OF assms(1,2) eff(1) tmp final this [folded tmp] rep]
  show "hash e = Some h \<Longrightarrow> hash_bytes rc w = h" using check by simp
  show "d' (locate root @ ws) = Some (received w e)" by (rule pub)
  assume o': "d (locate root @ ws) = Some o'" "\<not> same_kind (received w e) o'"
  have "locate root @ ws \<noteq> ?t" using o' w by (auto simp: same_kind_def received_def)
  then have "d3 (locate root @ ws) = Some o'" using eff(2) [of "locate root @ ws"] o' by simp
  from pub(2) [OF this o'(2)] show "d' (trash_key root cycle ws) = Some o'" .
qed

lemma finish_ok_inputs:
  assumes "safe_join_rel root rel = Inr p" and "root \<noteq> ''''"
  obtains ws where "plain_rel rel ws" and "locate p = locate root @ ws"
    and "create_parent p = call (create_dir_all (locate root @ butlast ws))"
    and "locate (tmp_of rc root cycle rel) = tmp_key rc root cycle ws"
    and "create_parent (tmp_of rc root cycle rel) = call (create_dir_all (butlast (tmp_key rc root cycle ws)))"
  using safe_join_parts [OF assms] tmp_of_key by metis

text \<open>What is acknowledged is what was sent. When a small file is acknowledged, the destination
  has a regular file at the path with exactly the bytes of the request, its mode and its time; the
  bytes have the sender's hash when it gave one and the announced length; and whatever was at the path
  and is not a file is kept in the trash.\<close>

lemma put_file_publishes:
  assumes "transfer_put_file rc q bytes d = (Inr (), d')" and "put_root q \<noteq> ''''" and "fs_ok d" and "0 \<le> put_mtime q"
  shows "\<exists>ws. plain_rel (put_rel q) ws \<and> length bytes = as_len (put_size q)
    \<and> d' (locate (put_root q) @ ws) = Some (RegularFile bytes (Some (put_mtime q)) (Some (put_mode q)))
    \<and> (\<forall>h\<in>set_option (put_hash q). hash_bytes rc bytes = h)
    \<and> (\<forall>n\<in>set_option (d (locate (put_root q) @ ws)). same_kind (RegularFile [] None None) n
        \<or> d' (trash_key (put_root q) (put_cycle q) ws) = Some n)"
proof -
  let ?e = "file_entry (put_rel q) (put_size q) (put_mtime q) (put_mode q) (put_hash q)"
  have e: "rel_path ?e = put_rel q" "mtime_ns ?e = put_mtime q" "hash ?e = put_hash q" "mode_bits ?e = put_mode q"
    by (simp_all add: file_entry_def)
  from assms(1) obtain p d1 d2 where p: "safe_join_rel (put_root q) (put_rel q) = Inr p"
    and len: "length bytes = as_len (put_size q)"
    and h: "\<forall>h. put_hash q = Some h \<longrightarrow> hash_bytes rc bytes = h"
    and parent: "create_parent (tmp_of rc (put_root q) (put_cycle q) (put_rel q)) d = (Inr (), d1)"
    and written: "write_file (locate (tmp_of rc (put_root q) (put_cycle q) (put_rel q))) bytes d1 = (Inr (), d2)"
    and fin: "finish_received_file rc (put_root q) (put_cycle q) ?e
        (tmp_of rc (put_root q) (put_cycle q) (put_rel q)) p d2 = (Inr (), d')"
    unfolding transfer_put_file_def reject_dangerous_def Let_def
    by (auto simp: run_simps safe_join_def e split: option.splits)
  obtain ws where ws: "plain_rel (put_rel q) ws" "locate p = locate (put_root q) @ ws"
    "create_parent p = call (create_dir_all (locate (put_root q) @ butlast ws))"
    and tmp: "locate (tmp_of rc (put_root q) (put_cycle q) (put_rel q)) = tmp_key rc (put_root q) (put_cycle q) ws"
    "create_parent (tmp_of rc (put_root q) (put_cycle q) (put_rel q)) = call (create_dir_all (butlast (tmp_key rc (put_root q) (put_cycle q) ws)))"
    using finish_ok_inputs [OF p assms(2)] by metis
  note eff = create_dir_all_effect [OF parent [unfolded tmp call_Inr] assms(3)]
  note wrote = write_file_effect [OF written [unfolded tmp] eff(1)]
  obtain m where stored: "d2 (tmp_key rc (put_root q) (put_cycle q) ws) = Some (RegularFile bytes None m)" using wrote by blast
  note pub = finish_publishes [OF _ assms(2) wrote(1) _ tmp(1) ws(2,3) stored fin, unfolded e, OF ws(1) assms(4)]
  have rec: "received bytes ?e = RegularFile bytes (Some (put_mtime q)) (Some (put_mode q))" by (simp add: received_def e)
  have "d2 (locate (put_root q) @ ws) = Some n" if "d (locate (put_root q) @ ws) = Some n" for n
    using that eff(2) [of "locate (put_root q) @ ws"] wrote(3) [OF tmp_final_apart [symmetric]] by simp
  moreover have "same_kind (RegularFile [] None None) n = same_kind (received bytes ?e) n" for n
    by (simp add: same_kind_def rec split: node.splits)
  ultimately have "\<forall>n\<in>set_option (d (locate (put_root q) @ ws)). same_kind (RegularFile [] None None) n
        \<or> d' (trash_key (put_root q) (put_cycle q) ws) = Some n"
    using pub(3) by auto
  with ws(1) len pub(1) h show ?thesis unfolding rec by auto
qed

section \<open>Deltas\<close>

lemma seq_ret: "seq_io (ret_io ()) k = k"
  by (simp add: seq_io_def bind_io_def ret_io_def)


lemma finish_failure:
  assumes "finish_received_file rc root cycle e tmp p d = (Inl x, d')"
    and "read_file (locate tmp) d = Inr w" and "\<forall>h. hash e = Some h \<longrightarrow> hash_bytes rc w = h"
  shows "\<exists>i. x = Io i"
  using assms io_only_replace [of root cycle "rel_path e" tmp p]
  by (auto simp: finish_received_file_def fail_simps run_simps hash_file_def create_parent_def create_dirs_def
      io_only_def split: option.splits if_splits)

lemma pending_buffered: "length w \<le> n \<Longrightarrow> pending (buffered n w) = w"
proof (induction n w rule: buffered.induct)
  case (2 n w)
  then show ?case by (cases "w = []") (auto simp: append_take_drop_id)
qed simp

lemma buffered_sound: "\<forall>e\<in>set (buffered n w). e \<noteq> Fail \<and> e \<noteq> Chunk []"
  by (induction n w rule: buffered.induct) auto

lemma block_sums_of_file:
  assumes "transfer_block_sums rc root rel d = (Inr sums, d0)" and "plain_rel rel ws" and "root \<noteq> ''''"
    and "d (locate root @ ws) = Some (RegularFile old t m)"
  shows "unat (block_len sums) = block_len_for (length old)"
    and "blocks sums = compute_block_sums (blake3 rc) old (block_len_for (length old))"
    and "reject_dangerous rc root d = (Inr (), d)" and "\<exists>p. safe_join_rel root rel = Inr p"
proof -
  let ?n = "block_len_for (length old)"
  have pos: "0 < ?n" and small: "?n < 2 ^ 32"
    using block_len_for_bounds [of "length old"] by (simp_all add: BLOCK_SIZE_def MAX_BLOCK_SIZE_def)
  have c: "compute_block_sums_from_reader (blake3 rc) (buffered (length old) old) ?n = Inr (compute_block_sums (blake3 rc) old ?n)"
    using reader_sums_equal_slice_sums [OF buffered_sound [of "length old" old] pos, of "blake3 rc"]
    by (simp add: pending_buffered)
  let ?sums = "\<lambda>p d. case lstat (locate p) d of
          Some (RegularFile w t m) \<Rightarrow>
            (let len = block_len_for (length w) in
             case compute_block_sums_from_reader (blake3 rc) (buffered (length w) w) len of
               Inl e \<Rightarrow> (Inl (Io InvalidInput), d)
             | Inr bs \<Rightarrow> (Inr \<lparr>block_len = word_of_nat len, file_size = word_of_nat (length w), blocks = bs\<rparr>, d))
        | _ \<Rightarrow> (Inr no_sums, d)"
  obtain d1 where rej: "reject_dangerous rc root d = (Inr (), d1)" and run: "bind_io (safe_join root rel) ?sums d1 = (Inr sums, d0)"
    using assms(1) unfolding transfer_block_sums_def seq_io_Inr by (elim exE conjE)
  have d1: "d1 = d" using rej by (simp add: reject_dangerous_def lift_err_Inr)
  obtain p where p: "safe_join_rel root rel = Inr p"
    using run by (cases "safe_join_rel root rel") (simp_all add: bind_io_def safe_join_def lift_err_def fail_io_def)
  have here: "?sums p d = (Inr sums, d0)" using run unfolding bind_safe_join [OF p] d1 .
  obtain ws' where ws': "plain_rel rel ws'" "locate p = locate root @ ws'" using safe_join_plain [OF p] by blast
  have "ws' = ws" using plain_unique [OF ws'(1) assms(2)] .
  then have "lstat (locate p) d = Some (RegularFile old t m)"
    using ws'(2) assms(2,4) by (simp add: lstat_def plain_rel_def)
  with here c have "sums = \<lparr>block_len = word_of_nat ?n, file_size = word_of_nat (length old), blocks = compute_block_sums (blake3 rc) old ?n\<rparr>"
    by (simp add: Let_def)
  then show "unat (block_len sums) = ?n" "blocks sums = compute_block_sums (blake3 rc) old ?n"
    using small by (simp_all add: unat_of_nat)
  show "reject_dangerous rc root d = (Inr (), d)" "\<exists>p. safe_join_rel root rel = Inr p" using rej p d1 by auto
qed

text \<open>C21: a delta transfer, from the block sums of the destination's file over the sender's delta to
  the published file. The destination either fails where the system fails, or has exactly the new
  content under the path, with its mode and time: it never rejects a delta of its own sums, and never
  publishes anything else.\<close>

theorem delta_transfer_publishes:
  assumes sums: "transfer_block_sums rc (delta_root q) (delta_rel q) d = (Inr sums, d0)"
    and ws: "plain_rel (delta_rel q) ws" and "delta_root q \<noteq> ''''" and "fs_ok d"
    and old: "d (locate (delta_root q) @ ws) = Some (RegularFile old t m)"
    and "length old < 2 ^ 64" and "length new < 2 ^ 32"
    and "no_collision (blake3 rc) old new (block_len_for (length old))"
    and "delta_size q = int (length new)" and "delta_hash q = hash_bytes rc new" and "0 \<le> delta_mtime q"
  shows "case transfer_apply_delta rc q (build_delta (blake3 rc) new sums) d of
      (Inr _, d') \<Rightarrow> d' (locate (delta_root q) @ ws) = Some (RegularFile new (Some (delta_mtime q)) (Some (delta_mode q)))
    | (Inl e, d') \<Rightarrow> \<exists>i. e = Io i"
proof -
  let ?root = "delta_root q" and ?k = "tmp_key rc (delta_root q) (delta_cycle q) ws"
  let ?tmp = "tmp_of rc ?root (delta_cycle q) (delta_rel q)" and ?delta = "build_delta (blake3 rc) new sums"
  let ?e = "file_entry (delta_rel q) (delta_size q) (delta_mtime q) (delta_mode q) (Some (delta_hash q))"
  have e: "rel_path ?e = delta_rel q" "mtime_ns ?e = delta_mtime q" "hash ?e = Some (hash_bytes rc new)" "mode_bits ?e = delta_mode q"
    using assms by (simp_all add: file_entry_def)
  note facts = block_sums_of_file [OF sums ws assms(3) old]
  obtain out where out: "build_delta (blake3 rc) new sums = out @ [OP_END]"
    and c: "covers (blake3 rc) old new (block_len_for (length old)) out (length new)"
    using build_delta_covers [OF facts(1,2) assms(6,7)] .
  then have decode: "apply_delta old ?delta = (new, None)"
    using assms(8) by (auto simp: covers_def apply_delta_runs)
  obtain p where p: "safe_join_rel ?root (delta_rel q) = Inr p" using facts(4) by blast
  obtain vs where vs: "plain_rel (delta_rel q) vs" "locate p = locate ?root @ vs"
    "create_parent p = call (create_dir_all (locate ?root @ butlast vs))" using finish_ok_inputs [OF p assms(3)] by blast
  then have vs: "locate p = locate ?root @ ws" "create_parent p = call (create_dir_all (locate ?root @ butlast ws))"
    using plain_unique [OF ws] by auto
  have tmp: "locate ?tmp = ?k" "create_parent ?tmp = call (create_dir_all (butlast ?k))" using tmp_of_key [OF ws] by auto
  have run: "transfer_apply_delta rc q ?delta d =
     seq_io (call (create_dir_all (butlast ?k))) (bind_io (look (delta_basis p)) (\<lambda>old.
         seq_io (call (write_file ?k (fst (apply_delta old ?delta))))
         (seq_io (case snd (apply_delta old ?delta) of None \<Rightarrow> ret_io () | Some e \<Rightarrow> fail_io (DeltaFailed e))
         (bind_io (look (metadata_len rc ?tmp)) (\<lambda>len.
           if len \<noteq> as_len (delta_size q)
           then seq_io (ok_io (remove_any ?tmp)) (fail_io (WrongSize len (as_len (delta_size q))))
           else finish_received_file rc ?root (delta_cycle q) ?e ?tmp p))))) d"
    unfolding transfer_apply_delta_def Let_def seq_step(1) [of "reject_dangerous rc ?root", OF facts(3)] bind_safe_join [OF p] tmp ..
  have basis: "delta_basis p d1 = Inr old" if "create_dir_all (butlast ?k) d = (Inr (), d1)" for d1
    using create_dir_all_effect(2) [OF that assms(4), of "locate ?root @ ws"] old ws vs(1)
    by (simp add: delta_basis_def lstat_def plain_rel_def)
  have wrote: "fs_ok d2 \<and> read_file ?k d2 = Inr new \<and> metadata_len rc ?tmp d2 = Inr (length new) \<and> (\<exists>m. d2 ?k = Some (RegularFile new None m))"
    if "create_dir_all (butlast ?k) d = (Inr (), d1)" "write_file ?k new d1 = (Inr (), d2)" for d1 d2
    using write_file_effect [OF that(2) create_dir_all_effect(1) [OF that(1) assms(4)]]
    by (auto simp: read_file_def metadata_len_def lstat_def tmp)
  have fin: "finish_received_file rc ?root (delta_cycle q) ?e ?tmp p d2 = (r, d') \<Longrightarrow> (case (r, d') of
      (Inr _, d') \<Rightarrow> d' (locate ?root @ ws) = Some (RegularFile new (Some (delta_mtime q)) (Some (delta_mode q)))
    | (Inl e, d') \<Rightarrow> \<exists>i. e = Io i)"
    if made: "create_dir_all (butlast ?k) d = (Inr (), d1)" "write_file ?k new d1 = (Inr (), d2)" for d1 d2 r d'
    using wrote [OF made] finish_failure [of rc ?root "delta_cycle q" ?e ?tmp p d2 _ d' new]
      finish_publishes(1) [OF _ assms(3) _ _ tmp(1) vs, of ?e d2 new None _ d'] ws assms(11)
    by (auto simp: e tmp received_def split: sum.splits)
  have size: "as_len (delta_size q) = length new" by (simp add: assms(9) as_len_def)
  obtain r1 d1 where made: "create_dir_all (butlast ?k) d = (r1, d1)" by fastforce
  show ?thesis
  proof (cases r1)
    case (Inl i)
    then show ?thesis using made by (simp add: run seq_step(2) [OF step_result(6)])
  next
    case (Inr u)
    then have made: "create_dir_all (butlast ?k) d = (Inr (), d1)" using made by simp
    then have run1: "transfer_apply_delta rc q ?delta d = seq_io (call (write_file ?k new))
        (bind_io (look (metadata_len rc ?tmp)) (\<lambda>len.
           if len \<noteq> as_len (delta_size q)
           then seq_io (ok_io (remove_any ?tmp)) (fail_io (WrongSize len (as_len (delta_size q))))
           else finish_received_file rc ?root (delta_cycle q) ?e ?tmp p)) d1"
      using decode by (simp add: run seq_step(1) [OF step_result(5)] bind_step(1) [OF step_result(7)] basis seq_ret)
    obtain r2 d2 where wr: "write_file ?k new d1 = (r2, d2)" by fastforce
    show ?thesis
    proof (cases r2)
      case (Inl i)
      then show ?thesis using wr by (simp add: run1 seq_step(2) [OF step_result(6)])
    next
      case (Inr u)
      then have wr: "write_file ?k new d1 = (Inr (), d2)" using wr by simp
      have "transfer_apply_delta rc q ?delta d = finish_received_file rc ?root (delta_cycle q) ?e ?tmp p d2"
        using wrote [OF made wr] wr by (simp add: run1 seq_step(1) [OF step_result(5)] bind_step(1) [OF step_result(7)] size)
      then show ?thesis using fin [OF made wr] by (metis prod.collapse)
    qed
  qed
qed

section \<open>Requests that go wrong\<close>

lemma make_dirs_there:
  "\<forall>j. below j xs \<longrightarrow> dir_at (pre @ j) d \<Longrightarrow> pre = [] \<or> d pre \<noteq> None \<Longrightarrow> make_dirs pre xs d = (Inr (), d)"
proof (induction pre xs d rule: make_dirs.induct)
  case (2 pre x xs d)
  have step: "dir_at ((pre @ [x]) @ j) d" if "below j xs" for j
    using 2(3) that by (auto simp: below_def dest: spec [of _ "x # j"])
  then obtain t m where dir: "d (pre @ [x]) = Some (Directory t m)" using dir_atE [of "pre @ [x]" d] by fastforce
  with 2(2) [OF dir refl] step show ?case by simp
qed simp

lemma create_dir_all_there:
  assumes "fs_ok d" and "dir_at k d"
  shows "create_dir_all k d = (Inr (), d)"
proof -
  have "dir_at j d" if below: "below j k" for j
  proof -
    obtain m where k: "k = j @ m" using below by (auto simp: below_iff)
    show ?thesis
    proof (cases "m = []")
      case False
      then show ?thesis using k assms fs_ok_above [OF assms(1), of j m] by (auto simp: dir_at_iff)
    qed (use k assms in simp)
  qed
  then show ?thesis unfolding create_dir_all_def by (intro make_dirs_there) simp_all
qed

lemma absolute_tmp:
  assumes "ws \<noteq> []" and "\<forall>w\<in>set ws. valid_name w"
  defines "rel \<equiv> ''/'' @ join_with ''/'' ws"
  shows "locate (tmp_of rc root cycle rel) = butlast ws @ [last ws @ ''.tmp.'' @ decimal (process_id rc)]"
    and "create_parent (tmp_of rc root cycle rel) = call (create_dir_all (butlast ws))"
proof -
  let ?name = "last ws @ ''.tmp.'' @ decimal (process_id rc)"
  let ?parent = "push_all (RootDir # map Normal (butlast ws))"
  have c: "components rel = RootDir # map Normal ws"
    using components_push [OF not_absolute_join [OF assms(2)], of "''/''"] plain_names [OF assms(1,2)]
      inner_components_names [of "join_with ''/'' ws" ws] assms(1,2)
    by (simp add: rel_def path_push_def rel_names_def components_def is_absolute_def starts_with_def is_sep_def map_filter_def)
  also have "\<dots> = (RootDir # map Normal (butlast ws)) @ [Normal (last ws)]"
    using assms(1) by (metis append_Cons append_butlast_last_id list.simps(8,9) map_append)
  finally have c: "components rel = (RootDir # map Normal (butlast ws)) @ [Normal (last ws)]" .
  note parts = parent_of_names [OF c]
  have abs: "is_absolute ?parent" by (simp add: is_absolute_RootDir parts(4))
  then have ne: "?parent \<noteq> ''''" by (auto simp: is_absolute_def starts_with_def)
  have t: "tmp_of rc root cycle rel = path_push ?parent ?name"
    using abs by (simp add: tmp_of_def tmp_path_def parts(1,2) path_push_def)
  have v: "valid_name ?name" using assms(1,2) by (intro valid_tmp_name) simp
  have l: "locate ?parent = butlast ws" by (simp add: locate_def parts(4) walk_Normal)
  show loc: "locate (tmp_of rc root cycle rel) = butlast ws @ [?name]"
    unfolding t locate_push_valid [OF v] l ..
  show "create_parent (tmp_of rc root cycle rel) = call (create_dir_all (butlast ws))"
    using create_parent_eq [of "tmp_of rc root cycle rel" "components ?parent" ?name] components_push_valid [OF v ne] loc
    by (simp add: t)
qed

text \<open>C40: a chunk can be written anywhere. The chunk and stream requests build their temporary path
  from the relative path as it came; with an absolute one the root of the destination plays no part, and
  the bytes of the request become a file in any existing directory of the machine.\<close>

theorem chunk_escapes_root:
  assumes "ws \<noteq> []" and "\<forall>w\<in>set ws. valid_name w" and "fs_ok d" and "dir_at (butlast ws) d"
    and "d (butlast ws @ [last ws @ ''.tmp.'' @ decimal (process_id rc)]) = None"
    and "reject_dangerous_destination (canonical_path rc) root = Inr ()" and "int (length bytes) \<le> sz" and "sz < 2 ^ 63"
  shows "serve parse rc (ReceiveFileChunk \<lparr>chunk_root = root, chunk_rel = ''/'' @ join_with ''/'' ws,
      chunk_cycle = cycle, chunk_size = sz, chunk_offset = 0\<rparr> bytes) d
    = (Inr Ack, d(butlast ws @ [last ws @ ''.tmp.'' @ decimal (process_id rc)] \<mapsto> RegularFile bytes None None))"
proof -
  define rel where "rel = ''/'' @ join_with ''/'' ws"
  define k where "k = butlast ws @ [last ws @ ''.tmp.'' @ decimal (process_id rc)]"
  let ?tmp = "tmp_of rc root cycle rel"
  let ?d = "d(k \<mapsto> RegularFile [] None None)"
  note tmp = absolute_tmp [OF assms(1,2), of rc root cycle, folded rel_def k_def]
  have k: "k \<noteq> []" "butlast k = butlast ws" "d k = None" using assms(5) by (simp_all add: k_def)
  have "\<not> present ?tmp d" using k by (simp add: present_iff tmp(1))
  then have open_ok: "open_at_offset rc ?tmp 0 d = (Inr (), ?d)"
    by (simp add: open_at_offset_def tmp seq_step(1) [OF step_result(5)] create_dir_all_there [OF assms(3,4)] bind_ask
        open_rw_def write_file_def assms(4) k bind_step(1) [OF step_result(7)] read_file_def lstat_def seq_io_def
        bind_io_def ret_io_def ask_def call_def look_def)
  have "update_file k (write_at 0 bytes) ?d = (Inr (), d(k \<mapsto> RegularFile bytes None None))"
    by (simp add: update_file_def write_at_def set_len_def)
  moreover have "\<not> 2 ^ 64 \<le> length bytes" "\<not> as_len sz < length bytes" using assms(7,8) by (auto simp: as_len_def)
  ultimately show ?thesis using open_ok unfolding rel_def [symmetric] k_def [symmetric]
    by (simp add: ack_io_def answer_io_def transfer_receive_file_chunk_def reject_dangerous_def assms(6) lift_err_def
        tmp(1) bail_io_def seq_io_def bind_io_def ret_io_def call_def Let_def)
qed

text \<open>Setting modes and times keeps what every path is.\<close>

definition same_nodes :: "fs \<Rightarrow> fs \<Rightarrow> bool" where
  "same_nodes d d' \<longleftrightarrow> (\<forall>k. map_option is_directory (d' k) = map_option is_directory (d k))"

interpretation kinds: run_relation same_nodes
  by unfold_locales (simp_all add: same_nodes_def)

lemma same_nodes_steps: "obeys same_nodes (set_mode p m)" "obeys same_nodes (set_file_mtime p t)"
  by (auto simp: obeys_def set_mode_def set_file_mtime_def snd_call set_permissions_def set_file_times_def
      same_nodes_def is_directory_def fail_io_def split: option.splits node.splits prod.splits)

lemma for_io_each:
  assumes "for_io f xs d = (Inr (), d')" and "x \<in> set xs" and "\<And>y. obeys same_nodes (f y)"
  obtains d1 d2 where "same_nodes d d1" and "f x d1 = (Inr (), d2)"
  using assms(1,2)
proof (induction xs arbitrary: d thesis)
  case (Cons y xs)
  from Cons.prems(2) obtain e where e: "f y d = (Inr (), e)" "for_io f xs e = (Inr (), d')" by (auto simp: run_simps)
  have same: "same_nodes d e" using assms(3) [of y] e(1) by (metis obeys_def snd_conv)
  show ?case
  proof (cases "x = y")
    case True
    then show ?thesis using Cons.prems(1) [of d e] e(1) by (simp add: same_nodes_def)
  next
    case False
    then have "x \<in> set xs" using Cons.prems(3) by simp
    from Cons.IH [OF _ e(2) this] obtain d1 d2 where "same_nodes e d1" "f x d1 = (Inr (), d2)" .
    then show ?thesis using Cons.prems(1) kinds.R_trans [OF same] by blast
  qed
qed simp

text \<open>One directory from before 1970 stops the times of all. Its nanoseconds are taken with a
  truncating remainder, which is negative there, and cast to an unsigned word; the system refuses the
  result and the request fails, whichever directories it lists and in whatever order.\<close>

theorem directory_before_1970_fails:
  assumes "s \<in> set dirs" and "plain_rel (spec_rel s) ws" and "spec_rel s \<noteq> ''''" and "root \<noteq> ''''"
    and "d (locate root @ ws) = Some (Directory t m)"
    and "spec_mtime s < 0" and "spec_mtime s mod 1000000000 \<noteq> 0"
  shows "\<exists>e. fst (transfer_set_dir_mtimes rc root dirs d) = Inl e"
proof (rule ccontr)
  assume "\<nexists>e. fst (transfer_set_dir_mtimes rc root dirs d) = Inl e"
  then obtain d' where run: "transfer_set_dir_mtimes rc root dirs d = (Inr (), d')"
    by (metis old.sum.exhaust old.unit.exhaust prod.collapse)
  let ?f = "\<lambda>s. bind_io (dir_path root (spec_rel s)) (\<lambda>p. bind_io (ask (exists_path p)) (\<lambda>here.
         if \<not> here then ret_io ()
         else seq_io (ok_io (set_mode p (spec_mode s))) (set_file_mtime p (file_time (spec_mtime s)))))"
  have each: "for_io ?f (deepest_first dirs) d = (Inr (), d')"
    using run by (auto simp: transfer_set_dir_mtimes_def set_dir_mtimes_def seq_io_Inr reject_dangerous_def lift_err_Inr)
  have mem: "s \<in> set (deepest_first dirs)" using assms(1) by (simp add: deepest_first_def)
  have obey: "obeys same_nodes (?f y)" for y
    by (intro kinds.obeys_intros same_nodes_steps) (simp add: dir_path_def safe_join_def kinds.obeys_basic)
  obtain d1 d2 where d1: "same_nodes d d1" and fs: "?f s d1 = (Inr (), d2)"
    using for_io_each [where f = ?f, OF each mem obey] .
  have p: "safe_join_rel root (spec_rel s) = Inr p" if "dir_path root (spec_rel s) d1 = (Inr p, d1')" for p d1'
    using that assms(3) by (simp add: dir_path_def safe_join_def lift_err_Inr)
  from fs obtain p d1' where jp: "dir_path root (spec_rel s) d1 = (Inr p, d1')" "d1' = d1"
    and rest: "bind_io (ask (exists_path p)) (\<lambda>here. if \<not> here then ret_io ()
         else seq_io (ok_io (set_mode p (spec_mode s))) (set_file_mtime p (file_time (spec_mtime s)))) d1 = (Inr (), d2)"
    using assms(3) by (auto simp: bind_io_Inr dir_path_def safe_join_def lift_err_Inr)
  obtain ws' where ws': "plain_rel (spec_rel s) ws'" "locate p = locate root @ ws'"
    using safe_join_plain [OF p [OF jp(1)]] by blast
  have "ws' = ws" using plain_unique [OF ws'(1) assms(2)] .
  then have loc: "locate p = locate root @ ws" using ws'(2) by simp
  have "map_option is_directory (d1 (locate p)) = Some True"
    using d1 assms(5) unfolding same_nodes_def loc by (simp add: is_directory_def)
  then obtain n where "d1 (locate p) = Some n" "is_directory n" by auto
  then have "exists_path p d1" by (cases n) (simp_all add: exists_path_def lstat_def is_directory_def)
  then obtain d3 where "set_file_mtime p (file_time (spec_mtime s)) d3 = (Inr (), d2)"
    using rest by (auto simp: bind_ask seq_io_Inr)
  then show False using file_time_before_1970 [OF assms(6,7)]
    by (auto simp: set_file_mtime_def fail_io_def split: prod.splits)
qed

section \<open>Concrete runs\<close>

definition demo_receiver :: receiver where
  "demo_receiver = \<lparr>canonical_path = (\<lambda>_. None), process_id = 7, blake3 = rev, dir_len = (\<lambda>_. 0),
     read_dir_names = (\<lambda>_ _. None), modified_at = (\<lambda>_ _. None), system_now = 0\<rparr>"

definition demo_fs :: fs where
  "demo_fs = [[''b''] \<mapsto> Directory None None, [''b'', ''d''] \<mapsto> Directory None None,
     [''b'', ''d'', ''f''] \<mapsto> RegularFile (replicate 700 5) (Some 1) (Some 420)]"

lemma demo_names: "valid_name ''b''" "valid_name ''d''" "valid_name ''f''" "valid_name ''etc''"
  by (auto simp: valid_name_def is_sep_def)

lemma demo_root: "locate ''/b'' = [''b'']"
  by (simp add: locate_def components_def is_absolute_def starts_with_def is_sep_def map_filter_def)

lemma demo_components: "components ''/b'' = [RootDir, Normal ''b'']" "components ''/'' = [RootDir]"
  by (simp_all add: components_def is_absolute_def starts_with_def is_sep_def map_filter_def)

lemma demo_critical: "map components critical_dirs = [[RootDir], [RootDir, Normal ''dev''], [RootDir, Normal ''proc''],
   [RootDir, Normal ''sys''], [RootDir, Normal ''run''], [RootDir, Normal ''boot''], [RootDir, Normal ''etc''],
   [RootDir, Normal ''bin''], [RootDir, Normal ''sbin''], [RootDir, Normal ''usr''], [RootDir, Normal ''lib''],
   [RootDir, Normal ''lib64'']]"
  by (simp add: critical_dirs_def components_def is_absolute_def starts_with_def is_sep_def map_filter_def)

lemma demo_safe: "reject_dangerous_destination (canonical_path demo_receiver) ''/b'' = Inr ()"
proof -
  have n: "components (normalize_existing_or_raw (\<lambda>_. None) ''/b'') = [RootDir, Normal ''b'']"
    using components_push_all [of "[RootDir, Normal ''b'']"] demo_names
    by (simp add: normalize_existing_or_raw_def demo_components canonical_def inner_def)
  have "components c \<in> set (map components critical_dirs)" if "c \<in> set critical_dirs" for c using that by simp
  then have c: "components c \<noteq> [RootDir, Normal ''b'']"
      "components c = [RootDir] \<or> \<not> starts_with [RootDir, Normal ''b''] (components c)" if "c \<in> set critical_dirs" for c
    using that unfolding demo_critical by (fastforce simp: starts_with_def)+
  show ?thesis
    by (auto simp: reject_dangerous_destination_def demo_receiver_def Let_def list_ex_iff path_eq_def
        path_starts_with_def n demo_components split: if_splits dest: c)
qed

lemma demo_decimal: "decimal 7 = ''7''"
proof -
  have "char_of (55 :: nat) = CHR ''7''" by code_simp
  then show ?thesis by (simp add: decimal.simps [of 7])
qed

lemma demo_fs_ok: "fs_ok demo_fs"
  by (auto simp: fs_ok_def demo_fs_def dir_at_def append_eq_Cons_conv split: if_splits)

lemma demo_plain: "plain_rel ''d'' [''d'']" "plain_rel ''d/f'' [''d'', ''f'']"
  using plain_names [of "[''d'']"] plain_names [of "[''d'', ''f'']"] demo_names by simp_all

lemma demo_lists: "lists_names demo_receiver"
  by (simp add: lists_names_def demo_receiver_def)


lemma demo_free:
  assumes "below j (trash_key ''/b'' 3 [''d''])"
  shows "demo_fs j = None \<or> dir_at j demo_fs"
  using assms by (auto simp: demo_fs_def dir_at_def trash_key_def demo_root below_def INTERNAL_TRASH_def)


lemma mirror_delete_empties_trash_witness:
  "\<exists>d'. transfer_remove_paths demo_receiver ''/b'' [''d/f'', ''d''] 3 demo_fs = (Inr (), d')
     \<and> (\<forall>k. \<not> (\<exists>w t m. d' k = Some (RegularFile w t m)))"
proof -
  have alone: "\<forall>k. demo_fs (locate ''/b'' @ [''d''] @ k) \<noteq> None \<longrightarrow> k = [] \<or> k = [''f'']"
    by (auto simp: demo_root demo_fs_def split: if_splits)
  have has: "demo_fs (locate ''/b'' @ [''d''] @ [''f'']) = Some (RegularFile (replicate 700 5) (Some 1) (Some 420))"
    by (simp add: demo_root demo_fs_def)
  have hd: "hd [''d''] \<noteq> INTERNAL_TRASH" by (simp add: INTERNAL_TRASH_def)
  from mirror_delete_empties_trash [OF demo_safe _ demo_fs_ok _ _ hd _ has alone, of 3] demo_names demo_free
  obtain d' where run: "transfer_remove_paths demo_receiver ''/b'' [''d/f'', ''d''] 3 demo_fs = (Inr (), d')"
    and gone: "\<forall>k w t m. d' k = Some (RegularFile w t m) \<longrightarrow> demo_fs k = Some (RegularFile w t m) \<and> k \<noteq> [''b'', ''d'', ''f'']"
    by (auto simp: demo_root)
  have "demo_fs k = Some (RegularFile w t m) \<Longrightarrow> k = [''b'', ''d'', ''f'']" for k w t m
    by (auto simp: demo_fs_def split: if_splits)
  with run gone show ?thesis by blast
qed

lemma chunk_escapes_root_witness:
  "snd (serve (\<lambda>_. None) demo_receiver (ReceiveFileChunk \<lparr>chunk_root = ''/b'', chunk_rel = ''/etc'',
      chunk_cycle = 3, chunk_size = 2, chunk_offset = 0\<rparr> [65, 66]) Map.empty) [''etc.tmp.7''] = Some (RegularFile [65, 66] None None)"
  using chunk_escapes_root [of "[''etc'']" Map.empty demo_receiver "''/b''" "[65, 66]" 2 "\<lambda>_. None" 3] demo_names demo_safe
  by (simp add: fs_ok_def demo_receiver_def demo_decimal)

lemma directory_before_1970_fails_witness:
  "\<exists>e. fst (transfer_set_dir_mtimes demo_receiver ''/b'' [\<lparr>spec_rel = ''d'', spec_mode = 493, spec_mtime = -1\<rparr>] demo_fs) = Inl e"
  using directory_before_1970_fails [of "\<lparr>spec_rel = ''d'', spec_mode = 493, spec_mtime = -1\<rparr>" _ "[''d'']" "''/b''" demo_fs]
    demo_plain by (simp add: demo_root demo_fs_def)

definition demo_delta :: DeltaQuery where
  "demo_delta = \<lparr>delta_root = ''/b'', delta_rel = ''d/f'', delta_cycle = 3, delta_size = 701, delta_mtime = 5, delta_mode = 420,
     delta_hash = hash_bytes demo_receiver (replicate 700 5 @ [9])\<rparr>"

lemma demo_delta_fields:
  "delta_root demo_delta = ''/b''" "delta_rel demo_delta = ''d/f''" "delta_size demo_delta = 701" "delta_mtime demo_delta = 5"
  "delta_mode demo_delta = 420" "delta_hash demo_delta = hash_bytes demo_receiver (replicate 700 5 @ [9])"
  "blake3 demo_receiver = rev"
  by (simp_all add: demo_delta_def demo_receiver_def)

lemma demo_windows: "no_collision rev (replicate 700 5) (replicate 700 5 @ [9]) 700"
proof -
  let ?old = "replicate 700 (5 :: u8)" and ?new = "replicate 700 (5 :: u8) @ [9]"
  have b: "block_of ?old 700 0 = ?old" by (simp add: block_of_def)
  have s0: "slice ?new 0 (0 + 700) = ?old" by simp
  have "rev (slice ?new 1 (1 + 700)) = 9 # replicate 699 5" by simp
  then have "strong_hash rev (slice ?new 1 (1 + 700)) = take 16 (9 # replicate 699 5)"
    by (simp add: strong_hash_def STRONG_LEN_def)
  moreover have "strong_hash rev (block_of ?old 700 0) = take 16 (replicate 700 5)" unfolding b by (simp add: strong_hash_def STRONG_LEN_def)
  moreover have "replicate 16 (5 :: u8) = 5 # replicate 15 5" by (simp add: numeral_eq_Suc)
  ultimately have "strong_hash rev (block_of ?old 700 0) \<noteq> strong_hash rev (slice ?new 1 (1 + 700))" by simp
  moreover have "i = 0 \<or> i = 1" if "i \<in> {..length ?new - 700}" for i using that by auto
  moreover have "k = 0" if "k \<in> {..<length ?old div 700}" for k using that by auto
  ultimately show ?thesis unfolding no_collision_def by (metis b s0)
qed

lemma delta_transfer_publishes_witness:
  "\<exists>sums. case transfer_apply_delta demo_receiver demo_delta (build_delta rev (replicate 700 5 @ [9]) sums) demo_fs of
      (Inr _, d') \<Rightarrow> d' [''b'', ''d'', ''f''] = Some (RegularFile (replicate 700 5 @ [9]) (Some 5) (Some 420))
    | (Inl e, d') \<Rightarrow> \<exists>i. e = Io i"
proof -
  have join: "safe_join_rel ''/b'' ''d/f'' = Inr (path_push ''/b'' ''d/f'')"
    using plain_join [of "[''d'', ''f'']" "''/b''"] demo_plain(2) by simp
  have p: "locate (path_push ''/b'' ''d/f'') = [''b'', ''d'', ''f'']" using locate_join [OF demo_plain(2)] by (simp add: demo_root)
  have has: "demo_fs (locate ''/b'' @ [''d'', ''f'']) = Some (RegularFile (replicate 700 5) (Some 1) (Some 420))"
    by (simp add: demo_root demo_fs_def)
  have len: "block_len_for 700 = 700" by (simp add: block_len_for_def BLOCK_SIZE_def)
  obtain sums where sums: "transfer_block_sums demo_receiver ''/b'' ''d/f'' demo_fs = (Inr sums, demo_fs)"
    using reader_sums_equal_slice_sums [OF buffered_sound [of 700 "replicate 700 5"], of 700 rev] has
    by (simp add: transfer_block_sums_def seq_io_Inr reject_dangerous_def demo_safe lift_err_Inr bind_safe_join [OF join]
        lstat_def p demo_root len pending_buffered demo_delta_fields)
  from delta_transfer_publishes [of demo_receiver demo_delta demo_fs sums demo_fs "[''d'', ''f'']" "replicate 700 5" _ _ "replicate 700 5 @ [9]"]
  show ?thesis using sums has demo_plain(2) demo_fs_ok demo_windows len
    by (intro exI [of _ sums]) (simp add: demo_delta_fields demo_root split: sum.splits prod.splits)
qed

end
