(* ===== verification/Send.thy ===== *)
theory Send
  imports Receive_Publish Engine
begin

text \<open>
  The sending side of a transfer (\<open>src/src/core/sync/mod.rs\<close>): how the machine that holds the source
  delivers a file, a link or a batch of small files to the destination's machine. A request goes
  through a channel; the channel to a live peer runs the endpoints of \<open>Receive\<close> on the peer's files.
  What each read of the source delivers is a parameter (the source may change at any time), as are
  \<open>blake3\<close>, the JSON form of a batch header and the moments at which the pass is cancelled. The
  memory budget (\<open>Runtime\<close>), the pause of the bandwidth limit and the progress meters do not
  influence what is sent.
\<close>

section \<open>Requests to a peer\<close>

text \<open>\<open>Message\<close> is an error of the sending machine with its text.\<close>

datatype send_error = Message string | Cancelled | UnsafeSource path_error | UnreachablePeer
  | MissingEndpoint | PeerError receive_error | BadReply | NotOk

datatype reply = AckReply bool | OffsetReply nat | SumsReply BlockSums | BatchReply bool "string list"

type_synonym channel = "transfer_request \<Rightarrow> (send_error, reply) action"

record peer =
  reaches :: "transfer_request \<Rightarrow> bool"
  supports :: "transfer_request \<Rightarrow> bool"
  header_parser :: "u8 list \<Rightarrow> BatchFileHeader option"
  receiving :: receiver

fun reply_of :: "answer \<Rightarrow> reply" where
  "reply_of Ack = AckReply True"
| "reply_of (FileOffsetIs n) = OffsetReply n"
| "reply_of (BlockSumsAre sums) = SumsReply sums"
| "reply_of (BatchFailed rels) = BatchReply True rels"

text \<open>A peer without the endpoint answers 404 or 405.\<close>

definition ask_peer :: "peer \<Rightarrow> channel" where
  "ask_peer pr req =
     (if \<not> reaches pr req then fail_io UnreachablePeer
      else if \<not> supports pr req then fail_io MissingEndpoint
      else (\<lambda>d. case serve (header_parser pr) (receiving pr) req d of
              (Inl e, d') \<Rightarrow> (Inl (PeerError e), d')
            | (Inr a, d') \<Rightarrow> (Inr (reply_of a), d')))"

text \<open>When the writer of a streamed body fails, the peer sees the body break off, and the caller gets
  the writer's error whatever the peer answers; unless no connection could be opened at all.\<close>

definition remote_post_octet_stream ::
    "channel \<Rightarrow> ChunkQuery \<Rightarrow> u8 list list \<Rightarrow> send_error option \<Rightarrow> (send_error, reply) action" where
  "remote_post_octet_stream ch q written failure =
     (case failure of
        None \<Rightarrow> ch (PutFileStream q (map Chunk written))
      | Some e \<Rightarrow> (\<lambda>d. case ch (PutFileStream q (map Chunk written @ [Fail])) d of
            (Inl UnreachablePeer, d') \<Rightarrow> (Inl UnreachablePeer, d')
          | (_, d') \<Rightarrow> (Inl e, d')))"

definition ack_of :: "reply \<Rightarrow> (send_error, unit) action" where
  "ack_of r = (case r of AckReply ok \<Rightarrow> bail_io (\<not> ok) NotOk | _ \<Rightarrow> fail_io BadReply)"

text \<open>The fallback for a peer without the endpoint.\<close>

definition or_missing :: "(send_error, 'a) action \<Rightarrow> (send_error, 'a) action \<Rightarrow> (send_error, 'a) action" where
  "or_missing m k = (\<lambda>d. case m d of (Inl MissingEndpoint, d') \<Rightarrow> k d' | r \<Rightarrow> r)"

section \<open>The source\<close>

text \<open>The source path at each of the moments the code reads it: the file as \<open>fs::read\<close> delivers it,
  what the calls of \<open>read\<close> on an open file deliver (\<open>None\<close> when it cannot be opened), its length and
  time at a later look (\<open>None\<close> when it is gone), and the target of a link.\<close>

record source_file =
  put_read :: "u8 list option"
  put_stat :: "(int \<times> int) option"
  delta_read :: "u8 list option"
  delta_stat :: "(int \<times> int) option"
  streamed_reads :: "read_event list option"
  chunked_reads :: "read_event list option"
  sent_stat :: "(int \<times> int) option"
  link_read :: "path_buf option"

record sending =
  to_peer :: channel
  to_root :: path_buf
  to_cycle :: int
  sender_blake3 :: "u8 list \<Rightarrow> u8 list"
  render_header :: "BatchFileHeader \<Rightarrow> u8 list"
  stop_at :: "nat \<Rightarrow> bool"

definition sender_hash :: "sending \<Rightarrow> u8 list \<Rightarrow> string" where
  "sender_hash c w = to_hex (sender_blake3 c w)"

definition changed :: "SnapshotEntry \<Rightarrow> send_error" where
  "changed e = Message (''source changed while copying '' @ rel_path e)"

definition failed_read :: send_error where
  "failed_read = Message ''failed to read''"

definition stable_source :: "(int \<times> int) option \<Rightarrow> SnapshotEntry \<Rightarrow> (send_error, unit) action" where
  "stable_source live e = lift_err Message (ensure_source_stable live e)"

definition post_ack :: "sending \<Rightarrow> transfer_request \<Rightarrow> (send_error, unit) action" where
  "post_ack c req = bind_io (to_peer c req) ack_of"

section \<open>One file\<close>

definition TRANSFER_CHUNK_SIZE :: nat where "TRANSFER_CHUNK_SIZE = 16 * 1024 * 1024"

definition put_query :: "sending \<Rightarrow> SnapshotEntry \<Rightarrow> string \<Rightarrow> PutFileQuery" where
  "put_query c e full_hash = \<lparr>put_root = to_root c, put_rel = rel_path e, put_cycle = to_cycle c,
     put_size = size_of e, put_mtime = mtime_ns e, put_mode = mode_bits e, put_hash = Some full_hash\<rparr>"

definition send_put_file_tcp :: "sending \<Rightarrow> SnapshotEntry \<Rightarrow> source_file \<Rightarrow> (send_error, unit) action" where
  "send_put_file_tcp c e src =
     (case put_read src of
        None \<Rightarrow> fail_io failed_read
      | Some bytes \<Rightarrow>
          if length bytes \<noteq> as_len (size_of e) then fail_io (changed e)
          else seq_io (stable_source (put_stat src) e)
            (post_ack c (PutFile (put_query c e (sender_hash c bytes)) bytes)))"

definition chunk_query :: "sending \<Rightarrow> SnapshotEntry \<Rightarrow> nat \<Rightarrow> ChunkQuery" where
  "chunk_query c e offset = \<lparr>chunk_root = to_root c, chunk_rel = rel_path e, chunk_cycle = to_cycle c,
     chunk_size = size_of e, chunk_offset = offset\<rparr>"

lemma read_call_length: "read_call es n = Inr (bytes, es') \<Longrightarrow> length bytes \<le> n"
  by (cases "(es, n)" rule: read_call.cases) (auto split: if_splits)

lemma shorter: "bytes \<noteq> [] \<Longrightarrow> \<not> n \<le> pos \<Longrightarrow> n - (pos + length bytes) < n - pos"
  by (cases bytes) auto

text \<open>The loop that fills a streamed body: what it writes, what it has hashed, and its error. The whole
  file is read and hashed; only what is past the resume offset is written.\<close>

function stream_body :: "sending \<Rightarrow> SnapshotEntry \<Rightarrow> nat \<Rightarrow> nat \<Rightarrow> read_event list \<Rightarrow>
    u8 list list \<times> u8 list \<times> send_error option" where
  "stream_body c e offset pos es =
     (if pos \<ge> as_len (size_of e) then ([], [], None)
      else if stop_at c pos then ([], [], Some Cancelled)
      else case read_call es (min (as_len (size_of e) - pos) TRANSFER_CHUNK_SIZE) of
        Inl _ \<Rightarrow> ([], [], Some failed_read)
      | Inr (bytes, es') \<Rightarrow>
          if bytes = [] then ([], [], Some (changed e))
          else case stream_body c e offset (pos + length bytes) es' of (written, hashed, r) \<Rightarrow>
            (if pos + length bytes > offset then drop (offset - pos) bytes # written else written,
             bytes @ hashed, r))"
  by pat_completeness auto
termination
  by (relation "measure (\<lambda>(c, e, offset, pos, es). as_len (size_of e) - pos)") (auto simp: shorter)

declare stream_body.simps [simp del]

definition send_file_body_streamed ::
    "sending \<Rightarrow> SnapshotEntry \<Rightarrow> source_file \<Rightarrow> nat \<Rightarrow> (send_error, string) action" where
  "send_file_body_streamed c e src offset =
     (case streamed_reads src of
        None \<Rightarrow> fail_io failed_read
      | Some es \<Rightarrow> (case stream_body c e offset 0 es of (written, hashed, failure) \<Rightarrow>
          bind_io (remote_post_octet_stream (to_peer c) (chunk_query c e offset) written failure)
            (\<lambda>r. seq_io (ack_of r) (ret_io (sender_hash c hashed)))))"

text \<open>The legacy loop: a request for every chunk.\<close>

function send_chunks :: "sending \<Rightarrow> SnapshotEntry \<Rightarrow> nat \<Rightarrow> nat \<Rightarrow> read_event list \<Rightarrow> (send_error, u8 list) action" where
  "send_chunks c e offset pos es =
     (if pos \<ge> as_len (size_of e) then ret_io []
      else if stop_at c pos then fail_io Cancelled
      else case read_call es (min (as_len (size_of e) - pos) TRANSFER_CHUNK_SIZE) of
        Inl _ \<Rightarrow> fail_io failed_read
      | Inr (bytes, es') \<Rightarrow>
          if bytes = [] then fail_io (changed e)
          else seq_io
            (if pos + length bytes > offset
             then post_ack c (ReceiveFileChunk (chunk_query c e (pos + (offset - pos))) (drop (offset - pos) bytes))
             else ret_io ())
            (bind_io (send_chunks c e offset (pos + length bytes) es') (\<lambda>hashed. ret_io (bytes @ hashed))))"
  by pat_completeness auto
termination
  by (relation "measure (\<lambda>(c, e, offset, pos, es). as_len (size_of e) - pos)") (auto simp: shorter)

declare send_chunks.simps [simp del]

definition send_file_body_chunked ::
    "sending \<Rightarrow> SnapshotEntry \<Rightarrow> source_file \<Rightarrow> nat \<Rightarrow> (send_error, string) action" where
  "send_file_body_chunked c e src offset =
     (case chunked_reads src of
        None \<Rightarrow> fail_io failed_read
      | Some es \<Rightarrow> bind_io (send_chunks c e offset 0 es) (\<lambda>hashed. ret_io (sender_hash c hashed)))"

definition resume_offset :: "SnapshotEntry \<Rightarrow> nat \<Rightarrow> nat" where
  "resume_offset e n = (if n > as_len (size_of e) then 0 else n)"

definition send_file_tcp :: "sending \<Rightarrow> SnapshotEntry \<Rightarrow> source_file \<Rightarrow> (send_error, unit) action" where
  "send_file_tcp c e src =
     (if as_len (size_of e) \<le> TRANSFER_CHUNK_SIZE \<and> hash e = None then send_put_file_tcp c e src
      else bind_io (to_peer c (FileOffset (to_root c) (rel_path e) (to_cycle c) (size_of e))) (\<lambda>r. case r of
          OffsetReply n \<Rightarrow>
            bind_io (or_missing (send_file_body_streamed c e src (resume_offset e n))
                (send_file_body_chunked c e src (resume_offset e n)))
              (\<lambda>full_hash. seq_io (stable_source (sent_stat src) e)
                (post_ack c (FinishFile (to_root c) (to_cycle c) e (Some full_hash))))
        | _ \<Rightarrow> fail_io BadReply))"

definition delta_query :: "sending \<Rightarrow> SnapshotEntry \<Rightarrow> string \<Rightarrow> DeltaQuery" where
  "delta_query c e full_hash = \<lparr>delta_root = to_root c, delta_rel = rel_path e, delta_cycle = to_cycle c,
     delta_size = size_of e, delta_mtime = mtime_ns e, delta_mode = mode_bits e, delta_hash = full_hash\<rparr>"

definition send_file_delta :: "sending \<Rightarrow> SnapshotEntry \<Rightarrow> source_file \<Rightarrow> (send_error, unit) action" where
  "send_file_delta c e src =
     bind_io (to_peer c (AskBlockSums (to_root c) (rel_path e))) (\<lambda>r. case r of
       SumsReply sums \<Rightarrow>
         if blocks sums = [] then send_file_tcp c e src
         else (case delta_read src of
             None \<Rightarrow> fail_io failed_read
           | Some new \<Rightarrow>
               if length new \<noteq> as_len (size_of e) then fail_io (changed e)
               else seq_io (stable_source (delta_stat src) e)
                 (if length (build_delta (sender_blake3 c) new sums) \<ge> length new div 10 * 9
                  then send_file_tcp c e src
                  else post_ack c (ApplyDelta (delta_query c e (sender_hash c new))
                    (build_delta (sender_blake3 c) new sums))))
     | _ \<Rightarrow> fail_io BadReply)"

definition send_symlink_tcp :: "sending \<Rightarrow> SnapshotEntry \<Rightarrow> source_file \<Rightarrow> (send_error, unit) action" where
  "send_symlink_tcp c e src =
     (case link_read src of
        None \<Rightarrow> fail_io failed_read
      | Some target \<Rightarrow>
          if Some (hash_symlink_target target) \<noteq> hash e then fail_io (changed e)
          else post_ack c (ReceiveSymlink (to_root c) (to_cycle c) e target (Some target)))"

definition transfer_push_file ::
    "sending \<Rightarrow> path_buf \<Rightarrow> SnapshotEntry \<Rightarrow> bool \<Rightarrow> source_file \<Rightarrow> (send_error, unit) action" where
  "transfer_push_file c source_root e use_delta src =
     bind_io (lift_err UnsafeSource (safe_join_rel source_root (rel_path e))) (\<lambda>_.
       if file_type e = ''file''
       then (if use_delta \<and> hash e = None \<and> DELTA_MIN_SIZE \<le> as_len (size_of e) \<and> as_len (size_of e) \<le> DELTA_MAX_SIZE
             then send_file_delta c e src else send_file_tcp c e src)
       else if file_type e = ''symlink'' then send_symlink_tcp c e src
       else fail_io (Message ''unsupported transfer entry type''))"

section \<open>Batches\<close>

record TransferBatchOutcome =
  sent :: nat
  out_changing :: "string list"
  out_failed :: "string list"

definition transfer_error_is_source_changing :: "send_error \<Rightarrow> bool" where
  "transfer_error_is_source_changing e \<longleftrightarrow>
     (case e of Message text \<Rightarrow> source_changed_paths [text] \<noteq> [] | _ \<Rightarrow> False)"

text \<open>One file of a batch: it is read whole and compared with its snapshot entry.\<close>

definition read_for_batch :: "sending \<Rightarrow> path_buf \<Rightarrow> SnapshotEntry \<Rightarrow> source_file \<Rightarrow> send_error + u8 list" where
  "read_for_batch c source_root e src =
     (case safe_join_rel source_root (rel_path e) of
        Inl err \<Rightarrow> Inl (UnsafeSource err)
      | Inr _ \<Rightarrow> (case put_read src of
          None \<Rightarrow> Inl failed_read
        | Some bytes \<Rightarrow>
            if length bytes \<noteq> as_len (size_of e) then Inl (changed e)
            else if hash e \<noteq> None \<and> hash e \<noteq> Some (sender_hash c bytes) then Inl (changed e)
            else (case ensure_source_stable (put_stat src) e of
                Inl text \<Rightarrow> Inl (Message text)
              | Inr _ \<Rightarrow> Inr bytes)))"

definition batch_frame :: "sending \<Rightarrow> SnapshotEntry \<Rightarrow> u8 list \<Rightarrow> u8 list" where
  "batch_frame c e bytes =
     render_header c \<lparr>head_rel = rel_path e, head_size = size_of e, head_mtime = mtime_ns e,
       head_mode = mode_bits e, head_hash = sender_hash c bytes\<rparr> @ [newline] @ bytes"

text \<open>What the loop over the batch collects: the body, the entries in it, and the outcome so far.\<close>

fun gather_batch :: "sending \<Rightarrow> path_buf \<Rightarrow> (SnapshotEntry \<Rightarrow> source_file) \<Rightarrow> nat \<Rightarrow> SnapshotEntry list \<Rightarrow>
    send_error + (SnapshotEntry \<times> u8 list) list \<times> string list \<times> string list" where
  "gather_batch c root source k [] = Inr ([], [], [])"
| "gather_batch c root source k (e # es) =
     (if stop_at c k then Inl Cancelled
      else case gather_batch c root source (Suc k) es of
        Inl err \<Rightarrow> Inl err
      | Inr (kept, changing, unsent) \<Rightarrow>
          (case read_for_batch c root e (source e) of
             Inr bytes \<Rightarrow> Inr ((e, bytes) # kept, changing, unsent)
           | Inl err \<Rightarrow>
               if transfer_error_is_source_changing err then Inr (kept, rel_path e # changing, unsent)
               else Inr (kept, changing, rel_path e # unsent)))"

fun push_batch_per_file_fallback :: "sending \<Rightarrow> path_buf \<Rightarrow> (SnapshotEntry \<Rightarrow> source_file) \<Rightarrow> nat \<Rightarrow>
    SnapshotEntry list \<Rightarrow> TransferBatchOutcome \<Rightarrow> (send_error, TransferBatchOutcome) action" where
  "push_batch_per_file_fallback c root source k [] out = ret_io out"
| "push_batch_per_file_fallback c root source k (e # es) out =
     (if stop_at c k then fail_io Cancelled
      else case safe_join_rel root (rel_path e) of
        Inl err \<Rightarrow> fail_io (UnsafeSource err)
      | Inr _ \<Rightarrow> (\<lambda>d. case send_file_tcp c e (source e) d of
          (Inr _, d') \<Rightarrow> push_batch_per_file_fallback c root source (Suc k) es (out\<lparr>sent := sent out + 1\<rparr>) d'
        | (Inl err, d') \<Rightarrow>
            push_batch_per_file_fallback c root source (Suc k) es
              (if transfer_error_is_source_changing err then out\<lparr>out_changing := out_changing out @ [rel_path e]\<rparr>
               else out\<lparr>out_failed := out_failed out @ [rel_path e]\<rparr>) d'))"

definition transfer_push_files_batch ::
    "sending \<Rightarrow> path_buf \<Rightarrow> (SnapshotEntry \<Rightarrow> source_file) \<Rightarrow> SnapshotEntry list \<Rightarrow>
     (send_error, TransferBatchOutcome) action" where
  "transfer_push_files_batch c root source entries =
     (case gather_batch c root source 0 entries of
        Inl err \<Rightarrow> fail_io err
      | Inr (kept, changing, unsent) \<Rightarrow>
          if kept = [] then ret_io \<lparr>sent = 0, out_changing = changing, out_failed = unsent\<rparr>
          else (\<lambda>d. case to_peer c (PutFilesBatch (to_root c) (to_cycle c)
                (concat (map (\<lambda>(e, bytes). batch_frame c e bytes) kept))) d of
              (Inl MissingEndpoint, d') \<Rightarrow> push_batch_per_file_fallback c root source (length entries)
                (map fst kept) \<lparr>sent = 0, out_changing = changing, out_failed = unsent\<rparr> d'
            | (Inl err, d') \<Rightarrow> (Inl err, d')
            | (Inr (BatchReply ok rejected), d') \<Rightarrow>
                if \<not> ok then (Inl NotOk, d')
                else (Inr \<lparr>sent = length (filter (\<lambda>(e, _). rel_path e \<notin> set rejected) kept),
                  out_changing = changing, out_failed = unsent @ rejected\<rparr>, d')
            | (Inr _, d') \<Rightarrow> (Inl BadReply, d')))"

section \<open>Retries\<close>

definition TRANSFER_RETRY_ATTEMPTS :: nat where "TRANSFER_RETRY_ATTEMPTS = 3"

text \<open>The pauses between attempts are left out; \<open>attempt n\<close> is what the \<open>n\<close>-th attempt does.\<close>

function retry_from :: "nat \<Rightarrow> (nat \<Rightarrow> (send_error, 'a) action) \<Rightarrow> (send_error, 'a) action" where
  "retry_from n attempt d =
     (case attempt n d of
        (Inr x, d') \<Rightarrow> (Inr x, d')
      | (Inl e, d') \<Rightarrow>
          if n < TRANSFER_RETRY_ATTEMPTS \<and> \<not> transfer_error_is_source_changing e \<and> e \<noteq> Cancelled
          then retry_from (Suc n) attempt d' else (Inl e, d'))"
  by pat_completeness auto
termination
  by (relation "measure (\<lambda>(n, _, _). TRANSFER_RETRY_ATTEMPTS - n)") auto

declare retry_from.simps [simp del]

definition with_transfer_retry :: "(nat \<Rightarrow> (send_error, 'a) action) \<Rightarrow> (send_error, 'a) action" where
  "with_transfer_retry attempt = retry_from 1 attempt"

end
