(* ===== verification/Send_Arrival.thy ===== *)
theory Send_Arrival
  imports Send
begin

text \<open>
  What a successful push leaves on the destination when the channel leads to a live peer, whichever
  way the content travelled: in one request, streamed or in chunks past a resume offset, as a delta
  with its fallbacks, or as a link.
\<close>

section \<open>A live peer\<close>

definition sends_to :: "peer \<Rightarrow> sending \<Rightarrow> bool" where
  "sends_to pr c \<longleftrightarrow> to_peer c = ask_peer pr \<and> sender_blake3 c = blake3 (receiving pr)"

lemma bind_run:
  assumes "bind_io m k d = (Inr y, d'')"
  obtains x d' where "m d = (Inr x, d')" and "k x d' = (Inr y, d'')"
  using assms unfolding bind_io_Inr by blast

lemma ask_peer_Inr: "ask_peer pr req d = (Inr r, d') \<longleftrightarrow> reaches pr req \<and> supports pr req
    \<and> (\<exists>a. serve (header_parser pr) (receiving pr) req d = (Inr a, d') \<and> r = reply_of a)"
  by (auto simp: ask_peer_def run_simps split: prod.splits sum.splits)

lemma ack_io_Inr [run_simps]: "ack_io m d = (Inr a, d') \<longleftrightarrow> a = Ack \<and> m d = (Inr (), d')"
  by (auto simp: ack_io_def answer_io_def run_simps)

lemma ack_of_Inr [run_simps]: "ack_of r d = (Inr u, d') \<longleftrightarrow> r = AckReply True \<and> d' = d"
  by (auto simp: ack_of_def run_simps split: reply.splits)

lemma reply_of_simps [simp]:
  "AckReply ok = reply_of a \<longleftrightarrow> ok \<and> a = Ack" "OffsetReply n = reply_of a \<longleftrightarrow> a = FileOffsetIs n"
  "SumsReply s = reply_of a \<longleftrightarrow> a = BlockSumsAre s" "BatchReply ok rels = reply_of a \<longleftrightarrow> ok \<and> a = BatchFailed rels"
  by (cases a; auto)+

lemma post_ack_Inr:
  assumes "sends_to pr c"
  shows "post_ack c req d = (Inr u, d') \<longleftrightarrow> reaches pr req \<and> supports pr req
    \<and> serve (header_parser pr) (receiving pr) req d = (Inr Ack, d')"
  using assms by (auto simp: post_ack_def sends_to_def run_simps ask_peer_Inr)

lemma sender_hash_peer: "sends_to pr c \<Longrightarrow> sender_hash c w = hash_bytes (receiving pr) w"
  by (simp add: sender_hash_def hash_bytes_def sends_to_def)

lemma stable_source_Inr [run_simps]:
  "stable_source live e d = (Inr u, d') \<longleftrightarrow> live = Some (size_of e, mtime_ns e) \<and> d' = d"
  by (auto simp: stable_source_def lift_err_Inr ensure_source_stable_def bail_if_def split: option.splits if_splits)

section \<open>What a push may change\<close>

lemma contained_ask:
  assumes "contained root (serve (header_parser pr) (receiving pr) req)"
  shows "contained root (ask_peer pr req)"
  using assms
  by (auto simp: ask_peer_def obeys_def fail_io_def confined_refl split: prod.splits sum.splits) (metis snd_conv)+

lemma contained_or_missing: "contained root m \<Longrightarrow> contained root k \<Longrightarrow> contained root (or_missing m k)"
  unfolding obeys_def or_missing_def
  by (auto split: prod.splits sum.splits send_error.splits) (metis confined_trans snd_conv)+

lemma contained_post: "sends_to pr c \<Longrightarrow> contained root (serve (header_parser pr) (receiving pr) req) \<Longrightarrow> contained root (post_ack c req)"
  by (auto simp: post_ack_def sends_to_def ack_of_def split: reply.splits
      intro!: within.obeys_bind contained_ask within.obeys_basic)

lemma contained_octet_stream:
  assumes "sends_to pr c" and "chunk_root q = root" and "plain_rel (chunk_rel q) ws"
  shows "contained root (remote_post_octet_stream (to_peer c) q written failure)"
proof -
  have "contained root (ask_peer pr (PutFileStream q body))" for body
    using contained_ask contained_unchecked [of "PutFileStream q body"] assms(2,3) by auto
  then show ?thesis using assms(1)
    by (auto simp: remote_post_octet_stream_def sends_to_def obeys_def split: option.splits prod.splits sum.splits send_error.splits)
      (metis snd_conv)+
qed

lemma contained_chunks:
  assumes "sends_to pr c" and "plain_rel (rel_path e) ws"
  shows "contained (to_root c) (send_chunks c e offset pos es)"
  using assms
proof (induction c e offset pos es rule: send_chunks.induct)
  case (1 c e offset pos es)
  have post: "contained (to_root c) (post_ack c (ReceiveFileChunk (chunk_query c e n) bytes))" for n bytes
    using contained_post [OF 1(2)] contained_unchecked [of "ReceiveFileChunk (chunk_query c e n) bytes"] 1(3)
    by (auto simp: chunk_query_def)
  show ?case unfolding send_chunks.simps [of c e offset pos es]
    using 1(1,2,3) by (auto split: sum.splits intro!: within.obeys_intros post)
qed

lemma contained_body:
  assumes "sends_to pr c" and "plain_rel (rel_path e) ws"
  shows "contained (to_root c) (send_file_body_streamed c e src offset)"
    and "contained (to_root c) (send_file_body_chunked c e src offset)"
proof -
  have "contained (to_root c) (remote_post_octet_stream (to_peer c) (chunk_query c e offset) written failure)" for written failure
    using contained_octet_stream [OF assms(1), of _ "to_root c"] assms(2) by (simp add: chunk_query_def)
  then show "contained (to_root c) (send_file_body_streamed c e src offset)"
    by (auto simp: send_file_body_streamed_def ack_of_def split: option.splits prod.splits reply.splits
        intro!: within.obeys_intros)
  show "contained (to_root c) (send_file_body_chunked c e src offset)"
    using contained_chunks [OF assms]
    by (auto simp: send_file_body_chunked_def split: option.splits intro!: within.obeys_intros)
qed

section \<open>What the sender has read\<close>

text \<open>Content that one of the reads of the source delivered, complete, with the entry's size and time at
  the look at the source that follows the read.\<close>

definition read_from_source :: "SnapshotEntry \<Rightarrow> source_file \<Rightarrow> u8 list \<Rightarrow> bool" where
  "read_from_source e src w \<longleftrightarrow> length w = as_len (size_of e) \<and>
     (put_read src = Some w \<and> put_stat src = Some (size_of e, mtime_ns e)
      \<or> delta_read src = Some w \<and> delta_stat src = Some (size_of e, mtime_ns e)
      \<or> (\<exists>es. (streamed_reads src = Some es \<or> chunked_reads src = Some es) \<and> prefix w (pending es))
        \<and> sent_stat src = Some (size_of e, mtime_ns e))"

lemma stream_body_data:
  assumes "stream_body c e offset pos es = (written, hashed, None)"
  shows "prefix hashed (pending es) \<and> length hashed = as_len (size_of e) - pos \<and> concat written = drop (offset - pos) hashed"
  using assms
proof (induction c e offset pos es arbitrary: written hashed rule: stream_body.induct)
  case (1 c e offset pos es)
  show ?case
  proof (cases "as_len (size_of e) \<le> pos")
    case False
    with 1(2) obtain bytes es' written' hashed' where r: "\<not> stop_at c pos"
      "read_call es (min (as_len (size_of e) - pos) TRANSFER_CHUNK_SIZE) = Inr (bytes, es')" "bytes \<noteq> []"
      "stream_body c e offset (pos + length bytes) es' = (written', hashed', None)"
      and out: "hashed = bytes @ hashed'"
        "written = (if pos + length bytes > offset then drop (offset - pos) bytes # written' else written')"
      by (auto simp: stream_body.simps [of c e offset pos es] split: if_splits sum.splits prod.splits)
    from 1(1) [OF False r(1,2) refl r(3,4)] read_call_pending [OF r(2)] read_call_length [OF r(2)] out False
    show ?thesis by auto
  qed (use 1(2) in \<open>simp add: stream_body.simps [of c e offset pos es]\<close>)
qed

lemma send_chunks_data:
  assumes "send_chunks c e offset pos es d = (Inr hashed, d')"
  shows "prefix hashed (pending es) \<and> length hashed = as_len (size_of e) - pos"
  using assms
proof (induction c e offset pos es arbitrary: hashed d rule: send_chunks.induct)
  case (1 c e offset pos es)
  show ?case
  proof (cases "as_len (size_of e) \<le> pos")
    case False
    with 1(2) obtain bytes es' hashed' d1 where r: "\<not> stop_at c pos"
      "read_call es (min (as_len (size_of e) - pos) TRANSFER_CHUNK_SIZE) = Inr (bytes, es')" "bytes \<noteq> []"
      "send_chunks c e offset (pos + length bytes) es' d1 = (Inr hashed', d')" "hashed = bytes @ hashed'"
      by (auto simp: send_chunks.simps [of c e offset pos es] run_simps split: if_splits sum.splits)
    from 1(1) [OF False r(1,2) refl r(3,4)] read_call_pending [OF r(2)] read_call_length [OF r(2)] r(5) False
    show ?thesis by auto
  qed (use 1(2) in \<open>simp add: send_chunks.simps [of c e offset pos es] run_simps\<close>)
qed

section \<open>What the endpoints publish\<close>

lemma received_hash [simp]: "received w (e\<lparr>hash := h\<rparr>) = received w e"
  by (simp add: received_def)

lemma finish_file_publishes:
  assumes run: "transfer_finish_file rc root cycle e (Some full_hash) d = (Inr (), d')"
    and "root \<noteq> ''''" and "fs_ok d" and "0 \<le> mtime_ns e"
  obtains ws w where "plain_rel (rel_path e) ws" and "d' (locate root @ ws) = Some (received w e)"
    and "length w = as_len (size_of e)" and "hash_bytes rc w = (case hash e of None \<Rightarrow> full_hash | Some h \<Rightarrow> h)"
    and "\<exists>t m. d (tmp_key rc root cycle ws) = Some (RegularFile w t m)" and "file_type e = ''file''"
proof -
  let ?tmp = "tmp_of rc root cycle (rel_path e)" and ?e = "if hash e = None then e\<lparr>hash := Some full_hash\<rparr> else e"
  have e: "rel_path ?e = rel_path e" "mtime_ns ?e = mtime_ns e" "received w ?e = received w e" for w by auto
  from run obtain p len where p: "safe_join_rel root (rel_path e) = Inr p" and kind: "file_type e = ''file''"
    and len: "metadata_len rc ?tmp d = Inr len" "len = as_len (size_of e)"
    and fin: "finish_received_file rc root cycle ?e ?tmp p d = (Inr (), d')"
    by (auto simp: transfer_finish_file_def Let_def run_simps reject_dangerous_def safe_join_def)
  obtain ws where ws: "plain_rel (rel_path e) ws" "locate p = locate root @ ws"
    "create_parent p = call (create_dir_all (locate root @ butlast ws))" and tmp: "locate ?tmp = tmp_key rc root cycle ws"
    using finish_ok_inputs [OF p assms(2), of rc cycle] by metis
  have "\<exists>h. hash ?e = Some h" by auto
  with fin obtain w where "read_file (tmp_key rc root cycle ws) d = Inr w"
    by (auto simp: finish_received_file_def hash_file_def run_simps tmp split: option.splits)
  then obtain t m where w: "d (tmp_key rc root cycle ws) = Some (RegularFile w t m)"
    by (auto simp: read_file_def lstat_def split: option.splits node.splits)
  have "length w = as_len (size_of e)" using len w by (simp add: metadata_len_def lstat_def tmp)
  moreover note pub = finish_publishes [OF _ assms(2,3) _ tmp ws(2,3) w fin, unfolded e, OF ws(1) assms(4)]
  moreover have "hash_bytes rc w = (case hash e of None \<Rightarrow> full_hash | Some h \<Rightarrow> h)"
    using pub(2) by (auto split: option.splits)
  ultimately show ?thesis using that ws(1) w kind by blast
qed

lemma apply_delta_publishes:
  assumes run: "transfer_apply_delta rc q delta d = (Inr (), d')"
    and "delta_root q \<noteq> ''''" and "fs_ok d" and "0 \<le> delta_mtime q"
  obtains ws w where "plain_rel (delta_rel q) ws"
    and "d' (locate (delta_root q) @ ws) = Some (RegularFile w (Some (delta_mtime q)) (Some (delta_mode q)))"
    and "length w = as_len (delta_size q)" and "hash_bytes rc w = delta_hash q"
proof -
  let ?e = "file_entry (delta_rel q) (delta_size q) (delta_mtime q) (delta_mode q) (Some (delta_hash q))"
  let ?tmp = "tmp_of rc (delta_root q) (delta_cycle q) (delta_rel q)"
  have e: "rel_path ?e = delta_rel q" "mtime_ns ?e = delta_mtime q" "hash ?e = Some (delta_hash q)"
    "received w ?e = RegularFile w (Some (delta_mtime q)) (Some (delta_mode q))" for w
    by (simp_all add: file_entry_def received_def)
  from run obtain p d1 old d2 len where p: "safe_join_rel (delta_root q) (delta_rel q) = Inr p"
    and parent: "create_parent ?tmp d = (Inr (), d1)"
    and written: "write_file (locate ?tmp) (fst (apply_delta old delta)) d1 = (Inr (), d2)"
    and len: "metadata_len rc ?tmp d2 = Inr len" "len = as_len (delta_size q)"
    and fin: "finish_received_file rc (delta_root q) (delta_cycle q) ?e ?tmp p d2 = (Inr (), d')"
    by (auto simp: transfer_apply_delta_def Let_def run_simps reject_dangerous_def safe_join_def
        split: option.splits if_splits)
  obtain ws where ws: "plain_rel (delta_rel q) ws" "locate p = locate (delta_root q) @ ws"
    "create_parent p = call (create_dir_all (locate (delta_root q) @ butlast ws))"
    and tmp: "locate ?tmp = tmp_key rc (delta_root q) (delta_cycle q) ws"
    "create_parent ?tmp = call (create_dir_all (butlast (tmp_key rc (delta_root q) (delta_cycle q) ws)))"
    using finish_ok_inputs [OF p assms(2), of rc "delta_cycle q"] by metis
  note made = create_dir_all_effect(1) [OF parent [unfolded tmp call_Inr] assms(3)]
  note wrote = write_file_effect [OF written [unfolded tmp] made]
  obtain w m where w: "d2 (tmp_key rc (delta_root q) (delta_cycle q) ws) = Some (RegularFile w None m)" using wrote(2) by blast
  have "length w = as_len (delta_size q)" using len w by (simp add: metadata_len_def lstat_def tmp)
  moreover note pub = finish_publishes [OF _ assms(2) wrote(1) _ tmp(1) ws(2,3) w fin, unfolded e, OF ws(1) assms(4)]
  ultimately show ?thesis using that ws(1) by blast
qed

lemma symlink_publishes:
  assumes run: "receive_symlink_target rc root cycle e target d = (Inr (), d')" and "root \<noteq> ''''" and "fs_ok d"
  obtains ws where "plain_rel (rel_path e) ws" and "d' (locate root @ ws) = Some (SymbolicLink target)"
    and "hash e = Some (hash_symlink_target target)"
proof -
  let ?tmp = "tmp_of rc root cycle (rel_path e)"
  from run obtain p d1 d2 d3 d4 where p: "safe_join_rel root (rel_path e) = Inr p"
    and parent: "create_parent ?tmp d = (Inr (), d1)"
    and clear: "bind_io (ask (present ?tmp)) (\<lambda>here. if here then remove_any ?tmp else ret_io ()) d1 = (Inr (), d2)"
    and link: "symlink target (locate ?tmp) d2 = (Inr (), d3)"
    and check: "bind_io (hash_symlink ?tmp) (\<lambda>h. if Some h \<noteq> hash e
        then seq_io (ok_io (remove_any ?tmp)) (fail_io (HashMismatch (rel_path e))) else ret_io ()) d3 = (Inr (), d4)"
    and rep: "replace_path root cycle (rel_path e) ?tmp p d4 = (Inr (), d')"
    unfolding receive_symlink_target_def Let_def
    by (auto simp: seq_io_Inr bind_io_Inr [of "lift_err c s" for c s] lift_err_Inr reject_dangerous_def safe_join_def
        call_Inr basic_io_Inr)
  obtain ws where ws: "plain_rel (rel_path e) ws" "locate p = locate root @ ws" and tmp: "locate ?tmp = tmp_key rc root cycle ws"
    "create_parent ?tmp = call (create_dir_all (butlast (tmp_key rc root cycle ws)))"
    using finish_ok_inputs [OF p assms(2), of rc cycle] by metis
  note made = create_dir_all_effect(1) [OF parent [unfolded tmp call_Inr] assms(3)]
  have ok2: "fs_ok d2" using clear made fs_ok_remove_tree
    by (auto simp: bind_ask remove_any_def basic_io_Inr tmp split: if_splits)
  have "obeys (confined []) (call (symlink target (locate ?tmp)))" by (rule obeys_confined) (simp_all add: tmp)
  then have ok3: "fs_ok d3" using link ok2 by (auto simp: obeys_def confined_def call_def dest: spec [of _ d2])
  have at: "d3 (locate ?tmp) = Some (SymbolicLink target)" using link by (auto simp: symlink_def split: if_splits)
  have "hash_symlink ?tmp d3 = (Inr (hash_symlink_target target), d3)"
    using at by (simp add: hash_symlink_def look_def read_link_def lstat_def tmp bind_io_def ret_io_def)
  then have d4: "d4 = d3" "hash e = Some (hash_symlink_target target)"
    using check by (auto simp: bind_io_def run_simps split: if_splits)
  from replace_path_publishes(1) [OF ws(1) assms(2) ok3 tmp(1) ws(2) at rep [unfolded d4]] that ws(1) d4(2)
  show ?thesis by blast
qed

section \<open>A pushed entry\<close>

text \<open>The node that a push of the entry has to leave: the content it was read with, under the hash the
  snapshot gave, if it gave one.\<close>

definition pushed_node :: "receiver \<Rightarrow> SnapshotEntry \<Rightarrow> source_file \<Rightarrow> node \<Rightarrow> bool" where
  "pushed_node rc e src n \<longleftrightarrow>
     (if file_type e = ''file''
      then \<exists>w v. n = received w e \<and> length w = as_len (size_of e) \<and> read_from_source e src v \<and>
        hash_bytes rc w = (case hash e of None \<Rightarrow> hash_bytes rc v | Some h \<Rightarrow> h)
      else \<exists>target. n = SymbolicLink target \<and> link_read src = Some target \<and> hash e = Some (hash_symlink_target target))"

lemma pushed_file:
  assumes "file_type e = ''file''" and "length w = as_len (size_of e)" and "read_from_source e src v"
    and "hash_bytes rc w = (case hash e of None \<Rightarrow> hash_bytes rc v | Some h \<Rightarrow> h)"
  shows "pushed_node rc e src (received w e)"
  using assms by (auto simp: pushed_node_def)

lemma put_arrives:
  assumes "sends_to pr c" and "to_root c \<noteq> ''''" and "fs_ok d" and "0 \<le> mtime_ns e" and "hash e = None"
    and run: "send_put_file_tcp c e src d = (Inr (), d')"
  shows "\<exists>ws w. plain_rel (rel_path e) ws \<and> d' (locate (to_root c) @ ws) = Some (received w e) \<and> read_from_source e src w"
proof -
  from run obtain w where w: "put_read src = Some w" "length w = as_len (size_of e)" "put_stat src = Some (size_of e, mtime_ns e)"
    and put: "transfer_put_file (receiving pr) (put_query c e (sender_hash c w)) w d = (Inr (), d')"
    by (auto simp: send_put_file_tcp_def seq_io_Inr basic_io_Inr stable_source_Inr post_ack_Inr [OF assms(1)] ack_io_Inr
        split: option.splits if_splits)
  from put_file_publishes [OF put _ assms(3)] w assms(2,4) show ?thesis
    by (auto simp: put_query_def received_def read_from_source_def)
qed

lemma finish_arrives:
  assumes c: "sends_to pr c" and "to_root c \<noteq> ''''" and "0 \<le> mtime_ns e" and "fs_ok d"
    and v: "prefix v (pending es)" "length v = as_len (size_of e)" "streamed_reads src = Some es \<or> chunked_reads src = Some es"
    and run: "seq_io (stable_source (sent_stat src) e)
        (post_ack c (FinishFile (to_root c) (to_cycle c) e (Some (sender_hash c v)))) d = (Inr (), d')"
  shows "\<exists>ws n. plain_rel (rel_path e) ws \<and> d' (locate (to_root c) @ ws) = Some n \<and> pushed_node (receiving pr) e src n"
proof -
  from run have st: "sent_stat src = Some (size_of e, mtime_ns e)"
    and fin: "transfer_finish_file (receiving pr) (to_root c) (to_cycle c) e (Some (sender_hash c v)) d = (Inr (), d')"
    by (auto simp: seq_io_Inr stable_source_Inr post_ack_Inr [OF c] ack_io_Inr)
  obtain ws w where "plain_rel (rel_path e) ws" "d' (locate (to_root c) @ ws) = Some (received w e)"
    "length w = as_len (size_of e)" "file_type e = ''file''"
    "hash_bytes (receiving pr) w = (case hash e of None \<Rightarrow> sender_hash c v | Some h \<Rightarrow> h)"
    by (rule finish_file_publishes [OF fin assms(2,4,3)])
  moreover have "read_from_source e src v" using v st by (auto simp: read_from_source_def)
  ultimately show ?thesis using pushed_file [of e w src v] sender_hash_peer [OF c] by metis
qed

lemma body_data:
  assumes c: "sends_to pr c"
    and run: "or_missing (send_file_body_streamed c e src k) (send_file_body_chunked c e src k) d = (Inr h, d')"
  shows "\<exists>v es. h = sender_hash c v \<and> prefix v (pending es) \<and> length v = as_len (size_of e)
    \<and> (streamed_reads src = Some es \<or> chunked_reads src = Some es)"
proof -
  from run consider "send_file_body_streamed c e src k d = (Inr h, d')" | d1 where "send_file_body_chunked c e src k d1 = (Inr h, d')"
    by (auto simp: or_missing_def split: prod.splits sum.splits send_error.splits)
  then show ?thesis
  proof cases
    case 1
    then obtain es written v failure r where es: "streamed_reads src = Some es" "stream_body c e k 0 es = (written, v, failure)"
      and post: "remote_post_octet_stream (to_peer c) (chunk_query c e k) written failure d = (Inr r, d')" and h: "h = sender_hash c v"
      by (auto simp: send_file_body_streamed_def run_simps split: option.splits prod.splits)
    from post have "failure = None"
      by (auto simp: remote_post_octet_stream_def split: option.splits prod.splits sum.splits send_error.splits)
    with es(2) stream_body_data [of c e k 0 es written v] es(1) h show ?thesis by auto
  next
    case 2
    then obtain es v where "chunked_reads src = Some es" "send_chunks c e k 0 es d1 = (Inr v, d')" "h = sender_hash c v"
      by (auto simp: send_file_body_chunked_def run_simps split: option.splits)
    with send_chunks_data [of c e k 0 es d1 v d'] show ?thesis by auto
  qed
qed

text \<open>The requests of a push that is not a single one.\<close>

lemma file_steps:
  assumes c: "sends_to pr c" and "fs_ok d" and plain: "plain_rel (rel_path e) ws"
    and False: "\<not> (as_len (size_of e) \<le> TRANSFER_CHUNK_SIZE \<and> hash e = None)"
    and run: "send_file_tcp c e src d = (Inr (), d')"
  obtains n d1 h d2 where
    "or_missing (send_file_body_streamed c e src (resume_offset e n)) (send_file_body_chunked c e src (resume_offset e n)) d1 = (Inr h, d2)"
    and "seq_io (stable_source (sent_stat src) e) (post_ack c (FinishFile (to_root c) (to_cycle c) e (Some h))) d2 = (Inr (), d')"
    and "fs_ok d2"
    and "ask_peer pr (FileOffset (to_root c) (rel_path e) (to_cycle c) (size_of e)) d = (Inr (OffsetReply n), d1)"
proof -
  let ?body = "\<lambda>n. or_missing (send_file_body_streamed c e src (resume_offset e n)) (send_file_body_chunked c e src (resume_offset e n))"
  let ?ask = "FileOffset (to_root c) (rel_path e) (to_cycle c) (size_of e)"
  have start: "bind_io (ask_peer pr ?ask) (\<lambda>r. case r of
          OffsetReply n \<Rightarrow> bind_io (?body n)
              (\<lambda>full_hash. seq_io (stable_source (sent_stat src) e)
                (post_ack c (FinishFile (to_root c) (to_cycle c) e (Some full_hash))))
        | _ \<Rightarrow> fail_io BadReply) d = (Inr (), d')"
    using run c unfolding send_file_tcp_def sends_to_def if_not_P [OF False] by simp
  obtain r d1 where "ask_peer pr ?ask d = (Inr r, d1)" and rest: "(case r of
          OffsetReply n \<Rightarrow> bind_io (?body n)
              (\<lambda>full_hash. seq_io (stable_source (sent_stat src) e)
                (post_ack c (FinishFile (to_root c) (to_cycle c) e (Some full_hash))))
        | _ \<Rightarrow> fail_io BadReply) d1 = (Inr (), d')"
    using bind_run [OF start] .
  then obtain n h d2 where ask: "ask_peer pr ?ask d = (Inr (OffsetReply n), d1)"
    and body: "?body n d1 = (Inr h, d2)"
    and fin: "seq_io (stable_source (sent_stat src) e) (post_ack c (FinishFile (to_root c) (to_cycle c) e (Some h))) d2 = (Inr (), d')"
    by (cases r) (auto simp: basic_io_Inr elim!: bind_run)
  have "contained (to_root c) (ask_peer pr ?ask)"
    using contained_ask contained_unchecked [OF _ plain, of ?ask] by simp
  with ask assms(2) have ok1: "fs_ok d1" by (auto simp: obeys_def confined_def dest: spec [of _ d])
  have "contained (to_root c) (?body n)" by (intro contained_or_missing contained_body [OF c plain])
  with body ok1 have ok2: "fs_ok d2" by (auto simp: obeys_def confined_def dest: spec [of _ d1])
  from that [OF body fin ok2 ask] show ?thesis .
qed

lemma file_arrives:
  assumes c: "sends_to pr c" and "to_root c \<noteq> ''''" and "fs_ok d" and "0 \<le> mtime_ns e" and "file_type e = ''file''"
    and plain: "plain_rel (rel_path e) ws"
    and run: "send_file_tcp c e src d = (Inr (), d')"
  shows "\<exists>ws n. plain_rel (rel_path e) ws \<and> d' (locate (to_root c) @ ws) = Some n \<and> pushed_node (receiving pr) e src n"
proof (cases "as_len (size_of e) \<le> TRANSFER_CHUNK_SIZE \<and> hash e = None")
  case True
  then have "send_put_file_tcp c e src d = (Inr (), d')" using run by (simp add: send_file_tcp_def)
  from put_arrives [OF assms(1-4) _ this] True show ?thesis
    using pushed_file [OF assms(5)] by (fastforce simp: read_from_source_def)
next
  case False
  from file_steps [OF c assms(3) plain False run] obtain n d1 h d2 where
    body: "or_missing (send_file_body_streamed c e src (resume_offset e n)) (send_file_body_chunked c e src (resume_offset e n)) d1 = (Inr h, d2)"
    and fin: "seq_io (stable_source (sent_stat src) e) (post_ack c (FinishFile (to_root c) (to_cycle c) e (Some h))) d2 = (Inr (), d')"
    and ok2: "fs_ok d2" .
  from body_data [OF c body] fin show ?thesis using finish_arrives [OF c assms(2,4) ok2] by blast
qed

lemma delta_arrives:
  assumes c: "sends_to pr c" and "to_root c \<noteq> ''''" and "fs_ok d" and "0 \<le> mtime_ns e" and "file_type e = ''file''"
    and plain: "plain_rel (rel_path e) ws" and "hash e = None"
    and run: "send_file_delta c e src d = (Inr (), d')"
  shows "\<exists>ws n. plain_rel (rel_path e) ws \<and> d' (locate (to_root c) @ ws) = Some n \<and> pushed_node (receiving pr) e src n"
proof -
  let ?ask = "AskBlockSums (to_root c) (rel_path e)"
  let ?rest = "\<lambda>sums. if blocks sums = [] then send_file_tcp c e src
         else (case delta_read src of
             None \<Rightarrow> fail_io failed_read
           | Some new \<Rightarrow>
               if length new \<noteq> as_len (size_of e) then fail_io (changed e)
               else seq_io (stable_source (delta_stat src) e)
                 (if length (build_delta (sender_blake3 c) new sums) \<ge> length new div 10 * 9
                  then send_file_tcp c e src
                  else post_ack c (ApplyDelta (delta_query c e (sender_hash c new))
                    (build_delta (sender_blake3 c) new sums))))"
  have start: "bind_io (ask_peer pr ?ask) (\<lambda>r. case r of SumsReply sums \<Rightarrow> ?rest sums | _ \<Rightarrow> fail_io BadReply) d = (Inr (), d')"
    using run c unfolding send_file_delta_def sends_to_def by simp
  obtain r d1 where "ask_peer pr ?ask d = (Inr r, d1)"
    and "(case r of SumsReply sums \<Rightarrow> ?rest sums | _ \<Rightarrow> fail_io BadReply) d1 = (Inr (), d')"
    using bind_run [OF start] .
  then obtain sums where ask: "ask_peer pr ?ask d = (Inr (SumsReply sums), d1)" and rest: "?rest sums d1 = (Inr (), d')"
    by (cases r) (simp_all only: reply.case basic_io_Inr simp_thms)
  have rest: "send_file_tcp c e src d1 = (Inr (), d') \<or> (\<exists>new. delta_read src = Some new \<and> length new = as_len (size_of e)
      \<and> delta_stat src = Some (size_of e, mtime_ns e)
      \<and> transfer_apply_delta (receiving pr) (delta_query c e (sender_hash c new)) (build_delta (sender_blake3 c) new sums) d1 = (Inr (), d'))"
  proof (cases "blocks sums = []")
    case False
    with rest obtain new where "delta_read src = Some new" by (cases "delta_read src") (simp_all add: basic_io_Inr)
    with False rest show ?thesis
      by (auto simp: basic_io_Inr seq_io_Inr stable_source_Inr post_ack_Inr [OF c] ack_io_Inr split: if_splits)
  qed (use rest in simp)
  have "contained (to_root c) (ask_peer pr ?ask)"
    by (rule contained_ask) (auto simp: answer_io_def intro!: contained_intros contained_sums)
  with ask assms(3) have ok: "fs_ok d1" by (auto simp: obeys_def confined_def dest: spec [of _ d])
  from rest show ?thesis
  proof (elim disjE exE conjE)
    assume "send_file_tcp c e src d1 = (Inr (), d')"
    from file_arrives [OF c assms(2) ok assms(4,5) plain this] show ?thesis .
  next
    fix new assume new: "delta_read src = Some new" "length new = as_len (size_of e)" "delta_stat src = Some (size_of e, mtime_ns e)"
      and run: "transfer_apply_delta (receiving pr) (delta_query c e (sender_hash c new)) (build_delta (sender_blake3 c) new sums) d1 = (Inr (), d')"
    have q: "delta_root (delta_query c e h) = to_root c" "delta_rel (delta_query c e h) = rel_path e"
      "delta_mtime (delta_query c e h) = mtime_ns e" "delta_mode (delta_query c e h) = mode_bits e"
      "delta_size (delta_query c e h) = size_of e" "delta_hash (delta_query c e h) = h" for h
      by (simp_all add: delta_query_def)
    obtain vs w where "plain_rel (rel_path e) vs" "d' (locate (to_root c) @ vs) = Some (received w e)"
      "length w = as_len (size_of e)" "hash_bytes (receiving pr) w = sender_hash c new"
      using apply_delta_publishes [OF run _ ok] assms(2,4) unfolding q received_def by metis
    moreover have "read_from_source e src new" using new by (simp add: read_from_source_def)
    ultimately show ?thesis using pushed_file [OF assms(5)] assms(7) sender_hash_peer [OF c] by (metis option.simps(4))
  qed
qed


section \<open>Examples\<close>

lemma demo_show: "show_i64 3 = ''3''"
proof -
  have "char_of (51 :: nat) = CHR ''3''" by code_simp
  then show ?thesis by (simp add: show_i64_def decimal.simps [of 3])
qed

lemma demo_plain_g: "plain_rel ''d/g'' [''d'', ''g'']"
proof -
  have "valid_name ''g''" by (auto simp: valid_name_def is_sep_def)
  then show ?thesis using plain_names [of "[''d'', ''g'']"] demo_names by simp
qed

definition demo_peer :: peer where
  "demo_peer = \<lparr>reaches = (\<lambda>_. True), supports = (\<lambda>_. True), header_parser = (\<lambda>_. None), receiving = demo_receiver\<rparr>"

definition demo_sending :: sending where
  "demo_sending = \<lparr>to_peer = ask_peer demo_peer, to_root = ''/b'', to_cycle = 3, sender_blake3 = blake3 demo_receiver,
     render_header = (\<lambda>_. []), stop_at = (\<lambda>_. False)\<rparr>"

definition demo_entry :: SnapshotEntry where
  "demo_entry = \<lparr>rel_path = ''d/g'', file_type = ''file'', size_of = 2, mtime_ns = 5, mode_bits = 420, hash = None\<rparr>"

definition demo_source :: source_file where
  "demo_source = \<lparr>put_read = Some [65, 66], put_stat = Some (2, 5), delta_read = None, delta_stat = None,
     streamed_reads = None, chunked_reads = None, sent_stat = None, link_read = None\<rparr>"

definition demo_put :: PutFileQuery where
  "demo_put = put_query demo_sending demo_entry (sender_hash demo_sending [65, 66])"

lemma demo_sends: "sends_to demo_peer demo_sending" "to_root demo_sending = ''/b''"
  by (simp_all add: sends_to_def demo_sending_def demo_peer_def)

lemma demo_put_fields:
  "put_root demo_put = ''/b''" "put_rel demo_put = ''d/g''" "put_cycle demo_put = 3" "put_size demo_put = 2"
  "put_mtime demo_put = 5" "put_mode demo_put = 420" "put_hash demo_put = Some (hash_bytes demo_receiver [65, 66])"
  by (simp_all add: demo_put_def put_query_def demo_entry_def demo_sending_def sender_hash_def hash_bytes_def)

lemma demo_put_runs: "\<exists>d'. transfer_put_file demo_receiver demo_put [65, 66] demo_fs = (Inr (), d')"
proof -
  let ?p = "path_push ''/b'' ''d/g''" and ?tmp = "tmp_of demo_receiver ''/b'' 3 ''d/g''"
  let ?e = "file_entry ''d/g'' 2 5 420 (Some (hash_bytes demo_receiver [65, 66]))"
  let ?k = "[''b'', INTERNAL_TMP, ''3'', ''d'', ''g.tmp.7'']"
  let ?d1 = "demo_fs([''b'', INTERNAL_TMP] \<mapsto> Directory None None, [''b'', INTERNAL_TMP, ''3''] \<mapsto> Directory None None,
      [''b'', INTERNAL_TMP, ''3'', ''d''] \<mapsto> Directory None None)"
  let ?d2 = "?d1(?k \<mapsto> RegularFile [65, 66] None None)" and ?d3 = "?d1(?k \<mapsto> received [65, 66] ?e)"
  have join: "safe_join_rel ''/b'' ''d/g'' = Inr ?p"
    using plain_join [of "[''d'', ''g'']" "''/b''"] demo_plain_g by simp
  have k: "tmp_key demo_receiver ''/b'' 3 [''d'', ''g''] = ?k"
    by (simp add: tmp_key_def demo_root demo_show demo_receiver_def demo_decimal)
  note tmp = tmp_of_key [OF demo_plain_g, of demo_receiver "''/b''" 3, unfolded k]
  have p: "locate ?p = [''b'', ''d'', ''g'']" "create_parent ?p = call (create_dir_all [''b'', ''d''])"
  proof -
    obtain ws where ws: "plain_rel ''d/g'' ws" "locate ?p = locate ''/b'' @ ws"
      "create_parent ?p = call (create_dir_all (locate ''/b'' @ butlast ws))" using finish_ok_inputs [OF join, where rc = demo_receiver and cycle = 3] by auto
    have "ws = [''d'', ''g'']" using plain_unique [OF ws(1) demo_plain_g] .
    with ws show "locate ?p = [''b'', ''d'', ''g'']" "create_parent ?p = call (create_dir_all [''b'', ''d''])"
      by (simp_all add: demo_root)
  qed
  have itmp: "INTERNAL_TMP \<noteq> ''d''" by (simp add: INTERNAL_TMP_def)
  have make: "create_dir_all [''b'', INTERNAL_TMP, ''3'', ''d''] demo_fs = (Inr (), ?d1)"
    using itmp by (simp add: create_dir_all_def demo_fs_def)
  have wr: "write_file ?k [65, 66] ?d1 = (Inr (), ?d2)"
    using itmp by (simp add: write_file_def dir_at_def demo_fs_def)
  have settle: "snd (set_mode ?tmp (mode_bits ?e) ?d2) = ?d1(?k \<mapsto> RegularFile [65, 66] None (Some 420))"
    "snd (set_file_mtime ?tmp (file_time (mtime_ns ?e)) (?d1(?k \<mapsto> RegularFile [65, 66] None (Some 420)))) = ?d3"
    using settle_file [of ?d2 ?tmp "[65, 66]" None None ?e] by (simp_all add: tmp file_entry_def)
  have there: "create_dir_all [''b'', ''d''] ?d3 = (Inr (), ?d3)"
    using itmp by (simp add: create_dir_all_def demo_fs_def)
  have "\<not> present ?p ?d3" using itmp by (simp add: present_def lstat_def p demo_fs_def)
  moreover have "\<exists>d'. rename ?k [''b'', ''d'', ''g''] ?d3 = (Inr (), d')"
    using itmp by (simp add: rename_def below_def dir_at_def demo_fs_def)
  ultimately have "\<exists>d'. replace_path ''/b'' 3 ''d/g'' ?tmp ?p ?d3 = (Inr (), d')"
    by (simp add: replace_path_def seq_io_Inr bind_ask basic_io_Inr call_Inr tmp p)
  moreover have "read_file ?k ?d2 = Inr [65, 66]" by (simp add: read_file_def lstat_def)
  ultimately have "\<exists>d'. finish_received_file demo_receiver ''/b'' 3 ?e ?tmp ?p ?d2 = (Inr (), d')"
    using settle there
    by (simp add: finish_received_file_def hash_file_def bind_io_Inr look_Inr seq_io_Inr basic_io_Inr p call_Inr file_entry_def tmp)
  then show ?thesis
    by (simp add: transfer_put_file_def demo_put_fields Let_def seq_io_Inr reject_dangerous_def demo_safe lift_err_Inr
        basic_io_Inr as_len_def bind_safe_join [OF join] file_entry_def tmp call_Inr make wr)
qed

lemma demo_push_runs: "\<exists>d'. transfer_push_file demo_sending ''/a'' demo_entry False demo_source demo_fs = (Inr (), d')"
proof -
  obtain d' where "transfer_put_file demo_receiver demo_put [65, 66] demo_fs = (Inr (), d')" using demo_put_runs by blast
  then have "post_ack demo_sending (PutFile demo_put [65, 66]) demo_fs = (Inr (), d')"
    by (simp add: post_ack_Inr [OF demo_sends(1)] demo_peer_def ack_io_Inr)
  moreover have "safe_join_rel ''/a'' ''d/g'' = Inr (path_push ''/a'' ''d/g'')"
    using plain_join [of "[''d'', ''g'']" "''/a''"] demo_plain_g by simp
  ultimately show ?thesis
    by (auto simp: transfer_push_file_def demo_entry_def bind_io_Inr lift_err_Inr send_file_tcp_def send_put_file_tcp_def
        as_len_def TRANSFER_CHUNK_SIZE_def demo_source_def seq_io_Inr stable_source_Inr demo_put_def)
qed


end
