(* ===== verification/Send_Resume.thy ===== *)
theory Send_Resume
  imports Send_Arrival
begin

text \<open>
  Interrupted pushes. What an attempt leaves under the temporary name is a beginning of the source's
  content, whatever stopped it, and the next attempt continues from there: with a source that does not
  change, no number of interruptions makes the receiver reject or publish other content.
\<close>

section \<open>Conditions before and after a run\<close>

definition triple :: "(fs \<Rightarrow> bool) \<Rightarrow> ('e, 'a) action \<Rightarrow> ('a \<Rightarrow> fs \<Rightarrow> bool) \<Rightarrow> ('e \<Rightarrow> fs \<Rightarrow> bool) \<Rightarrow> bool" where
  "triple P m Q E \<longleftrightarrow> (\<forall>d. P d \<longrightarrow> (case m d of (Inr x, d') \<Rightarrow> Q x d' | (Inl e, d') \<Rightarrow> E e d'))"

lemma triple_bind: "triple P m R E \<Longrightarrow> (\<And>x. triple (R x) (k x) Q E) \<Longrightarrow> triple P (bind_io m k) Q E"
  unfolding triple_def bind_io_def by (fastforce split: prod.splits sum.splits)

lemma triple_seq: "triple P m (\<lambda>_. R) E \<Longrightarrow> triple R k Q E \<Longrightarrow> triple P (seq_io m k) Q E"
  unfolding seq_io_def by (rule triple_bind)

lemma triple_weaken:
  assumes "triple P m Q E" and "\<And>d. P' d \<Longrightarrow> P d" and "\<And>x d. Q x d \<Longrightarrow> Q' x d" and "\<And>e d. E e d \<Longrightarrow> E' e d"
  shows "triple P' m Q' E'"
  using assms unfolding triple_def by (fastforce split: prod.splits sum.splits)

lemma triple_ret: "(\<And>d. P d \<Longrightarrow> Q x d) \<Longrightarrow> triple P (ret_io x) Q E"
  by (simp add: triple_def ret_io_def)

lemma triple_fail: "(\<And>d. P d \<Longrightarrow> E e d) \<Longrightarrow> triple P (fail_io e) Q E"
  by (simp add: triple_def fail_io_def)

lemma triple_bail: "(\<And>d. P d \<Longrightarrow> b \<Longrightarrow> E e d) \<Longrightarrow> (\<And>d. P d \<Longrightarrow> \<not> b \<Longrightarrow> Q () d) \<Longrightarrow> triple P (bail_io b e) Q E"
  by (simp add: triple_def bail_io_def fail_io_def ret_io_def)

lemma triple_lift: "(\<And>i d. r = Inl i \<Longrightarrow> P d \<Longrightarrow> E (c i) d) \<Longrightarrow> (\<And>x d. r = Inr x \<Longrightarrow> P d \<Longrightarrow> Q x d) \<Longrightarrow> triple P (lift_err c r) Q E"
  by (auto simp: triple_def lift_err_def fail_io_def ret_io_def split: sum.splits)

lemma triple_if: "(b \<Longrightarrow> triple P m Q E) \<Longrightarrow> (\<not> b \<Longrightarrow> triple P k Q E) \<Longrightarrow> triple P (if b then m else k) Q E"
  by simp

lemma triple_run: "triple P m Q E \<Longrightarrow> P d \<Longrightarrow> m d = (Inr x, d') \<Longrightarrow> Q x d'"
  "triple P m Q E \<Longrightarrow> P d \<Longrightarrow> m d = (Inl e, d') \<Longrightarrow> E e d'"
  unfolding triple_def by fastforce+

section \<open>A file of which a beginning has arrived\<close>

definition has_part :: "u8 list \<Rightarrow> key \<Rightarrow> nat \<Rightarrow> fs \<Rightarrow> bool" where
  "has_part w k n d \<longleftrightarrow> n \<le> length w \<and> (\<exists>t m. d k = Some (RegularFile (take n w) t m))"

definition partial_file :: "u8 list \<Rightarrow> key \<Rightarrow> fs \<Rightarrow> bool" where
  "partial_file w k d \<longleftrightarrow> d k = None \<or> (\<exists>n. has_part w k n d)"

text \<open>Where an attempt may begin: past the part that is there, or at the start.\<close>

definition at_offset :: "u8 list \<Rightarrow> key \<Rightarrow> nat \<Rightarrow> fs \<Rightarrow> bool" where
  "at_offset w k n d \<longleftrightarrow> (if n = 0 then partial_file w k d else has_part w k n d)"

lemma has_part_offset: "has_part w k n d \<Longrightarrow> at_offset w k n d"
  by (auto simp: at_offset_def partial_file_def)

lemma at_offset_partial: "at_offset w k n d \<Longrightarrow> partial_file w k d"
  by (auto simp: at_offset_def partial_file_def split: if_splits)

lemma at_offset_bound: "at_offset w k n d \<Longrightarrow> n \<le> length w"
  by (auto simp: at_offset_def has_part_def split: if_splits)

lemma partial_beginning: "partial_file w k d \<Longrightarrow> d k = Some (RegularFile u t m) \<Longrightarrow> has_part w k (length u) d"
  by (auto simp: partial_file_def has_part_def min_def)

text \<open>Steps that leave a file at the key as it is, up to its time and mode, or remove it.\<close>

definition same_content :: "node \<Rightarrow> node \<Rightarrow> bool" where
  "same_content n n' \<longleftrightarrow> n = n' \<or> (is_directory n \<and> is_directory n') \<or>
     (\<exists>w t m t' m'. n = RegularFile w t m \<and> n' = RegularFile w t' m')"

definition content_kept :: "key \<Rightarrow> fs \<Rightarrow> fs \<Rightarrow> bool" where
  "content_kept k d d' \<longleftrightarrow> (\<forall>n'. d' k = Some n' \<longrightarrow> (\<exists>n. d k = Some n \<and> same_content n n'))"

lemma same_content_trans: "same_content a b \<Longrightarrow> same_content b c \<Longrightarrow> same_content a c"
  unfolding same_content_def is_directory_def by (cases a; cases b; cases c) auto

lemma same_content_refl: "same_content n n"
  by (simp add: same_content_def)

interpretation keeping: run_relation "content_kept k" for k
proof
  show "content_kept k d d" for d by (simp add: content_kept_def same_content_refl)
  show "content_kept k d d2" if "content_kept k d d1" "content_kept k d1 d2" for d d1 d2
    using that same_content_trans unfolding content_kept_def by blast
qed

lemma content_keptI: "d' k = d k \<or> d' k = None \<Longrightarrow> content_kept k d d'"
  by (auto simp: content_kept_def same_content_refl)

lemma kept_partial: "content_kept k d d' \<Longrightarrow> partial_file w k d \<Longrightarrow> partial_file w k d'"
  unfolding partial_file_def has_part_def
  by (cases "d' k") (fastforce simp: content_kept_def same_content_def is_directory_def)+

lemma make_dirs_elsewhere: "\<not> below k (pre @ xs) \<Longrightarrow> snd (make_dirs pre xs d) k = d k"
proof (induction pre xs d rule: make_dirs.induct)
  case (2 pre x xs d)
  have "\<not> below k ((pre @ [x]) @ xs)" using 2(3) by simp
  moreover have "k \<noteq> pre @ [x]" using 2(3) by (auto simp: below_def)
  ultimately show ?case using 2(1,2) by (cases "d (pre @ [x])") (auto simp del: fun_upd_apply simp: fun_upd_other split: node.splits)
qed simp

lemma create_dir_elsewhere: "\<not> below k j \<Longrightarrow> snd (create_dir_all j d) k = d k"
  unfolding create_dir_all_def by (rule make_dirs_elsewhere) simp

lemma kept_calls:
  "\<not> below k j \<Longrightarrow> obeys (content_kept k) (call (create_dir_all j))"
  "obeys (content_kept k) (remove_any p)"
  "obeys (content_kept k) (set_mode p m)" "obeys (content_kept k) (set_file_mtime p t)"
  "\<not> below b k \<Longrightarrow> obeys (content_kept k) (call (rename a b))"
  "\<not> below b k \<Longrightarrow> obeys (content_kept k) (rename_if_there a b)"
proof -
  have r: "content_kept k d (snd (rename a b d))" if "\<not> below b k" for d
  proof -
    obtain r d' where run: "rename a b d = (r, d')" by fastforce
    then show ?thesis using that by (cases rule: rename_cases) (simp_all add: content_keptI moved_def run)
  qed
  then show "obeys (content_kept k) (call (rename a b))" if "\<not> below b k" using that by (intro keeping.obeys_call)
  show "obeys (content_kept k) (rename_if_there a b)" if "\<not> below b k"
    using r [OF that] unfolding obeys_def rename_if_there_def
    by (auto split: prod.splits sum.splits io_error.splits) (metis snd_conv)+
  show "\<not> below k j \<Longrightarrow> obeys (content_kept k) (call (create_dir_all j))"
    by (intro keeping.obeys_call) (simp add: create_dir_elsewhere content_keptI)
  show "obeys (content_kept k) (remove_any p)"
    by (simp add: obeys_def remove_any_def remove_tree_def content_keptI)
  show "obeys (content_kept k) (set_mode p m)" "obeys (content_kept k) (set_file_mtime p t)"
    unfolding set_mode_def set_file_mtime_def
    by (auto simp: content_kept_def same_content_def is_directory_def set_permissions_def set_file_times_def intro!: keeping.obeys_call keeping.obeys_basic
        split: option.splits node.splits prod.splits)
qed

text \<open>The temporary name lies neither above the final directory nor above or below the trash.\<close>

lemma tmp_elsewhere:
  "\<not> below (tmp_key rc root cycle ws) (locate root @ butlast ws)"
  "\<not> below (tmp_key rc root cycle ws) (butlast (trash_key root cycle ws))"
  "\<not> below (tmp_key rc root cycle ws) (butlast (tmp_key rc root cycle ws))"
proof -
  let ?k = "tmp_key rc root cycle ws"
  have len: "length ?k = length (locate root) + length ws + (if ws = [] then 3 else 2)"
    by (cases ws rule: rev_cases) (simp_all add: tmp_key_def)
  show "\<not> below ?k (locate root @ butlast ws)" "\<not> below ?k (butlast ?k)"
    using len by (auto dest!: arg_cong [where f = length] simp: below_iff split: if_splits)
  show "\<not> below ?k (butlast (trash_key root cycle ws))"
    using tmp_trash_apart below_butlast by blast
qed

section \<open>The endpoints on a part\<close>

fun blames_content :: "receive_error \<Rightarrow> bool" where
  "blames_content (WrongSize m n) \<longleftrightarrow> True"
| "blames_content (HashMismatch rel) \<longleftrightarrow> True"
| "blames_content (DeltaFailed e) \<longleftrightarrow> True"
| "blames_content (ExceedsSize rel) \<longleftrightarrow> True"
| "blames_content (BeyondLength m n) \<longleftrightarrow> True"
| "blames_content OffsetOverflow \<longleftrightarrow> True"
| "blames_content _ \<longleftrightarrow> False"

text \<open>An attempt stopped: a beginning of the content is there, and the content is not to blame.\<close>

definition stopped :: "u8 list \<Rightarrow> key \<Rightarrow> receive_error \<Rightarrow> fs \<Rightarrow> bool" where
  "stopped w k e d \<longleftrightarrow> partial_file w k d \<and> \<not> blames_content e"

lemma triple_reject: "(\<And>d. P d \<Longrightarrow> partial_file w k d) \<Longrightarrow> triple P (reject_dangerous rc root) (\<lambda>_. P) (stopped w k)"
  unfolding reject_dangerous_def by (rule triple_lift) (auto simp: stopped_def)

lemma triple_kept:
  assumes "obeys (content_kept k) m" and "io_only m" and "\<And>d. P d \<Longrightarrow> partial_file w k d"
  shows "triple P m (\<lambda>_. partial_file w k) (stopped w k)"
  unfolding triple_def
proof (intro allI impI)
  fix d assume "P d"
  obtain r d' where run: "m d = (r, d')" by fastforce
  have "partial_file w k d'"
    using assms(1,3) \<open>P d\<close> run kept_partial [of k d d'] by (metis obeys_def snd_conv)
  moreover have "\<not> blames_content e" if "r = Inl e" for e
    using assms(2) run that unfolding io_only_def by fastforce
  ultimately show "case m d of (Inr x, d') \<Rightarrow> partial_file w k d' | (Inl e, d') \<Rightarrow> stopped w k e d'"
    using run by (auto simp: stopped_def split: sum.splits)
qed

lemma part_offset:
  assumes tmp: "locate (tmp_of rc root cycle rel) = k" and size: "length w = as_len sz" "k \<noteq> []"
  shows "triple (partial_file w k) (transfer_file_offset rc root rel cycle sz) (at_offset w k) (stopped w k)"
  unfolding transfer_file_offset_def
proof (rule triple_seq [OF triple_reject])
  let ?tmp = "tmp_of rc root cycle rel"
  show "triple (partial_file w k)
     (\<lambda>d. let tmp = ?tmp in case metadata_len rc tmp d of
           Inr n \<Rightarrow> if n \<le> as_len sz then (Inr n, d) else (Inr 0, snd (remove_any tmp d))
         | Inl NotFound \<Rightarrow> (Inr 0, d)
         | Inl e \<Rightarrow> (Inl (Io e), d)) (at_offset w k) (stopped w k)"
    unfolding triple_def
  proof (intro allI impI)
    fix d assume part: "partial_file w k d"
    then consider "d k = None" | n t m where "d k = Some (RegularFile (take n w) t m)" "n \<le> length w"
      by (auto simp: partial_file_def has_part_def)
    then show "case (let tmp = ?tmp in case metadata_len rc tmp d of
           Inr n \<Rightarrow> if n \<le> as_len sz then (Inr n, d) else (Inr 0, snd (remove_any tmp d))
         | Inl NotFound \<Rightarrow> (Inr 0, d)
         | Inl e \<Rightarrow> (Inl (Io e), d)) of (Inr x, d') \<Rightarrow> at_offset w k x d' | (Inl e, d') \<Rightarrow> stopped w k e d'"
    proof cases
      case 1
      then show ?thesis using size part by (simp add: metadata_len_def lstat_def tmp at_offset_def)
    next
      case 2
      then show ?thesis using size part by (auto simp: metadata_len_def lstat_def tmp at_offset_def has_part_def)
    qed
  qed
qed simp

lemma has_part_partial: "has_part w k n d \<Longrightarrow> partial_file w k d"
  by (auto simp: partial_file_def)

text \<open>A step that changes nothing at the key, as far as the key is concerned.\<close>

lemma triple_dirs:
  assumes "\<not> below k j" and "\<And>d d'. P d \<Longrightarrow> d' k = d k \<Longrightarrow> P d'" and "\<And>d. P d \<Longrightarrow> partial_file w k d"
  shows "triple P (call (create_dir_all j)) (\<lambda>_. P) (stopped w k)"
  unfolding triple_def
proof (intro allI impI)
  fix d assume P: "P d"
  obtain r d' where run: "create_dir_all j d = (r, d')" by fastforce
  have "P d'" using assms(2) [OF P] create_dir_elsewhere [OF assms(1), of d] run by simp
  then show "case call (create_dir_all j) d of (Inr x, d') \<Rightarrow> P d' | (Inl e, d') \<Rightarrow> stopped w k e d'"
    using run assms(3) by (auto simp: call_def stopped_def split: sum.splits)
qed

lemma part_open:
  assumes tmp: "locate tmp = k" "k \<noteq> []" and parent: "create_parent tmp = call (create_dir_all (butlast k))" "\<not> below k (butlast k)"
  shows "triple (at_offset w k n) (open_at_offset rc tmp n) (\<lambda>_. has_part w k n) (stopped w k)"
  unfolding open_at_offset_def parent(1)
proof (rule triple_seq [OF triple_dirs])
  let ?mid = "\<lambda>d. if n = 0 then d k = None else has_part w k n d"
  have mid_partial: "?mid d \<Longrightarrow> partial_file w k d" for d by (auto simp: partial_file_def split: if_splits)
  show "triple (at_offset w k n) (seq_io (bind_io (ask (present tmp)) (\<lambda>here.
         if n = 0 \<and> here then remove_any tmp else ret_io ()))
     (seq_io (call (open_rw (locate tmp)))
     (bind_io (look (read_file (locate tmp))) (\<lambda>w.
         if length w < n then fail_io (BeyondLength n (length w))
         else if length w > n then call (update_file (locate tmp) (set_len n))
         else ret_io ())))) (\<lambda>_. has_part w k n) (stopped w k)"
  proof (rule triple_seq [where R = ?mid], goal_cases)
    case 1
    show ?case
      by (auto simp: triple_def bind_ask remove_any_def ret_io_def present_iff tmp at_offset_def remove_tree_def)
  next
    case 2
    have opened: "triple ?mid (call (open_rw (locate tmp))) (\<lambda>_. has_part w k n) (stopped w k)"
    proof (cases "n = 0")
      case True
      then show ?thesis
        by (auto simp: triple_def call_def open_rw_def write_file_def tmp has_part_def stopped_def partial_file_def)
    next
      case False
      then show ?thesis by (auto simp: triple_def call_def open_rw_def tmp has_part_def)
    qed
    show ?case
    proof (rule triple_seq [OF opened])
      show "triple (has_part w k n) (bind_io (look (read_file (locate tmp))) (\<lambda>w.
         if length w < n then fail_io (BeyondLength n (length w))
         else if length w > n then call (update_file (locate tmp) (set_len n)) else ret_io ()))
       (\<lambda>_. has_part w k n) (stopped w k)"
        by (auto simp: triple_def bind_io_def look_def read_file_def lstat_def tmp has_part_def ret_io_def)
    qed
  qed
qed (use parent at_offset_partial in \<open>auto simp: at_offset_def partial_file_def has_part_def split: if_splits\<close>)

lemma part_write:
  assumes "locate tmp = k" and "prefix bytes (drop n w)"
  shows "triple (has_part w k n) (call (update_file (locate tmp) (write_at n bytes))) (\<lambda>_. has_part w k (n + length bytes)) (stopped w k)"
proof -
  obtain rest where w: "drop n w = bytes @ rest" using assms(2) by (auto simp: prefix_def)
  have len: "n + length bytes \<le> length w" if "n \<le> length w"
    using arg_cong [OF w, of length] that by simp
  have cat: "write_at n bytes (take n w) = take (n + length bytes) w" if "n \<le> length w"
    using w that by (simp add: write_at_def set_len_def take_add)
  show ?thesis using len cat
    by (auto simp: triple_def call_def update_file_def assms(1) has_part_def)
qed

lemma prefix_room: "prefix bytes (drop n w) \<Longrightarrow> n \<le> length w \<Longrightarrow> n + length bytes \<le> length w"
  using prefix_length_le [of bytes "drop n w"] by simp

lemma triple_check:
  assumes "\<And>d. P d \<Longrightarrow> \<not> b"
  shows "triple P (bail_io b e) (\<lambda>_. P) E"
  by (rule triple_bail) (use assms in auto)

lemma part_chunk:
  assumes ws: "plain_rel (rel_path e) ws" and k: "k = tmp_key rc (to_root c) (to_cycle c) ws"
    and size: "length w = as_len (size_of e)" "length w < 2 ^ 64" and bytes: "prefix bytes (drop n w)"
  shows "triple (at_offset w k n) (transfer_receive_file_chunk rc (chunk_query c e n) bytes)
     (\<lambda>_. has_part w k (n + length bytes)) (stopped w k)"
proof -
  note tmp = tmp_of_key [OF ws, of rc "to_root c" "to_cycle c", folded k]
  have q: "chunk_root (chunk_query c e n) = to_root c" "chunk_rel (chunk_query c e n) = rel_path e"
    "chunk_cycle (chunk_query c e n) = to_cycle c" "chunk_size (chunk_query c e n) = size_of e"
    "chunk_offset (chunk_query c e n) = n" by (simp_all add: chunk_query_def)
  have room: "n + length bytes \<le> length w" if "at_offset w k n d" for d
    using prefix_room [OF bytes at_offset_bound [OF that]] .
  have open_part: "triple (at_offset w k n) (open_at_offset rc (tmp_of rc (to_root c) (to_cycle c) (rel_path e)) n) (\<lambda>_. has_part w k n) (stopped w k)"
    using tmp_elsewhere(3) by (intro part_open tmp) (simp_all add: k)
  show ?thesis unfolding transfer_receive_file_chunk_def Let_def q
  proof (intro triple_seq [OF triple_reject] triple_seq [OF triple_check] triple_seq [OF open_part] part_write tmp bytes)
    fix d assume at: "at_offset w k n d"
    from room [OF at] size show "\<not> 2 ^ 64 \<le> n + length bytes" "\<not> as_len (size_of e) < n + length bytes" by simp_all
  qed (rule at_offset_partial)
qed

lemma part_stream:
  assumes tmp: "locate tmp = k" and size: "length w = as_len (chunk_size q)" "length w < 2 ^ 64"
    and "prefix (concat chunks) (drop n w)" and "tail = [] \<or> tail = [Fail]"
  shows "triple (has_part w k n) (write_stream q tmp n (map Chunk chunks @ tail))
     (\<lambda>_. has_part w k (n + length (concat chunks))) (stopped w k)"
  using assms(4)
proof (induction chunks arbitrary: n)
  case Nil
  then show ?case using assms(5) by (auto simp: stopped_def has_part_partial intro!: triple_ret triple_fail)
next
  case (Cons bytes chunks)
  have b: "prefix bytes (drop n w)" and r: "prefix (concat chunks) (drop (n + length bytes) w)"
    using Cons.prems by (auto simp: prefix_def) (metis append_eq_conv_conj drop_drop add.commute)
  have room: "n + length bytes \<le> length w" if "has_part w k n d" for d
    using prefix_room [OF b] that by (simp add: has_part_def)
  show ?case unfolding list.map append_Cons write_stream.simps
  proof (intro triple_seq [OF triple_check] triple_seq [OF part_write [OF tmp b]])
    fix d assume "has_part w k n d"
    from room [OF this] size show "\<not> 2 ^ 64 \<le> n + length bytes" "\<not> as_len (chunk_size q) < n + length bytes" by simp_all
  next
    show "triple (has_part w k (n + length bytes)) (write_stream q tmp (n + length bytes) (map Chunk chunks @ tail))
        (\<lambda>_. has_part w k (n + length (concat (bytes # chunks)))) (stopped w k)"
      using Cons.IH [OF r] by (simp add: add.assoc)
  qed
qed

lemma part_put_stream:
  assumes ws: "plain_rel (rel_path e) ws" and k: "k = tmp_key rc (to_root c) (to_cycle c) ws"
    and size: "length w = as_len (size_of e)" "length w < 2 ^ 64"
    and bytes: "prefix (concat chunks) (drop n w)" "tail = [] \<or> tail = [Fail]"
  shows "triple (at_offset w k n) (api_transfer_put_file_stream rc (chunk_query c e n) (map Chunk chunks @ tail))
     (\<lambda>_. has_part w k (n + length (concat chunks))) (stopped w k)"
proof -
  note tmp = tmp_of_key [OF ws, of rc "to_root c" "to_cycle c", folded k]
  have q: "chunk_root (chunk_query c e n) = to_root c" "chunk_rel (chunk_query c e n) = rel_path e"
    "chunk_cycle (chunk_query c e n) = to_cycle c" "chunk_size (chunk_query c e n) = size_of e"
    "chunk_offset (chunk_query c e n) = n" by (simp_all add: chunk_query_def)
  let ?tmp = "tmp_of rc (to_root c) (to_cycle c) (rel_path e)"
  have open_part: "triple (at_offset w k n) (open_at_offset rc ?tmp n) (\<lambda>_. has_part w k n) (stopped w k)"
    using tmp_elsewhere(3) by (intro part_open tmp) (simp_all add: k)
  have "triple (at_offset w k n) (transfer_open_file_stream_target rc (chunk_query c e n))
      (\<lambda>p d. p = ?tmp \<and> has_part w k n d) (stopped w k)"
    unfolding transfer_open_file_stream_target_def Let_def q
  proof (intro triple_seq [OF triple_reject] triple_seq [OF triple_check] triple_seq [OF open_part] triple_ret)
    fix d assume "at_offset w k n d"
    from at_offset_bound [OF this] size show "\<not> as_len (size_of e) < n" by simp
  qed (simp_all add: at_offset_partial)
  moreover have "triple (\<lambda>d. p = ?tmp \<and> has_part w k n d) (write_stream (chunk_query c e n) p n (map Chunk chunks @ tail))
      (\<lambda>_. has_part w k (n + length (concat chunks))) (stopped w k)" for p
    using part_stream [OF tmp(1), of w "chunk_query c e n", unfolded q, OF size bytes] by (auto simp: triple_def)
  ultimately show ?thesis unfolding api_transfer_put_file_stream_def q by (rule triple_bind)
qed

lemma kept_trash:
  assumes "plain_rel rel ws" and "root \<noteq> ''''" and "k = tmp_key rc root cycle ws"
  shows "obeys (content_kept k) (move_to_trash root rel cycle)"
proof -
  note key = trash_path_key [OF assms(1,2) refl, of cycle]
  show ?thesis unfolding move_to_trash_def Let_def key
    by (intro keeping.obeys_intros kept_calls) (simp_all add: assms(3) tmp_elsewhere tmp_trash_apart)
qed

lemma kept_replace:
  assumes "plain_rel rel ws" and "root \<noteq> ''''" and k: "k = tmp_key rc root cycle ws" and "locate tmp = k"
  shows "obeys (content_kept k) (replace_path root cycle rel tmp p)"
proof -
  have "content_kept k d (snd (rename k b d))" for b d
  proof -
    obtain r d' where run: "rename k b d = (r, d')" by fastforce
    then show ?thesis by (cases rule: rename_cases) (simp_all add: content_keptI moved_def run)
  qed
  then have "obeys (content_kept k) (call (rename (locate tmp) b))" for b
    unfolding assms(4) by (intro keeping.obeys_call)
  moreover have "obeys (content_kept k) (\<lambda>d. case (lstat (locate tmp) d, lstat (locate p) d) of
         (Some t, Some f) \<Rightarrow> if same_kind t f then (Inr (), d) else move_to_trash root rel cycle d
       | _ \<Rightarrow> (Inl (Io NotFound), d))"
    using kept_trash [OF assms(1-3)] by (auto simp: obeys_def content_keptI split: option.splits)
  ultimately show ?thesis unfolding replace_path_def by (intro keeping.obeys_intros)
qed

lemma part_settle:
  assumes ws: "plain_rel (rel_path e) ws" and k: "k = tmp_key rc root cycle ws" and "root \<noteq> ''''"
    and h: "hash e = Some (hash_bytes rc w)" and joined: "safe_join_rel root (rel_path e) = Inr p"
    and tmp: "locate tmp = k"
  shows "triple (has_part w k (length w)) (finish_received_file rc root cycle e tmp p) (\<lambda>_ _. True) (stopped w k)"
proof -
  have k0: "k \<noteq> []" by (simp add: k)
  obtain vs where vs: "plain_rel (rel_path e) vs" "create_parent p = call (create_dir_all (locate root @ butlast vs))"
    using finish_ok_inputs [OF joined assms(3)] by metis
  have "vs = ws" using plain_unique [OF vs(1) ws] .
  with vs have p: "create_parent p = call (create_dir_all (locate root @ butlast ws))" by simp
  let ?rest = "seq_io (ok_io (set_mode tmp (mode_bits e))) (seq_io (ok_io (set_file_mtime tmp (file_time (mtime_ns e))))
     (seq_io (create_parent p) (replace_path root cycle (rel_path e) tmp p)))"
  have kept: "obeys (content_kept k) ?rest" unfolding p
    by (intro keeping.obeys_intros kept_calls kept_replace [OF ws assms(3) k tmp]) (simp_all add: k tmp_elsewhere)
  have io: "io_only ?rest" by (intro io_only_seq io_only_basic io_only_steps io_only_replace)
  have rest: "triple (has_part w k (length w)) ?rest (\<lambda>_ _. True) (stopped w k)"
    by (rule triple_weaken [OF triple_kept [where P = "has_part w k (length w)", OF kept io]]) (auto simp: has_part_partial)
  have "triple (has_part w k (length w)) (bind_io (hash_file rc tmp) (\<lambda>actual.
         if actual \<noteq> hash_bytes rc w then seq_io (ok_io (remove_any tmp)) (fail_io (HashMismatch (rel_path e)))
         else ret_io ())) (\<lambda>_. has_part w k (length w)) (stopped w k)"
    using k0 by (auto simp: triple_def hash_file_def bind_io_def look_def read_file_def lstat_def tmp has_part_def ret_io_def)
  from triple_seq [OF this rest] show ?thesis unfolding finish_received_file_def h option.case .
qed

lemma part_finish:
  assumes ws: "plain_rel (rel_path e) ws" and k: "k = tmp_key rc root cycle ws" and "root \<noteq> ''''"
    and "length w = as_len (size_of e)" and "file_type e = ''file''"
    and h: "hash_bytes rc w = (case hash e of None \<Rightarrow> full_hash | Some h \<Rightarrow> h)"
  shows "triple (at_offset w k (length w)) (transfer_finish_file rc root cycle e (Some full_hash))
     (\<lambda>_ _. True) (stopped w k)"
proof -
  let ?tmp = "tmp_of rc root cycle (rel_path e)"
  define e' where "e' = (if hash e = None then e\<lparr>hash := Some full_hash\<rparr> else e)"
  note tmp = tmp_of_key(1) [OF ws, of rc root cycle, folded k]
  have k0: "k \<noteq> []" by (simp add: k)
  have rel: "rel_path e' = rel_path e" "hash e' = Some (hash_bytes rc w)" using h by (auto simp: e'_def split: option.splits)
  have finish: "triple (has_part w k (length w)) (finish_received_file rc root cycle e' ?tmp p) (\<lambda>_ _. True) (stopped w k)"
    if "safe_join_rel root (rel_path e) = Inr p" for p
    using part_settle [of e' ws k rc root cycle w p ?tmp] ws k assms(3) rel that tmp by simp
  have measured: "triple (at_offset w k (length w)) (look (metadata_len rc ?tmp))
      (\<lambda>len d. len = as_len (size_of e) \<and> has_part w k (length w) d) (stopped w k)"
  proof -
    have "case look (metadata_len rc ?tmp) d of (Inr len, d') \<Rightarrow> len = as_len (size_of e) \<and> has_part w k (length w) d'
        | (Inl x, d') \<Rightarrow> stopped w k x d'" if at: "at_offset w k (length w) d" for d
    proof (cases "d k")
      case None
      then show ?thesis using k0 at_offset_partial [OF at]
        by (simp add: look_def metadata_len_def lstat_def tmp stopped_def)
    next
      case (Some n)
      have "has_part w k (length w) d"
        using at Some by (cases "w = []") (auto simp: at_offset_def partial_file_def has_part_def)
      then show ?thesis using k0 assms(4) by (auto simp: look_def metadata_len_def lstat_def tmp has_part_def)
    qed
    then show ?thesis unfolding triple_def by blast
  qed
  have body: "triple (\<lambda>d. len = as_len (size_of e) \<and> has_part w k (length w) d)
     (seq_io (bail_io (len \<noteq> as_len (size_of e)) (WrongSize len (as_len (size_of e)))) (finish_received_file rc root cycle e' ?tmp p))
     (\<lambda>_ _. True) (stopped w k)" if "safe_join_rel root (rel_path e) = Inr p" for p len
    by (intro triple_seq [OF triple_check]) (use finish [OF that] in \<open>auto simp: triple_def\<close>)
  have "triple (at_offset w k (length w)) (bind_io (safe_join root (rel_path e)) (\<lambda>final_path.
       bind_io (look (metadata_len rc ?tmp)) (\<lambda>len.
         seq_io (bail_io (len \<noteq> as_len (size_of e)) (WrongSize len (as_len (size_of e))))
           (finish_received_file rc root cycle e' ?tmp final_path)))) (\<lambda>_ _. True) (stopped w k)"
  proof (cases "safe_join_rel root (rel_path e)")
    case (Inl i)
    then show ?thesis
      by (auto simp: triple_def safe_join_def lift_err_def bind_io_def fail_io_def stopped_def at_offset_partial)
  next
    case (Inr p)
    show ?thesis using triple_bind [OF measured body [OF Inr]] by (simp add: triple_def bind_safe_join [OF Inr])
  qed
  then show ?thesis unfolding transfer_finish_file_def Let_def e'_def [symmetric]
    by (intro triple_seq [OF triple_reject] triple_seq [OF triple_check]) (auto simp: assms(5) at_offset_partial)
qed

section \<open>The sender\<close>

text \<open>What a reader hands out before it fails or ends.\<close>

fun readable :: "read_event list \<Rightarrow> u8 list" where
  "readable [] = []"
| "readable (Fail # r) = []"
| "readable (Chunk bs # r) = (if bs = [] then [] else bs @ readable r)"

lemma read_call_readable: "read_call es n = Inr (bs, es') \<Longrightarrow> bs \<noteq> [] \<Longrightarrow> readable es = bs @ readable es'"
  by (cases "(es, n)" rule: read_call.cases) (auto split: if_splits)

lemma prefix_step:
  assumes "prefix (bs @ r) (drop pos w)"
  shows "drop pos w = bs @ drop (pos + length bs) w" and "prefix r (drop (pos + length bs) w)"
proof -
  from assms obtain z where z: "drop pos w = bs @ r @ z" by (auto simp: prefix_def)
  have "drop (pos + length bs) w = drop (length bs) (drop pos w)" by (simp add: add.commute)
  then have "drop (pos + length bs) w = r @ z" using z by simp
  with z show "drop pos w = bs @ drop (pos + length bs) w" "prefix r (drop (pos + length bs) w)" by simp_all
qed

lemma stream_body_part:
  assumes "stream_body c e offset pos es = (written, hashed, r)" and "prefix (readable es) (drop pos w)"
    and "length w = as_len (size_of e)"
  shows "prefix hashed (drop pos w)" and "concat written = drop (offset - pos) hashed"
    and "r = None \<Longrightarrow> hashed = drop pos w" and "r = Some x \<Longrightarrow> x = Cancelled \<or> x = failed_read \<or> x = changed e"
proof -
  have "prefix hashed (drop pos w) \<and> concat written = drop (offset - pos) hashed \<and>
    (r = None \<longrightarrow> hashed = drop pos w) \<and> (r = Some x \<longrightarrow> x = Cancelled \<or> x = failed_read \<or> x = changed e)"
    using assms
  proof (induction c e offset pos es arbitrary: written hashed rule: stream_body.induct)
    case (1 c e offset pos es)
    note step = stream_body.simps [of c e offset pos es]
    show ?case
    proof (cases "as_len (size_of e) \<le> pos")
      case False
      show ?thesis
      proof (cases "\<exists>bytes es'. \<not> stop_at c pos \<and> bytes \<noteq> [] \<and>
          read_call es (min (as_len (size_of e) - pos) TRANSFER_CHUNK_SIZE) = Inr (bytes, es')")
        case True
        then obtain bytes es' written' hashed' where r: "\<not> stop_at c pos"
          "read_call es (min (as_len (size_of e) - pos) TRANSFER_CHUNK_SIZE) = Inr (bytes, es')" "bytes \<noteq> []"
          "stream_body c e offset (pos + length bytes) es' = (written', hashed', r)"
          and out: "hashed = bytes @ hashed'"
            "written = (if pos + length bytes > offset then drop (offset - pos) bytes # written' else written')"
          using False 1(2) by (auto simp: step split: if_splits prod.splits)
        note w = prefix_step [OF 1(3) [unfolded read_call_readable [OF r(2,3)]]]
        have "prefix hashed (drop pos w)" if "prefix hashed' (drop (pos + length bytes) w)"
          using that unfolding w(1) out(1) by simp
        with 1(1) [OF False r(1,2) refl r(3,4) w(2) 1(4)] out w(1) show ?thesis by auto
      qed (use False 1(2) in \<open>auto simp: step split: if_splits sum.splits prod.splits\<close>)
    qed (use 1(2,4) in \<open>auto simp: step\<close>)
  qed
  then show "prefix hashed (drop pos w)" "concat written = drop (offset - pos) hashed"
    "r = None \<Longrightarrow> hashed = drop pos w" "r = Some x \<Longrightarrow> x = Cancelled \<or> x = failed_read \<or> x = changed e" by blast+
qed

definition send_stopped :: "u8 list \<Rightarrow> key \<Rightarrow> send_error \<Rightarrow> fs \<Rightarrow> bool" where
  "send_stopped w k e d \<longleftrightarrow> partial_file w k d \<and> (\<forall>x. e = PeerError x \<longrightarrow> \<not> blames_content x)"

lemma triple_ask:
  assumes "triple P (serve (header_parser pr) (receiving pr) req) Q (stopped w k)" and "\<And>d. P d \<Longrightarrow> partial_file w k d"
  shows "triple P (ask_peer pr req) (\<lambda>r d. \<exists>a. r = reply_of a \<and> Q a d)
     (\<lambda>e d. send_stopped w k e d \<and> (e = MissingEndpoint \<longrightarrow> P d))"
  unfolding triple_def
proof (intro allI impI)
  fix d assume P: "P d"
  obtain r d' where run: "serve (header_parser pr) (receiving pr) req d = (r, d')" by fastforce
  have "case r of Inr a \<Rightarrow> Q a d' | Inl e \<Rightarrow> stopped w k e d'"
    using assms(1) P run by (auto simp: triple_def split: sum.splits dest: spec [of _ d])
  then show "case ask_peer pr req d of (Inr r, d) \<Rightarrow> \<exists>a. r = reply_of a \<and> Q a d
      | (Inl e, d') \<Rightarrow> send_stopped w k e d' \<and> (e = MissingEndpoint \<longrightarrow> P d')"
    using P assms(2) [OF P] run
    by (auto simp: ask_peer_def fail_io_def send_stopped_def stopped_def split: sum.splits)
qed

lemma triple_ack_io: "triple P m (\<lambda>_. R) E \<Longrightarrow> triple P (ack_io m) (\<lambda>a d. a = Ack \<and> R d) E"
  unfolding triple_def ack_io_def answer_io_def bind_io_def ret_io_def by (fastforce split: prod.splits sum.splits)

lemma triple_post:
  assumes "sends_to pr c" and "triple P (serve (header_parser pr) (receiving pr) req) (\<lambda>a d. a = Ack \<and> R d) (stopped w k)"
    and "\<And>d. P d \<Longrightarrow> partial_file w k d"
  shows "triple P (post_ack c req) (\<lambda>_. R) (send_stopped w k)"
proof -
  have "to_peer c = ask_peer pr" using assms(1) by (simp add: sends_to_def)
  then show ?thesis using triple_ask [OF assms(2,3)] unfolding post_ack_def
    by (fastforce simp: triple_def bind_io_def ack_of_def bail_io_def ret_io_def split: prod.splits sum.splits)
qed

lemma triple_or_missing:
  assumes "triple P m Q (\<lambda>e d. E e d \<and> (e = MissingEndpoint \<longrightarrow> P d))" and "triple P k Q E"
  shows "triple P (or_missing m k) Q E"
  unfolding triple_def
proof (intro allI impI)
  fix d assume P: "P d"
  obtain r d' where run: "m d = (r, d')" by fastforce
  have m: "case r of Inr x \<Rightarrow> Q x d' | Inl e \<Rightarrow> E e d' \<and> (e = MissingEndpoint \<longrightarrow> P d')"
    using assms(1) P run by (auto simp: triple_def split: sum.splits dest: spec [of _ d])
  show "case or_missing m k d of (Inr x, d') \<Rightarrow> Q x d' | (Inl e, d') \<Rightarrow> E e d'"
  proof (cases "r = Inl MissingEndpoint")
    case True
    then show ?thesis using m assms(2) run by (simp add: or_missing_def triple_def)
  next
    case False
    then have "or_missing m k d = (r, d')" by (auto simp: or_missing_def run split: sum.splits send_error.splits)
    then show ?thesis using m by (auto split: sum.splits)
  qed
qed

lemma part_send_chunks:
  assumes c: "sends_to pr c" and ws: "plain_rel (rel_path e) ws" and k: "k = tmp_key (receiving pr) (to_root c) (to_cycle c) ws"
    and size: "length w = as_len (size_of e)" "length w < 2 ^ 64" and "prefix (readable es) (drop pos w)"
    and "offset \<le> length w" and "pos \<le> length w"
  shows "triple (at_offset w k (max pos offset)) (send_chunks c e offset pos es)
     (\<lambda>hashed d. hashed = drop pos w \<and> at_offset w k (length w) d) (send_stopped w k)"
  using assms
proof (induction c e offset pos es rule: send_chunks.induct)
  case (1 c e offset pos es)
  note step = send_chunks.simps [of c e offset pos es] and size = 1(5,6)
  have stop: "triple (at_offset w k (max pos offset)) (fail_io x) Q (send_stopped w k)" if "\<And>y. x \<noteq> PeerError y" for x Q
    by (rule triple_fail) (use that in \<open>simp add: send_stopped_def at_offset_partial\<close>)
  show ?case
  proof (cases "as_len (size_of e) \<le> pos")
    case True
    then have "pos = length w" "max pos offset = length w" using 1(8,9) size by simp_all
    then show ?thesis unfolding step using True by (simp add: triple_ret)
  next
    case False
    show ?thesis
    proof (cases "\<exists>bytes es'. \<not> stop_at c pos \<and> bytes \<noteq> [] \<and>
        read_call es (min (as_len (size_of e) - pos) TRANSFER_CHUNK_SIZE) = Inr (bytes, es')")
      case True
      then obtain bytes es' where r: "\<not> stop_at c pos"
        "read_call es (min (as_len (size_of e) - pos) TRANSFER_CHUNK_SIZE) = Inr (bytes, es')" "bytes \<noteq> []" by blast
      note w = prefix_step [OF 1(7) [unfolded read_call_readable [OF r(2,3)]]]
      have room: "pos + length bytes \<le> length w" using read_call_length [OF r(2)] \<open>\<not> as_len (size_of e) \<le> pos\<close> size by linarith
      have IH: "triple (at_offset w k (max (pos + length bytes) offset)) (send_chunks c e offset (pos + length bytes) es')
         (\<lambda>hashed d. hashed = drop (pos + length bytes) w \<and> at_offset w k (length w) d) (send_stopped w k)"
        using 1(1) [OF False r(1,2) refl r(3) 1(2-6) w(2) 1(8) room] .
      have chunk: "triple (at_offset w k (max pos offset))
         (if pos + length bytes > offset
          then post_ack c (ReceiveFileChunk (chunk_query c e (pos + (offset - pos))) (drop (offset - pos) bytes))
          else ret_io ()) (\<lambda>_. at_offset w k (max (pos + length bytes) offset)) (send_stopped w k)"
      proof (cases "pos + length bytes > offset")
        case True
        have at: "pos + (offset - pos) = max pos offset" by simp
        have "drop (max pos offset) w = drop (offset - pos) (drop pos w)" by (simp add: max_def)
        then have "prefix (drop (offset - pos) bytes) (drop (max pos offset) w)" using w(1) True by simp
        from part_chunk [OF 1(3,4) size this]
        have "triple (at_offset w k (max pos offset)) (serve (header_parser pr) (receiving pr)
             (ReceiveFileChunk (chunk_query c e (max pos offset)) (drop (offset - pos) bytes)))
           (\<lambda>a d. a = Ack \<and> has_part w k (max pos offset + length (drop (offset - pos) bytes)) d) (stopped w k)"
          using triple_ack_io by simp
        note posted = triple_post [OF 1(2) this at_offset_partial [of w k "max pos offset"]]
        have len: "max pos offset + length (drop (offset - pos) bytes) = max (pos + length bytes) offset" using True by auto
        have "triple (at_offset w k (max pos offset)) (post_ack c (ReceiveFileChunk (chunk_query c e (max pos offset)) (drop (offset - pos) bytes)))
           (\<lambda>_. at_offset w k (max (pos + length bytes) offset)) (send_stopped w k)"
          by (rule triple_weaken [OF posted]) (simp_all only: len has_part_offset)
        then show ?thesis unfolding at if_P [OF True] .
      next
        case False
        then show ?thesis by (simp add: triple_ret max_def)
      qed
      have "triple (\<lambda>d. hashed = drop (pos + length bytes) w \<and> at_offset w k (length w) d) (ret_io (bytes @ hashed))
         (\<lambda>hashed d. hashed = drop pos w \<and> at_offset w k (length w) d) (send_stopped w k)" for hashed
        using w(1) by (simp add: triple_ret)
      from triple_seq [OF chunk triple_bind [OF IH this]] show ?thesis using False r by (simp add: step)
    next
      case False
      have "\<exists>x. send_chunks c e offset pos es = fail_io x \<and> (\<forall>y. x \<noteq> PeerError y)"
      proof (cases "read_call es (min (as_len (size_of e) - pos) TRANSFER_CHUNK_SIZE)")
        case (Inl u)
        then show ?thesis using \<open>\<not> as_len (size_of e) \<le> pos\<close> by (cases "stop_at c pos") (auto simp: step failed_read_def)
      next
        case (Inr bs)
        then show ?thesis using \<open>\<not> as_len (size_of e) \<le> pos\<close> False
          by (cases "stop_at c pos"; cases bs) (auto simp: step changed_def)
      qed
      then obtain x where x: "send_chunks c e offset pos es = fail_io x" "\<forall>y. x \<noteq> PeerError y" by blast
      show ?thesis unfolding x(1) by (rule stop) (use x(2) in blast)
    qed
  qed
qed

lemma part_streamed:
  assumes c: "sends_to pr c" and ws: "plain_rel (rel_path e) ws" and k: "k = tmp_key (receiving pr) (to_root c) (to_cycle c) ws"
    and size: "length w = as_len (size_of e)" "length w < 2 ^ 64"
    and reads: "\<forall>es. streamed_reads src = Some es \<longrightarrow> prefix (readable es) w"
  shows "triple (at_offset w k n) (send_file_body_streamed c e src n)
     (\<lambda>h d. h = sender_hash c w \<and> at_offset w k (length w) d)
     (\<lambda>x d. send_stopped w k x d \<and> (x = MissingEndpoint \<longrightarrow> at_offset w k n d))"
proof (cases "streamed_reads src")
  case None
  then show ?thesis
    by (auto simp: send_file_body_streamed_def failed_read_def send_stopped_def at_offset_partial intro!: triple_fail)
next
  case (Some es)
  obtain written hashed failure where body: "stream_body c e n 0 es = (written, hashed, failure)" by (metis prod_cases3)
  have "prefix (readable es) (drop 0 w)" using reads Some by simp
  note part = stream_body_part [OF body this size(1)]
  have bytes: "prefix (concat written) (drop n w)" using part(1,2) by (auto simp: prefix_def)
  have to: "to_peer c = ask_peer pr" using c by (simp add: sends_to_def)
  have serve: "triple (at_offset w k n) (ask_peer pr (PutFileStream (chunk_query c e n) (map Chunk written @ tail)))
      (\<lambda>r d. \<exists>a. r = reply_of a \<and> a = Ack \<and> has_part w k (n + length (concat written)) d)
      (\<lambda>x d. send_stopped w k x d \<and> (x = MissingEndpoint \<longrightarrow> at_offset w k n d))" if "tail = [] \<or> tail = [Fail]" for tail
  proof -
    have "triple (at_offset w k n) (serve (header_parser pr) (receiving pr) (PutFileStream (chunk_query c e n) (map Chunk written @ tail)))
        (\<lambda>a d. a = Ack \<and> has_part w k (n + length (concat written)) d) (stopped w k)"
      using triple_ack_io [OF part_put_stream [OF ws k size bytes that]] by simp
    from triple_ask [OF this at_offset_partial [of w k n]] show ?thesis .
  qed
  have post: "triple (at_offset w k n) (remote_post_octet_stream (to_peer c) (chunk_query c e n) written failure)
      (\<lambda>r d. r = AckReply True \<and> hashed = w \<and> at_offset w k (length w) d)
      (\<lambda>x d. send_stopped w k x d \<and> (x = MissingEndpoint \<longrightarrow> at_offset w k n d))"
  proof (cases failure)
    case None
    have w: "hashed = w" using part(3) [OF None] by simp
    have "at_offset w k (length w) d" if "has_part w k (n + length (concat written)) d" for d
    proof -
      have "n + length (concat written) = length w" using that part(2) w by (auto simp: has_part_def)
      with that show ?thesis by (metis has_part_offset)
    qed
    then show ?thesis using serve [of "[]"] w unfolding remote_post_octet_stream_def None to
      by (auto intro: triple_weaken)
  next
    case (Some x)
    have "x = Cancelled \<or> x = failed_read \<or> x = changed e" using part(4) [OF Some] .
    then have x: "x \<noteq> MissingEndpoint" "\<And>y. x \<noteq> PeerError y" by (auto simp: failed_read_def changed_def)
    show ?thesis unfolding triple_def
    proof (intro allI impI)
      fix d assume at: "at_offset w k n d"
      obtain r d' where run: "ask_peer pr (PutFileStream (chunk_query c e n) (map Chunk written @ [Fail])) d = (r, d')" by fastforce
      have "partial_file w k d'"
      proof (cases r)
        case (Inl y)
        from triple_run(2) [OF serve [of "[Fail]"] at run [unfolded Inl]] show ?thesis by (simp add: send_stopped_def)
      next
        case (Inr y)
        from triple_run(1) [OF serve [of "[Fail]"] at run [unfolded Inr]] show ?thesis by (auto intro: has_part_partial)
      qed
      then have "send_stopped w k x d'" "r = Inl UnreachablePeer \<Longrightarrow> send_stopped w k UnreachablePeer d'"
        using x(2) by (auto simp: send_stopped_def)
      then show "case remote_post_octet_stream (to_peer c) (chunk_query c e n) written failure d of
          (Inr r, d) \<Rightarrow> r = AckReply True \<and> hashed = w \<and> at_offset w k (length w) d
        | (Inl x, d) \<Rightarrow> send_stopped w k x d \<and> (x = MissingEndpoint \<longrightarrow> at_offset w k n d)"
        using run x(1) by (auto simp: remote_post_octet_stream_def to Some split: sum.splits send_error.splits)
    qed
  qed
  show ?thesis unfolding send_file_body_streamed_def Some option.case body prod.case
  proof (rule triple_bind [OF post])
    fix r
    show "triple (\<lambda>d. r = AckReply True \<and> hashed = w \<and> at_offset w k (length w) d)
        (seq_io (ack_of r) (ret_io (sender_hash c hashed)))
        (\<lambda>h d. h = sender_hash c w \<and> at_offset w k (length w) d)
        (\<lambda>x d. send_stopped w k x d \<and> (x = MissingEndpoint \<longrightarrow> at_offset w k n d))"
      by (auto simp: triple_def seq_io_def bind_io_def ack_of_def bail_io_def ret_io_def fail_io_def)
  qed
qed

text \<open>A source that does not change while it is read: its reads hand out beginnings of the content.\<close>

definition steady :: "source_file \<Rightarrow> u8 list \<Rightarrow> bool" where
  "steady src w \<longleftrightarrow> (\<forall>es. streamed_reads src = Some es \<or> chunked_reads src = Some es \<longrightarrow> prefix (readable es) w)"

definition content_of :: "receiver \<Rightarrow> SnapshotEntry \<Rightarrow> u8 list \<Rightarrow> bool" where
  "content_of rc e w \<longleftrightarrow> file_type e = ''file'' \<and> length w = as_len (size_of e) \<and> length w < 2 ^ 64 \<and>
     (hash e = None \<longrightarrow> TRANSFER_CHUNK_SIZE < length w) \<and> (\<forall>h. hash e = Some h \<longrightarrow> hash_bytes rc w = h)"

lemma part_body:
  assumes c: "sends_to pr c" and ws: "plain_rel (rel_path e) ws" and k: "k = tmp_key (receiving pr) (to_root c) (to_cycle c) ws"
    and w: "content_of (receiving pr) e w" and "steady src w"
  shows "triple (at_offset w k n) (or_missing (send_file_body_streamed c e src n) (send_file_body_chunked c e src n))
     (\<lambda>h d. h = sender_hash c w \<and> at_offset w k (length w) d) (send_stopped w k)"
proof (rule triple_or_missing [OF part_streamed [OF c ws k]])
  show "triple (at_offset w k n) (send_file_body_chunked c e src n)
     (\<lambda>h d. h = sender_hash c w \<and> at_offset w k (length w) d) (send_stopped w k)"
  proof (cases "chunked_reads src")
    case None
    then show ?thesis
      by (auto simp: send_file_body_chunked_def failed_read_def send_stopped_def at_offset_partial intro!: triple_fail)
  next
    case (Some es)
    have chunks: "triple (at_offset w k n) (send_chunks c e n 0 es)
       (\<lambda>hashed d. hashed = w \<and> at_offset w k (length w) d) (send_stopped w k)" if "n \<le> length w"
      using part_send_chunks [OF c ws k, of w es 0 n] w assms(5) Some that by (auto simp: content_of_def steady_def)
    have "triple (at_offset w k n) (send_chunks c e n 0 es)
       (\<lambda>hashed d. hashed = w \<and> at_offset w k (length w) d) (send_stopped w k)"
    proof (cases "n \<le> length w")
      case False
      then show ?thesis using at_offset_bound [of w k n] by (auto simp: triple_def)
    qed (rule chunks)
    then show ?thesis unfolding send_file_body_chunked_def Some option.case
      by (rule triple_bind) (auto intro!: triple_ret)
  qed
qed (use w assms(5) in \<open>auto simp: content_of_def steady_def\<close>)

text \<open>One attempt.\<close>

lemma part_attempt:
  assumes c: "sends_to pr c" and ws: "plain_rel (rel_path e) ws" and k: "k = tmp_key (receiving pr) (to_root c) (to_cycle c) ws"
    and "to_root c \<noteq> ''''" and w: "content_of (receiving pr) e w" and "steady src w"
  shows "triple (partial_file w k) (send_file_tcp c e src) (\<lambda>_ _. True) (send_stopped w k)"
proof -
  let ?rc = "receiving pr"
  have to: "to_peer c = ask_peer pr" using c by (simp add: sends_to_def)
  have size: "length w = as_len (size_of e)" using w by (simp add: content_of_def)
  have big: "\<not> (as_len (size_of e) \<le> TRANSFER_CHUNK_SIZE \<and> hash e = None)" using w by (auto simp: content_of_def)
  have k0: "k \<noteq> []" by (simp add: k)
  have ask: "triple (partial_file w k) (ask_peer pr (FileOffset (to_root c) (rel_path e) (to_cycle c) (size_of e)))
      (\<lambda>r d. \<exists>a. r = reply_of a \<and> (\<exists>n. a = FileOffsetIs n \<and> at_offset w k n d))
      (\<lambda>e d. send_stopped w k e d \<and> (e = MissingEndpoint \<longrightarrow> partial_file w k d))"
  proof (rule triple_ask)
    have "triple (partial_file w k) (transfer_file_offset ?rc (to_root c) (rel_path e) (to_cycle c) (size_of e)) (at_offset w k) (stopped w k)"
      using tmp_of_key(1) [OF ws] by (intro part_offset size) (simp_all add: k)
    then show "triple (partial_file w k) (serve (header_parser pr) ?rc (FileOffset (to_root c) (rel_path e) (to_cycle c) (size_of e)))
        (\<lambda>a d. \<exists>n. a = FileOffsetIs n \<and> at_offset w k n d) (stopped w k)"
      unfolding serve.simps answer_io_def by (rule triple_bind) (auto intro!: triple_ret)
  qed
  have finish: "triple (at_offset w k (length w)) (seq_io (stable_source (sent_stat src) e)
        (post_ack c (FinishFile (to_root c) (to_cycle c) e (Some (sender_hash c w))))) (\<lambda>_ _. True) (send_stopped w k)"
  proof (rule triple_seq)
    show "triple (at_offset w k (length w)) (stable_source (sent_stat src) e) (\<lambda>_. at_offset w k (length w)) (send_stopped w k)"
      unfolding stable_source_def by (rule triple_lift) (auto simp: send_stopped_def at_offset_partial)
    have "triple (at_offset w k (length w)) (transfer_finish_file ?rc (to_root c) (to_cycle c) e (Some (sender_hash c w)))
       (\<lambda>_ _. True) (stopped w k)"
      using w by (intro part_finish [OF ws k assms(4) size])
        (auto simp: content_of_def sender_hash_peer [OF c] split: option.splits)
    then have "triple (at_offset w k (length w)) (serve (header_parser pr) ?rc (FinishFile (to_root c) (to_cycle c) e (Some (sender_hash c w))))
       (\<lambda>a d. a = Ack \<and> True) (stopped w k)" unfolding serve.simps by (rule triple_ack_io)
    from triple_post [OF c this at_offset_partial [of w k "length w"]]
    show "triple (at_offset w k (length w)) (post_ack c (FinishFile (to_root c) (to_cycle c) e (Some (sender_hash c w))))
       (\<lambda>_ _. True) (send_stopped w k)" .
  qed
  have rest: "triple (at_offset w k n) (bind_io (or_missing (send_file_body_streamed c e src (resume_offset e n))
                (send_file_body_chunked c e src (resume_offset e n)))
              (\<lambda>full_hash. seq_io (stable_source (sent_stat src) e)
                (post_ack c (FinishFile (to_root c) (to_cycle c) e (Some full_hash))))) (\<lambda>_ _. True) (send_stopped w k)" for n
  proof (cases "n \<le> length w")
    case True
    then have n: "resume_offset e n = n" using size by (simp add: resume_offset_def)
    have "triple (\<lambda>d. h = sender_hash c w \<and> at_offset w k (length w) d) (seq_io (stable_source (sent_stat src) e)
        (post_ack c (FinishFile (to_root c) (to_cycle c) e (Some h)))) (\<lambda>_ _. True) (send_stopped w k)" for h
      using finish by (auto simp: triple_def)
    from triple_bind [OF part_body [OF c ws k w assms(6)] this] show ?thesis unfolding n .
  next
    case False
    then show ?thesis using at_offset_bound [of w k n] by (auto simp: triple_def)
  qed
  show ?thesis unfolding send_file_tcp_def if_not_P [OF big] to
  proof (rule triple_bind)
    show "triple (partial_file w k) (ask_peer pr (FileOffset (to_root c) (rel_path e) (to_cycle c) (size_of e)))
      (\<lambda>r d. \<exists>n. r = OffsetReply n \<and> at_offset w k n d) (send_stopped w k)"
      by (rule triple_weaken [OF ask]) auto
    show "triple (\<lambda>d. \<exists>n. r = OffsetReply n \<and> at_offset w k n d) (case r of
          OffsetReply n \<Rightarrow> bind_io (or_missing (send_file_body_streamed c e src (resume_offset e n))
                (send_file_body_chunked c e src (resume_offset e n)))
              (\<lambda>full_hash. seq_io (stable_source (sent_stat src) e)
                (post_ack c (FinishFile (to_root c) (to_cycle c) e (Some full_hash))))
        | _ \<Rightarrow> fail_io BadReply) (\<lambda>_ _. True) (send_stopped w k)" for r
      using rest by (cases r) (auto simp: triple_def)
  qed
qed

lemma attempt_publishes:
  assumes c: "sends_to pr c" and ws: "plain_rel (rel_path e) ws" and k: "k = tmp_key (receiving pr) (to_root c) (to_cycle c) ws"
    and "to_root c \<noteq> ''''" and w: "content_of (receiving pr) e w" and "steady src w"
    and "fs_ok d" and "0 \<le> mtime_ns e" and "partial_file w k d"
    and run: "send_file_tcp c e src d = (Inr (), d')"
  shows "d' (locate (to_root c) @ ws) = Some (received w e)"
proof -
  have big: "\<not> (as_len (size_of e) \<le> TRANSFER_CHUNK_SIZE \<and> hash e = None)" using w by (auto simp: content_of_def)
  have size: "length w = as_len (size_of e)" using w by (simp add: content_of_def)
  from file_steps [OF c assms(7) ws big run] obtain n d1 h d2 where
    body: "or_missing (send_file_body_streamed c e src (resume_offset e n)) (send_file_body_chunked c e src (resume_offset e n)) d1 = (Inr h, d2)"
    and fin: "seq_io (stable_source (sent_stat src) e) (post_ack c (FinishFile (to_root c) (to_cycle c) e (Some h))) d2 = (Inr (), d')"
    and ok: "fs_ok d2" and ask: "ask_peer pr (FileOffset (to_root c) (rel_path e) (to_cycle c) (size_of e)) d = (Inr (OffsetReply n), d1)" .
  have "transfer_file_offset (receiving pr) (to_root c) (rel_path e) (to_cycle c) (size_of e) d = (Inr n, d1)"
    using ask by (auto simp: ask_peer_Inr answer_io_def run_simps)
  from triple_run(1) [OF part_offset [OF _ size] assms(9) this] tmp_of_key(1) [OF ws]
  have at: "at_offset w k n d1" by (simp add: k)
  then have "resume_offset e n = n" using at_offset_bound [OF at] size by (simp add: resume_offset_def)
  from triple_run(1) [OF part_body [OF c ws k w assms(6)] at body [unfolded this]]
  have full: "at_offset w k (length w) d2" by simp
  from fin have finished: "transfer_finish_file (receiving pr) (to_root c) (to_cycle c) e (Some h) d2 = (Inr (), d')"
    by (auto simp: seq_io_Inr stable_source_Inr post_ack_Inr [OF c] ack_io_Inr)
  obtain vs u where u: "plain_rel (rel_path e) vs" "d' (locate (to_root c) @ vs) = Some (received u e)"
    "\<exists>t m. d2 (tmp_key (receiving pr) (to_root c) (to_cycle c) vs) = Some (RegularFile u t m)"
    by (rule finish_file_publishes [OF finished assms(4) ok assms(8)])
  have "vs = ws" using plain_unique [OF u(1) ws] .
  with u(3) have at_k: "\<exists>t m. d2 k = Some (RegularFile u t m)" by (simp add: k)
  have "u = w" using at_k full by (auto simp: at_offset_def partial_file_def has_part_def split: if_splits)
  with u(2) \<open>vs = ws\<close> show ?thesis by simp
qed

lemma contained_file:
  assumes c: "sends_to pr c" and ws: "plain_rel (rel_path e) ws" and "to_root c \<noteq> ''''"
  shows "contained (to_root c) (send_file_tcp c e src)"
proof -
  have post: "contained (to_root c) (post_ack c req)" if "contained (to_root c) (serve (header_parser pr) (receiving pr) req)" for req
    by (rule contained_post [OF c that])
  have put: "contained (to_root c) (post_ack c (PutFile (put_query c e h) bytes))" for h bytes
    using contained_put [of "put_query c e h"] assms(3)
    by (intro post) (simp add: ack_io_def answer_io_def put_query_def within.obeys_intros)
  have finish: "contained (to_root c) (post_ack c (FinishFile (to_root c) (to_cycle c) e h))" for h
    using contained_finish_file [OF assms(3)] by (intro post) (simp add: ack_io_def answer_io_def within.obeys_intros)
  have ask: "contained (to_root c) (to_peer c (FileOffset (to_root c) (rel_path e) (to_cycle c) (size_of e)))"
    using c contained_ask contained_unchecked [OF _ ws, of "FileOffset (to_root c) (rel_path e) (to_cycle c) (size_of e)"]
    by (simp add: sends_to_def)
  have stable: "contained (to_root c) (stable_source live e)" for live
    by (simp add: stable_source_def within.obeys_basic)
  have "contained (to_root c) (send_put_file_tcp c e src)" unfolding send_put_file_tcp_def
    by (auto split: option.splits intro!: within.obeys_intros put stable)
  moreover have "contained (to_root c) (case r of OffsetReply n \<Rightarrow>
            bind_io (or_missing (send_file_body_streamed c e src (resume_offset e n)) (send_file_body_chunked c e src (resume_offset e n)))
              (\<lambda>full_hash. seq_io (stable_source (sent_stat src) e)
                (post_ack c (FinishFile (to_root c) (to_cycle c) e (Some full_hash))))
        | _ \<Rightarrow> fail_io BadReply)" for r
    by (cases r) (auto intro!: within.obeys_bind within.obeys_seq within.obeys_basic stable finish contained_or_missing contained_body [OF c ws])
  ultimately show ?thesis unfolding send_file_tcp_def
    by (auto intro!: within.obeys_bind ask)
qed

text \<open>C15: an interrupted push resumes exactly. The source has the content \<open>w\<close> and does not change; every
  attempt may be cut off anywhere, by a lost connection, a cancelled pass or the file system. If an attempt succeeds,
  the destination has exactly \<open>w\<close> with the entry's mode and time. If all fail, what they left is a
  beginning of \<open>w\<close>, from which the next pass continues, and none was refused for the content it sent.\<close>

theorem resumed_push_exact:
  assumes "\<forall>n. sends_to (pr n) (c n) \<and> receiving (pr n) = rc \<and> to_root (c n) = root \<and> to_cycle (c n) = cycle \<and> steady (src n) w"
    and "root \<noteq> ''''" and "plain_rel (rel_path e) ws" and "0 \<le> mtime_ns e" and "content_of rc e w"
    and "fs_ok d" and "partial_file w (tmp_key rc root cycle ws) d"
  shows "case with_transfer_retry (\<lambda>n. send_file_tcp (c n) e (src n)) d of
      (Inr _, d') \<Rightarrow> d' (locate root @ ws) = Some (received w e)
    | (Inl err, d') \<Rightarrow> fs_ok d' \<and> partial_file w (tmp_key rc root cycle ws) d'
        \<and> (\<forall>x. err = PeerError x \<longrightarrow> \<not> blames_content x)"
proof -
  let ?k = "tmp_key rc root cycle ws" and ?f = "\<lambda>n. send_file_tcp (c n) e (src n)"
  have one: "case ?f n d of (Inr _, d') \<Rightarrow> d' (locate root @ ws) = Some (received w e)
      | (Inl err, d') \<Rightarrow> fs_ok d' \<and> send_stopped w ?k err d'" if "fs_ok d" "partial_file w ?k d" for n d
  proof -
    have at: "sends_to (pr n) (c n)" "receiving (pr n) = rc" "to_root (c n) = root" "to_cycle (c n) = cycle" "steady (src n) w"
      using assms(1) by blast+
    note k = at(2-4) and ok = assms(2-5)
    have "triple (partial_file w ?k) (?f n) (\<lambda>_ _. True) (send_stopped w ?k)"
      by (rule part_attempt [OF at(1) ok(2) _ _ _ at(5)]) (simp_all add: k ok)
    moreover have "fs_ok (snd (?f n d))"
      using contained_file [OF at(1) ok(2)] that(1) by (auto simp: obeys_def confined_def k ok)
    moreover have "d' (locate root @ ws) = Some (received w e)" if "?f n d = (Inr (), d')" for d'
      using attempt_publishes [OF at(1) ok(2) _ _ _ at(5) \<open>fs_ok d\<close> ok(3) _ that] \<open>partial_file w ?k d\<close> by (simp add: k ok)
    ultimately show ?thesis using that by (auto simp: triple_def split: prod.splits sum.splits)
  qed
  have "case retry_from n ?f d of (Inr _, d') \<Rightarrow> d' (locate root @ ws) = Some (received w e)
      | (Inl err, d') \<Rightarrow> fs_ok d' \<and> send_stopped w ?k err d'" if "fs_ok d" "partial_file w ?k d" for n d
    using that
  proof (induction n ?f d rule: retry_from.induct)
    case (1 n d)
    obtain r d' where run: "?f n d = (r, d')" by fastforce
    show ?case
    proof (cases r)
      case (Inr u)
      then show ?thesis using one [OF 1(2,3), of n] run by (simp add: retry_from.simps [of n])
    next
      case (Inl x)
      then have stop: "fs_ok d'" "send_stopped w ?k x d'" using one [OF 1(2,3), of n] run by simp_all
      then have "partial_file w ?k d'" by (simp add: send_stopped_def)
      with stop 1(1) [OF run [symmetric] Inl] run Inl show ?thesis by (simp add: retry_from.simps [of n])
    qed
  qed
  from this [OF assms(6,7), of 1] show ?thesis
    by (auto simp: with_transfer_retry_def send_stopped_def split: prod.splits sum.splits)
qed

definition checked_entry :: SnapshotEntry where
  "checked_entry = demo_entry\<lparr>hash := Some (hash_bytes demo_receiver [65, 66])\<rparr>"

text \<open>A source that breaks off after its first byte in the first attempt and is read fully in the second.\<close>

definition failing_source :: "nat \<Rightarrow> source_file" where
  "failing_source n = demo_source\<lparr>streamed_reads := Some (if n = 1 then [Chunk [65], Fail] else [Chunk [65, 66]]), sent_stat := Some (2, 5)\<rparr>"

lemma resumed_push_exact_witness:
  "case with_transfer_retry (\<lambda>n. send_file_tcp demo_sending checked_entry (failing_source n)) demo_fs of
      (Inr _, d') \<Rightarrow> d' [''b'', ''d'', ''g''] = Some (RegularFile [65, 66] (Some 5) (Some 420))
    | (Inl err, d') \<Rightarrow> partial_file [65, 66] [''b'', INTERNAL_TMP, ''3'', ''d'', ''g.tmp.7''] d'"
proof -
  let ?w = "[65, 66] :: u8 list" and ?k = "tmp_key demo_receiver ''/b'' 3 [''d'', ''g'']"
  have k: "?k = [''b'', INTERNAL_TMP, ''3'', ''d'', ''g.tmp.7'']"
    by (simp add: tmp_key_def demo_root demo_show demo_receiver_def demo_decimal)
  have "steady (failing_source n) ?w" for n by (auto simp: steady_def failing_source_def demo_source_def)
  then have all: "\<forall>n. sends_to demo_peer demo_sending \<and> receiving demo_peer = demo_receiver \<and> to_root demo_sending = ''/b''
      \<and> to_cycle demo_sending = 3 \<and> steady (failing_source n) ?w"
    using demo_sends by (simp add: demo_peer_def demo_sending_def)
  have w: "content_of demo_receiver checked_entry ?w"
    by (simp add: content_of_def checked_entry_def demo_entry_def as_len_def)
  have plain: "plain_rel (rel_path checked_entry) [''d'', ''g'']" "0 \<le> mtime_ns checked_entry"
    using demo_plain_g by (simp_all add: checked_entry_def demo_entry_def)
  have none: "partial_file ?w ?k demo_fs" unfolding k by (simp add: partial_file_def demo_fs_def)
  have rec: "received ?w checked_entry = RegularFile ?w (Some 5) (Some 420)"
    by (simp add: received_def checked_entry_def demo_entry_def)
  show ?thesis using resumed_push_exact [OF all _ plain w demo_fs_ok none]
    by (simp add: demo_root k rec split: prod.splits sum.splits)
qed

text \<open>An empty file with a checksum never reaches a peer without the stream endpoint. The legacy loop
  sends no chunk for it, so the temporary file is never made and the finishing request fails with
  "not found", in every attempt and whatever the destination holds otherwise.\<close>

theorem empty_file_never_arrives:
  assumes "sends_to pr c" and "to_root c \<noteq> ''''" and "plain_rel (rel_path e) ws" and "file_type e = ''file''"
    and "size_of e = 0" and "hash e \<noteq> None"
    and "\<forall>q body. \<not> supports pr (PutFileStream q body)" and "fs_ok d"
    and "d (tmp_key (receiving pr) (to_root c) (to_cycle c) ws) = None"
  shows "\<exists>x. fst (send_file_tcp c e src d) = Inl x"
proof (rule ccontr)
  assume "\<nexists>x. fst (send_file_tcp c e src d) = Inl x"
  then obtain d' where run: "send_file_tcp c e src d = (Inr (), d')"
    by (metis old.sum.exhaust old.unit.exhaust prod.collapse)
  let ?k = "tmp_key (receiving pr) (to_root c) (to_cycle c) ws"
  have big: "\<not> (as_len (size_of e) \<le> TRANSFER_CHUNK_SIZE \<and> hash e = None)" using assms(6) by simp
  have to: "to_peer c = ask_peer pr" using assms(1) by (simp add: sends_to_def)
  have tmp: "locate (tmp_of (receiving pr) (to_root c) (to_cycle c) (rel_path e)) = ?k" by (rule tmp_of_key(1) [OF assms(3)])
  have gone: "metadata_len (receiving pr) (tmp_of (receiving pr) (to_root c) (to_cycle c) (rel_path e)) d = Inl NotFound"
    using assms(9) by (simp add: metadata_len_def lstat_def tmp)
  from file_steps [OF assms(1,8,3) big run] obtain n d1 h d2 where
    body: "or_missing (send_file_body_streamed c e src (resume_offset e n)) (send_file_body_chunked c e src (resume_offset e n)) d1 = (Inr h, d2)"
    and fin: "seq_io (stable_source (sent_stat src) e) (post_ack c (FinishFile (to_root c) (to_cycle c) e (Some h))) d2 = (Inr (), d')"
    and ask: "ask_peer pr (FileOffset (to_root c) (rel_path e) (to_cycle c) (size_of e)) d = (Inr (OffsetReply n), d1)" .
  have "d1 = d"
    using ask gone by (auto simp: ask_peer_Inr answer_io_def bind_io_Inr basic_io_Inr transfer_file_offset_def seq_io_Inr
        reject_dangerous_def lift_err_Inr Let_def)
  moreover have "d2 = d1"
  proof -
    have empty: "stream_body c e k 0 es = ([], [], None)" "send_chunks c e k 0 es = ret_io []" for k es
      using assms(5) by (simp_all add: stream_body.simps [of c e k 0 es] send_chunks.simps [of c e k 0 es] as_len_def)
    have "\<exists>x. send_file_body_streamed c e src (resume_offset e n) d1 = (Inl x, d1)"
      using assms(7) by (auto simp: send_file_body_streamed_def empty remote_post_octet_stream_def to ask_peer_def
          bind_io_def fail_io_def split: option.splits)
    then obtain x where "send_file_body_streamed c e src (resume_offset e n) d1 = (Inl x, d1)" ..
    then show ?thesis using body
      by (auto simp: or_missing_def send_file_body_chunked_def empty bind_io_def ret_io_def fail_io_def
          split: prod.splits sum.splits send_error.splits option.splits)
  qed
  ultimately have "transfer_finish_file (receiving pr) (to_root c) (to_cycle c) e (Some h) d = (Inr (), d')"
    using fin by (auto simp: seq_io_Inr stable_source_Inr post_ack_Inr [OF assms(1)] ack_io_Inr)
  then show False
    by (auto simp: transfer_finish_file_def Let_def run_simps reject_dangerous_def safe_join_def gone)
qed

text \<open>An old peer, and an empty file with its checksum.\<close>

definition old_peer :: peer where
  "old_peer = demo_peer\<lparr>supports := (\<lambda>req. case req of PutFileStream q body \<Rightarrow> False | _ \<Rightarrow> True)\<rparr>"

lemma empty_file_never_arrives_witness:
  "\<exists>x. fst (send_file_tcp (demo_sending\<lparr>to_peer := ask_peer old_peer\<rparr>) (checked_entry\<lparr>size_of := 0\<rparr>)
     (demo_source\<lparr>streamed_reads := Some [], chunked_reads := Some [], sent_stat := Some (0, 5)\<rparr>) demo_fs) = Inl x"
proof (rule empty_file_never_arrives [where pr = old_peer and ws = "[''d'', ''g'']"])
  show "demo_fs (tmp_key (receiving old_peer) (to_root (demo_sending\<lparr>to_peer := ask_peer old_peer\<rparr>))
      (to_cycle (demo_sending\<lparr>to_peer := ask_peer old_peer\<rparr>)) [''d'', ''g'']) = None"
    by (simp add: tmp_key_def demo_root old_peer_def demo_peer_def demo_sending_def demo_fs_def)
qed (use demo_plain_g demo_fs_ok in \<open>simp_all add: sends_to_def old_peer_def demo_peer_def demo_sending_def checked_entry_def demo_entry_def\<close>)

end
