(* ===== verification/Push.thy ===== *)
theory Push
  imports Send
begin

text \<open>
  A transfer pass over one destination (\<open>src/src/core/sync/mod.rs\<close>): the plan of work items, the pool of
  workers that shares them, the requests that prepare and finish a tree, in chunks, and the two passes
  that put them together. The pool appears twice: as a relation over every interleaving of its workers,
  for the accounts it keeps, and as the run of a single worker, for the passes. The destination is
  reached through the channel of \<open>Send\<close>; a destination on the same machine is a peer that always answers.
  The source is on the machine that runs the pass. Its manifest and the scans of the destination are parameters.
\<close>

section \<open>The plan of work\<close>

definition SMALL_BATCH_FILE_MAX :: nat where "SMALL_BATCH_FILE_MAX = 256 * 1024"
definition SMALL_BATCH_MAX_BYTES :: nat where "SMALL_BATCH_MAX_BYTES = 8 * 1024 * 1024"
definition SMALL_BATCH_MAX_FILES :: nat where "SMALL_BATCH_MAX_FILES = 200"

datatype push_work = Single SnapshotEntry bool | SmallBatch "SnapshotEntry list"

definition flush_batch :: "push_work list \<Rightarrow> SnapshotEntry list \<Rightarrow> push_work list" where
  "flush_batch work batch = (case batch of [] \<Rightarrow> work | [e] \<Rightarrow> work @ [Single e False] | _ \<Rightarrow> work @ [SmallBatch batch])"

definition is_small :: "SnapshotEntry \<Rightarrow> bool \<Rightarrow> bool" where
  "is_small e use_delta \<longleftrightarrow> file_type e = ''file'' \<and> \<not> use_delta \<and> as_len (size_of e) \<le> SMALL_BATCH_FILE_MAX"

fun plan_loop :: "push_work list \<Rightarrow> SnapshotEntry list \<Rightarrow> nat \<Rightarrow> (SnapshotEntry \<times> bool) list \<Rightarrow> push_work list" where
  "plan_loop work batch batch_bytes [] = flush_batch work batch"
| "plan_loop work batch batch_bytes ((e, use_delta) # es) =
     (if \<not> is_small e use_delta then plan_loop (work @ [Single e use_delta]) batch batch_bytes es
      else if length batch \<ge> SMALL_BATCH_MAX_FILES \<or> batch_bytes + as_len (size_of e) > SMALL_BATCH_MAX_BYTES
      then plan_loop (flush_batch work batch) [e] (as_len (size_of e)) es
      else plan_loop work (batch @ [e]) (batch_bytes + as_len (size_of e)) es)"

definition plan_push_work :: "(SnapshotEntry \<times> bool) list \<Rightarrow> push_work list" where
  "plan_push_work entries = plan_loop [] [] 0 entries"

definition resolve_parallelism :: "nat \<Rightarrow> nat \<Rightarrow> nat" where
  "resolve_parallelism configured work_items =
     min (max 1 (if configured = 0 then DEFAULT_MAX_PARALLEL_TRANSFERS else configured)) (max work_items 1)"

section \<open>One work item\<close>

definition transfer_error_is_fatal :: "send_error \<Rightarrow> bool" where
  "transfer_error_is_fatal e \<longleftrightarrow> e = Cancelled \<or> e = UnreachablePeer"

text \<open>What a worker has to enter into the accounts for an item.\<close>

datatype work_result = Delivered nat "string list" "string list" | FatalError send_error

definition single_result :: "SnapshotEntry \<Rightarrow> send_error + unit \<Rightarrow> work_result" where
  "single_result e r = (case r of
       Inr _ \<Rightarrow> Delivered 1 [] []
     | Inl err \<Rightarrow>
         if transfer_error_is_source_changing err then Delivered 0 [rel_path e] []
         else if transfer_error_is_fatal err then FatalError err
         else Delivered 0 [] [rel_path e])"

definition batch_label :: "SnapshotEntry list \<Rightarrow> string" where
  "batch_label batch = ''batch of '' @ decimal (length batch) @ '' small files (first: '' @ rel_path (hd batch) @ '')''"

definition batch_result :: "SnapshotEntry list \<Rightarrow> send_error + TransferBatchOutcome \<Rightarrow> work_result" where
  "batch_result batch r = (case r of
       Inr out \<Rightarrow> Delivered (sent out) (out_changing out) (out_failed out)
     | Inl err \<Rightarrow> if transfer_error_is_fatal err then FatalError err else Delivered 0 [] [batch_label batch])"

text \<open>\<open>src n\<close> is the source as the \<open>n\<close>-th attempt finds it.\<close>

definition push_item :: "sending \<Rightarrow> path_buf \<Rightarrow> (nat \<Rightarrow> SnapshotEntry \<Rightarrow> source_file) \<Rightarrow> push_work \<Rightarrow> fs \<Rightarrow> work_result \<times> fs" where
  "push_item c root src w d = (case w of
       Single e use_delta \<Rightarrow>
         (case with_transfer_retry (\<lambda>n. transfer_push_file c root e use_delta (src n e)) d of
            (r, d') \<Rightarrow> (single_result e r, d'))
     | SmallBatch batch \<Rightarrow>
         (case with_transfer_retry (\<lambda>n. transfer_push_files_batch c root (src n) batch) d of
            (r, d') \<Rightarrow> (batch_result batch r, d')))"

section \<open>The pool\<close>

definition MAX_PER_FILE_TRANSFER_FAILURES :: nat where "MAX_PER_FILE_TRANSFER_FAILURES = 20"

datatype pool_error = Fatal send_error | GivingUp string

record pool =
  next_item :: nat
  running :: "nat multiset"
  delivered :: nat
  changing_paths :: "string set"
  failures :: "string list"
  fatal_error :: "pool_error option"

definition empty_pool :: pool where
  "empty_pool = \<lparr>next_item = 0, running = {#}, delivered = 0, changing_paths = {}, failures = [], fatal_error = None\<rparr>"

definition set_fatal :: "pool_error \<Rightarrow> pool \<Rightarrow> pool" where
  "set_fatal e p = (if fatal_error p = None then p\<lparr>fatal_error := Some e\<rparr> else p)"

text \<open>At the cap the failure that reaches it becomes the error of the pool.\<close>

definition push_failed :: "string \<Rightarrow> pool \<Rightarrow> bool \<times> pool" where
  "push_failed rel p =
     (if length (failures p) + 1 \<ge> MAX_PER_FILE_TRANSFER_FAILURES then (True, set_fatal (GivingUp rel) p)
      else (False, p\<lparr>failures := failures p @ [rel]\<rparr>))"

fun push_all_failed :: "string list \<Rightarrow> pool \<Rightarrow> pool" where
  "push_all_failed [] p = p"
| "push_all_failed (rel # rels) p = (case push_failed rel p of (True, p') \<Rightarrow> p' | (False, p') \<Rightarrow> push_all_failed rels p')"

definition record_result :: "work_result \<Rightarrow> pool \<Rightarrow> pool" where
  "record_result r p = (case r of
       Delivered n changing unsent \<Rightarrow>
         push_all_failed unsent (p\<lparr>delivered := delivered p + n, changing_paths := changing_paths p \<union> set changing\<rparr>)
     | FatalError e \<Rightarrow> set_fatal (Fatal e) p)"

text \<open>Any number of workers: a worker takes the next item, finishes an item it holds, or finds the pass
  cancelled. \<open>result i\<close> is what the transfer of item \<open>i\<close> comes to; \<open>ended\<close> lists the items in the order in
  which their results were entered. A worker that has looked at the error before another sets it still
  takes an item, so taking is always allowed here.\<close>

inductive pool_run :: "(nat \<Rightarrow> work_result) \<Rightarrow> nat \<Rightarrow> nat list \<Rightarrow> pool \<Rightarrow> bool" for result :: "nat \<Rightarrow> work_result" and items :: nat where
  start: "pool_run result items [] empty_pool"
| take_item: "pool_run result items ended p \<Longrightarrow> next_item p < items \<Longrightarrow>
    pool_run result items ended (p\<lparr>next_item := next_item p + 1, running := add_mset (next_item p) (running p)\<rparr>)"
| no_item: "pool_run result items ended p \<Longrightarrow> next_item p \<ge> items \<Longrightarrow>
    pool_run result items ended (p\<lparr>next_item := next_item p + 1\<rparr>)"
| cancelled: "pool_run result items ended p \<Longrightarrow> pool_run result items ended (set_fatal (Fatal Cancelled) p)"
| finish: "pool_run result items ended p \<Longrightarrow> i \<in># running p \<Longrightarrow>
    pool_run result items (ended @ [i]) (record_result (result i) (p\<lparr>running := running p - {#i#}\<rparr>))"

record TransferOutcome =
  transferred :: nat
  outcome_changing :: "string set"
  outcome_failed :: "string list"

definition pool_outcome :: "pool \<Rightarrow> pool_error + TransferOutcome" where
  "pool_outcome p = (case fatal_error p of
       Some e \<Rightarrow> Inl e
     | None \<Rightarrow> Inr \<lparr>transferred = delivered p, outcome_changing = changing_paths p, outcome_failed = failures p\<rparr>)"

definition unverifiable_paths :: "TransferOutcome \<Rightarrow> string set" where
  "unverifiable_paths out = outcome_changing out \<union> set (outcome_failed out)"

datatype push_error = PoolError pool_error | FilesFailed nat string | SourceChanging "string set" | Step string send_error
  | VerifyFailed verify_error

definition into_result :: "TransferOutcome \<Rightarrow> push_error + unit" where
  "into_result out = (case outcome_failed out of
       rel # rels \<Rightarrow> Inl (FilesFailed (length (outcome_failed out)) rel)
     | [] \<Rightarrow> if outcome_changing out \<noteq> {} then Inl (SourceChanging (outcome_changing out)) else Inr ())"

text \<open>The run of one worker.\<close>

fun one_worker :: "('w \<Rightarrow> fs \<Rightarrow> work_result \<times> fs) \<Rightarrow> (nat \<Rightarrow> bool) \<Rightarrow> 'w list \<Rightarrow> pool \<Rightarrow> fs \<Rightarrow> pool \<times> fs" where
  "one_worker item stop [] p d = (if fatal_error p = None \<and> stop (next_item p) then set_fatal (Fatal Cancelled) p else p, d)"
| "one_worker item stop (w # ws) p d =
     (if fatal_error p \<noteq> None then (p, d)
      else if stop (next_item p) then (set_fatal (Fatal Cancelled) p, d)
      else case item w d of (r, d') \<Rightarrow> one_worker item stop ws (record_result r (p\<lparr>next_item := next_item p + 1\<rparr>)) d')"

definition push_entries :: "sending \<Rightarrow> path_buf \<Rightarrow> (nat \<Rightarrow> SnapshotEntry \<Rightarrow> source_file) \<Rightarrow> (SnapshotEntry \<times> bool) list \<Rightarrow>
    (push_error, TransferOutcome) action" where
  "push_entries c root src entries d =
     (if entries = [] then (Inr \<lparr>transferred = 0, outcome_changing = {}, outcome_failed = []\<rparr>, d)
      else case one_worker (push_item c root src) (stop_at c) (plan_push_work entries) empty_pool d of
        (p, d') \<Rightarrow> (case pool_outcome p of Inl e \<Rightarrow> (Inl (PoolError e), d') | Inr out \<Rightarrow> (Inr out, d')))"

section \<open>Requests on a tree\<close>

definition BULK_BATCH_SIZE :: nat where "BULK_BATCH_SIZE = 20000"

fun chunks_from :: "nat \<Rightarrow> nat \<Rightarrow> 'a list \<Rightarrow> 'a list list" where
  "chunks_from n 0 xs = []"
| "chunks_from n (Suc fuel) xs = (if xs = [] then [] else take n xs # chunks_from n fuel (drop n xs))"

text \<open>\<open>slice::chunks\<close>; a list has at most as many chunks as elements.\<close>

definition list_chunks :: "nat \<Rightarrow> 'a list \<Rightarrow> 'a list list" where
  "list_chunks n xs = chunks_from n (length xs) xs"

definition prepare_dir_on_machine :: "sending \<Rightarrow> string option \<Rightarrow> (send_error, unit) action" where
  "prepare_dir_on_machine c rel = post_ack c (PrepareDir (to_root c) rel)"

definition prepare_dirs_on_machine :: "sending \<Rightarrow> TransferDirSpec list \<Rightarrow> (send_error, unit) action" where
  "prepare_dirs_on_machine c dirs =
     for_io (\<lambda>chunk. post_ack c (PrepareDirs (to_root c) chunk)) (list_chunks BULK_BATCH_SIZE dirs)"

definition set_modes_on_machine :: "sending \<Rightarrow> TransferModeSpec list \<Rightarrow> (send_error, unit) action" where
  "set_modes_on_machine c items =
     for_io (\<lambda>chunk. post_ack c (SetModes (to_root c) chunk)) (list_chunks BULK_BATCH_SIZE items)"

definition set_dir_mtimes_on_machine :: "sending \<Rightarrow> TransferDirSpec list \<Rightarrow> (send_error, unit) action" where
  "set_dir_mtimes_on_machine c dirs =
     for_io (\<lambda>chunk. post_ack c (SetDirMtimes (to_root c) chunk)) (list_chunks BULK_BATCH_SIZE (deepest_first dirs))"

definition remove_path_on_machine :: "sending \<Rightarrow> string \<Rightarrow> (send_error, unit) action" where
  "remove_path_on_machine c rel = post_ack c (RemovePath (to_root c) rel (to_cycle c))"

definition remove_paths_on_machine :: "sending \<Rightarrow> string list \<Rightarrow> (send_error, unit) action" where
  "remove_paths_on_machine c rels =
     for_io (\<lambda>chunk. post_ack c (RemovePaths (to_root c) chunk (to_cycle c))) (list_chunks BULK_BATCH_SIZE rels)"

definition cleanup_tmp_on_machine :: "sending \<Rightarrow> nat \<Rightarrow> (send_error, unit) action" where
  "cleanup_tmp_on_machine c keep_days =
     bind_io (to_peer c (CleanupTmp (to_root c) (to_cycle c) (Some keep_days)))
       (\<lambda>r. case r of AckReply ok \<Rightarrow> ret_io () | _ \<Rightarrow> fail_io BadReply)"

section \<open>The passes\<close>

definition step :: "string \<Rightarrow> (send_error, 'a) action \<Rightarrow> (push_error, 'a) action" where
  "step context m = (\<lambda>d. case m d of (Inl e, d') \<Rightarrow> (Inl (Step context e), d') | (Inr x, d') \<Rightarrow> (Inr x, d'))"

text \<open>Deepest paths first, and by path descending.\<close>

definition paths_deepest_first :: "string list \<Rightarrow> string list" where
  "paths_deepest_first paths = sort_key (\<lambda>p. - int (path_depth p)) (rev (sort paths))"

definition dir_spec :: "SnapshotEntry \<Rightarrow> TransferDirSpec" where
  "dir_spec e = \<lparr>spec_rel = rel_path e, spec_mode = mode_bits e, spec_mtime = mtime_ns e\<rparr>"

definition mode_spec :: "SnapshotEntry \<Rightarrow> TransferModeSpec" where
  "mode_spec e = \<lparr>fix_rel = rel_path e, fix_mode = mode_bits e\<rparr>"

definition dirs_parents_first :: "SnapshotEntry list \<Rightarrow> TransferDirSpec list" where
  "dirs_parents_first entries =
     sort_key (\<lambda>s. path_depth (spec_rel s)) (sort_key spec_rel (map dir_spec (filter (\<lambda>e. file_type e = ''dir'') entries)))"

definition pending_pushes :: "ManifestDiff \<Rightarrow> (SnapshotEntry \<times> bool) list" where
  "pending_pushes diff = map (\<lambda>(e, existing). (e, case existing of None \<Rightarrow> False | Some x \<Rightarrow> should_attempt_delta e x)) (entries_to_copy diff)"

text \<open>The pass over whole manifests. The destination is scanned after its root is prepared; clean-up
  failures are ignored; the outcome of the pushes decides last.\<close>

definition sync_directory_with_transfer ::
    "sending \<Rightarrow> path_buf \<Rightarrow> (nat \<Rightarrow> SnapshotEntry \<Rightarrow> source_file) \<Rightarrow> SnapshotEntry list \<Rightarrow>
     (send_error, SnapshotEntry list) action \<Rightarrow> path_buf list \<Rightarrow> NativeSyncConfig \<Rightarrow> (push_error, unit) action" where
  "sync_directory_with_transfer c root src source_snapshot scan ex sync =
     seq_io (step ''prepare'' (prepare_dir_on_machine c None))
     (bind_io (step ''scan'' scan) (\<lambda>dst_snapshot.
       let diff = diff_manifests source_snapshot dst_snapshot ex sync False;
           dirs = dirs_parents_first source_snapshot
       in seq_io (step ''type change'' (remove_paths_on_machine c (paths_deepest_first (map rel_path (type_mismatches diff)))))
         (seq_io (step ''directories'' (prepare_dirs_on_machine c dirs))
         (bind_io (push_entries c root src (pending_pushes diff)) (\<lambda>outcome.
           seq_io (if mirror sync then step ''extras'' (remove_paths_on_machine c (extra_paths_deepest_first diff)) else ret_io ())
           (seq_io (step ''modes'' (set_modes_on_machine c (map mode_spec (mode_fixes diff))))
           (seq_io (step ''times'' (set_dir_mtimes_on_machine c dirs))
           (seq_io (ok_io (step ''cleanup'' (cleanup_tmp_on_machine c (trash_keep_days sync))))
             (lift_err id (into_result outcome))))))))))"

text \<open>The pass over changed paths: what is to be removed goes first, in one sorted list without
  duplicates; the comparison is exact, and the paths are scanned again and verified at the end. The three scans
  of the paths are parameters.\<close>

definition changed_removals :: "SnapshotEntry list \<Rightarrow> SnapshotEntry list \<Rightarrow> string list \<Rightarrow> path_buf list \<Rightarrow> bool \<Rightarrow> string list" where
  "changed_removals source dst rel_paths ex mirroring =
     (let source_map = map_entry_refs source; dst_map = map_entry_refs dst in
      remdups_adj (paths_deepest_first
       (map rel_path (filter (\<lambda>e. case dst_map (rel_path e) of None \<Rightarrow> False | Some x \<Rightarrow> file_type x \<noteq> file_type e) source)
        @ (if mirroring
           then filter (\<lambda>rel. source_map rel = None \<and> \<not> is_rel_excluded rel ex) (remdups (map rel_path dst))
             @ filter (\<lambda>rel. source_map rel = None \<and> \<not> is_rel_excluded rel ex) rel_paths
           else []))))"

definition changed_pushes :: "SnapshotEntry list \<Rightarrow> SnapshotEntry list \<Rightarrow> NativeSyncConfig \<Rightarrow> (SnapshotEntry \<times> bool) list" where
  "changed_pushes source dst sync =
     List.map_filter (\<lambda>e. if file_type e \<noteq> ''file'' \<and> file_type e \<noteq> ''symlink'' then None
       else case map_entry_refs dst (rel_path e) of
         None \<Rightarrow> Some (e, False)
       | Some x \<Rightarrow> if entries_match_exact e x sync then None else Some (e, should_attempt_delta e x)) source"

definition changed_modes :: "SnapshotEntry list \<Rightarrow> SnapshotEntry list \<Rightarrow> NativeSyncConfig \<Rightarrow> TransferModeSpec list" where
  "changed_modes source dst sync =
     map mode_spec (filter (\<lambda>e. case map_entry_refs dst (rel_path e) of None \<Rightarrow> False
       | Some x \<Rightarrow> entries_match_exact e x sync \<and> entry_mode_differs e x) source)"

definition sync_directory_event_paths_with_transfer ::
    "sending \<Rightarrow> path_buf \<Rightarrow> (nat \<Rightarrow> SnapshotEntry \<Rightarrow> source_file) \<Rightarrow> string list \<Rightarrow>
     (send_error, SnapshotEntry list) action \<Rightarrow> (send_error, SnapshotEntry list) action \<Rightarrow>
     path_buf list \<Rightarrow> NativeSyncConfig \<Rightarrow> (push_error, unit) action" where
  "sync_directory_event_paths_with_transfer c root src rel_paths scan_source scan ex sync =
     (if rel_paths = [] then ret_io ()
      else seq_io (step ''prepare'' (prepare_dir_on_machine c None))
     (bind_io (step ''source'' scan_source) (\<lambda>source.
      bind_io (step ''scan'' scan) (\<lambda>dst.
       let dirs = dirs_parents_first source
       in seq_io (step ''removals'' (remove_paths_on_machine c (changed_removals source dst rel_paths ex (mirror sync))))
         (seq_io (step ''directories'' (prepare_dirs_on_machine c dirs))
         (bind_io (push_entries c root src (changed_pushes source dst sync)) (\<lambda>outcome.
           seq_io (step ''modes'' (set_modes_on_machine c (changed_modes source dst sync)))
           (seq_io (step ''times'' (set_dir_mtimes_on_machine c dirs))
           (seq_io (ok_io (step ''cleanup'' (cleanup_tmp_on_machine c (trash_keep_days sync))))
           (bind_io (step ''scan'' scan) (\<lambda>actual.
             seq_io (lift_err VerifyFailed (verify_snapshot_entries source actual
                 (sorted_list_of_set (unverifiable_paths outcome)) ex sync))
               (lift_err id (into_result outcome)))))))))))))"

end
