(* ===== verification/Push_Facts.thy ===== *)
theory Push_Facts
  imports Push Send_Arrival
begin

text \<open>
  The plan and the pool of a transfer pass: the plan loses no entry and keeps the limits of a batch, and the
  accounts of the pool are right under every interleaving of its workers.
\<close>

section \<open>The plan\<close>

fun work_entries :: "push_work \<Rightarrow> (SnapshotEntry \<times> bool) list" where
  "work_entries (Single e use_delta) = [(e, use_delta)]"
| "work_entries (SmallBatch batch) = map (\<lambda>e. (e, False)) batch"

definition batch_size :: "SnapshotEntry list \<Rightarrow> nat" where
  "batch_size batch = sum_list (map (\<lambda>e. as_len (size_of e)) batch)"

definition batch_ok :: "SnapshotEntry list \<Rightarrow> bool" where
  "batch_ok batch \<longleftrightarrow> length batch \<le> SMALL_BATCH_MAX_FILES \<and> batch_size batch \<le> SMALL_BATCH_MAX_BYTES
     \<and> list_all (\<lambda>e. is_small e False) batch"

fun work_ok :: "push_work \<Rightarrow> bool" where
  "work_ok (Single e use_delta) \<longleftrightarrow> True"
| "work_ok (SmallBatch batch) \<longleftrightarrow> 2 \<le> length batch \<and> batch_ok batch"

lemma flush_batch_entries:
  "mset (concat (map work_entries (flush_batch work batch))) = mset (concat (map work_entries work)) + mset (map (\<lambda>e. (e, False)) batch)"
  by (auto simp: flush_batch_def split: list.splits)

lemma flush_batch_ok: "list_all work_ok work \<Longrightarrow> batch_ok batch \<Longrightarrow> list_all work_ok (flush_batch work batch)"
  by (auto simp: flush_batch_def split: list.splits)

lemma plan_loop_spec:
  assumes "list_all work_ok work" and "batch_ok batch" and "batch_bytes = batch_size batch"
  shows "mset (concat (map work_entries (plan_loop work batch batch_bytes es)))
      = mset (concat (map work_entries work)) + mset (map (\<lambda>e. (e, False)) batch) + mset es
    \<and> list_all work_ok (plan_loop work batch batch_bytes es)"
  using assms
proof (induction work batch batch_bytes es rule: plan_loop.induct)
  case (1 work batch batch_bytes)
  then show ?case using flush_batch_entries flush_batch_ok by simp
next
  case (2 work batch batch_bytes e use_delta es)
  show ?case
  proof (cases "is_small e use_delta")
    case False
    with 2(1) [OF False _ 2(5,6)] 2(4) show ?thesis by simp
  next
    case True
    then have d: "use_delta = False" and one: "batch_ok [e]"
      by (auto simp: is_small_def batch_ok_def batch_size_def SMALL_BATCH_MAX_FILES_def SMALL_BATCH_MAX_BYTES_def SMALL_BATCH_FILE_MAX_def)
    show ?thesis
    proof (cases "length batch \<ge> SMALL_BATCH_MAX_FILES \<or> batch_bytes + as_len (size_of e) > SMALL_BATCH_MAX_BYTES")
      case full: True
      have "batch_size [e] = as_len (size_of e)" by (simp add: batch_size_def)
      with 2(2) [OF _ full flush_batch_ok [OF 2(4,5)] one] True full d show ?thesis
        by (simp add: flush_batch_entries)
    next
      case False
      then have "batch_ok (batch @ [e])" "batch_bytes + as_len (size_of e) = batch_size (batch @ [e])"
        using 2(5,6) True d by (auto simp: batch_ok_def batch_size_def)
      with 2(3) [OF _ False 2(4)] True False d show ?thesis by simp
    qed
  qed
qed

text \<open>The plan of a transfer pass. It holds every entry exactly as often as it was to be sent and
  with its delta flag; a batch has at least two and at most 200 files, of at most 8 MiB together, none
  of them a delta candidate or larger than 256 KiB.\<close>

theorem push_plan_exact:
  "mset (concat (map work_entries (plan_push_work entries))) = mset entries
   \<and> (\<forall>batch. SmallBatch batch \<in> set (plan_push_work entries) \<longrightarrow> 2 \<le> length batch \<and> length batch \<le> 200
       \<and> batch_size batch \<le> 8 * 1024 * 1024 \<and> (\<forall>e\<in>set batch. file_type e = ''file'' \<and> as_len (size_of e) \<le> 256 * 1024))"
proof -
  have "list_all work_ok []" "batch_ok []" "0 = batch_size []"
    by (simp_all add: batch_ok_def batch_size_def)
  from plan_loop_spec [OF this, of entries] show ?thesis
    by (fastforce simp: plan_push_work_def list_all_iff batch_ok_def is_small_def SMALL_BATCH_MAX_FILES_def
        SMALL_BATCH_MAX_BYTES_def SMALL_BATCH_FILE_MAX_def)
qed

section \<open>The accounts of the pool\<close>

definition result_sent :: "work_result \<Rightarrow> nat" where
  "result_sent r = (case r of Delivered n changing unsent \<Rightarrow> n | FatalError e \<Rightarrow> 0)"

definition result_changing :: "work_result \<Rightarrow> string list" where
  "result_changing r = (case r of Delivered n changing unsent \<Rightarrow> changing | FatalError e \<Rightarrow> [])"

definition result_failed :: "work_result \<Rightarrow> string list" where
  "result_failed r = (case r of Delivered n changing unsent \<Rightarrow> unsent | FatalError e \<Rightarrow> [])"

definition is_fatal :: "work_result \<Rightarrow> bool" where
  "is_fatal r \<longleftrightarrow> (case r of Delivered n changing unsent \<Rightarrow> False | FatalError e \<Rightarrow> True)"

text \<open>The fields that the accounts of failures leave alone.\<close>

lemma push_all_failed_frame:
  "next_item (push_all_failed rels p) = next_item p" "running (push_all_failed rels p) = running p"
  "delivered (push_all_failed rels p) = delivered p" "changing_paths (push_all_failed rels p) = changing_paths p"
  by (induction rels p rule: push_all_failed.induct) (auto simp: push_failed_def set_fatal_def)

lemma push_all_failed_spec:
  assumes "fatal_error p = None" and "length (failures p) < MAX_PER_FILE_TRANSFER_FAILURES"
  shows "if length (failures p) + length rels < MAX_PER_FILE_TRANSFER_FAILURES
    then fatal_error (push_all_failed rels p) = None \<and> failures (push_all_failed rels p) = failures p @ rels
    else \<exists>rel\<in>set rels. fatal_error (push_all_failed rels p) = Some (GivingUp rel)"
  using assms
proof (induction rels p rule: push_all_failed.induct)
  case (2 rel rels p)
  show ?case
  proof (cases "length (failures p) + 1 \<ge> MAX_PER_FILE_TRANSFER_FAILURES")
    case True
    then show ?thesis using 2(2) by (auto simp: push_failed_def set_fatal_def)
  next
    case False
    then have p: "push_failed rel p = (False, p\<lparr>failures := failures p @ [rel]\<rparr>)" by (simp add: push_failed_def)
    from 2(1) [OF p [symmetric] refl] 2(2) False show ?thesis by (auto simp: p split: if_splits)
  qed
qed simp

lemma push_all_failed_fatal: "fatal_error p \<noteq> None \<Longrightarrow> fatal_error (push_all_failed rels p) = fatal_error p"
  by (induction rels p rule: push_all_failed.induct) (auto simp: push_failed_def set_fatal_def)

definition accounts :: "(nat \<Rightarrow> work_result) \<Rightarrow> nat list \<Rightarrow> pool \<Rightarrow> bool" where
  "accounts result ended p \<longleftrightarrow>
     (case fatal_error p of
        None \<Rightarrow> (\<forall>i\<in>set ended. \<not> is_fatal (result i)) \<and> delivered p = sum_list (map (result_sent \<circ> result) ended)
          \<and> changing_paths p = (\<Union>i\<in>set ended. set (result_changing (result i)))
          \<and> failures p = concat (map (result_failed \<circ> result) ended)
          \<and> length (failures p) < MAX_PER_FILE_TRANSFER_FAILURES
      | Some e \<Rightarrow> e = Fatal Cancelled \<or> (\<exists>i\<in>set ended. is_fatal (result i))
          \<or> length (concat (map (result_failed \<circ> result) ended)) \<ge> MAX_PER_FILE_TRANSFER_FAILURES)"

lemma accounts_record:
  assumes "accounts result ended p"
  shows "accounts result (ended @ [i]) (record_result (result i) p)"
proof (cases "fatal_error p")
  case (Some e)
  then have "fatal_error (record_result (result i) p) = Some e"
    by (auto simp: record_result_def push_all_failed_fatal set_fatal_def split: work_result.splits)
  with assms Some show ?thesis by (auto simp: accounts_def)
next
  case None
  show ?thesis
  proof (cases "result i")
    case (FatalError x)
    then show ?thesis using None by (auto simp: accounts_def record_result_def set_fatal_def is_fatal_def)
  next
    case (Delivered n changing unsent)
    let ?p = "p\<lparr>delivered := delivered p + n, changing_paths := changing_paths p \<union> set changing\<rparr>"
    have "fatal_error ?p = None" "length (failures ?p) < MAX_PER_FILE_TRANSFER_FAILURES"
      using assms None by (auto simp: accounts_def)
    from push_all_failed_spec [OF this, of unsent] assms None Delivered show ?thesis
      by (auto simp: accounts_def record_result_def push_all_failed_frame is_fatal_def result_sent_def
          result_changing_def result_failed_def split: if_splits)
  qed
qed

lemma record_result_frame:
  "next_item (record_result r p) = next_item p" "running (record_result r p) = running p"
  by (auto simp: record_result_def push_all_failed_frame set_fatal_def split: work_result.splits)

lemma pool_run_accounts:
  assumes "pool_run result items ended p"
  shows "accounts result ended p"
  using assms
proof induction
  case start
  then show ?case by (simp add: accounts_def empty_pool_def MAX_PER_FILE_TRANSFER_FAILURES_def)
next
  case (finish ended p i)
  have "accounts result ended (p\<lparr>running := running p - {#i#}\<rparr>)" using finish.IH by (cases "fatal_error p") (auto simp: accounts_def)
  then show ?case by (rule accounts_record)
qed (auto simp: accounts_def set_fatal_def split: option.splits)

lemma pool_run_items:
  assumes "pool_run result items ended p"
  shows "mset ended + running p = mset [0..<min (next_item p) items]"
  using assms
proof induction
  case (take_item ended p)
  then show ?case by simp
next
  case (finish ended p i)
  have "mset (ended @ [i]) + (running p - {#i#}) = mset ended + running p"
    using insert_DiffM [OF finish.hyps(2)] by (simp add: union_mset_add_mset_right [symmetric] del: union_mset_add_mset_right)
  then show ?case using finish.IH by (simp only: record_result_frame) simp
qed (auto simp: empty_pool_def set_fatal_def min_def)

text \<open>C17: the accounts of the worker pool, under every interleaving of any number of workers. When all have stopped
  and the pool has no error, every item was transferred exactly once, the count of delivered files, the set of
  changed sources and the list of failures are those of the items, and fewer than 20 files have failed. When it has an
  error, the pass was cancelled, an item met a fatal error, or 20 files had failed.\<close>

theorem pool_accounts:
  assumes "pool_run result items ended p" and "running p = {#}" and "fatal_error p = None \<longrightarrow> items \<le> next_item p"
  shows "case pool_outcome p of
      Inr out \<Rightarrow> mset ended = mset [0..<items]
        \<and> transferred out = (\<Sum>i<items. result_sent (result i))
        \<and> outcome_changing out = (\<Union>i<items. set (result_changing (result i)))
        \<and> mset (outcome_failed out) = (\<Sum>i<items. mset (result_failed (result i)))
        \<and> length (outcome_failed out) < 20
    | Inl e \<Rightarrow> e = Fatal Cancelled \<or> (\<exists>i<items. is_fatal (result i)) \<or> 20 \<le> (\<Sum>i<items. length (result_failed (result i)))"
proof -
  have items: "mset ended = mset [0..<min (next_item p) items]" using pool_run_items [OF assms(1)] assms(2) by simp
  have acc: "accounts result ended p" by (rule pool_run_accounts [OF assms(1)])
  have sums: "sum_list (map f ended) = (\<Sum>i<min (next_item p) items. f i)" for f :: "nat \<Rightarrow> 'a :: comm_monoid_add"
  proof -
    have "sum_list (map f ended) = sum_mset (image_mset f (mset ended))" by (simp flip: sum_mset_sum_list)
    also have "\<dots> = sum_list (map f [0..<min (next_item p) items])" unfolding items by (simp flip: sum_mset_sum_list)
    finally show ?thesis by (simp add: sum_list_distinct_conv_sum_set atLeast0LessThan)
  qed
  have elems: "set ended = {..<min (next_item p) items}"
    using arg_cong [OF items, of set_mset] by (auto simp: atLeast0LessThan)
  show ?thesis
  proof (cases "fatal_error p")
    case None
    then have n: "min (next_item p) items = items" using assms(3) by simp
    have "mset (concat (map (result_failed \<circ> result) ended)) = sum_list (map (\<lambda>i. mset (result_failed (result i))) ended)"
      by (simp add: mset_concat comp_def)
    with acc None items show ?thesis unfolding n
      by (auto simp: pool_outcome_def accounts_def sums [unfolded n] elems [unfolded n] comp_def MAX_PER_FILE_TRANSFER_FAILURES_def)
  next
    case (Some e)
    have "length (concat (map (result_failed \<circ> result) ended)) = (\<Sum>i<min (next_item p) items. length (result_failed (result i)))"
      using sums [of "\<lambda>i. length (result_failed (result i))"] by (simp add: length_concat comp_def)
    also have "\<dots> \<le> (\<Sum>i<items. length (result_failed (result i)))" by (rule sum_mono2) auto
    finally show ?thesis using acc Some elems
      by (auto simp: pool_outcome_def accounts_def MAX_PER_FILE_TRANSFER_FAILURES_def)
  qed
qed

end
