(* ===== verification/Push_Pass.thy ===== *)
theory Push_Pass
  imports Push_Facts Send_Arrival
begin

text \<open>
  What a transfer pass achieves: sending a long list of requests in chunks has the effect of one request with
  the whole list, and a pass that ends without an error has had every item of its plan acknowledged, in some attempt.
\<close>

section \<open>Chunks\<close>

lemma concat_chunks_from: "length xs \<le> fuel \<Longrightarrow> 0 < n \<Longrightarrow> concat (chunks_from n fuel xs) = xs"
proof (induction n fuel xs rule: chunks_from.induct)
  case (2 n fuel xs)
  then show ?case by (cases "xs = []") simp_all
qed simp

lemma concat_list_chunks: "0 < n \<Longrightarrow> concat (list_chunks n xs) = xs"
  by (simp add: list_chunks_def concat_chunks_from)

lemma chunks_from_ne: "chunks_from n fuel xs = [] \<longleftrightarrow> fuel = 0 \<or> xs = []"
  by (cases fuel) simp_all

lemma list_chunks_Nil: "list_chunks n xs = [] \<longleftrightarrow> xs = []"
  by (simp add: list_chunks_def chunks_from_ne)

lemma for_io_append: "for_io f (xs @ ys) d = seq_io (for_io f xs) (for_io f ys) d"
proof (induction xs arbitrary: d)
  case (Cons x xs)
  obtain r d1 where run: "f x d = (r, d1)" by fastforce
  then show ?case using Cons [of d1] by (cases r) (simp_all add: seq_io_def bind_io_def)
qed (simp add: seq_io_def bind_io_def ret_io_def)

text \<open>A peer that answers every request.\<close>

definition answers_all :: "peer \<Rightarrow> bool" where
  "answers_all pr \<longleftrightarrow> (\<forall>req. reaches pr req \<and> supports pr req)"

definition as_peer :: "(receive_error + unit) \<times> fs \<Rightarrow> (send_error + unit) \<times> fs" where
  "as_peer r = (case r of (Inl e, d') \<Rightarrow> (Inl (PeerError e), d') | (Inr u, d') \<Rightarrow> (Inr (), d'))"

lemma post_ack_run:
  assumes "sends_to pr c" and "answers_all pr" and "serve (header_parser pr) (receiving pr) req = ack_io m"
  shows "post_ack c req d = as_peer (m d)"
proof -
  obtain r d' where run: "m d = (r, d')" by fastforce
  then show ?thesis using assms
    by (cases r) (simp_all add: post_ack_def sends_to_def answers_all_def ask_peer_def ack_io_def answer_io_def bind_io_def
        ret_io_def ack_of_def bail_io_def as_peer_def)
qed

text \<open>Requests that check the root and then do one thing for each element.\<close>

lemma chunks_are_one:
  assumes c: "sends_to pr c" "answers_all pr"
    and serve: "\<And>chunk. serve (header_parser pr) (receiving pr) (req chunk)
      = ack_io (seq_io (reject_dangerous (receiving pr) root) (for_io f chunk))"
    and "chunks \<noteq> []"
  shows "for_io (\<lambda>chunk. post_ack c (req chunk)) chunks d
    = as_peer (seq_io (reject_dangerous (receiving pr) root) (for_io f (concat chunks)) d)"
  using assms(4)
proof (induction chunks arbitrary: d)
  case (Cons chunk chunks)
  let ?reject = "reject_dangerous (receiving pr) root"
  show ?case
  proof (cases "reject_dangerous_destination (canonical_path (receiving pr)) root")
    case (Inl e)
    then have "?reject d = (Inl (Dangerous e), d)" by (simp add: reject_dangerous_def lift_err_def fail_io_def)
    then show ?thesis by (simp add: seq_io_def bind_io_def post_ack_run [OF c serve] as_peer_def)
  next
    case (Inr u)
    then have rej: "?reject d = (Inr (), d)" for d by (simp add: reject_dangerous_def lift_err_def ret_io_def)
    obtain r d1 where run: "for_io f chunk d = (r, d1)" by fastforce
    have first: "post_ack c (req chunk) d = as_peer (r, d1)"
      using run by (simp add: post_ack_run [OF c serve] seq_step(1) [of ?reject, OF rej])
    have rest: "for_io (\<lambda>chunk. post_ack c (req chunk)) chunks d1 = as_peer (for_io f (concat chunks) d1)"
    proof (cases "chunks = []")
      case False
      from Cons.IH [OF this, of d1] show ?thesis by (simp add: seq_step(1) [of ?reject, OF rej])
    qed (simp add: ret_io_def as_peer_def)
    show ?thesis
    proof (cases r)
      case (Inl e)
      then show ?thesis using first run
        by (simp add: rej for_io_append seq_io_def bind_io_def as_peer_def)
    next
      case (Inr v)
      then show ?thesis using first run rest
        by (simp add: rej for_io_append seq_io_def bind_io_def as_peer_def)
    qed
  qed
qed simp

text \<open>Requests in chunks of 20000 are one request. Making directories, setting modes and removing paths
  on a peer that answers have the effect and the result of the single request with the whole list,
  also where a chunk fails: later chunks are then not sent.\<close>

theorem chunking_transparent:
  assumes "sends_to pr c" and "answers_all pr"
  shows "(dirs \<noteq> [] \<longrightarrow> prepare_dirs_on_machine c dirs d = as_peer (transfer_prepare_dirs (receiving pr) (to_root c) dirs d))
    \<and> (items \<noteq> [] \<longrightarrow> set_modes_on_machine c items d = as_peer (transfer_set_modes (receiving pr) (to_root c) items d))
    \<and> (rels \<noteq> [] \<longrightarrow> remove_paths_on_machine c rels d = as_peer (transfer_remove_paths (receiving pr) (to_root c) rels (to_cycle c) d))"
proof (intro conjI impI)
  show "prepare_dirs_on_machine c dirs d = as_peer (transfer_prepare_dirs (receiving pr) (to_root c) dirs d)" if "dirs \<noteq> []"
    using chunks_are_one [OF assms, of "PrepareDirs (to_root c)" "to_root c" _ "list_chunks BULK_BATCH_SIZE dirs"] that
    by (simp add: prepare_dirs_on_machine_def transfer_prepare_dirs_def list_chunks_Nil concat_list_chunks BULK_BATCH_SIZE_def)
  show "set_modes_on_machine c items d = as_peer (transfer_set_modes (receiving pr) (to_root c) items d)" if "items \<noteq> []"
    using chunks_are_one [OF assms, of "SetModes (to_root c)" "to_root c" _ "list_chunks BULK_BATCH_SIZE items"] that
    by (simp add: set_modes_on_machine_def transfer_set_modes_def list_chunks_Nil concat_list_chunks BULK_BATCH_SIZE_def)
  show "remove_paths_on_machine c rels d = as_peer (transfer_remove_paths (receiving pr) (to_root c) rels (to_cycle c) d)" if "rels \<noteq> []"
    using chunks_are_one [OF assms, of "\<lambda>chunk. RemovePaths (to_root c) chunk (to_cycle c)" "to_root c" _ "list_chunks BULK_BATCH_SIZE rels"] that
    by (simp add: remove_paths_on_machine_def transfer_remove_paths_def list_chunks_Nil concat_list_chunks BULK_BATCH_SIZE_def)
qed

section \<open>A pass that succeeds\<close>

definition clean :: "pool \<Rightarrow> bool" where
  "clean p \<longleftrightarrow> fatal_error p = None \<and> failures p = [] \<and> changing_paths p = {}"

lemma clean_push_all:
  assumes "clean (push_all_failed rels p)"
  shows "rels = [] \<and> clean p"
  using assms
proof (induction rels arbitrary: p)
  case (Cons rel rels)
  show ?case
  proof (cases "length (failures p) + 1 \<ge> MAX_PER_FILE_TRANSFER_FAILURES")
    case True
    then have "clean (set_fatal (GivingUp rel) p)" using Cons.prems by (simp add: push_failed_def)
    then show ?thesis by (simp add: clean_def set_fatal_def split: if_splits)
  next
    case False
    then have "clean (push_all_failed rels (p\<lparr>failures := failures p @ [rel]\<rparr>))" using Cons.prems by (simp add: push_failed_def)
    from Cons.IH [OF this] show ?thesis by (simp add: clean_def)
  qed
qed simp

lemma clean_record: "clean (record_result r p) \<Longrightarrow> clean p \<and> (\<exists>k. r = Delivered k [] [])"
proof (cases r)
  case (Delivered n changing unsent)
  assume "clean (record_result r p)"
  then have "clean (push_all_failed unsent (p\<lparr>delivered := delivered p + n, changing_paths := changing_paths p \<union> set changing\<rparr>))"
    using Delivered by (simp add: record_result_def)
  from clean_push_all [OF this] Delivered show ?thesis by (simp add: clean_def)
next
  case (FatalError e)
  moreover assume "clean (record_result r p)"
  ultimately show ?thesis by (simp add: record_result_def set_fatal_def clean_def split: if_splits)
qed

lemma clean_worker:
  assumes "one_worker item stop ws p d = (p', d')" and "clean p'"
  shows "clean p \<and> (\<forall>w\<in>set ws. \<exists>k d1 d2. item w d1 = (Delivered k [] [], d2))"
  using assms
proof (induction item stop ws p d rule: one_worker.induct)
  case (1 item stop p d)
  then show ?case by (auto simp: clean_def set_fatal_def split: if_splits)
next
  case (2 item stop w ws p d)
  show ?case
  proof (cases "fatal_error p \<noteq> None \<or> stop (next_item p)")
    case True
    then show ?thesis using 2(2,3) by (auto simp: clean_def set_fatal_def split: if_splits)
  next
    case False
    obtain r d1 where run: "item w d = (r, d1)" by fastforce
    have rest: "one_worker item stop ws (record_result r (p\<lparr>next_item := next_item p + 1\<rparr>)) d1 = (p', d')"
      using 2(2) False run by simp
    have IH: "clean (record_result r (p\<lparr>next_item := next_item p + 1\<rparr>)) \<and> (\<forall>w\<in>set ws. \<exists>k d1 d2. item w d1 = (Delivered k [] [], d2))"
      using 2(1) [OF _ _ run [symmetric] rest 2(3)] False by simp
    have "clean p" "\<exists>k. r = Delivered k [] []"
      using clean_record [OF conjunct1 [OF IH]] by (simp_all add: clean_def)
    then show ?thesis using conjunct2 [OF IH] run by (metis set_ConsD)
  qed
qed

lemma retry_success: "retry_from n attempt d = (Inr x, d') \<Longrightarrow> \<exists>n d1. attempt n d1 = (Inr x, d')"
proof (induction n attempt d rule: retry_from.induct)
  case (1 n attempt d)
  obtain r d1 where run: "attempt n d = (r, d1)" by fastforce
  show ?case
  proof (cases r)
    case (Inl e)
    with run 1(1) [OF run [symmetric] Inl] 1(2) show ?thesis
      by (auto simp: retry_from.simps [of n] split: if_splits)
  next
    case (Inr y)
    with run 1(2) show ?thesis by (auto simp: retry_from.simps [of n])
  qed
qed

lemma step_Inr [run_simps]: "step context m d = (Inr x, d') \<longleftrightarrow> m d = (Inr x, d')"
  by (auto simp: step_def split: prod.splits sum.splits)

text \<open>What a work item that is delivered without changed or failed files has had acknowledged.\<close>

definition item_done :: "sending \<Rightarrow> path_buf \<Rightarrow> (nat \<Rightarrow> SnapshotEntry \<Rightarrow> source_file) \<Rightarrow> push_work \<Rightarrow> bool" where
  "item_done c root src w \<longleftrightarrow> (case w of
       Single e use_delta \<Rightarrow> \<exists>n d1 d2. transfer_push_file c root e use_delta (src n e) d1 = (Inr (), d2)
     | SmallBatch batch \<Rightarrow> \<exists>n d1 d2 out. transfer_push_files_batch c root (src n) batch d1 = (Inr out, d2)
         \<and> out_changing out = [] \<and> out_failed out = [])"

lemma delivered_done:
  assumes "push_item c root src w d1 = (Delivered k [] [], d2)"
  shows "item_done c root src w"
proof (cases w)
  case (Single e use_delta)
  obtain r d' where run: "with_transfer_retry (\<lambda>n. transfer_push_file c root e use_delta (src n e)) d1 = (r, d')" by fastforce
  with assms Single have "r = Inr ()" by (auto simp: push_item_def single_result_def split: sum.splits if_splits)
  with run retry_success [of 1 "\<lambda>n. transfer_push_file c root e use_delta (src n e)" d1 "()" d'] Single show ?thesis
    by (auto simp: with_transfer_retry_def item_done_def)
next
  case (SmallBatch batch)
  obtain r d' where run: "with_transfer_retry (\<lambda>n. transfer_push_files_batch c root (src n) batch) d1 = (r, d')" by fastforce
  with assms SmallBatch obtain out where "r = Inr out" "out_changing out = []" "out_failed out = []"
    by (auto simp: push_item_def batch_result_def split: sum.splits if_splits)
  with run retry_success [of 1 "\<lambda>n. transfer_push_files_batch c root (src n) batch" d1 out d'] SmallBatch show ?thesis
    by (auto simp: with_transfer_retry_def item_done_def)
qed

lemma into_result_Inr: "into_result out = Inr () \<longleftrightarrow> outcome_failed out = [] \<and> outcome_changing out = {}"
  by (auto simp: into_result_def split: list.splits)

lemma push_entries_done:
  assumes "push_entries c root src entries d = (Inr out, d')" and "into_result out = Inr ()"
  shows "\<forall>w\<in>set (plan_push_work entries). item_done c root src w"
proof (cases "entries = []")
  case True
  then show ?thesis by (simp add: plan_push_work_def flush_batch_def)
next
  case False
  obtain p d1 where run: "one_worker (push_item c root src) (stop_at c) (plan_push_work entries) empty_pool d = (p, d1)" by fastforce
  with assms False have "clean p"
    by (auto simp: push_entries_def pool_outcome_def into_result_Inr clean_def split: option.splits)
  from clean_worker [OF run this] delivered_done show ?thesis by blast
qed

text \<open>C16: a pass over a destination that succeeds has delivered everything. For the manifest of the
  destination it scanned, every work item of the plan for the difference was acknowledged in some attempt, a
  batch without a changed or failed file; and with mirroring the removal of the extra paths was acknowledged.\<close>

theorem pass_delivers_all:
  assumes "sync_directory_with_transfer c root src source_snapshot scan ex sync d = (Inr (), d')"
  shows "\<exists>d1 dst d2. scan d1 = (Inr dst, d2)
    \<and> (\<forall>w\<in>set (plan_push_work (pending_pushes (diff_manifests source_snapshot dst ex sync False))). item_done c root src w)
    \<and> (mirror sync \<longrightarrow> (\<exists>d3 d4. remove_paths_on_machine c (extra_paths_deepest_first (diff_manifests source_snapshot dst ex sync False)) d3 = (Inr (), d4)))"
proof -
  from assms obtain d1 dst d2 d3 out d4 d5 where scan: "scan d1 = (Inr dst, d2)"
    and push: "push_entries c root src (pending_pushes (diff_manifests source_snapshot dst ex sync False)) d3 = (Inr out, d4)"
    and extras: "(if mirror sync then step ''extras'' (remove_paths_on_machine c (extra_paths_deepest_first
        (diff_manifests source_snapshot dst ex sync False))) else ret_io ()) d4 = (Inr (), d5)"
    and result: "into_result out = Inr ()"
    unfolding sync_directory_with_transfer_def Let_def
    by (auto simp: bind_io_Inr seq_io_Inr step_Inr lift_err_Inr basic_io_Inr simp del: if_split)
  from push_entries_done [OF push result] scan extras show ?thesis
    by (auto simp: step_Inr split: if_splits)
qed

section \<open>Examples\<close>

definition demo_dir_entry :: SnapshotEntry where
  "demo_dir_entry = demo_entry\<lparr>rel_path := ''d'', file_type := ''dir''\<rparr>"

lemma push_plan_exact_witness:
  "plan_push_work [(demo_entry, False), (demo_dir_entry, False), (demo_entry, False), (demo_entry, True)]
     = [Single demo_dir_entry False, Single demo_entry True, SmallBatch [demo_entry, demo_entry]]
   \<and> batch_size [demo_entry, demo_entry] \<le> 8 * 1024 * 1024"
proof -
  have plan: "plan_push_work [(demo_entry, False), (demo_dir_entry, False), (demo_entry, False), (demo_entry, True)]
     = [Single demo_dir_entry False, Single demo_entry True, SmallBatch [demo_entry, demo_entry]]"
    by (simp add: plan_push_work_def is_small_def demo_dir_entry_def demo_entry_def flush_batch_def as_len_def
        SMALL_BATCH_FILE_MAX_def SMALL_BATCH_MAX_FILES_def SMALL_BATCH_MAX_BYTES_def)
  moreover have "batch_size [demo_entry, demo_entry] \<le> 8 * 1024 * 1024"
    using push_plan_exact [of "[(demo_entry, False), (demo_dir_entry, False), (demo_entry, False), (demo_entry, True)]"]
    unfolding plan by simp
  ultimately show ?thesis by simp
qed

text \<open>Two workers hold an item each and end in the other order; the second file cannot be delivered.\<close>

definition demo_results :: "nat \<Rightarrow> work_result" where
  "demo_results i = (if i = 0 then Delivered 1 [] [] else Delivered 0 [] [''x''])"

definition demo_pool :: pool where
  "demo_pool = \<lparr>next_item = 3, running = {#}, delivered = 1, changing_paths = {}, failures = [''x''], fatal_error = None\<rparr>"

lemma demo_pool_run: "pool_run demo_results 2 [1, 0] demo_pool"
proof -
  note run = pool_run.start [of demo_results 2]
  from pool_run.take_item [OF pool_run.take_item [OF run]]
  have "pool_run demo_results 2 [] (empty_pool\<lparr>next_item := 2, running := {#1, 0#}\<rparr>)"
    by (simp add: empty_pool_def add_mset_commute numeral_2_eq_2)
  from pool_run.finish [OF this, of 1]
  have "pool_run demo_results 2 [1] (empty_pool\<lparr>next_item := 2, running := {#0#}, failures := [''x'']\<rparr>)"
    by (simp add: empty_pool_def demo_results_def record_result_def push_failed_def MAX_PER_FILE_TRANSFER_FAILURES_def)
  from pool_run.no_item [OF pool_run.finish [OF this, of 0]]
  show ?thesis
    by (simp add: empty_pool_def demo_results_def record_result_def demo_pool_def)
qed

lemma pool_accounts_witness:
  "case pool_outcome demo_pool of
      Inr out \<Rightarrow> transferred out = 1 \<and> outcome_changing out = {} \<and> mset (outcome_failed out) = {#''x''#}
    | Inl e \<Rightarrow> False"
proof -
  have "running demo_pool = {#}" "fatal_error demo_pool = None \<longrightarrow> 2 \<le> next_item demo_pool" "pool_outcome demo_pool \<noteq> Inl e" for e
    by (simp_all add: demo_pool_def pool_outcome_def)
  with pool_accounts [OF demo_pool_run this(1,2)] show ?thesis
    by (auto simp: demo_results_def result_sent_def result_changing_def result_failed_def numeral_2_eq_2 split: sum.splits)
qed

lemma demo_answers: "answers_all demo_peer"
  by (simp add: answers_all_def demo_peer_def)

lemma chunking_transparent_witness:
  "prepare_dirs_on_machine demo_sending [dir_spec demo_dir_entry] demo_fs
     = as_peer (transfer_prepare_dirs demo_receiver ''/b'' [dir_spec demo_dir_entry] demo_fs)
   \<and> remove_paths_on_machine demo_sending [''d/f'', ''d''] demo_fs
     = as_peer (transfer_remove_paths demo_receiver ''/b'' [''d/f'', ''d''] 3 demo_fs)"
  using chunking_transparent [OF demo_sends(1) demo_answers, of "[dir_spec demo_dir_entry]" demo_fs "[]" "[''d/f'', ''d'']"]
  by (simp add: demo_sends(2)) (simp add: demo_peer_def demo_sending_def)

definition demo_mirror :: NativeSyncConfig where
  "demo_mirror = NativeSyncConfig_default\<lparr>mirror := False\<rparr>"

lemma demo_diff:
  "pending_pushes (diff_manifests [demo_entry] [] [] demo_mirror False) = [(demo_entry, False)]"
  "type_mismatches (diff_manifests [demo_entry] [] [] demo_mirror False) = []"
  "mode_fixes (diff_manifests [demo_entry] [] [] demo_mirror False) = []"
  by (simp_all add: diff_manifests_def diff_source_entry_def map_entry_refs_def pending_pushes_def entries_to_copy_def
      demo_mirror_def is_rel_excluded_def demo_entry_def)

lemma pass_delivers_all_witness:
  "\<exists>d'. sync_directory_with_transfer demo_sending ''/a'' (\<lambda>_ _. demo_source) [demo_entry] (ret_io []) [] demo_mirror demo_fs = (Inr (), d')
     \<and> item_done demo_sending ''/a'' (\<lambda>_ _. demo_source) (Single demo_entry False)"
proof -
  have plan: "plan_push_work [(demo_entry, False)] = [Single demo_entry False]"
    by (simp add: plan_push_work_def is_small_def demo_entry_def flush_batch_def as_len_def
        SMALL_BATCH_FILE_MAX_def SMALL_BATCH_MAX_FILES_def SMALL_BATCH_MAX_BYTES_def)
  obtain d' where push: "transfer_push_file demo_sending ''/a'' demo_entry False demo_source demo_fs = (Inr (), d')"
    using demo_push_runs by blast
  then have item: "push_item demo_sending ''/a'' (\<lambda>_ _. demo_source) (Single demo_entry False) demo_fs = (Delivered 1 [] [], d')"
    by (simp add: push_item_def with_transfer_retry_def retry_from.simps [of "Suc 0"] single_result_def)
  have stop: "stop_at demo_sending i \<longleftrightarrow> False" for i by (simp add: demo_sending_def)
  have one: "push_entries demo_sending ''/a'' (\<lambda>_ _. demo_source) [(demo_entry, False)] demo_fs
      = (Inr \<lparr>transferred = 1, outcome_changing = {}, outcome_failed = []\<rparr>, d')"
    using item by (simp add: push_entries_def plan stop empty_pool_def record_result_def pool_outcome_def)
  have root: "prepare_dir_on_machine demo_sending None demo_fs = (Inr (), demo_fs)"
    unfolding prepare_dir_on_machine_def demo_sends(2)
    by (subst post_ack_run [OF demo_sends(1) demo_answers, of _ "transfer_prepare_dir demo_receiver ''/b'' None"])
      (simp_all add: demo_peer_def transfer_prepare_dir_def seq_io_def bind_io_def reject_dangerous_def demo_safe lift_err_def
        ret_io_def create_dirs_def create_dir_all_def demo_root demo_fs_def as_peer_def call_def)
  obtain r d2 where tidy: "cleanup_tmp_on_machine demo_sending (trash_keep_days demo_mirror) d' = (r, d2)" by fastforce
  have mir: "mirror demo_mirror \<longleftrightarrow> False" by (simp add: demo_mirror_def)
  have none: "dirs_parents_first [demo_entry] = []" "list_chunks n [] = []" for n
    by (simp_all add: dirs_parents_first_def demo_entry_def list_chunks_def)
  have "sync_directory_with_transfer demo_sending ''/a'' (\<lambda>_ _. demo_source) [demo_entry] (ret_io []) [] demo_mirror demo_fs = (Inr (), d2)"
    using tidy
    by (cases r) (simp_all add: sync_directory_with_transfer_def demo_diff one none seq_io_def bind_io_def step_def root ret_io_def
        paths_deepest_first_def remove_paths_on_machine_def prepare_dirs_on_machine_def set_modes_on_machine_def
        set_dir_mtimes_on_machine_def mir Let_def ok_io_def into_result_def lift_err_def deepest_first_def)
  with pass_delivers_all [OF this] show ?thesis by (auto simp: ret_io_def demo_diff plan)
qed

end
