(* ===== verification/Local.thy ===== *)
theory Local
  imports Push_Facts
begin

text \<open>
  A pass whose source and destination are on one machine (\<open>src/src/core/sync/mod.rs\<close>): how a file or a
  link is copied, the pool of copies, and the passes over a whole tree, over a tree with missing
  directories, over changed paths and over a single file. The scans of the two trees, what the kernel
  does when it clones or copies a range, what the reads of a source deliver and the times and modes
  the system gives on its own are parameters. The pool is the run of one worker of \<open>Push\<close>.
\<close>

section \<open>Copying one entry\<close>

datatype range_event = Moved "u8 list" | Refused bool

text \<open>A source as one copy finds it: its length when opened for the fast copy, the content a clone
  takes, the answers of \<open>copy_file_range\<close> (\<open>Refused True\<close> for an error that means "not supported"), the
  reads of the streaming loop, its size and time afterwards, its target if it is a link.\<close>

record local_source =
  opened :: "nat option"
  cloned :: "u8 list option"
  ranges :: "range_event list"
  streamed :: "read_event list option"
  live_stat :: "(int \<times> int) option"
  read_target :: "path_buf option"

datatype local_error = OnDisk receive_error | Text string | TakeSnapshot string | Unverified verify_error
  | Outcome push_error

type_synonym 'a local_io = "(local_error, 'a) action"

definition on_disk :: "'a io \<Rightarrow> 'a local_io" where
  "on_disk m = (\<lambda>d. case m d of (Inl e, d') \<Rightarrow> (Inl (OnDisk e), d') | (Inr x, d') \<Rightarrow> (Inr x, d'))"

definition append_bytes :: "path_buf \<Rightarrow> u8 list \<Rightarrow> unit io" where
  "append_bytes p ws = call (update_file (locate p) (\<lambda>w. w @ ws))"

text \<open>The kernel copies at most what was asked for. No further answer stands for the end of the source.\<close>

fun copy_ranges :: "path_buf \<Rightarrow> nat \<Rightarrow> bool \<Rightarrow> range_event list \<Rightarrow> bool io" where
  "copy_ranges p remaining any [] = ret_io True"
| "copy_ranges p remaining any (Refused unsupported # es) =
     (if remaining = 0 then ret_io True
      else if \<not> any \<and> unsupported then ret_io False else fail_io (Io InvalidInput))"
| "copy_ranges p remaining any (Moved ws # es) =
     (if remaining = 0 \<or> ws = [] then ret_io True
      else seq_io (append_bytes p (take remaining ws)) (copy_ranges p (remaining - length ws) True es))"

definition linux_fast_copy :: "local_source \<Rightarrow> path_buf \<Rightarrow> bool io" where
  "linux_fast_copy src p =
     (case opened src of
        None \<Rightarrow> fail_io (Io NotFound)
      | Some len \<Rightarrow>
          seq_io (call (write_file (locate p) []))
            (case cloned src of
               Some w \<Rightarrow> seq_io (append_bytes p w) (ret_io True)
             | None \<Rightarrow> copy_ranges p len False (ranges src)))"

fun stream_loop :: "path_buf \<Rightarrow> read_event list \<Rightarrow> unit io" where
  "stream_loop p [] = ret_io ()"
| "stream_loop p (Fail # es) = fail_io (Io InvalidInput)"
| "stream_loop p (Chunk ws # es) = (if ws = [] then ret_io () else seq_io (append_bytes p ws) (stream_loop p es))"

definition stream_copy :: "local_source \<Rightarrow> path_buf \<Rightarrow> unit io" where
  "stream_copy src p =
     (case streamed src of
        None \<Rightarrow> fail_io (Io NotFound)
      | Some reads \<Rightarrow> seq_io (call (write_file (locate p) [])) (stream_loop p reads))"

definition copy_file_data :: "local_source \<Rightarrow> path_buf \<Rightarrow> unit io" where
  "copy_file_data src p = bind_io (linux_fast_copy src p) (\<lambda>done. if done then ret_io () else stream_copy src p)"

definition clear_tmp :: "path_buf \<Rightarrow> unit io" where
  "clear_tmp tmp = seq_io (create_parent tmp)
     (bind_io (ask (present tmp)) (\<lambda>here. if here then remove_any tmp else ret_io ()))"

definition fail_without :: "path_buf \<Rightarrow> string \<Rightarrow> 'a local_io" where
  "fail_without tmp text = seq_io (ok_io (on_disk (remove_any tmp))) (fail_io (Text text))"

definition copy_file :: "receiver \<Rightarrow> local_source \<Rightarrow> path_buf \<Rightarrow> int \<Rightarrow> SnapshotEntry \<Rightarrow> path_buf \<Rightarrow> unit local_io" where
  "copy_file rc src dst_root cycle e final_path =
     (let tmp = tmp_of rc dst_root cycle (rel_path e) in
      seq_io (on_disk (clear_tmp tmp))
      (seq_io (on_disk (copy_file_data src tmp))
      (seq_io (case hash e of
           None \<Rightarrow> ret_io ()
         | Some expected \<Rightarrow> bind_io (on_disk (hash_file rc tmp)) (\<lambda>actual.
             if actual \<noteq> expected then fail_without tmp (''source changed while copying '' @ rel_path e) else ret_io ()))
      (seq_io (case ensure_source_stable (live_stat src) e of Inl text \<Rightarrow> fail_without tmp text | Inr _ \<Rightarrow> ret_io ())
      (seq_io (ok_io (on_disk (set_mode tmp (mode_bits e))))
      (seq_io (ok_io (on_disk (set_file_mtime tmp (file_time (mtime_ns e)))))
        (on_disk (replace_path dst_root cycle (rel_path e) tmp final_path))))))))"

definition copy_symlink :: "receiver \<Rightarrow> local_source \<Rightarrow> path_buf \<Rightarrow> int \<Rightarrow> SnapshotEntry \<Rightarrow> path_buf \<Rightarrow> unit local_io" where
  "copy_symlink rc src dst_root cycle e final_path =
     (let tmp = tmp_of rc dst_root cycle (rel_path e) in
      case read_target src of
        None \<Rightarrow> fail_io (OnDisk (Io NotFound))
      | Some target \<Rightarrow>
          seq_io (on_disk (clear_tmp tmp))
          (seq_io (on_disk (call (symlink target (locate tmp))))
          (seq_io (bind_io (on_disk (hash_symlink tmp)) (\<lambda>h.
              if Some h \<noteq> hash e then fail_without tmp (''source symlink changed while copying '' @ rel_path e) else ret_io ()))
            (on_disk (replace_path dst_root cycle (rel_path e) tmp final_path)))))"

text \<open>\<open>copy_entry\<close> and \<open>copy_single_entry\<close>: both make the parent of the final path first.\<close>

definition copy_single_entry :: "receiver \<Rightarrow> local_source \<Rightarrow> path_buf \<Rightarrow> int \<Rightarrow> SnapshotEntry \<Rightarrow> path_buf \<Rightarrow> unit local_io" where
  "copy_single_entry rc src dst_root cycle e final_path =
     seq_io (on_disk (create_parent final_path))
       (if file_type e = ''file'' then copy_file rc src dst_root cycle e final_path
        else if file_type e = ''symlink'' then copy_symlink rc src dst_root cycle e final_path
        else fail_io (Text (''unsupported entry type '' @ file_type e)))"

definition copy_entry :: "receiver \<Rightarrow> local_source \<Rightarrow> path_buf \<Rightarrow> int \<Rightarrow> SnapshotEntry \<Rightarrow> unit local_io" where
  "copy_entry rc src dst_root cycle e =
     copy_single_entry rc src dst_root cycle e (path_push dst_root (rel_path e))"

section \<open>The pool of copies\<close>

text \<open>What a pass finds on its machine: what the endpoints of \<open>Receive\<close> use, the time and mode the system gave a node
  the program did not set, the source of each entry, and whether the pass is cancelled before its \<open>n\<close>-th copy.\<close>

record local_env =
  machine :: receiver
  system_meta :: "key \<Rightarrow> fs \<Rightarrow> int \<times> u32"
  sources :: "SnapshotEntry \<Rightarrow> local_source"
  stopped :: "nat \<Rightarrow> bool"

definition copy_error_chain :: "SnapshotEntry \<Rightarrow> local_error \<Rightarrow> err_chain" where
  "copy_error_chain e err = (''failed to copy '' @ rel_path e) # (case err of Text text \<Rightarrow> [text] | _ \<Rightarrow> [])"

definition copy_result :: "SnapshotEntry \<Rightarrow> local_error + unit \<Rightarrow> work_result" where
  "copy_result e r = (case r of
       Inr _ \<Rightarrow> Delivered 1 [] []
     | Inl err \<Rightarrow> (case source_changed_paths (copy_error_chain e err) of
           [] \<Rightarrow> Delivered 0 [] [rel_path e]
         | paths \<Rightarrow> Delivered 0 paths []))"

definition copy_item :: "local_env \<Rightarrow> path_buf \<Rightarrow> int \<Rightarrow> SnapshotEntry \<Rightarrow> fs \<Rightarrow> work_result \<times> fs" where
  "copy_item env dst_root cycle e d =
     (case copy_entry (machine env) (sources env e) dst_root cycle e d of (r, d') \<Rightarrow> (copy_result e r, d'))"

text \<open>A rotating disk gets one worker.\<close>

definition copy_workers :: "bool option \<Rightarrow> NativeSyncConfig \<Rightarrow> nat \<Rightarrow> nat" where
  "copy_workers rotational sync entries =
     (if rotational = Some True then 1 else resolve_parallelism (max_parallel_transfers sync) entries)"

definition copy_entries_parallel :: "local_env \<Rightarrow> path_buf \<Rightarrow> int \<Rightarrow> SnapshotEntry list \<Rightarrow> TransferOutcome local_io" where
  "copy_entries_parallel env dst_root cycle entries d =
     (if entries = [] then (Inr \<lparr>transferred = 0, outcome_changing = {}, outcome_failed = []\<rparr>, d)
      else case one_worker (copy_item env dst_root cycle) (stopped env) entries empty_pool d of
        (p, d') \<Rightarrow> (case pool_outcome p of Inl e \<Rightarrow> (Inl (Outcome (PoolError e)), d') | Inr out \<Rightarrow> (Inr out, d')))"

section \<open>Reading back\<close>

text \<open>\<open>snapshot_entry\<close> on the destination. Links are always hashed, files only in checksum mode. A
  comparison does not look at the name of the entry that was read.\<close>

definition node_entry :: "receiver \<Rightarrow> bool \<Rightarrow> int \<times> u32 \<Rightarrow> nat \<Rightarrow> node \<Rightarrow> SnapshotEntry" where
  "node_entry rc checksumming sys dir_size n = (case n of
       Disk.RegularFile w t m \<Rightarrow> \<lparr>rel_path = [], file_type = ''file'', size_of = int (length w),
         mtime_ns = (case t of Some x \<Rightarrow> x | None \<Rightarrow> fst sys), mode_bits = (case m of Some x \<Rightarrow> x | None \<Rightarrow> snd sys),
         hash = (if checksumming then Some (hash_bytes rc w) else None)\<rparr>
     | Directory t m \<Rightarrow> \<lparr>rel_path = [], file_type = ''dir'', size_of = int dir_size,
         mtime_ns = (case t of Some x \<Rightarrow> x | None \<Rightarrow> fst sys), mode_bits = (case m of Some x \<Rightarrow> x | None \<Rightarrow> snd sys), hash = None\<rparr>
     | SymbolicLink target \<Rightarrow> \<lparr>rel_path = [], file_type = ''symlink'', size_of = int (length target),
         mtime_ns = fst sys, mode_bits = snd sys, hash = Some (hash_symlink_target target)\<rparr>)"

definition entry_on_disk :: "local_env \<Rightarrow> bool \<Rightarrow> path_buf \<Rightarrow> fs \<Rightarrow> SnapshotEntry option" where
  "entry_on_disk env checksumming p d =
     map_option (node_entry (machine env) checksumming (system_meta env (locate p) d) (dir_len (machine env) (locate p)))
       (lstat (locate p) d)"

definition verify_copies :: "local_env \<Rightarrow> path_buf \<Rightarrow> SnapshotEntry list \<Rightarrow> string set \<Rightarrow> NativeSyncConfig \<Rightarrow> unit local_io" where
  "verify_copies env dst_root copied ignored sync = (\<lambda>d. lift_err Unverified
     (verify_copied_entries (\<lambda>p. map_option Inr (entry_on_disk env (checksum sync) p d)) dst_root copied
       (sorted_list_of_set ignored) sync) d)"

section \<open>The passes\<close>

definition finally_io :: "('e, 'a) action \<Rightarrow> unit io \<Rightarrow> ('e, 'a) action" where
  "finally_io body cleanup = (\<lambda>d. case body d of (r, d') \<Rightarrow> (r, snd (cleanup d')))"

definition local_cleanup :: "local_env \<Rightarrow> path_buf \<Rightarrow> int \<Rightarrow> NativeSyncConfig \<Rightarrow> unit io" where
  "local_cleanup env dst_root cycle sync =
     seq_io (ok_io (cleanup_tmp_cycle (machine env) dst_root cycle))
       (ok_io (cleanup_expired_trash (machine env) dst_root (trash_keep_days sync)))"

definition path_blocks_directory :: "path_buf \<Rightarrow> fs \<Rightarrow> bool" where
  "path_blocks_directory p d = (case lstat (locate p) d of None \<Rightarrow> False | Some n \<Rightarrow> \<not> is_directory n)"

definition make_directory :: "path_buf \<Rightarrow> int \<Rightarrow> string \<Rightarrow> unit io" where
  "make_directory dst_root cycle rel =
     (let target = path_push dst_root rel in
      seq_io (bind_io (ask (path_blocks_directory target)) (\<lambda>blocked.
          if blocked then move_to_trash dst_root rel cycle else ret_io ()))
        (create_dirs target))"

definition is_dir_entry :: "SnapshotEntry \<Rightarrow> bool" where
  "is_dir_entry e \<longleftrightarrow> file_type e = ''dir''"

definition set_snapshot_dir_mtimes :: "path_buf \<Rightarrow> SnapshotEntry list \<Rightarrow> unit io" where
  "set_snapshot_dir_mtimes dst_root source_snapshot =
     set_dir_mtimes dst_root (map dir_spec (filter is_dir_entry source_snapshot))"

definition fix_mode_of :: "path_buf \<Rightarrow> SnapshotEntry \<Rightarrow> unit io" where
  "fix_mode_of dst_root e = bind_io (safe_join dst_root (rel_path e)) (\<lambda>p. set_mode p (mode_bits e))"

text \<open>The scans read the trees and change nothing.\<close>

type_synonym scan = "fs \<Rightarrow> string + SnapshotEntry list"

definition scan_io :: "scan \<Rightarrow> SnapshotEntry list local_io" where
  "scan_io scan = (\<lambda>d. lift_err TakeSnapshot (scan d) d)"

abbreviation remove_extras :: "path_buf \<Rightarrow> int \<Rightarrow> string list \<Rightarrow> unit local_io" where
  "remove_extras dst_root cycle rels \<equiv> for_io (\<lambda>rel. on_disk (move_to_trash dst_root rel cycle)) rels"

definition sync_destination :: "local_env \<Rightarrow> path_buf \<Rightarrow> int \<Rightarrow> SnapshotEntry list \<Rightarrow> scan \<Rightarrow> path_buf list \<Rightarrow>
    NativeSyncConfig \<Rightarrow> unit local_io" where
  "sync_destination env dst_root cycle source_snapshot scan_dst ex sync =
     seq_io (on_disk (create_dirs dst_root)) (finally_io
       (bind_io (scan_io scan_dst) (\<lambda>dst_snapshot.
          let diff = diff_manifests source_snapshot dst_snapshot ex sync False;
              to_copy = map fst (entries_to_copy diff)
          in seq_io (for_io (\<lambda>e. on_disk (make_directory dst_root cycle (rel_path e))) (filter is_dir_entry source_snapshot))
            (bind_io (copy_entries_parallel env dst_root cycle to_copy) (\<lambda>outcome.
              seq_io (if mirror sync then remove_extras dst_root cycle (extra_paths_deepest_first diff) else ret_io ())
              (seq_io (for_io (\<lambda>e. on_disk (fix_mode_of dst_root e)) (mode_fixes diff))
              (seq_io (on_disk (set_snapshot_dir_mtimes dst_root source_snapshot))
              (seq_io (verify_copies env dst_root to_copy (unverifiable_paths outcome) sync)
                (lift_err Outcome (into_result outcome)))))))))
       (local_cleanup env dst_root cycle sync))"

text \<open>The pass that scans both trees itself. It answers with the source's manifest and the paths it wrote.\<close>

definition missing_directories :: "SnapshotEntry list \<Rightarrow> SnapshotEntry list \<Rightarrow> SnapshotEntry list" where
  "missing_directories source dst = filter (\<lambda>e. is_dir_entry e \<and>
     \<not> (case map_entry_refs dst (rel_path e) of None \<Rightarrow> False | Some x \<Rightarrow> is_dir_entry x)) source"

definition copies :: "SnapshotEntry list \<Rightarrow> SnapshotEntry list \<Rightarrow> NativeSyncConfig \<Rightarrow> bool \<Rightarrow> SnapshotEntry list" where
  "copies source dst sync exact = filter (\<lambda>e. (file_type e = ''file'' \<or> file_type e = ''symlink'') \<and>
     (case map_entry_refs dst (rel_path e) of None \<Rightarrow> True | Some x \<Rightarrow> \<not> entries_match_with e x sync exact)) source"

definition drifted_modes :: "SnapshotEntry list \<Rightarrow> SnapshotEntry list \<Rightarrow> NativeSyncConfig \<Rightarrow> bool \<Rightarrow> SnapshotEntry list" where
  "drifted_modes source dst sync exact = filter (\<lambda>e. case map_entry_refs dst (rel_path e) of None \<Rightarrow> False
     | Some x \<Rightarrow> entries_match_with e x sync exact \<and> entry_mode_differs e x) source"

definition extra_paths :: "SnapshotEntry list \<Rightarrow> SnapshotEntry list \<Rightarrow> path_buf list \<Rightarrow> string list" where
  "extra_paths source dst ex = paths_deepest_first
     (filter (\<lambda>rel. map_entry_refs source rel = None \<and> \<not> is_rel_excluded rel ex) (remdups (map rel_path dst)))"

definition touched_paths :: "SnapshotEntry list \<Rightarrow> SnapshotEntry list \<Rightarrow> path_buf list \<Rightarrow> NativeSyncConfig \<Rightarrow> string set" where
  "touched_paths source dst ex sync = set (map rel_path (missing_directories source dst @ copies source dst sync False
       @ filter (\<lambda>e. file_type e = ''file'') (drifted_modes source dst sync False)))
     \<union> (if mirror sync then set (extra_paths source dst ex) else {})"

definition sync_destination_fast_missing_dirs :: "local_env \<Rightarrow> path_buf \<Rightarrow> int \<Rightarrow> scan \<Rightarrow> scan \<Rightarrow> path_buf list \<Rightarrow>
    NativeSyncConfig \<Rightarrow> (SnapshotEntry list \<times> string set) local_io" where
  "sync_destination_fast_missing_dirs env dst_root cycle scan_src scan_dst ex sync =
     seq_io (on_disk (create_dirs dst_root)) (finally_io
       (bind_io (scan_io scan_dst) (\<lambda>dst.
        bind_io (scan_io scan_src) (\<lambda>source.
          seq_io (for_io (\<lambda>e. on_disk (make_directory dst_root cycle (rel_path e))) (missing_directories source dst))
          (bind_io (copy_entries_parallel env dst_root cycle (copies source dst sync False)) (\<lambda>outcome.
            seq_io (for_io (\<lambda>e. on_disk (fix_mode_of dst_root e))
                (filter (\<lambda>e. file_type e = ''file'') (drifted_modes source dst sync False)))
            (seq_io (if mirror sync then remove_extras dst_root cycle (extra_paths source dst ex) else ret_io ())
            (seq_io (on_disk (set_snapshot_dir_mtimes dst_root source))
            (seq_io (verify_copies env dst_root (copies source dst sync False) (unverifiable_paths outcome) sync)
            (seq_io (lift_err Outcome (into_result outcome))
              (ret_io (source, touched_paths source dst ex sync)))))))))))
       (local_cleanup env dst_root cycle sync))"

section \<open>Changed paths\<close>

text \<open>\<open>add_hash_evidence\<close>: entries that were read again with their hash replace the plain ones, the others
  are appended in the order of their names. What the second look finds is a parameter.\<close>

definition add_hash_evidence :: "SnapshotEntry list \<Rightarrow> SnapshotEntry list \<Rightarrow> SnapshotEntry list" where
  "add_hash_evidence hashed entries =
     (let by_rel = map_entry_refs hashed
      in map (\<lambda>e. case by_rel (rel_path e) of Some upgraded \<Rightarrow> upgraded | None \<Rightarrow> e) entries
        @ List.map_filter by_rel (filter (\<lambda>rel. rel \<notin> rel_path ` set entries) (sort (remdups (map rel_path hashed)))))"

definition evidence_scan :: "NativeSyncConfig \<Rightarrow> DiffPath list \<Rightarrow> scan \<Rightarrow> scan \<Rightarrow> scan" where
  "evidence_scan sync force_hash_paths plain hashed d =
     (case plain d of
        Inl e \<Rightarrow> Inl e
      | Inr entries \<Rightarrow> if checksum sync \<or> force_hash_paths = [] then Inr entries
          else (case hashed d of Inl e \<Rightarrow> Inl e | Inr again \<Rightarrow> Inr (add_hash_evidence again entries)))"

definition mismatched_types :: "SnapshotEntry list \<Rightarrow> SnapshotEntry list \<Rightarrow> string list" where
  "mismatched_types source dst = paths_deepest_first (map rel_path
     (filter (\<lambda>e. case map_entry_refs dst (rel_path e) of None \<Rightarrow> False | Some x \<Rightarrow> file_type x \<noteq> file_type e) source))"

definition changed_extra_paths :: "SnapshotEntry list \<Rightarrow> SnapshotEntry list \<Rightarrow> DiffPath list \<Rightarrow> path_buf list \<Rightarrow> string list" where
  "changed_extra_paths source dst rel_paths ex =
     (let gone = (\<lambda>rel. map_entry_refs source rel = None \<and> \<not> rel_str_is_internal rel \<and> \<not> is_rel_excluded rel ex)
      in remdups_adj (paths_deepest_first
        (filter gone (remdups (map rel_path dst)) @ filter gone (map dp_rel rel_paths))))"

text \<open>The failures of the pool end the pass here, before the modes and the removals; the paths that changed are
  handed on to the caller.\<close>

definition sync_changed_entries_local :: "local_env \<Rightarrow> path_buf \<Rightarrow> int \<Rightarrow> DiffPath list \<Rightarrow> SnapshotEntry list \<Rightarrow>
    SnapshotEntry list \<Rightarrow> path_buf list \<Rightarrow> NativeSyncConfig \<Rightarrow> string set local_io" where
  "sync_changed_entries_local env dst_root cycle rel_paths source dst ex sync =
     seq_io (remove_extras dst_root cycle (mismatched_types source dst))
     (seq_io (for_io (\<lambda>e. on_disk (create_dirs (path_push dst_root (rel_path e)))) (filter is_dir_entry source))
     (bind_io (copy_entries_parallel env dst_root cycle (copies source dst sync True)) (\<lambda>outcome.
       seq_io (case outcome_failed outcome of
           rel # rels \<Rightarrow> fail_io (Outcome (FilesFailed (length (outcome_failed outcome)) rel))
         | [] \<Rightarrow> ret_io ())
       (seq_io (for_io (\<lambda>e. on_disk (fix_mode_of dst_root e)) (drifted_modes source dst sync True))
       (seq_io (if mirror sync then remove_extras dst_root cycle (changed_extra_paths source dst rel_paths ex) else ret_io ())
       (seq_io (on_disk (set_snapshot_dir_mtimes dst_root source))
         (ret_io (outcome_changing outcome))))))))"

definition sync_destination_event_paths :: "local_env \<Rightarrow> path_buf \<Rightarrow> int \<Rightarrow> DiffPath list \<Rightarrow> DiffPath list \<Rightarrow>
    scan \<times> scan \<Rightarrow> scan \<times> scan \<Rightarrow> path_buf list \<Rightarrow> NativeSyncConfig \<Rightarrow> unit local_io" where
  "sync_destination_event_paths env dst_root cycle rel_paths force_hash_paths src_scans dst_scans ex sync =
     (if rel_paths = [] then ret_io ()
      else seq_io (on_disk (create_dirs dst_root)) (finally_io
       (bind_io (scan_io (fst src_scans)) (\<lambda>_.
        bind_io (scan_io (fst dst_scans)) (\<lambda>_.
        bind_io (scan_io (evidence_scan sync force_hash_paths (fst src_scans) (snd src_scans))) (\<lambda>source.
        bind_io (scan_io (evidence_scan sync force_hash_paths (fst dst_scans) (snd dst_scans))) (\<lambda>dst.
        bind_io (sync_changed_entries_local env dst_root cycle rel_paths source dst ex sync) (\<lambda>changing.
        bind_io (scan_io (evidence_scan sync force_hash_paths (fst dst_scans) (snd dst_scans))) (\<lambda>actual.
          seq_io (lift_err Unverified (verify_snapshot_entries source actual (sorted_list_of_set changing) ex sync))
            (lift_err (\<lambda>c. Outcome (SourceChanging c)) (if changing \<noteq> {} then Inl changing else Inr ())))))))))
       (local_cleanup env dst_root cycle sync)))"

section \<open>A single file\<close>

definition verify_file_target :: "local_env \<Rightarrow> path_buf \<Rightarrow> SnapshotEntry \<Rightarrow> NativeSyncConfig \<Rightarrow> unit local_io" where
  "verify_file_target env final_path expected sync = (\<lambda>d.
     case entry_on_disk env (checksum sync) final_path d of
       None \<Rightarrow> (Inl (Unverified (Missing final_path)), d)
     | Some actual \<Rightarrow> if entries_match expected actual sync then (Inr (), d) else (Inl (Unverified (Mismatch final_path)), d))"

text \<open>The look at the source is a parameter: the entry that \<open>snapshot_entry\<close> makes of it.\<close>

definition sync_file_to_path :: "local_env \<Rightarrow> path_buf \<Rightarrow> path_buf \<Rightarrow> int \<Rightarrow> (string \<Rightarrow> string + SnapshotEntry) \<Rightarrow>
    NativeSyncConfig \<Rightarrow> unit local_io" where
  "sync_file_to_path env dst_root final_path cycle look_at sync = finally_io
     (\<lambda>d. case lstat (locate final_path) d of
        Some (Directory t m) \<Rightarrow> (Inl (Text (''destination file target is a directory: '' @ final_path)), d)
      | there \<Rightarrow>
        (case file_name final_path of
           None \<Rightarrow> (Inl (Text (''path has no file name: '' @ final_path)), d)
         | Some name \<Rightarrow>
           (case look_at name of
              Inl e \<Rightarrow> (Inl (TakeSnapshot e), d)
            | Inr entry \<Rightarrow>
              seq_io (if case entry_on_disk env (checksum sync) final_path d of
                    None \<Rightarrow> True | Some existing \<Rightarrow> \<not> entries_match entry existing sync
                  then copy_single_entry (machine env) (sources env entry) dst_root cycle entry final_path else ret_io ())
                (verify_file_target env final_path entry sync) d)))
     (local_cleanup env dst_root cycle sync)"

section \<open>Endpoints\<close>

datatype SourceEndpoint = SourceDir path_buf bool | SourceFile path_buf

datatype DestinationEndpoint = DestinationDir path_buf | DestinationFile path_buf

text \<open>What \<open>lstat\<close> says of the source: nothing, a directory, a file or a link, something else.\<close>

datatype source_kind = IsDir | IsFileOrLink | IsOther

definition resolve_source :: "source_kind option \<Rightarrow> path_buf \<Rightarrow> bool \<Rightarrow> string + SourceEndpoint" where
  "resolve_source kind src add_dir = (case kind of
       None \<Rightarrow> Inl (''failed to read source '' @ src)
     | Some IsDir \<Rightarrow> Inr (SourceDir src add_dir)
     | Some IsFileOrLink \<Rightarrow> Inr (SourceFile src)
     | Some IsOther \<Rightarrow> Inl ''source path is neither a file nor a directory'')"

text \<open>Links in the file system of the destination: \<open>follows p\<close> is what \<open>exists\<close> and \<open>is_dir\<close> see.\<close>

definition resolve_destination :: "receiver \<Rightarrow> (path_buf \<Rightarrow> bool option) \<Rightarrow> (path_buf \<Rightarrow> bool) \<Rightarrow> SourceEndpoint \<Rightarrow> path_buf \<Rightarrow>
    string + DestinationEndpoint" where
  "resolve_destination rc follows is_link source dst =
     (case reject_dangerous_destination (canonical_path rc) dst of
        Inl e \<Rightarrow> Inl e
      | Inr _ \<Rightarrow>
         (case source of
            SourceDir src_root add_dir \<Rightarrow>
              if follows dst = Some False then Inl ''directory source cannot sync to non-directory destination''
              else (case (if add_dir then map_option (path_push dst) (file_name src_root) else Some dst) of
                  None \<Rightarrow> Inl (''source directory has no name: '' @ src_root)
                | Some live_root \<Rightarrow>
                    if is_link live_root
                    then Inl (''destination root '' @ live_root @ '' is a symlink; point the destination at the real path'')
                    else Inr (DestinationDir live_root))
          | SourceFile path \<Rightarrow>
              if follows dst = Some False then Inr (DestinationFile dst) else Inr (DestinationDir dst)))"

text \<open>Both dispatches hand a single file to \<open>sync_file_to_path\<close>; the name of the source names the entry.\<close>

definition sync_one_file :: "local_env \<Rightarrow> path_buf \<Rightarrow> DestinationEndpoint \<Rightarrow> int \<Rightarrow> (string \<Rightarrow> string + SnapshotEntry) \<Rightarrow>
    bool \<Rightarrow> path_buf list \<Rightarrow> NativeSyncConfig \<Rightarrow> unit local_io" where
  "sync_one_file env path dst cycle look_at nothing ex sync =
     (case file_name path of
        None \<Rightarrow> fail_io (Text (''path has no file name: '' @ path))
      | Some name \<Rightarrow>
          if nothing \<or> is_rel_excluded name ex then ret_io ()
          else (case dst of
              DestinationDir root \<Rightarrow> sync_file_to_path env root (path_push root name) cycle look_at sync
            | DestinationFile final_path \<Rightarrow>
                (case path_parent final_path of
                   None \<Rightarrow> fail_io (Text ''destination file path has no parent'')
                 | Some parent \<Rightarrow> sync_file_to_path env parent final_path cycle look_at sync)))"

definition sync_endpoint :: "local_env \<Rightarrow> SourceEndpoint \<Rightarrow> DestinationEndpoint \<Rightarrow> int \<Rightarrow> SnapshotEntry list \<Rightarrow> scan \<Rightarrow>
    (string \<Rightarrow> string + SnapshotEntry) \<Rightarrow> path_buf list \<Rightarrow> NativeSyncConfig \<Rightarrow> unit local_io" where
  "sync_endpoint env source dst cycle source_snapshot scan_dst look_at ex sync =
     (case (source, dst) of
        (SourceDir src_root add_dir, DestinationDir dst_root) \<Rightarrow>
          sync_destination env dst_root cycle source_snapshot scan_dst ex sync
      | (SourceDir src_root add_dir, DestinationFile path) \<Rightarrow>
          fail_io (Text ''directory source cannot sync to a destination file'')
      | (SourceFile path, dst') \<Rightarrow> sync_one_file env path dst' cycle look_at False ex sync)"

definition sync_endpoint_event_paths :: "local_env \<Rightarrow> SourceEndpoint \<Rightarrow> DestinationEndpoint \<Rightarrow> int \<Rightarrow> DiffPath list \<Rightarrow>
    DiffPath list \<Rightarrow> scan \<times> scan \<Rightarrow> scan \<times> scan \<Rightarrow> (string \<Rightarrow> string + SnapshotEntry) \<Rightarrow> path_buf list \<Rightarrow> NativeSyncConfig \<Rightarrow>
    unit local_io" where
  "sync_endpoint_event_paths env source dst cycle rel_paths force_hash_paths src_scans dst_scans look_at ex sync =
     (case (source, dst) of
        (SourceDir src_root add_dir, DestinationDir dst_root) \<Rightarrow>
          sync_destination_event_paths env dst_root cycle rel_paths force_hash_paths src_scans dst_scans ex sync
      | (SourceDir src_root add_dir, DestinationFile path) \<Rightarrow>
          fail_io (Text ''directory source cannot sync to a destination file'')
      | (SourceFile path, dst') \<Rightarrow> sync_one_file env path dst' cycle look_at (rel_paths = []) ex sync)"

end
