(* ===== verification/Local_Facts.thy ===== *)
theory Local_Facts
  imports Local Send_Arrival
begin

text \<open>
  What a local pass leaves behind. A calculus of the keys a run may touch, then the reconcile pass:
  what it copied is at the destination as it was read, what it had to remove is gone, and everything it
  wrote is in the set of touched paths that it reports.
\<close>

section \<open>What a run does to a set of keys\<close>

text \<open>On the keys \<open>K\<close> a run makes only changes \<open>P\<close>, any number of them.\<close>

definition keeps :: "(key \<Rightarrow> bool) \<Rightarrow> (node option \<Rightarrow> node option \<Rightarrow> bool) \<Rightarrow> fs \<Rightarrow> fs \<Rightarrow> bool" where
  "keeps K P d d' \<longleftrightarrow> (\<forall>j. K j \<longrightarrow> P\<^sup>*\<^sup>* (d j) (d' j))"

interpretation keeping_keys: run_relation "keeps K P" for K P
  by unfold_locales (auto simp: keeps_def intro: rtranclp_trans)

lemma keeps_step: "(\<And>j. K j \<Longrightarrow> d' j \<noteq> d j \<Longrightarrow> P (d j) (d' j)) \<Longrightarrow> keeps K P d d'"
  unfolding keeps_def by (metis r_into_rtranclp rtranclp.rtrancl_refl)

context run_relation
begin

lemma obeys_on_disk: "obeys R m \<Longrightarrow> obeys R (on_disk m)"
  unfolding obeys_def on_disk_def by (auto split: prod.splits sum.splits) (metis snd_conv)+

lemma obeys_scan: "obeys R (scan_io scan)"
  using obeys_basic(5) [of TakeSnapshot] by (auto simp: obeys_def scan_io_def)

lemma obeys_verify: "obeys R (verify_copies env root copied ignored sync)"
  using obeys_basic(5) [of Unverified] by (auto simp: obeys_def verify_copies_def)

lemma obeys_sum: "(\<And>e. r = Inl e \<Longrightarrow> obeys R (f e)) \<Longrightarrow> (\<And>x. r = Inr x \<Longrightarrow> obeys R (g x)) \<Longrightarrow>
    obeys R (case r of Inl e \<Rightarrow> f e | Inr x \<Rightarrow> g x)"
  by (simp split: sum.splits)

lemma one_worker_obeys:
  assumes "\<And>w d. w \<in> set ws \<Longrightarrow> R d (snd (item w d))"
  shows "R d (snd (one_worker item stop ws p d))"
  using assms
proof (induction ws arbitrary: p d)
  case (Cons w ws)
  obtain r d1 where run: "item w d = (r, d1)" by fastforce
  then have "R d d1" using Cons.prems [of w d] by simp
  moreover have "R d1 (snd (one_worker item stop ws q d1))" for q using Cons.IH [of d1 q] Cons.prems by simp
  ultimately show ?case using run by (auto intro: R_trans R_refl)
qed (simp add: R_refl)

lemmas local_intros = obeys_intros obeys_on_disk obeys_scan obeys_verify obeys_sum

end

lemma make_dirs_changes: "snd (make_dirs pre xs d) j \<noteq> d j \<Longrightarrow>
    below j (pre @ xs) \<and> d j = None \<and> snd (make_dirs pre xs d) j = Some (Directory None None)"
proof (induction pre xs d rule: make_dirs.induct)
  case (2 pre x xs d)
  show ?case
  proof (cases "d (pre @ [x])")
    case None
    let ?d = "d(pre @ [x] \<mapsto> Directory None None)"
    show ?thesis
    proof (cases "snd (make_dirs (pre @ [x]) xs ?d) j = ?d j")
      case True
      with "2.prems" None show ?thesis by (auto simp: below_iff split: if_splits)
    next
      case False
      from "2.IH"(1) [OF None False] have "?d j = None" by simp
      with "2.IH"(1) [OF None False] have "j \<noteq> pre @ [x]" "d j = None" "below j (pre @ x # xs)" by (auto split: if_splits)
      moreover have "snd (make_dirs pre (x # xs) d) = snd (make_dirs (pre @ [x]) xs ?d)" using None by simp
      ultimately show ?thesis using "2.IH"(1) [OF None False] by presburger
    qed
  next
    case (Some n)
    then show ?thesis using 2 by (cases n) auto
  qed
qed simp

lemma create_dir_all_changes: "snd (create_dir_all k d) j \<noteq> d j \<Longrightarrow>
    below j k \<and> d j = None \<and> snd (create_dir_all k d) j = Some (Directory None None)"
  using make_dirs_changes [of "[]" k d j] by (simp add: create_dir_all_def)

lemma make_dirs_at: "make_dirs pre xs d = (Inr (), d') \<Longrightarrow> dir_at pre d \<Longrightarrow> dir_at (pre @ xs) d'"
proof (induction pre xs d rule: make_dirs.induct)
  case (2 pre x xs d)
  show ?case
  proof (cases "d (pre @ [x])")
    case None
    then have "make_dirs (pre @ [x]) xs (d(pre @ [x] \<mapsto> Directory None None)) = (Inr (), d')" using "2.prems" by simp
    moreover have "dir_at (pre @ [x]) (d(pre @ [x] \<mapsto> Directory None None))" by simp
    ultimately show ?thesis using "2.IH"(1) [OF None] by (metis append.assoc append_Cons append_Nil)
  next
    case (Some n)
    then show ?thesis using 2 by (cases n) (auto simp: dir_at_def)
  qed
qed simp

text \<open>The keys of the user below the root.\<close>

definition user_key :: "path_buf \<Rightarrow> key \<Rightarrow> bool" where
  "user_key root j \<longleftrightarrow> (\<exists>ws. ws \<noteq> [] \<and> hd ws \<noteq> INTERNAL_TMP \<and> hd ws \<noteq> INTERNAL_TRASH \<and> j = locate root @ ws)"

lemma user_key_apart:
  assumes "user_key root j"
  shows "\<not> below (locate root @ INTERNAL_TMP # ks) j" "\<not> below (locate root @ INTERNAL_TRASH # ks) j"
    "\<not> below j (locate root @ INTERNAL_TMP # ks)" "\<not> below j (locate root @ INTERNAL_TRASH # ks)" "\<not> below j (locate root)"
  using assms by (auto simp: user_key_def below_iff append_eq_append_conv2 Cons_eq_append_conv append_eq_Cons_conv)

definition user_rel :: "string \<Rightarrow> string list \<Rightarrow> bool" where
  "user_rel rel ws \<longleftrightarrow> plain_rel rel ws \<and> hd ws \<noteq> INTERNAL_TMP \<and> hd ws \<noteq> INTERNAL_TRASH"

text \<open>The steps of the program, for keys of the user.\<close>

lemma keeps_calls:
  assumes "\<And>j. K j \<Longrightarrow> user_key root j"
  shows "(\<And>j. K j \<Longrightarrow> below j k \<Longrightarrow> P None (Some (Directory None None))) \<Longrightarrow> obeys (keeps K P) (call (create_dir_all k))"
    and "(\<And>j. K j \<Longrightarrow> \<not> below (locate p) j) \<Longrightarrow> obeys (keeps K P) (remove_any p)"
    and "\<not> K k \<Longrightarrow> obeys (keeps K P) (call (write_file k w))"
    and "\<not> K k \<Longrightarrow> obeys (keeps K P) (call (update_file k f))"
    and "\<not> K k \<Longrightarrow> obeys (keeps K P) (call (symlink target k))"
    and "(\<And>j x. K j \<Longrightarrow> below a j \<Longrightarrow> P x None) \<Longrightarrow> (\<And>j. K j \<Longrightarrow> \<not> below b j) \<Longrightarrow> obeys (keeps K P) (call (rename a b))"
    and "(\<And>j x. K j \<Longrightarrow> below a j \<Longrightarrow> P x None) \<Longrightarrow> (\<And>j. K j \<Longrightarrow> \<not> below b j) \<Longrightarrow> obeys (keeps K P) (rename_if_there a b)"
proof -
  show "obeys (keeps K P) (call (create_dir_all k))" if "\<And>j. K j \<Longrightarrow> below j k \<Longrightarrow> P None (Some (Directory None None))"
    by (rule keeping_keys.obeys_call, rule keeps_step) (metis create_dir_all_changes that)
  show "obeys (keeps K P) (remove_any p)" if "\<And>j. K j \<Longrightarrow> \<not> below (locate p) j"
    using that by (auto simp: obeys_def remove_any_def remove_tree_def intro!: keeps_step split: if_splits)
  show "obeys (keeps K P) (call (write_file k w))" if "\<not> K k"
    using that by (auto intro!: keeping_keys.obeys_call keeps_step simp: write_file_def split: option.splits node.splits if_splits)
  show "obeys (keeps K P) (call (update_file k f))" if "\<not> K k"
    using that by (auto intro!: keeping_keys.obeys_call keeps_step simp: update_file_def split: option.splits node.splits if_splits)
  show "obeys (keeps K P) (call (symlink target k))" if "\<not> K k"
    using that by (auto intro!: keeping_keys.obeys_call keeps_step simp: symlink_def split: option.splits node.splits if_splits)
  have ren: "keeps K P d (snd (rename a b d))" if "\<And>j x. K j \<Longrightarrow> below a j \<Longrightarrow> P x None" "\<And>j. K j \<Longrightarrow> \<not> below b j" for d
    using that by (auto intro!: keeps_step simp: rename_def moved_def split: option.splits if_splits)
  show "obeys (keeps K P) (call (rename a b))" if "\<And>j x. K j \<Longrightarrow> below a j \<Longrightarrow> P x None" "\<And>j. K j \<Longrightarrow> \<not> below b j"
    by (rule keeping_keys.obeys_call) (rule ren [OF that])
  have "snd (rename_if_there a b d) = snd (rename a b d)" for d
    by (auto simp: rename_if_there_def split: prod.splits sum.splits io_error.splits)
  then show "obeys (keeps K P) (rename_if_there a b)" if "\<And>j x. K j \<Longrightarrow> below a j \<Longrightarrow> P x None" "\<And>j. K j \<Longrightarrow> \<not> below b j"
    using ren [OF that] by (simp add: obeys_def)
qed

section \<open>Times and modes\<close>

definition alike :: "node \<Rightarrow> node \<Rightarrow> bool" where
  "alike a b \<longleftrightarrow> (case a of
       Disk.RegularFile w t m \<Rightarrow> (\<exists>t' m'. b = Disk.RegularFile w t' m')
     | Directory t m \<Rightarrow> is_directory b
     | SymbolicLink p \<Rightarrow> b = SymbolicLink p)"

lemma keeps_meta:
  assumes "\<And>n n'. alike n n' \<Longrightarrow> P (Some n) (Some n')"
  shows "obeys (keeps K P) (set_mode p m)" and "obeys (keeps K P) (set_file_mtime p t)"
proof -
  have "keeps K P d (snd (set_permissions k m d))" "keeps K P d (snd (set_file_times k t' d))" for k t' d
    by (auto intro!: keeps_step assms simp: set_permissions_def set_file_times_def alike_def is_directory_def
        split: option.splits node.splits if_splits)
  then show "obeys (keeps K P) (set_mode p m)" "obeys (keeps K P) (set_file_mtime p t)"
    by (auto simp: set_mode_def set_file_mtime_def intro!: keeping_keys.obeys_call keeping_keys.obeys_basic split: prod.splits)
qed

lemma keeps_dir_mtimes:
  assumes "\<And>n n'. alike n n' \<Longrightarrow> P (Some n) (Some n')"
  shows "obeys (keeps K P) (set_snapshot_dir_mtimes root source)"
  unfolding set_snapshot_dir_mtimes_def set_dir_mtimes_def dir_path_def safe_join_def
  by (intro keeping_keys.local_intros keeps_meta assms)

lemma keeps_fix_mode:
  assumes "\<And>n n'. alike n n' \<Longrightarrow> P (Some n) (Some n')"
  shows "obeys (keeps K P) (fix_mode_of root e)"
  unfolding fix_mode_of_def safe_join_def by (intro keeping_keys.local_intros keeps_meta assms)

section \<open>Removals\<close>

lemma keeps_trash:
  assumes "plain_rel rel ws" and "root \<noteq> ''''" and user: "\<And>j. K j \<Longrightarrow> user_key root j"
    and gone: "\<And>j x. K j \<Longrightarrow> below (locate root @ ws) j \<Longrightarrow> P x None"
  shows "obeys (keeps K P) (move_to_trash root rel cycle)"
proof -
  let ?t = "path_push (path_push (path_push root INTERNAL_TRASH) (show_i64 cycle)) rel"
  note key = trash_path_key [OF assms(1,2) refl, of cycle]
  have apart: "\<not> below (trash_key root cycle ws) j" "\<not> below j (butlast (trash_key root cycle ws))" if "K j" for j
    using user_key_apart [OF user [OF that]] assms(1)
    by (auto simp: trash_key_def butlast_append plain_rel_def)
  have dirs: "obeys (keeps K P) (call (create_dir_all (butlast (trash_key root cycle ws))))"
    by (rule keeps_calls(1)) (use user apart in auto)
  have old: "obeys (keeps K P) (remove_any ?t)" by (rule keeps_calls(2)) (use user apart key in auto)
  have ren: "obeys (keeps K P) (rename_if_there (locate (path_push root rel)) (trash_key root cycle ws))"
    by (rule keeps_calls(7)) (use user apart gone locate_join [OF assms(1), of root] in auto)
  show ?thesis unfolding move_to_trash_def Let_def key
    by (intro keeping_keys.obeys_intros dirs old ren)
qed

lemma trash_gone:
  assumes "plain_rel rel ws" and "root \<noteq> ''''" and run: "move_to_trash root rel cycle d = (Inr (), d')"
  shows "d' (locate root @ ws) = None"
proof (cases "d (locate root @ ws) = None")
  case True
  then show ?thesis using run trash_absent [OF assms(1), of d root cycle] by simp
next
  case False
  let ?t = "path_push (path_push (path_push root INTERNAL_TRASH) (show_i64 cycle)) rel"
  let ?a = "locate root @ ws" and ?k = "trash_key root cycle ws"
  note key = trash_path_key [OF assms(1,2) refl, of cycle]
  have k: "?k = butlast ?k @ [last ?k]" by simp
  have nbk: "\<not> below ?k (butlast ?k)" using k by (metis below_antisym below_append not_Cons_self2 append_self_conv)
  have na: "\<not> below ?k ?a" by (rule trash_not_below)
  from run False obtain d1 d2 where made: "create_dir_all (butlast ?k) d = (Inr (), d1)"
    and d2: "d2 = d1 \<or> d2 = remove_tree ?k d1"
    and ren: "rename_if_there ?a ?k d2 = (Inr (), d')"
    unfolding move_to_trash_def Let_def key present_join [OF assms(1)]
    by (auto simp: bind_ask seq_io_Inr call_Inr present_join [OF assms(1)] key locate_join [OF assms(1), of root]
        remove_any_def basic_io_Inr split: if_splits)
  have "dir_at (butlast ?k) d1" using make_dirs_at [of "[]"] made by (simp add: create_dir_all_def)
  then have dir: "dir_at (butlast ?k) d2"
    using d2 nbk dir_at_cong [of "butlast ?k" "remove_tree ?k d1" d1] by (auto simp: remove_tree_def)
  obtain r d3 where r: "rename ?a ?k d2 = (r, d3)" by fastforce
  show ?thesis
  proof (cases r)
    case (Inl e)
    with r ren have "e = NotFound" "d' = d3" by (auto simp: rename_if_there_def split: io_error.splits)
    then show ?thesis using r Inl dir by (auto simp: rename_def dir_at_iff split: option.splits if_splits)
  next
    case (Inr u)
    then have "d' = d3" using r ren by (auto simp: rename_if_there_def)
    moreover have "rename ?a ?k d2 = (Inr (), d3)" using r Inr by simp
    from rename_effect(4) [OF this, of "[]"] have "d3 ?a = None" using na by (metis append_Nil2 below_refl(1))
    ultimately show ?thesis by simp
  qed
qed

text \<open>What is removed stays removed.\<close>

definition stays_gone :: "node option \<Rightarrow> node option \<Rightarrow> bool" where
  "stays_gone x y \<longleftrightarrow> (x = None \<longrightarrow> y = None)"

lemma stays_gone_star: "stays_gone\<^sup>*\<^sup>* x y \<Longrightarrow> x = None \<Longrightarrow> y = None"
  by (induction rule: rtranclp_induct) (auto simp: stays_gone_def)

lemma keeps_gone: "keeps (\<lambda>j. j = k) stays_gone d d' \<Longrightarrow> d k = None \<Longrightarrow> d' k = None"
  unfolding keeps_def using stays_gone_star by blast

lemma snd_on_disk: "snd (on_disk m d) = snd (m d)"
  by (simp add: on_disk_def split: prod.splits sum.splits)

lemma on_disk_Inr: "on_disk m d = (Inr x, d') \<longleftrightarrow> m d = (Inr x, d')"
  by (auto simp: on_disk_def split: prod.splits sum.splits)

lemma user_rel_key: "user_rel rel ws \<Longrightarrow> user_key root (locate root @ ws)"
  by (auto simp: user_rel_def user_key_def plain_rel_def)

lemma extras_gone:
  assumes "remove_extras root cycle rels d = (Inr (), d')" and "root \<noteq> ''''"
    and user: "\<And>rel. rel \<in> set rels \<Longrightarrow> \<exists>ws. user_rel rel ws"
    and "rel \<in> set rels" and "plain_rel rel ws"
  shows "d' (locate root @ ws) = None"
  using assms(1,3,4)
proof (induction rels arbitrary: d)
  case (Cons r rels)
  from Cons.prems(1) obtain d1 where one: "move_to_trash root r cycle d = (Inr (), d1)"
    and rest: "remove_extras root cycle rels d1 = (Inr (), d')"
    by (auto simp: seq_io_Inr on_disk_Inr)
  show ?case
  proof (cases "rel \<in> set rels")
    case True
    then show ?thesis using Cons.IH [OF rest] Cons.prems(2) by auto
  next
    case False
    then have "r = rel" using Cons.prems(3) by simp
    then have gone: "d1 (locate root @ ws) = None" using trash_gone [OF assms(5,2)] one by simp
    from user assms(4,5) have "user_rel rel ws" using plain_unique unfolding user_rel_def by metis
    note key = user_rel_key [OF this]
    have "obeys (keeps (\<lambda>j. j = locate root @ ws) stays_gone) (remove_extras root cycle rels)"
    proof (intro keeping_keys.local_intros)
      fix x assume "x \<in> set rels"
      then obtain vs where "user_rel x vs" using Cons.prems(2) [of x] by auto
      then show "obeys (keeps (\<lambda>j. j = locate root @ ws) stays_gone) (move_to_trash root x cycle)"
        using keeps_trash [of x vs root "\<lambda>j. j = locate root @ ws" stays_gone cycle] assms(2) key
        by (auto simp: user_rel_def stays_gone_def)
    qed
    then have "keeps (\<lambda>j. j = locate root @ ws) stays_gone d1 d'"
      using rest unfolding obeys_def by (metis snd_conv)
    from keeps_gone [OF this gone] show ?thesis .
  qed
qed simp

section \<open>Cleaning up\<close>

lemma keeps_sweep:
  assumes "\<And>j. K j \<Longrightarrow> user_key root j" and "lists_names rc" and "dir = INTERNAL_TMP \<or> dir = INTERNAL_TRASH"
  shows "obeys (keeps K P) (sweep_aged_subdirs rc (path_push root dir) days keep)"
proof -
  have v: "valid_name dir" using assms(3) valid_internal by auto
  have one: "obeys (keeps K P) (remove_any (path_push (path_push root dir) n))" if "valid_name n" for n
    using keeps_calls(2) [of K root] user_key_apart [OF assms(1)] assms(1,3) v that
    by (auto simp: locate_push_valid)
  have all: "obeys (keeps K P) (for_io (\<lambda>name. if (case keep of None \<Rightarrow> False | Some k \<Rightarrow> name = show_i64 k) then ret_io ()
       else bind_io (ask (modified_at rc (locate (path_push (path_push root dir) name)))) (\<lambda>modified. case modified of
           None \<Rightarrow> ret_io ()
         | Some t \<Rightarrow> if t < sweep_cutoff rc days then ok_io (remove_any (path_push (path_push root dir) name))
             else ret_io ())) ns)" if "read_dir_names rc k d = Some ns" for ns k d
    using assms(2) that by (intro keeping_keys.obeys_intros one) (force simp: lists_names_def)
  show ?thesis unfolding sweep_aged_subdirs_def
    by (rule keeping_keys.obeys_bind_known)
      (auto simp: run_simps keeping_keys.obeys_basic intro: all split: option.splits)
qed

lemma keeps_remove_dir:
  assumes "\<And>j. K j \<Longrightarrow> user_key root j" and "dir = INTERNAL_TMP \<or> dir = INTERNAL_TRASH"
  shows "obeys (keeps K P) (remove_dir (path_push root dir))"
  using user_key_apart [OF assms(1)] assms(2) valid_internal
  by (auto simp: obeys_def remove_dir_def remove_tree_def locate_push_valid intro!: keeps_step split: if_splits)

lemma keeps_cleanup:
  assumes "\<And>j. K j \<Longrightarrow> user_key root j" and "lists_names (machine env)"
  shows "obeys (keeps K P) (local_cleanup env root cycle sync)"
proof -
  have "obeys (keeps K P) (remove_any (path_push (path_push root INTERNAL_TMP) (show_i64 cycle)))"
    using keeps_calls(2) [of K root] user_key_apart [OF assms(1)] assms(1)
    by (auto simp: locate_push_valid valid_internal valid_show_i64)
  then show ?thesis unfolding local_cleanup_def cleanup_tmp_cycle_def cleanup_expired_trash_def Let_def
    by (intro keeping_keys.obeys_intros keeps_sweep keeps_remove_dir assms) simp_all
qed

section \<open>Copying\<close>

lemma push_parent:
  assumes "plain_rel rel ws" and "base \<noteq> ''''"
  shows "create_parent (path_push base rel) = call (create_dir_all (locate base @ butlast ws))"
proof -
  have "inner_components rel = filter (\<lambda>c. c \<noteq> CurDir) (components rel)"
    using plain_relative [OF assms(1)] inner_components_inner [of rel]
    by (auto simp: components_def Let_def inner_def list_all_iff filter_id_conv split: component.splits)
  then have "components (path_push base rel) = components base @ map Normal ws"
    using components_push [OF plain_relative [OF assms(1)] assms(2)] assms(1) by (simp add: plain_rel_def)
  then show ?thesis using final_parent [of "path_push base rel" base ws] assms(1) locate_join [OF assms(1), of base]
    by (simp add: plain_rel_def butlast_append)
qed

text \<open>Copying an entry changes, among the user's keys, only what lies at or below its path, and makes the directories above.\<close>

lemma keeps_copy_entry:
  assumes "user_rel (rel_path e) ws" and "root \<noteq> ''''" and user: "\<And>j. K j \<Longrightarrow> user_key root j"
    and apart: "\<And>j. K j \<Longrightarrow> \<not> below (locate root @ ws) j"
    and dirs: "P None (Some (Directory None None))" and meta: "\<And>n n'. alike n n' \<Longrightarrow> P (Some n) (Some n')"
  shows "obeys (keeps K P) (copy_entry rc src root cycle e)"
proof -
  have plain: "plain_rel (rel_path e) ws" using assms(1) by (simp add: user_rel_def)
  let ?t = "tmp_of rc root cycle (rel_path e)"
  note key = tmp_of_key [OF plain, of rc root cycle]
  have below_tmp: "\<not> below (tmp_key rc root cycle ws) j" if "K j" for j
    using user_key_apart(1) [OF user [OF that]] by (simp add: tmp_key_def)
  then have tmp: "\<not> K (tmp_key rc root cycle ws)" "\<And>j. K j \<Longrightarrow> \<not> below (tmp_key rc root cycle ws) j"
    using below_refl(1) by blast+
  have mk: "obeys (keeps K P) (call (create_dir_all k))" for k by (rule keeps_calls(1)) (use user dirs in auto)
  have rem: "obeys (keeps K P) (remove_any ?t)" by (rule keeps_calls(2)) (use user tmp key in auto)
  note prims = mk rem keeps_calls(3-5) [where K = K and P = P and root = root, OF user tmp(1)]
  have clear: "obeys (keeps K P) (clear_tmp ?t)" unfolding clear_tmp_def key(2) by (intro keeping_keys.local_intros prims)
  have append: "obeys (keeps K P) (append_bytes ?t w)" for w unfolding append_bytes_def key by (rule prims(4))
  have ranges: "obeys (keeps K P) (copy_ranges ?t n b es)" for n b es
    by (induction ?t n b es rule: copy_ranges.induct) (simp_all add: keeping_keys.obeys_basic keeping_keys.obeys_seq append)
  have stream: "obeys (keeps K P) (stream_loop ?t es)" for es
    by (induction ?t es rule: stream_loop.induct) (simp_all add: keeping_keys.obeys_basic keeping_keys.obeys_seq append)
  have data: "obeys (keeps K P) (copy_file_data src ?t)" unfolding copy_file_data_def linux_fast_copy_def stream_copy_def key
    by (intro keeping_keys.local_intros prims append ranges stream)
  have fails: "obeys (keeps K P) (fail_without ?t x)" for x unfolding fail_without_def by (intro keeping_keys.local_intros rem)
  have "obeys (keeps K P) (call (rename (locate ?t) (locate (path_push root (rel_path e)))))"
    by (rule keeps_calls(6)) (use user tmp apart key locate_join [OF plain, of root] in auto)
  moreover have "obeys (keeps K P) (move_to_trash root (rel_path e) cycle)"
    by (rule keeps_trash [OF plain assms(2) user]) (use apart in auto)
  then have "obeys (keeps K P) (\<lambda>d. case (lstat (locate ?t) d, lstat (locate (path_push root (rel_path e))) d) of
       (Some t, Some f) \<Rightarrow> if same_kind t f then (Inr (), d) else move_to_trash root (rel_path e) cycle d
     | _ \<Rightarrow> (Inl (Io NotFound), d))"
    by (auto simp: obeys_def keeping_keys.R_refl split: option.splits)
  ultimately have publish: "obeys (keeps K P) (replace_path root cycle (rel_path e) ?t (path_push root (rel_path e)))"
    unfolding replace_path_def by (intro keeping_keys.local_intros)
  show ?thesis
    unfolding copy_entry_def copy_single_entry_def copy_file_def copy_symlink_def Let_def push_parent [OF plain assms(2)] hash_file_def hash_symlink_def
    by (intro keeping_keys.local_intros prims clear data fails publish keeps_meta meta) (simp_all add: key prims)
qed

section \<open>The reconcile pass\<close>

definition user_manifest :: "SnapshotEntry list \<Rightarrow> bool" where
  "user_manifest es \<longleftrightarrow> (\<forall>e\<in>set es. \<exists>ws. user_rel (rel_path e) ws)"

text \<open>A node that the exact comparison takes for the entry, whatever the system keeps of it on its own.\<close>

definition reads_as :: "receiver \<Rightarrow> NativeSyncConfig \<Rightarrow> SnapshotEntry \<Rightarrow> node \<Rightarrow> bool" where
  "reads_as rc sync e n \<longleftrightarrow> (\<exists>sys sz. entries_match_exact e (node_entry rc (checksum sync) sys sz n) sync)"

lemma reads_asI: "entries_match_exact e (node_entry rc (checksum sync) sys sz n) sync \<Longrightarrow> reads_as rc sync e n"
  by (auto simp: reads_as_def simp del: split_paired_Ex)

text \<open>No more than a directory made on the way, or a time or mode set.\<close>

definition settled :: "node option \<Rightarrow> node option \<Rightarrow> bool" where
  "settled x y \<longleftrightarrow> (case x of None \<Rightarrow> y = None \<or> (\<exists>n. y = Some n \<and> is_directory n)
     | Some n \<Rightarrow> \<exists>n'. y = Some n' \<and> alike n n')"

lemma alike_trans: "alike a b \<Longrightarrow> alike b c \<Longrightarrow> alike a c"
  by (cases a; cases b) (auto simp: alike_def is_directory_def split: node.splits)

lemma alike_directory: "alike a b \<Longrightarrow> is_directory a \<Longrightarrow> is_directory b"
  by (cases a) (auto simp: alike_def is_directory_def)

lemma alike_refl: "alike a a"
  by (cases a) (auto simp: alike_def is_directory_def)

lemma settled_star: "settled\<^sup>*\<^sup>* x y \<longleftrightarrow> settled x y"
proof
  show "settled x y" if "settled\<^sup>*\<^sup>* x y"
    using that
  proof induction
    case base
    then show ?case by (auto simp: settled_def alike_refl split: option.splits)
  next
    case (step y z)
    then show ?case
      by (auto simp: settled_def split: option.splits intro: alike_trans alike_directory)
  qed
qed blast

lemma verified_copies:
  assumes "verify_copied_entries read root copied [] sync = Inr ()" and "e \<in> set copied" and "file_type e \<noteq> ''dir''"
  shows "\<exists>p got. safe_join_rel root (rel_path e) = Inr p \<and> read p = Some (Inr got) \<and> entries_match_exact e got sync"
  using assms
proof (induction copied)
  case (Cons x copied)
  then show ?case by (auto split: if_splits sum.splits option.splits)
qed simp

lemma clean_outcome: "into_result out = Inr () \<Longrightarrow> unverifiable_paths out = {}"
  by (auto simp: into_result_def unverifiable_paths_def split: list.splits if_splits)

lemma copy_pool_obeys:
  assumes "\<And>e. e \<in> set entries \<Longrightarrow> obeys (keeps K P) (copy_entry (machine env) (sources env e) root cycle e)"
    and run: "copy_entries_parallel env root cycle entries d = (Inr out, d')"
  shows "keeps K P d d'"
proof (cases "entries = []")
  case True
  then show ?thesis using run by (simp add: copy_entries_parallel_def keeping_keys.R_refl)
next
  case False
  have "keeps K P d (snd (one_worker (copy_item env root cycle) (stopped env) entries empty_pool d))"
    by (rule keeping_keys.one_worker_obeys) (use assms(1) in \<open>auto simp: copy_item_def obeys_def split: prod.splits\<close>,
      metis snd_conv)
  then show ?thesis using run False by (auto simp: copy_entries_parallel_def split: prod.splits sum.splits)
qed

lemma obeysD: "obeys R m \<Longrightarrow> m d = (r, d') \<Longrightarrow> R d d'"
  unfolding obeys_def by (metis snd_conv)

lemma finally_Inr: "finally_io body cleanup d = (Inr x, d') \<longleftrightarrow> (\<exists>d1. body d = (Inr x, d1) \<and> d' = snd (cleanup d1))"
  by (auto simp: finally_io_def split: prod.splits)

lemma scan_Inr: "scan_io scan d = (Inr es, d') \<longleftrightarrow> scan d = Inr es \<and> d' = d"
  by (auto simp: scan_io_def lift_err_Inr)

lemma verify_Inr: "verify_copies env root copied ignored sync d = (Inr (), d') \<longleftrightarrow> d' = d \<and>
    verify_copied_entries (\<lambda>p. map_option Inr (entry_on_disk env (checksum sync) p d)) root copied (sorted_list_of_set ignored) sync = Inr ()"
  by (auto simp: verify_copies_def lift_err_Inr)

text \<open>The steps of the pass.\<close>

lemma reconcile_steps:
  assumes "sync_destination_fast_missing_dirs env root cycle scan_src scan_dst ex sync d = (Inr (source, written), d')"
  obtains dst d0 d1 out d2 d3 d4 d5 where "create_dirs root d = (Inr (), d0)" "scan_dst d0 = Inr dst" "scan_src d0 = Inr source"
    "for_io (\<lambda>e. on_disk (make_directory root cycle (rel_path e))) (missing_directories source dst) d0 = (Inr (), d1)"
    "copy_entries_parallel env root cycle (copies source dst sync False) d1 = (Inr out, d2)"
    "for_io (\<lambda>e. on_disk (fix_mode_of root e)) (filter (\<lambda>e. file_type e = ''file'') (drifted_modes source dst sync False)) d2 = (Inr (), d3)"
    "if mirror sync then remove_extras root cycle (extra_paths source dst ex) d3 = (Inr (), d4) else d4 = d3"
    "set_snapshot_dir_mtimes root source d4 = (Inr (), d5)"
    "verify_copied_entries (\<lambda>p. map_option Inr (entry_on_disk env (checksum sync) p d5)) root (copies source dst sync False) [] sync = Inr ()"
    "written = touched_paths source dst ex sync" "d' = snd (local_cleanup env root cycle sync d5)"
proof -
  from assms show ?thesis
    unfolding sync_destination_fast_missing_dirs_def
    apply (clarsimp simp: seq_io_Inr bind_io_Inr finally_Inr scan_Inr on_disk_Inr if_io_Inr verify_Inr lift_err_Inr basic_io_Inr)
    apply (rule that)
              apply assumption+
       apply (auto simp: clean_outcome basic_io_Inr split: if_splits)
    done
qed

lemma create_dirs_keeps: "P None (Some (Directory None None)) \<Longrightarrow> obeys (keeps K P) (create_dirs p)"
  unfolding create_dirs_def
  by (rule keeping_keys.obeys_call, rule keeps_step) (metis create_dir_all_changes)

text \<open>The user's keys that no path of the set covers.\<close>

definition uncovered :: "path_buf \<Rightarrow> string set \<Rightarrow> key \<Rightarrow> bool" where
  "uncovered root rels j \<longleftrightarrow> user_key root j \<and> (\<forall>rel\<in>rels. \<forall>ws. plain_rel rel ws \<longrightarrow> \<not> below (locate root @ ws) j)"

lemma settled_intros:
  "settled None (Some (Directory None None))" "alike n n' \<Longrightarrow> settled (Some n) (Some n')"
  by (simp_all add: settled_def is_directory_def)

lemma uncovered_trash:
  assumes "rel \<in> rels" and "user_rel rel ws" and "root \<noteq> ''''"
  shows "obeys (keeps (uncovered root rels) P) (move_to_trash root rel cycle)"
  using assms by (intro keeps_trash [of rel ws]) (auto simp: user_rel_def uncovered_def)

lemma uncovered_copy:
  assumes "rel_path e \<in> rels" and "user_rel (rel_path e) ws" and "root \<noteq> ''''"
  shows "obeys (keeps (uncovered root rels) settled) (copy_entry rc src root cycle e)"
  using assms by (intro keeps_copy_entry [of e ws]) (auto simp: user_rel_def uncovered_def settled_intros)

lemma uncovered_extras:
  assumes "\<And>rel. rel \<in> set xs \<Longrightarrow> rel \<in> rels \<and> (\<exists>ws. user_rel rel ws)" and "root \<noteq> ''''"
  shows "obeys (keeps (uncovered root rels) P) (remove_extras root cycle xs)"
  by (rule keeping_keys.obeys_for, rule keeping_keys.obeys_on_disk) (use assms uncovered_trash in blast)

lemma uncovered_directories:
  assumes "\<And>e. e \<in> set es \<Longrightarrow> rel_path e \<in> rels \<and> (\<exists>ws. user_rel (rel_path e) ws)" and "root \<noteq> ''''"
  shows "obeys (keeps (uncovered root rels) settled) (for_io (\<lambda>e. on_disk (make_directory root cycle (rel_path e))) es)"
proof (rule keeping_keys.obeys_for, rule keeping_keys.obeys_on_disk)
  fix e assume "e \<in> set es"
  from assms(1) [OF this] obtain ws where "rel_path e \<in> rels" "user_rel (rel_path e) ws" by blast
  note trash = uncovered_trash [OF this assms(2)]
  show "obeys (keeps (uncovered root rels) settled) (make_directory root cycle (rel_path e))"
    unfolding make_directory_def Let_def
    by (intro keeping_keys.local_intros trash create_dirs_keeps settled_intros)
qed

lemma extra_paths_set: "set (extra_paths source dst ex) \<subseteq> rel_path ` set dst"
  by (auto simp: extra_paths_def paths_deepest_first_def)

lemma reconcile_settles:
  assumes run: "sync_destination_fast_missing_dirs env root cycle scan_src scan_dst ex sync d = (Inr (source, written), d')"
    and "root \<noteq> ''''" and "lists_names (machine env)"
    and scans: "\<And>d es. scan_src d = Inr es \<or> scan_dst d = Inr es \<Longrightarrow> user_manifest es"
  shows "keeps (uncovered root written) settled d d'"
proof -
  let ?R = "keeps (uncovered root written) settled"
  from reconcile_steps [OF run] obtain dst d0 d1 out d2 d3 d4 d5 where s: "create_dirs root d = (Inr (), d0)"
    "scan_dst d0 = Inr dst" "scan_src d0 = Inr source"
    "for_io (\<lambda>e. on_disk (make_directory root cycle (rel_path e))) (missing_directories source dst) d0 = (Inr (), d1)"
    "copy_entries_parallel env root cycle (copies source dst sync False) d1 = (Inr out, d2)"
    "for_io (\<lambda>e. on_disk (fix_mode_of root e)) (filter (\<lambda>e. file_type e = ''file'') (drifted_modes source dst sync False)) d2 = (Inr (), d3)"
    "if mirror sync then remove_extras root cycle (extra_paths source dst ex) d3 = (Inr (), d4) else d4 = d3"
    "set_snapshot_dir_mtimes root source d4 = (Inr (), d5)"
    "written = touched_paths source dst ex sync" "d' = snd (local_cleanup env root cycle sync d5)" .
  have user: "\<exists>ws. user_rel (rel_path e) ws" if "e \<in> set source \<union> set dst" for e
    using scans s(2,3) that unfolding user_manifest_def by blast
  have "?R d d0" by (rule obeysD [OF create_dirs_keeps s(1)]) (simp add: settled_intros)
  moreover have "?R d0 d1"
    by (rule obeysD [OF uncovered_directories s(4)])
      (use user assms(2) in \<open>auto simp: s(9) touched_paths_def missing_directories_def\<close>)
  moreover have "?R d1 d2"
  proof (rule copy_pool_obeys [OF _ s(5)])
    fix e assume e: "e \<in> set (copies source dst sync False)"
    then obtain ws where "user_rel (rel_path e) ws" using user [of e] by (auto simp: copies_def)
    with e show "obeys ?R (copy_entry (machine env) (sources env e) root cycle e)"
      using uncovered_copy [of e written ws root] assms(2) by (simp add: s(9) touched_paths_def)
  qed
  moreover have "?R d2 d3"
  proof -
    have "obeys ?R (for_io (\<lambda>e. on_disk (fix_mode_of root e)) es)" for es
      by (intro keeping_keys.local_intros keeps_fix_mode settled_intros)
    from obeysD [OF this s(6)] show ?thesis .
  qed
  moreover have "?R d3 d4"
  proof (cases "mirror sync")
    case True
    then have "remove_extras root cycle (extra_paths source dst ex) d3 = (Inr (), d4)" using s(7) by simp
    moreover have "rel \<in> written \<and> (\<exists>ws. user_rel rel ws)" if "rel \<in> set (extra_paths source dst ex)" for rel
      using that user extra_paths_set [of source dst ex] True by (auto simp: s(9) touched_paths_def)
    ultimately show ?thesis using obeysD [OF uncovered_extras] assms(2) by blast
  qed (use s(7) in \<open>simp add: keeping_keys.R_refl\<close>)
  moreover have "?R d4 d5" by (rule obeysD [OF keeps_dir_mtimes s(8)]) (rule settled_intros)
  moreover have "?R d5 d'"
    using keeps_cleanup [of "uncovered root written" root env settled cycle sync] assms(3)
    by (auto simp: s(10) obeys_def uncovered_def)
  ultimately show ?thesis by (blast intro: keeping_keys.R_trans)
qed

text \<open>C19: a reconcile pass reports everything it wrote. Among the user's paths, whatever a pass that
  succeeds changes lies at or below a path of the set it returns; elsewhere it makes directories and sets times and
  modes, nothing more. The check of a refreshed baseline takes every other change for a foreign one.\<close>

theorem touched_covers_writes:
  assumes "sync_destination_fast_missing_dirs env root cycle scan_src scan_dst ex sync d = (Inr (source, written), d')"
    and "root \<noteq> ''''" and "lists_names (machine env)"
    and "\<And>d es. scan_src d = Inr es \<or> scan_dst d = Inr es \<Longrightarrow> user_manifest es"
  shows "\<forall>j. uncovered root written j \<longrightarrow> settled (d j) (d' j)"
  using reconcile_settles [OF assms(1-3)] assms(4) by (auto simp: keeps_def settled_star)


section \<open>Examples\<close>

definition demo_local_source :: local_source where
  "demo_local_source = \<lparr>opened = Some 2, cloned = None, ranges = [Refused True], streamed = Some [Chunk [65], Chunk [66]],
     live_stat = Some (2, 5), read_target = None\<rparr>"

definition demo_local :: local_env where
  "demo_local = \<lparr>machine = demo_receiver, system_meta = (\<lambda>_ _. (0, 420)), sources = (\<lambda>_. demo_local_source), stopped = (\<lambda>_. False)\<rparr>"

lemma demo_copy: "\<exists>d'. copy_entry demo_receiver demo_local_source ''/b'' 3 demo_entry demo_fs = (Inr (), d')
    \<and> d' [''b'', ''d'', ''g''] = Some (Disk.RegularFile [65, 66] (Some 5) (Some 420)) \<and> d' [''b'', ''f''] = None"
proof -
  let ?p = "path_push ''/b'' ''d/g''" and ?tmp = "tmp_of demo_receiver ''/b'' 3 ''d/g''"
  let ?k = "[''b'', INTERNAL_TMP, ''3'', ''d'', ''g.tmp.7'']"
  let ?d1 = "demo_fs([''b'', INTERNAL_TMP] \<mapsto> Directory None None, [''b'', INTERNAL_TMP, ''3''] \<mapsto> Directory None None,
      [''b'', INTERNAL_TMP, ''3'', ''d''] \<mapsto> Directory None None)"
  let ?d2 = "?d1(?k \<mapsto> Disk.RegularFile [65, 66] None None)" and ?d3 = "?d1(?k \<mapsto> received [65, 66] demo_entry)"
  have e: "rel_path demo_entry = ''d/g''" "hash demo_entry = None" "file_type demo_entry = ''file''" "mode_bits demo_entry = 420"
    "mtime_ns demo_entry = 5" "size_of demo_entry = 2" by (simp_all add: demo_entry_def)
  have itmp: "INTERNAL_TMP \<noteq> ''d''" "''f'' \<noteq> INTERNAL_TMP" by (simp_all add: INTERNAL_TMP_def)
  have k: "tmp_key demo_receiver ''/b'' 3 [''d'', ''g''] = ?k"
    by (simp add: tmp_key_def demo_root demo_show demo_receiver_def demo_decimal)
  note tmp = tmp_of_key [OF demo_plain_g, of demo_receiver "''/b''" 3, unfolded k]
  have p: "locate ?p = [''b'', ''d'', ''g'']" "create_parent ?p = call (create_dir_all [''b'', ''d''])"
    using locate_join [OF demo_plain_g, of "''/b''"] push_parent [OF demo_plain_g, of "''/b''"] by (simp_all add: demo_root)
  have parent: "create_parent ?p demo_fs = (Inr (), demo_fs)"
    by (simp add: p call_Inr create_dir_all_def demo_fs_def)
  have clear: "clear_tmp ?tmp demo_fs = (Inr (), ?d1)"
    using itmp by (simp add: clear_tmp_def seq_io_Inr tmp call_Inr create_dir_all_def demo_fs_def bind_ask present_def lstat_def
        basic_io_Inr)
  have data: "copy_file_data demo_local_source ?tmp ?d1 = (Inr (), ?d2)"
    using itmp by (simp add: copy_file_data_def linux_fast_copy_def stream_copy_def demo_local_source_def bind_io_Inr seq_io_Inr
        call_Inr write_file_def dir_at_def demo_fs_def tmp basic_io_Inr append_bytes_def update_file_def) blast
  have settle: "snd (set_mode ?tmp 420 ?d2) = ?d1(?k \<mapsto> Disk.RegularFile [65, 66] None (Some 420))"
    "snd (set_file_mtime ?tmp (file_time 5) (?d1(?k \<mapsto> Disk.RegularFile [65, 66] None (Some 420)))) = ?d3"
    using settle_file [of ?d2 ?tmp "[65, 66]" None None demo_entry] by (simp_all add: tmp e)
  have absent: "\<not> present ?p ?d3" using itmp by (simp add: present_def lstat_def p demo_fs_def)
  have ren: "rename ?k [''b'', ''d'', ''g''] ?d3 = (Inr (), moved ?k [''b'', ''d'', ''g''] ?d3)"
    using itmp by (simp add: rename_def below_def dir_at_def demo_fs_def)
  have stable: "ensure_source_stable (live_stat demo_local_source) demo_entry = Inr ()"
    by (simp add: ensure_source_stable_def demo_local_source_def e bail_if_def)
  have "copy_entry demo_receiver demo_local_source ''/b'' 3 demo_entry demo_fs = (Inr (), moved ?k [''b'', ''d'', ''g''] ?d3)"
    using clear data settle absent ren parent stable
    by (simp add: copy_entry_def copy_single_entry_def copy_file_def e Let_def seq_io_Inr on_disk_Inr basic_io_Inr bind_ask
        replace_path_def call_Inr tmp p snd_on_disk)
  moreover have "moved ?k [''b'', ''d'', ''g''] ?d3 [''b'', ''d'', ''g''] = Some (Disk.RegularFile [65, 66] (Some 5) (Some 420))"
    "moved ?k [''b'', ''d'', ''g''] ?d3 [''b'', ''f''] = None"
    using itmp by (simp_all add: moved_def received_def e below_def demo_fs_def)
  ultimately show ?thesis by blast
qed

text \<open>The source has one file that the destination lacks; the destination's scan has found a file that is gone since.\<close>

definition demo_sync :: NativeSyncConfig where
  "demo_sync = NativeSyncConfig_default\<lparr>mirror := True, checksum := False\<rparr>"

definition demo_extra :: SnapshotEntry where
  "demo_extra = demo_entry\<lparr>rel_path := ''f''\<rparr>"

lemma demo_lists_of_pass:
  "missing_directories [demo_entry] [demo_extra] = []" "copies [demo_entry] [demo_extra] demo_sync False = [demo_entry]"
  "drifted_modes [demo_entry] [demo_extra] demo_sync False = []" "extra_paths [demo_entry] [demo_extra] [] = [''f'']"
  by (simp_all add: missing_directories_def copies_def drifted_modes_def extra_paths_def is_dir_entry_def map_entry_refs_def
      demo_entry_def demo_extra_def is_rel_excluded_def paths_deepest_first_def)

lemma demo_user: "user_rel ''d/g'' [''d'', ''g'']" "user_rel ''f'' [''f'']"
  using demo_plain_g plain_valid [of "''f''"] demo_names by (simp_all add: user_rel_def INTERNAL_TMP_def INTERNAL_TRASH_def)

lemma demo_manifests: "user_manifest [demo_entry]" "user_manifest [demo_extra]"
  using demo_user by (auto simp: user_manifest_def demo_entry_def demo_extra_def)

lemma demo_reconcile: "\<exists>d'. sync_destination_fast_missing_dirs demo_local ''/b'' 3 (\<lambda>_. Inr [demo_entry]) (\<lambda>_. Inr [demo_extra]) []
    demo_sync demo_fs = (Inr ([demo_entry], {''d/g'', ''f''}), d')"
proof -
  obtain d1 where run: "copy_entry demo_receiver demo_local_source ''/b'' 3 demo_entry demo_fs = (Inr (), d1)"
    and at: "d1 [''b'', ''d'', ''g''] = Some (Disk.RegularFile [65, 66] (Some 5) (Some 420))" "d1 [''b'', ''f''] = None"
    using demo_copy by blast
  have root: "create_dirs ''/b'' demo_fs = (Inr (), demo_fs)"
    by (simp add: create_dirs_def call_Inr create_dir_all_def demo_root demo_fs_def)
  have "copy_item demo_local ''/b'' 3 demo_entry demo_fs = (Delivered 1 [] [], d1)"
    using run by (simp add: copy_item_def demo_local_def copy_result_def)
  moreover have "stopped demo_local i \<longleftrightarrow> False" for i by (simp add: demo_local_def)
  ultimately have pool: "copy_entries_parallel demo_local ''/b'' 3 [demo_entry] demo_fs
      = (Inr \<lparr>transferred = 1, outcome_changing = {}, outcome_failed = []\<rparr>, d1)"
    by (simp add: copy_entries_parallel_def empty_pool_def record_result_def pool_outcome_def)
  have gone: "move_to_trash ''/b'' ''f'' 3 d1 = (Inr (), d1)"
    using trash_absent [of "''f''" "[''f'']" d1 "''/b''" 3] demo_user(2) at(2) by (simp add: user_rel_def demo_root)
  have times: "set_snapshot_dir_mtimes ''/b'' [demo_entry] d1 = (Inr (), d1)"
    by (simp add: set_snapshot_dir_mtimes_def set_dir_mtimes_def deepest_first_def is_dir_entry_def demo_entry_def ret_io_def)
  have join: "safe_join_rel ''/b'' ''d/g'' = Inr (path_push ''/b'' ''d/g'')"
    using plain_join [of "[''d'', ''g'']" "''/b''"] demo_plain_g by simp
  have "locate (path_push ''/b'' ''d/g'') = [''b'', ''d'', ''g'']" using locate_join [OF demo_plain_g, of "''/b''"] by (simp add: demo_root)
  then have verify: "verify_copies demo_local ''/b'' [demo_entry] {} demo_sync d1 = (Inr (), d1)"
    using at by (simp add: verify_Inr demo_entry_def join entry_on_disk_def lstat_def node_entry_def demo_sync_def
        entries_match_exact_def entries_match_with_def mtimes_match_exact_def EXACT_MTIME_TOLERANCE_NS_def)
  have written: "touched_paths [demo_entry] [demo_extra] [] demo_sync = {''d/g'', ''f''}"
    unfolding touched_paths_def demo_lists_of_pass by (auto simp: demo_sync_def demo_entry_def)
  have mir: "mirror demo_sync" by (simp add: demo_sync_def)
  show ?thesis unfolding sync_destination_fast_missing_dirs_def
    by (simp add: seq_io_Inr bind_io_Inr finally_Inr scan_Inr on_disk_Inr basic_io_Inr root demo_lists_of_pass pool mir gone times verify
        written lift_err_Inr into_result_def unverifiable_paths_def)
qed


lemma touched_covers_writes_witness:
  "\<exists>d'. sync_destination_fast_missing_dirs demo_local ''/b'' 3 (\<lambda>_. Inr [demo_entry]) (\<lambda>_. Inr [demo_extra]) []
      demo_sync demo_fs = (Inr ([demo_entry], {''d/g'', ''f''}), d')
    \<and> settled (demo_fs [''b'', ''d'', ''f'']) (d' [''b'', ''d'', ''f''])"
proof -
  obtain d' where run: "sync_destination_fast_missing_dirs demo_local ''/b'' 3 (\<lambda>_. Inr [demo_entry]) (\<lambda>_. Inr [demo_extra]) []
      demo_sync demo_fs = (Inr ([demo_entry], {''d/g'', ''f''}), d')" using demo_reconcile by blast
  have lists: "lists_names (machine demo_local)" using demo_lists by (simp add: demo_local_def)
  have "user_rel ''d/f'' [''d'', ''f'']" using demo_plain by (simp add: user_rel_def INTERNAL_TMP_def INTERNAL_TRASH_def)
  note key = user_rel_key [OF this, of "''/b''", unfolded demo_root, simplified]
  have f: "plain_rel ''f'' [''f'']" using demo_user(2) by (simp add: user_rel_def)
  have "\<not> below (locate ''/b'' @ ws) [''b'', ''d'', ''f'']" if "plain_rel ''d/g'' ws" for ws
    using plain_unique [OF that demo_plain_g] by (simp add: demo_root below_def)
  moreover have "\<not> below (locate ''/b'' @ ws) [''b'', ''d'', ''f'']" if "plain_rel ''f'' ws" for ws
    using plain_unique [OF that f] by (simp add: demo_root below_def)
  ultimately have "uncovered ''/b'' {''d/g'', ''f''} [''b'', ''d'', ''f'']" using key by (auto simp: uncovered_def)
  then show ?thesis using run touched_covers_writes [OF run _ lists] demo_manifests by auto
qed

end
