(* ===== verification/Local_Copy.thy ===== *)
theory Local_Copy
  imports Local_Facts
begin

text \<open>
  What a local copy publishes: the content of one way of copying, complete and unmixed, with the entry's
  mode and time, once the source is known not to have changed; or the link with the target that was hashed.
\<close>

section \<open>Content\<close>

text \<open>The bytes that a run of \<open>copy_file_range\<close> moves up to the length of the source, and those that the reads deliver.\<close>

fun moved_bytes :: "nat \<Rightarrow> range_event list \<Rightarrow> u8 list" where
  "moved_bytes n (Moved ws # es) = (if n = 0 \<or> ws = [] then [] else take n ws @ moved_bytes (n - length ws) es)"
| "moved_bytes n es = []"

fun read_bytes :: "read_event list \<Rightarrow> u8 list" where
  "read_bytes (Chunk ws # es) = (if ws = [] then [] else ws @ read_bytes es)"
| "read_bytes es = []"

definition refused :: "range_event list \<Rightarrow> bool" where
  "refused es \<longleftrightarrow> (case es of Refused unsupported # _ \<Rightarrow> unsupported | _ \<Rightarrow> False)"

definition copied_content :: "local_source \<Rightarrow> u8 list option" where
  "copied_content src = (case opened src of None \<Rightarrow> None | Some len \<Rightarrow>
     (case cloned src of
        Some c \<Rightarrow> Some c
      | None \<Rightarrow> if refused (ranges src) \<and> len \<noteq> 0 then map_option read_bytes (streamed src)
          else Some (moved_bytes len (ranges src))))"

definition file_at :: "key \<Rightarrow> u8 list \<Rightarrow> fs \<Rightarrow> bool" where
  "file_at k w d \<longleftrightarrow> fs_ok d \<and> (\<exists>t m. d k = Some (Disk.RegularFile w t m))"

lemma append_file:
  assumes "file_at (locate p) w d" and "append_bytes p ws d = (Inr (), d')"
  shows "file_at (locate p) (w @ ws) d'"
proof -
  obtain t m where n: "d (locate p) = Some (Disk.RegularFile w t m)" and ok: "fs_ok d" using assms(1) by (auto simp: file_at_def)
  then have "d' = d(locate p \<mapsto> Disk.RegularFile (w @ ws) None m)"
    using assms(2) by (auto simp: append_bytes_def call_Inr update_file_def)
  then show ?thesis using fs_ok_change [OF ok n] by (auto simp: file_at_def is_directory_def)
qed

lemma ranges_file:
  "copy_ranges p n any es d = (Inr done, d') \<Longrightarrow> file_at (locate p) w d \<Longrightarrow>
     (if done then (\<not> any \<longrightarrow> \<not> refused es \<or> n = 0) \<and> file_at (locate p) (w @ moved_bytes n es) d'
      else \<not> any \<and> refused es \<and> n \<noteq> 0 \<and> d' = d)"
proof (induction p n any es arbitrary: d w rule: copy_ranges.induct)
  case (3 p n any ws es)
  show ?case
  proof (cases "n = 0 \<or> ws = []")
    case False
    then obtain d1 where one: "append_bytes p (take n ws) d = (Inr (), d1)"
      and rest: "copy_ranges p (n - length ws) True es d1 = (Inr done, d')"
      using "3.prems"(1) by (auto simp: seq_io_Inr)
    from "3.IH" [OF False rest append_file [OF "3.prems"(2) one]] False show ?thesis by (auto simp: refused_def split: if_splits)
  qed (use 3 in \<open>auto simp: basic_io_Inr refused_def\<close>)
qed (auto simp: basic_io_Inr refused_def split: if_splits)

lemma stream_file:
  "stream_loop p es d = (Inr (), d') \<Longrightarrow> file_at (locate p) w d \<Longrightarrow> file_at (locate p) (w @ read_bytes es) d'"
proof (induction p es arbitrary: d w rule: stream_loop.induct)
  case (3 p ws es)
  show ?case
  proof (cases "ws = []")
    case False
    then obtain d1 where one: "append_bytes p ws d = (Inr (), d1)" and rest: "stream_loop p es d1 = (Inr (), d')"
      using "3.prems"(1) by (auto simp: seq_io_Inr)
    from "3.IH" [OF False rest append_file [OF "3.prems"(2) one]] False show ?thesis by simp
  qed (use 3 in \<open>auto simp: basic_io_Inr\<close>)
qed (auto simp: basic_io_Inr)

lemma created_file: "write_file k [] d = (Inr (), d') \<Longrightarrow> fs_ok d \<Longrightarrow> file_at k [] d'"
  using write_file_effect [of k "[]" d d'] by (auto simp: file_at_def)

lemma copied_data:
  assumes "copy_file_data src p d = (Inr (), d')" and "fs_ok d"
  shows "\<exists>w. copied_content src = Some w \<and> file_at (locate p) w d'"
proof -
  from assms(1) obtain finished d1 where fast: "linux_fast_copy src p d = (Inr finished, d1)"
    and slow: "(if finished then ret_io () else stream_copy src p) d1 = (Inr (), d')"
    by (auto simp: copy_file_data_def bind_io_Inr)
  from fast obtain len d0 where len: "opened src = Some len" and new: "write_file (locate p) [] d = (Inr (), d0)"
    and go: "(case cloned src of Some w \<Rightarrow> seq_io (append_bytes p w) (ret_io True) | None \<Rightarrow> copy_ranges p len False (ranges src)) d0
      = (Inr finished, d1)"
    by (auto simp: linux_fast_copy_def basic_io_Inr seq_io_Inr call_Inr split: option.splits)
  note zero = created_file [OF new assms(2)]
  show ?thesis
  proof (cases "cloned src")
    case (Some c)
    with go have app: "append_bytes p c d0 = (Inr (), d1)" and "finished" by (auto simp: seq_io_Inr basic_io_Inr)
    with append_file [OF zero app] slow len Some show ?thesis by (auto simp: copied_content_def basic_io_Inr)
  next
    case None
    with go have run: "copy_ranges p len False (ranges src) d0 = (Inr finished, d1)" by simp
    note r = ranges_file [OF run zero]
    show ?thesis
    proof (cases "finished")
      case True
      with r slow len None show ?thesis
        by (auto simp: copied_content_def basic_io_Inr)
    next
      case False
      with slow obtain reads d2 where reads: "streamed src = Some reads" and again: "write_file (locate p) [] d1 = (Inr (), d2)"
        and loop: "stream_loop p reads d2 = (Inr (), d')"
        by (auto simp: stream_copy_def basic_io_Inr seq_io_Inr call_Inr split: option.splits)
      have "fs_ok d1" using r False zero by (simp add: file_at_def)
      from stream_file [OF loop created_file [OF again this]] reads len None r False show ?thesis
        by (auto simp: copied_content_def)
    qed
  qed
qed

section \<open>Publication\<close>

lemma copy_publishes:
  assumes "plain_rel (rel_path e) ws" and "root \<noteq> ''''" and "file_at (tmp_key rc root cycle ws) w d" and "0 \<le> mtime_ns e"
    and run: "seq_io (ok_io (on_disk (set_mode (tmp_of rc root cycle (rel_path e)) (mode_bits e))))
      (seq_io (ok_io (on_disk (set_file_mtime (tmp_of rc root cycle (rel_path e)) (file_time (mtime_ns e)))))
        (on_disk (replace_path root cycle (rel_path e) (tmp_of rc root cycle (rel_path e)) (path_push root (rel_path e))))) d = (Inr (), d')"
  shows "d' (locate root @ ws) = Some (received w e)"
proof -
  let ?tmp = "tmp_of rc root cycle (rel_path e)"
  note key = tmp_of_key(1) [OF assms(1), of rc root cycle]
  obtain t m where n: "d (locate ?tmp) = Some (Disk.RegularFile w t m)" and ok: "fs_ok d" using assms(3) by (auto simp: file_at_def key)
  note settle = settle_file [where p = "tmp_of rc root cycle (rel_path e)" and d = d, OF n assms(4)]
  have rep: "replace_path root cycle (rel_path e) ?tmp (path_push root (rel_path e)) (d(locate ?tmp \<mapsto> received w e)) = (Inr (), d')"
    using run settle by (auto simp: seq_io_Inr basic_io_Inr snd_on_disk on_disk_Inr)
  have ok': "fs_ok (d(locate ?tmp \<mapsto> received w e))"
    using fs_ok_change [OF ok n, of "received w e"] by (simp add: received_def is_directory_def)
  show ?thesis by (rule replace_path_publishes(1) [OF assms(1,2) ok' key locate_join [OF assms(1)] _ rep]) simp
qed

lemma cleared:
  assumes "clear_tmp p d = (Inr (), d')" and "fs_ok d" and "create_parent p = call (create_dir_all k)" and "locate p \<noteq> []"
  shows "fs_ok d'"
proof -
  from assms(1,3) obtain d1 where "create_dir_all k d = (Inr (), d1)" and "d' = d1 \<or> d' = remove_tree (locate p) d1"
    by (auto simp: clear_tmp_def seq_io_Inr call_Inr bind_ask remove_any_def basic_io_Inr split: if_splits)
  then show ?thesis using create_dir_all_effect(1) [of k d d1] assms(2,4) fs_ok_remove_tree by metis
qed



end
