(* ===== verification/Progress.thy ===== *)
theory Progress
  imports Prelude Paths Runtime Cancel "HOL-Library.Multiset"
begin

text \<open>
  Progress of transfers and tree walks (\<open>src/src/core/progress.rs\<close>): the cell of the transfer that is
  shown, the list of running walks, the guards that own an entry of either, the smoothed speed, and the
  two files in the state directory that another process reads. Instants are nanoseconds and wall-clock times milliseconds,
  both given by the caller; writing and reading the files succeeds when they are configured. The difference of two instants
  is zero when the later comes first, as in \<open>Instant::duration_since\<close>.
\<close>

definition STALE_AFTER :: nat where "STALE_AFTER = 8000000000"
definition SPEED_SAMPLE_INTERVAL :: nat where "SPEED_SAMPLE_INTERVAL = 250000000"
definition SCAN_UPDATE_INTERVAL :: nat where "SCAN_UPDATE_INTERVAL = 100000000"
definition EWMA_NEW_SAMPLE_PERCENT :: nat where "EWMA_NEW_SAMPLE_PERCENT = 35"

record clock = instant :: nat  wall_ms :: nat

record TransferProgressView =
  tv_source :: string  tv_destination :: string  tv_path :: string  tv_rel :: string
  tv_transferred :: nat  tv_total :: nat  tv_speed :: nat  tv_updated_ms :: nat

record ScanProgressView =
  sv_root :: string  sv_current :: string  sv_seen :: nat  sv_updated_ms :: nat  sv_kind :: string
  sv_source :: string  sv_destination :: string

record TransferProgressState =
  tp_token :: nat  tp_source :: string  tp_destination :: string  tp_path :: string  tp_rel :: string
  tp_transferred :: nat  tp_total :: nat  tp_speed :: nat  tp_sampled :: bool  tp_last :: nat
  tp_started :: nat  tp_last_sample :: nat  tp_updated :: nat  tp_updated_ms :: nat

record ScanProgressState =
  sp_token :: nat  sp_root :: string  sp_current :: string  sp_seen :: nat  sp_updated :: nat  sp_last_write :: nat
  sp_updated_ms :: nat  sp_kind :: string  sp_source :: string  sp_destination :: string

record progress_world =
  shown :: "TransferProgressState option"
  walks :: "ScanProgressState list"
  next_token :: nat
  files_configured :: bool
  transfer_file :: "TransferProgressView option"
  scan_file :: "ScanProgressView option"

definition progress_init :: progress_world where
  "progress_init = \<lparr>shown = None, walks = [], next_token = 1, files_configured = False, transfer_file = None, scan_file = None\<rparr>"

section \<open>Speed\<close>

definition ewma_speed :: "nat \<Rightarrow> nat \<Rightarrow> nat" where
  "ewma_speed previous sample =
     (if previous = 0 then sample
      else (previous * (100 - EWMA_NEW_SAMPLE_PERCENT) + sample * EWMA_NEW_SAMPLE_PERCENT) div 100)"

text \<open>A sample is kept modulo \<open>2 ^ 64\<close>, as the cast of a \<open>u128\<close> does.\<close>

definition sample_speed :: "nat \<Rightarrow> bool \<Rightarrow> TransferProgressState \<Rightarrow> bool \<times> TransferProgressState" where
  "sample_speed now force s =
     (let elapsed = now - tp_last_sample s; byte_delta = tp_transferred s - tp_last s
      in if \<not> force \<and> elapsed < SPEED_SAMPLE_INTERVAL then (False, s)
         else if byte_delta = 0 then
           (if tp_speed s = 0 then (False, s)
            else (True, s\<lparr>tp_speed := ewma_speed (tp_speed s) 0, tp_sampled := True, tp_last_sample := now\<rparr>))
         else (True, s\<lparr>tp_speed := ewma_speed (tp_speed s) (byte_delta * 1000 div max 1 (elapsed div 1000000) mod 2 ^ 64),
             tp_sampled := True, tp_last := tp_transferred s, tp_last_sample := now\<rparr>))"

definition transfer_view :: "nat \<Rightarrow> TransferProgressState \<Rightarrow> TransferProgressView" where
  "transfer_view now s = \<lparr>tv_source = tp_source s, tv_destination = tp_destination s, tv_path = tp_path s, tv_rel = tp_rel s,
     tv_transferred = tp_transferred s, tv_total = tp_total s,
     tv_speed = (if \<not> tp_sampled s \<and> tp_transferred s > 0 then tp_transferred s div max 1 ((now - tp_started s) div 1000000000) else tp_speed s),
     tv_updated_ms = tp_updated_ms s\<rparr>"

definition scan_view :: "ScanProgressState \<Rightarrow> ScanProgressView" where
  "scan_view s = \<lparr>sv_root = sp_root s, sv_current = sp_current s, sv_seen = sp_seen s, sv_updated_ms = sp_updated_ms s,
     sv_kind = sp_kind s, sv_source = sp_source s, sv_destination = sp_destination s\<rparr>"

section \<open>The files\<close>

definition write_progress_file :: "TransferProgressView \<Rightarrow> progress_world \<Rightarrow> progress_world" where
  "write_progress_file v w = (if files_configured w then w\<lparr>transfer_file := Some v\<rparr> else w)"

definition write_scan_progress_file :: "ScanProgressView \<Rightarrow> progress_world \<Rightarrow> progress_world" where
  "write_scan_progress_file v w = (if files_configured w then w\<lparr>scan_file := Some v\<rparr> else w)"

definition clear_progress_file :: "progress_world \<Rightarrow> progress_world" where
  "clear_progress_file w = (if files_configured w then w\<lparr>transfer_file := None\<rparr> else w)"

definition clear_scan_progress_file :: "progress_world \<Rightarrow> progress_world" where
  "clear_scan_progress_file w = (if files_configured w then w\<lparr>scan_file := None\<rparr> else w)"

definition read_progress_file :: "clock \<Rightarrow> progress_world \<Rightarrow> TransferProgressView option \<times> progress_world" where
  "read_progress_file c w =
     (if \<not> files_configured w then (None, w)
      else case transfer_file w of
        None \<Rightarrow> (None, w)
      | Some v \<Rightarrow> if wall_ms c - tv_updated_ms v > STALE_AFTER div 1000000 then (None, w\<lparr>transfer_file := None\<rparr>) else (Some v, w))"

definition read_scan_progress_file :: "clock \<Rightarrow> progress_world \<Rightarrow> ScanProgressView option \<times> progress_world" where
  "read_scan_progress_file c w =
     (if \<not> files_configured w then (None, w)
      else case scan_file w of
        None \<Rightarrow> (None, w)
      | Some v \<Rightarrow> if wall_ms c - sv_updated_ms v > STALE_AFTER div 1000000 then (None, w\<lparr>scan_file := None\<rparr>) else (Some v, w))"

definition configure_progress_file :: "progress_world \<Rightarrow> progress_world" where
  "configure_progress_file w = w\<lparr>files_configured := True\<rparr>"

section \<open>Transfers\<close>

text \<open>The label of the thread's cancel token names the destination that the work is for.\<close>

definition attribution :: "thread \<Rightarrow> cancel_world \<Rightarrow> string \<times> string" where
  "attribution t ops = (case current_target t ops of
       None \<Rightarrow> ([], [])
     | Some target \<Rightarrow> (case split_once ''|'' target of None \<Rightarrow> ([], []) | Some (s, d) \<Rightarrow> (s, d)))"

definition show_transfer :: "clock \<Rightarrow> string \<Rightarrow> string \<Rightarrow> path_buf \<Rightarrow> string \<Rightarrow> nat \<Rightarrow> nat \<Rightarrow> progress_world \<Rightarrow> nat \<times> progress_world" where
  "show_transfer c source destination path rel bytes sofar w =
     (let s = \<lparr>tp_token = next_token w, tp_source = source, tp_destination = destination, tp_path = path, tp_rel = rel,
          tp_transferred = sofar, tp_total = bytes, tp_speed = 0, tp_sampled = False, tp_last = sofar,
          tp_started = instant c, tp_last_sample = instant c, tp_updated = instant c, tp_updated_ms = wall_ms c\<rparr>
      in (next_token w, write_progress_file (transfer_view (instant c) s) (w\<lparr>shown := Some s, next_token := next_token w + 1\<rparr>)))"

definition start_transfer :: "clock \<Rightarrow> string \<Rightarrow> string \<Rightarrow> path_buf \<Rightarrow> string \<Rightarrow> nat \<Rightarrow> nat \<Rightarrow> progress_world \<Rightarrow> nat \<times> progress_world" where
  "start_transfer c source destination path rel bytes sofar w = show_transfer c source destination path rel bytes (min sofar bytes) w"

definition begin_transfer :: "clock \<Rightarrow> string \<Rightarrow> string \<Rightarrow> path_buf \<Rightarrow> nat \<Rightarrow> progress_world \<Rightarrow> nat \<times> progress_world" where
  "begin_transfer c source destination path bytes w = show_transfer c source destination path [] bytes 0 w"

definition transfer_update :: "clock \<Rightarrow> nat \<Rightarrow> nat \<Rightarrow> progress_world \<Rightarrow> progress_world" where
  "transfer_update c token sofar w = (case shown w of
       None \<Rightarrow> w
     | Some s \<Rightarrow>
         if tp_token s \<noteq> token then w
         else let s = snd (sample_speed (instant c) (sofar \<ge> tp_total s) (s\<lparr>tp_transferred := min sofar (tp_total s)\<rparr>));
                  s = s\<lparr>tp_updated := instant c, tp_updated_ms := wall_ms c\<rparr>
           in write_progress_file (transfer_view (instant c) s) (w\<lparr>shown := Some s\<rparr>))"

definition record_transfer :: "clock \<Rightarrow> string \<Rightarrow> nat \<Rightarrow> progress_world \<Rightarrow> progress_world" where
  "record_transfer c rel added w = (case shown w of
       None \<Rightarrow> w
     | Some s \<Rightarrow>
         let sum = saturating_add (tp_transferred s) added;
             s = s\<lparr>tp_transferred := (if tp_total s > 0 then min sum (tp_total s) else sum),
               tp_rel := (if rel \<noteq> [] then rel else tp_rel s), tp_updated := instant c, tp_updated_ms := wall_ms c\<rparr>
         in case sample_speed (instant c) False s of
              (True, s) \<Rightarrow> write_progress_file (transfer_view (instant c) s) (w\<lparr>shown := Some s\<rparr>)
            | (False, s) \<Rightarrow> w\<lparr>shown := Some s\<rparr>)"

definition drop_transfer :: "nat \<Rightarrow> progress_world \<Rightarrow> progress_world" where
  "drop_transfer token w = (case shown w of
       None \<Rightarrow> w
     | Some s \<Rightarrow> if tp_token s = token then clear_progress_file (w\<lparr>shown := None\<rparr>) else w)"

definition current_transfer_progress :: "clock \<Rightarrow> progress_world \<Rightarrow> TransferProgressView option \<times> progress_world" where
  "current_transfer_progress c w = (case shown w of
       None \<Rightarrow> read_progress_file c w
     | Some s \<Rightarrow>
         if instant c - tp_updated s > STALE_AFTER then read_progress_file c (clear_progress_file (w\<lparr>shown := None\<rparr>))
         else (case sample_speed (instant c) False s of
             (True, s) \<Rightarrow>
               (let s = s\<lparr>tp_updated := instant c, tp_updated_ms := wall_ms c\<rparr>; v = transfer_view (instant c) s
                in (Some v, write_progress_file v (w\<lparr>shown := Some s\<rparr>)))
           | (False, s) \<Rightarrow> (Some (transfer_view (instant c) s), w\<lparr>shown := Some s\<rparr>)))"

section \<open>Walks\<close>

definition start_scan :: "clock \<Rightarrow> bool \<Rightarrow> string \<times> string \<Rightarrow> path_buf \<Rightarrow> progress_world \<Rightarrow> nat \<times> progress_world" where
  "start_scan c comparing who root w =
     (let s = \<lparr>sp_token = next_token w, sp_root = root, sp_current = root, sp_seen = 0, sp_updated = instant c,
          sp_last_write = instant c, sp_updated_ms = wall_ms c, sp_kind = (if comparing then ''compare'' else ''sync''),
          sp_source = fst who, sp_destination = snd who\<rparr>
      in (next_token w, (write_scan_progress_file (scan_view s) w)\<lparr>walks := walks w @ [s], next_token := next_token w + 1\<rparr>))"

text \<open>The guard keeps the time of its last update: \<open>prev_at\<close>; the new one is returned.\<close>

definition scan_update :: "clock \<Rightarrow> nat \<Rightarrow> nat \<Rightarrow> path_buf \<Rightarrow> nat \<Rightarrow> progress_world \<Rightarrow> nat \<times> progress_world" where
  "scan_update c token prev_at path seen w =
     (if instant c - prev_at < SCAN_UPDATE_INTERVAL then (prev_at, w)
      else (instant c,
        (case List.find (\<lambda>s. sp_token s = token) (walks w) of
           None \<Rightarrow> w
         | Some s \<Rightarrow>
             let write = instant c - sp_last_write s \<ge> SPEED_SAMPLE_INTERVAL;
                 s = s\<lparr>sp_current := path, sp_seen := seen, sp_updated := instant c, sp_updated_ms := wall_ms c,
                   sp_last_write := (if write then instant c else sp_last_write s)\<rparr>;
                 w = w\<lparr>walks := map (\<lambda>x. if sp_token x = token then s else x) (walks w)\<rparr>
             in if write then write_scan_progress_file (scan_view s) w else w)))"

text \<open>\<open>max_by_key\<close> takes the last of several greatest elements.\<close>

definition latest_scan_state :: "ScanProgressState list \<Rightarrow> ScanProgressState option" where
  "latest_scan_state ws = fold (\<lambda>s best. case best of None \<Rightarrow> Some s
     | Some b \<Rightarrow> if sp_updated s \<ge> sp_updated b then Some s else best) ws None"

definition drop_scan :: "nat \<Rightarrow> progress_world \<Rightarrow> progress_world" where
  "drop_scan token w =
     (let w = w\<lparr>walks := filter (\<lambda>s. sp_token s \<noteq> token) (walks w)\<rparr>
      in case latest_scan_state (walks w) of
           Some s \<Rightarrow> write_scan_progress_file (scan_view s) w
         | None \<Rightarrow> clear_scan_progress_file w)"

definition fresh_walks :: "clock \<Rightarrow> progress_world \<Rightarrow> progress_world" where
  "fresh_walks c w = w\<lparr>walks := filter (\<lambda>s. instant c - sp_updated s \<le> STALE_AFTER) (walks w)\<rparr>"

definition current_scan_progress :: "clock \<Rightarrow> progress_world \<Rightarrow> ScanProgressView option \<times> progress_world" where
  "current_scan_progress c w =
     (let w = fresh_walks c w
      in case latest_scan_state (walks w) of
           Some s \<Rightarrow> (Some (scan_view s), w)
         | None \<Rightarrow> read_scan_progress_file c w)"

definition current_scan_progresses :: "clock \<Rightarrow> progress_world \<Rightarrow> ScanProgressView list \<times> progress_world" where
  "current_scan_progresses c w = (let w = fresh_walks c w in (map scan_view (walks w), w))"

section \<open>Bounds of the speed\<close>

lemma ewma_between:
  "min previous sample \<le> ewma_speed previous sample" "ewma_speed previous sample \<le> max previous sample"
proof -
  let ?m = "min previous sample" and ?M = "max previous sample"
  have "?m * 100 = ?m * 65 + ?m * 35" by simp
  also have "\<dots> \<le> previous * 65 + sample * 35" by (intro add_mono mult_right_mono) simp_all
  finally have "?m \<le> (previous * 65 + sample * 35) div 100" by (simp add: less_eq_div_iff_mult_less_eq)
  then show "?m \<le> ewma_speed previous sample" by (simp add: ewma_speed_def EWMA_NEW_SAMPLE_PERCENT_def)
  have "previous * 65 + sample * 35 \<le> ?M * 65 + ?M * 35" by (intro add_mono mult_right_mono) simp_all
  also have "\<dots> = ?M * 100" by simp
  finally have "(previous * 65 + sample * 35) div 100 \<le> ?M" by (simp add: div_le_mono less_mult_imp_div_less flip: less_Suc_eq_le)
  then show "ewma_speed previous sample \<le> ?M" by (simp add: ewma_speed_def EWMA_NEW_SAMPLE_PERCENT_def)
qed

text \<open>The status poll samples a transfer that moves nothing at the given instants.\<close>

fun polled :: "nat list \<Rightarrow> TransferProgressState \<Rightarrow> TransferProgressState" where
  "polled [] s = s"
| "polled (t # ts) s = polled ts (snd (sample_speed t False s))"

fun spaced :: "nat \<Rightarrow> nat list \<Rightarrow> bool" where
  "spaced t0 [] = True"
| "spaced t0 (t # ts) \<longleftrightarrow> t - t0 \<ge> SPEED_SAMPLE_INTERVAL \<and> spaced t ts"

lemma decay_step:
  assumes "tp_transferred s = tp_last s" and "t - tp_last_sample s \<ge> SPEED_SAMPLE_INTERVAL" and "tp_speed s > 0"
  shows "snd (sample_speed t False s) = s\<lparr>tp_speed := tp_speed s * 65 div 100, tp_sampled := True, tp_last_sample := t\<rparr>"
  using assms by (simp add: sample_speed_def ewma_speed_def EWMA_NEW_SAMPLE_PERCENT_def)

lemma polled_zero: "tp_speed s = 0 \<Longrightarrow> tp_transferred s = tp_last s \<Longrightarrow> polled ts s = s"
  by (induction ts) (auto simp: sample_speed_def Let_def)

lemma polled_decays:
  assumes "tp_transferred s = tp_last s" and "spaced (tp_last_sample s) ts"
  shows "tp_speed (polled ts s) * 100 ^ length ts \<le> tp_speed s * 65 ^ length ts"
  using assms
proof (induction ts arbitrary: s)
  case (Cons t ts)
  show ?case
  proof (cases "tp_speed s = 0")
    case True
    then show ?thesis using polled_zero [OF True Cons.prems(1), of "t # ts"] by simp
  next
    case False
    let ?s = "s\<lparr>tp_speed := tp_speed s * 65 div 100, tp_sampled := True, tp_last_sample := t\<rparr>"
    have step: "snd (sample_speed t False s) = ?s" using decay_step Cons.prems False by simp
    have "tp_speed (polled ts ?s) * 100 ^ length ts \<le> (tp_speed s * 65 div 100) * 65 ^ length ts"
      using Cons.IH [of ?s] Cons.prems by simp
    then have "tp_speed (polled ts ?s) * 100 ^ length ts * 100 \<le> (tp_speed s * 65 div 100) * 65 ^ length ts * 100"
      by (rule mult_right_mono) simp
    also have "\<dots> = (tp_speed s * 65 div 100 * 100) * 65 ^ length ts" by (simp add: mult.assoc mult.commute mult.left_commute)
    also have "\<dots> \<le> (tp_speed s * 65) * 65 ^ length ts" by (intro mult_right_mono div_times_less_eq_dividend) simp
    finally show ?thesis using step by (simp add: mult.assoc mult.commute mult.left_commute)
  qed
qed simp

text \<open>The speed of a stalled transfer goes to zero. A transfer that moves no bytes shows the speed zero
  after at most 104 polls, each at least a quarter of a second after the one before, whatever 64-bit speed it
  showed; and a new sample never takes the speed outside the range of the old value and the sample.\<close>

theorem stalled_speed_decays:
  assumes "tp_speed s < 2 ^ 64" and "tp_transferred s = tp_last s" and "spaced (tp_last_sample s) ts" and "104 \<le> length ts"
  shows "tp_speed (polled ts s) = 0 \<and> ewma_speed (tp_speed s) sample \<in> {min (tp_speed s) sample .. max (tp_speed s) sample}"
proof -
  obtain k where k: "length ts = 104 + k" using assms(4) le_Suc_ex by blast
  have "tp_speed (polled ts s) * 100 ^ length ts \<le> tp_speed s * 65 ^ length ts" by (rule polled_decays [OF assms(2,3)])
  also have "\<dots> < 2 ^ 64 * 65 ^ length ts" using assms(1) by simp
  also have "\<dots> = (2 ^ 64 * 65 ^ 104) * 65 ^ k" by (simp add: k power_add)
  also have "\<dots> \<le> 100 ^ 104 * 100 ^ k" by (intro mult_mono power_mono) simp_all
  also have "\<dots> = 100 ^ length ts" by (simp add: k power_add)
  finally have "tp_speed (polled ts s) * 100 ^ length ts < 1 * 100 ^ length ts" by simp
  then have "tp_speed (polled ts s) = 0" by (simp only: mult_less_cancel2) simp
  then show ?thesis using ewma_between [of "tp_speed s" sample] by simp
qed

section \<open>Who owns an entry\<close>

text \<open>Runs of the module. The lists hold the tokens of the guards that are alive.\<close>

inductive progress_run :: "nat list \<Rightarrow> nat list \<Rightarrow> progress_world \<Rightarrow> bool" where
  start: "progress_run [] [] progress_init"
| configure: "progress_run ts ws w \<Longrightarrow> progress_run ts ws (configure_progress_file w)"
| begin_one: "progress_run ts ws w \<Longrightarrow> start_transfer c source destination path rel bytes sofar w = (t, w') \<Longrightarrow>
    progress_run (t # ts) ws w'"
| begin_all: "progress_run ts ws w \<Longrightarrow> begin_transfer c source destination path bytes w = (t, w') \<Longrightarrow>
    progress_run (t # ts) ws w'"
| update: "progress_run ts ws w \<Longrightarrow> t \<in> set ts \<Longrightarrow> progress_run ts ws (transfer_update c t n w)"
| record_bytes: "progress_run ts ws w \<Longrightarrow> progress_run ts ws (record_transfer c rel n w)"
| drop_one: "progress_run ts ws w \<Longrightarrow> t \<in> set ts \<Longrightarrow> progress_run (remove1 t ts) ws (drop_transfer t w)"
| look: "progress_run ts ws w \<Longrightarrow> progress_run ts ws (snd (current_transfer_progress c w))"
| walk: "progress_run ts ws w \<Longrightarrow> start_scan c comparing who root w = (t, w') \<Longrightarrow> progress_run ts (t # ws) w'"
| walk_on: "progress_run ts ws w \<Longrightarrow> t \<in> set ws \<Longrightarrow> progress_run ts ws (snd (scan_update c t prev_at path seen w))"
| walk_ends: "progress_run ts ws w \<Longrightarrow> t \<in> set ws \<Longrightarrow> progress_run ts (remove1 t ws) (drop_scan t w)"
| look_at_walk: "progress_run ts ws w \<Longrightarrow> progress_run ts ws (snd (current_scan_progress c w))"
| look_at_walks: "progress_run ts ws w \<Longrightarrow> progress_run ts ws (snd (current_scan_progresses c w))"

definition progress_ok :: "nat list \<Rightarrow> nat list \<Rightarrow> progress_world \<Rightarrow> bool" where
  "progress_ok ts ws w \<longleftrightarrow> distinct ts \<and> distinct ws \<and> (\<forall>t\<in>set ts \<union> set ws. t < next_token w)
     \<and> (\<forall>s. shown w = Some s \<longrightarrow> tp_token s \<in> set ts \<and> (tp_total s > 0 \<longrightarrow> tp_transferred s \<le> tp_total s))
     \<and> sp_token ` set (walks w) \<subseteq> set ws \<and> distinct (map sp_token (walks w))"

lemma file_fields [simp]:
  "shown (write_progress_file v w) = shown w" "walks (write_progress_file v w) = walks w" "next_token (write_progress_file v w) = next_token w"
  "shown (write_scan_progress_file x w) = shown w" "walks (write_scan_progress_file x w) = walks w" "next_token (write_scan_progress_file x w) = next_token w"
  "shown (clear_progress_file w) = shown w" "walks (clear_progress_file w) = walks w" "next_token (clear_progress_file w) = next_token w"
  "shown (clear_scan_progress_file w) = shown w" "walks (clear_scan_progress_file w) = walks w" "next_token (clear_scan_progress_file w) = next_token w"
  "shown (snd (read_progress_file c w)) = shown w" "walks (snd (read_progress_file c w)) = walks w" "next_token (snd (read_progress_file c w)) = next_token w"
  "shown (snd (read_scan_progress_file c w)) = shown w" "walks (snd (read_scan_progress_file c w)) = walks w" "next_token (snd (read_scan_progress_file c w)) = next_token w"
  by (auto simp: write_progress_file_def write_scan_progress_file_def clear_progress_file_def clear_scan_progress_file_def
      read_progress_file_def read_scan_progress_file_def split: option.splits)

lemma sample_fields [simp]:
  "tp_token (snd (sample_speed now force s)) = tp_token s" "tp_total (snd (sample_speed now force s)) = tp_total s"
  "tp_transferred (snd (sample_speed now force s)) = tp_transferred s"
  by (auto simp: sample_speed_def Let_def)

lemma walk_update_fields:
  assumes "(t', w') = scan_update c t prev_at path seen w"
  shows "shown w' = shown w" "next_token w' = next_token w" "map sp_token (walks w') = map sp_token (walks w)"
proof -
  have "map sp_token (map (\<lambda>x. if sp_token x = t then s else x) xs) = map sp_token xs" if "sp_token s = t" for s xs
    using that by (induction xs) auto
  moreover have "sp_token s = t" if "List.find (\<lambda>s. sp_token s = t) (walks w) = Some s" for s
    using that by (auto simp: find_Some_iff)
  ultimately show "shown w' = shown w" "next_token w' = next_token w" "map sp_token (walks w') = map sp_token (walks w)"
    using assms by (auto simp: scan_update_def Let_def split: option.splits if_splits)
qed

text \<open>The entry shown keeps its owner, and counts no more than there is to transfer.\<close>

definition owned_step :: "TransferProgressState option \<Rightarrow> TransferProgressState option \<Rightarrow> bool" where
  "owned_step a b \<longleftrightarrow> (\<forall>s'. b = Some s' \<longrightarrow> (\<exists>s. a = Some s \<and> tp_token s' = tp_token s
     \<and> (tp_total s' > 0 \<longrightarrow> tp_transferred s' \<le> tp_total s' \<or> s' = s \<or> tp_transferred s' = tp_transferred s \<and> tp_total s' = tp_total s)))"

lemma shown_step:
  assumes "progress_ok ts ws w" and "owned_step (shown w) (shown w')" and "walks w' = walks w" and "next_token w' = next_token w"
  shows "progress_ok ts ws w'"
  using assms by (fastforce simp: progress_ok_def owned_step_def)

lemma transfer_steps:
  "owned_step (shown w) (shown (transfer_update c t n w))" "owned_step (shown w) (shown (record_transfer c rel n w))"
  "owned_step (shown w) (shown (snd (current_transfer_progress c w)))"
  "walks (transfer_update c t n w) = walks w" "walks (record_transfer c rel n w) = walks w" "walks (snd (current_transfer_progress c w)) = walks w"
  "next_token (transfer_update c t n w) = next_token w" "next_token (record_transfer c rel n w) = next_token w"
  "next_token (snd (current_transfer_progress c w)) = next_token w"
proof -
  have sample: "\<exists>b s'. sample_speed now f s = (b, s') \<and> tp_token s' = tp_token s \<and> tp_total s' = tp_total s \<and> tp_transferred s' = tp_transferred s"
    for now f s using sample_fields [of now f s] by (metis prod.collapse)
  show "owned_step (shown w) (shown (transfer_update c t n w))" "walks (transfer_update c t n w) = walks w"
    "next_token (transfer_update c t n w) = next_token w"
    by (auto simp: owned_step_def transfer_update_def Let_def split: option.splits if_splits)
  have "owned_step (shown w) (shown (record_transfer c rel n w)) \<and> walks (record_transfer c rel n w) = walks w
    \<and> next_token (record_transfer c rel n w) = next_token w"
  proof (cases "shown w")
    case (Some s)
    define s1 where "s1 = s\<lparr>tp_transferred := (if tp_total s > 0 then min (saturating_add (tp_transferred s) n) (tp_total s) else saturating_add (tp_transferred s) n),
               tp_rel := (if rel \<noteq> [] then rel else tp_rel s), tp_updated := instant c, tp_updated_ms := wall_ms c\<rparr>"
    obtain b s2 where "sample_speed (instant c) False s1 = (b, s2)" "tp_token s2 = tp_token s1" "tp_total s2 = tp_total s1"
      "tp_transferred s2 = tp_transferred s1" using sample by blast
    then show ?thesis using Some by (cases b) (simp_all add: record_transfer_def Let_def s1_def [symmetric] owned_step_def, simp_all add: s1_def)
  qed (simp add: record_transfer_def owned_step_def)
  then show "owned_step (shown w) (shown (record_transfer c rel n w))" "walks (record_transfer c rel n w) = walks w"
    "next_token (record_transfer c rel n w) = next_token w" by simp_all
  have "owned_step (shown w) (shown (snd (current_transfer_progress c w))) \<and> walks (snd (current_transfer_progress c w)) = walks w
    \<and> next_token (snd (current_transfer_progress c w)) = next_token w"
  proof (cases "shown w")
    case (Some s)
    obtain b s2 where "sample_speed (instant c) False s = (b, s2)" "tp_token s2 = tp_token s" "tp_total s2 = tp_total s"
      "tp_transferred s2 = tp_transferred s" using sample by blast
    then show ?thesis using Some by (cases b) (simp_all add: current_transfer_progress_def Let_def owned_step_def)
  qed (simp add: current_transfer_progress_def owned_step_def)
  then show "owned_step (shown w) (shown (snd (current_transfer_progress c w)))" "walks (snd (current_transfer_progress c w)) = walks w"
    "next_token (snd (current_transfer_progress c w)) = next_token w" by simp_all
qed

lemma show_transfer_ok:
  assumes "progress_ok ts ws w" and "sofar \<le> bytes" and "show_transfer c source destination path rel bytes sofar w = (t, w')"
  shows "progress_ok (t # ts) ws w'"
proof -
  from assms(3) obtain s where "t = next_token w" "shown w' = Some s" "tp_token s = t" "tp_total s = bytes" "tp_transferred s = sofar"
    "walks w' = walks w" "next_token w' = Suc (next_token w)"
    by (auto simp: show_transfer_def Let_def)
  with assms(1,2) show ?thesis by (auto simp: progress_ok_def intro: less_SucI)
qed

lemma progress_invariant: "progress_run ts ws w \<Longrightarrow> progress_ok ts ws w"
proof (induction rule: progress_run.induct)
  case (update ts ws w t c n)
  show ?case by (rule shown_step [OF update.IH]) (rule transfer_steps)+
next
  case (record_bytes ts ws w c rel n)
  show ?case by (rule shown_step [OF record_bytes.IH]) (rule transfer_steps)+
next
  case (look ts ws w c)
  show ?case by (rule shown_step [OF look.IH]) (rule transfer_steps)+
next
  case (walk_on ts ws w t c prev_at path seen)
  obtain l w' where run: "scan_update c t prev_at path seen w = (l, w')" by fastforce
  note f = walk_update_fields [OF run [symmetric]]
  have "sp_token ` set (walks w') = sp_token ` set (walks w)" using arg_cong [OF f(3), of set] by simp
  then show ?case using walk_on.IH run f by (simp add: progress_ok_def)
next
  case (drop_one ts ws w t)
  then show ?case by (auto simp: progress_ok_def drop_transfer_def split: option.splits dest: notin_set_remove1)
next
  case (walk_ends ts ws w t)
  have "walks (drop_scan t w) = filter (\<lambda>s. sp_token s \<noteq> t) (walks w)" "shown (drop_scan t w) = shown w"
    "next_token (drop_scan t w) = next_token w"
    by (auto simp: drop_scan_def Let_def split: option.splits)
  then show ?case using walk_ends.IH
    by (auto simp: progress_ok_def distinct_map_filter dest: notin_set_remove1)
next
  case (walk ts ws w c comparing who root t w')
  from walk.hyps obtain s where "t = next_token w" "shown w' = shown w" "walks w' = walks w @ [s]" "sp_token s = t"
    "next_token w' = Suc (next_token w)"
    by (auto simp: start_scan_def Let_def)
  with walk.IH show ?case by (auto simp: progress_ok_def intro: less_SucI)
next
  case (begin_one ts ws w c source destination path rel bytes sofar t w')
  then show ?case using show_transfer_ok [of ts ws w "min sofar bytes" bytes] by (simp add: start_transfer_def)
next
  case (begin_all ts ws w c source destination path bytes t w')
  then show ?case using show_transfer_ok [of ts ws w 0 bytes] by (simp add: begin_transfer_def)
next
  case (look_at_walk ts ws w c)
  have "walks (snd (current_scan_progress c w)) = walks (fresh_walks c w)" "shown (snd (current_scan_progress c w)) = shown w"
    "next_token (snd (current_scan_progress c w)) = next_token w"
    by (auto simp: current_scan_progress_def fresh_walks_def Let_def split: option.splits)
  then show ?case using look_at_walk.IH by (auto simp: progress_ok_def fresh_walks_def distinct_map_filter)
qed (auto simp: progress_ok_def progress_init_def configure_progress_file_def current_scan_progresses_def fresh_walks_def Let_def
    distinct_map_filter)

text \<open>Progress belongs to running work. Whatever transfers and walks begin, report, end and are looked
  at, the transfer that is shown belongs to a guard that is alive and counts no more bytes than there are, and the walks
  that are listed belong to live guards, one for each; when the work has ended nothing is shown.\<close>

theorem progress_owned:
  assumes "progress_run ts ws w"
  shows "(case shown w of None \<Rightarrow> True | Some s \<Rightarrow> tp_token s \<in> set ts \<and> (tp_total s = 0 \<or> tp_transferred s \<le> tp_total s))
    \<and> mset (map sp_token (walks w)) \<subseteq># mset ws"
proof -
  have ok: "progress_ok ts ws w" by (rule progress_invariant [OF assms])
  then have "mset (map sp_token (walks w)) \<subseteq># mset ws"
    by (auto simp: progress_ok_def subseteq_mset_def distinct_count_atmost_1 count_mset_0_iff intro!: Nat.le0)
  with ok show ?thesis by (auto simp: progress_ok_def split: option.splits)
qed

section \<open>Examples\<close>

definition demo_stalled :: TransferProgressState where
  "demo_stalled = \<lparr>tp_token = 1, tp_source = ''s'', tp_destination = ''d'', tp_path = ''/d'', tp_rel = ''f'', tp_transferred = 1000,
     tp_total = 10000, tp_speed = 2 ^ 64 - 1, tp_sampled = True, tp_last = 1000, tp_started = 0, tp_last_sample = 0, tp_updated = 0,
     tp_updated_ms = 0\<rparr>"

lemma demo_polls: "spaced 0 (map (\<lambda>i. Suc i * 250000000) [0..<104])"
proof -
  have "spaced (k * 250000000) (map (\<lambda>i. Suc i * 250000000) [k..<k + n])" for k n
  proof (induction n arbitrary: k)
    case (Suc n)
    from Suc.IH [of "Suc k"] show ?case by (simp add: upt_conv_Cons SPEED_SAMPLE_INTERVAL_def del: upt_Suc)
  qed simp
  from this [of 0 104] show ?thesis by simp
qed

lemma stalled_speed_decays_witness:
  "tp_speed (polled (map (\<lambda>i. Suc i * 250000000) [0..<104]) demo_stalled) = 0 \<and> ewma_speed (tp_speed demo_stalled) 7 \<ge> 7"
proof -
  have s: "tp_speed demo_stalled < 2 ^ 64" "tp_transferred demo_stalled = tp_last demo_stalled" "tp_last_sample demo_stalled = 0"
    "min (tp_speed demo_stalled) 7 = 7" by (simp_all add: demo_stalled_def)
  show ?thesis using stalled_speed_decays [OF s(1,2), of "map (\<lambda>i. Suc i * 250000000) [0..<104]" 7] demo_polls s(3,4) by simp
qed

definition demo_clock :: clock where "demo_clock = \<lparr>instant = 5, wall_ms = 9\<rparr>"

text \<open>A comparison and a backup walk at the same time; the backup's walk ends first.\<close>

lemma progress_owned_witness:
  "let w = drop_scan 2 (snd (start_scan demo_clock False (''s'', ''d'') ''/d'' (snd (start_scan demo_clock True ([], []) ''/s'' progress_init))))
   in map sp_token (walks w) = [1] \<and> mset (map sp_token (walks w)) \<subseteq># {#1#}"
proof -
  let ?w1 = "snd (start_scan demo_clock True ([], []) ''/s'' progress_init)"
  let ?w2 = "snd (start_scan demo_clock False (''s'', ''d'') ''/d'' ?w1)"
  have "progress_run [] [1] ?w1"
    by (rule progress_run.walk [OF progress_run.start, of demo_clock True "([], [])" "''/s''"]) (simp add: start_scan_def Let_def progress_init_def)
  from progress_run.walk [OF this, of demo_clock False "(''s'', ''d'')" "''/d''" 2 ?w2]
  have "progress_run [] [2, 1] ?w2"
    by (simp add: start_scan_def Let_def progress_init_def write_scan_progress_file_def)
  from progress_run.walk_ends [OF this, of 2] have run: "progress_run [] [1] (drop_scan 2 ?w2)" by simp
  have "map sp_token (walks (drop_scan 2 ?w2)) = [1]"
    by (simp add: drop_scan_def latest_scan_state_def start_scan_def Let_def progress_init_def write_scan_progress_file_def)
  with progress_owned [OF run] show ?thesis by (simp add: Let_def del: mset_map)
qed

end
