(* ===== verification/Notify.thy ===== *)
theory Notify
  imports Config Zfs
begin

text \<open>
  Status notifications (\<open>src/src/core/peer_notify.rs\<close>): the set of changed sources, the epoch that the user
  interface polls, the loop that hands the set to the controllers at most once in two seconds, and which
  controllers those are. Time is in milliseconds. The request to a controller is network I/O; a push is an entry of a log.
\<close>

section \<open>Whom to notify\<close>

definition trim_matches :: "(char \<Rightarrow> bool) \<Rightarrow> string \<Rightarrow> string" where
  "trim_matches p s = trim_end_matches p (dropWhile p s)"

definition clean_machine_id :: "string \<Rightarrow> string" where
  "clean_machine_id v = trim_matches (\<lambda>c. c = CHR ''_'') (clean_id v)"

definition machine_matches_discovery_id :: "MachineConfig \<Rightarrow> string \<Rightarrow> bool" where
  "machine_matches_discovery_id m v =
     (let h = clean_machine_id (m_host m) in h \<noteq> [] \<and> starts_with v (''lan_'' @ h @ ''_'' @ decimal (m_port m) @ ''_''))"

definition controller_machine :: "host \<Rightarrow> AppConfig \<Rightarrow> string \<Rightarrow> MachineConfig option" where
  "controller_machine h cfg by =
     (let by = trim by in if by = [] then None
      else List.find (\<lambda>m. machine_matches_reference m by \<or> machine_matches_discovery_id m by)
        (filter (\<lambda>m. \<not> machine_is_self h cfg m) (filter (\<lambda>m. m_id m \<noteq> ''local'' \<and> m_enabled m) (machines cfg))))"

text \<open>One notification per controller; the sources are taken in the order of their ids.\<close>

definition add_target :: "MachineConfig list \<Rightarrow> MachineConfig \<Rightarrow> MachineConfig list" where
  "add_target targets m =
     (if list_ex (\<lambda>x. m_id x = m_id m \<and> m_host x = m_host m) targets then targets else targets @ [m])"

definition controller_of_source :: "host \<Rightarrow> AppConfig \<Rightarrow> string \<Rightarrow> MachineConfig option" where
  "controller_of_source h cfg s = (case List.find (\<lambda>g. src_id g = s) (source_groups cfg) of
       None \<Rightarrow> None
     | Some g \<Rightarrow> controller_machine h cfg (managed_by g))"

definition push_to_controllers :: "host \<Rightarrow> AppConfig \<Rightarrow> string list \<Rightarrow> MachineConfig list" where
  "push_to_controllers h cfg changed =
     fold (\<lambda>s targets. case controller_of_source h cfg s of None \<Rightarrow> targets | Some m \<Rightarrow> add_target targets m) changed []"

lemma targets_fold:
  "let ts' = fold (\<lambda>s targets. case f s of None \<Rightarrow> targets | Some m \<Rightarrow> add_target targets m) ss ts
   in (\<lambda>m. (m_id m, m_host m)) ` set ts' = (\<lambda>m. (m_id m, m_host m)) ` (set ts \<union> {m. \<exists>s\<in>set ss. f s = Some m})
    \<and> set ts' \<subseteq> set ts \<union> {m. \<exists>s\<in>set ss. f s = Some m}
    \<and> (distinct (map (\<lambda>m. (m_id m, m_host m)) ts) \<longrightarrow> distinct (map (\<lambda>m. (m_id m, m_host m)) ts'))"
proof (induction ss arbitrary: ts)
  case (Cons s ss)
  show ?case
  proof (cases "f s")
    case None
    with Cons.IH [of ts] show ?thesis by (simp add: Let_def)
  next
    case (Some m)
    have add: "(\<lambda>m. (m_id m, m_host m)) ` set (add_target ts m) = (\<lambda>m. (m_id m, m_host m)) ` insert m (set ts)"
      "set (add_target ts m) \<subseteq> insert m (set ts)"
      "distinct (map (\<lambda>m. (m_id m, m_host m)) ts) \<Longrightarrow> distinct (map (\<lambda>m. (m_id m, m_host m)) (add_target ts m))"
      by (auto simp: add_target_def list_ex_iff image_iff) metis
    from Cons.IH [of "add_target ts m"] add Some show ?thesis by (auto simp: Let_def image_Un)
  qed
qed simp

text \<open>Notifications go to the controllers and to nobody else. The machines that a push contacts are
  exactly the controllers of the changed sources, up to entries of the same id and host, none of them twice;
  none is disabled, the local entry or this machine, and a source without a controller contacts nobody.\<close>

theorem push_targets_exact:
  "(\<lambda>m. (m_id m, m_host m)) ` set (push_to_controllers h cfg changed)
     = (\<lambda>m. (m_id m, m_host m)) ` {m. \<exists>s\<in>set changed. controller_of_source h cfg s = Some m}
   \<and> distinct (map (\<lambda>m. (m_id m, m_host m)) (push_to_controllers h cfg changed))
   \<and> (\<forall>m\<in>set (push_to_controllers h cfg changed). m \<in> set (machines cfg) \<and> m_enabled m \<and> m_id m \<noteq> ''local'' \<and> \<not> machine_is_self h cfg m)"
proof -
  have "m \<in> set (machines cfg) \<and> m_enabled m \<and> m_id m \<noteq> ''local'' \<and> \<not> machine_is_self h cfg m"
    if "controller_of_source h cfg s = Some m" for s m
    using that by (auto simp: controller_of_source_def controller_machine_def Let_def dest: find_Some_set split: option.splits if_splits)
  with targets_fold [of "controller_of_source h cfg" changed "[]"] show ?thesis
    by (auto simp: push_to_controllers_def Let_def)
qed

section \<open>The notifier\<close>

definition PUSH_INTERVAL :: nat where "PUSH_INTERVAL = 2000"

text \<open>\<open>Waiting\<close> on the condition variable, \<open>Spacing\<close> until the given time, \<open>Pushing\<close> the given sources.\<close>

datatype notifier = Waiting | Spacing nat | Pushing "string set"

record notify_world =
  clock_ms :: nat
  changed_sources :: "string set"
  status_epoch :: nat
  notifier :: notifier
  last_push :: "nat option"

definition notify_init :: notify_world where
  "notify_init = \<lparr>clock_ms = 0, changed_sources = {}, status_epoch = 0, notifier = Waiting, last_push = None\<rparr>"

definition mark_local_change :: "string \<Rightarrow> notify_world \<Rightarrow> notify_world" where
  "mark_local_change s w = w\<lparr>changed_sources := insert s (changed_sources w), status_epoch := (status_epoch w + 1) mod 2 ^ 64\<rparr>"

definition note_remote_change :: "notify_world \<Rightarrow> notify_world" where
  "note_remote_change w = w\<lparr>status_epoch := (status_epoch w + 1) mod 2 ^ 64\<rparr>"

definition wake_notifier :: "notify_world \<Rightarrow> notify_world" where
  "wake_notifier w = w\<lparr>notifier := (case last_push w of
       None \<Rightarrow> Spacing (clock_ms w)
     | Some at \<Rightarrow> if clock_ms w - at < PUSH_INTERVAL then Spacing (at + PUSH_INTERVAL) else Spacing (clock_ms w))\<rparr>"

definition drain_changes :: "notify_world \<Rightarrow> notify_world" where
  "drain_changes w = (if changed_sources w = {} then w\<lparr>notifier := Waiting\<rparr>
     else w\<lparr>notifier := Pushing (changed_sources w), changed_sources := {}\<rparr>)"

definition push_ends :: "notify_world \<Rightarrow> notify_world" where
  "push_ends w = w\<lparr>notifier := Waiting, last_push := Some (clock_ms w)\<rparr>"

datatype notify_event = Marked string | Noted | Pushed nat "string set" | PushEnded nat

inductive notify_run :: "notify_event list \<Rightarrow> notify_world \<Rightarrow> bool" where
  start: "notify_run [] notify_init"
| time: "notify_run es w \<Longrightarrow> notify_run es (w\<lparr>clock_ms := clock_ms w + n\<rparr>)"
| mark: "notify_run es w \<Longrightarrow> notify_run (es @ [Marked s]) (mark_local_change s w)"
| remote: "notify_run es w \<Longrightarrow> notify_run (es @ [Noted]) (note_remote_change w)"
| wake: "notify_run es w \<Longrightarrow> notifier w = Waiting \<Longrightarrow> changed_sources w \<noteq> {} \<Longrightarrow> notify_run es (wake_notifier w)"
| drain: "notify_run es w \<Longrightarrow> notifier w = Spacing t \<Longrightarrow> t \<le> clock_ms w \<Longrightarrow>
    notify_run (if changed_sources w = {} then es else es @ [Pushed (clock_ms w) (changed_sources w)]) (drain_changes w)"
| ends: "notify_run es w \<Longrightarrow> notifier w = Pushing P \<Longrightarrow> notify_run (es @ [PushEnded (clock_ms w)]) (push_ends w)"

text \<open>A mark is answered by a later push that contains it; a push comes at least two seconds after the end of any before it.\<close>

definition answered :: "notify_event list \<Rightarrow> string set \<Rightarrow> bool" where
  "answered es pending_now \<longleftrightarrow> (\<forall>pre s post. es = pre @ Marked s # post \<longrightarrow>
     s \<in> pending_now \<or> (\<exists>t P. Pushed t P \<in> set post \<and> s \<in> P))"

definition spaced_pushes :: "notify_event list \<Rightarrow> bool" where
  "spaced_pushes es \<longleftrightarrow> (\<forall>pre a mid t P post. es = pre @ PushEnded a # mid @ Pushed t P # post \<longrightarrow> a + PUSH_INTERVAL \<le> t)"

lemma answered_split:
  "answered (es @ [e]) Q \<longleftrightarrow> (\<forall>s. e = Marked s \<longrightarrow> s \<in> Q) \<and>
     (\<forall>pre s p. es = pre @ Marked s # p \<longrightarrow> s \<in> Q \<or> (\<exists>t P. Pushed t P \<in> set (p @ [e]) \<and> s \<in> P))"
proof (intro iffI conjI allI impI)
  assume a: "answered (es @ [e]) Q"
  show "s \<in> Q" if "e = Marked s" for s
    using a [unfolded answered_def, rule_format, of es s "[]"] that by simp
  show "s \<in> Q \<or> (\<exists>t P. Pushed t P \<in> set (p @ [e]) \<and> s \<in> P)" if "es = pre @ Marked s # p" for pre s p
    using a [unfolded answered_def, rule_format, of pre s "p @ [e]"] that by simp
next
  assume a: "(\<forall>s. e = Marked s \<longrightarrow> s \<in> Q) \<and>
     (\<forall>pre s p. es = pre @ Marked s # p \<longrightarrow> s \<in> Q \<or> (\<exists>t P. Pushed t P \<in> set (p @ [e]) \<and> s \<in> P))"
  show "answered (es @ [e]) Q" unfolding answered_def
  proof (intro allI impI)
    fix pre s post assume eq: "es @ [e] = pre @ Marked s # post"
    show "s \<in> Q \<or> (\<exists>t P. Pushed t P \<in> set post \<and> s \<in> P)"
    proof (cases post rule: rev_cases)
      case Nil
      with eq a show ?thesis by simp
    next
      case (snoc p x)
      with eq have "es = pre @ Marked s # p" "x = e" by (simp_all flip: append_Cons append_assoc)
      with a snoc show ?thesis by blast
    qed
  qed
qed

lemma answered_snoc: "answered (es @ [e]) Q \<longleftrightarrow> (case e of
     Marked s \<Rightarrow> s \<in> Q \<and> answered es Q
   | Pushed t P \<Rightarrow> answered es (Q \<union> P)
   | _ \<Rightarrow> answered es Q)"
proof (cases e)
  case (Pushed t P)
  then have "(\<exists>t P. Pushed t P \<in> set (p @ [e]) \<and> s \<in> P) \<longleftrightarrow> s \<in> P \<or> (\<exists>t P. Pushed t P \<in> set p \<and> s \<in> P)" for p s by auto
  then show ?thesis using Pushed unfolding answered_split unfolding answered_def by (simp only: disj_ac) (simp add: disj_ac)
qed (simp_all add: answered_split, simp_all add: answered_def)

lemma answered_mono: "answered es Q \<Longrightarrow> Q \<subseteq> Q' \<Longrightarrow> answered es Q'"
  unfolding answered_def by blast

lemma spaced_snoc: "spaced_pushes (es @ [e]) \<longleftrightarrow> spaced_pushes es \<and>
    (\<forall>t P. e = Pushed t P \<longrightarrow> (\<forall>a. PushEnded a \<in> set es \<longrightarrow> a + PUSH_INTERVAL \<le> t))"
proof (intro iffI conjI allI impI)
  assume a: "spaced_pushes (es @ [e])"
  show "spaced_pushes es" unfolding spaced_pushes_def
  proof (intro allI impI)
    fix pre x mid t P post assume "es = pre @ PushEnded x # mid @ Pushed t P # post"
    then show "x + PUSH_INTERVAL \<le> t"
      using a [unfolded spaced_pushes_def, rule_format, of pre x mid t P "post @ [e]"] by simp
  qed
  show "x + PUSH_INTERVAL \<le> t" if "e = Pushed t P" "PushEnded x \<in> set es" for t P x
  proof -
    from split_list [OF that(2)] obtain pre mid where "es = pre @ PushEnded x # mid" by blast
    then show ?thesis using a [unfolded spaced_pushes_def, rule_format, of pre x mid t P "[]"] that(1) by simp
  qed
next
  assume a: "spaced_pushes es \<and> (\<forall>t P. e = Pushed t P \<longrightarrow> (\<forall>a. PushEnded a \<in> set es \<longrightarrow> a + PUSH_INTERVAL \<le> t))"
  show "spaced_pushes (es @ [e])" unfolding spaced_pushes_def
  proof (intro allI impI)
    fix pre x mid t P post assume eq: "es @ [e] = pre @ PushEnded x # mid @ Pushed t P # post"
    show "x + PUSH_INTERVAL \<le> t"
    proof (cases post rule: rev_cases)
      case Nil
      with eq have "es = pre @ PushEnded x # mid" "e = Pushed t P" by (simp_all flip: append_Cons append_assoc)
      with a show ?thesis by simp
    next
      case (snoc p y)
      with eq have "es = pre @ PushEnded x # mid @ Pushed t P # p" by (simp flip: append_Cons append_assoc)
      with a show ?thesis unfolding spaced_pushes_def by blast
    qed
  qed
qed

definition notify_ok :: "notify_event list \<Rightarrow> notify_world \<Rightarrow> bool" where
  "notify_ok es w \<longleftrightarrow> answered es (changed_sources w) \<and> spaced_pushes es
     \<and> changed_sources w \<subseteq> {s. Marked s \<in> set es} \<and> (\<forall>t P. Pushed t P \<in> set es \<longrightarrow> P \<subseteq> {s. Marked s \<in> set es})
     \<and> (\<forall>a. PushEnded a \<in> set es \<longrightarrow> (\<exists>l. last_push w = Some l \<and> a \<le> l))
     \<and> (\<forall>l. last_push w = Some l \<longrightarrow> l \<le> clock_ms w \<and> (\<forall>t. notifier w = Spacing t \<longrightarrow> l + PUSH_INTERVAL \<le> t))"

lemma notify_invariant: "notify_run es w \<Longrightarrow> notify_ok es w"
proof (induction rule: notify_run.induct)
  case start
  then show ?case by (auto simp: notify_ok_def notify_init_def answered_def spaced_pushes_def)
next
  case (time es w n)
  then show ?case by (fastforce simp: notify_ok_def)
next
  case (mark es w s)
  then have "answered es (insert s (changed_sources w))" by (auto simp: notify_ok_def intro: answered_mono)
  with mark.IH show ?case by (fastforce simp: notify_ok_def mark_local_change_def answered_snoc spaced_snoc)
next
  case (remote es w)
  then show ?case by (fastforce simp: notify_ok_def note_remote_change_def answered_snoc spaced_snoc)
next
  case (wake es w)
  show ?case
  proof (cases "last_push w")
    case None
    with wake.IH show ?thesis by (simp add: notify_ok_def wake_notifier_def)
  next
    case (Some l)
    with wake.IH show ?thesis by (auto simp: notify_ok_def wake_notifier_def)
  qed
next
  case (drain es w t)
  then have "a + PUSH_INTERVAL \<le> clock_ms w" if "PushEnded a \<in> set es" for a
    using that unfolding notify_ok_def by (meson add_le_mono1 dual_order.trans)
  with drain show ?case by (fastforce simp: notify_ok_def drain_changes_def answered_snoc spaced_snoc)
next
  case (ends es w P)
  then show ?case by (fastforce simp: notify_ok_def push_ends_def answered_snoc spaced_snoc)
qed

text \<open>C31: no status change is kept from its controller, and notifications do not echo. Whatever the
  interleaving, a source that was marked is still in the set or in a later push; two pushes are at least two seconds
  apart; a push holds only sources that this machine marked, so a notification from a peer causes none. And
  from any state in which the set is not empty and no push is running, time and two steps of the notifier push the whole set.\<close>

theorem changes_reach_push:
  assumes "notify_run es w"
  shows "answered es (changed_sources w) \<and> spaced_pushes es \<and> (\<forall>t P. Pushed t P \<in> set es \<longrightarrow> P \<subseteq> {s. Marked s \<in> set es})
    \<and> (changed_sources w \<noteq> {} \<and> notifier w = Waiting \<longrightarrow>
        (\<exists>t w'. t \<le> clock_ms w + PUSH_INTERVAL \<and> notify_run (es @ [Pushed t (changed_sources w)]) w'))"
proof -
  have ok: "notify_ok es w" by (rule notify_invariant [OF assms])
  have "\<exists>t w'. t \<le> clock_ms w + PUSH_INTERVAL \<and> notify_run (es @ [Pushed t (changed_sources w)]) w'"
    if c: "changed_sources w \<noteq> {}" "notifier w = Waiting"
  proof -
    define t where "t = (case last_push w of None \<Rightarrow> clock_ms w
      | Some l \<Rightarrow> if clock_ms w - l < PUSH_INTERVAL then l + PUSH_INTERVAL else clock_ms w)"
    have t: "notifier (wake_notifier w) = Spacing t" by (simp add: wake_notifier_def t_def split: option.split)
    have le: "t \<le> clock_ms w + PUSH_INTERVAL" using ok by (auto simp: t_def notify_ok_def split: option.split)
    let ?w = "wake_notifier w\<lparr>clock_ms := clock_ms (wake_notifier w) + (t - clock_ms w)\<rparr>"
    have same: "clock_ms (wake_notifier w) = clock_ms w" "changed_sources (wake_notifier w) = changed_sources w"
      by (simp_all add: wake_notifier_def)
    have "notify_run es ?w" by (rule notify_run.time) (rule notify_run.wake [OF assms c(2,1)])
    from notify_run.drain [OF this, of t] t same c(1)
    have "notify_run (es @ [Pushed (clock_ms w + (t - clock_ms w)) (changed_sources w)]) (drain_changes ?w)" by simp
    moreover have "clock_ms w + (t - clock_ms w) \<le> clock_ms w + PUSH_INTERVAL" using le by simp
    ultimately show ?thesis by blast
  qed
  with ok show ?thesis by (auto simp: notify_ok_def)
qed

lemma changes_reach_push_witness:
  "answered [Marked ''s'', Noted] (changed_sources (note_remote_change (mark_local_change ''s'' notify_init)))
   \<and> (\<exists>t w'. t \<le> PUSH_INTERVAL \<and> notify_run [Marked ''s'', Noted, Pushed t {''s''}] w')"
proof -
  let ?w = "note_remote_change (mark_local_change ''s'' notify_init)"
  have "notify_run ([] @ [Marked ''s'']) (mark_local_change ''s'' notify_init)" by (intro notify_run.intros)
  then have "notify_run (([] @ [Marked ''s'']) @ [Noted]) ?w" by (rule notify_run.remote)
  then have run: "notify_run [Marked ''s'', Noted] ?w" by simp
  have "changed_sources ?w = {''s''}" "notifier ?w = Waiting" "clock_ms ?w = 0"
    by (simp_all add: note_remote_change_def mark_local_change_def notify_init_def)
  with changes_reach_push [OF run] show ?thesis by auto
qed

end
