(* ===== verification/Watcher.thy ===== *)
theory Watcher
  imports Store_Log
begin

text \<open>
  The Linux watcher (\<open>src/src/core/watcher/fanotify.rs\<close>): reading the kernel's event buffers, resolving
  file handles to paths, turning the events of a read into rows of the event log, and the supervision that
  marks the gaps. Names of files are their bytes, assumed valid UTF-8; integers of the buffer are little-endian.

  The record \<open>kernel\<close> holds what the system calls answer during one read of the event queue. \<open>OutOfBounds\<close>
  stands for a read past the end of a buffer, which the unsafe \<open>read_unaligned\<close> would not notice, and for the panic of
  an index out of range; \<open>Bail\<close> for the errors of the code.
\<close>

section \<open>Constants and the layout of the buffer\<close>

definition FAN_REPORT_FID :: u32 where "FAN_REPORT_FID = 0x0200"
definition FAN_REPORT_DIR_FID :: u32 where "FAN_REPORT_DIR_FID = 0x0400"
definition FAN_REPORT_NAME :: u32 where "FAN_REPORT_NAME = 0x0800"
definition FAN_MARK_ADD :: u32 where "FAN_MARK_ADD = 0x0001"
definition FAN_MARK_ONLYDIR :: u32 where "FAN_MARK_ONLYDIR = 0x0008"
definition FAN_MARK_MOUNT :: u32 where "FAN_MARK_MOUNT = 0x0010"
definition FAN_MARK_FILESYSTEM :: u32 where "FAN_MARK_FILESYSTEM = 0x0100"
definition FAN_MODIFY :: u64 where "FAN_MODIFY = 0x0002"
definition FAN_ATTRIB :: u64 where "FAN_ATTRIB = 0x0004"
definition FAN_CLOSE_WRITE :: u64 where "FAN_CLOSE_WRITE = 0x0008"
definition FAN_MOVED_FROM :: u64 where "FAN_MOVED_FROM = 0x0040"
definition FAN_MOVED_TO :: u64 where "FAN_MOVED_TO = 0x0080"
definition FAN_CREATE :: u64 where "FAN_CREATE = 0x0100"
definition FAN_DELETE :: u64 where "FAN_DELETE = 0x0200"
definition FAN_DELETE_SELF :: u64 where "FAN_DELETE_SELF = 0x0400"
definition FAN_MOVE_SELF :: u64 where "FAN_MOVE_SELF = 0x0800"
definition FAN_Q_OVERFLOW :: u64 where "FAN_Q_OVERFLOW = 0x4000"
definition FAN_EVENT_ON_CHILD :: u64 where "FAN_EVENT_ON_CHILD = 0x08000000"
definition FAN_ONDIR :: u64 where "FAN_ONDIR = 0x40000000"
definition FAN_NOFD :: u32 where "FAN_NOFD = -1"
definition FANOTIFY_METADATA_VERSION :: u8 where "FANOTIFY_METADATA_VERSION = 3"
definition INFO_FID :: u8 where "INFO_FID = 1"
definition INFO_DFID_NAME :: u8 where "INFO_DFID_NAME = 2"
definition INFO_DFID :: u8 where "INFO_DFID = 3"
definition INFO_OLD_DFID_NAME :: u8 where "INFO_OLD_DFID_NAME = 10"
definition INFO_NEW_DFID_NAME :: u8 where "INFO_NEW_DFID_NAME = 12"
definition MAX_HANDLE_SZ :: nat where "MAX_HANDLE_SZ = 128"
definition MAX_LAZY_HANDLE_CACHE :: nat where "MAX_LAZY_HANDLE_CACHE = 131072"

lemmas fan_masks = FAN_MODIFY_def FAN_ATTRIB_def FAN_CLOSE_WRITE_def FAN_MOVED_FROM_def FAN_MOVED_TO_def
  FAN_CREATE_def FAN_DELETE_def FAN_DELETE_SELF_def FAN_MOVE_SELF_def FAN_Q_OVERFLOW_def

lemmas info_types = INFO_FID_def INFO_DFID_NAME_def INFO_DFID_def INFO_OLD_DFID_NAME_def INFO_NEW_DFID_NAME_def

record FanotifyEventMetadata =
  meta_event_len :: u32
  meta_vers :: u8
  meta_reserved :: u8
  meta_metadata_len :: u16
  meta_mask :: u64
  meta_fd :: u32
  meta_pid :: u32

record FanotifyEventInfoHeader =
  header_info_type :: u8
  header_pad :: u8
  header_len :: u16

record FileHandleHeader =
  handle_bytes :: u32
  handle_type :: u32

type_synonym file_handle = "u8 list"

record FidRecord =
  fid_handle :: file_handle
  fid_name :: "string option"

text \<open>\<open>SourceRoot\<close>: \<open>lazy_handles\<close> is \<open>mount_fd.is_some()\<close>.\<close>

record SourceRoot =
  root_id :: string
  root_path :: path_buf
  root_is_file :: bool
  handle_paths :: "(file_handle \<times> path_buf) list"
  lazy_handles :: bool
  recursive_marks :: bool

datatype FanotifyMode = FidName | FdPath

record WatchCtx =
  sticky_rescan :: bool
  last_eager_rebuild :: "nat option"

datatype watch_error = OutOfBounds | Bail string

text \<open>
  What the system answers: \<open>open_by_handle\<close> the path behind an opened handle, given its type and bytes;
  \<open>name_to_handle\<close> the type and bytes of the handle of a path; \<open>path_is_dir\<close> and \<open>path_is_file\<close> the answers of
  \<open>metadata\<close>; \<open>fanotify_mark\<close> whether a mark with these flags and this mask can be set; \<open>walk_dirs\<close> a path and the
  directories below it, none when the walk fails; \<open>fd_path\<close> the link of an event's descriptor; \<open>instant_ns\<close> the monotonic
  clock; \<open>open_root\<close> whether a source root can be opened; \<open>fanotify_init\<close> whether a queue with these report flags can be had.
\<close>

record kernel =
  open_by_handle :: "u32 \<Rightarrow> u8 list \<Rightarrow> path_buf option"
  name_to_handle :: "path_buf \<Rightarrow> (u32 \<times> u8 list) option"
  path_is_dir :: "path_buf \<Rightarrow> bool option"
  fanotify_mark :: "path_buf \<Rightarrow> u32 \<Rightarrow> u64 \<Rightarrow> bool"
  walk_dirs :: "path_buf \<Rightarrow> path_buf list option"
  fd_path :: "u32 \<Rightarrow> path_buf option"
  instant_ns :: nat
  canonicalize :: "path_buf \<Rightarrow> path_buf option"
  path_is_file :: "path_buf \<Rightarrow> bool option"
  open_root :: "path_buf \<Rightarrow> bool"
  fanotify_init :: "u32 \<Rightarrow> bool"

definition le_word :: "u8 list \<Rightarrow> 'a::len word" where
  "le_word bs = word_of_nat (from_le bs)"

definition checked_slice :: "'a list \<Rightarrow> nat \<Rightarrow> nat \<Rightarrow> watch_error + 'a list" where
  "checked_slice xs i j = (if i \<le> j \<and> j \<le> length xs then Inr (slice xs i j) else Inl OutOfBounds)"

definition read_metadata :: "u8 list \<Rightarrow> watch_error + FanotifyEventMetadata" where
  "read_metadata bs = (if length bs < 24 then Inl OutOfBounds
     else Inr \<lparr>meta_event_len = le_word (slice bs 0 4), meta_vers = bs ! 4, meta_reserved = bs ! 5,
       meta_metadata_len = le_word (slice bs 6 8), meta_mask = le_word (slice bs 8 16),
       meta_fd = le_word (slice bs 16 20), meta_pid = le_word (slice bs 20 24)\<rparr>)"

definition read_info_header :: "u8 list \<Rightarrow> watch_error + FanotifyEventInfoHeader" where
  "read_info_header bs = (if length bs < 4 then Inl OutOfBounds
     else Inr \<lparr>header_info_type = bs ! 0, header_pad = bs ! 1, header_len = le_word (slice bs 2 4)\<rparr>)"

definition read_handle_header :: "u8 list \<Rightarrow> watch_error + FileHandleHeader" where
  "read_handle_header bs = (if length bs < 8 then Inl OutOfBounds
     else Inr \<lparr>handle_bytes = le_word (slice bs 0 4), handle_type = le_word (slice bs 4 8)\<rparr>)"

definition name_of_bytes :: "u8 list \<Rightarrow> string" where
  "name_of_bytes bs = map (\<lambda>b. char_of (unat b)) bs"

section \<open>The records of an event\<close>

definition parse_fid_name :: "u8 list \<Rightarrow> string option" where
  "parse_fid_name bs = (let name = takeWhile (\<lambda>b. b \<noteq> 0) bs
     in if name = [] then None else Some (name_of_bytes name))"

definition named_info :: "u8 \<Rightarrow> bool" where
  "named_info t \<longleftrightarrow> t \<in> {INFO_DFID_NAME, INFO_OLD_DFID_NAME, INFO_NEW_DFID_NAME}"

definition wanted_info :: "u8 \<Rightarrow> bool" where
  "wanted_info t \<longleftrightarrow> t \<in> {INFO_FID, INFO_DFID, INFO_DFID_NAME, INFO_OLD_DFID_NAME, INFO_NEW_DFID_NAME}"

definition parse_fid_record :: "u8 \<Rightarrow> u8 list \<Rightarrow> watch_error + FidRecord option" where
  "parse_fid_record t bs =
     (if length bs < 12 + 8 then Inr None
      else case read_handle_header (drop 12 bs) of Inl e \<Rightarrow> Inl e
      | Inr h \<Rightarrow>
          let n = unat (handle_bytes h); handle_len = 8 + n in
          if MAX_HANDLE_SZ < n then Inl (Bail ''fanotify file handle too large'')
          else if length bs < 12 + handle_len then Inl (Bail ''truncated fanotify file handle'')
          else case (checked_slice bs 12 (12 + handle_len), checked_slice bs (12 + handle_len) (length bs)) of
            (Inr handle, Inr rest) \<Rightarrow> Inr (Some \<lparr>fid_handle = handle,
               fid_name = (if named_info t then parse_fid_name rest else None)\<rparr>)
          | _ \<Rightarrow> Inl OutOfBounds)"

text \<open>The loop of \<open>fid_records\<close> at an offset. The length of a record is at least the size of its header, so the offset grows.\<close>

function fid_loop :: "u8 list \<Rightarrow> nat \<Rightarrow> watch_error + FidRecord list" where
  "fid_loop event offset =
     (if length event < offset + 4 then Inr []
      else case read_info_header (drop offset event) of Inl e \<Rightarrow> Inl e
      | Inr header \<Rightarrow>
          let len = unat (header_len header) in
          if len < 4 \<or> length event < offset + len then Inl (Bail ''invalid fanotify info record length'')
          else case (if wanted_info (header_info_type header)
                     then case checked_slice event offset (offset + len) of Inl e \<Rightarrow> Inl e
                       | Inr bs \<Rightarrow> parse_fid_record (header_info_type header) bs
                     else Inr None) of Inl e \<Rightarrow> Inl e
          | Inr found \<Rightarrow>
              (case fid_loop event (offset + len) of Inl e \<Rightarrow> Inl e
               | Inr rs \<Rightarrow> Inr (case found of None \<Rightarrow> rs | Some r \<Rightarrow> r # rs)))"
  by pat_completeness auto
termination
  by (relation "measure (\<lambda>(event, offset). length event - offset)") auto

declare fid_loop.simps [simp del]

definition fid_records :: "u8 list \<Rightarrow> watch_error + FidRecord list" where
  "fid_records event = (if length event < 24 then Inl (Bail ''fanotify event shorter than metadata'')
     else case read_metadata event of Inl e \<Rightarrow> Inl e
     | Inr m \<Rightarrow> fid_loop event (unat (meta_metadata_len m)))"

section \<open>Handles and paths\<close>

text \<open>\<open>path_from_handle\<close>: the key is the length of the handle, its type, its bytes.\<close>

definition path_from_handle :: "kernel \<Rightarrow> file_handle \<Rightarrow> path_buf option" where
  "path_from_handle k key = (if length key < 8 \<or> 8 + MAX_HANDLE_SZ < length key then None
     else open_by_handle k (le_word (slice key 4 8)) (drop 8 key))"

definition handle_key_from_path :: "kernel \<Rightarrow> path_buf \<Rightarrow> watch_error + file_handle" where
  "handle_key_from_path k path =
     (if CHR 0x00 \<in> set path then Inl (Bail ''path contains nul byte'')
      else case name_to_handle k path of None \<Rightarrow> Inl (Bail ''name_to_handle_at failed'')
      | Some (t, bs) \<Rightarrow> if MAX_HANDLE_SZ < length bs then Inl (Bail ''oversized file handle'')
          else Inr (le_bytes 4 (length bs) @ le_bytes 4 (unat t) @ bs))"

definition insert_handle_path :: "kernel \<Rightarrow> path_buf \<Rightarrow> (file_handle \<times> path_buf) list \<Rightarrow> (file_handle \<times> path_buf) list" where
  "insert_handle_path k path handles = (case handle_key_from_path k path of
     Inl _ \<Rightarrow> handles | Inr h \<Rightarrow> AList.update h path handles)"

definition build_handle_path_map :: "kernel \<Rightarrow> path_buf \<Rightarrow> bool \<Rightarrow> watch_error + (file_handle \<times> path_buf) list" where
  "build_handle_path_map k root is_file =
     (if is_file then Inr (insert_handle_path k root
        (case path_parent root of None \<Rightarrow> [] | Some p \<Rightarrow> insert_handle_path k p []))
      else case walk_dirs k root of None \<Rightarrow> Inl (Bail ''walk failed'')
      | Some dirs \<Rightarrow> Inr (fold (insert_handle_path k) dirs []))"

definition remove_handle_paths_under :: "path_buf \<Rightarrow> SourceRoot \<Rightarrow> SourceRoot" where
  "remove_handle_paths_under path s = s\<lparr>handle_paths :=
     filter (\<lambda>(_, cached). \<not> path_eq cached path \<and> \<not> path_starts_with cached path) (handle_paths s)\<rparr>"

definition join_name :: "path_buf \<Rightarrow> string option \<Rightarrow> path_buf" where
  "join_name base name = (case name of None \<Rightarrow> base | Some n \<Rightarrow> path_push base n)"

definition belongs_to :: "SourceRoot \<Rightarrow> path_buf \<Rightarrow> bool" where
  "belongs_to s path \<longleftrightarrow> path_starts_with path (root_path s)
     \<or> root_is_file s \<and> (case path_parent (root_path s) of None \<Rightarrow> False | Some p \<Rightarrow> path_eq path p)"

definition cache_handle :: "file_handle \<Rightarrow> path_buf \<Rightarrow> SourceRoot \<Rightarrow> SourceRoot" where
  "cache_handle h path s = s\<lparr>handle_paths := AList.update h path
     (if MAX_LAZY_HANDLE_CACHE \<le> length (handle_paths s) then [] else handle_paths s)\<rparr>"

definition fid_record_path :: "kernel \<Rightarrow> SourceRoot \<Rightarrow> FidRecord \<Rightarrow> path_buf option \<times> SourceRoot" where
  "fid_record_path k s r = (case map_of (handle_paths s) (fid_handle r) of
     Some base \<Rightarrow> (Some (join_name base (fid_name r)), s)
   | None \<Rightarrow> if \<not> lazy_handles s then (None, s)
       else case path_from_handle k (fid_handle r) of None \<Rightarrow> (None, s)
       | Some path \<Rightarrow> if \<not> belongs_to s path then (None, s)
           else (Some (join_name path (fid_name r)),
             if fid_name r = None then s else cache_handle (fid_handle r) path s))"

definition try_mark :: "kernel \<Rightarrow> path_buf \<Rightarrow> u32 \<Rightarrow> u64 \<Rightarrow> bool" where
  "try_mark k root flags m \<longleftrightarrow> CHR 0x00 \<notin> set root \<and> fanotify_mark k root flags m"

definition mark_directory_tree :: "kernel \<Rightarrow> path_buf \<Rightarrow> u64 \<Rightarrow> bool" where
  "mark_directory_tree k root m = (case walk_dirs k root of None \<Rightarrow> False
     | Some dirs \<Rightarrow> list_all (\<lambda>d. try_mark k d (FAN_MARK_ADD OR FAN_MARK_ONLYDIR) m) dirs)"

definition track_new_path_and_mark_directory :: "kernel \<Rightarrow> u64 \<Rightarrow> path_buf \<Rightarrow> SourceRoot \<Rightarrow> bool \<times> SourceRoot" where
  "track_new_path_and_mark_directory k mm path s =
     (if path_is_dir k path \<noteq> Some True then (True, s)
      else let (newly, s) = (case handle_key_from_path k path of Inl _ \<Rightarrow> (True, s)
             | Inr h \<Rightarrow> (map_of (handle_paths s) h = None, s\<lparr>handle_paths := AList.update h path (handle_paths s)\<rparr>))
       in if \<not> newly \<or> \<not> recursive_marks s then (True, s) else (mark_directory_tree k path (mm OR FAN_EVENT_ON_CHILD), s))"

definition rel_has_internal_component :: "component list \<Rightarrow> bool" where
  "rel_has_internal_component cs \<longleftrightarrow> list_ex (\<lambda>c. internal_name (component_str c)) cs"

text \<open>\<open>strip_prefix\<close> works on components; the text of the rest is its components joined by \<open>/\<close>.\<close>

definition source_relative_event_path :: "SourceRoot \<Rightarrow> path_buf \<Rightarrow> string option" where
  "source_relative_event_path s path =
     (if root_is_file s then (if path_eq path (root_path s) then file_name (root_path s) else None)
      else case strip_prefix (components path) (components (root_path s)) of None \<Rightarrow> None
      | Some cs \<Rightarrow> if cs = [] \<or> rel_has_internal_component cs then None else Some (push_all cs))"

definition mask_to_kind :: "u64 \<Rightarrow> string" where
  "mask_to_kind m =
     (if m AND FAN_CLOSE_WRITE \<noteq> 0 then ''close_write''
      else if m AND FAN_CREATE \<noteq> 0 then ''create''
      else if m AND FAN_MODIFY \<noteq> 0 then ''modify''
      else if m AND FAN_ATTRIB \<noteq> 0 then ''metadata''
      else if m AND FAN_DELETE \<noteq> 0 then ''delete''
      else if m AND FAN_MOVED_FROM \<noteq> 0 then ''move_from''
      else if m AND FAN_MOVED_TO \<noteq> 0 then ''move_to''
      else if m AND FAN_DELETE_SELF \<noteq> 0 then ''delete_self''
      else if m AND FAN_MOVE_SELF \<noteq> 0 then ''move_self''
      else ''other'')"

section \<open>The events of a read\<close>

definition pending_event :: "string \<Rightarrow> u64 \<Rightarrow> string \<Rightarrow> string option \<Rightarrow> bool \<Rightarrow> WatcherEvent" where
  "pending_event s m kind rel rescan =
     \<lparr>we_source = s, we_mask = m, we_kind = kind, we_path = rel, we_rescan = rescan\<rparr>"

definition event_path :: "kernel \<Rightarrow> u32 \<Rightarrow> path_buf option" where
  "event_path k fd = (if fd = FAN_NOFD then None else fd_path k fd)"

definition collect_fd_path_event :: "kernel \<Rightarrow> SourceRoot list \<Rightarrow> FanotifyEventMetadata \<Rightarrow> WatcherEvent list" where
  "collect_fd_path_event k sources m = (case event_path k (meta_fd m) of
     None \<Rightarrow> map (\<lambda>s. pending_event (root_id s) (meta_mask m) (mask_to_kind (meta_mask m)) None True) sources
   | Some path \<Rightarrow> List.map_filter (\<lambda>s. map_option (\<lambda>rel. pending_event (root_id s) (meta_mask m)
       (mask_to_kind (meta_mask m)) (Some rel) False) (source_relative_event_path s path)) sources)"

definition is_removal :: "u64 \<Rightarrow> bool" where
  "is_removal m \<longleftrightarrow> m AND (FAN_DELETE OR FAN_MOVED_FROM OR FAN_DELETE_SELF OR FAN_MOVE_SELF) \<noteq> 0"

text \<open>The body of the inner loop: one record for one source, with the events it adds to the batch.\<close>

definition collect_record :: "kernel \<Rightarrow> u64 \<Rightarrow> u64 \<Rightarrow> FidRecord \<Rightarrow> SourceRoot \<Rightarrow> WatcherEvent list \<times> SourceRoot" where
  "collect_record k mm m r s = (case fid_record_path k s r of (None, s) \<Rightarrow> ([], s)
   | (Some path, s) \<Rightarrow> (case source_relative_event_path s path of None \<Rightarrow> ([], s)
     | Some rel \<Rightarrow>
         let ev = pending_event (root_id s) m (mask_to_kind m) (Some rel) False in
         if is_removal m then ([ev], remove_handle_paths_under path s)
         else (case track_new_path_and_mark_directory k mm path s of
             (True, s) \<Rightarrow> ([ev], s)
           | (False, s) \<Rightarrow> ([ev, pending_event (root_id s) 0 ''watch_mark_failed'' None True], s))))"

fun collect_records :: "kernel \<Rightarrow> u64 \<Rightarrow> u64 \<Rightarrow> FidRecord list \<Rightarrow> SourceRoot \<Rightarrow> WatcherEvent list \<times> SourceRoot" where
  "collect_records k mm m [] s = ([], s)"
| "collect_records k mm m (r # rs) s = (case collect_record k mm m r s of (evs, s) \<Rightarrow>
     (case collect_records k mm m rs s of (evs', s) \<Rightarrow> (evs @ evs', s)))"

fun collect_sources :: "kernel \<Rightarrow> u64 \<Rightarrow> u64 \<Rightarrow> FidRecord list \<Rightarrow> SourceRoot list \<Rightarrow> WatcherEvent list \<times> SourceRoot list" where
  "collect_sources k mm m rs [] = ([], [])"
| "collect_sources k mm m rs (s # ss) = (case collect_records k mm m rs s of (evs, s) \<Rightarrow>
     (case collect_sources k mm m rs ss of (evs', ss) \<Rightarrow> (evs @ evs', s # ss)))"

definition collect_fid_name_event :: "kernel \<Rightarrow> u64 \<Rightarrow> SourceRoot list \<Rightarrow> FanotifyEventMetadata \<Rightarrow> u8 list \<Rightarrow>
    watch_error + WatcherEvent list \<times> SourceRoot list" where
  "collect_fid_name_event k mm sources m event = (case fid_records event of Inl e \<Rightarrow> Inl e
   | Inr rs \<Rightarrow> Inr (collect_sources k mm (meta_mask m) rs sources))"

text \<open>The overflow branch: every source must be reconciled, and a handle map that cannot be asked lazily is built anew, at
  most every ten minutes.\<close>

definition rebuild_due :: "kernel \<Rightarrow> nat option \<Rightarrow> bool" where
  "rebuild_due k at = (case at of None \<Rightarrow> True | Some t \<Rightarrow> 600 * 1000000000 < instant_ns k - t)"

fun queue_overflow :: "kernel \<Rightarrow> u64 \<Rightarrow> SourceRoot list \<Rightarrow> nat option \<Rightarrow>
    WatcherEvent list \<times> SourceRoot list \<times> nat option" where
  "queue_overflow k m [] at = ([], [], at)"
| "queue_overflow k m (s # ss) at =
     (let rebuild = \<not> lazy_handles s \<and> \<not> root_is_file s \<and> rebuild_due k at;
          s' = (if rebuild then (case build_handle_path_map k (root_path s) (root_is_file s) of
                  Inl _ \<Rightarrow> s | Inr handles \<Rightarrow> s\<lparr>handle_paths := handles\<rparr>) else s)
      in case queue_overflow k m ss (if rebuild then Some (instant_ns k) else at) of
           (evs, ss, at) \<Rightarrow> (pending_event (root_id s) m ''queue_overflow'' None True # evs, s' # ss, at))"

text \<open>The loop of \<open>parse_events\<close> over a buffer. It ends at the first event that cannot be trusted; an event whose records are
  malformed is skipped.\<close>

function parse_loop :: "kernel \<Rightarrow> u64 \<Rightarrow> FanotifyMode \<Rightarrow> u8 list \<Rightarrow> SourceRoot list \<times> nat option \<Rightarrow>
    watch_error + WatcherEvent list \<times> SourceRoot list \<times> nat option" where
  "parse_loop k mm how bytes (sources, at) =
     (if length bytes < 24 then Inr ([], sources, at)
      else case read_metadata bytes of Inl e \<Rightarrow> Inl e
      | Inr m \<Rightarrow>
          let n = unat (meta_event_len m) in
          if meta_vers m \<noteq> FANOTIFY_METADATA_VERSION then Inr ([], sources, at)
          else if n = 0 \<or> length bytes < n then Inr ([], sources, at)
          else case (if meta_mask m AND FAN_Q_OVERFLOW \<noteq> 0
                     then Inr (queue_overflow k (meta_mask m) sources at)
                     else case checked_slice bytes 0 n of Inl e \<Rightarrow> Inl e
                     | Inr event \<Rightarrow>
                         (case how of
                            FdPath \<Rightarrow> Inr (collect_fd_path_event k sources m, sources, at)
                          | FidName \<Rightarrow> (case collect_fid_name_event k mm sources m event of
                                Inl OutOfBounds \<Rightarrow> Inl OutOfBounds
                              | Inl (Bail _) \<Rightarrow> Inr ([], sources, at)
                              | Inr (evs, sources) \<Rightarrow> Inr (evs, sources, at)))) of Inl e \<Rightarrow> Inl e
          | Inr (evs, rest) \<Rightarrow>
              (case parse_loop k mm how (drop n bytes) rest of Inl e \<Rightarrow> Inl e
               | Inr (evs', rest) \<Rightarrow> Inr (evs @ evs', rest)))"
  by pat_completeness auto
termination
  by (relation "measure (\<lambda>(k, mm, how, bytes, s). length bytes)") auto

declare parse_loop.simps [simp del]

definition event_key :: "WatcherEvent \<Rightarrow> string \<times> string \<times> string option" where
  "event_key e = (we_source e, we_kind e, we_path e)"

definition final_batch :: "bool \<Rightarrow> SourceRoot list \<Rightarrow> WatcherEvent list \<Rightarrow> WatcherEvent list" where
  "final_batch sticky sources evs =
     (let batch = dedup_by event_key [] evs
      in if sticky \<and> batch \<noteq> []
         then rev (map (\<lambda>s. pending_event (root_id s) 0 ''event_persist_gap'' None True) sources) @ batch
         else batch)"

text \<open>\<open>parse_events\<close>. \<open>persist\<close> says whether the database accepts the batch; an empty batch needs no transaction.\<close>

definition parse_events :: "kernel \<Rightarrow> u64 \<Rightarrow> FanotifyMode \<Rightarrow> bool \<Rightarrow> int \<Rightarrow> u8 list \<Rightarrow> SourceRoot list \<times> WatchCtx \<times> db \<Rightarrow>
    watch_error + SourceRoot list \<times> WatchCtx \<times> db" where
  "parse_events k mm how persist now bytes = (\<lambda>(sources, ctx, db).
     case parse_loop k mm how bytes (sources, last_eager_rebuild ctx) of Inl e \<Rightarrow> Inl e
     | Inr (evs, sources, at) \<Rightarrow>
         let batch = final_batch (sticky_rescan ctx) sources evs; ctx = ctx\<lparr>last_eager_rebuild := at\<rparr> in
         if persist \<or> batch = []
         then Inr (sources, if batch = [] then ctx else ctx\<lparr>sticky_rescan := False\<rparr>, record_events_batch now batch db)
         else Inr (sources, ctx\<lparr>sticky_rescan := True\<rparr>, db))"

section \<open>Setting up\<close>

definition source_needs_fanotify :: "SourceGroupConfig \<Rightarrow> bool" where
  "source_needs_fanotify s \<longleftrightarrow> src_enabled s \<and> machine_id_or_local (src_machine s) = ''local''
     \<and> list_ex dst_enabled (destinations s)"

text \<open>\<open>source_is_watched_here\<close> of \<open>watcher/mod.rs\<close>: the sources that get a notice after a restart, and whether they need one.\<close>

definition source_is_watched_here :: "SourceGroupConfig \<Rightarrow> bool" where
  "source_is_watched_here s \<longleftrightarrow> src_enabled s \<and> machine_id_or_local (src_machine s) = ''local''
     \<and> list_ex dst_enabled (destinations s)"

definition watcher_covers_downtime :: bool where
  "watcher_covers_downtime = False"

text \<open>Asking the kernel to open the root by its own handle: the answer must be the root itself.\<close>

definition probe_lazy_handle_resolution :: "kernel \<Rightarrow> path_buf \<Rightarrow> bool" where
  "probe_lazy_handle_resolution k root \<longleftrightarrow> CHR 0x00 \<notin> set root \<and> open_root k root \<and>
     (case handle_key_from_path k root of Inl _ \<Rightarrow> False
      | Inr h \<Rightarrow> (case path_from_handle k h of None \<Rightarrow> False | Some p \<Rightarrow> path_eq p root))"

definition source_root :: "kernel \<Rightarrow> SourceGroupConfig \<Rightarrow> watch_error + SourceRoot" where
  "source_root k s = (case canonicalize k (src_path s) of None \<Rightarrow> Inl (Bail ''failed to canonicalize source'')
   | Some root \<Rightarrow> (case (path_is_dir k root, path_is_file k root) of
       (Some dir, Some file) \<Rightarrow>
         if \<not> dir \<and> \<not> file then Inl (Bail ''source is neither file nor directory'')
         else let is_lazy = probe_lazy_handle_resolution k root in
           (case (if is_lazy then Inr (insert_handle_path k root
                   (case path_parent root of None \<Rightarrow> [] | Some p \<Rightarrow> insert_handle_path k p []))
                 else build_handle_path_map k root file) of Inl e \<Rightarrow> Inl e
            | Inr handles \<Rightarrow> Inr \<lparr>root_id = src_id s, root_path = root, root_is_file = file,
                handle_paths = handles, lazy_handles = is_lazy, recursive_marks = False\<rparr>)
     | _ \<Rightarrow> Inl (Bail ''failed to stat'')))"

fun first_failure :: "('a \<Rightarrow> 'e + 'b) \<Rightarrow> 'a list \<Rightarrow> 'e + 'b list" where
  "first_failure f [] = Inr []"
| "first_failure f (x # xs) = (case f x of Inl e \<Rightarrow> Inl e
     | Inr y \<Rightarrow> (case first_failure f xs of Inl e \<Rightarrow> Inl e | Inr ys \<Rightarrow> Inr (y # ys)))"

definition source_roots :: "kernel \<Rightarrow> AppConfig \<Rightarrow> watch_error + SourceRoot list" where
  "source_roots k cfg = first_failure (source_root k) (filter source_needs_fanotify (source_groups cfg))"

definition mark_source_fid :: "kernel \<Rightarrow> u64 \<Rightarrow> SourceRoot \<Rightarrow> watch_error + SourceRoot" where
  "mark_source_fid k m s =
     (if try_mark k (root_path s) (FAN_MARK_ADD OR FAN_MARK_FILESYSTEM) m then Inr s
      else if root_is_file s
      then (if try_mark k (root_path s) FAN_MARK_ADD m then Inr s else Inl (Bail ''failed to mark source''))
      else if mark_directory_tree k (root_path s) (m OR FAN_EVENT_ON_CHILD) then Inr (s\<lparr>recursive_marks := True\<rparr>)
      else Inl (Bail ''failed to mark source''))"

definition mark_source_fd :: "kernel \<Rightarrow> u64 \<Rightarrow> SourceRoot \<Rightarrow> watch_error + unit" where
  "mark_source_fd k m s =
     (if try_mark k (root_path s) (FAN_MARK_ADD OR FAN_MARK_FILESYSTEM) m
       \<or> try_mark k (root_path s) (FAN_MARK_ADD OR FAN_MARK_MOUNT) m
       \<or> (if root_is_file s then try_mark k (root_path s) FAN_MARK_ADD m
          else mark_directory_tree k (root_path s) (m OR FAN_EVENT_ON_CHILD))
      then Inr () else Inl (Bail ''failed to mark source''))"

definition FID_MASK :: u64 where
  "FID_MASK = FAN_MODIFY OR FAN_ATTRIB OR FAN_CLOSE_WRITE OR FAN_CREATE OR FAN_DELETE OR FAN_MOVED_FROM
     OR FAN_MOVED_TO OR FAN_DELETE_SELF OR FAN_MOVE_SELF OR FAN_ONDIR"

text \<open>The two tiers: a queue that cannot be had is followed by the next tier, a mark that cannot be set is not.\<close>

fun fid_tiers :: "kernel \<Rightarrow> u64 \<Rightarrow> SourceRoot list \<Rightarrow> u32 list \<Rightarrow> watch_error + SourceRoot list" where
  "fid_tiers k m sources [] = Inl (Bail ''fanotify_init FID modes failed'')"
| "fid_tiers k m sources (flags # tiers) =
     (if fanotify_init k flags then first_failure (mark_source_fid k m) sources else fid_tiers k m sources tiers)"

definition setup_fid_name_fanotify :: "kernel \<Rightarrow> u64 \<Rightarrow> SourceRoot list \<Rightarrow> watch_error + SourceRoot list" where
  "setup_fid_name_fanotify k m sources =
     fid_tiers k m sources [FAN_REPORT_DIR_FID OR FAN_REPORT_NAME OR FAN_REPORT_FID, FAN_REPORT_FID]"

definition setup_fd_path_fanotify :: "kernel \<Rightarrow> SourceRoot list \<Rightarrow> watch_error + unit" where
  "setup_fd_path_fanotify k sources = (if \<not> fanotify_init k 0 then Inl (Bail ''fanotify_init fd path mode failed'')
     else case first_failure (mark_source_fd k (FAN_MODIFY OR FAN_CLOSE_WRITE)) sources of
       Inl e \<Rightarrow> Inl e | Inr _ \<Rightarrow> Inr ())"

section \<open>The loop of a watcher and its supervision\<close>

text \<open>What a turn of the loop meets: no data, an error of the read, or a buffer, with the kernel's answers while it is parsed,
  whether the batch persists, and the wall clock.\<close>

datatype read_result = NoData | ReadFailed | Bytes kernel bool int "u8 list"

fun read_loop :: "u64 \<Rightarrow> FanotifyMode \<Rightarrow> read_result list \<Rightarrow> SourceRoot list \<times> WatchCtx \<times> db \<Rightarrow>
    watch_error option \<times> SourceRoot list \<times> WatchCtx \<times> db" where
  "read_loop mm how [] st = (None, st)"
| "read_loop mm how (NoData # rs) st = read_loop mm how rs st"
| "read_loop mm how (ReadFailed # rs) st = (Some (Bail ''failed to read fanotify fd''), st)"
| "read_loop mm how (Bytes k persist now bytes # rs) st =
     (case parse_events k mm how persist now bytes st of Inl e \<Rightarrow> (Some e, st)
      | Inr st \<Rightarrow> read_loop mm how rs st)"

text \<open>\<open>record_event(..).ok()\<close> with the whole source to be reconciled, for every source.\<close>

definition mark_gap :: "int \<Rightarrow> string \<Rightarrow> string list \<Rightarrow> db \<Rightarrow> db" where
  "mark_gap now kind ids db = fold (\<lambda>s db. snd (record_event now (pending_event s 0 kind None True) db)) ids db"

definition run_fanotify_loop :: "kernel \<Rightarrow> int \<Rightarrow> AppConfig \<Rightarrow> read_result list \<Rightarrow> db \<Rightarrow> watch_error option \<times> db" where
  "run_fanotify_loop k now cfg reads db = (case source_roots k cfg of Inl e \<Rightarrow> (Some e, db)
   | Inr sources \<Rightarrow> if sources = [] then (None, db)
     else let db = ensure_open_cycles cfg now (ensure_config cfg now db);
              ctx = \<lparr>sticky_rescan = False, last_eager_rebuild = None\<rparr> in
       (case setup_fid_name_fanotify k FID_MASK sources of
          Inr sources \<Rightarrow> (case read_loop FID_MASK FidName reads (sources, ctx, db) of (e, _, _, db) \<Rightarrow> (e, db))
        | Inl _ \<Rightarrow>
            let db = mark_gap now ''watcher_degraded'' (map root_id sources) db in
            (case setup_fd_path_fanotify k sources of Inl e \<Rightarrow> (Some e, db)
             | Inr _ \<Rightarrow> (case read_loop (FAN_MODIFY OR FAN_CLOSE_WRITE) FdPath reads (sources, ctx, db) of
                 (e, _, _, db) \<Rightarrow> (e, db)))))"

text \<open>The supervision of a source's watcher: a run that ends with an error is followed by a marked gap and the next run.\<close>

fun supervise :: "AppConfig \<Rightarrow> (kernel \<times> int \<times> read_result list) list \<Rightarrow> db \<Rightarrow> db" where
  "supervise cfg [] db = db"
| "supervise cfg ((k, now, reads) # runs) db = (case run_fanotify_loop k now cfg reads db of
     (None, db) \<Rightarrow> db
   | (Some _, db) \<Rightarrow> supervise cfg runs (mark_gap now ''watcher_restart_gap'' (map src_id (source_groups cfg)) db))"

end
