(* ===== verification/Watcher_Parse.thy ===== *)
theory Watcher_Parse
  imports Watcher
begin

text \<open>
  Parsing the kernel's event buffers: no buffer makes the watcher read out of bounds, and the kernel's own encoding is
  read back exactly.
\<close>

section \<open>No read is out of bounds\<close>

lemma read_metadata_ok: "24 \<le> length bs \<Longrightarrow> \<exists>m. read_metadata bs = Inr m"
  by (simp add: read_metadata_def)

lemma read_info_header_ok: "4 \<le> length bs \<Longrightarrow> \<exists>h. read_info_header bs = Inr h"
  by (simp add: read_info_header_def)

lemma checked_slice_ok: "i \<le> j \<Longrightarrow> j \<le> length xs \<Longrightarrow> checked_slice xs i j = Inr (slice xs i j)"
  by (simp add: checked_slice_def)

lemma parse_fid_record_safe: "parse_fid_record t bs \<noteq> Inl OutOfBounds"
  by (auto simp: parse_fid_record_def read_handle_header_def Let_def checked_slice_def)

lemma fid_loop_safe: "fid_loop event offset \<noteq> Inl OutOfBounds"
proof (induction event offset rule: fid_loop.induct)
  case (1 event offset)
  show ?case
  proof (cases "length event < offset + 4")
    case False
    then obtain header where header: "read_info_header (drop offset event) = Inr header"
      using read_info_header_ok [of "drop offset event"] by fastforce
    let ?len = "unat (header_len header)"
    show ?thesis
    proof (cases "?len < 4 \<or> length event < offset + ?len")
      case ok: False
      define found where "found = (if wanted_info (header_info_type header)
        then parse_fid_record (header_info_type header) (slice event offset (offset + ?len)) else Inr None)"
      have "found \<noteq> Inl OutOfBounds" by (simp add: found_def parse_fid_record_safe)
      moreover have "fid_loop event offset = (case found of Inl e \<Rightarrow> Inl e | Inr found \<Rightarrow>
          (case fid_loop event (offset + ?len) of Inl e \<Rightarrow> Inl e
           | Inr rs \<Rightarrow> Inr (case found of None \<Rightarrow> rs | Some r \<Rightarrow> r # rs)))"
        by (subst fid_loop.simps) (use False ok in \<open>simp add: header Let_def found_def checked_slice_ok\<close>)
      moreover have "fid_loop event (offset + ?len) \<noteq> Inl OutOfBounds" if "found = Inr x" for x
        by (rule "1.IH" [OF False header refl ok, of x]) (use that ok in \<open>auto simp: found_def checked_slice_ok split: if_splits\<close>)
      ultimately show ?thesis by (auto split: sum.splits)
    qed (use False header in \<open>subst fid_loop.simps, simp add: Let_def\<close>)
  qed (simp add: fid_loop.simps)
qed

lemma fid_records_safe: "fid_records event \<noteq> Inl OutOfBounds"
  using fid_loop_safe by (auto simp: fid_records_def read_metadata_def)

text \<open>One turn of the loop over a buffer.\<close>

definition parse_one :: "kernel \<Rightarrow> u64 \<Rightarrow> FanotifyMode \<Rightarrow> FanotifyEventMetadata \<Rightarrow> u8 list \<Rightarrow> SourceRoot list \<times> nat option \<Rightarrow>
    WatcherEvent list \<times> SourceRoot list \<times> nat option" where
  "parse_one k mm how m event = (\<lambda>(sources, at).
     if meta_mask m AND FAN_Q_OVERFLOW \<noteq> 0 then queue_overflow k (meta_mask m) sources at
     else case how of FdPath \<Rightarrow> (collect_fd_path_event k sources m, sources, at)
       | FidName \<Rightarrow> (case fid_records event of Inl _ \<Rightarrow> ([], sources, at)
           | Inr rs \<Rightarrow> (case collect_sources k mm (meta_mask m) rs sources of (evs, sources) \<Rightarrow> (evs, sources, at))))"

lemma parse_loop_stop:
  assumes "length bytes < 24 \<or> read_metadata bytes = Inr m \<and>
    (meta_vers m \<noteq> FANOTIFY_METADATA_VERSION \<or> unat (meta_event_len m) = 0 \<or> length bytes < unat (meta_event_len m))"
  shows "parse_loop k mm how bytes (sources, at) = Inr ([], sources, at)"
  by (subst parse_loop.simps) (use assms in \<open>auto simp: Let_def\<close>)

lemma parse_loop_step:
  assumes "24 \<le> length bytes" and "read_metadata bytes = Inr m" and "meta_vers m = FANOTIFY_METADATA_VERSION"
    and "n = unat (meta_event_len m)" and "0 < n" "n \<le> length bytes"
  shows "parse_loop k mm how bytes (sources, at) = (case parse_one k mm how m (take n bytes) (sources, at) of
     (evs, rest) \<Rightarrow> (case parse_loop k mm how (drop n bytes) rest of Inl e \<Rightarrow> Inl e
       | Inr (evs', rest) \<Rightarrow> Inr (evs @ evs', rest)))"
proof -
  have "(case collect_fid_name_event k mm sources m (take n bytes) of
      Inl OutOfBounds \<Rightarrow> Inl OutOfBounds | Inl (Bail _) \<Rightarrow> Inr ([], sources, at)
    | Inr (evs, sources) \<Rightarrow> Inr (evs, sources, at))
    = Inr (case fid_records (take n bytes) of Inl _ \<Rightarrow> ([], sources, at)
       | Inr rs \<Rightarrow> (case collect_sources k mm (meta_mask m) rs sources of (evs, sources) \<Rightarrow> (evs, sources, at)))"
    using fid_records_safe [of "take n bytes"]
    by (auto simp: collect_fid_name_event_def split: sum.splits watch_error.splits prod.splits)
  then show ?thesis
    by (subst parse_loop.simps) (use assms in \<open>auto simp: Let_def parse_one_def checked_slice_ok split: prod.splits FanotifyMode.splits\<close>)
qed

lemma parse_loop_safe: "\<exists>r. parse_loop k mm how bytes st = Inr r"
proof (induction bytes arbitrary: st rule: length_induct)
  case (1 bytes)
  obtain sources at where st: "st = (sources, at)" by (cases st)
  show ?case
  proof (cases "length bytes < 24")
    case True
    then show ?thesis using parse_loop_stop by (metis st)
  next
    case False
    then obtain m where m: "read_metadata bytes = Inr m" using read_metadata_ok [of bytes] by auto
    let ?n = "unat (meta_event_len m)"
    show ?thesis
    proof (cases "meta_vers m \<noteq> FANOTIFY_METADATA_VERSION \<or> ?n = 0 \<or> length bytes < ?n")
      case True
      then show ?thesis using parse_loop_stop [of bytes m] m by (simp add: st)
    next
      case ok: False
      obtain evs rest where one: "parse_one k mm how m (take ?n bytes) (sources, at) = (evs, rest)" by (metis surj_pair)
      have "length (drop ?n bytes) < length bytes" using ok False by auto
      with "1" obtain evs' rest' where "parse_loop k mm how (drop ?n bytes) rest = Inr (evs', rest')"
        by (metis surj_pair)
      then show ?thesis using parse_loop_step [OF _ m, of ?n k mm how sources at] ok False one by (simp add: st)
    qed
  qed
qed

text \<open>C6: whatever bytes the kernel hands over, in either mode, parsing them ends, reads nothing past the end of the
  buffer, of an event, of an information record or of a handle, and does not stop the watcher.\<close>

theorem parse_never_out_of_bounds:
  "\<exists>st'. parse_events k mm how persist now bytes st = Inr st'"
proof -
  obtain sources ctx db where st: "st = (sources, ctx, db)" by (cases st)
  obtain evs sources' at where "parse_loop k mm how bytes (sources, last_eager_rebuild ctx) = Inr (evs, sources', at)"
    using parse_loop_safe by (metis surj_pair)
  then show ?thesis by (simp add: parse_events_def st Let_def)
qed

section \<open>The kernel's encoding is read back\<close>

text \<open>
  The layout of \<open>fanotify(7)\<close>: an information record with a file handle, named or not and padded with zeros, or
  a record of a type the watcher does not ask for; an event as its metadata followed by its records.
\<close>

datatype wire_info =
    HandleInfo (info_type: u8) (info_fsid: "u8 list") (info_handle_type: u32) (info_handle: "u8 list") (info_name: "u8 list")
      (info_padding: nat)
  | OpaqueInfo (info_type: u8) (info_payload: "u8 list")

record wire_event =
  wire_mask :: u64
  wire_fd :: u32
  wire_pid :: u32
  wire_infos :: "wire_info list"

definition handle_key :: "u32 \<Rightarrow> u8 list \<Rightarrow> file_handle" where
  "handle_key t bs = le_bytes 4 (length bs) @ le_bytes 4 (unat t) @ bs"

fun info_body :: "wire_info \<Rightarrow> u8 list" where
  "info_body (HandleInfo t fsid ht h name pad) = fsid @ handle_key ht h @ name @ replicate pad 0"
| "info_body (OpaqueInfo t payload) = payload"

definition encode_info :: "wire_info \<Rightarrow> u8 list" where
  "encode_info i = [info_type i, 0] @ le_bytes 2 (4 + length (info_body i)) @ info_body i"

definition encode_event :: "wire_event \<Rightarrow> u8 list" where
  "encode_event e = (let infos = concat (map encode_info (wire_infos e)) in
     le_bytes 4 (24 + length infos) @ [FANOTIFY_METADATA_VERSION, 0] @ le_bytes 2 24 @ le_bytes 8 (unat (wire_mask e))
     @ le_bytes 4 (unat (wire_fd e)) @ le_bytes 4 (unat (wire_pid e)) @ infos)"

fun info_ok :: "wire_info \<Rightarrow> bool" where
  "info_ok (HandleInfo t fsid ht h name pad) \<longleftrightarrow> wanted_info t \<and> length fsid = 8 \<and> length h \<le> MAX_HANDLE_SZ
     \<and> 0 \<notin> set name \<and> (named_info t \<longrightarrow> name \<noteq> []) \<and> 4 + length (info_body (HandleInfo t fsid ht h name pad)) < 65536"
| "info_ok (OpaqueInfo t payload) \<longleftrightarrow> \<not> wanted_info t \<and> 4 + length payload < 65536"

definition event_ok :: "wire_event \<Rightarrow> bool" where
  "event_ok e \<longleftrightarrow> list_all info_ok (wire_infos e) \<and> length (encode_event e) < 2 ^ 32"

fun record_of :: "wire_info \<Rightarrow> FidRecord option" where
  "record_of (HandleInfo t fsid ht h name pad) = Some \<lparr>fid_handle = handle_key ht h,
     fid_name = (if named_info t then Some (name_of_bytes name) else None)\<rparr>"
| "record_of (OpaqueInfo t payload) = None"

definition records_of :: "wire_event \<Rightarrow> FidRecord list" where
  "records_of e = List.map_filter record_of (wire_infos e)"

lemma le_word_le_bytes: "n < 256 ^ k \<Longrightarrow> le_word (le_bytes k n) = word_of_nat n"
  by (simp add: le_word_def from_le_le_bytes_small)

lemma le_word_unat: "LENGTH('a) = 8 * k \<Longrightarrow> le_word (le_bytes k (unat w)) = (w :: 'a::len word)"
proof -
  assume "LENGTH('a) = 8 * k"
  then have "unat w < 256 ^ k" using unsigned_less [of w] by (simp add: power_mult)
  then show ?thesis by (simp add: le_word_le_bytes)
qed

lemma unat_small_word:
  "n < 65536 \<Longrightarrow> unat (word_of_nat n :: u16) = n"
  "n < 2 ^ 32 \<Longrightarrow> unat (word_of_nat n :: u32) = n"
  by (simp_all add: unsigned_of_nat take_bit_eq_mod)

lemma length_handle_key [simp]: "length (handle_key t bs) = 8 + length bs"
  by (simp add: handle_key_def)

lemma length_encode_info [simp]: "length (encode_info i) = 4 + length (info_body i)"
  by (simp add: encode_info_def)

lemma read_header_encoded:
  assumes "info_ok i"
  shows "read_info_header (encode_info i @ rest) =
    Inr \<lparr>header_info_type = info_type i, header_pad = 0, header_len = word_of_nat (length (encode_info i))\<rparr>"
proof -
  have "length (encode_info i) < 65536" using assms by (cases i) simp_all
  then have "le_word (le_bytes 2 (4 + length (info_body i))) = (word_of_nat (length (encode_info i)) :: u16)"
    by (simp add: le_word_le_bytes)
  then show ?thesis by (simp add: read_info_header_def encode_info_def)
qed

lemma drop_prefix: "length xs = n \<Longrightarrow> drop n (xs @ ys) = ys"
  by simp

lemma takeWhile_name: "0 \<notin> set name \<Longrightarrow> takeWhile (\<lambda>b. b \<noteq> (0::u8)) (name @ replicate pad 0) = name"
  by (induction name) (auto simp: takeWhile_replicate)

lemma parse_record_encoded:
  assumes "info_ok i" and "i = HandleInfo t fsid ht h name pad"
  shows "parse_fid_record (info_type i) (encode_info i) = Inr (record_of i)"
proof -
  have ok: "length fsid = 8" "length h \<le> 128" "0 \<notin> set name" "named_info t \<longrightarrow> name \<noteq> []"
    using assms by (simp_all add: MAX_HANDLE_SZ_def)
  let ?tail = "name @ replicate pad 0"
  have split: "encode_info i = ([t, 0] @ le_bytes 2 (4 + length (info_body i)) @ fsid) @ handle_key ht h @ ?tail"
    by (simp add: encode_info_def assms(2))
  have d12: "drop 12 (encode_info i) = handle_key ht h @ ?tail"
    unfolding split by (rule drop_prefix) (simp add: ok(1))
  have header: "read_handle_header (drop 12 (encode_info i)) = Inr \<lparr>handle_bytes = word_of_nat (length h), handle_type = ht\<rparr>"
  proof -
    have "le_word (le_bytes 4 (length h)) = (word_of_nat (length h) :: u32)"
      using ok(2) by (intro le_word_le_bytes) simp
    moreover have "le_word (le_bytes 4 (unat ht)) = ht" by (rule le_word_unat) simp
    ultimately show ?thesis unfolding d12 by (simp add: read_handle_header_def handle_key_def)
  qed
  have n: "unat (word_of_nat (length h) :: u32) = length h" using ok(2) by (simp add: unsigned_of_nat take_bit_eq_mod)
  have len: "length (encode_info i) = 12 + (8 + length h) + length ?tail"
    by (simp add: assms(2) ok(1))
  have handle: "slice (encode_info i) 12 (12 + (8 + length h)) = handle_key ht h" by (simp add: d12)
  have rest: "drop (12 + (8 + length h)) (encode_info i) = ?tail"
    by (metis (no_types) add.commute append_eq_conv_conj d12 drop_drop length_handle_key)
  have name: "named_info t \<Longrightarrow> parse_fid_name ?tail = Some (name_of_bytes name)"
    using ok(3,4) by (simp add: parse_fid_name_def takeWhile_name)
  have "parse_fid_record t bs = Inr (Some \<lparr>fid_handle = handle_key ht h,
      fid_name = (if named_info t then Some (name_of_bytes name) else None)\<rparr>)"
    if "read_handle_header (drop 12 bs) = Inr \<lparr>handle_bytes = word_of_nat (length h), handle_type = ht\<rparr>"
      "length bs = 12 + (8 + length h) + length ?tail" "slice bs 12 (12 + (8 + length h)) = handle_key ht h"
      "drop (12 + (8 + length h)) bs = ?tail" for bs
    using that name ok(2) by (simp add: parse_fid_record_def n MAX_HANDLE_SZ_def Let_def checked_slice_def)
  from this [OF header len handle rest] show ?thesis by (simp add: assms(2))
qed

lemma fid_loop_encoded:
  assumes "list_all info_ok is"
  shows "fid_loop (pre @ concat (map encode_info is)) (length pre) = Inr (List.map_filter record_of is)"
  using assms
proof (induction "is" arbitrary: pre)
  case Nil
  then show ?case by (simp add: fid_loop.simps map_filter_simps)
next
  case (Cons i "is")
  let ?event = "pre @ concat (map encode_info (i # is))"
  let ?n = "length (encode_info i)"
  have ok: "info_ok i" using Cons.prems by simp
  have drop: "drop (length pre) ?event = encode_info i @ concat (map encode_info is)" by simp
  have header: "read_info_header (drop (length pre) ?event) =
      Inr \<lparr>header_info_type = info_type i, header_pad = 0, header_len = word_of_nat ?n\<rparr>"
    unfolding drop by (rule read_header_encoded [OF ok])
  have "?n < 65536" using ok by (cases i) simp_all
  then have n: "unat (word_of_nat ?n :: u16) = ?n" by (rule unat_small_word(1))
  have slice: "checked_slice ?event (length pre) (length pre + ?n) = Inr (encode_info i)"
    by (simp add: checked_slice_def)
  have found: "(if wanted_info (info_type i) then parse_fid_record (info_type i) (encode_info i) else Inr None) = Inr (record_of i)"
    using ok parse_record_encoded [OF ok] by (cases i) simp_all
  have IH: "fid_loop ?event (length pre + ?n) = Inr (List.map_filter record_of is)"
    using Cons.IH [of "pre @ encode_info i"] Cons.prems by simp
  have step: "fid_loop ev off = Inr (case record_of i of None \<Rightarrow> List.map_filter record_of is
      | Some r \<Rightarrow> r # List.map_filter record_of is)"
    if "off + ?n \<le> length ev" "read_info_header (drop off ev) =
      Inr \<lparr>header_info_type = info_type i, header_pad = 0, header_len = word_of_nat ?n\<rparr>"
      "checked_slice ev off (off + ?n) = Inr (encode_info i)"
      "fid_loop ev (off + ?n) = Inr (List.map_filter record_of is)" for ev off
    by (subst fid_loop.simps) (use that found n in \<open>simp add: Let_def split: if_splits\<close>)
  have "length pre + ?n \<le> length ?event" by simp
  from step [OF this header slice IH] show ?case by (simp add: map_filter_simps split: option.split)
qed

lemma length_encode_event: "length (encode_event e) = 24 + length (concat (map encode_info (wire_infos e)))"
  by (simp add: encode_event_def Let_def)

definition meta_of :: "wire_event \<Rightarrow> FanotifyEventMetadata" where
  "meta_of e = \<lparr>meta_event_len = word_of_nat (length (encode_event e)), meta_vers = FANOTIFY_METADATA_VERSION,
     meta_reserved = 0, meta_metadata_len = 24, meta_mask = wire_mask e, meta_fd = wire_fd e, meta_pid = wire_pid e\<rparr>"

lemma metadata_slices:
  assumes "length a = 4" "length c = 2" "length d = 8" "length f = 4" "length g = 4" and "bs = a @ [v, z] @ c @ d @ f @ g @ rest"
  shows "read_metadata bs = Inr \<lparr>meta_event_len = le_word a, meta_vers = v, meta_reserved = z, meta_metadata_len = le_word c,
    meta_mask = le_word d, meta_fd = le_word f, meta_pid = le_word g\<rparr>"
proof -
  have "slice bs 0 4 = a" using assms(1) by (simp add: assms(6))
  moreover have "bs ! 4 = v" "bs ! 5 = z" using assms(1) by (simp_all add: assms(6) nth_append)
  moreover have "slice bs 6 8 = c" using assms(1,2) by (simp add: assms(6))
  moreover have "slice bs 8 16 = d" using assms(1-3) by (simp add: assms(6))
  moreover have "slice bs 16 20 = f" using assms(1-4) by (simp add: assms(6))
  moreover have "slice bs 20 24 = g" using assms(1-5) by (simp add: assms(6))
  moreover have "24 \<le> length bs" using assms by simp
  ultimately show ?thesis by (simp add: read_metadata_def)
qed

lemma read_metadata_encoded:
  assumes "event_ok e"
  shows "read_metadata (encode_event e @ rest) = Inr (meta_of e)"
proof -
  let ?infos = "concat (map encode_info (wire_infos e))"
  have "length (encode_event e) < 256 ^ 4" using assms by (simp add: event_ok_def)
  then have "le_word (le_bytes 4 (24 + length ?infos)) = (word_of_nat (length (encode_event e)) :: u32)"
    by (simp add: le_word_le_bytes length_encode_event del: length_concat)
  moreover have "le_word (le_bytes 2 24) = (24 :: u16)" using le_word_le_bytes [of 24 2, where 'a = 16] by simp
  moreover have "le_word (le_bytes 8 (unat (wire_mask e))) = wire_mask e" by (rule le_word_unat) simp
  moreover have "le_word (le_bytes 4 (unat (wire_fd e))) = wire_fd e" by (rule le_word_unat) simp
  moreover have "le_word (le_bytes 4 (unat (wire_pid e))) = wire_pid e" by (rule le_word_unat) simp
  moreover have "encode_event e @ rest = le_bytes 4 (24 + length ?infos) @ [FANOTIFY_METADATA_VERSION, 0] @ le_bytes 2 24
      @ le_bytes 8 (unat (wire_mask e)) @ le_bytes 4 (unat (wire_fd e)) @ le_bytes 4 (unat (wire_pid e)) @ (?infos @ rest)"
    by (simp add: encode_event_def Let_def)
  ultimately show ?thesis
    by (subst metadata_slices) (simp_all add: meta_of_def)
qed

lemma fid_records_encoded:
  assumes "event_ok e"
  shows "fid_records (encode_event e) = Inr (records_of e)"
proof -
  let ?infos = "concat (map encode_info (wire_infos e))"
  obtain pre where pre: "encode_event e = pre @ ?infos" "length pre = 24"
  proof
    show "encode_event e = take 24 (encode_event e) @ ?infos"
      by (simp add: encode_event_def Let_def)
  qed (simp add: length_encode_event)
  have "read_metadata (encode_event e) = Inr (meta_of e)" using read_metadata_encoded [OF assms, of "[]"] by simp
  moreover have "fid_loop (encode_event e) 24 = Inr (records_of e)"
    using fid_loop_encoded [of "wire_infos e" pre] assms pre by (simp add: event_ok_def records_of_def)
  ultimately show ?thesis using pre(2) by (simp add: fid_records_def meta_of_def pre(1))
qed

text \<open>A buffer of encoded events: each turn of the loop handles the next event with exactly its records.\<close>

lemma parse_loop_encoded:
  assumes "event_ok e"
  shows "parse_loop k mm how (encode_event e @ bytes) st =
    (case parse_one k mm how (meta_of e) (encode_event e) st of (evs, rest) \<Rightarrow>
      (case parse_loop k mm how bytes rest of Inl x \<Rightarrow> Inl x | Inr (evs', rest) \<Rightarrow> Inr (evs @ evs', rest)))"
proof -
  obtain sources at where st: "st = (sources, at)" by (cases st)
  have n: "unat (word_of_nat (length (encode_event e)) :: u32) = length (encode_event e)"
    using assms by (intro unat_small_word(2)) (simp add: event_ok_def)
  have m: "meta_vers (meta_of e) = FANOTIFY_METADATA_VERSION" "length (encode_event e) = unat (meta_event_len (meta_of e))"
    by (simp_all only: meta_of_def n FanotifyEventMetadata.simps)
  have "24 \<le> length (encode_event e)" by (simp add: length_encode_event)
  moreover from this have "encode_event e \<noteq> []" by (cases "encode_event e") simp_all
  ultimately show ?thesis unfolding st
    by (subst parse_loop_step [OF _ read_metadata_encoded [OF assms] m]) simp_all
qed

end
