(* ===== verification/Watcher_Facts.thy ===== *)
theory Watcher_Facts
  imports Watcher_Parse
begin

text \<open>
  What the Linux watcher records: the rows of a read are the changes that the kernel reported and no others, a batch that
  was lost is marked, and where the eager map of handles goes wrong.
\<close>

section \<open>What one event records\<close>

text \<open>
  What the kernel promises about handles: a handle opens at an absolute path, and the handle of a directory named below
  a path that the kernel has answered opens at that name. A name in a record is a component or \<open>.\<close>, the directory itself.
\<close>

definition kernel_laws :: "kernel \<Rightarrow> bool" where
  "kernel_laws k \<longleftrightarrow>
     (\<forall>t bs d. open_by_handle k t bs = Some d \<longrightarrow> is_absolute d) \<and>
     (\<forall>h d p t bs. path_from_handle k h = Some d \<and> (path_eq p d \<or> (\<exists>n. components p = components d @ [Normal n]))
        \<and> path_is_dir k p = Some True \<and> name_to_handle k p = Some (t, bs) \<and> length bs \<le> MAX_HANDLE_SZ
        \<longrightarrow> (\<exists>q. open_by_handle k t bs = Some q \<and> path_eq q p))"

definition name_ok :: "string option \<Rightarrow> bool" where
  "name_ok n = (case n of None \<Rightarrow> True | Some n \<Rightarrow> valid_name n \<or> n = ''.'')"

definition cache_sound :: "kernel \<Rightarrow> SourceRoot \<Rightarrow> bool" where
  "cache_sound k s \<longleftrightarrow> (\<forall>(h, p)\<in>set (handle_paths s). \<exists>d. path_from_handle k h = Some d \<and> path_eq p d)"

text \<open>A source that is resolved lazily, before and after some events.\<close>

definition kept :: "kernel \<Rightarrow> SourceRoot \<Rightarrow> SourceRoot \<Rightarrow> bool" where
  "kept k s s' \<longleftrightarrow> root_id s' = root_id s \<and> root_path s' = root_path s \<and> root_is_file s' = root_is_file s
     \<and> lazy_handles s' \<and> cache_sound k s'"

definition changed_paths :: "kernel \<Rightarrow> u64 \<Rightarrow> FidRecord set \<Rightarrow> SourceRoot \<Rightarrow> (string \<times> string) set" where
  "changed_paths k m rs s = {(mask_to_kind m, rel) | rel r d. r \<in> rs \<and> path_from_handle k (fid_handle r) = Some d
     \<and> source_relative_event_path s (join_name d (fid_name r)) = Some rel}"

definition paths_of :: "WatcherEvent list \<Rightarrow> string \<Rightarrow> (string \<times> string) set" where
  "paths_of evs s = {(we_kind e, p) | e p. e \<in> set evs \<and> we_source e = s \<and> we_path e = Some p}"

lemma paths_of_append [simp]: "paths_of (xs @ ys) s = paths_of xs s \<union> paths_of ys s"
  by (auto simp: paths_of_def)

lemma paths_of_Nil [simp]: "paths_of [] s = {}"
  by (simp add: paths_of_def)

lemma paths_of_Cons: "paths_of (e # evs) s =
  (if we_source e = s then (case we_path e of None \<Rightarrow> {} | Some p \<Rightarrow> {(we_kind e, p)}) else {}) \<union> paths_of evs s"
  by (auto simp: paths_of_def split: option.split)

lemma paths_of_other: "(\<And>e. e \<in> set evs \<Longrightarrow> we_source e \<noteq> s) \<Longrightarrow> paths_of evs s = {}"
  by (auto simp: paths_of_def)

lemma changed_paths_Un: "changed_paths k m (A \<union> B) s = changed_paths k m A s \<union> changed_paths k m B s"
  by (auto simp: changed_paths_def)

lemma changed_paths_kept: "kept k s s' \<Longrightarrow> changed_paths k m rs s' = changed_paths k m rs s"
  by (simp add: changed_paths_def kept_def source_relative_event_path_def)

lemma kept_trans: "kept k s s' \<Longrightarrow> kept k s' s'' \<Longrightarrow> kept k s s''"
  by (simp add: kept_def)

lemma source_relative_eq: "path_eq p q \<Longrightarrow> source_relative_event_path s p = source_relative_event_path s q"
  by (simp add: source_relative_event_path_def path_eq_def)

definition name_suffix :: "string option \<Rightarrow> component list" where
  "name_suffix n = (case n of None \<Rightarrow> [] | Some n \<Rightarrow> if n = ''.'' then [] else [Normal n])"

lemma components_join_name:
  assumes "name_ok n" and "d \<noteq> ''''"
  shows "components (join_name d n) = components d @ name_suffix n"
proof (cases n)
  case (Some m)
  show ?thesis
  proof (cases "m = ''.''")
    case True
    have "inner_components ''.'' = []" by (simp add: map_filter_def is_sep_def)
    then show ?thesis
      using components_push [of "''.''" d] assms(2) not_absolute_dots by (simp add: Some True join_name_def name_suffix_def)
  next
    case False
    then have "valid_name m" using assms(1) by (simp add: name_ok_def Some)
    then show ?thesis
      using components_push [OF valid_name_relative assms(2)] inner_components_valid False
      by (simp add: Some join_name_def name_suffix_def)
  qed
qed (simp add: join_name_def name_suffix_def)

lemma absolute_ne: "is_absolute d \<Longrightarrow> d \<noteq> ''''"
  by (auto simp: is_absolute_def starts_with_def)

lemma is_absolute_components: "is_absolute p \<longleftrightarrow> (\<exists>cs. components p = RootDir # cs)"
proof
  assume "\<exists>cs. components p = RootDir # cs"
  moreover have "RootDir \<notin> set (inner_components p)"
    using inner_components_inner [of p] by (auto simp: list_all_iff inner_def)
  ultimately show "is_absolute p" by (auto simp: components_def Let_def split: if_splits)
qed (simp add: components_def Let_def)

lemma belongs_if_relative:
  assumes "source_relative_event_path s (join_name d n) = Some rel" and "name_ok n" and "is_absolute d"
  shows "belongs_to s d"
proof -
  have comps: "components (join_name d n) = components d @ name_suffix n"
    using assms(2,3) by (simp add: components_join_name absolute_ne)
  have short: "name_suffix n = [] \<or> (\<exists>m. name_suffix n = [Normal m])" by (auto simp: name_suffix_def split: option.split)
  show ?thesis
  proof (cases "root_is_file s")
    case True
    then have eq: "components (root_path s) = components d @ name_suffix n"
      using assms(1) comps by (simp add: source_relative_event_path_def path_eq_def split: if_splits)
    show ?thesis using short
    proof
      assume "name_suffix n = []"
      then show ?thesis using eq by (simp add: belongs_to_def path_starts_with_def starts_with_def)
    next
      assume "\<exists>m. name_suffix n = [Normal m]"
      then obtain m where m: "name_suffix n = [Normal m]" by blast
      then have "path_parent (root_path s) = Some (push_all (components d))" by (simp add: path_parent_def eq)
      moreover have "path_eq d (push_all (components d))"
        by (simp add: path_eq_def components_push_all [OF components_canonical])
      ultimately show ?thesis using True by (simp add: belongs_to_def)
    qed
  next
    case False
    then obtain cs where cs: "components d @ name_suffix n = components (root_path s) @ cs" "cs \<noteq> []"
      using assms(1) by (auto simp: source_relative_event_path_def comps strip_prefix_Some_iff split: option.splits if_splits)
    have "\<exists>us. components d = components (root_path s) @ us"
      using short
    proof
      assume "\<exists>m. name_suffix n = [Normal m]"
      then have "\<exists>us x. components d @ [x] = components (root_path s) @ us @ [x]"
        using cs by (metis append_butlast_last_id append.assoc last_appendR last_snoc)
      then show ?thesis by auto
    qed (use cs in auto)
    then show ?thesis by (auto simp: belongs_to_def path_starts_with_def starts_with_iff)
  qed
qed

lemma set_alist_update: "set (AList.update h v xs) \<subseteq> insert (h, v) (set xs)"
  by (induction xs) auto

lemma cache_sound_update:
  "cache_sound k s \<Longrightarrow> path_from_handle k h = Some d \<Longrightarrow> path_eq p d \<Longrightarrow> set hs \<subseteq> set (handle_paths s)
    \<Longrightarrow> cache_sound k (s\<lparr>handle_paths := AList.update h p hs\<rparr>)"
  using set_alist_update [of h p hs] by (fastforce simp: cache_sound_def)

lemma cache_handle_kept:
  assumes "lazy_handles s" "cache_sound k s" and "path_from_handle k h = Some d"
  shows "kept k s (cache_handle h d s)"
proof -
  have "cache_sound k (s\<lparr>handle_paths := AList.update h d hs\<rparr>)" if "set hs \<subseteq> set (handle_paths s)" for hs
    using cache_sound_update [OF assms(2,3) _ that] by (simp add: path_eq_def)
  then show ?thesis using assms(1) by (simp add: kept_def cache_handle_def del: AList.update.simps)
qed

lemma path_from_own_handle:
  "length bs \<le> MAX_HANDLE_SZ \<Longrightarrow> path_from_handle k (le_bytes 4 (length bs) @ le_bytes 4 (unat t) @ bs) = open_by_handle k t bs"
  using le_word_unat [of 4 t] by (simp add: path_from_handle_def)

text \<open>Resolving a record: what the cache or the kernel answers is the path behind the handle, and a path that is of no
  interest to the source is not missed.\<close>

lemma fid_record_path_exact:
  assumes laws: "kernel_laws k" and s: "lazy_handles s" "cache_sound k s" and name: "name_ok (fid_name r)"
    and r: "fid_record_path k s r = (found, s')"
  shows "kept k s s'"
    and "found = Some path \<Longrightarrow> \<exists>d. path_from_handle k (fid_handle r) = Some d \<and> is_absolute d \<and> path_eq path (join_name d (fid_name r))"
    and "path_from_handle k (fid_handle r) = Some d \<Longrightarrow> source_relative_event_path s (join_name d (fid_name r)) = Some rel \<Longrightarrow>
      \<exists>path. found = Some path \<and> path_eq path (join_name d (fid_name r))"
proof -
  let ?h = "fid_handle r" and ?n = "fid_name r"
  have absolute: "is_absolute d" if "path_from_handle k ?h = Some d" for d
    using laws that by (auto simp: kernel_laws_def path_from_handle_def split: if_splits)
  have join: "path_eq (join_name p ?n) (join_name d ?n)" if "path_from_handle k ?h = Some d" "path_eq p d" for p d
  proof -
    have "d \<noteq> []" "p \<noteq> []" using absolute [OF that(1)] that(2) by (auto simp: path_eq_def is_absolute_components)
    then show ?thesis using that(2) by (simp add: path_eq_def components_join_name name)
  qed
  have self: "kept k s s" using s by (simp add: kept_def)
  have cached: "\<exists>d. path_from_handle k ?h = Some d \<and> path_eq p d" if "map_of (handle_paths s) ?h = Some p" for p
    using s(2) map_of_SomeD [OF that] by (auto simp: cache_sound_def)
  show "kept k s s'"
    using r self cache_handle_kept [OF s] by (auto simp: fid_record_path_def split: option.splits if_splits)
  show "\<exists>d. path_from_handle k ?h = Some d \<and> is_absolute d \<and> path_eq path (join_name d ?n)" if "found = Some path"
  proof (cases "map_of (handle_paths s) ?h")
    case None
    with r that s(1) show ?thesis using absolute by (auto simp: fid_record_path_def path_eq_def split: option.splits if_splits)
  next
    case (Some p)
    with r that have "path = join_name p ?n" by (simp add: fid_record_path_def)
    with cached [OF Some] join absolute show ?thesis by blast
  qed
  show "\<exists>path. found = Some path \<and> path_eq path (join_name d ?n)"
    if d: "path_from_handle k ?h = Some d" "source_relative_event_path s (join_name d ?n) = Some rel"
  proof (cases "map_of (handle_paths s) ?h")
    case None
    with r d s(1) belongs_if_relative [OF d(2) name absolute [OF d(1)]] show ?thesis
      by (auto simp: fid_record_path_def path_eq_def split: if_splits)
  next
    case (Some p)
    with cached d(1) have "path_eq p d" by fastforce
    with r Some join [OF d(1)] show ?thesis by (auto simp: fid_record_path_def)
  qed
qed

lemma track_kept:
  assumes laws: "kernel_laws k" and s: "lazy_handles s" "cache_sound k s"
    and d: "path_from_handle k h = Some d" "components path = components d @ name_suffix n"
  shows "kept k s (snd (track_new_path_and_mark_directory k mm path s))"
proof -
  have "path_eq path d \<or> (\<exists>n. components path = components d @ [Normal n])"
    using d(2) by (auto simp: path_eq_def name_suffix_def split: option.splits if_splits)
  then have law: "\<exists>q. open_by_handle k t bs = Some q \<and> path_eq q path"
    if "path_is_dir k path = Some True" "name_to_handle k path = Some (t, bs)" "length bs \<le> MAX_HANDLE_SZ" for t bs
    using laws d(1) that unfolding kernel_laws_def by blast
  have "cache_sound k (s\<lparr>handle_paths := AList.update key path (handle_paths s)\<rparr>)"
    if "path_is_dir k path = Some True" "handle_key_from_path k path = Inr key" for key
  proof -
    from that(2) obtain t bs where h: "name_to_handle k path = Some (t, bs)" "length bs \<le> MAX_HANDLE_SZ"
      "key = le_bytes 4 (length bs) @ le_bytes 4 (unat t) @ bs"
      by (auto simp: handle_key_from_path_def split: if_splits option.splits)
    with law [OF that(1) h(1,2)] obtain q where "path_from_handle k key = Some q" "path_eq q path"
      by (auto simp: path_from_own_handle)
    then show ?thesis by (intro cache_sound_update [OF s(2), where d = q]) (simp_all add: path_eq_def)
  qed
  then show ?thesis
    using s by (auto simp: track_new_path_and_mark_directory_def kept_def Let_def split: sum.splits)
qed

lemma remove_kept: "lazy_handles s \<Longrightarrow> cache_sound k s \<Longrightarrow> kept k s (remove_handle_paths_under path s)"
  by (auto simp: kept_def remove_handle_paths_under_def cache_sound_def)

lemma collect_record_exact:
  assumes laws: "kernel_laws k" and s: "lazy_handles s" "cache_sound k s" and name: "name_ok (fid_name r)"
    and r: "collect_record k mm m r s = (evs, s')"
  shows "kept k s s'" and "paths_of evs (root_id s) = changed_paths k m {r} s" and "\<forall>e\<in>set evs. we_source e = root_id s"
proof -
  obtain found s1 where f: "fid_record_path k s r = (found, s1)" by (metis surj_pair)
  note exact = fid_record_path_exact [OF laws s name f]
  have s1: "lazy_handles s1" "cache_sound k s1" and same: "root_id s1 = root_id s"
    "source_relative_event_path s1 = source_relative_event_path s"
    using exact(1) by (auto simp: kept_def source_relative_event_path_def fun_eq_iff)
  have "kept k s s' \<and> paths_of evs (root_id s) = changed_paths k m {r} s \<and> (\<forall>e\<in>set evs. we_source e = root_id s)"
  proof (cases "\<exists>path rel. found = Some path \<and> source_relative_event_path s path = Some rel")
    case False
    then have "evs = [] \<and> s' = s1" using r f same by (auto simp: collect_record_def split: option.splits)
    moreover have "changed_paths k m {r} s = {}"
      using False exact(3) source_relative_eq by (fastforce simp: changed_paths_def)
    ultimately show ?thesis using exact(1) by simp
  next
    case True
    then obtain path rel where found: "found = Some path" and rel: "source_relative_event_path s path = Some rel" by blast
    from exact(2) [OF found] obtain d where d: "path_from_handle k (fid_handle r) = Some d" "is_absolute d"
      "path_eq path (join_name d (fid_name r))" by blast
    have comps: "components path = components d @ name_suffix (fid_name r)"
      using d(2,3) name by (simp add: path_eq_def components_join_name absolute_ne)
    have truth: "changed_paths k m {r} s = {(mask_to_kind m, rel)}"
      using d rel source_relative_eq [OF d(3)] by (auto simp: changed_paths_def)
    let ?ev = "pending_event (root_id s) m (mask_to_kind m) (Some rel) False"
    have kept: "kept k s1 (remove_handle_paths_under path s1)"
      "kept k s1 (snd (track_new_path_and_mark_directory k mm path s1))"
      using remove_kept [OF s1] track_kept [OF laws s1 d(1) comps] by simp_all
    have step: "kept k s1 s'" "evs = [?ev] \<or> evs = [?ev, pending_event (root_id s') 0 ''watch_mark_failed'' None True]"
      using r f found rel same kept
      by (auto simp: collect_record_def Let_def split: if_splits prod.splits bool.splits)
    have all: "kept k s s'" by (rule kept_trans [OF exact(1) step(1)])
    then have "root_id s' = root_id s" by (simp add: kept_def)
    with step(2) have "evs = [?ev] \<or> evs = [?ev, pending_event (root_id s) 0 ''watch_mark_failed'' None True]" by simp
    then have "paths_of evs (root_id s) = {(mask_to_kind m, rel)} \<and> (\<forall>e\<in>set evs. we_source e = root_id s)"
      by (rule disjE) (simp_all add: paths_of_Cons pending_event_def)
    with all truth show ?thesis by simp
  qed
  then show "kept k s s'" "paths_of evs (root_id s) = changed_paths k m {r} s" "\<forall>e\<in>set evs. we_source e = root_id s"
    by simp_all
qed

lemma collect_records_exact:
  assumes "kernel_laws k" and "lazy_handles s" "cache_sound k s" and "\<forall>r\<in>set rs. name_ok (fid_name r)"
    and "collect_records k mm m rs s = (evs, s')"
  shows "kept k s s' \<and> paths_of evs (root_id s) = changed_paths k m (set rs) s \<and> (\<forall>e\<in>set evs. we_source e = root_id s)"
  using assms(2-)
proof (induction rs arbitrary: s evs s')
  case Nil
  then show ?case by (simp add: kept_def changed_paths_def)
next
  case (Cons r rs)
  from Cons.prems(4) obtain evs1 s1 evs2 where 1: "collect_record k mm m r s = (evs1, s1)"
    and 2: "collect_records k mm m rs s1 = (evs2, s')" and evs: "evs = evs1 @ evs2"
    by (auto split: prod.splits)
  note one = collect_record_exact [OF assms(1) Cons.prems(1,2) _ 1]
  have k: "kept k s s1" using one(1) Cons.prems(3) by simp
  then have s1: "lazy_handles s1" "cache_sound k s1" "root_id s1 = root_id s" by (simp_all add: kept_def)
  have "changed_paths k m (set (r # rs)) s = changed_paths k m {r} s \<union> changed_paths k m (set rs) s1"
    using changed_paths_kept [OF k] changed_paths_Un [of k m "{r}" "set rs" s] by simp
  with Cons.IH [OF s1(1,2) _ 2] one Cons.prems(3) kept_trans [OF k] s1(3) evs show ?case by auto
qed

section \<open>What a read records\<close>

lemma collect_sources_exact:
  assumes laws: "kernel_laws k" and names: "\<forall>r\<in>set rs. name_ok (fid_name r)"
    and "\<forall>s\<in>set ss. lazy_handles s \<and> cache_sound k s" and "distinct (map root_id ss)"
    and "collect_sources k mm m rs ss = (evs, ss')"
  shows "list_all2 (kept k) ss ss' \<and> (\<forall>s\<in>set ss. paths_of evs (root_id s) = changed_paths k m (set rs) s)
    \<and> (\<forall>e\<in>set evs. we_source e \<in> root_id ` set ss)"
  using assms(3-)
proof (induction ss arbitrary: evs ss')
  case Nil
  then show ?case by simp
next
  case (Cons s ss)
  from Cons.prems(3) obtain evs1 s1 evs2 ss2 where 1: "collect_records k mm m rs s = (evs1, s1)"
    and 2: "collect_sources k mm m rs ss = (evs2, ss2)" and eq: "evs = evs1 @ evs2" "ss' = s1 # ss2"
    by (auto split: prod.splits)
  have one: "kept k s s1" "paths_of evs1 (root_id s) = changed_paths k m (set rs) s" "\<forall>e\<in>set evs1. we_source e = root_id s"
    using collect_records_exact [OF laws _ _ names 1] Cons.prems(1) by simp_all
  have rest: "list_all2 (kept k) ss ss2" "\<forall>s\<in>set ss. paths_of evs2 (root_id s) = changed_paths k m (set rs) s"
    "\<forall>e\<in>set evs2. we_source e \<in> root_id ` set ss"
    using Cons.IH [OF _ _ 2] Cons.prems(1,2) by simp_all
  have "root_id s \<notin> root_id ` set ss" using Cons.prems(2) by simp
  then have "paths_of evs2 (root_id s) = {}" using rest(3) by (intro paths_of_other) metis
  moreover have "paths_of evs1 (root_id t) = {}" if "t \<in> set ss" for t
    using one(3) that \<open>root_id s \<notin> root_id ` set ss\<close> by (intro paths_of_other) (metis imageI)
  ultimately show ?case using one rest eq by auto
qed

definition overflowed :: "wire_event \<Rightarrow> bool" where
  "overflowed e \<longleftrightarrow> wire_mask e AND FAN_Q_OVERFLOW \<noteq> 0"

text \<open>The changes below a source that the kernel reports in a list of events.\<close>

definition reported :: "kernel \<Rightarrow> wire_event list \<Rightarrow> SourceRoot \<Rightarrow> (string \<times> string) set" where
  "reported k es s = (\<Union>e\<in>{e \<in> set es. \<not> overflowed e}. changed_paths k (wire_mask e) (set (records_of e)) s)"

definition events_ok :: "wire_event list \<Rightarrow> bool" where
  "events_ok es \<longleftrightarrow> (\<forall>e\<in>set es. event_ok e \<and> (\<forall>r\<in>set (records_of e). name_ok (fid_name r)))"

lemma queue_overflow_lazy:
  assumes "\<forall>s\<in>set ss. lazy_handles s"
  shows "queue_overflow k m ss at = (map (\<lambda>s. pending_event (root_id s) m ''queue_overflow'' None True) ss, ss, at)"
  using assms by (induction ss arbitrary: at) simp_all

lemma kept_list_trans: "list_all2 (kept k) a b \<Longrightarrow> list_all2 (kept k) b c \<Longrightarrow> list_all2 (kept k) a c"
  by (rule list_all2_trans) (rule kept_trans)

lemma kept_list_facts:
  assumes "list_all2 (kept k) ss ss'"
  shows "map root_id ss' = map root_id ss" "\<forall>s\<in>set ss'. lazy_handles s \<and> cache_sound k s"
    "s \<in> set ss \<Longrightarrow> \<exists>s'\<in>set ss'. kept k s s'" "root_id ` set ss' = root_id ` set ss"
proof -
  show ids: "map root_id ss' = map root_id ss"
    using assms by (induction rule: list_all2_induct) (simp_all add: kept_def)
  show "\<forall>s\<in>set ss'. lazy_handles s \<and> cache_sound k s"
    using assms by (induction rule: list_all2_induct) (simp_all add: kept_def)
  show "s \<in> set ss \<Longrightarrow> \<exists>s'\<in>set ss'. kept k s s'"
    using assms by (induction rule: list_all2_induct) auto
  show "root_id ` set ss' = root_id ` set ss" using ids by (metis list.set_map)
qed

lemma reported_kept: "kept k s s' \<Longrightarrow> reported k es s' = reported k es s"
  by (simp add: reported_def changed_paths_kept)

lemma parse_loop_exact:
  assumes laws: "kernel_laws k" and "events_ok es" and "\<forall>s\<in>set ss. lazy_handles s \<and> cache_sound k s"
    and "distinct (map root_id ss)"
  shows "\<exists>evs ss'. parse_loop k mm FidName (concat (map encode_event es)) (ss, at) = Inr (evs, ss', at)
    \<and> list_all2 (kept k) ss ss' \<and> (\<forall>s\<in>set ss. paths_of evs (root_id s) = reported k es s)
    \<and> (list_ex overflowed es \<longrightarrow> (\<forall>s\<in>set ss. \<exists>e\<in>set evs. we_source e = root_id s \<and> we_rescan e \<and> we_path e = None))"
  using assms(2-)
proof (induction es arbitrary: ss)
  case Nil
  then show ?case by (auto simp: parse_loop.simps reported_def kept_def list_all2_same)
next
  case (Cons e es)
  have ok: "event_ok e" "\<forall>r\<in>set (records_of e). name_ok (fid_name r)" "events_ok es"
    using Cons.prems(1) by (auto simp: events_ok_def)
  obtain evs1 ss1 where one: "parse_one k mm FidName (meta_of e) (encode_event e) (ss, at) = (evs1, ss1, at)"
    and kept1: "list_all2 (kept k) ss ss1"
    and paths1: "\<forall>s\<in>set ss. paths_of evs1 (root_id s) = (if overflowed e then {} else changed_paths k (wire_mask e) (set (records_of e)) s)"
    and over1: "overflowed e \<Longrightarrow> \<forall>s\<in>set ss. \<exists>x\<in>set evs1. we_source x = root_id s \<and> we_rescan x \<and> we_path x = None"
  proof (cases "overflowed e")
    case True
    let ?evs = "map (\<lambda>s. pending_event (root_id s) (wire_mask e) ''queue_overflow'' None True) ss"
    have "parse_one k mm FidName (meta_of e) (encode_event e) (ss, at) = (?evs, ss, at)"
      using True Cons.prems(2) by (simp add: parse_one_def meta_of_def overflowed_def queue_overflow_lazy)
    moreover have "list_all2 (kept k) ss ss"
      using Cons.prems(2) by (intro list_all2_same [THEN iffD2]) (simp add: kept_def)
    moreover have "paths_of ?evs i = {}" for i by (auto simp: paths_of_def pending_event_def)
    ultimately show thesis using True by (intro that [of ?evs ss]) (auto simp: pending_event_def)
  next
    case False
    obtain evs1 ss1 where c: "collect_sources k mm (wire_mask e) (records_of e) ss = (evs1, ss1)" by (metis surj_pair)
    have "parse_one k mm FidName (meta_of e) (encode_event e) (ss, at) = (evs1, ss1, at)"
      using False c by (simp add: parse_one_def meta_of_def overflowed_def fid_records_encoded [OF ok(1)])
    then show thesis
      using collect_sources_exact [OF laws ok(2) Cons.prems(2,3) c] False by (intro that) auto
  qed
  note facts1 = kept_list_facts [OF kept1]
  obtain evs2 ss2 where two: "parse_loop k mm FidName (concat (map encode_event es)) (ss1, at) = Inr (evs2, ss2, at)"
    "list_all2 (kept k) ss1 ss2" "\<forall>s\<in>set ss1. paths_of evs2 (root_id s) = reported k es s"
    "list_ex overflowed es \<longrightarrow> (\<forall>s\<in>set ss1. \<exists>x\<in>set evs2. we_source x = root_id s \<and> we_rescan x \<and> we_path x = None)"
    using Cons.IH [OF ok(3) facts1(2)] facts1(1) Cons.prems(3) by auto
  have "parse_loop k mm FidName (concat (map encode_event (e # es))) (ss, at) = Inr (evs1 @ evs2, ss2, at)"
    using parse_loop_encoded [OF ok(1), of k mm FidName "concat (map encode_event es)" "(ss, at)"] one two(1) by simp
  moreover have "paths_of (evs1 @ evs2) (root_id s) = reported k (e # es) s" if s: "s \<in> set ss" for s
  proof -
    from facts1(3) [OF s] obtain s1 where s1: "s1 \<in> set ss1" "kept k s s1" by blast
    then have "paths_of evs2 (root_id s) = reported k es s"
      using two(3) reported_kept [OF s1(2), of es] by (metis kept_def)
    moreover have "{x. (x = e \<or> x \<in> set es) \<and> \<not> overflowed x} = (if overflowed e then {} else {e}) \<union> {x \<in> set es. \<not> overflowed x}"
      by auto
    ultimately show ?thesis using paths1 s by (simp add: reported_def)
  qed
  moreover have "\<exists>x\<in>set (evs1 @ evs2). we_source x = root_id s \<and> we_rescan x \<and> we_path x = None"
    if "list_ex overflowed (e # es)" "s \<in> set ss" for s
  proof (cases "overflowed e")
    case False
    with that facts1(3) [OF that(2)] two(4) show ?thesis by (fastforce simp: kept_def)
  qed (use over1 that(2) in auto)
  ultimately show ?case using kept_list_trans [OF kept1 two(2)] by blast
qed

text \<open>A batch becomes one row per event, in order.\<close>

definition row_of :: "event_row \<Rightarrow> WatcherEvent" where
  "row_of r = pending_event (ev_source r) (raw_mask r) (ev_kind r) (ev_path r) (ev_rescan r)"

lemma row_of_insert: "events (insert_event i now e db) = events db @ [r] \<Longrightarrow> row_of r = e"
  by (cases e) (auto simp: insert_event_def row_of_def pending_event_def)

lemma insert_event_row: "\<exists>r. events (insert_event i now e db) = events db @ [r] \<and> row_of r = e"
proof -
  obtain r where "events (insert_event i now e db) = events db @ [r]" by (simp add: insert_event_def)
  then show ?thesis using row_of_insert by blast
qed

lemma batch_insert_rows:
  assumes "batch_insert now es cycs rescans db = Some (cycs', rescans', db')"
  shows "\<exists>new. events db' = events db @ new \<and> map row_of new = es"
  using assms
proof (induction now es cycs rescans db rule: batch_insert.induct)
  case (2 now e es cycs rescans db)
  have step: ?case if same: "events d = events db" and rest: "\<exists>new. events db' = events (insert_event i now e d) @ new \<and> map row_of new = es" for i d
  proof -
    obtain r where r: "events (insert_event i now e d) = events db @ [r]" "row_of r = e"
      using insert_event_row [of i now e d] same by auto
    from rest obtain new where new: "events db' = events (insert_event i now e d) @ new" "map row_of new = es" by blast
    then show ?thesis using r by (intro exI [of _ "r # new"]) simp
  qed
  show ?case
  proof (cases "map_of cycs (we_source e)")
    case None
    then obtain i d where d: "ensure_open_cycle (we_source e) now db = (Some i, d)"
      using "2.prems" by (auto simp: Let_def split: prod.splits option.splits)
    have "events d = events db"
      using d by (auto simp: ensure_open_cycle_def Let_def split: option.splits if_splits)
    with step d show ?thesis using "2.IH"(1) [OF refl None d [symmetric] refl] "2.prems" None by (simp add: Let_def)
  next
    case (Some i)
    with step [OF refl] show ?thesis using "2.IH"(2) [OF refl Some] "2.prems" by (simp add: Let_def)
  qed
qed simp

lemma ensure_open_cycle_total: "fst (ensure_open_cycle s now db) \<noteq> None"
proof -
  have newest: "newest P d \<noteq> None" if "c \<in> set (cycles d)" "P c" for P c d
  proof -
    have "c \<in> set (rev (sort_key cyc_id (filter P (cycles d))))" using that by simp
    then show ?thesis by (cases "rev (sort_key cyc_id (filter P (cycles d)))") (simp_all add: newest_def)
  qed
  show ?thesis
  proof (cases "current_open_cycle_id s db")
    case None
    then have no: "\<not> list_ex (\<lambda>c. cyc_source c = s \<and> is_open c) (cycles db)"
      using newest [where d = db and P = "\<lambda>c. cyc_source c = s \<and> is_open c"]
      by (auto simp: current_open_cycle_id_def list_ex_iff)
    define c where "c = \<lparr>cyc_id = cycle_seq db + 1, cyc_source = s, starts_at = now, ends_at = None, cyc_status = ''open'',
      needs_full_rescan = False, manual_full_rescan = False, manual_changed_since_rescan = False\<rparr>"
    let ?d = "db\<lparr>cycle_seq := cycle_seq db + 1, cycles := cycles db @ [c]\<rparr>"
    have "newest (\<lambda>c. cyc_source c = s \<and> is_open c) ?d \<noteq> None"
      by (rule newest [where c = c]) (simp_all add: c_def is_open_def)
    then have "current_open_cycle_id s ?d \<noteq> None" by (simp add: current_open_cycle_id_def)
    then show ?thesis using None no by (simp add: ensure_open_cycle_def c_def Let_def)
  qed (simp add: ensure_open_cycle_def)
qed

lemma batch_insert_total: "batch_insert now es cycs rescans db \<noteq> None"
proof (induction now es cycs rescans db rule: batch_insert.induct)
  case (2 now e es cycs rescans db)
  show ?case
  proof (cases "map_of cycs (we_source e)")
    case None
    obtain i d where d: "ensure_open_cycle (we_source e) now db = (Some i, d)"
      using ensure_open_cycle_total [of "we_source e" now db] by (cases "ensure_open_cycle (we_source e) now db") auto
    show ?thesis using "2.IH"(1) [OF refl None d [symmetric] refl] None d by (simp add: Let_def)
  next
    case (Some i)
    show ?thesis using "2.IH"(2) [OF refl Some] Some by (simp add: Let_def)
  qed
qed simp

lemma record_events_batch_rows:
  "\<exists>new. events (record_events_batch now es db) = events db @ new \<and> map row_of new = es"
proof (cases "es = []")
  case False
  from batch_insert_total [of now es "[]" "[]" db] obtain cycs rescans db1 where
    b: "batch_insert now es [] [] db = Some (cycs, rescans, db1)" by auto
  from batch_insert_rows [OF b] False show ?thesis
    by (simp add: record_events_batch_def b Let_def events_fold_marks)
qed (simp add: record_events_batch_def)

lemma final_batch_facts:
  shows "paths_of (final_batch sticky ss evs) s = paths_of evs s"
    and "e \<in> set evs \<Longrightarrow> \<exists>x\<in>set (final_batch sticky ss evs). event_key x = event_key e"
    and "final_batch sticky ss evs = [] \<longleftrightarrow> evs = []"
    and "sticky \<Longrightarrow> evs \<noteq> [] \<Longrightarrow> t \<in> set ss \<Longrightarrow> pending_event (root_id t) 0 ''event_persist_gap'' None True \<in> set (final_batch sticky ss evs)"
proof -
  let ?b = "dedup_by event_key [] evs"
  have keys: "event_key ` set ?b = event_key ` set evs" using dedup_by_keys [of event_key "[]" evs] by simp
  have paths: "paths_of xs s = {(kind, p). (s, kind, Some p) \<in> event_key ` set xs}" for xs
    by (force simp: paths_of_def event_key_def)
  have gaps: "paths_of (rev (map (\<lambda>s. pending_event (root_id s) 0 ''event_persist_gap'' None True) ss)) s = {}"
    by (auto simp: paths_of_def pending_event_def)
  show "paths_of (final_batch sticky ss evs) s = paths_of evs s"
    using gaps paths [of ?b] paths [of evs] keys by (simp add: final_batch_def Let_def)
  show "\<exists>x\<in>set (final_batch sticky ss evs). event_key x = event_key e" if "e \<in> set evs"
  proof -
    from that keys obtain x where "x \<in> set ?b" "event_key x = event_key e" by (metis (no_types, lifting) image_iff)
    then show ?thesis by (auto simp: final_batch_def Let_def)
  qed
  have empty: "?b = [] \<longleftrightarrow> evs = []" using keys by (metis image_is_empty set_empty)
  then show "final_batch sticky ss evs = [] \<longleftrightarrow> evs = []" by (simp add: final_batch_def Let_def)
  show "pending_event (root_id t) 0 ''event_persist_gap'' None True \<in> set (final_batch sticky ss evs)"
    if "sticky" "evs \<noteq> []" "t \<in> set ss"
    using that empty by (simp add: final_batch_def Let_def)
qed

text \<open>What no turn of the loop changes: the sources keep their names, and an event without a path asks for a reconcile.\<close>

definition marks_whole :: "WatcherEvent \<Rightarrow> bool" where
  "marks_whole e \<longleftrightarrow> (we_path e = None \<longrightarrow> we_rescan e)"

lemma marks_whole_pending [simp]: "marks_whole (pending_event s m kind rel rescan) \<longleftrightarrow> (rel = None \<longrightarrow> rescan)"
  by (simp add: marks_whole_def pending_event_def)

lemma collect_record_frame:
  "collect_record k mm m r s = (evs, s') \<Longrightarrow> root_id s' = root_id s \<and> list_all marks_whole evs"
  by (auto simp: collect_record_def fid_record_path_def cache_handle_def remove_handle_paths_under_def
      track_new_path_and_mark_directory_def Let_def split: option.splits if_splits sum.splits prod.splits bool.splits)

lemma collect_records_frame:
  "collect_records k mm m rs s = (evs, s') \<Longrightarrow> root_id s' = root_id s \<and> list_all marks_whole evs"
  by (induction rs arbitrary: s evs s') (auto split: prod.splits dest!: collect_record_frame)

lemma collect_sources_frame:
  "collect_sources k mm m rs ss = (evs, ss') \<Longrightarrow> map root_id ss' = map root_id ss \<and> list_all marks_whole evs"
  by (induction ss arbitrary: evs ss') (auto split: prod.splits dest!: collect_records_frame)

lemma queue_overflow_frame:
  "queue_overflow k m ss at = (evs, ss', at') \<Longrightarrow> map root_id ss' = map root_id ss \<and> list_all marks_whole evs"
  by (induction ss arbitrary: at evs ss' at') (auto simp: Let_def split: prod.splits sum.splits if_splits)

lemma parse_one_frame:
  assumes "parse_one k mm how m event (ss, at) = (evs, ss', at')"
  shows "map root_id ss' = map root_id ss \<and> list_all marks_whole evs"
proof (cases "meta_mask m AND FAN_Q_OVERFLOW \<noteq> 0")
  case True
  with assms queue_overflow_frame show ?thesis by (auto simp: parse_one_def)
next
  case False
  show ?thesis
  proof (cases how)
    case FidName
    with assms False collect_sources_frame show ?thesis
      by (auto simp: parse_one_def split: sum.splits prod.splits)
  next
    case FdPath
    with assms False show ?thesis
      by (auto simp: parse_one_def collect_fd_path_event_def list_all_iff map_filter_def split: option.splits)
  qed
qed

lemma parse_loop_frame:
  "parse_loop k mm how bytes (ss, at) = Inr (evs, ss', at') \<Longrightarrow> map root_id ss' = map root_id ss \<and> list_all marks_whole evs"
proof (induction bytes arbitrary: ss at evs ss' at' rule: length_induct)
  case (1 bytes)
  show ?case
  proof (cases "length bytes < 24")
    case True
    then show ?thesis using "1.prems" by (simp add: parse_loop_stop)
  next
    case False
    then obtain m where m: "read_metadata bytes = Inr m" using read_metadata_ok [of bytes] by auto
    let ?n = "unat (meta_event_len m)"
    show ?thesis
    proof (cases "meta_vers m \<noteq> FANOTIFY_METADATA_VERSION \<or> ?n = 0 \<or> length bytes < ?n")
      case True
      then show ?thesis using "1.prems" parse_loop_stop [of bytes m] m by simp
    next
      case ok: False
      obtain evs1 ss1 at1 where one: "parse_one k mm how m (take ?n bytes) (ss, at) = (evs1, ss1, at1)" by (metis surj_pair)
      obtain evs2 ss2 at2 where two: "parse_loop k mm how (drop ?n bytes) (ss1, at1) = Inr (evs2, ss2, at2)"
        using parse_loop_safe by (metis surj_pair)
      have "length (drop ?n bytes) < length bytes" using ok False by auto
      with "1.IH" two have "map root_id ss2 = map root_id ss1 \<and> list_all marks_whole evs2" by blast
      moreover have "evs = evs1 @ evs2 \<and> ss' = ss2"
        using parse_loop_step [OF _ m, of ?n k mm how ss at] ok False one two "1.prems" by simp
      ultimately show ?thesis using parse_one_frame [OF one] by simp
    qed
  qed
qed

section \<open>The properties of the watcher\<close>

text \<open>The changed paths of a source in some rows.\<close>

definition row_paths :: "event_row list \<Rightarrow> string \<Rightarrow> (string \<times> string) set" where
  "row_paths rows s = {(ev_kind x, p) | x p. x \<in> set rows \<and> ev_source x = s \<and> ev_path x = Some p}"

lemma row_paths_map: "row_paths rows s = paths_of (map row_of rows) s"
  by (force simp: row_paths_def paths_of_def row_of_def pending_event_def)


text \<open>A batch that was lost is marked by the first batch that is not.\<close>

lemma parse_events_marks:
  assumes "parse_events k mm how persist now bytes (ss, ctx, db) = Inr (ss', ctx', db')" and "sticky_rescan ctx"
  shows "map root_id ss' = map root_id ss \<and> (\<exists>new. events db' = events db @ new \<and> (sticky_rescan ctx' \<or>
    (\<forall>i\<in>root_id ` set ss. \<exists>x\<in>set new. ev_source x = i \<and> ev_rescan x \<and> ev_kind x = ''event_persist_gap'')))"
proof -
  obtain evs at where loop: "parse_loop k mm how bytes (ss, last_eager_rebuild ctx) = Inr (evs, ss', at)"
    using assms(1) by (auto simp: parse_events_def Let_def split: sum.splits if_splits)
  note ids = parse_loop_frame [OF loop]
  define batch where "batch = final_batch True ss' evs"
  have res: "(if persist \<or> batch = [] then (if batch = [] then sticky_rescan ctx' else \<not> sticky_rescan ctx')
      \<and> db' = record_events_batch now batch db else sticky_rescan ctx' \<and> db' = db)"
    using assms loop by (auto simp: parse_events_def batch_def Let_def split: if_splits)
  show ?thesis
  proof (cases "persist \<and> batch \<noteq> []")
    case True
    obtain new where new: "events db' = events db @ new" "map row_of new = batch"
      using record_events_batch_rows [of now batch db] res True by auto
    have "\<exists>x\<in>set new. ev_source x = i \<and> ev_rescan x \<and> ev_kind x = ''event_persist_gap''" if "i \<in> root_id ` set ss" for i
    proof -
      have "evs \<noteq> []" using True final_batch_facts(3) by (auto simp: batch_def)
      have "i \<in> set (map root_id ss')" using that ids by simp
      then obtain t where "t \<in> set ss'" "root_id t = i" by auto
      with final_batch_facts(4) [OF TrueI \<open>evs \<noteq> []\<close>] have "pending_event i 0 ''event_persist_gap'' None True \<in> set batch"
        by (auto simp: batch_def)
      then have "pending_event i 0 ''event_persist_gap'' None True \<in> set (map row_of new)" by (simp only: new(2))
      then obtain x where "x \<in> set new" "row_of x = pending_event i 0 ''event_persist_gap'' None True" by auto
      then show ?thesis by (auto simp: row_of_def pending_event_def)
    qed
    with new(1) ids show ?thesis by blast
  next
    case False
    then have "sticky_rescan ctx' \<and> db' = db" using res by (cases "batch = []") (auto simp: record_events_batch_def)
    with ids show ?thesis by simp
  qed
qed

lemma parse_events_returns:
  obtains ss' ctx' db' where "parse_events k mm how persist now bytes (ss, ctx, db) = Inr (ss', ctx', db')"
proof -
  obtain evs ss' at where "parse_loop k mm how bytes (ss, last_eager_rebuild ctx) = Inr (evs, ss', at)"
    using parse_loop_safe by (metis surj_pair)
  then have "\<exists>r. parse_events k mm how persist now bytes (ss, ctx, db) = Inr r" by (simp add: parse_events_def Let_def)
  with that show thesis by (metis surj_pair)
qed

lemma parse_events_appends:
  assumes "parse_events k mm how persist now bytes (ss, ctx, db) = Inr (ss', ctx', db')"
  shows "\<exists>new. events db' = events db @ new"
proof -
  have batch: "\<exists>new. events (record_events_batch now es db) = events db @ new" for es
    using record_events_batch_rows by blast
  from assms have "db' = db \<or> (\<exists>es. db' = record_events_batch now es db)"
    by (auto simp: parse_events_def Let_def split: sum.splits if_splits)
  with batch show ?thesis by auto
qed

lemma read_loop_appends:
  "read_loop mm how reads (ss, ctx, db) = (err, ss', ctx', db') \<Longrightarrow> \<exists>new. events db' = events db @ new"
proof (induction reads arbitrary: ss ctx db)
  case (Cons r reads)
  show ?case
  proof (cases r)
    case (Bytes k persist now bytes)
    obtain ss1 ctx1 db1 where one: "parse_events k mm how persist now bytes (ss, ctx, db) = Inr (ss1, ctx1, db1)"
      by (rule parse_events_returns)
    then have "read_loop mm how reads (ss1, ctx1, db1) = (err, ss', ctx', db')" using Cons.prems Bytes by simp
    from Cons.IH [OF this] parse_events_appends [OF one] show ?thesis by auto
  next
    case NoData
    then show ?thesis using Cons.IH Cons.prems by simp
  next
    case ReadFailed
    then show ?thesis using Cons.prems by simp
  qed
qed simp

definition gap_marked :: "string set \<Rightarrow> event_row list \<Rightarrow> bool" where
  "gap_marked ids rows \<longleftrightarrow> (\<forall>i\<in>ids. \<exists>x\<in>set rows. ev_source x = i \<and> ev_rescan x \<and> ev_kind x = ''event_persist_gap'')"

lemma read_loop_marks:
  assumes "read_loop mm how reads (ss, ctx, db) = (err, ss', ctx', db')" and "sticky_rescan ctx"
  shows "\<exists>new. events db' = events db @ new \<and> (sticky_rescan ctx' \<or> gap_marked (set (map root_id ss)) new)"
  using assms
proof (induction reads arbitrary: ss ctx db)
  case (Cons r reads)
  show ?case
  proof (cases r)
    case (Bytes k persist now bytes)
    obtain ss1 ctx1 db1 where one: "parse_events k mm how persist now bytes (ss, ctx, db) = Inr (ss1, ctx1, db1)"
      by (rule parse_events_returns)
    have rest: "read_loop mm how reads (ss1, ctx1, db1) = (err, ss', ctx', db')" using Cons.prems(1) Bytes one by simp
    from parse_events_marks [OF one Cons.prems(2)] obtain new1 where ids: "map root_id ss1 = map root_id ss"
      and new1: "events db1 = events db @ new1" "sticky_rescan ctx1 \<or> gap_marked (set (map root_id ss)) new1"
      unfolding gap_marked_def by auto
    show ?thesis
    proof (cases "sticky_rescan ctx1")
      case True
      from Cons.IH [OF rest True] obtain new2 where "events db' = events db1 @ new2"
        "sticky_rescan ctx' \<or> gap_marked (set (map root_id ss)) new2" unfolding ids by blast
      then show ?thesis using new1(1) by (intro exI [of _ "new1 @ new2"]) (auto simp: gap_marked_def)
    next
      case False
      from read_loop_appends [OF rest] obtain new2 where "events db' = events db1 @ new2" by blast
      then show ?thesis using new1 False by (intro exI [of _ "new1 @ new2"]) (auto simp: gap_marked_def)
    qed
  next
    case NoData
    then show ?thesis using Cons.IH Cons.prems by simp
  next
    case ReadFailed
    then show ?thesis using Cons.prems by simp
  qed
qed simp

lemma mark_gap_rows:
  "\<exists>new. events (mark_gap now kind ids db) = events db @ new
    \<and> (\<forall>i\<in>set ids. \<exists>x\<in>set new. ev_source x = i \<and> ev_rescan x \<and> ev_kind x = kind)"
proof (induction ids arbitrary: db)
  case Nil
  then show ?case by (simp add: mark_gap_def)
next
  case (Cons s ids)
  let ?e = "pending_event s 0 kind None True"
  obtain i d where d: "ensure_open_cycle s now db = (Some i, d)"
    using ensure_open_cycle_total [of s now db] by (cases "ensure_open_cycle s now db") auto
  have same: "events d = events db" using d by (auto simp: ensure_open_cycle_def Let_def split: option.splits if_splits)
  obtain r where r: "events (insert_event i now ?e d) = events db @ [r]" "row_of r = ?e"
    using insert_event_row [of i now ?e d] same by auto
  have "events (snd (record_event now ?e db)) = events db @ [r]"
    using r(1) d by (simp add: record_event_def pending_event_def Let_def)
  moreover obtain new where "events (mark_gap now kind ids (snd (record_event now ?e db))) = events (snd (record_event now ?e db)) @ new"
    "\<forall>i\<in>set ids. \<exists>x\<in>set new. ev_source x = i \<and> ev_rescan x \<and> ev_kind x = kind"
    using Cons.IH by blast
  moreover have "ev_source r = s \<and> ev_rescan r \<and> ev_kind r = kind"
    using r(2) by (simp add: row_of_def pending_event_def)
  ultimately show ?case by (intro exI [of _ "r # new"]) (auto simp: mark_gap_def)
qed


text \<open>
  The eager handle map. Without \<open>open_by_handle_at\<close> the map of the tree's directories is all there is. A rename drops the
  directory and all below it and adds back the directory alone.
\<close>

lemma eager_record_path: "\<not> lazy_handles s \<Longrightarrow>
    fid_record_path k s r = (map_option (\<lambda>base. join_name base (fid_name r)) (map_of (handle_paths s) (fid_handle r)), s)"
  by (simp add: fid_record_path_def split: option.split)

lemma map_of_filter_none: "(\<And>v. (h, v) \<in> set xs \<Longrightarrow> \<not> P (h, v)) \<Longrightarrow> map_of (filter P xs) h = None"
  by (induction xs) auto

text \<open>C39: the watcher goes blind below a renamed directory when it cannot ask the kernel for handles. After a directory is
  moved away from \<open>p\<close> and a directory appears at \<open>q\<close>, no event in a directory that was below \<open>p\<close> is recorded any
  more, though it is below \<open>q\<close> now: the map has lost its handle, and the event is dropped without a mark.\<close>

theorem renamed_directory_goes_blind:
  assumes "\<not> lazy_handles s" and "distinct (map fst (handle_paths s))"
    and "map_of (handle_paths s) (fid_handle away) = Some base" and "p = join_name base (fid_name away)"
    and "source_relative_event_path s p \<noteq> None" and "is_removal m1" and "\<not> is_removal m2"
    and "map_of (handle_paths s) h = Some sub" and "path_starts_with sub p"
    and "\<And>parent q. map_of (handle_paths s) (fid_handle there) = Some parent \<Longrightarrow> q = join_name parent (fid_name there) \<Longrightarrow>
      handle_key_from_path k q \<noteq> Inr h"
    and "collect_records k mm m1 [away] s = (evs1, s1)" and "collect_records k mm m2 [there] s1 = (evs2, s2)"
  shows "fid_handle inside = h \<Longrightarrow> collect_records k mm m3 [inside] s2 = ([], s2)"
proof -
  have s1: "s1 = remove_handle_paths_under p s"
    using assms(1,3-6,11) by (auto simp: collect_record_def eager_record_path Let_def split: option.splits prod.splits if_splits)
  have only: "v = sub" if "(h, v) \<in> set (handle_paths s)" for v
    using that assms(2,8) by (metis eq_key_imp_eq_value map_of_SomeD)
  have gone: "map_of (handle_paths s1) h = None"
    unfolding s1 remove_handle_paths_under_def using only assms(9) by (auto intro!: map_of_filter_none)
  have eager: "\<not> lazy_handles s1" using assms(1) s1 by (simp add: remove_handle_paths_under_def)
  have sub: "map_of (handle_paths s1) x = Some y \<Longrightarrow> map_of (handle_paths s) x = Some y" for x y
    using assms(2) by (auto simp: s1 remove_handle_paths_under_def dest!: map_of_SomeD intro!: map_of_is_SomeI)
  have still: "map_of (handle_paths s2) h = None \<and> \<not> lazy_handles s2"
  proof (cases "map_of (handle_paths s1) (fid_handle there)")
    case None
    then have "s2 = s1" using assms(12) eager by (simp add: collect_record_def eager_record_path)
    then show ?thesis using gone eager by simp
  next
    case (Some parent)
    let ?q = "join_name parent (fid_name there)"
    have key: "handle_key_from_path k ?q \<noteq> Inr h" using assms(10) sub [OF Some] by blast
    have "map_of (handle_paths (snd (track_new_path_and_mark_directory k mm ?q s1))) h = None"
      "\<not> lazy_handles (snd (track_new_path_and_mark_directory k mm ?q s1))"
      using gone eager key by (auto simp: track_new_path_and_mark_directory_def Let_def update_conv' split: sum.splits)
    moreover have "s2 = s1 \<or> s2 = snd (track_new_path_and_mark_directory k mm ?q s1)"
      using assms(7,12) eager Some
      by (auto simp: collect_record_def eager_record_path Let_def split: option.splits prod.splits bool.splits)
    ultimately show ?thesis using gone eager by auto
  qed
  then show "fid_handle inside = h \<Longrightarrow> collect_records k mm m3 [inside] s2 = ([], s2)"
    by (simp add: collect_record_def eager_record_path)
qed

section \<open>Concrete reads\<close>

definition demo_kernel :: kernel where
  "demo_kernel = \<lparr>open_by_handle = (\<lambda>t bs. if t = 1 \<and> bs = [1] then Some ''/s'' else if t = 1 \<and> bs = [2] then Some ''/s/d'' else None),
     name_to_handle = (\<lambda>p. if path_eq p ''/s/d'' then Some (1, [2]) else None),
     path_is_dir = (\<lambda>p. Some (path_eq p ''/s/d'')), fanotify_mark = (\<lambda>_ _ _. True), walk_dirs = (\<lambda>_. None),
     fd_path = (\<lambda>_. None), instant_ns = 0, canonicalize = Some, path_is_file = (\<lambda>_. Some False), open_root = (\<lambda>_. True),
     fanotify_init = (\<lambda>_. True)\<rparr>"

definition demo_source :: SourceRoot where
  "demo_source = \<lparr>root_id = ''s'', root_path = ''/s'', root_is_file = False, handle_paths = [], lazy_handles = True,
     recursive_marks = False\<rparr>"

definition demo_created :: "u8 \<Rightarrow> u8 \<Rightarrow> wire_event" where
  "demo_created h c = \<lparr>wire_mask = FAN_CREATE, wire_fd = FAN_NOFD, wire_pid = 7,
     wire_infos = [HandleInfo INFO_DFID_NAME [0,0,0,0,0,0,0,0] 1 [h] [c] 3]\<rparr>"

definition demo_ctx :: "bool \<Rightarrow> WatchCtx" where
  "demo_ctx sticky = \<lparr>sticky_rescan = sticky, last_eager_rebuild = None\<rparr>"

lemma demo_kernel_laws: "kernel_laws demo_kernel"
proof -
  have "is_absolute ''/s''" "is_absolute ''/s/d''" by code_simp+
  then show ?thesis by (auto simp: kernel_laws_def demo_kernel_def path_eq_def split: if_splits)
qed

lemma demo_events_ok: "events_ok [demo_created 1 100, demo_created 2 120]"
proof -
  have "event_ok (demo_created h c)" if "c \<noteq> 0" for h c
    using that by (simp add: event_ok_def encode_event_def encode_info_def demo_created_def info_types wanted_info_def
        MAX_HANDLE_SZ_def Let_def)
  then have "list_all event_ok [demo_created 1 100, demo_created 2 120]" by simp
  moreover have "list_all (\<lambda>e. list_all (\<lambda>r. name_ok (fid_name r)) (records_of e)) [demo_created 1 100, demo_created 2 120]" by code_simp
  ultimately show ?thesis by (simp add: events_ok_def list_all_iff)
qed

lemma demo_records:
  "records_of (demo_created 1 100) = [\<lparr>fid_handle = handle_key 1 [1], fid_name = Some ''d''\<rparr>]"
  "records_of (demo_created 2 120) = [\<lparr>fid_handle = handle_key 1 [2], fid_name = Some ''x''\<rparr>]"
  by code_simp+

lemma demo_paths:
  "path_from_handle demo_kernel (handle_key 1 [1]) = Some ''/s''" "path_from_handle demo_kernel (handle_key 1 [2]) = Some ''/s/d''"
  "source_relative_event_path demo_source (join_name ''/s'' (Some ''d'')) = Some ''d''"
  "source_relative_event_path demo_source (join_name ''/s/d'' (Some ''x'')) = Some ''d/x''"
  "mask_to_kind FAN_CREATE = ''create''"
  by code_simp+

lemma demo_reported: "reported demo_kernel [demo_created 1 100, demo_created 2 120] demo_source = {(''create'', ''d''), (''create'', ''d/x'')}"
proof -
  have "\<not> overflowed (demo_created h c)" for h c by (simp add: overflowed_def demo_created_def fan_masks)
  moreover have "wire_mask (demo_created h c) = FAN_CREATE" for h c by (simp add: demo_created_def)
  ultimately show ?thesis by (auto simp: reported_def changed_paths_def demo_records demo_paths)
qed



text \<open>A tree with the directories \<open>d\<close> and \<open>d/e\<close> and all their handles; \<open>d\<close> is renamed to \<open>f\<close>.\<close>

definition demo_eager :: SourceRoot where
  "demo_eager = demo_source\<lparr>lazy_handles := False, handle_paths := [(handle_key 1 [1], ''/s''), (handle_key 1 [2], ''/s/d''),
     (handle_key 1 [3], ''/s/d/e'')]\<rparr>"

definition demo_record :: "u8 \<Rightarrow> string \<Rightarrow> FidRecord" where
  "demo_record h name = \<lparr>fid_handle = handle_key 1 [h], fid_name = Some name\<rparr>"

lemma renamed_directory_goes_blind_witness:
  "case collect_records demo_kernel 0 FAN_MOVED_FROM [demo_record 1 ''d''] demo_eager of (evs1, s1) \<Rightarrow>
     (case collect_records demo_kernel 0 FAN_MOVED_TO [demo_record 1 ''f''] s1 of (evs2, s2) \<Rightarrow>
        map we_path (evs1 @ evs2) = [Some ''d'', Some ''f''] \<and>
        collect_records demo_kernel 0 FAN_CREATE [demo_record 3 ''x''] s2 = ([], s2))"
proof -
  obtain evs1 s1 where 1: "collect_records demo_kernel 0 FAN_MOVED_FROM [demo_record 1 ''d''] demo_eager = (evs1, s1)" by (metis surj_pair)
  obtain evs2 s2 where 2: "collect_records demo_kernel 0 FAN_MOVED_TO [demo_record 1 ''f''] s1 = (evs2, s2)" by (metis surj_pair)
  have paths: "case collect_records demo_kernel 0 FAN_MOVED_FROM [demo_record 1 ''d''] demo_eager of (evs1, s1) \<Rightarrow>
     (case collect_records demo_kernel 0 FAN_MOVED_TO [demo_record 1 ''f''] s1 of (evs2, s2) \<Rightarrow>
        map we_path (evs1 @ evs2) = [Some ''d'', Some ''f''])" by code_simp
  have "collect_records demo_kernel 0 FAN_CREATE [demo_record 3 ''x''] s2 = ([], s2)"
  proof (rule renamed_directory_goes_blind [OF _ _ _ refl _ _ _ _ _ _ 1 2])
    show "\<not> lazy_handles demo_eager" by (simp add: demo_eager_def)
    show "distinct (map fst (handle_paths demo_eager))" by code_simp
    show "map_of (handle_paths demo_eager) (fid_handle (demo_record 1 ''d'')) = Some ''/s''" by code_simp
    show "source_relative_event_path demo_eager (join_name ''/s'' (fid_name (demo_record 1 ''d''))) \<noteq> None" by code_simp
    show "is_removal FAN_MOVED_FROM" "\<not> is_removal FAN_MOVED_TO" by code_simp+
    show "map_of (handle_paths demo_eager) (handle_key 1 [3]) = Some ''/s/d/e''" by code_simp
    show "path_starts_with ''/s/d/e'' (join_name ''/s'' (fid_name (demo_record 1 ''d'')))" by code_simp
    show "fid_handle (demo_record 3 ''x'') = handle_key 1 [3]" by (simp add: demo_record_def)
    fix parent q
    assume "map_of (handle_paths demo_eager) (fid_handle (demo_record 1 ''f'')) = Some parent"
      and q: "q = join_name parent (fid_name (demo_record 1 ''f''))"
    moreover have "map_of (handle_paths demo_eager) (fid_handle (demo_record 1 ''f'')) = Some ''/s''" by code_simp
    ultimately have q: "q = join_name ''/s'' (Some ''f'')" by (simp add: demo_record_def)
    show "handle_key_from_path demo_kernel q \<noteq> Inr (handle_key 1 [3])" unfolding q by code_simp
  qed
  with paths show ?thesis unfolding 1 2 prod.case by simp
qed

end
