(* ===== verification/Spec2Isabelle.thy ===== *)
theory Spec2Isabelle
  imports Prelude Delta Paths Calendar Config Scheduler Standby Cancel Signal Runtime Store Store_Log
    Store_Views Manifest Walk Storage Zfs Baselines Engine Engine_Pass Engine_Cycle Engine_Facts Engine_Runs
    Engine_Events Disk Receive Receive_Runs Receive_Publish Send Send_Arrival Send_Resume Push Push_Facts Push_Pass Local Local_Facts Local_Copy Progress Notify
    Watcher Watcher_Parse Watcher_Facts
begin

text \<open>
  A verification library for \<open>auto_sync\<close>, a daemon that mirrors directory trees between disks and
  machines.

  \<^bold>\<open>The program.\<close> A configuration (\<open>src/src/core/config.rs\<close>) names sources, each with destinations on this machine or
  on another, schedules and pools of cold disks. A watcher records the paths that change below a source as events of
  the source's open cycle in a state database (\<open>state.rs\<close>). When the schedule says so (\<open>scheduler.rs\<close>) the
  scheduler closes the cycle and makes it the target of every destination. The engine (\<open>sync/mod.rs\<close>) then
  drives each destination that is behind its target: through the standby gate (\<open>standby.rs\<close>), from the backlog of
  events, from two \<open>zfs diff\<close> reports or from a scan of both trees, by local copies or by requests to the peer that holds
  the destination. What it sends of a large file may be a block delta (\<open>sync/delta.rs\<close>). A destination that has
  all of the target is verified; one that failed keeps its target and is driven again. Users interrupt
  (\<open>cancel.rs\<close>), wake the scheduler (\<open>signal.rs\<close>), read progress (\<open>progress.rs\<close>), and peers learn of
  changes by notifications (\<open>peer_notify.rs\<close>).

  \<^bold>\<open>Ground.\<close>
  \<^item> \<open>Prelude\<close>: machine integers, little-endian bytes, the parts of Rust's string API the code calls, association
    lists as tables, and the simp rules on all of these.
  \<^item> \<open>Calendar\<close>: the calendar library as a record of operations with their documented laws (\<open>calendar_ok\<close>), and the
    locale \<open>weekly_cadence\<close>, which the scheduler and the standby manager interpret with their own cadence tests.
  \<^item> \<open>Paths\<close>: wire paths, joining below a root, exclude patterns, internal directories and temporary names (path
    helpers of \<open>sync/mod.rs\<close> and \<open>config.rs\<close>). Its locale \<open>subtree_filter\<close> is the contract of every filter that hides
    whole subtrees; it is interpreted for user excludes and for internal directories and serves the walk and the manifests.

  \<^bold>\<open>Configuration and time.\<close>
  \<^item> \<open>Config\<close>: the records of \<open>config.rs\<close> with serde's defaults, the cleaning on save, machine references, and all
    checks of \<open>validate\<close> in the order of the code; errors are values of \<open>error + 'a\<close>. Lemmas: what a saved configuration
    satisfies.
  \<^item> \<open>Scheduler\<close>: \<open>next_boundary_after\<close> and \<open>cycle_is_due\<close>. The weekly search runs over a bounded number of days, the code's own
    bound; it is shown to find the first selected instant.
  \<^item> \<open>Standby\<close>: wake windows, \<open>gate_for_sync\<close>, the spin-down manager with its state record. Lemmas: the backward scan
    decides coverage by an opening, the gate opens exactly when it should.

  \<^bold>\<open>Threads and process-wide cells.\<close>
  \<^item> \<open>Cancel\<close>: the registry, tokens and thread-local targets of \<open>cancel.rs\<close>; guards that restore a cell on drop share the
    locale \<open>scope_guard\<close>, also interpreted for the pass label of \<open>Runtime\<close>.
  \<^item> \<open>Signal\<close>: pending flag and condition variable as a step relation; no wake-up is lost.
  \<^item> \<open>Runtime\<close>: the transfer memory budget and the labels of a pass (\<open>sync/mod.rs\<close>).
  \<^item> \<open>Progress\<close>: the operation cells, the smoothed speed, the registry of transfers and scans and the choice of what is
    shown (\<open>progress.rs\<close>).
  \<^item> \<open>Notify\<close>: marking, debouncing and addressing of notifications (\<open>peer_notify.rs\<close>) as a step relation.

  \<^bold>\<open>The state database\<close> (\<open>state.rs\<close>) is the record \<open>db\<close> of \<open>Store\<close>, one list of rows per table, with one operation per
  SQL statement or function.
  \<^item> \<open>Store\<close>: cycles, events, destination offsets, configuration rows; the well-formedness \<open>db_ok\<close>, kept by each operation.
  \<^item> \<open>Store_Log\<close>: the step relation \<open>log_step\<close> of all engine operations with the invariant of everything reachable, and the
    locale \<open>cycle_log\<close>: an event log cut into cycles, its laws, and what a reader of the backlog may conclude. It is interpreted on the
    database's own operations.
  \<^item> \<open>Store_Views\<close>: issues, compare reports, restart notices, task log, journal cursors, status views.

  \<^bold>\<open>The Linux watcher\<close> (\<open>watcher/fanotify.rs\<close>).
  \<^item> \<open>Watcher\<close>: the layout of the kernel's buffers, handles and their cache, the rows of a read, the set-up with its fallbacks,
    the loop and its supervision. The record \<open>kernel\<close> holds the answers of the system calls during a read.
  \<^item> \<open>Watcher_Parse\<close>: nothing is read out of bounds; the kernel's encoding is read back. Both loops end since every record
    and event has a positive length.
  \<^item> \<open>Watcher_Facts\<close>: a read records exactly what was reported, losses are marked, and where the eager map goes wrong.

  \<^bold>\<open>Trees.\<close>
  \<^item> \<open>Manifest\<close>: when two entries match, the difference of two manifests, verification of a copy.
  \<^item> \<open>Walk\<close>: the breadth-first walk and the snapshots taken by it, over a tree that does not change meanwhile.
  \<^item> \<open>Storage\<close>: mount table and zpool output (\<open>storage.rs\<close>), the rotational verdict, nested mounts.
  \<^item> \<open>Zfs\<close>: parsing of \<open>zfs diff\<close>, source snapshots and their clean-up, destination baselines.
  \<^item> \<open>Baselines\<close>: a specification of what two diffs against verified baselines determine, and that the code's union of them
    finds all a full compare finds.

  \<^bold>\<open>The engine\<close> (\<open>sync/mod.rs\<close>).
  \<^item> \<open>Engine\<close>: manual requests, failures, plans, the three passes over a cycle, the loop over pending cycles. A state is the
    database with the ZFS world; an environment holds the outcomes of the copy work of one pass.
  \<^item> \<open>Engine_Pass\<close>, \<open>Engine_Cycle\<close>: every pass is a sequence of \<open>pass_step\<close>s, each a step of the database: the engine refines
    \<open>log_step\<close>. The loop \<open>drive_loop\<close> takes fuel; any fuel above the number of destinations behind their target is enough,
    as each round that repeats brings at least one destination to its target.
  \<^item> \<open>Engine_Facts\<close>, \<open>Engine_Events\<close>, \<open>Engine_Runs\<close>: which destinations are driven, when one is verified, what the plan and
    the repair hand out, and a concrete instance with two machines.

  \<^bold>\<open>Files and transfers\<close> (\<open>sync/mod.rs\<close>, one endpoint of \<open>web_api.rs\<close>).
  \<^item> \<open>Delta\<close>: \<open>delta.rs\<close>, from block sums to the encoded operations and back.
  \<^item> \<open>Disk\<close>: the part of \<open>std::fs\<close> in use, over a map from names to nodes; an I/O action returns a value or an error and the new
    disk.
  \<^item> \<open>Receive\<close>: every endpoint a sender calls; \<open>serve\<close> dispatches a request. \<open>Receive_Runs\<close> holds the rules for successful runs
    and the locale \<open>run_relation\<close>: a reflexive, transitive relation between the disks before and after an action is kept by
    each combinator. Its interpretations say that a request stays below its root (\<open>within\<close>), keeps the kinds of nodes
    (\<open>kinds\<close>), keeps the content of a key (\<open>keeping\<close>), touches only certain keys (\<open>keeping_keys\<close>).
    \<open>Receive_Publish\<close> shows what a request leaves: published files, trash, assembled deltas.
  \<^item> \<open>Send\<close>: how a file, link or batch goes to a peer: one request, a resumed stream, legacy chunks, a delta with its
    fallbacks, three attempts (the code's bound). \<open>Send_Arrival\<close>: an acknowledged push has arrived. \<open>Send_Resume\<close>: interruptions
    leave beginnings of the content, which the next attempt completes.
  \<^item> \<open>Push\<close>: the plan of work items, the pool with its failure cap, passes over manifests and changed paths. The pool is a
    relation over every interleaving of its workers. Requests are sent in pieces; the fuel of the splitting is the length of
    the list, enough as each piece is not empty. \<open>Push_Facts\<close>, \<open>Push_Pass\<close>: the plan loses nothing, the accounts add up,
    pieces have the effect of one request, a pass without an error had every item acknowledged.
  \<^item> \<open>Local\<close>: passes on one machine: clone, \<open>copy_file_range\<close>, streaming loop, links, the pool of copies, reconcile passes and
    their endpoints. \<open>Local_Copy\<close>: a published file is complete. \<open>Local_Facts\<close>: the source's entries are in place, the extras
    are gone, and all that was written is reported for verification.

  \<^bold>\<open>Parameters.\<close> blake3, chrono, the \<open>zfs\<close>, \<open>zpool\<close> and \<open>hdparm\<close> commands, sysfs, directory listings, device ids, clock
  readings, what the reads of a changing source deliver and what the network reaches are arguments of the definitions
  or fields of an environment. Theorems assume of them only documented behaviour, named as hypotheses, for instance that a
  strong hash separates the blocks at hand, and each such theorem is applied to a concrete instance.

  \<^bold>\<open>Conventions.\<close> Paths follow the rules of Unix. A string is a list of characters of one byte; in \<open>Zfs\<close> these are the bytes of
  UTF-8. Times are nanoseconds or milliseconds in int or nat. Counters whose wrap-around matters are words. A panic
  or early return is a branch of the result.

  \<^bold>\<open>Not modelled.\<close>
  \<^item> Errors of SQLite, log output, permissions that refuse, \<open>fsync\<close>, a second device below a destination, and links on the way
    to a name: the disk of \<open>Disk\<close> looks names up component by component without following links.
  \<^item> The branches for Windows and \<open>watcher/windows_usn.rs\<close>, which read the journal of the Windows kernel.
  \<^item> \<open>machines.rs\<close> but for failure reports and machine names: HTTP and UDP exchange with peers. Passes whose source is on another
    machine are delegated to it over HTTP and appear in the engine as an outcome.
  \<^item> \<open>backend.rs\<close>, \<open>web_api.rs\<close>: routing of requests and service threads over operations that are modelled.
  \<^item> \<open>collector.rs\<close>: gathering of application files by platform-specific places.
  \<^item> \<open>status.rs\<close>, \<open>logging.rs\<close>, \<open>bin/auto_sync.rs\<close>: probes, log set-up and argument parsing.
\<close>

end
